(* ===== verification/Prelude.thy ===== *)
theory Prelude
  imports Main "HOL-Library.AList" "HOL-Library.Sublist"
begin

text \<open>
  Shared vocabulary of the development: identifiers and time, database tables as
  association lists with the laws their clients use, exceptions as values, database
  transactions with roll back, and the PHP string functions the sources call.

  A table keyed by a primary (or unique) key is an association list; \<open>tbl_get\<close> is
  Eloquent's \<open>whereKey(..)->first()\<close>, \<open>tbl_put\<close> an insert or a save of a row under its
  key, \<open>tbl_rows\<close> the rows in storage order, which the sweeping commands filter and order.
  Time is a whole number of seconds, the resolution at which Eloquent stores dates.
  Strings are lists of characters.
\<close>

named_theorems tbl_simps \<open>look-ups and row-wise updates of tables\<close>
named_theorems txn_simps \<open>transactions on concrete outcomes\<close>

type_synonym uuid = string
type_synonym time = int
type_synonym ('k, 'r) tbl = "('k \<times> 'r) list"

section \<open>Tables\<close>

definition tbl_get :: "('k, 'r) tbl \<Rightarrow> 'k \<Rightarrow> 'r option" where
  "tbl_get t k = map_of t k"

definition tbl_put :: "'k \<Rightarrow> 'r \<Rightarrow> ('k, 'r) tbl \<Rightarrow> ('k, 'r) tbl" where
  "tbl_put k r t = AList.update k r t"

definition tbl_del :: "'k \<Rightarrow> ('k, 'r) tbl \<Rightarrow> ('k, 'r) tbl" where
  "tbl_del k t = AList.delete k t"

definition tbl_rows :: "('k, 'r) tbl \<Rightarrow> 'r list" where
  "tbl_rows t = map snd t"

text \<open>
  The interface its clients rely on: what a look-up returns after an insert, a save or a
  delete. \<open>adjust\<close> is the row-wise update \<open>whereKey(k)->where(P)->update(f)\<close>.
\<close>

locale keyed_store =
  fixes get :: "'t \<Rightarrow> 'k \<Rightarrow> 'r option"
    and put :: "'k \<Rightarrow> 'r \<Rightarrow> 't \<Rightarrow> 't"
    and del :: "'k \<Rightarrow> 't \<Rightarrow> 't"
  assumes get_put: "get (put k r t) k' = (if k' = k then Some r else get t k')"
    and get_del: "get (del k t) k' = (if k' = k then None else get t k')"
begin

lemma get_put_same: "get (put k r t) k = Some r"
  by (simp add: get_put)

lemma get_put_other: "k' \<noteq> k \<Longrightarrow> get (put k r t) k' = get t k'"
  by (simp add: get_put)

lemma put_put_get: "get (put k r (put k r' t)) = get (put k r t)"
  by (rule ext) (simp add: get_put)

lemma put_commute_get: "k \<noteq> l \<Longrightarrow> get (put k r (put l s t)) = get (put l s (put k r t))"
  by (rule ext) (auto simp: get_put)

lemma put_existing_get: "get t k = Some r \<Longrightarrow> get (put k r t) = get t"
  by (rule ext) (auto simp: get_put)

lemma get_adjust:
  "get (case get t k of Some r \<Rightarrow> (if P r then put k (f r) t else t) | None \<Rightarrow> t) k' =
     (case get t k' of
        Some r \<Rightarrow> Some (if k' = k \<and> P r then f r else r)
      | None \<Rightarrow> None)"
  by (auto simp: get_put split: option.splits)

end

interpretation tbl: keyed_store tbl_get tbl_put tbl_del
  by unfold_locales
    (auto simp: tbl_get_def tbl_put_def tbl_del_def update_conv' map_of_delete delete_conv')

lemmas [tbl_simps] = tbl.get_put tbl.get_del

lemma tbl_get_Nil [simp]: "tbl_get [] k = None"
  by (simp add: tbl_get_def)

lemma tbl_get_Cons [simp]: "tbl_get ((k, r) # t) k' = (if k' = k then Some r else tbl_get t k')"
  by (simp add: tbl_get_def)

lemma tbl_get_rows: "tbl_get t k = Some r \<Longrightarrow> r \<in> set (tbl_rows t)"
  by (auto simp: tbl_get_def tbl_rows_def dest: map_of_SomeD intro: rev_image_eqI)

text \<open>The row-wise conditional update, and the number of rows it reports as affected.\<close>

definition tbl_update_where ::
  "'k \<Rightarrow> ('r \<Rightarrow> bool) \<Rightarrow> ('r \<Rightarrow> 'r) \<Rightarrow> ('k, 'r) tbl \<Rightarrow> nat \<times> ('k, 'r) tbl" where
  "tbl_update_where k P f t =
     (case tbl_get t k of
        Some r \<Rightarrow> (if P r then (1, tbl_put k (f r) t) else (0, t))
      | None \<Rightarrow> (0, t))"

lemma tbl_update_where_get [tbl_simps]:
  "tbl_get (snd (tbl_update_where k P f t)) k' =
     (case tbl_get t k' of
        Some r \<Rightarrow> Some (if k' = k \<and> P r then f r else r)
      | None \<Rightarrow> None)"
  by (auto simp: tbl_update_where_def tbl.get_put split: option.splits)

lemma tbl_update_where_count [tbl_simps]:
  "fst (tbl_update_where k P f t) = (case tbl_get t k of Some r \<Rightarrow> (if P r then 1 else 0) | None \<Rightarrow> 0)"
  by (auto simp: tbl_update_where_def split: option.splits)

section \<open>Exceptions and transactions\<close>

text \<open>
  The exceptions the modelled code throws, with their arguments. \<open>OutboundSendException\<close>
  carries the error code, the user message and the HTTP status.
\<close>

datatype exn =
    OutboundSendException string string nat
  | RuntimeException string
  | InvalidArgumentException string
  | AuthorizationException string
  | TypeError

fun error_code :: "exn \<Rightarrow> string option" where
  "error_code (OutboundSendException c m s) = Some c"
| "error_code _ = None"

type_synonym ('s, 'a) outcome = "(exn + 'a) \<times> 's"

text \<open>Running the next step on the value of a step that returned, and stopping otherwise.\<close>

definition and_then :: "('s, 'a) outcome \<Rightarrow> ('a \<Rightarrow> 's \<Rightarrow> ('s, 'b) outcome) \<Rightarrow> ('s, 'b) outcome" where
  "and_then r f = (case r of (Inl e, s) \<Rightarrow> (Inl e, s) | (Inr a, s) \<Rightarrow> f a s)"

lemma and_then_simps [simp]:
  "and_then (Inl e, s) f = (Inl e, s)"
  "and_then (Inr a, s) f = f a s"
  by (simp_all add: and_then_def)

lemma and_then_Inr_iff:
  "and_then r f = (Inr b, s) \<longleftrightarrow> (\<exists>a s'. r = (Inr a, s') \<and> f a s' = (Inr b, s))"
  by (auto simp: and_then_def split: prod.splits sum.splits)

section \<open>PHP strings\<close>

definition to_lower_char :: "char \<Rightarrow> char" where
  "to_lower_char c =
     (let n = (of_char c :: nat) in if 65 \<le> n \<and> n \<le> 90 then char_of (n + 32) else c)"

text \<open>The same on the bits of a character, for evaluation.\<close>

definition letter_bits :: "bool \<Rightarrow> bool \<Rightarrow> bool \<Rightarrow> bool \<Rightarrow> bool \<Rightarrow> bool" where
  "letter_bits b0 b1 b2 b3 b4 \<longleftrightarrow> (b4 \<or> b3 \<or> b2 \<or> b1 \<or> b0) \<and> \<not> (b4 \<and> b3 \<and> (b2 \<or> b1 \<and> b0))"

lemma to_lower_char_code [code]:
  "to_lower_char (Char b0 b1 b2 b3 b4 b5 b6 b7) =
     Char b0 b1 b2 b3 b4 (b5 \<or> \<not> b7 \<and> b6 \<and> letter_bits b0 b1 b2 b3 b4) b6 b7"
  by (cases b0; cases b1; cases b2; cases b3; cases b4; cases b5; cases b6; cases b7)
     (simp_all add: to_lower_char_def letter_bits_def char_of_def bit_numeral_simps bit_Suc_0_iff)

definition strtolower :: "string \<Rightarrow> string" where
  "strtolower s = map to_lower_char s"

definition is_trim_char :: "char \<Rightarrow> bool" where
  "is_trim_char c \<longleftrightarrow> (of_char c :: nat) \<in> {32, 9, 10, 13, 0, 11}"

definition trim :: "string \<Rightarrow> string" where
  "trim s = rev (dropWhile is_trim_char (rev (dropWhile is_trim_char s)))"

definition mb_substr0 :: "string \<Rightarrow> nat \<Rightarrow> string" where
  "mb_substr0 s n = take n s"

definition str_starts_with :: "string \<Rightarrow> string \<Rightarrow> bool" where
  "str_starts_with s p \<longleftrightarrow> take (length p) s = p"

fun str_contains :: "string \<Rightarrow> string \<Rightarrow> bool" where
  "str_contains [] p = (p = [])"
| "str_contains (c # s) p = (str_starts_with (c # s) p \<or> str_contains s p)"

text \<open>\<open>explode\<close> with a one-character separator, \<open>rtrim\<close> of one character, \<open>implode\<close>.\<close>

fun explode :: "char \<Rightarrow> string \<Rightarrow> string list" where
  "explode d [] = [[]]"
| "explode d (c # s) =
     (if c = d then [] # explode d s
      else (case explode d s of [] \<Rightarrow> [[c]] | p # ps \<Rightarrow> (c # p) # ps))"

definition rtrim_char :: "char \<Rightarrow> string \<Rightarrow> string" where
  "rtrim_char d s = rev (dropWhile (\<lambda>c. c = d) (rev s))"

fun implode :: "'a list \<Rightarrow> 'a list list \<Rightarrow> 'a list" where
  "implode sep [] = []"
| "implode sep [s] = s"
| "implode sep (s # ss) = s @ sep @ implode sep ss"

text \<open>\<open>array_unique\<close> keeps the first of equal values.\<close>

definition array_unique :: "'a list \<Rightarrow> 'a list" where
  "array_unique xs = rev (remdups (rev xs))"

lemma array_unique_simps [simp]:
  "set (array_unique xs) = set xs" "distinct (array_unique xs)" "(array_unique xs = []) = (xs = [])"
  by (simp_all add: array_unique_def)

text \<open>A PHP string is falsy when it is empty or \<open>"0"\<close>.\<close>

definition truthy :: "string \<Rightarrow> bool" where
  "truthy s \<longleftrightarrow> s \<noteq> [] \<and> s \<noteq> ''0''"

text \<open>\<open>hexdec\<close>: the digits of the string in base 16; other characters are skipped.\<close>

definition hex_digit :: "char \<Rightarrow> nat option" where
  "hex_digit c =
     (let n = (of_char c :: nat) in
      if 48 \<le> n \<and> n \<le> 57 then Some (n - 48)
      else if 97 \<le> n \<and> n \<le> 102 then Some (n - 87)
      else if 65 \<le> n \<and> n \<le> 70 then Some (n - 55)
      else None)"

definition hexdec :: "string \<Rightarrow> nat" where
  "hexdec s = fold (\<lambda>c n. case hex_digit c of Some d \<Rightarrow> 16 * n + d | None \<Rightarrow> n) s 0"

text \<open>Decimal rendering of integers, as PHP's string conversion does.\<close>

fun nat_to_string :: "nat \<Rightarrow> string" where
  "nat_to_string n =
     (if n < 10 then [char_of (48 + n)] else nat_to_string (n div 10) @ [char_of (48 + n mod 10)])"

declare nat_to_string.simps [simp del]

definition int_to_string :: "int \<Rightarrow> string" where
  "int_to_string i = (if i < 0 then CHR ''-'' # nat_to_string (nat (- i)) else nat_to_string (nat i))"

section \<open>Floating point\<close>

text \<open>
  A positive double is a pair \<open>(m, e)\<close> standing for \<open>m * 2 ^ e\<close>. \<open>round_double n d\<close> is the
  double nearest to \<open>n / d\<close> (ties to even, normal range), so \<open>floor_percent c l\<close> computes
  \<open>(int) floor(($c / $l) * 100)\<close> with the two roundings PHP performs.
\<close>

function bit_len :: "int \<Rightarrow> int" where
  "bit_len n = (if n \<le> 0 then 0 else 1 + bit_len (n div 2))"
  by pat_completeness auto
termination by (relation "measure nat") auto

declare bit_len.simps [simp del]

definition scaled_div :: "int \<Rightarrow> int \<Rightarrow> int \<Rightarrow> int \<times> int \<times> int" where
  "scaled_div n d s =
     (let n' = (if 0 \<le> s then n * 2 ^ nat s else n); d' = (if 0 \<le> s then d else d * 2 ^ nat (- s))
      in (n' div d', n' mod d', d'))"

definition round_double :: "int \<Rightarrow> int \<Rightarrow> int \<times> int" where
  "round_double n d =
     (let s0 = 53 - (bit_len n - bit_len d);
          s = (if fst (scaled_div n d s0) < 2 ^ 53 then s0 else s0 - 1)
      in case scaled_div n d s of (q, r, d') \<Rightarrow>
           ((if d' < 2 * r \<or> (2 * r = d' \<and> odd q) then q + 1 else q), - s))"

definition floor_percent :: "int \<Rightarrow> int \<Rightarrow> int" where
  "floor_percent c l =
     (if c \<le> 0 then 0
      else case round_double c l of (m, e) \<Rightarrow>
        (let (n1, d1) = (if 0 \<le> e then (m * 2 ^ nat e * 100, 1) else (m * 100, 2 ^ nat (- e)))
         in case round_double n1 d1 of (m2, e2) \<Rightarrow>
              if 0 \<le> e2 then m2 * 2 ^ nat e2 else m2 div 2 ^ nat (- e2)))"

section \<open>String lemmas\<close>

text \<open>The decimal rendering can be read back, so it is injective.\<close>

definition digits_value :: "string \<Rightarrow> nat" where
  "digits_value s = fold (\<lambda>c n. 10 * n + (of_char c - 48)) s 0"

lemma digits_value_nat_to_string: "digits_value (nat_to_string n) = n"
proof (induction n rule: nat_to_string.induct)
  case (1 n)
  show ?case
  proof (cases "n < 10")
    case True
    then show ?thesis by (simp add: nat_to_string.simps [of n] digits_value_def)
  next
    case False
    have "of_char (char_of (48 + n mod 10) :: char) = (48 + n mod 10 :: nat)" by simp
    with False 1 show ?thesis
      by (simp add: nat_to_string.simps [of n] digits_value_def)
  qed
qed

lemma nat_to_string_inj: "nat_to_string m = nat_to_string n \<longleftrightarrow> m = n"
  by (metis digits_value_nat_to_string)

lemma strtolower_nat_to_string [simp]: "strtolower (nat_to_string n) = nat_to_string n"
proof (induction n rule: nat_to_string.induct)
  case (1 n)
  have digit: "to_lower_char (char_of (48 + k)) = char_of (48 + k)" if "k < 10" for k :: nat
    using that by (simp add: to_lower_char_def)
  show ?case
    using 1 digit [of n] digit [of "n mod 10"]
    by (simp add: nat_to_string.simps [of n] strtolower_def)
qed

lemma nat_to_string_nonempty [simp]: "nat_to_string n \<noteq> []"
  by (simp add: nat_to_string.simps [of n])

lemma strtolower_append [simp]: "strtolower (a @ b) = strtolower a @ strtolower b"
  by (simp add: strtolower_def)

lemma to_lower_char_idem [simp]: "to_lower_char (to_lower_char c) = to_lower_char c"
  by (auto simp: to_lower_char_def Let_def)

lemma strtolower_idem [simp]: "strtolower (strtolower s) = strtolower s"
  by (simp add: strtolower_def comp_def)

lemma length_strtolower [simp]: "length (strtolower s) = length s"
  by (simp add: strtolower_def)

lemma to_lower_char_trim [simp]: "is_trim_char (to_lower_char c) = is_trim_char c"
  by (auto simp: to_lower_char_def is_trim_char_def Let_def)

lemma dropWhile_strtolower:
  "dropWhile is_trim_char (map to_lower_char s) = map to_lower_char (dropWhile is_trim_char s)"
  by (simp add: dropWhile_map comp_def)

lemma trim_strtolower: "trim (strtolower s) = strtolower (trim s)"
  by (simp add: trim_def strtolower_def dropWhile_strtolower rev_map)

lemma dropWhile_idem [simp]: "dropWhile P (dropWhile P xs) = dropWhile P xs"
  by (induction xs) auto

lemma dropWhile_rev_dropWhile:
  "dropWhile P (rev (dropWhile P (rev (dropWhile P xs)))) = rev (dropWhile P (rev (dropWhile P xs)))"
proof (cases "dropWhile P xs")
  case Nil
  then show ?thesis by (simp del: dropWhile_eq_Nil_conv)
next
  case (Cons y ys)
  then have "\<not> P y" by (metis dropWhile_eq_Cons_conv)
  then have "dropWhile P (rev ys @ [y]) = dropWhile P (rev ys) @ [y]"
    by (cases "\<exists>z \<in> set (rev ys). \<not> P z") (auto simp: dropWhile_append)
  with Cons \<open>\<not> P y\<close> show ?thesis by simp
qed

lemma trim_idem [simp]: "trim (trim s) = trim s"
  by (simp add: trim_def dropWhile_rev_dropWhile)

lemma length_dropWhile_bound: "length (dropWhile P xs) \<le> length xs"
  by (rule length_dropWhile_le)

lemma length_trim_le: "length (trim s) \<le> length s"
  unfolding trim_def
  by (metis length_dropWhile_bound length_rev le_trans)

end
