(* ===== verification/Enums.thy ===== *)
theory Enums
  imports Prelude
begin

text \<open>
  The enumerations of \<open>app/Enums\<close> that drive the outbound pipeline, with the predicates
  the code defines on them. \<open>of_value\<close> functions are PHP's \<open>tryFrom\<close>, \<open>*_value\<close> the
  backing strings.
\<close>

section \<open>Message states (OutboundMessageState)\<close>

datatype message_state = Draft | Scheduled | Queued | Sending | Sent | Delivered | Failed | Cancelled

fun state_value :: "message_state \<Rightarrow> string" where
  "state_value Draft = ''draft''"
| "state_value Scheduled = ''scheduled''"
| "state_value Queued = ''queued''"
| "state_value Sending = ''sending''"
| "state_value Sent = ''sent''"
| "state_value Delivered = ''delivered''"
| "state_value Failed = ''failed''"
| "state_value Cancelled = ''cancelled''"

definition is_terminal :: "message_state \<Rightarrow> bool" where
  "is_terminal s \<longleftrightarrow> s \<in> {Delivered, Cancelled} \<or> s = Failed"

definition is_editable :: "message_state \<Rightarrow> bool" where
  "is_editable s \<longleftrightarrow> s = Draft"

definition is_schedulable :: "message_state \<Rightarrow> bool" where
  "is_schedulable s \<longleftrightarrow> s = Draft"

definition is_reschedulable :: "message_state \<Rightarrow> bool" where
  "is_reschedulable s \<longleftrightarrow> s = Scheduled"

definition is_unschedulable :: "message_state \<Rightarrow> bool" where
  "is_unschedulable s \<longleftrightarrow> s = Scheduled"

definition is_queueable :: "message_state \<Rightarrow> bool" where
  "is_queueable s \<longleftrightarrow> s \<in> {Draft, Scheduled, Failed}"

definition is_retryable :: "message_state \<Rightarrow> bool" where
  "is_retryable s \<longleftrightarrow> s = Failed"

definition blocks_stale_job_mutation :: "message_state \<Rightarrow> bool" where
  "blocks_stale_job_mutation s \<longleftrightarrow> s \<in> {Sent, Delivered, Cancelled, Failed}"

fun allowed_transitions :: "message_state \<Rightarrow> message_state list" where
  "allowed_transitions Draft = [Scheduled, Queued]"
| "allowed_transitions Scheduled = [Scheduled, Draft, Queued, Cancelled]"
| "allowed_transitions Queued = [Sending, Cancelled]"
| "allowed_transitions Sending = [Sent, Failed, Queued]"
| "allowed_transitions Sent = [Delivered, Failed]"
| "allowed_transitions Failed = [Queued]"
| "allowed_transitions Delivered = []"
| "allowed_transitions Cancelled = []"

definition can_transition_to :: "message_state \<Rightarrow> message_state \<Rightarrow> bool" where
  "can_transition_to s t \<longleftrightarrow> t \<in> set (allowed_transitions s)"

fun precedence_rank :: "message_state \<Rightarrow> nat" where
  "precedence_rank Cancelled = 0"
| "precedence_rank Delivered = 1"
| "precedence_rank Failed = 2"
| "precedence_rank Sent = 3"
| "precedence_rank Sending = 4"
| "precedence_rank Queued = 5"
| "precedence_rank Scheduled = 6"
| "precedence_rank Draft = 7"

definition outranks_or_equals :: "message_state \<Rightarrow> message_state \<Rightarrow> bool" where
  "outranks_or_equals s t \<longleftrightarrow> precedence_rank s \<le> precedence_rank t"

text \<open>
  The lifecycle graph: any sequence of allowed transitions. Two facts about it are used by
  every component: nothing leaves the final states, and a message that was sent never
  becomes editable or cancelled again.
\<close>

inductive lifecycle :: "message_state \<Rightarrow> message_state \<Rightarrow> bool" where
  lc_refl: "lifecycle s s"
| lc_step: "can_transition_to s t \<Longrightarrow> lifecycle t u \<Longrightarrow> lifecycle s u"

inductive_cases lifecycle_cases: "lifecycle s u"

lemma lifecycle_trans: "lifecycle s t \<Longrightarrow> lifecycle t u \<Longrightarrow> lifecycle s u"
  by (induction rule: lifecycle.induct) (auto intro: lifecycle.intros)

lemma lifecycle_one: "can_transition_to s t \<Longrightarrow> lifecycle s t"
  by (blast intro: lifecycle.intros)

lemma lifecycle_final: "lifecycle s u \<Longrightarrow> s \<in> {Delivered, Cancelled} \<Longrightarrow> u = s"
  by (induction rule: lifecycle.induct) (auto simp: can_transition_to_def)

lemma lifecycle_sent_closed:
  "lifecycle s u \<Longrightarrow> s \<notin> {Draft, Scheduled} \<Longrightarrow> u \<notin> {Draft, Scheduled}"
proof (induction rule: lifecycle.induct)
  case (lc_refl s)
  then show ?case .
next
  case (lc_step s t u)
  then have "t \<notin> {Draft, Scheduled}"
    by (cases s) (auto simp: can_transition_to_def)
  with lc_step show ?case by blast
qed

section \<open>Transport results (OutboundTransportResult)\<close>

datatype transport_result =
    Accepted | Rejected | TemporaryFailure | PermanentFailure | ConfigurationFailure

fun transport_result_value :: "transport_result \<Rightarrow> string" where
  "transport_result_value Accepted = ''accepted''"
| "transport_result_value Rejected = ''rejected''"
| "transport_result_value TemporaryFailure = ''temporary_failure''"
| "transport_result_value PermanentFailure = ''permanent_failure''"
| "transport_result_value ConfigurationFailure = ''configuration_failure''"

definition transport_result_try_from :: "string \<Rightarrow> transport_result option" where
  "transport_result_try_from s =
     (if s = ''accepted'' then Some Accepted
      else if s = ''rejected'' then Some Rejected
      else if s = ''temporary_failure'' then Some TemporaryFailure
      else if s = ''permanent_failure'' then Some PermanentFailure
      else if s = ''configuration_failure'' then Some ConfigurationFailure
      else None)"

lemma transport_result_try_from_value [simp]:
  "transport_result_try_from (transport_result_value r) = Some r"
  by (cases r) (simp_all add: transport_result_try_from_def)

definition is_success :: "transport_result \<Rightarrow> bool" where
  "is_success r \<longleftrightarrow> r = Accepted"

definition result_is_retryable :: "transport_result \<Rightarrow> bool" where
  "result_is_retryable r \<longleftrightarrow> r = TemporaryFailure"

fun to_message_state :: "transport_result \<Rightarrow> bool \<Rightarrow> message_state" where
  "to_message_state Accepted scheduleRetry = Sent"
| "to_message_state TemporaryFailure scheduleRetry = (if scheduleRetry then Queued else Failed)"
| "to_message_state Rejected scheduleRetry = Failed"
| "to_message_state PermanentFailure scheduleRetry = Failed"
| "to_message_state ConfigurationFailure scheduleRetry = Failed"

lemma to_message_state_allowed: "can_transition_to Sending (to_message_state r b)"
  by (cases r) (auto simp: can_transition_to_def)

section \<open>Attempt, reservation and operation enumerations\<close>

datatype attempt_state = Attempted | AttAccepted | AttTemporaryFailure | AttPermanentFailure | Ambiguous

definition attempt_is_terminal :: "attempt_state \<Rightarrow> bool" where
  "attempt_is_terminal s \<longleftrightarrow> s \<noteq> Attempted"

datatype reservation_state = Reserved | Committed | Released | Expired

fun reservation_value :: "reservation_state \<Rightarrow> string" where
  "reservation_value Reserved = ''reserved''"
| "reservation_value Committed = ''committed''"
| "reservation_value Released = ''released''"
| "reservation_value Expired = ''expired''"

definition reservation_is_terminal :: "reservation_state \<Rightarrow> bool" where
  "reservation_is_terminal s \<longleftrightarrow> s \<noteq> Reserved"

datatype operation = OpSend | OpReply | OpForward

fun operation_value :: "operation \<Rightarrow> string" where
  "operation_value OpSend = ''send''"
| "operation_value OpReply = ''reply''"
| "operation_value OpForward = ''forward''"

fun feature_key :: "operation \<Rightarrow> string" where
  "feature_key OpSend = ''send_email''"
| "feature_key OpReply = ''reply_email''"
| "feature_key OpForward = ''forward_email''"

definition requires_source_email :: "operation \<Rightarrow> bool" where
  "requires_source_email p \<longleftrightarrow> p = OpReply \<or> p = OpForward"

datatype user_status = UActive | UPending | USuspended | UBanned

datatype reset_period = Daily | Weekly | Monthly | Yearly

fun reset_period_value :: "reset_period \<Rightarrow> string" where
  "reset_period_value Daily = ''daily''"
| "reset_period_value Weekly = ''weekly''"
| "reset_period_value Monthly = ''monthly''"
| "reset_period_value Yearly = ''yearly''"

definition reset_period_try_from :: "string \<Rightarrow> reset_period option" where
  "reset_period_try_from s =
     (if s = ''daily'' then Some Daily
      else if s = ''weekly'' then Some Weekly
      else if s = ''monthly'' then Some Monthly
      else if s = ''yearly'' then Some Yearly
      else None)"

datatype subscription_status = SubTrial | SubActive | SubCancelled | SubExpired

datatype platform_role = RoleUser | RoleOperator | RoleAdmin

datatype domain_auth_state = AuthUnconfigured | AuthPending | AuthVerified | AuthDegraded | AuthFailed

datatype scan_status = ScanPending | ScanScanning | ScanClean | ScanInfected | ScanFailed | ScanSkipped

end
