(* ===== verification/Audit_Log.thy ===== *)
theory Audit_Log
  imports Prelude
begin

text \<open>
  \<open>app/Services/Audit\<close>: the audit record, and the payload sanitizer every audit write
  passes its old values, new values and metadata through. PHP values are a datatype; a PHP
  array is its list of key/value pairs in insertion order, keys written as strings.
\<close>

section \<open>PHP values\<close>

datatype php =
    PNull
  | PBool bool
  | PInt int
  | PFloat string
  | PStr string
  | PDate time
  | PArr "(string \<times> php) list"
  | PObj string

type_synonym payload = "(string \<times> php) list"

section \<open>AuditPayloadSanitizer\<close>

definition max_depth :: nat where
  "max_depth = 8"

definition max_string_length :: nat where
  "max_string_length = 4096"

definition deny_keys :: "string list" where
  "deny_keys =
     [''password'', ''plaintexttoken'', ''token'', ''secret'', ''keyhash'', ''hash'',
      ''credential'', ''privatekey'', ''authorization'', ''requestbody'', ''responsebody'',
      ''headers'', ''cookies'', ''rawpayload'']"

definition is_alnum_ci :: "char \<Rightarrow> bool" where
  "is_alnum_ci c \<longleftrightarrow>
     (let n = (of_char c :: nat) in
       (48 \<le> n \<and> n \<le> 57) \<or> (65 \<le> n \<and> n \<le> 90) \<or> (97 \<le> n \<and> n \<le> 122))"

lemma is_alnum_ci_code [code]:
  "is_alnum_ci (Char b0 b1 b2 b3 b4 b5 b6 b7) \<longleftrightarrow>
     \<not> b7 \<and> (b6 \<and> letter_bits b0 b1 b2 b3 b4 \<or> \<not> b6 \<and> b5 \<and> b4 \<and> (\<not> b3 \<or> \<not> b2 \<and> \<not> b1))"
  by (cases b0; cases b1; cases b2; cases b3; cases b4; cases b5; cases b6; cases b7)
     (simp_all add: is_alnum_ci_def letter_bits_def)

definition normalize_key :: "string \<Rightarrow> string" where
  "normalize_key k = strtolower (filter is_alnum_ci k)"

definition is_denied_key :: "string \<Rightarrow> bool" where
  "is_denied_key k \<longleftrightarrow>
     (let n = normalize_key k in
       n \<in> set deny_keys \<or> str_contains n ''token'' \<or> str_contains n ''authorization'')"

text \<open>Evaluation of the truncation compares lengths as binary integers.\<close>

fun fits :: "string \<Rightarrow> int \<Rightarrow> bool" where
  "fits [] k = (0 \<le> k)"
| "fits (c # t) k = (0 < k \<and> fits t (k - 1))"

definition clip_to :: "string \<Rightarrow> int \<Rightarrow> string" where
  "clip_to s k = (if fits s k then s else take (nat k) s)"

lemma fits_iff: "fits t k \<longleftrightarrow> int (length t) \<le> k"
  by (induction t arbitrary: k) auto

lemma mb_substr0_code [code_unfold]: "mb_substr0 s max_string_length = clip_to s 4096"
  by (auto simp: mb_substr0_def clip_to_def fits_iff max_string_length_def)

text \<open>
  \<open>sanitize_items\<close> is the loop body of \<open>sanitizeArray\<close> below the depth limit. The
  argument \<open>fmt\<close> is \<open>DateTimeInterface::format(DATE_ATOM)\<close>.
\<close>

fun sanitize_value :: "(time \<Rightarrow> string) \<Rightarrow> php \<Rightarrow> nat \<Rightarrow> php"
  and sanitize_items :: "(time \<Rightarrow> string) \<Rightarrow> payload \<Rightarrow> nat \<Rightarrow> payload" where
  "sanitize_value fmt v d =
     (if max_depth \<le> d then PNull
      else case v of
          PDate t \<Rightarrow> PStr (fmt t)
        | PStr s \<Rightarrow> PStr (mb_substr0 s max_string_length)
        | PInt i \<Rightarrow> PInt i
        | PFloat f \<Rightarrow> PFloat f
        | PBool b \<Rightarrow> PBool b
        | PNull \<Rightarrow> PNull
        | PArr xs \<Rightarrow> PArr (sanitize_items fmt xs d)
        | PObj c \<Rightarrow> PNull)"
| "sanitize_items fmt [] d = []"
| "sanitize_items fmt ((k, item) # xs) d =
     (if is_denied_key k then sanitize_items fmt xs d
      else let s = sanitize_value fmt item (Suc d)
           in if s \<noteq> PNull \<or> item = PNull then (k, s) # sanitize_items fmt xs d
              else sanitize_items fmt xs d)"

declare sanitize_value.simps [simp del]

definition sanitize_array :: "(time \<Rightarrow> string) \<Rightarrow> payload \<Rightarrow> nat \<Rightarrow> payload" where
  "sanitize_array fmt xs d = (if max_depth \<le> d then [] else sanitize_items fmt xs d)"

definition sanitize :: "(time \<Rightarrow> string) \<Rightarrow> payload option \<Rightarrow> payload option" where
  "sanitize fmt p = (case p of None \<Rightarrow> None | Some xs \<Rightarrow> Some (sanitize_array fmt xs 0))"

section \<open>What a sanitized payload looks like\<close>

text \<open>
  The abstract contract of the sanitizer: below depth \<open>n\<close> no key is denied, strings fit
  the length limit, and neither dates nor objects remain.
\<close>

fun safe_value :: "nat \<Rightarrow> php \<Rightarrow> bool"
  and safe_items :: "nat \<Rightarrow> payload \<Rightarrow> bool" where
  "safe_value d PNull = True"
| "safe_value d (PBool b) = True"
| "safe_value d (PInt i) = True"
| "safe_value d (PFloat f) = True"
| "safe_value d (PStr s) = (length s \<le> max_string_length)"
| "safe_value d (PDate t) = False"
| "safe_value d (PObj c) = False"
| "safe_value d (PArr xs) = (d < max_depth \<and> safe_items d xs)"
| "safe_items d [] = True"
| "safe_items d ((k, v) # xs) = (\<not> is_denied_key k \<and> (v = PNull \<or> Suc d < max_depth) \<and> safe_value (Suc d) v \<and> safe_items d xs)"

lemma sanitize_value_safe_aux:
  assumes fmt: "\<And>t. length (fmt t) \<le> max_string_length"
  shows "safe_value d (sanitize_value fmt v d)"
    and "d < max_depth \<Longrightarrow> safe_items d (sanitize_items fmt xs d)"
  using fmt
proof (induction fmt v d and fmt xs d rule: sanitize_value_sanitize_items.induct)
  case (1 fmt v d)
  then show ?case
    by (auto simp: sanitize_value.simps [of fmt v d] mb_substr0_def split: php.splits)
next
  case (2 fmt d)
  then show ?case by simp
next
  case (3 fmt k item xs d)
  have "Suc d < max_depth \<or> sanitize_value fmt item (Suc d) = PNull"
    by (cases "max_depth \<le> Suc d") (auto simp: sanitize_value.simps)
  with 3 show ?case by (auto simp: Let_def)
qed

lemma sanitize_fixes_safe_aux:
  "(d < max_depth \<or> v = PNull) \<Longrightarrow> safe_value d v \<Longrightarrow> sanitize_value fmt v d = v"
  "d < max_depth \<Longrightarrow> safe_items d xs \<Longrightarrow> sanitize_items fmt xs d = xs"
proof (induction d v and d xs rule: safe_value_safe_items.induct)
  case (10 d k v xs)
  then show ?case by (auto simp: Let_def)
qed (auto simp: sanitize_value.simps mb_substr0_def)

section \<open>The audit record\<close>

record audit_entry =
  al_action :: string
  al_user_id :: "uuid option"
  al_auditable :: "(string \<times> uuid) option"
  al_old_values :: "payload option"
  al_new_values :: "payload option"
  al_metadata :: "payload option"
  al_ip_address :: "string option"
  al_user_agent :: "string option"
  al_created_at :: time

text \<open>The row \<open>AuditLogWriter::write\<close> saves; \<open>occurredAt\<close> defaults to now.\<close>

definition audit_row ::
  "(time \<Rightarrow> string) \<Rightarrow> time \<Rightarrow> string \<Rightarrow> uuid option \<Rightarrow> (string \<times> uuid) option \<Rightarrow>
   payload option \<Rightarrow> payload option \<Rightarrow> payload option \<Rightarrow>
   time option \<Rightarrow> string option \<Rightarrow> string option \<Rightarrow> audit_entry" where
  "audit_row fmt now action actor auditable old new meta occurredAt ip agent =
     \<lparr>al_action = action, al_user_id = actor, al_auditable = auditable,
      al_old_values = sanitize fmt old, al_new_values = sanitize fmt new,
      al_metadata = sanitize fmt meta,
      al_ip_address = ip, al_user_agent = agent,
      al_created_at = (case occurredAt of Some t \<Rightarrow> t | None \<Rightarrow> now)\<rparr>"

lemma audit_row_action [simp]:
  "al_action (audit_row fmt now action actor auditable old new meta occ ip agent) = action"
  "al_user_id (audit_row fmt now action actor auditable old new meta occ ip agent) = actor"
  "al_created_at (audit_row fmt now action actor auditable old new meta None ip agent) = now"
  by (simp_all add: audit_row_def)

section \<open>The type of audit payloads\<close>

definition sanitized :: "payload option \<Rightarrow> bool" where
  "sanitized p \<longleftrightarrow> (case p of None \<Rightarrow> True | Some xs \<Rightarrow> safe_items 0 xs)"

text \<open>
  C38. Whatever an audit entry is written with, its stored values are of the sanitized type: no key
  that names a secret at any depth, strings of at most 4096 characters, nesting below eight levels,
  no objects or dates; and sanitizing stored values again changes nothing.
\<close>
theorem audit_payloads_sanitized:
  assumes "\<forall>t. length (fmt t) \<le> max_string_length"
  shows "let r = audit_row fmt now action actor auditable old new meta occurred ip agent
    in \<forall>p \<in> {al_old_values r, al_new_values r, al_metadata r}. sanitized p \<and> sanitize fmt p = p"
proof -
  have fmt: "\<And>t. length (fmt t) \<le> max_string_length" using assms by blast
  have "sanitized (sanitize fmt p) \<and> sanitize fmt (sanitize fmt p) = sanitize fmt p" for p
    using sanitize_value_safe_aux(2) [OF fmt, of 0] sanitize_fixes_safe_aux(2) [of 0]
    by (auto simp: sanitized_def sanitize_def sanitize_array_def max_depth_def split: option.split)
  then show ?thesis by (simp add: audit_row_def Let_def)
qed

theorem audit_payloads_sanitized_witness:
  "let p = al_old_values (audit_row (\<lambda>_. ''2024'') 0 ''sent'' None None
       (Some [(''api_Token'', PStr ''x''), (''to'', PArr [(''Password'', PInt 1), (''at'', PDate 5)])]) None None None None None)
   in p = Some [(''to'', PArr [(''at'', PStr ''2024'')])] \<and> sanitized p"
proof -
  let ?r = "audit_row (\<lambda>_. ''2024'') 0 ''sent'' None None
     (Some [(''api_Token'', PStr ''x''), (''to'', PArr [(''Password'', PInt 1), (''at'', PDate 5)])]) None None None None None"
  have "al_old_values ?r = Some [(''to'', PArr [(''at'', PStr ''2024'')])]" by code_simp
  moreover have "\<forall>t. length ((\<lambda>_. ''2024'') t) \<le> max_string_length" by (simp add: max_string_length_def)
  from audit_payloads_sanitized [OF this] have "sanitized (al_old_values ?r)" by (simp add: Let_def)
  ultimately show ?thesis by (simp add: Let_def)
qed

end
