(* ===== verification/Model.thy ===== *)
theory Model
  imports Enums Audit_Log
begin

text \<open>
  The state the components share: the rows of the database tables they read and write
  (\<open>app/Models\<close>), the cache, the queue of dispatched jobs, and the environment a request
  runs in (clock, configuration, identifiers, file storage). Record fields carry the column
  names with a prefix per table.
\<close>

section \<open>Rows\<close>

record outbound_message =
  om_id :: uuid
  om_user_id :: uuid
  om_inbox_id :: uuid
  om_source_email_id :: "uuid option"
  om_operation :: operation
  om_state :: message_state
  om_draft_version :: int
  om_idempotency_key :: string
  om_request_fingerprint :: string
  om_from_address :: string
  om_from_display_name :: "string option"
  om_sender_profile_id :: "uuid option"
  om_reply_to_address :: "string option"
  om_reply_to_name :: "string option"
  om_to_recipients :: "string list option"
  om_cc_recipients :: "string list option"
  om_bcc_recipients :: "string list option"
  om_subject :: "string option"
  om_text_body :: "string option"
  om_html_body :: "string option"
  om_in_reply_to :: "string option"
  om_references :: "string option"
  om_provider :: "string option"
  om_provider_message_id :: "string option"
  om_attempt_count :: int
  om_queued_at :: "time option"
  om_sending_at :: "time option"
  om_transport_attempted_at :: "time option"
  om_sent_at :: "time option"
  om_delivered_at :: "time option"
  om_failed_at :: "time option"
  om_cancelled_at :: "time option"
  om_draft_submitted_at :: "time option"
  om_draft_deleted_at :: "time option"
  om_reconciliation_flagged_at :: "time option"
  om_reconciliation_note :: "string option"
  om_failure_code :: "string option"
  om_failure_message :: "string option"
  om_attachment_ids :: "string list option"
  om_is_canary :: bool
  om_user_deleted_at :: "time option"
  om_content_redacted_at :: "time option"
  om_retention_hold_until :: "time option"
  om_retention_hold_reason_code :: "string option"
  om_scheduled_at :: "time option"
  om_scheduled_timezone :: "string option"
  om_scheduled_by_user_id :: "uuid option"
  om_schedule_version :: int
  om_scheduled_claimed_at :: "time option"
  om_schedule_defer_reason :: "string option"
  om_schedule_next_attempt_at :: "time option"
  om_created_at :: time
  om_updated_at :: time

record delivery_attempt =
  at_transport :: "string option"
  at_provider :: "string option"
  at_state :: attempt_state
  at_result :: "string option"
  at_failure_category :: "string option"
  at_provider_message_id :: "string option"
  at_failover_reason_code :: "string option"
  at_ambiguous :: bool
  at_started_at :: "time option"
  at_completed_at :: "time option"
  at_duration_ms :: "int option"

text \<open>
  A usage reservation; its metadata column is written out as the four counters and
  references the code stores in it. Rows are keyed by the unique \<open>outbound_message_id\<close>.
\<close>

record usage_reservation =
  ur_outbound_message_id :: uuid
  ur_user_id :: uuid
  ur_subscription_id :: "uuid option"
  ur_operation :: operation
  ur_idempotency_key :: string
  ur_state :: reservation_state
  ur_message_units :: int
  ur_recipient_units :: int
  ur_attachment_bytes :: int
  ur_reserved_at :: time
  ur_committed_at :: "time option"
  ur_released_at :: "time option"
  ur_expires_at :: "time option"
  ur_release_reason :: "string option"
  ur_usage_ids :: "(string \<times> uuid) list"
  ur_attempts :: int
  ur_retries :: int
  ur_permanent_failures :: int

record subscription_usage =
  su_id :: uuid
  su_subscription_id :: uuid
  su_feature_id :: uuid
  su_used_value :: int
  su_limit_value :: int
  su_reset_period :: reset_period
  su_period_start :: time
  su_period_end :: time
  su_last_used_at :: "time option"

record suppression =
  sp_id :: uuid
  sp_recipient_hash :: string
  sp_recipient :: string
  sp_masked_recipient :: string
  sp_scope_type :: string
  sp_scope_id :: "string option"
  sp_reason :: string
  sp_source :: string
  sp_provider :: "string option"
  sp_source_event_id :: "string option"
  sp_active :: bool
  sp_suppressed_at :: time
  sp_expires_at :: "time option"
  sp_removed_at :: "time option"
  sp_removed_by :: "uuid option"

record notification =
  nt_id :: uuid
  nt_user_id :: uuid
  nt_idempotency_key :: string
  nt_outbound_message_id :: "uuid option"
  nt_event_type :: string
  nt_payload :: payload
  nt_email_queued_at :: "time option"

text \<open>Channel rules of one event: \<open>['in_app' => .., 'email' => ..]\<close>, both optional.\<close>

type_synonym channels = "bool option \<times> bool option"

record notification_preference =
  np_id :: uuid
  np_notifications_enabled :: bool
  np_in_app_enabled :: bool
  np_email_enabled :: bool
  np_events :: "(string \<times> channels) list"
  np_version :: int

record abuse_block =
  ab_user_id :: uuid
  ab_state :: string
  ab_reason_code :: string
  ab_source :: string
  ab_actor_user_id :: "uuid option"
  ab_started_at :: time
  ab_expires_at :: "time option"
  ab_cleared_at :: "time option"

record user =
  u_id :: uuid
  u_status :: user_status
  u_platform_role :: "platform_role option"
  u_deleted_at :: "time option"

record inbox =
  ib_id :: uuid
  ib_user_id :: "uuid option"
  ib_domain_id :: uuid
  ib_is_active :: bool
  ib_deleted_at :: "time option"
  ib_expires_at :: "time option"

record mail_domain =
  dm_id :: uuid
  dm_domain :: string
  dm_is_active :: bool
  dm_deleted_at :: "time option"
  dm_outbound_enabled :: bool
  dm_dns_verified_at :: "time option"

record domain_auth =
  da_state :: domain_auth_state
  da_ownership_state :: domain_auth_state
  da_spf_state :: domain_auth_state
  da_dkim_state :: domain_auth_state
  da_dmarc_state :: domain_auth_state
  da_expected_spf :: "string option"
  da_expected_dkim :: "(string \<times> string) list"
  da_expected_ownership :: "string option"
  da_failure_code :: "string option"
  da_record_version :: int
  da_last_checked_at :: "time option"
  da_last_verified_at :: "time option"
  da_next_check_at :: "time option"

record email =
  em_id :: uuid
  em_inbox_id :: uuid
  em_deleted_at :: "time option"

record attachment =
  ac_id :: uuid
  ac_email_id :: uuid
  ac_original_filename :: string
  ac_mime_type :: string
  ac_size_bytes :: int
  ac_storage_disk :: string
  ac_storage_path :: string
  ac_is_safe :: bool
  ac_scan_status :: scan_status
  ac_deleted_at :: "time option"

record subscription =
  sb_id :: uuid
  sb_user_id :: uuid
  sb_plan_id :: uuid
  sb_status :: subscription_status
  sb_starts_at :: "time option"
  sb_created_at :: "time option"

text \<open>
  A metered value \<open>['limit' => .., 'reset_period' => ..]\<close> of a feature: the limit is null,
  numeric or something else; the other feature values are kept opaque.
\<close>

datatype limit_value = LNull | LNum int | LOther

datatype feature_value =
    FMeter "limit_value option" "string option"
  | FOpaque

record feature =
  ft_id :: uuid
  ft_key :: string
  ft_is_active :: bool
  ft_default_value :: "feature_value option"
  ft_deleted_at :: "time option"

record plan =
  pl_id :: uuid
  pl_deleted_at :: "time option"

datatype canary_type = CanaryUser | CanaryInbox | CanaryDomain | CanaryApiKey

record canary =
  cn_id :: uuid
  cn_subject_type :: canary_type
  cn_subject_id :: string
  cn_label :: "string option"
  cn_active :: bool
  cn_added_by :: "uuid option"
  cn_added_at :: time
  cn_removed_by :: "uuid option"
  cn_removed_at :: "time option"

datatype job =
    DeliverOutboundMessageJob uuid
  | SendOutboundNotificationEmailJob uuid

section \<open>The world and the environment\<close>

text \<open>
  \<open>w_plan_features\<close> is the pivot \<open>feature_plan\<close>: the feature ids attached to a plan,
  each with its pivot value. Attempts are keyed by message and attempt number, notifications
  by user and idempotency key, domain authentications by domain and provider: the unique
  indexes of these tables.
\<close>

record world =
  w_messages :: "(uuid, outbound_message) tbl"
  w_attempts :: "(uuid \<times> int, delivery_attempt) tbl"
  w_reservations :: "(uuid, usage_reservation) tbl"
  w_usages :: "(uuid, subscription_usage) tbl"
  w_suppressions :: "(uuid, suppression) tbl"
  w_notifications :: "(uuid \<times> string, notification) tbl"
  w_preferences :: "(uuid, notification_preference) tbl"
  w_abuse_blocks :: "(uuid, abuse_block) tbl"
  w_users :: "(uuid, user) tbl"
  w_inboxes :: "(uuid, inbox) tbl"
  w_domains :: "(uuid, mail_domain) tbl"
  w_domain_auths :: "(uuid \<times> string, domain_auth) tbl"
  w_emails :: "(uuid, email) tbl"
  w_attachments :: "(uuid, attachment) tbl"
  w_subscriptions :: "(uuid, subscription) tbl"
  w_features :: "(uuid, feature) tbl"
  w_plans :: "(uuid, plan) tbl"
  w_plan_features :: "(uuid, (uuid \<times> feature_value option) list) tbl"
  w_canaries :: "(uuid, canary) tbl"
  w_api_keys :: "uuid list"
  w_audit :: "audit_entry list"
  w_jobs :: "job list"
  w_cache :: "(string, php) tbl"
  w_cache_ttl :: "(string, time) tbl"
  w_next_id :: nat

record config =
  cf_metering_enabled :: bool
  cf_reservation_ttl_seconds :: int
  cf_default_reset_period :: string
  cf_usage_warning_percent :: int
  cf_notification_events :: "string list"
  cf_notification_defaults :: "(string \<times> channels) list"
  cf_outbound_enabled :: bool
  cf_send_enabled :: bool
  cf_reply_enabled :: bool
  cf_forward_enabled :: bool
  cf_transport :: string
  cf_provider :: string
  cf_primary_provider :: string
  cf_secondary_provider :: "string option"
  cf_smtp_host :: string
  cf_send_max_attempts :: int
  cf_stale_sending_threshold_seconds :: int
  cf_stale_sending_batch_size :: int
  cf_schedule_enabled :: bool
  cf_defer_seconds :: int
  cf_max_defer_seconds :: int
  cf_rollout_mode :: string
  cf_supported_modes :: "string list"
  cf_rollout_percent :: int
  cf_emergency_stop :: bool
  cf_emergency_stop_retry_delay :: int
  cf_messages_per_minute :: int
  cf_messages_per_hour :: int
  cf_messages_per_day :: int
  cf_unique_recipients_per_hour :: int
  cf_unique_recipients_per_day :: int
  cf_max_recipients_per_message :: int
  cf_concurrent_queued_messages :: int
  cf_outbound_bytes_per_day :: int
  cf_fail_closed_on_quota_backend :: bool
  cf_temp_block_hours :: int
  cf_bounce_threshold_24h :: int
  cf_complaint_threshold_24h :: int
  cf_failed_send_threshold_24h :: int
  cf_suppression_block_threshold_24h :: int
  cf_max_attachments_per_message :: int
  cf_max_attachment_bytes :: int
  cf_max_total_attachment_bytes :: int
  cf_domain_auth_enforce :: bool
  cf_allow_degraded_dmarc :: bool
  cf_ses_spf_include :: string
  cf_ses_dkim_tokens :: string
  cf_ses_dkim_cname_suffix :: string
  cf_ses_ownership_prefix :: string
  cf_domain_recheck_interval :: int
  cf_domain_manual_cooldown :: int
  cf_ses_topic_arn :: string
  cf_generic_webhook_secret :: string
  cf_failover_enabled :: bool
  cf_send_backoff_seconds :: "int list"

text \<open>
  The environment of one request: \<open>e_now\<close> is the clock, read once per request; \<open>e_uuid\<close>
  generates the identifiers of new rows from a counter; the formatting functions, the
  calendar, SHA-256, file storage and the DNS resolver belong to PHP and its packages.
\<close>

record env =
  e_now :: time
  e_cfg :: config
  e_uuid :: "nat \<Rightarrow> uuid"
  e_iso8601 :: "time \<Rightarrow> string"
  e_ymd :: "time \<Rightarrow> string"
  e_sha256 :: "string \<Rightarrow> string"
  e_period_start :: "reset_period \<Rightarrow> time \<Rightarrow> time"
  e_period_end :: "reset_period \<Rightarrow> time \<Rightarrow> time"
  e_disk_private :: "string \<Rightarrow> bool"
  e_file_exists :: "string \<Rightarrow> string \<Rightarrow> bool"
  e_dns_txt :: "string \<Rightarrow> exn + string list"
  e_dns_cname :: "string \<Rightarrow> exn + string list"

section \<open>Effects\<close>

text \<open>
  \<open>DB::transaction\<close>: when the body throws, every table is as before; the cache and the
  identifier counter are outside the database and keep their changes.
\<close>

definition transaction :: "(world \<Rightarrow> (world, 'a) outcome) \<Rightarrow> world \<Rightarrow> (world, 'a) outcome" where
  "transaction f w =
     (case f w of
        (Inl e, w') \<Rightarrow> (Inl e, w\<lparr>w_cache := w_cache w', w_cache_ttl := w_cache_ttl w', w_next_id := w_next_id w'\<rparr>)
      | (Inr a, w') \<Rightarrow> (Inr a, w'))"

lemma transaction_simps [txn_simps]:
  "f w = (Inr a, w') \<Longrightarrow> transaction f w = (Inr a, w')"
  "f w = (Inl e, w') \<Longrightarrow> transaction f w = (Inl e, w\<lparr>w_cache := w_cache w', w_cache_ttl := w_cache_ttl w', w_next_id := w_next_id w'\<rparr>)"
  by (simp_all add: transaction_def)

lemma transaction_Inr_iff: "transaction f w = (Inr a, w') \<longleftrightarrow> f w = (Inr a, w')"
  by (auto simp: transaction_def split: prod.splits sum.splits)

lemma transaction_Inl_messages: "transaction f w = (Inl e, w') \<Longrightarrow> w_messages w' = w_messages w"
  by (auto simp: transaction_def split: prod.splits sum.splits)

text \<open>\<open>AuditLogWriter::write\<close> with the arguments the outbound services pass.\<close>

definition audit_write ::
  "env \<Rightarrow> string \<Rightarrow> uuid option \<Rightarrow> (string \<times> uuid) option \<Rightarrow>
   payload option \<Rightarrow> payload option \<Rightarrow> payload option \<Rightarrow> world \<Rightarrow> world" where
  "audit_write E action actor auditable old new meta w =
     w\<lparr>w_audit := w_audit w @
        [audit_row (e_iso8601 E) (e_now E) action actor auditable old new meta None None None]\<rparr>"

definition cache_get :: "world \<Rightarrow> string \<Rightarrow> php option" where
  "cache_get w k = tbl_get (w_cache w) k"

definition cache_increment :: "string \<Rightarrow> world \<Rightarrow> world" where
  "cache_increment k w =
     w\<lparr>w_cache := tbl_put k (PInt (case cache_get w k of Some (PInt i) \<Rightarrow> i + 1 | _ \<Rightarrow> 1)) (w_cache w)\<rparr>"

text \<open>\<open>Cache::forever\<close>, \<open>Cache::forget\<close>, and \<open>Cache::add\<close> with a time to live.\<close>

definition cache_forever :: "string \<Rightarrow> php \<Rightarrow> world \<Rightarrow> world" where
  "cache_forever k v w = w\<lparr>w_cache := tbl_put k v (w_cache w)\<rparr>"

definition cache_forget :: "string \<Rightarrow> world \<Rightarrow> world" where
  "cache_forget k w = w\<lparr>w_cache := tbl_del k (w_cache w)\<rparr>"

definition cache_add :: "env \<Rightarrow> string \<Rightarrow> php \<Rightarrow> int \<Rightarrow> world \<Rightarrow> bool \<times> world" where
  "cache_add E k v ttl w =
     (let live = (case tbl_get (w_cache w) k of
                    None \<Rightarrow> False
                  | Some _ \<Rightarrow> (case tbl_get (w_cache_ttl w) k of None \<Rightarrow> True | Some t \<Rightarrow> e_now E < t))
      in if live then (False, w)
         else (True, w\<lparr>w_cache := tbl_put k v (w_cache w),
                        w_cache_ttl := tbl_put k (e_now E + ttl) (w_cache_ttl w)\<rparr>))"

definition dispatch_job :: "job \<Rightarrow> world \<Rightarrow> world" where
  "dispatch_job j w = w\<lparr>w_jobs := w_jobs w @ [j]\<rparr>"

definition fresh_id :: "env \<Rightarrow> world \<Rightarrow> uuid \<times> world" where
  "fresh_id E w = (e_uuid E (w_next_id w), w\<lparr>w_next_id := Suc (w_next_id w)\<rparr>)"

text \<open>
  \<open>OutboundMessage::query()->whereKey(id)->where(P)->update(f)\<close>: the number of rows it
  changed and the new world.
\<close>

definition update_message_where ::
  "uuid \<Rightarrow> (outbound_message \<Rightarrow> bool) \<Rightarrow> (outbound_message \<Rightarrow> outbound_message) \<Rightarrow> world \<Rightarrow> nat \<times> world" where
  "update_message_where mid P f w =
     (case tbl_update_where mid P f (w_messages w) of (n, t) \<Rightarrow> (n, w\<lparr>w_messages := t\<rparr>))"

definition find_message :: "world \<Rightarrow> uuid \<Rightarrow> outbound_message option" where
  "find_message w mid = tbl_get (w_messages w) mid"

text \<open>\<open>$message->forceFill(..)->save()\<close> of the row that was looked up under \<open>mid\<close>.\<close>

definition save_message :: "uuid \<Rightarrow> outbound_message \<Rightarrow> world \<Rightarrow> world" where
  "save_message mid m w = w\<lparr>w_messages := tbl_put mid m (w_messages w)\<rparr>"

definition ors :: "'a list option \<Rightarrow> 'a list" where
  "ors xs = (case xs of None \<Rightarrow> [] | Some ys \<Rightarrow> ys)"

definition recipient_count :: "outbound_message \<Rightarrow> int" where
  "recipient_count m =
     int (length (ors (om_to_recipients m)) + length (ors (om_cc_recipients m))
        + length (ors (om_bcc_recipients m)))"

definition all_recipients :: "outbound_message \<Rightarrow> string list" where
  "all_recipients m = ors (om_to_recipients m) @ ors (om_cc_recipients m) @ ors (om_bcc_recipients m)"

definition is_user_deleted :: "outbound_message \<Rightarrow> bool" where
  "is_user_deleted m \<longleftrightarrow> om_user_deleted_at m \<noteq> None"

definition is_content_redacted :: "outbound_message \<Rightarrow> bool" where
  "is_content_redacted m \<longleftrightarrow> om_content_redacted_at m \<noteq> None"

definition is_retention_held :: "env \<Rightarrow> outbound_message \<Rightarrow> bool" where
  "is_retention_held E m =
     (if om_retention_hold_reason_code m = None then False
      else case om_retention_hold_until m of None \<Rightarrow> True | Some t \<Rightarrow> e_now E < t)"

definition find_user :: "world \<Rightarrow> uuid \<Rightarrow> user option" where
  "find_user w i = (case tbl_get (w_users w) i of
     Some u \<Rightarrow> (if u_deleted_at u = None then Some u else None) | None \<Rightarrow> None)"

definition find_inbox :: "world \<Rightarrow> uuid \<Rightarrow> inbox option" where
  "find_inbox w i = (case tbl_get (w_inboxes w) i of
     Some b \<Rightarrow> (if ib_deleted_at b = None then Some b else None) | None \<Rightarrow> None)"

definition find_domain :: "world \<Rightarrow> uuid \<Rightarrow> mail_domain option" where
  "find_domain w i = (case tbl_get (w_domains w) i of
     Some d \<Rightarrow> (if dm_deleted_at d = None then Some d else None) | None \<Rightarrow> None)"

definition user_is_active :: "user \<Rightarrow> bool" where
  "user_is_active u \<longleftrightarrow> u_status u = UActive"

definition is_privileged :: "platform_role \<Rightarrow> bool" where
  "is_privileged r \<longleftrightarrow> r \<in> {RoleOperator, RoleAdmin}"

definition has_active_platform_capability :: "user \<Rightarrow> bool" where
  "has_active_platform_capability u \<longleftrightarrow>
     u_deleted_at u = None \<and> u_status u = UActive
     \<and> (case u_platform_role u of None \<Rightarrow> False | Some r \<Rightarrow> is_privileged r)"

definition is_platform_admin :: "user \<Rightarrow> bool" where
  "is_platform_admin u \<longleftrightarrow> has_active_platform_capability u \<and> u_platform_role u = Some RoleAdmin"

section \<open>Frame facts\<close>

lemma audit_write_frame [simp]:
  "w_messages (audit_write E a b c p q r w) = w_messages w"
  "w_attempts (audit_write E a b c p q r w) = w_attempts w"
  "w_reservations (audit_write E a b c p q r w) = w_reservations w"
  "w_usages (audit_write E a b c p q r w) = w_usages w"
  "w_suppressions (audit_write E a b c p q r w) = w_suppressions w"
  "w_jobs (audit_write E a b c p q r w) = w_jobs w"
  "w_cache (audit_write E a b c p q r w) = w_cache w"
  "w_abuse_blocks (audit_write E a b c p q r w) = w_abuse_blocks w"
  "w_users (audit_write E a b c p q r w) = w_users w"
  "w_notifications (audit_write E a b c p q r w) = w_notifications w"
  "w_domain_auths (audit_write E a b c p q r w) = w_domain_auths w"
  "w_next_id (audit_write E a b c p q r w) = w_next_id w"
  by (simp_all add: audit_write_def)

lemma cache_increment_frame [simp]:
  "w_messages (cache_increment k w) = w_messages w"
  "w_attempts (cache_increment k w) = w_attempts w"
  "w_reservations (cache_increment k w) = w_reservations w"
  "w_usages (cache_increment k w) = w_usages w"
  "w_suppressions (cache_increment k w) = w_suppressions w"
  "w_jobs (cache_increment k w) = w_jobs w"
  "w_audit (cache_increment k w) = w_audit w"
  "w_abuse_blocks (cache_increment k w) = w_abuse_blocks w"
  by (simp_all add: cache_increment_def)

lemma dispatch_job_frame [simp]:
  "w_messages (dispatch_job j w) = w_messages w"
  "w_attempts (dispatch_job j w) = w_attempts w"
  "w_reservations (dispatch_job j w) = w_reservations w"
  "w_usages (dispatch_job j w) = w_usages w"
  "w_suppressions (dispatch_job j w) = w_suppressions w"
  "w_audit (dispatch_job j w) = w_audit w"
  "w_jobs (dispatch_job j w) = w_jobs w @ [j]"
  by (simp_all add: dispatch_job_def)

lemma update_message_where_frame [simp]:
  "w_attempts (snd (update_message_where mid P f w)) = w_attempts w"
  "w_reservations (snd (update_message_where mid P f w)) = w_reservations w"
  "w_usages (snd (update_message_where mid P f w)) = w_usages w"
  "w_suppressions (snd (update_message_where mid P f w)) = w_suppressions w"
  "w_jobs (snd (update_message_where mid P f w)) = w_jobs w"
  "w_audit (snd (update_message_where mid P f w)) = w_audit w"
  "w_cache (snd (update_message_where mid P f w)) = w_cache w"
  "w_users (snd (update_message_where mid P f w)) = w_users w"
  by (simp_all add: update_message_where_def split: prod.splits)

lemma find_message_audit [simp]: "find_message (audit_write E a b c p q r w) mid = find_message w mid"
  by (simp add: find_message_def)

lemma find_message_cache [simp]: "find_message (cache_increment k w) mid = find_message w mid"
  by (simp add: find_message_def)

lemma find_message_dispatch [simp]: "find_message (dispatch_job j w) mid = find_message w mid"
  by (simp add: find_message_def)

lemma find_update_message [tbl_simps]:
  "find_message (snd (update_message_where mid P f w)) mid' =
     (case find_message w mid' of
        Some m \<Rightarrow> Some (if mid' = mid \<and> P m then f m else m)
      | None \<Rightarrow> None)"
  by (simp add: update_message_where_def find_message_def tbl_simps split: prod.splits)
     (metis snd_conv tbl_update_where_get)

lemma count_update_message [tbl_simps]:
  "fst (update_message_where mid P f w) =
     (case find_message w mid of Some m \<Rightarrow> (if P m then 1 else 0) | None \<Rightarrow> 0)"
  by (simp add: update_message_where_def find_message_def split: prod.splits)
     (metis fst_conv tbl_update_where_count)

lemma find_save_message [tbl_simps]:
  "find_message (save_message mid m w) i = (if i = mid then Some m else find_message w i)"
  by (simp add: find_message_def save_message_def tbl_simps)

end
