(* ===== verification/Entitlement.thy ===== *)
theory Entitlement
  imports Model "HOL-Library.Char_ord" "HOL-Library.List_Lexorder"
begin

text \<open>
  \<open>app/Services/Entitlement/EntitlementService.php\<close>: the subscription that grants a user's
  features, and the resolution of one feature and its value through the plan of that
  subscription.
\<close>

section \<open>The current subscription\<close>

definition sub_rank :: "subscription \<Rightarrow> int" where
  "sub_rank s = (if sb_status s = SubActive then 0 else 1)"

text \<open>PHP's three-way comparison, on times that may be null: null sorts before any time.\<close>

definition spaceship :: "'a::linorder \<Rightarrow> 'a \<Rightarrow> int" where
  "spaceship a b = (if a < b then - 1 else if b < a then 1 else 0)"

definition spaceship_opt :: "time option \<Rightarrow> time option \<Rightarrow> int" where
  "spaceship_opt a b =
     (case a of
        None \<Rightarrow> (case b of None \<Rightarrow> 0 | Some _ \<Rightarrow> - 1)
      | Some x \<Rightarrow> (case b of None \<Rightarrow> 1 | Some y \<Rightarrow> spaceship x y))"

text \<open>The comparator of \<open>currentSubscription\<close>.\<close>

definition sub_cmp :: "subscription \<Rightarrow> subscription \<Rightarrow> int" where
  "sub_cmp a b =
     (if sub_rank a \<noteq> sub_rank b then spaceship (sub_rank a) (sub_rank b)
      else if sb_starts_at a \<noteq> sb_starts_at b then spaceship_opt (sb_starts_at b) (sb_starts_at a)
      else if sb_created_at a \<noteq> sb_created_at b then spaceship_opt (sb_created_at b) (sb_created_at a)
      else spaceship (sb_id b) (sb_id a))"

text \<open>A stable sort by a comparator, as \<open>Collection::sort\<close>.\<close>

fun insert_with :: "('a \<Rightarrow> 'a \<Rightarrow> int) \<Rightarrow> 'a \<Rightarrow> 'a list \<Rightarrow> 'a list" where
  "insert_with c x [] = [x]"
| "insert_with c x (y # ys) = (if c x y \<le> 0 then x # y # ys else y # insert_with c x ys)"

definition sort_with :: "('a \<Rightarrow> 'a \<Rightarrow> int) \<Rightarrow> 'a list \<Rightarrow> 'a list" where
  "sort_with c xs = foldr (insert_with c) xs []"

definition first_of :: "'a list \<Rightarrow> 'a option" where
  "first_of xs = (case xs of [] \<Rightarrow> None | x # _ \<Rightarrow> Some x)"

definition eligible_subscriptions :: "world \<Rightarrow> uuid \<Rightarrow> subscription list" where
  "eligible_subscriptions w uid =
     filter (\<lambda>s. sb_user_id s = uid \<and> sb_status s \<in> {SubActive, SubTrial}) (tbl_rows (w_subscriptions w))"

definition current_subscription :: "world \<Rightarrow> user \<Rightarrow> subscription option" where
  "current_subscription w u = first_of (sort_with sub_cmp (eligible_subscriptions w (u_id u)))"

section \<open>Features\<close>

definition current_plan :: "world \<Rightarrow> user \<Rightarrow> plan option" where
  "current_plan w u =
     (case current_subscription w u of
        None \<Rightarrow> None
      | Some s \<Rightarrow> (case tbl_get (w_plans w) (sb_plan_id s) of
                     Some p \<Rightarrow> (if pl_deleted_at p = None then Some p else None)
                   | None \<Rightarrow> None))"

definition feature_by_key :: "world \<Rightarrow> string \<Rightarrow> feature option" where
  "feature_by_key w k =
     first_of (filter (\<lambda>f. ft_key f = k \<and> ft_deleted_at f = None) (tbl_rows (w_features w)))"

text \<open>The attached feature with its pivot value.\<close>

definition get_feature :: "world \<Rightarrow> user \<Rightarrow> string \<Rightarrow> (feature \<times> feature_value option) option" where
  "get_feature w u k =
     (case feature_by_key w k of
        None \<Rightarrow> None
      | Some f \<Rightarrow>
          if \<not> ft_is_active f then None
          else case current_plan w u of
              None \<Rightarrow> None
            | Some p \<Rightarrow>
                (case tbl_get (w_plan_features w) (pl_id p) of
                   None \<Rightarrow> None
                 | Some attached \<Rightarrow>
                     (case map_of attached (ft_id f) of
                        None \<Rightarrow> None
                      | Some pivot \<Rightarrow> Some (f, pivot))))"

definition has_feature :: "world \<Rightarrow> user \<Rightarrow> string \<Rightarrow> bool" where
  "has_feature w u k \<longleftrightarrow> get_feature w u k \<noteq> None"

definition feature_value_of :: "world \<Rightarrow> user \<Rightarrow> string \<Rightarrow> feature_value option" where
  "feature_value_of w u k =
     (case get_feature w u k of
        None \<Rightarrow> None
      | Some (f, pivot) \<Rightarrow> (case pivot of Some v \<Rightarrow> Some v | None \<Rightarrow> ft_default_value f))"

section \<open>Lemmas\<close>

lemma set_insert_with [simp]: "set (insert_with c x ys) = insert x (set ys)"
  by (induction ys) auto

lemma set_sort_with [simp]: "set (sort_with c xs) = set xs"
  by (induction xs) (auto simp: sort_with_def)

text \<open>
  A comparator whose "not after" relation is total and transitive sorts its minimum to the
  front.
\<close>

locale comparator =
  fixes cmp :: "'a \<Rightarrow> 'a \<Rightarrow> int"
  assumes total: "cmp x y \<le> 0 \<or> cmp y x \<le> 0"
    and trans: "cmp x y \<le> 0 \<Longrightarrow> cmp y z \<le> 0 \<Longrightarrow> cmp x z \<le> 0"
begin

lemma refl: "cmp x x \<le> 0"
  using total by blast

lemma sorted_insert_with:
  "sorted_wrt (\<lambda>a b. cmp a b \<le> 0) ys \<Longrightarrow> sorted_wrt (\<lambda>a b. cmp a b \<le> 0) (insert_with cmp x ys)"
proof (induction ys)
  case Nil
  then show ?case by simp
next
  case (Cons y ys)
  then show ?case
    using total [of x y] by (auto intro: trans)
qed

lemma sorted_sort_with: "sorted_wrt (\<lambda>a b. cmp a b \<le> 0) (sort_with cmp xs)"
  by (induction xs) (auto simp: sort_with_def sorted_insert_with)

lemma first_minimal:
  assumes "first_of (sort_with cmp xs) = Some m"
  shows "m \<in> set xs \<and> (\<forall>x \<in> set xs. cmp m x \<le> 0)"
proof -
  from assms obtain ys where ys: "sort_with cmp xs = m # ys"
    by (auto simp: first_of_def split: list.splits)
  have "set xs = insert m (set ys)"
    by (metis list.simps(15) set_sort_with ys)
  with sorted_sort_with [of xs] refl show ?thesis by (auto simp: ys)
qed

lemma first_exists: "xs \<noteq> [] \<Longrightarrow> \<exists>m. first_of (sort_with cmp xs) = Some m"
  by (metis first_of_def list.exhaust list.simps(5) set_empty set_sort_with)

end

lemma spaceship_le: "spaceship a b \<le> 0 \<longleftrightarrow> a \<le> b"
  by (auto simp: spaceship_def)

lemma spaceship_opt_le:
  "spaceship_opt a b \<le> 0 \<longleftrightarrow>
     (case a of None \<Rightarrow> True | Some x \<Rightarrow> (case b of None \<Rightarrow> False | Some y \<Rightarrow> x \<le> y))"
  by (auto simp: spaceship_opt_def spaceship_le split: option.splits)

text \<open>The comparator as a lexicographic order on rank, start, creation and id.\<close>

lemma sub_cmp_le:
  "sub_cmp a b \<le> 0 \<longleftrightarrow>
     sub_rank a < sub_rank b
     \<or> sub_rank a = sub_rank b \<and>
       (sb_starts_at a \<noteq> sb_starts_at b \<and> spaceship_opt (sb_starts_at b) (sb_starts_at a) \<le> 0
        \<or> sb_starts_at a = sb_starts_at b \<and>
          (sb_created_at a \<noteq> sb_created_at b \<and> spaceship_opt (sb_created_at b) (sb_created_at a) \<le> 0
           \<or> sb_created_at a = sb_created_at b \<and> sb_id b \<le> sb_id a))"
  by (auto simp: sub_cmp_def spaceship_le)

interpretation subs: comparator sub_cmp
proof
  fix x y z
  show "sub_cmp x y \<le> 0 \<or> sub_cmp y x \<le> 0"
    unfolding sub_cmp_le spaceship_opt_le
    by (cases "sb_starts_at x"; cases "sb_starts_at y"; cases "sb_created_at x"; cases "sb_created_at y") auto
  assume h: "sub_cmp x y \<le> 0" "sub_cmp y z \<le> 0"
  have opt: "spaceship_opt c a \<le> 0" if "spaceship_opt c b \<le> 0" "spaceship_opt b a \<le> 0" for a b c
    using that by (auto simp: spaceship_opt_le split: option.splits)
  have anti: "a = b" if "spaceship_opt a b \<le> 0" "spaceship_opt b a \<le> 0" for a b
    using that by (auto simp: spaceship_opt_le split: option.splits)
  show "sub_cmp x z \<le> 0"
    using h unfolding sub_cmp_le
    by (smt (verit, best) opt anti order_trans)
qed

end
