(* ===== verification/Notifications.thy ===== *)
theory Notifications
  imports Model
begin

text \<open>
  \<open>app/Services/Outbound/OutboundNotificationService.php\<close>: the notification a lifecycle
  event creates for its user, at most one per idempotency key, filtered by the user's
  preferences, with an email job when the email channel is on.
\<close>

definition default_preference :: "env \<Rightarrow> uuid \<Rightarrow> notification_preference" where
  "default_preference E i =
     \<lparr>np_id = i, np_notifications_enabled = True, np_in_app_enabled = True, np_email_enabled = True,
      np_events = cf_notification_defaults (e_cfg E), np_version = 1\<rparr>"

definition preference :: "env \<Rightarrow> user \<Rightarrow> world \<Rightarrow> notification_preference \<times> world" where
  "preference E u w =
     (case tbl_get (w_preferences w) (u_id u) of
        Some p \<Rightarrow> (p, w)
      | None \<Rightarrow>
          (let (i, w1) = fresh_id E w; p = default_preference E i
           in (p, w1\<lparr>w_preferences := tbl_put (u_id u) p (w_preferences w1)\<rparr>)))"

definition event_rules :: "env \<Rightarrow> notification_preference \<Rightarrow> string \<Rightarrow> channels" where
  "event_rules E p event =
     (case map_of (np_events p) event of
        Some r \<Rightarrow> r
      | None \<Rightarrow> (case map_of (cf_notification_defaults (e_cfg E)) event of
                  Some r \<Rightarrow> r | None \<Rightarrow> (None, None)))"

definition channel_on :: "bool option \<Rightarrow> bool" where
  "channel_on c = (case c of Some b \<Rightarrow> b | None \<Rightarrow> False)"

definition is_muted :: "notification_preference \<Rightarrow> channels \<Rightarrow> bool" where
  "is_muted p rules \<longleftrightarrow>
     \<not> np_notifications_enabled p
     \<or> ((\<not> np_in_app_enabled p \<or> \<not> channel_on (fst rules))
        \<and> (\<not> np_email_enabled p \<or> \<not> channel_on (snd rules)))"

definition summary_text :: "string \<Rightarrow> string" where
  "summary_text event =
     (if event = ''outbound.failed'' then ''Your outbound message failed before delivery.''
      else if event = ''outbound.schedule_failed'' then ''Your scheduled message could not be dispatched.''
      else if event = ''outbound.usage_warning'' then ''You are approaching your outbound message allowance.''
      else if event = ''outbound.usage_exhausted'' then ''Your outbound message allowance is exhausted.''
      else if event = ''outbound.delivered'' then ''Your outbound message was delivered.''
      else ''Your outbound message status was updated.'')"

definition extra_or :: "payload \<Rightarrow> string \<Rightarrow> php \<Rightarrow> php" where
  "extra_or extra k d = (case map_of extra k of Some v \<Rightarrow> (if v = PNull then d else v) | None \<Rightarrow> d)"

definition notification_payload :: "env \<Rightarrow> string \<Rightarrow> outbound_message option \<Rightarrow> payload \<Rightarrow> payload" where
  "notification_payload E event msg extra =
     [(''event_type'', PStr event),
      (''operation'', case msg of Some m \<Rightarrow> PStr (operation_value (om_operation m)) | None \<Rightarrow> PNull),
      (''state'', case msg of Some m \<Rightarrow> PStr (state_value (om_state m)) | None \<Rightarrow> PNull),
      (''outbound_message_uuid'', case msg of Some m \<Rightarrow> PStr (om_id m) | None \<Rightarrow> PNull),
      (''failure_category'', extra_or extra ''failure_category'' PNull),
      (''retryable'', extra_or extra ''retryable'' PNull),
      (''scheduled_at'', extra_or extra ''scheduled_at''
         (case msg of Some m \<Rightarrow> (case om_scheduled_at m of Some t \<Rightarrow> PStr (e_iso8601 E t) | None \<Rightarrow> PNull)
          | None \<Rightarrow> PNull)),
      (''percentage'', extra_or extra ''percentage'' PNull),
      (''summary'', PStr (summary_text event))]"

definition period_text :: "payload \<Rightarrow> time \<Rightarrow> string" where
  "period_text extra stamp =
     (case extra_or extra ''period'' PNull of PStr s \<Rightarrow> s | _ \<Rightarrow> int_to_string stamp)"

definition notification_key ::
  "env \<Rightarrow> string \<Rightarrow> outbound_message option \<Rightarrow> payload \<Rightarrow> string option \<Rightarrow> string" where
  "notification_key E event msg extra key =
     (case key of
        Some k \<Rightarrow> k
      | None \<Rightarrow>
          event @ '':'' @ (case msg of Some m \<Rightarrow> om_id m | None \<Rightarrow> ''usage'') @ '':''
          @ period_text extra (case msg of Some m \<Rightarrow> om_updated_at m | None \<Rightarrow> e_now E))"

definition create_notification ::
  "env \<Rightarrow> user \<Rightarrow> string \<Rightarrow> outbound_message option \<Rightarrow> payload \<Rightarrow> string \<Rightarrow> bool \<Rightarrow> world
   \<Rightarrow> notification \<times> world" where
  "create_notification E u event msg pl key email w =
     (case tbl_get (w_notifications w) (u_id u, key) of
        Some n \<Rightarrow> (n, cache_increment ''outbound.metrics.notification_duplicates'' w)
      | None \<Rightarrow>
         (let (i, w1) = fresh_id E w;
              mid = (case msg of Some m \<Rightarrow> PStr (om_id m) | None \<Rightarrow> PNull);
              n = \<lparr>nt_id = i, nt_user_id = u_id u, nt_idempotency_key = key,
                   nt_outbound_message_id = map_option om_id msg, nt_event_type = event,
                   nt_payload = pl, nt_email_queued_at = None\<rparr>;
              n' = (if email then n\<lparr>nt_email_queued_at := Some (e_now E)\<rparr> else n);
              w2 = w1\<lparr>w_notifications := tbl_put (u_id u, key) n' (w_notifications w1)\<rparr>;
              w3 = audit_write E ''outbound.notification_created'' (Some (u_id u))
                     (Some (''OutboundNotification'', i)) None None
                     (Some [(''notification_uuid'', PStr i), (''event_type'', PStr event), (''outbound_uuid'', mid)]) w2;
              w4 = (if email then
                      audit_write E ''outbound.notification_email_queued'' (Some (u_id u))
                        (Some (''OutboundNotification'', i)) None None
                        (Some [(''notification_uuid'', PStr i), (''event_type'', PStr event), (''channel'', PStr ''email'')])
                        (dispatch_job (SendOutboundNotificationEmailJob i) w3)
                    else w3)
          in (n', cache_increment ''outbound.metrics.notifications_created'' w4)))"

definition notify ::
  "env \<Rightarrow> user \<Rightarrow> string \<Rightarrow> outbound_message option \<Rightarrow> payload \<Rightarrow> string option \<Rightarrow> world
   \<Rightarrow> notification option \<times> world" where
  "notify E u event msg extra key w =
     (if event \<notin> set (cf_notification_events (e_cfg E)) \<or> \<not> user_is_active u then (None, w)
      else let (p, w1) = preference E u w; rules = event_rules E p event in
        if is_muted p rules then
          (None, cache_increment ''outbound.metrics.notifications_suppressed'' w1)
        else let (n, w2) = create_notification E u event msg
                    (notification_payload E event msg extra)
                    (notification_key E event msg extra key)
                    (np_email_enabled p \<and> channel_on (snd rules)) w1
             in (Some n, w2))"

text \<open>The statement form \<open>notify(..)\<close>, whose value the callers ignore.\<close>

definition notify_user ::
  "env \<Rightarrow> user \<Rightarrow> string \<Rightarrow> outbound_message option \<Rightarrow> payload \<Rightarrow> string \<Rightarrow> world \<Rightarrow> world" where
  "notify_user E u event msg extra key w = snd (notify E u event msg extra (Some key) w)"

text \<open>
  \<open>updatePreference\<close>: an optimistic update of the preference row; the input fields are the
  allowed ones (\<open>None\<close> when absent), the events a partial map merged over the stored one.
\<close>

record preference_input =
  pi_notifications_enabled :: "bool option"
  pi_in_app_enabled :: "bool option"
  pi_email_enabled :: "bool option"
  pi_events :: "(string \<times> channels) list option"

definition array_replace :: "(string \<times> 'v) list \<Rightarrow> (string \<times> 'v) list \<Rightarrow> (string \<times> 'v) list" where
  "array_replace base new = fold (\<lambda>(k, v) acc. AList.update k v acc) new base"

definition or_else :: "'a option \<Rightarrow> 'a \<Rightarrow> 'a" where
  "or_else x d = (case x of Some v \<Rightarrow> v | None \<Rightarrow> d)"

definition update_preference ::
  "env \<Rightarrow> user \<Rightarrow> preference_input \<Rightarrow> int \<Rightarrow> world \<Rightarrow> (world, notification_preference) outcome" where
  "update_preference E u inp version w =
     (let (p, w1) = preference E u w in
      if np_version p \<noteq> version then (Inl (RuntimeException ''stale_notification_preference''), w1)
      else if \<exists>(event, ch) \<in> set (or_else (pi_events inp) []). event \<notin> set (cf_notification_events (e_cfg E))
        then (Inl (InvalidArgumentException ''invalid_notification_preference''), w1)
      else
        let p' = p\<lparr>np_notifications_enabled := or_else (pi_notifications_enabled inp) (np_notifications_enabled p),
                   np_in_app_enabled := or_else (pi_in_app_enabled inp) (np_in_app_enabled p),
                   np_email_enabled := or_else (pi_email_enabled inp) (np_email_enabled p),
                   np_events := (case pi_events inp of
                      None \<Rightarrow> np_events p | Some evs \<Rightarrow> array_replace (np_events p) evs),
                   np_version := version + 1\<rparr>;
            w2 = w1\<lparr>w_preferences := tbl_put (u_id u) p' (w_preferences w1)\<rparr>
        in (Inr p', audit_write E ''outbound.notification_preferences_updated'' (Some (u_id u))
                      (Some (''OutboundNotificationPreference'', np_id p')) None None
                      (Some [(''preference_version'', PInt (np_version p'))]) w2))"

section \<open>Lemmas\<close>

lemma notify_frame [simp]:
  "w_messages (notify_user E u event msg extra key w) = w_messages w"
  "w_attempts (notify_user E u event msg extra key w) = w_attempts w"
  "w_reservations (notify_user E u event msg extra key w) = w_reservations w"
  "w_usages (notify_user E u event msg extra key w) = w_usages w"
  "w_suppressions (notify_user E u event msg extra key w) = w_suppressions w"
  "w_users (notify_user E u event msg extra key w) = w_users w"
  by (auto simp: notify_def notify_user_def preference_def create_notification_def fresh_id_def
      cache_increment_def audit_write_def dispatch_job_def Let_def split: prod.splits option.splits)

lemma find_message_notify [simp]:
  "find_message (notify_user E u event msg extra key w) mid = find_message w mid"
  by (simp add: find_message_def)

text \<open>Delivery jobs are never dispatched by a notification.\<close>

definition delivery_jobs :: "world \<Rightarrow> uuid list" where
  "delivery_jobs w = [i. DeliverOutboundMessageJob i \<leftarrow> w_jobs w]"

lemma notify_delivery_jobs [simp]:
  "delivery_jobs (notify_user E u event msg extra key w) = delivery_jobs w"
  by (auto simp: delivery_jobs_def notify_def notify_user_def preference_def create_notification_def
      fresh_id_def cache_increment_def audit_write_def dispatch_job_def Let_def
      split: prod.splits option.splits)

lemma create_notification_again:
  assumes "tbl_get (w_notifications w) (u_id u, key) = Some n"
  shows "create_notification E u event msg pl key email w =
    (n, cache_increment ''outbound.metrics.notification_duplicates'' w)"
  using assms by (simp add: create_notification_def)

lemma create_notification_stored:
  "tbl_get (w_notifications (snd (create_notification E u event msg pl key email w))) (u_id u, key)
     = Some (fst (create_notification E u event msg pl key email w))"
  by (auto simp: create_notification_def fresh_id_def cache_increment_def audit_write_def
      dispatch_job_def Let_def tbl_simps split: option.splits)

end
