(* ===== verification/Usage.thy ===== *)
theory Usage
  imports Entitlement Notifications
begin

text \<open>
  \<open>app/Services/Outbound/OutboundUsageService.php\<close>: reservation, commit and release of the
  outbound allowance of a subscription, in three dimensions per reset period, and the
  reconciliation of abandoned reservations
  (\<open>OutboundUsageReconciliationService.php\<close>).
\<close>

section \<open>Dimensions\<close>

text \<open>\<open>config/outbound_usage.php\<close>, \<open>feature_keys\<close>.\<close>

definition feature_keys :: "(string \<times> string) list" where
  "feature_keys =
     [(''messages'', ''outbound_messages_per_period''),
      (''recipients'', ''outbound_recipients_per_period''),
      (''attachment_bytes'', ''outbound_attachment_bytes_per_period'')]"

record dimension =
  di_feature :: "feature option"
  di_limit :: "int option"
  di_reset_period :: reset_period

definition default_reset_period :: "env \<Rightarrow> reset_period" where
  "default_reset_period E =
     (case reset_period_try_from (cf_default_reset_period (e_cfg E)) of Some p \<Rightarrow> p | None \<Rightarrow> Monthly)"

definition resolve_dimension :: "env \<Rightarrow> world \<Rightarrow> user \<Rightarrow> string \<Rightarrow> dimension" where
  "resolve_dimension E w u key =
     (let unlimited = \<lparr>di_feature = None, di_limit = None, di_reset_period = default_reset_period E\<rparr> in
      case get_feature w u key of
        None \<Rightarrow> unlimited
      | Some (f, pivot) \<Rightarrow>
          (case feature_value_of w u key of
             Some (FMeter (Some (LNum n)) reset) \<Rightarrow>
               \<lparr>di_feature = Some f, di_limit = Some (max 0 n),
                di_reset_period =
                  (case reset_period_try_from
                          (case reset of Some r \<Rightarrow> r | None \<Rightarrow> reset_period_value (default_reset_period E)) of
                     Some p \<Rightarrow> p | None \<Rightarrow> default_reset_period E)\<rparr>
           | _ \<Rightarrow> unlimited))"

definition resolve_dimensions :: "env \<Rightarrow> world \<Rightarrow> user \<Rightarrow> (string \<times> dimension) list" where
  "resolve_dimensions E w u = map (\<lambda>(d, key). (d, resolve_dimension E w u key)) feature_keys"

definition units_for_dimension :: "string \<Rightarrow> int \<Rightarrow> int \<Rightarrow> int" where
  "units_for_dimension d recipients bytes =
     (if d = ''messages'' then 1
      else if d = ''recipients'' then recipients
      else if d = ''attachment_bytes'' then bytes
      else 0)"

text \<open>The column of a reservation that a dimension sums.\<close>

definition dimension_units :: "string \<Rightarrow> usage_reservation \<Rightarrow> int" where
  "dimension_units d r =
     (if d = ''messages'' then ur_message_units r
      else if d = ''recipients'' then ur_recipient_units r
      else if d = ''attachment_bytes'' then ur_attachment_bytes r
      else 0)"

definition counts_as_outstanding :: "uuid \<Rightarrow> time \<Rightarrow> usage_reservation \<Rightarrow> bool" where
  "counts_as_outstanding sub start r \<longleftrightarrow>
     ur_subscription_id r = Some sub \<and> ur_state r = Reserved \<and> start \<le> ur_reserved_at r"

definition outstanding_reserved_units :: "world \<Rightarrow> uuid \<Rightarrow> string \<Rightarrow> time \<Rightarrow> int" where
  "outstanding_reserved_units w sub d start =
     sum_list (map (dimension_units d) (filter (counts_as_outstanding sub start) (tbl_rows (w_reservations w))))"

section \<open>The allowance check\<close>

definition quota_exception :: "string \<Rightarrow> exn" where
  "quota_exception d =
     OutboundSendException (''outbound_quota_'' @ d @ ''_exceeded'')
       (''The outbound '' @ map (\<lambda>c. if c = CHR ''_'' then CHR '' '' else c) d
          @ '' allowance has been exceeded for this billing period.'') 429"

definition find_usage :: "env \<Rightarrow> world \<Rightarrow> uuid \<Rightarrow> uuid \<Rightarrow> subscription_usage option" where
  "find_usage E w sub feat =
     first_of (filter (\<lambda>u. su_subscription_id u = sub \<and> su_feature_id u = feat \<and> e_now E \<le> su_period_end u)
                 (tbl_rows (w_usages w)))"

definition save_usage :: "subscription_usage \<Rightarrow> world \<Rightarrow> world" where
  "save_usage u w = w\<lparr>w_usages := tbl_put (su_id u) u (w_usages w)\<rparr>"

definition create_usage_row ::
  "env \<Rightarrow> uuid \<Rightarrow> uuid \<Rightarrow> int \<Rightarrow> reset_period \<Rightarrow> world \<Rightarrow> subscription_usage \<times> world" where
  "create_usage_row E sub feat limit period w =
     (let (i, w1) = fresh_id E w;
          u = \<lparr>su_id = i, su_subscription_id = sub, su_feature_id = feat, su_used_value = 0,
               su_limit_value = limit, su_reset_period = period,
               su_period_start = e_period_start E period (e_now E),
               su_period_end = e_period_end E period (e_now E), su_last_used_at = None\<rparr>
      in (u, save_usage u w1))"

text \<open>
  \<open>usage_row_for\<close> finds the row of the current period or creates it, and brings its limit up
  to date. The loop of \<open>checkAllowance\<close> goes through the dimensions in order.
\<close>

definition usage_row_for ::
  "env \<Rightarrow> uuid \<Rightarrow> feature \<Rightarrow> int \<Rightarrow> reset_period \<Rightarrow> world \<Rightarrow> subscription_usage \<times> world" where
  "usage_row_for E sub f limit period w =
     (case find_usage E w sub (ft_id f) of
        None \<Rightarrow> create_usage_row E sub (ft_id f) limit period w
      | Some u \<Rightarrow>
          if su_limit_value u \<noteq> limit then
            (let u' = u\<lparr>su_limit_value := limit\<rparr> in (u', save_usage u' w))
          else (u, w))"

definition check_dimension ::
  "env \<Rightarrow> uuid \<Rightarrow> int \<Rightarrow> int \<Rightarrow> bool \<Rightarrow> string \<Rightarrow> feature \<Rightarrow> int \<Rightarrow> reset_period \<Rightarrow> world
   \<Rightarrow> (world, subscription_usage option) outcome" where
  "check_dimension E sub recipients bytes lock d f limit period w =
     (let units = units_for_dimension d recipients bytes in
      if find_usage E w sub (ft_id f) = None \<and> \<not> lock then
        (if limit < outstanding_reserved_units w sub d (e_period_start E period (e_now E)) + units
         then (Inl (quota_exception d), w) else (Inr None, w))
      else
        let (u, w1) = usage_row_for E sub f limit period w in
        if su_limit_value u < su_used_value u + outstanding_reserved_units w1 sub d (su_period_start u) + units
        then (Inl (quota_exception d), w1) else (Inr (Some u), w1))"

fun check_dimensions ::
  "env \<Rightarrow> uuid option \<Rightarrow> int \<Rightarrow> int \<Rightarrow> bool \<Rightarrow> (string \<times> dimension) list \<Rightarrow> world
   \<Rightarrow> (world, (string \<times> subscription_usage) list) outcome" where
  "check_dimensions E sub recipients bytes lock [] w = (Inr [], w)"
| "check_dimensions E sub recipients bytes lock ((d, c) # ds) w =
     (case (di_limit c, sub, di_feature c) of
        (Some limit, Some s, Some f) \<Rightarrow>
          and_then (check_dimension E s recipients bytes lock d f limit (di_reset_period c) w)
            (\<lambda>u w1. and_then (check_dimensions E sub recipients bytes lock ds w1)
               (\<lambda>rows w2. (Inr (case u of Some row \<Rightarrow> (d, row) # rows | None \<Rightarrow> rows), w2)))
      | _ \<Rightarrow> check_dimensions E sub recipients bytes lock ds w)"

definition check_allowance ::
  "env \<Rightarrow> user \<Rightarrow> subscription option \<Rightarrow> int \<Rightarrow> int \<Rightarrow> bool \<Rightarrow> world
   \<Rightarrow> (world, (string \<times> subscription_usage) list) outcome" where
  "check_allowance E u sub recipients bytes lock w =
     check_dimensions E (map_option sb_id sub) recipients bytes lock (resolve_dimensions E w u) w"

definition assert_within_allowance :: "env \<Rightarrow> user \<Rightarrow> int \<Rightarrow> int \<Rightarrow> world \<Rightarrow> (world, unit) outcome" where
  "assert_within_allowance E u recipients bytes w =
     (if \<not> cf_metering_enabled (e_cfg E) then (Inr (), w)
      else and_then (check_allowance E u (current_subscription w u) (max 0 recipients) (max 0 bytes) False w)
             (\<lambda>_ w1. (Inr (), w1)))"

section \<open>Threshold notifications\<close>

definition maybe_notify_usage ::
  "env \<Rightarrow> user \<Rightarrow> uuid option \<Rightarrow> (string \<times> subscription_usage) list \<Rightarrow> world \<Rightarrow> world" where
  "maybe_notify_usage E u sub rows w =
     (case (sub, map_of rows ''messages'') of
        (Some s, Some usage) \<Rightarrow>
          (let limit = su_limit_value usage in
           if limit \<le> 0 then w
           else
             let consumed = su_used_value usage + outstanding_reserved_units w s ''messages'' (su_period_start usage);
                 percentage = min 100 (floor_percent consumed limit);
                 period = e_ymd E (su_period_start usage);
                 warning = max 1 (min 100 (cf_usage_warning_percent (e_cfg E)))
             in if limit \<le> consumed then
                  notify_user E u ''outbound.usage_exhausted'' None [(''percentage'', PInt 100)]
                    (''usage_exhausted:'' @ u_id u @ '':'' @ period) w
                else if warning \<le> percentage then
                  notify_user E u ''outbound.usage_warning'' None [(''percentage'', PInt percentage)]
                    (''usage_warning:'' @ u_id u @ '':'' @ period) w
                else w)
      | _ \<Rightarrow> w)"

section \<open>reserve, commit, release\<close>

definition find_reservation :: "world \<Rightarrow> uuid \<Rightarrow> usage_reservation option" where
  "find_reservation w mid = tbl_get (w_reservations w) mid"

text \<open>Rows are looked up and saved under the unique \<open>outbound_message_id\<close>.\<close>

definition save_reservation :: "uuid \<Rightarrow> usage_reservation \<Rightarrow> world \<Rightarrow> world" where
  "save_reservation mid r w = w\<lparr>w_reservations := tbl_put mid r (w_reservations w)\<rparr>"

text \<open>
  \<open>reserve\<close>. The unique key makes the insert of a second reservation impossible, and the
  look-up before it returns the existing row, so the handler of the insert's conflict, which
  returns that row too, has nothing to do in a single session.
\<close>

definition reserve ::
  "env \<Rightarrow> user \<Rightarrow> outbound_message \<Rightarrow> string \<Rightarrow> int \<Rightarrow> world \<Rightarrow> (world, usage_reservation option) outcome" where
  "reserve E u m key bytes w =
     (if \<not> cf_metering_enabled (e_cfg E) then (Inr None, w)
      else case find_reservation w (om_id m) of
        Some r \<Rightarrow> (Inr (Some r), w)
      | None \<Rightarrow>
        (let sub = current_subscription w u;
             recipients = max 0 (recipient_count m);
             bytes' = max 0 bytes
         in transaction (\<lambda>w0.
              and_then (check_allowance E u sub recipients bytes' True w0)
                (\<lambda>rows w1.
                  let r = \<lparr>ur_outbound_message_id = om_id m, ur_user_id = u_id u,
                           ur_subscription_id = map_option sb_id sub,
                           ur_operation = om_operation m, ur_idempotency_key = key,
                           ur_state = Reserved, ur_message_units = 1,
                           ur_recipient_units = recipients, ur_attachment_bytes = bytes',
                           ur_reserved_at = e_now E, ur_committed_at = None, ur_released_at = None,
                           ur_expires_at = Some (e_now E + cf_reservation_ttl_seconds (e_cfg E)),
                           ur_release_reason = None,
                           ur_usage_ids = map (\<lambda>(d, row). (d, su_id row)) rows,
                           ur_attempts = 0, ur_retries = 0, ur_permanent_failures = 0\<rparr>
                  in (Inr (Some r),
                      maybe_notify_usage E u (map_option sb_id sub) rows (save_reservation (om_id m) r w1)))) w))"

text \<open>The body of the commit loop for one dimension.\<close>

definition commit_dimension ::
  "env \<Rightarrow> usage_reservation \<Rightarrow> string \<Rightarrow> world \<Rightarrow> world" where
  "commit_dimension E r d w =
     (case map_of (ur_usage_ids r) d of
        None \<Rightarrow> w
      | Some uid \<Rightarrow>
          if dimension_units d r \<le> 0 then w
          else (case tbl_get (w_usages w) uid of
                  None \<Rightarrow> w
                | Some u \<Rightarrow> w\<lparr>w_usages := tbl_put uid
                     (u\<lparr>su_used_value := su_used_value u + dimension_units d r,
                        su_last_used_at := Some (e_now E)\<rparr>) (w_usages w)\<rparr>))"

definition commit :: "env \<Rightarrow> uuid \<Rightarrow> world \<Rightarrow> world" where
  "commit E mid w =
     (if \<not> cf_metering_enabled (e_cfg E) then w
      else case find_reservation w mid of
        None \<Rightarrow> w
      | Some r \<Rightarrow>
          if ur_state r \<noteq> Reserved then w
          else save_reservation mid (r\<lparr>ur_state := Committed, ur_committed_at := Some (e_now E)\<rparr>)
                 (commit_dimension E r ''attachment_bytes''
                   (commit_dimension E r ''recipients''
                     (commit_dimension E r ''messages'' w))))"

definition release_reservation :: "env \<Rightarrow> uuid \<Rightarrow> string \<Rightarrow> uuid option \<Rightarrow> world \<Rightarrow> world" where
  "release_reservation E mid reason actor w =
     (if \<not> cf_metering_enabled (e_cfg E) then w
      else case find_reservation w mid of
        None \<Rightarrow> w
      | Some r \<Rightarrow>
          if ur_state r \<noteq> Reserved then w
          else audit_write E ''outbound.usage_reservation_released'' actor None None
                 (Some [(''state'', PStr (reservation_value Released))])
                 (Some [(''outbound_message_id'', PStr mid), (''reason'', PStr reason)])
                 (save_reservation mid (r\<lparr>ur_state := Released, ur_released_at := Some (e_now E),
                                      ur_release_reason := Some reason\<rparr>) w))"

definition record_attempt_started :: "env \<Rightarrow> outbound_message \<Rightarrow> world \<Rightarrow> world" where
  "record_attempt_started E m w =
     (if \<not> cf_metering_enabled (e_cfg E) then w
      else case find_reservation w (om_id m) of
        None \<Rightarrow> w
      | Some r \<Rightarrow> save_reservation (om_id m)
          (r\<lparr>ur_attempts := ur_attempts r + 1,
             ur_retries := (if 1 < om_attempt_count m then ur_retries r + 1 else ur_retries r)\<rparr>) w)"

definition record_permanent_failure :: "env \<Rightarrow> uuid \<Rightarrow> world \<Rightarrow> world" where
  "record_permanent_failure E mid w =
     (if \<not> cf_metering_enabled (e_cfg E) then w
      else case find_reservation w mid of
        None \<Rightarrow> w
      | Some r \<Rightarrow> save_reservation mid (r\<lparr>ur_permanent_failures := ur_permanent_failures r + 1\<rparr>) w)"

section \<open>Reconciliation and corrections\<close>

record expiry_report =
  er_scanned :: nat
  er_released :: nat
  er_ambiguous :: nat

definition expiry_candidates :: "env \<Rightarrow> world \<Rightarrow> int \<Rightarrow> usage_reservation list" where
  "expiry_candidates E w batch =
     take (nat (max 1 batch))
       (sort_key (\<lambda>r. case ur_expires_at r of Some t \<Rightarrow> t | None \<Rightarrow> 0)
         (filter (\<lambda>r. ur_state r = Reserved \<and> (case ur_expires_at r of Some t \<Rightarrow> t < e_now E | None \<Rightarrow> False))
           (tbl_rows (w_reservations w))))"

text \<open>Whether the normal release policy covers the message of a reservation.\<close>

definition safe_to_release :: "world \<Rightarrow> usage_reservation \<Rightarrow> bool" where
  "safe_to_release w r =
     (case find_message w (ur_outbound_message_id r) of
        None \<Rightarrow> False
      | Some m \<Rightarrow> om_state m = Cancelled \<or> (om_state m = Failed \<and> om_transport_attempted_at m = None))"

definition expire_one :: "env \<Rightarrow> usage_reservation \<Rightarrow> world \<Rightarrow> world" where
  "expire_one E r w =
     (case find_reservation w (ur_outbound_message_id r) of
        None \<Rightarrow> w
      | Some locked \<Rightarrow>
          if ur_state locked \<noteq> Reserved then w
          else save_reservation (ur_outbound_message_id r) (locked\<lparr>ur_state := Expired, ur_released_at := Some (e_now E),
                 ur_release_reason := Some ''ttl_expired_safety_net''\<rparr>) w)"

fun expire_loop :: "env \<Rightarrow> bool \<Rightarrow> usage_reservation list \<Rightarrow> expiry_report \<Rightarrow> world \<Rightarrow> expiry_report \<times> world" where
  "expire_loop E dry [] rep w = (rep, w)"
| "expire_loop E dry (r # rs) rep w =
     (let rep1 = rep\<lparr>er_scanned := Suc (er_scanned rep)\<rparr> in
      if \<not> safe_to_release w r then
        expire_loop E dry rs (rep1\<lparr>er_ambiguous := Suc (er_ambiguous rep1)\<rparr>) w
      else if dry then
        expire_loop E dry rs (rep1\<lparr>er_released := Suc (er_released rep1)\<rparr>) w
      else
        expire_loop E dry rs (rep1\<lparr>er_released := Suc (er_released rep1)\<rparr>) (expire_one E r w))"

definition expire_reservations :: "env \<Rightarrow> int \<Rightarrow> bool \<Rightarrow> world \<Rightarrow> expiry_report \<times> world" where
  "expire_reservations E batch dry w =
     expire_loop E dry (expiry_candidates E w batch) \<lparr>er_scanned = 0, er_released = 0, er_ambiguous = 0\<rparr> w"

text \<open>\<open>repairMissingCommittedUsage\<close>: commits what a sent message still holds reserved.\<close>

definition missing_commits :: "world \<Rightarrow> int \<Rightarrow> usage_reservation list" where
  "missing_commits w batch =
     take (nat batch)
       (filter (\<lambda>r. ur_state r = Reserved
                  \<and> (case find_message w (ur_outbound_message_id r) of
                       Some m \<Rightarrow> om_state m = Sent | None \<Rightarrow> False))
         (tbl_rows (w_reservations w)))"

definition repair_missing_committed ::
  "env \<Rightarrow> int \<Rightarrow> bool \<Rightarrow> world \<Rightarrow> (nat \<times> nat) \<times> world" where
  "repair_missing_committed E batch dry w =
     (let cs = missing_commits w batch in
      if dry then ((length cs, 0), w)
      else ((length cs, length cs), fold (\<lambda>r. commit E (ur_outbound_message_id r)) cs w))"

definition duplicate_idempotency_reservations :: "world \<Rightarrow> nat" where
  "duplicate_idempotency_reservations w =
     length (filter (\<lambda>k. 1 < length (remdups (map ur_outbound_message_id
                          (filter (\<lambda>r. (ur_user_id r, ur_idempotency_key r) = k) (tbl_rows (w_reservations w))))))
       (remdups (map (\<lambda>r. (ur_user_id r, ur_idempotency_key r)) (tbl_rows (w_reservations w)))))"

definition orphaned_reservations :: "world \<Rightarrow> nat" where
  "orphaned_reservations w =
     length (filter (\<lambda>r. find_message w (ur_outbound_message_id r) = None) (tbl_rows (w_reservations w)))"

record usage_report =
  rp_duplicates :: nat
  rp_orphaned :: nat
  rp_missing :: nat
  rp_repaired :: nat
  rp_expiry :: expiry_report
  rp_dry_run :: bool

definition usage_reconcile :: "env \<Rightarrow> bool \<Rightarrow> bool \<Rightarrow> int \<Rightarrow> world \<Rightarrow> usage_report \<times> world" where
  "usage_reconcile E dryRun confirm batch w =
     (let dry = (dryRun \<or> \<not> confirm);
          dup = duplicate_idempotency_reservations w;
          orp = orphaned_reservations w;
          ((missing, repaired), w1) = repair_missing_committed E batch dry w;
          (expiry, w2) = expire_reservations E batch dry w1
      in (\<lparr>rp_duplicates = dup, rp_orphaned = orp, rp_missing = missing, rp_repaired = repaired,
            rp_expiry = expiry, rp_dry_run = dry\<rparr>, w2))"

record dimension_summary =
  ds_used :: int
  ds_remaining :: "int option"
  ds_unlimited :: bool
  ds_reset_at :: "string option"

definition dimension_summary_of :: "env \<Rightarrow> world \<Rightarrow> subscription option \<Rightarrow> dimension \<Rightarrow> dimension_summary" where
  "dimension_summary_of E w sub c =
     (case (di_limit c, sub, di_feature c) of
        (Some limit, Some s, Some f) \<Rightarrow>
          (let usage = find_usage E w (sb_id s) (ft_id f);
               used = (case usage of Some u \<Rightarrow> su_used_value u | None \<Rightarrow> 0)
           in \<lparr>ds_used = used, ds_remaining = Some (max 0 (limit - used)), ds_unlimited = False,
               ds_reset_at = map_option (\<lambda>u. e_iso8601 E (su_period_end u)) usage\<rparr>)
      | _ \<Rightarrow> \<lparr>ds_used = 0, ds_remaining = None, ds_unlimited = True, ds_reset_at = None\<rparr>)"

record usage_summary =
  us_messages :: dimension_summary
  us_recipients :: dimension_summary
  us_attachment_bytes :: dimension_summary
  us_reset_at :: "string option"
  us_send_email :: bool
  us_reply_email :: bool
  us_forward_email :: bool

definition summary_for_user :: "env \<Rightarrow> world \<Rightarrow> user \<Rightarrow> usage_summary" where
  "summary_for_user E w u =
     (let sub = current_subscription w u;
          dim = (\<lambda>d. dimension_summary_of E w sub (the (map_of (resolve_dimensions E w u) d)));
          m = dim ''messages''; r = dim ''recipients''; b = dim ''attachment_bytes''
      in \<lparr>us_messages = m, us_recipients = r, us_attachment_bytes = b,
          us_reset_at = (case ds_reset_at m of Some t \<Rightarrow> Some t | None \<Rightarrow>
                          (case ds_reset_at r of Some t \<Rightarrow> Some t | None \<Rightarrow> ds_reset_at b)),
          us_send_email = has_feature w u ''send_email'',
          us_reply_email = has_feature w u ''reply_email'',
          us_forward_email = has_feature w u ''forward_email''\<rparr>)"

definition admin_summary_for_user :: "env \<Rightarrow> world \<Rightarrow> user \<Rightarrow> user \<Rightarrow> exn + usage_summary" where
  "admin_summary_for_user E w actor target =
     (if \<not> is_platform_admin actor
      then Inl (AuthorizationException ''Only platform admins may view another user's outbound usage.'')
      else Inr (summary_for_user E w target))"

definition correct_usage ::
  "env \<Rightarrow> user \<Rightarrow> user \<Rightarrow> string \<Rightarrow> int \<Rightarrow> string \<Rightarrow> world \<Rightarrow> (world, subscription_usage) outcome" where
  "correct_usage E actor target dim newUsed reason w =
     (if \<not> is_platform_admin actor
        then (Inl (AuthorizationException ''Only platform admins may correct outbound usage.''), w)
      else case map_of feature_keys dim of
        None \<Rightarrow> (Inl (InvalidArgumentException (''Unknown outbound usage dimension: '' @ dim)), w)
      | Some key \<Rightarrow>
      (case current_subscription w target of
        None \<Rightarrow> (Inl (RuntimeException ''The target user has no active subscription to correct usage for.''), w)
      | Some s \<Rightarrow>
      (case get_feature w target key of
        None \<Rightarrow> (Inl (RuntimeException ''The target user's plan does not meter this dimension.''), w)
      | Some (f, pivot) \<Rightarrow>
      (case find_usage E w (sb_id s) (ft_id f) of
        None \<Rightarrow> (Inl (RuntimeException ''No active usage period found to correct.''), w)
      | Some u \<Rightarrow>
          (let u' = u\<lparr>su_used_value := max 0 newUsed\<rparr>
           in (Inr u', audit_write E ''outbound.usage_corrected'' (Some (u_id actor))
                 (Some (''SubscriptionUsage'', su_id u))
                 (Some [(''used_value'', PInt (su_used_value u))])
                 (Some [(''used_value'', PInt (su_used_value u'))])
                 (Some [(''target_user_id'', PStr (u_id target)), (''feature_key'', PStr (ft_key f)),
                        (''reason_code'', PStr reason)])
                 (save_usage u' w)))))))"

end
