(* ===== verification/Delivery_Result.thy ===== *)
theory Delivery_Result
  imports Model
begin

text \<open>
  The result of one transport submission (\<open>app/DTOs/Outbound/OutboundDeliveryResult.php\<close>)
  and the failure categories derived from its sanitized code
  (\<open>app/Services/Outbound/OutboundFailureCategoryMapper.php\<close>).
\<close>

section \<open>Failure categories\<close>

definition authorization_codes :: "string list" where
  "authorization_codes =
     [''user_inactive'', ''authorization_failed'', ''domain_outbound_disabled'',
      ''entitlement_denied'', ''inbox_inactive'', ''inbox_not_found'']"

definition content_codes :: "string list" where
  "content_codes =
     [''attachment_unsafe'', ''attachment_not_found'', ''attachment_deleted'',
      ''attachment_unavailable'', ''email_not_found'']"

definition suppression_codes :: "string list" where
  "suppression_codes = [''recipient_suppressed'']"

definition temporary_codes :: "string list" where
  "temporary_codes = [''rate_limit'', ''timeout'', ''dns_failure'', ''transport_temporary'']"

definition permanent_codes :: "string list" where
  "permanent_codes =
     [''invalid_recipient'', ''message_too_large'', ''transport_rejected'',
      ''provider_bounce'', ''provider_rejected'', ''provider_permanent_failure'',
      ''transport_error'']"

definition configuration_codes :: "string list" where
  "configuration_codes = [''credentials_rejected'', ''tls_configuration'', ''invalid_config'']"

definition exhausted_codes :: "string list" where
  "exhausted_codes = [''stale_sending_attempts_exhausted'']"

definition categorize :: "string option \<Rightarrow> string" where
  "categorize code =
     (case code of None \<Rightarrow> ''unknown'' | Some c \<Rightarrow>
       if c = '''' then ''unknown''
       else if c \<in> set authorization_codes then ''authorization''
       else if c \<in> set content_codes then ''content''
       else if c \<in> set suppression_codes then ''suppression''
       else if c \<in> set exhausted_codes then ''exhausted''
       else if c \<in> set configuration_codes then ''configuration''
       else if str_starts_with c ''smtp_4'' \<or> c \<in> set temporary_codes then ''transport_temporary''
       else if str_starts_with c ''smtp_5'' \<or> c \<in> set permanent_codes then ''transport_permanent''
       else ''unknown'')"

definition user_safe_from_category :: "string option \<Rightarrow> string" where
  "user_safe_from_category category =
     (if category = Some ''authorization'' then ''authorization_issue''
      else if category = Some ''content'' then ''content_issue''
      else if category = Some ''suppression'' then ''recipient_issue''
      else if category = Some ''transport_temporary'' then ''temporary_issue''
      else if category = Some ''transport_permanent'' \<or> category = Some ''exhausted'' then ''permanent_issue''
      else if category = Some ''configuration'' then ''system_issue''
      else ''unknown'')"

definition user_safe_category :: "string option \<Rightarrow> string" where
  "user_safe_category code = user_safe_from_category (Some (categorize code))"

section \<open>Sanitized results\<close>

record delivery_result =
  dr_result :: transport_result
  dr_provider :: "string option"
  dr_provider_message_id :: "string option"
  dr_failure_code :: "string option"
  dr_failure_message :: "string option"

text \<open>The constructor: it refuses a code on acceptance and a missing code otherwise.\<close>

definition new_result ::
  "transport_result \<Rightarrow> string option \<Rightarrow> string option \<Rightarrow> string option \<Rightarrow> string option
   \<Rightarrow> exn + delivery_result" where
  "new_result result provider pmid code msg =
     (if result = Accepted \<and> code \<noteq> None then
        Inl (InvalidArgumentException ''Accepted transport results must not include a failure code.'')
      else if result \<noteq> Accepted \<and> (code = None \<or> code = Some '''') then
        Inl (InvalidArgumentException ''Non-accepted transport results require a sanitized failure code.'')
      else Inr \<lparr>dr_result = result, dr_provider = provider, dr_provider_message_id = pmid,
                dr_failure_code = code, dr_failure_message = msg\<rparr>)"

definition is_code_char :: "char \<Rightarrow> bool" where
  "is_code_char c \<longleftrightarrow> is_alnum_ci c \<or> c \<in> {CHR ''.'', CHR ''_'', CHR '':'', CHR ''-''}"

text \<open>\<open>preg_replace(..) ?: 'transport_error'\<close>: both the empty string and \<open>"0"\<close> are falsy.\<close>

definition sanitize_code :: "string \<Rightarrow> string" where
  "sanitize_code code =
     (let s = filter is_code_char code;
          s' = (if s = '''' \<or> s = ''0'' then ''transport_error'' else s)
      in mb_substr0 s' 80)"

definition is_stripped_control :: "char \<Rightarrow> bool" where
  "is_stripped_control c \<longleftrightarrow>
     (let n = (of_char c :: nat) in n \<le> 8 \<or> n = 11 \<or> n = 12 \<or> (14 \<le> n \<and> n \<le> 31) \<or> n = 127)"

definition sanitize_message :: "string option \<Rightarrow> string option" where
  "sanitize_message msg =
     (case msg of None \<Rightarrow> None
      | Some m \<Rightarrow>
          let clean = trim (filter (\<lambda>c. \<not> is_stripped_control c) m)
          in if clean = '''' then None else Some (mb_substr0 clean 255))"

definition accepted :: "string option \<Rightarrow> string option \<Rightarrow> exn + delivery_result" where
  "accepted provider pmid = new_result Accepted provider pmid None None"

definition rejected :: "string \<Rightarrow> string option \<Rightarrow> string option \<Rightarrow> exn + delivery_result" where
  "rejected code msg provider =
     new_result Rejected provider None (Some (sanitize_code code)) (sanitize_message msg)"

definition temporary_failure :: "string \<Rightarrow> string option \<Rightarrow> string option \<Rightarrow> exn + delivery_result" where
  "temporary_failure code msg provider =
     new_result TemporaryFailure provider None (Some (sanitize_code code)) (sanitize_message msg)"

definition permanent_failure :: "string \<Rightarrow> string option \<Rightarrow> string option \<Rightarrow> exn + delivery_result" where
  "permanent_failure code msg provider =
     new_result PermanentFailure provider None (Some (sanitize_code code)) (sanitize_message msg)"

definition configuration_failure :: "string \<Rightarrow> string option \<Rightarrow> string option \<Rightarrow> exn + delivery_result" where
  "configuration_failure code msg provider =
     new_result ConfigurationFailure provider None (Some (sanitize_code code)) (sanitize_message msg)"

definition opt_str :: "string option \<Rightarrow> php" where
  "opt_str s = (case s of None \<Rightarrow> PNull | Some x \<Rightarrow> PStr x)"

definition to_array :: "delivery_result \<Rightarrow> payload" where
  "to_array r =
     [(''result'', PStr (transport_result_value (dr_result r))),
      (''provider'', opt_str (dr_provider r)),
      (''provider_message_id'', opt_str (dr_provider_message_id r)),
      (''failure_code'', opt_str (dr_failure_code r)),
      (''failure_message'', opt_str (dr_failure_message r))]"

text \<open>
  \<open>isset(p[k]) ? (string) p[k] : null\<close> for payloads whose entries are strings or null;
  any other entry is outside what \<open>toArray\<close> writes and is an error here.
\<close>

definition array_string :: "payload \<Rightarrow> string \<Rightarrow> exn + string option" where
  "array_string p k =
     (case map_of p k of
        None \<Rightarrow> Inr None
      | Some PNull \<Rightarrow> Inr None
      | Some (PStr s) \<Rightarrow> Inr (Some s)
      | Some _ \<Rightarrow> Inl TypeError)"

definition from_array :: "payload \<Rightarrow> exn + delivery_result" where
  "from_array p =
     (case array_string p ''result'' of Inl e \<Rightarrow> Inl e | Inr res \<Rightarrow>
      case transport_result_try_from (case res of None \<Rightarrow> '''' | Some s \<Rightarrow> s) of
        None \<Rightarrow> Inl (InvalidArgumentException ''Invalid outbound transport result.'')
      | Some r \<Rightarrow>
      case array_string p ''provider'' of Inl e \<Rightarrow> Inl e | Inr provider \<Rightarrow>
      case array_string p ''provider_message_id'' of Inl e \<Rightarrow> Inl e | Inr pmid \<Rightarrow>
      case array_string p ''failure_code'' of Inl e \<Rightarrow> Inl e | Inr code \<Rightarrow>
      case array_string p ''failure_message'' of Inl e \<Rightarrow> Inl e | Inr msg \<Rightarrow>
        new_result r provider pmid (map_option sanitize_code code) (sanitize_message msg))"

section \<open>Lemmas\<close>

lemma filter_code_fixed: "\<forall>c \<in> set s. is_code_char c \<Longrightarrow> filter is_code_char s = s"
  by (simp add: filter_id_conv)

lemma transport_error_chars: "\<forall>c \<in> set ''transport_error''. is_code_char c"
  by (simp add: is_code_char_def is_alnum_ci_def)

lemma sanitize_code_chars: "\<forall>c \<in> set (sanitize_code code). is_code_char c"
  using transport_error_chars
  by (auto simp: sanitize_code_def mb_substr0_def Let_def dest: in_set_takeD)

lemma sanitize_code_nonempty: "sanitize_code code \<noteq> ''''" "sanitize_code code \<noteq> ''0''"
proof -
  show "sanitize_code code \<noteq> ''''"
    by (auto simp: sanitize_code_def mb_substr0_def Let_def)
  show "sanitize_code code \<noteq> ''0''"
  proof
    assume h: "sanitize_code code = ''0''"
    let ?s = "filter is_code_char code"
    from h have "take 80 ?s = ''0''" and ne: "?s \<noteq> ''0''"
      by (auto simp: sanitize_code_def mb_substr0_def Let_def split: if_splits)
    then have "length (take 80 ?s) = 1" by simp
    then have "length ?s \<le> 80" by (simp add: min_def split: if_splits)
    with \<open>take 80 ?s = ''0''\<close> ne show False by simp
  qed
qed

lemma sanitize_code_length: "length (sanitize_code code) \<le> 80"
  by (simp add: sanitize_code_def mb_substr0_def Let_def)

lemma sanitize_code_idem: "sanitize_code (sanitize_code code) = sanitize_code code"
proof -
  have "filter is_code_char (sanitize_code code) = sanitize_code code"
    by (rule filter_code_fixed [OF sanitize_code_chars])
  then show ?thesis
    using sanitize_code_nonempty [of code] sanitize_code_length [of code]
    by (subst sanitize_code_def) (simp add: Let_def mb_substr0_def)
qed

lemma set_trim: "set (trim s) \<subseteq> set s"
proof -
  have "set (dropWhile P xs) \<subseteq> set xs" for P and xs :: "'a list"
    by (auto dest: set_dropWhileD)
  from this [of is_trim_char "rev (dropWhile is_trim_char s)"] this [of is_trim_char s]
  show ?thesis by (auto simp: trim_def)
qed

lemma sanitize_message_idem:
  assumes "length m \<le> 255"
  shows "sanitize_message (sanitize_message (Some m)) = sanitize_message (Some m)"
proof -
  define clean where "clean = trim (filter (\<lambda>c. \<not> is_stripped_control c) m)"
  have len: "length clean \<le> 255"
    unfolding clean_def
    using assms length_trim_le length_filter_le le_trans by blast
  have chars: "filter (\<lambda>c. \<not> is_stripped_control c) clean = clean"
    unfolding clean_def by (rule filter_True) (use set_trim in fastforce)
  have "trim clean = clean" by (simp add: clean_def)
  with len chars show ?thesis
    by (simp add: sanitize_message_def Let_def mb_substr0_def flip: clean_def)
qed

lemma constructors_return:
  "rejected code msg provider = Inr \<lparr>dr_result = Rejected, dr_provider = provider,
     dr_provider_message_id = None, dr_failure_code = Some (sanitize_code code),
     dr_failure_message = sanitize_message msg\<rparr>"
  "temporary_failure code msg provider = Inr \<lparr>dr_result = TemporaryFailure, dr_provider = provider,
     dr_provider_message_id = None, dr_failure_code = Some (sanitize_code code),
     dr_failure_message = sanitize_message msg\<rparr>"
  "permanent_failure code msg provider = Inr \<lparr>dr_result = PermanentFailure, dr_provider = provider,
     dr_provider_message_id = None, dr_failure_code = Some (sanitize_code code),
     dr_failure_message = sanitize_message msg\<rparr>"
  "configuration_failure code msg provider = Inr \<lparr>dr_result = ConfigurationFailure, dr_provider = provider,
     dr_provider_message_id = None, dr_failure_code = Some (sanitize_code code),
     dr_failure_message = sanitize_message msg\<rparr>"
  "accepted provider pmid = Inr \<lparr>dr_result = Accepted, dr_provider = provider,
     dr_provider_message_id = pmid, dr_failure_code = None, dr_failure_message = None\<rparr>"
  by (simp_all add: rejected_def temporary_failure_def permanent_failure_def
      configuration_failure_def accepted_def new_result_def sanitize_code_nonempty)

text \<open>What the constructor guarantees of every result that exists.\<close>

definition valid_result :: "delivery_result \<Rightarrow> bool" where
  "valid_result r \<longleftrightarrow> (dr_result r = Accepted \<longleftrightarrow> dr_failure_code r = None) \<and> dr_failure_code r \<noteq> Some ''''"

lemma new_result_valid: "new_result a b c d e = Inr r \<Longrightarrow> valid_result r"
  by (auto simp: new_result_def valid_result_def split: if_splits)

lemma array_string_to_array [simp]:
  "array_string (to_array r) ''result'' = Inr (Some (transport_result_value (dr_result r)))"
  "array_string (to_array r) ''provider'' = Inr (dr_provider r)"
  "array_string (to_array r) ''provider_message_id'' = Inr (dr_provider_message_id r)"
  "array_string (to_array r) ''failure_code'' = Inr (dr_failure_code r)"
  "array_string (to_array r) ''failure_message'' = Inr (dr_failure_message r)"
  by (simp_all add: array_string_def to_array_def opt_str_def split: option.splits)

lemma from_to_array:
  "from_array (to_array r) =
     new_result (dr_result r) (dr_provider r) (dr_provider_message_id r)
       (map_option sanitize_code (dr_failure_code r)) (sanitize_message (dr_failure_message r))"
  by (simp add: from_array_def)

end
