(* ===== verification/Attempts.thy ===== *)
theory Attempts
  imports Delivery_Result
begin

text \<open>
  \<open>app/Services/Outbound/OutboundDeliveryAttemptRecorder.php\<close>: one row per message and
  attempt number, in flight when it is started and written once with its outcome.
\<close>

definition attempt_key :: "outbound_message \<Rightarrow> uuid \<times> int" where
  "attempt_key m = (om_id m, om_attempt_count m)"

definition current_attempt :: "world \<Rightarrow> outbound_message \<Rightarrow> delivery_attempt option" where
  "current_attempt w m = tbl_get (w_attempts w) (attempt_key m)"

definition save_attempt :: "outbound_message \<Rightarrow> delivery_attempt \<Rightarrow> world \<Rightarrow> world" where
  "save_attempt m a w = w\<lparr>w_attempts := tbl_put (attempt_key m) a (w_attempts w)\<rparr>"

definition attempt_start ::
  "env \<Rightarrow> outbound_message \<Rightarrow> string option \<Rightarrow> string option \<Rightarrow> string option \<Rightarrow> world \<Rightarrow> world" where
  "attempt_start E m transport provider failover w =
     (case current_attempt w m of
        Some a \<Rightarrow> w
      | None \<Rightarrow> save_attempt m
          \<lparr>at_transport = transport, at_provider = provider, at_state = Attempted,
           at_result = None, at_failure_category = None, at_provider_message_id = None,
           at_failover_reason_code = failover, at_ambiguous = False,
           at_started_at = Some (e_now E), at_completed_at = None, at_duration_ms = None\<rparr> w)"

definition attempt_complete ::
  "env \<Rightarrow> outbound_message \<Rightarrow> attempt_state \<Rightarrow> string option \<Rightarrow> string option \<Rightarrow> string option
   \<Rightarrow> string option \<Rightarrow> world \<Rightarrow> world" where
  "attempt_complete E m state result failureCode pmid failover w =
     (case current_attempt w m of
        None \<Rightarrow> w
      | Some a \<Rightarrow>
          if attempt_is_terminal (at_state a) then w
          else save_attempt m
            (a\<lparr>at_state := state,
               at_result := result,
               at_failure_category := (case failureCode of None \<Rightarrow> None | Some c \<Rightarrow> Some (categorize (Some c))),
               at_provider_message_id := pmid,
               at_failover_reason_code :=
                 (case failover of Some c \<Rightarrow> Some c | None \<Rightarrow> at_failover_reason_code a),
               at_completed_at := Some (e_now E),
               at_duration_ms :=
                 (case at_started_at a of
                    Some t \<Rightarrow> Some (max 0 (1000 * (e_now E - t)))
                  | None \<Rightarrow> None)\<rparr>) w)"

definition attempt_mark_ambiguous :: "outbound_message \<Rightarrow> world \<Rightarrow> world" where
  "attempt_mark_ambiguous m w =
     (case current_attempt w m of
        None \<Rightarrow> w
      | Some a \<Rightarrow>
          if attempt_is_terminal (at_state a) then w
          else save_attempt m (a\<lparr>at_state := Ambiguous, at_ambiguous := True\<rparr>) w)"

text \<open>\<open>orderByDesc('attempt_number')->first()\<close> over the attempts of one message.\<close>

definition latest_attempt :: "world \<Rightarrow> outbound_message \<Rightarrow> delivery_attempt option" where
  "latest_attempt w m =
     (let ns = map (snd \<circ> fst) (filter (\<lambda>((i, n), a). i = om_id m) (w_attempts w))
      in if ns = [] then None else tbl_get (w_attempts w) (om_id m, Max (set ns)))"

section \<open>Lemmas\<close>

lemma attempt_frame [simp]:
  "w_messages (attempt_start E m t p f w) = w_messages w"
  "w_messages (attempt_complete E m s r c i f w) = w_messages w"
  "w_messages (attempt_mark_ambiguous m w) = w_messages w"
  "w_reservations (attempt_start E m t p f w) = w_reservations w"
  "w_reservations (attempt_complete E m s r c i f w) = w_reservations w"
  "w_reservations (attempt_mark_ambiguous m w) = w_reservations w"
  "w_usages (attempt_start E m t p f w) = w_usages w"
  "w_usages (attempt_complete E m s r c i f w) = w_usages w"
  "w_usages (attempt_mark_ambiguous m w) = w_usages w"
  "w_jobs (attempt_start E m t p f w) = w_jobs w"
  "w_jobs (attempt_complete E m s r c i f w) = w_jobs w"
  "w_jobs (attempt_mark_ambiguous m w) = w_jobs w"
  "w_cache (attempt_start E m t p f w) = w_cache w"
  "w_users (attempt_start E m t p f w) = w_users w"
  by (simp_all add: attempt_start_def attempt_complete_def attempt_mark_ambiguous_def
      save_attempt_def split: option.splits)

lemma find_message_attempt [simp]:
  "find_message (attempt_start E m t p f w) mid = find_message w mid"
  "find_message (attempt_complete E m s r c i f w) mid = find_message w mid"
  "find_message (attempt_mark_ambiguous m w) mid = find_message w mid"
  by (simp_all add: find_message_def)

lemma current_save_attempt:
  "current_attempt (save_attempt m a w) m' = (if attempt_key m' = attempt_key m then Some a else current_attempt w m')"
  by (simp add: current_attempt_def save_attempt_def tbl_simps)

text \<open>
  A recorded outcome is final: no operation of the recorder changes a row whose state is
  terminal, nor the row of another attempt.
\<close>

lemma attempt_ops_keep_terminal:
  assumes "tbl_get (w_attempts w) k = Some a" and "attempt_is_terminal (at_state a)"
  shows "tbl_get (w_attempts (attempt_start E m t p f w)) k = Some a"
    and "tbl_get (w_attempts (attempt_complete E m s r c i f w)) k = Some a"
    and "tbl_get (w_attempts (attempt_mark_ambiguous m w)) k = Some a"
  using assms
  by (auto simp: attempt_start_def attempt_complete_def attempt_mark_ambiguous_def
      current_attempt_def save_attempt_def tbl_simps split: option.splits)

lemma attempt_start_current:
  "current_attempt (attempt_start E m t p f w) m \<noteq> None"
  by (auto simp: attempt_start_def current_save_attempt split: option.splits)

lemma attempt_complete_current:
  assumes "current_attempt w m = Some a" and "at_state a = Attempted"
  shows "map_option at_state (current_attempt (attempt_complete E m s r c i f w) m) = Some s"
  using assms by (simp add: attempt_complete_def current_save_attempt attempt_is_terminal_def)

text \<open>The unique index \<open>(outbound_message_id, attempt_number)\<close>.\<close>

lemma attempts_distinct:
  assumes "distinct (map fst (w_attempts w))"
  shows "distinct (map fst (w_attempts (attempt_start E m t p f w)))"
    and "distinct (map fst (w_attempts (attempt_complete E m s r c i f w)))"
    and "distinct (map fst (w_attempts (attempt_mark_ambiguous m w)))"
  using assms
  by (auto simp: attempt_start_def attempt_complete_def attempt_mark_ambiguous_def
      save_attempt_def tbl_put_def distinct_update split: option.splits)

end
