(* ===== verification/Usage_Facts.thy ===== *)
theory Usage_Facts
  imports Usage Attempts
begin

text \<open>
  Properties of the usage ledger: the contract of a reservation (a locale interpreted on
  \<open>commit\<close> and \<open>release_reservation\<close>), what each operation charges, and the allowance the
  check guarantees.
\<close>

section \<open>Frames\<close>

lemma usage_ops_messages [simp]:
  "w_messages (commit_dimension E r d w) = w_messages w"
  "w_messages (commit E mid w) = w_messages w"
  "w_messages (release_reservation E mid reason actor w) = w_messages w"
  "w_messages (record_attempt_started E m w) = w_messages w"
  "w_messages (record_permanent_failure E mid w) = w_messages w"
  "w_messages (expire_one E r w) = w_messages w"
  by (simp_all add: commit_dimension_def commit_def release_reservation_def record_attempt_started_def
      record_permanent_failure_def expire_one_def save_reservation_def split: option.splits)

lemma usage_ops_attempts [simp]:
  "w_attempts (commit_dimension E r d w) = w_attempts w"
  "w_attempts (commit E mid w) = w_attempts w"
  "w_attempts (release_reservation E mid reason actor w) = w_attempts w"
  "w_attempts (record_attempt_started E m w) = w_attempts w"
  "w_attempts (record_permanent_failure E mid w) = w_attempts w"
  by (simp_all add: commit_dimension_def commit_def release_reservation_def record_attempt_started_def
      record_permanent_failure_def save_reservation_def split: option.splits)

lemma usage_ops_jobs [simp]:
  "w_jobs (commit_dimension E r d w) = w_jobs w"
  "w_jobs (commit E mid w) = w_jobs w"
  "w_jobs (release_reservation E mid reason actor w) = w_jobs w"
  "w_jobs (record_attempt_started E m w) = w_jobs w"
  "w_jobs (record_permanent_failure E mid w) = w_jobs w"
  by (simp_all add: commit_dimension_def commit_def release_reservation_def record_attempt_started_def
      record_permanent_failure_def save_reservation_def split: option.splits)

lemma find_message_usage_ops [simp]:
  "find_message (commit E mid w) i = find_message w i"
  "find_message (release_reservation E mid reason actor w) i = find_message w i"
  "find_message (record_attempt_started E m w) i = find_message w i"
  "find_message (record_permanent_failure E mid w) i = find_message w i"
  by (simp_all add: find_message_def)

lemma commit_dimension_reservations [simp]:
  "w_reservations (commit_dimension E r d w) = w_reservations w"
  by (simp add: commit_dimension_def split: option.splits)

lemma find_save_reservation [tbl_simps]:
  "find_reservation (save_reservation mid r w) k = (if k = mid then Some r else find_reservation w k)"
  by (simp add: find_reservation_def save_reservation_def tbl_simps)

lemma find_reservation_frame [simp]:
  "find_reservation (commit_dimension E r d w) mid = find_reservation w mid"
  "find_reservation (audit_write E a b c p q s w) mid = find_reservation w mid"
  "find_reservation (dispatch_job j w) mid = find_reservation w mid"
  "find_reservation (notify_user E u ev msg ex key w) mid = find_reservation w mid"
  "find_reservation (attempt_start E m tr pr fo w) mid = find_reservation w mid"
  "find_reservation (attempt_complete E m st res fc pm fo w) mid = find_reservation w mid"
  "find_reservation (snd (update_message_where k P g w)) mid = find_reservation w mid"
  by (simp_all add: find_reservation_def)

section \<open>The ledger contract\<close>

text \<open>
  A ledger of one-shot settlements: \<open>settle\<close> and \<open>cancel\<close> each move an open entry to their
  own final status and leave every other entry and every closed entry alone. Whatever the
  order in which they are called, the first one that finds the entry open decides, and
  afterwards nothing changes it.
\<close>

locale settlement_ledger =
  fixes status :: "'s \<Rightarrow> 'k \<Rightarrow> reservation_state option"
    and settle :: "'k \<Rightarrow> 's \<Rightarrow> 's"
    and cancel :: "'k \<Rightarrow> 's \<Rightarrow> 's"
    and enabled :: bool
  assumes status_settle:
      "status (settle k s) k' =
         (if enabled \<and> k' = k \<and> status s k = Some Reserved then Some Committed else status s k')"
    and status_cancel:
      "status (cancel k s) k' =
         (if enabled \<and> k' = k \<and> status s k = Some Reserved then Some Released else status s k')"
begin

definition call :: "bool \<times> 'k \<Rightarrow> 's \<Rightarrow> 's" where
  "call c s = (if fst c then settle (snd c) s else cancel (snd c) s)"

lemma call_closed: "status s k = Some st \<Longrightarrow> st \<noteq> Reserved \<Longrightarrow> status (call c s) k = Some st"
  by (auto simp: call_def status_settle status_cancel)

lemma closed_entry_stays:
  "status s k = Some st \<Longrightarrow> st \<noteq> Reserved \<Longrightarrow> status (fold call cs s) k = Some st"
  by (induction cs arbitrary: s) (simp_all add: call_closed)

lemma settle_then_closed:
  "enabled \<Longrightarrow> status s k = Some Reserved \<Longrightarrow> status (fold call cs (settle k s)) k = Some Committed"
  by (rule closed_entry_stays) (simp_all add: status_settle)

lemma cancel_then_closed:
  "enabled \<Longrightarrow> status s k = Some Reserved \<Longrightarrow> status (fold call cs (cancel k s)) k = Some Released"
  by (rule closed_entry_stays) (simp_all add: status_cancel)

lemma first_call_decides:
  assumes "enabled" and "status s k = Some Reserved"
  shows "status (fold call cs s) k =
     (case filter (\<lambda>c. snd c = k) cs of
        [] \<Rightarrow> Some Reserved
      | c # _ \<Rightarrow> Some (if fst c then Committed else Released))"
  using assms
proof (induction cs arbitrary: s)
  case Nil
  then show ?case by simp
next
  case (Cons c cs)
  show ?case
  proof (cases "snd c = k")
    case True
    with Cons.prems have "status (call c s) k = Some (if fst c then Committed else Released)"
      by (auto simp: call_def status_settle status_cancel)
    then have "status (fold call cs (call c s)) k = Some (if fst c then Committed else Released)"
      by (rule closed_entry_stays) simp
    with True show ?thesis by simp
  next
    case False
    with Cons.prems have "status (call c s) k = Some Reserved"
      by (auto simp: call_def status_settle status_cancel)
    with Cons False show ?thesis by simp
  qed
qed

end

definition reservation_status :: "world \<Rightarrow> uuid \<Rightarrow> reservation_state option" where
  "reservation_status w mid = map_option ur_state (find_reservation w mid)"

lemma find_commit:
  "find_reservation (commit E mid w) k =
    (if cf_metering_enabled (e_cfg E) \<and> k = mid \<and> reservation_status w mid = Some Reserved
     then Some ((the (find_reservation w mid))\<lparr>ur_state := Committed, ur_committed_at := Some (e_now E)\<rparr>)
     else find_reservation w k)"
  by (auto simp: commit_def reservation_status_def tbl_simps split: option.splits)

lemma find_release:
  "find_reservation (release_reservation E mid reason actor w) k =
    (if cf_metering_enabled (e_cfg E) \<and> k = mid \<and> reservation_status w mid = Some Reserved
     then Some ((the (find_reservation w mid))\<lparr>ur_state := Released, ur_released_at := Some (e_now E),
                  ur_release_reason := Some reason\<rparr>)
     else find_reservation w k)"
  by (auto simp: release_reservation_def reservation_status_def tbl_simps split: option.splits)

interpretation ledger: settlement_ledger reservation_status "commit E"
    "\<lambda>mid. release_reservation E mid reason actor" "cf_metering_enabled (e_cfg E)" for E reason actor
  by unfold_locales
     (auto simp: reservation_status_def find_commit find_release split: if_splits)

section \<open>What is charged\<close>

text \<open>
  The units a reservation charges to one usage row when it is committed: those of every
  dimension whose row it is.
\<close>

definition charge :: "usage_reservation \<Rightarrow> uuid \<Rightarrow> int" where
  "charge r uid =
     sum_list (map (\<lambda>d. if map_of (ur_usage_ids r) d = Some uid then max 0 (dimension_units d r) else 0)
       [''messages'', ''recipients'', ''attachment_bytes''])"

definition used_value :: "world \<Rightarrow> uuid \<Rightarrow> int option" where
  "used_value w uid = map_option su_used_value (tbl_get (w_usages w) uid)"

lemma used_commit_dimension:
  "used_value (commit_dimension E r d w) uid =
     map_option (\<lambda>n. n + (if map_of (ur_usage_ids r) d = Some uid then max 0 (dimension_units d r) else 0))
       (used_value w uid)"
  by (auto simp: commit_dimension_def used_value_def tbl_simps split: option.splits)

lemma used_save_reservation [simp]: "used_value (save_reservation mid r w) uid = used_value w uid"
  by (simp add: used_value_def save_reservation_def)

lemma used_commit:
  assumes "cf_metering_enabled (e_cfg E)" and "find_reservation w mid = Some r" and "ur_state r = Reserved"
  shows "used_value (commit E mid w) uid = map_option (\<lambda>n. n + charge r uid) (used_value w uid)"
  using assms
  by (cases "used_value w uid") (simp_all add: commit_def used_commit_dimension charge_def)

lemma used_commit_closed:
  "reservation_status w mid \<noteq> Some Reserved \<Longrightarrow> commit E mid w = w"
  by (auto simp: commit_def reservation_status_def split: option.splits)

lemma release_closed:
  "reservation_status w mid \<noteq> Some Reserved \<Longrightarrow> release_reservation E mid reason actor w = w"
  by (auto simp: release_reservation_def reservation_status_def split: option.splits)

lemma used_release [simp]:
  "used_value (release_reservation E mid reason actor w) uid = used_value w uid"
  by (simp add: used_value_def release_reservation_def save_reservation_def split: option.splits)

section \<open>Expiry\<close>

lemma expire_loop_counts:
  "er_scanned (fst (expire_loop E dry rs rep w)) = er_scanned rep + length rs
   \<and> er_released (fst (expire_loop E dry rs rep w)) + er_ambiguous (fst (expire_loop E dry rs rep w))
       = er_released rep + er_ambiguous rep + length rs"
  by (induction E dry rs rep w rule: expire_loop.induct) (simp_all add: Let_def)

lemma expire_loop_dry: "snd (expire_loop E True rs rep w) = w"
  by (induction rs arbitrary: rep) (simp_all add: Let_def)

lemma safe_to_release_messages: "w_messages w' = w_messages w \<Longrightarrow> safe_to_release w' r = safe_to_release w r"
  by (simp add: safe_to_release_def find_message_def)

text \<open>What the loop does to one row: expires it if some scanned row of its message is safe.\<close>

lemma find_expire_one:
  "find_reservation (expire_one E r w) k =
     (if k = ur_outbound_message_id r \<and> reservation_status w k = Some Reserved
      then Some ((the (find_reservation w k))\<lparr>ur_state := Expired, ur_released_at := Some (e_now E),
                   ur_release_reason := Some ''ttl_expired_safety_net''\<rparr>)
      else find_reservation w k)"
  by (auto simp: expire_one_def reservation_status_def tbl_simps split: option.splits)

lemma expire_loop_messages: "w_messages (snd (expire_loop E dry rs rep w)) = w_messages w"
  by (induction E dry rs rep w rule: expire_loop.induct) (simp_all add: Let_def)

lemma expire_loop_usages: "w_usages (snd (expire_loop E dry rs rep w)) = w_usages w"
proof (induction E dry rs rep w rule: expire_loop.induct)
  case (2 E dry r rs rep w)
  have "w_usages (expire_one E r w) = w_usages w"
    by (simp add: expire_one_def save_reservation_def split: option.splits)
  with 2 show ?case by (simp add: Let_def)
qed simp

lemma expire_loop_status:
  assumes "reservation_status (snd (expire_loop E dry rs rep w)) k \<noteq> reservation_status w k"
  shows "\<exists>r \<in> set rs. ur_outbound_message_id r = k \<and> safe_to_release w r
           \<and> reservation_status w k = Some Reserved
           \<and> reservation_status (snd (expire_loop E dry rs rep w)) k = Some Expired"
  using assms
proof (induction E dry rs rep w rule: expire_loop.induct)
  case (1 E dry rep w)
  then show ?case by simp
next
  case (2 E dry r rs rep w)
  show ?case
  proof (cases "safe_to_release w r \<and> \<not> dry")
    case False
    with 2 show ?thesis by (auto simp: Let_def)
  next
    case True
    let ?rep = "rep\<lparr>er_scanned := Suc (er_scanned rep), er_released := Suc (er_released rep)\<rparr>"
    let ?w = "expire_one E r w"
    have loop: "expire_loop E dry (r # rs) rep w = expire_loop E dry rs ?rep ?w"
      using True by (simp add: Let_def)
    have one: "reservation_status ?w k =
        (if k = ur_outbound_message_id r \<and> reservation_status w k = Some Reserved
         then Some Expired else reservation_status w k)"
      by (auto simp: reservation_status_def find_expire_one)
    have safe: "safe_to_release ?w x = safe_to_release w x" for x
      by (rule safe_to_release_messages) simp
    show ?thesis
    proof (cases "reservation_status (snd (expire_loop E dry rs ?rep ?w)) k = reservation_status ?w k")
      case True
      with 2(4) one loop \<open>safe_to_release w r \<and> \<not> dry\<close> show ?thesis by (auto split: if_splits)
    next
      case False
      have IH: "\<exists>r\<in>set rs. ur_outbound_message_id r = k \<and> safe_to_release ?w r
           \<and> reservation_status ?w k = Some Reserved
           \<and> reservation_status (snd (expire_loop E dry rs ?rep ?w)) k = Some Expired"
        using 2(3) [of "rep\<lparr>er_scanned := Suc (er_scanned rep)\<rparr>"] True False by simp
      then show ?thesis using loop one safe by (auto split: if_splits)
    qed
  qed
qed

section \<open>The allowance\<close>

text \<open>The rows that the sweep looks at, in a table that has them under their messages.\<close>

definition keyed_reservations :: "world \<Rightarrow> bool" where
  "keyed_reservations w \<longleftrightarrow> distinct (map fst (w_reservations w)) \<and> (\<forall>(k, r) \<in> set (w_reservations w). ur_outbound_message_id r = k)"

lemma keyed_reservation: "\<lbrakk>keyed_reservations w; r \<in> set (tbl_rows (w_reservations w))\<rbrakk> \<Longrightarrow> find_reservation w (ur_outbound_message_id r) = Some r"
  by (force simp: keyed_reservations_def tbl_rows_def tbl_get_def find_reservation_def)

lemma expiry_candidates_rows:
  assumes "r \<in> set (expiry_candidates E w batch)"
  shows "r \<in> set (tbl_rows (w_reservations w))" "ur_state r = Reserved" "\<exists>t. ur_expires_at r = Some t \<and> t < e_now E"
  using assms by (auto simp: expiry_candidates_def dest!: in_set_takeD split: option.splits)

lemma tbl_put_new_rows: "tbl_get t k = None \<Longrightarrow> tbl_rows (tbl_put k r t) = tbl_rows t @ [r]"
  unfolding tbl_get_def tbl_put_def tbl_rows_def by (induction t) (auto split: if_splits)

lemma tbl_put_rows_subset: "set (tbl_rows (tbl_put k r t)) \<subseteq> insert r (set (tbl_rows t))"
  unfolding tbl_put_def tbl_rows_def by (induction t) auto

text \<open>No usage period starts in the future.\<close>

definition periods_started :: "env \<Rightarrow> world \<Rightarrow> bool" where
  "periods_started E w \<longleftrightarrow> (\<forall>u \<in> set (tbl_rows (w_usages w)). su_period_start u \<le> e_now E)"

definition calendar_ok :: "env \<Rightarrow> bool" where
  "calendar_ok E \<longleftrightarrow> (\<forall>p t. e_period_start E p t \<le> t)"

lemma first_of_in: "first_of xs = Some x \<Longrightarrow> x \<in> set xs"
  by (cases xs) (simp_all add: first_of_def)

lemma usage_row_for_facts:
  assumes "usage_row_for E sub f limit period w = (u, w')"
  shows "su_limit_value u = limit" "w_reservations w' = w_reservations w"
    and "periods_started E w \<Longrightarrow> calendar_ok E \<Longrightarrow> su_period_start u \<le> e_now E \<and> periods_started E w'"
proof -
  show "su_limit_value u = limit" "w_reservations w' = w_reservations w"
    using assms
    by (auto simp: usage_row_for_def create_usage_row_def fresh_id_def save_usage_def Let_def
        split: option.splits if_splits)
  assume h: "periods_started E w" "calendar_ok E"
  have mem: "v \<in> set (tbl_rows (w_usages w))" if "find_usage E w sub (ft_id f) = Some v" for v
  proof -
    from that have "v \<in> set (filter (\<lambda>u. su_subscription_id u = sub \<and> su_feature_id u = ft_id f \<and> e_now E \<le> su_period_end u)
                 (tbl_rows (w_usages w)))"
      unfolding find_usage_def by (rule first_of_in)
    then show ?thesis by simp
  qed
  show "su_period_start u \<le> e_now E \<and> periods_started E w'"
  proof (cases "find_usage E w sub (ft_id f)")
    case None
    with assms h show ?thesis
      using tbl_put_rows_subset [of "su_id u" u "w_usages w"]
      by (auto simp: usage_row_for_def create_usage_row_def fresh_id_def save_usage_def Let_def
          periods_started_def calendar_ok_def)
  next
    case (Some v)
    with mem h have v: "su_period_start v \<le> e_now E" by (simp add: periods_started_def)
    from Some assms h v show ?thesis
      using tbl_put_rows_subset [of "su_id u" u "w_usages w"]
      by (auto simp: usage_row_for_def save_usage_def Let_def periods_started_def split: if_splits)
  qed
qed

lemma outstanding_cong: "w_reservations w' = w_reservations w \<Longrightarrow>
  outstanding_reserved_units w' sub d start = outstanding_reserved_units w sub d start"
  by (simp add: outstanding_reserved_units_def)

lemma check_dimension_locked:
  assumes "check_dimension E sub rc by True d f limit period w = (Inr row, w')"
  obtains u where "row = Some u" "usage_row_for E sub f limit period w = (u, w')"
    and "su_used_value u + outstanding_reserved_units w sub d (su_period_start u)
           + units_for_dimension d rc by \<le> su_limit_value u"
proof -
  obtain u w1 where u: "usage_row_for E sub f limit period w = (u, w1)" by force
  have same: "outstanding_reserved_units w1 sub d (su_period_start u)
      = outstanding_reserved_units w sub d (su_period_start u)"
    by (rule outstanding_cong) (rule usage_row_for_facts(2) [OF u])
  show thesis
    using assms that [of u] u
    by (simp add: check_dimension_def Let_def same not_less split: if_splits)
qed

text \<open>The dimensions the check enforces: those with a limit.\<close>

definition limited_dimensions :: "(string \<times> dimension) list \<Rightarrow> (string \<times> int) list" where
  "limited_dimensions ds = concat (map (\<lambda>(d, c). (case (di_limit c, di_feature c) of
     (Some l, Some f) \<Rightarrow> [(d, l)] | _ \<Rightarrow> [])) ds)"

lemma check_dimensions_locked:
  assumes "check_dimensions E (Some sub) rc by True ds w = (Inr rows, w')"
  shows "map (\<lambda>(d, u). (d, su_limit_value u)) rows = limited_dimensions ds
    \<and> w_reservations w' = w_reservations w
    \<and> (\<forall>(d, u) \<in> set rows.
         su_used_value u + outstanding_reserved_units w sub d (su_period_start u)
           + units_for_dimension d rc by \<le> su_limit_value u
         \<and> (periods_started E w \<longrightarrow> calendar_ok E \<longrightarrow> su_period_start u \<le> e_now E))"
  using assms
proof (induction ds arbitrary: w rows)
  case Nil
  then show ?case by (simp add: limited_dimensions_def)
next
  case (Cons dc ds)
  obtain d c where dc: "dc = (d, c)" by force
  show ?case
  proof (cases "\<exists>l f. di_limit c = Some l \<and> di_feature c = Some f")
    case False
    then have "check_dimensions E (Some sub) rc by True ds w = (Inr rows, w')"
      using Cons.prems dc by (auto split: option.splits)
    from Cons.IH [OF this] False show ?thesis
      by (auto simp: dc limited_dimensions_def split: option.splits)
  next
    case True
    then obtain l f where lf: "di_limit c = Some l" "di_feature c = Some f" by blast
    have step: "check_dimensions E (Some sub) rc by True (dc # ds) w =
        and_then (check_dimension E sub rc by True d f l (di_reset_period c) w)
            (\<lambda>u w1. and_then (check_dimensions E (Some sub) rc by True ds w1)
               (\<lambda>rows w2. (Inr (case u of Some row \<Rightarrow> (d, row) # rows | None \<Rightarrow> rows), w2)))"
      by (simp add: dc lf)
    obtain row w1 rows1 where
      one: "check_dimension E sub rc by True d f l (di_reset_period c) w = (Inr row, w1)" and
      rest: "check_dimensions E (Some sub) rc by True ds w1 = (Inr rows1, w')" and
      rows: "rows = (case row of Some r \<Rightarrow> (d, r) # rows1 | None \<Rightarrow> rows1)"
      using Cons.prems unfolding step and_then_Inr_iff by blast
    from one obtain u where u: "row = Some u" "usage_row_for E sub f l (di_reset_period c) w = (u, w1)"
      and le: "su_used_value u + outstanding_reserved_units w sub d (su_period_start u)
           + units_for_dimension d rc by \<le> su_limit_value u"
      by (rule check_dimension_locked)
    note row_facts = usage_row_for_facts [OF u(2)]
    have limited: "limited_dimensions (dc # ds) = (d, l) # limited_dimensions ds"
      by (simp add: dc lf limited_dimensions_def)
    have rows': "rows = (d, u) # rows1" by (simp add: rows u)
    note IH = Cons.IH [OF rest, unfolded outstanding_cong [OF row_facts(2)]]
    have A: "map (\<lambda>(d, u). (d, su_limit_value u)) rows = limited_dimensions (dc # ds)"
      using IH row_facts(1) by (simp add: rows' limited)
    have B: "w_reservations w' = w_reservations w" using IH row_facts(2) by simp
    have C: "su_used_value v + outstanding_reserved_units w sub d' (su_period_start v)
           + units_for_dimension d' rc by \<le> su_limit_value v
         \<and> (periods_started E w \<longrightarrow> calendar_ok E \<longrightarrow> su_period_start v \<le> e_now E)"
      if "(d', v) \<in> set rows" for d' v
    proof (cases "(d', v) = (d, u)")
      case True
      with le row_facts(3) show ?thesis by simp
    next
      case False
      with that have "(d', v) \<in> set rows1" by (auto simp: rows')
      with IH row_facts(3) show ?thesis by blast
    qed
    from A B show ?thesis by (intro conjI) (use C in blast)+
  qed
qed

text \<open>
  The rows that are checked are those of the table. The table has its rows under their own ids, and
  the ids that will be drawn are not in use.
\<close>

definition keyed_usages :: "world \<Rightarrow> bool" where
  "keyed_usages w \<longleftrightarrow> distinct (map fst (w_usages w)) \<and> (\<forall>(k, u) \<in> set (w_usages w). su_id u = k)"

definition fresh_usage_ids :: "env \<Rightarrow> world \<Rightarrow> bool" where
  "fresh_usage_ids E w \<longleftrightarrow> inj_on (e_uuid E) {w_next_id w..}
     \<and> (\<forall>n \<ge> w_next_id w. tbl_get (w_usages w) (e_uuid E n) = None)"

definition same_but_limit :: "subscription_usage \<Rightarrow> subscription_usage \<Rightarrow> bool" where
  "same_but_limit u v \<longleftrightarrow> (\<exists>l. u = v\<lparr>su_limit_value := l\<rparr>)"

definition usages_kept :: "world \<Rightarrow> world \<Rightarrow> bool" where
  "usages_kept w w' \<longleftrightarrow>
     (\<forall>k u. tbl_get (w_usages w) k = Some u \<longrightarrow> (\<exists>v. tbl_get (w_usages w') k = Some v \<and> same_but_limit u v))"

lemma same_but_limit_refl [simp]: "same_but_limit u u"
  unfolding same_but_limit_def by (intro exI [of _ "su_limit_value u"]) simp

lemma same_but_limit_update [simp]: "same_but_limit u (u\<lparr>su_limit_value := l\<rparr>)"
  unfolding same_but_limit_def by (intro exI [of _ "su_limit_value u"]) simp

lemma same_but_limit_trans: "\<lbrakk>same_but_limit u v; same_but_limit v x\<rbrakk> \<Longrightarrow> same_but_limit u x"
  by (auto simp: same_but_limit_def)

lemma tbl_put_in: "(k, x) \<in> set (tbl_put i u t) \<Longrightarrow> (k, x) \<in> set t \<or> k = i \<and> x = u"
  unfolding tbl_put_def by (induction t) (auto split: if_splits)

lemma usages_kept_trans: "\<lbrakk>usages_kept w w1; usages_kept w1 w2\<rbrakk> \<Longrightarrow> usages_kept w w2"
  unfolding usages_kept_def using same_but_limit_trans by blast

lemma keyed_get: "\<lbrakk>keyed_usages w; u \<in> set (tbl_rows (w_usages w))\<rbrakk> \<Longrightarrow> tbl_get (w_usages w) (su_id u) = Some u"
  by (force simp: keyed_usages_def tbl_rows_def tbl_get_def)

lemma find_usage_Some:
  assumes "find_usage E w sub i = Some v"
  shows "v \<in> set (tbl_rows (w_usages w))" "su_subscription_id v = sub" "su_feature_id v = i" "e_now E \<le> su_period_end v"
  using assms first_of_in [of _ v] unfolding find_usage_def by fastforce+

lemma keyed_save: "keyed_usages w \<Longrightarrow> keyed_usages (save_usage u w)"
proof -
  assume k: "keyed_usages w"
  then have "distinct (map fst (tbl_put (su_id u) u (w_usages w)))"
    by (simp add: keyed_usages_def tbl_put_def distinct_update)
  moreover have "su_id x = k" if "(k, x) \<in> set (tbl_put (su_id u) u (w_usages w))" for k x
    using tbl_put_in [OF that] k by (auto simp: keyed_usages_def)
  ultimately show ?thesis by (auto simp: keyed_usages_def save_usage_def)
qed

lemma usage_row_for_keyed:
  assumes "usage_row_for E sub f limit period w = (u, w')" and "keyed_usages w" and "fresh_usage_ids E w"
  shows "keyed_usages w'" "fresh_usage_ids E w'" "usages_kept w w'" "tbl_get (w_usages w') (su_id u) = Some u"
    "su_subscription_id u = sub" "su_feature_id u = ft_id f"
proof -
  have "keyed_usages w' \<and> fresh_usage_ids E w' \<and> usages_kept w w' \<and> tbl_get (w_usages w') (su_id u) = Some u
    \<and> su_subscription_id u = sub \<and> su_feature_id u = ft_id f"
  proof (cases "find_usage E w sub (ft_id f)")
    case None
    let ?w = "w\<lparr>w_next_id := Suc (w_next_id w)\<rparr>" and ?i = "e_uuid E (w_next_id w)"
    have w': "w' = save_usage u ?w" "su_id u = ?i" "su_subscription_id u = sub" "su_feature_id u = ft_id f"
      using assms(1) None by (auto simp: usage_row_for_def create_usage_row_def fresh_id_def Let_def)
    have "keyed_usages ?w" using assms(2) by (simp add: keyed_usages_def)
    then have "keyed_usages w'" unfolding w'(1) by (rule keyed_save)
    moreover have "tbl_get (w_usages w) ?i = None" using assms(3) by (simp add: fresh_usage_ids_def)
    then have "usages_kept w w'" by (auto simp: usages_kept_def w' save_usage_def tbl_simps)
    moreover have "e_uuid E n \<noteq> ?i" if "Suc (w_next_id w) \<le> n" for n
      using assms(3) that unfolding fresh_usage_ids_def inj_on_def by fastforce
    then have "fresh_usage_ids E w'"
      using assms(3) by (auto simp: fresh_usage_ids_def w' save_usage_def tbl_simps intro: inj_on_subset)
    ultimately show ?thesis using w' by (simp add: save_usage_def tbl_simps)
  next
    case (Some v)
    note v = find_usage_Some [OF Some]
    note g = keyed_get [OF assms(2) v(1)]
    show ?thesis
    proof (cases "su_limit_value v = limit")
      case True
      with assms Some g v show ?thesis by (auto simp: usage_row_for_def usages_kept_def)
    next
      case False
      then have w': "u = v\<lparr>su_limit_value := limit\<rparr>" "w' = save_usage u w"
        using assms(1) Some by (auto simp: usage_row_for_def Let_def)
      have "keyed_usages w'" unfolding w'(2) by (rule keyed_save [OF assms(2)])
      moreover have "usages_kept w w'"
        using g by (auto simp: usages_kept_def w' save_usage_def tbl_simps)
      moreover have "fresh_usage_ids E w'"
        using assms(3) g by (auto simp: fresh_usage_ids_def w' save_usage_def tbl_simps)
      ultimately show ?thesis using w' v by (simp add: save_usage_def tbl_simps)
    qed
  qed
  then show "keyed_usages w'" "fresh_usage_ids E w'" "usages_kept w w'" "tbl_get (w_usages w') (su_id u) = Some u"
    "su_subscription_id u = sub" "su_feature_id u = ft_id f" by blast+
qed

lemma check_dimensions_rows:
  assumes "check_dimensions E (Some sub) rc by True ds w = (Inr rows, w')" and "keyed_usages w" and "fresh_usage_ids E w"
  shows "usages_kept w w' \<and> (\<forall>d c l f. (d, c) \<in> set ds \<longrightarrow> di_limit c = Some l \<longrightarrow> di_feature c = Some f \<longrightarrow>
     (\<exists>u v. (d, u) \<in> set rows \<and> su_limit_value u = l \<and> tbl_get (w_usages w') (su_id u) = Some v \<and> same_but_limit u v
        \<and> su_subscription_id v = sub \<and> su_feature_id v = ft_id f))"
  using assms
proof (induction ds arbitrary: w rows)
  case Nil
  then show ?case by (simp add: usages_kept_def)
next
  case (Cons dc ds)
  obtain d c where dc: "dc = (d, c)" by force
  show ?case
  proof (cases "\<exists>l f. di_limit c = Some l \<and> di_feature c = Some f")
    case False
    then have "check_dimensions E (Some sub) rc by True ds w = (Inr rows, w')"
      using Cons.prems(1) dc by (auto split: option.splits)
    from Cons.IH [OF this Cons.prems(2,3)] False show ?thesis by (auto simp: dc)
  next
    case True
    then obtain l f where lf: "di_limit c = Some l" "di_feature c = Some f" by blast
    have step: "check_dimensions E (Some sub) rc by True (dc # ds) w =
        and_then (check_dimension E sub rc by True d f l (di_reset_period c) w)
            (\<lambda>u w1. and_then (check_dimensions E (Some sub) rc by True ds w1)
               (\<lambda>rows w2. (Inr (case u of Some row \<Rightarrow> (d, row) # rows | None \<Rightarrow> rows), w2)))"
      by (simp add: dc lf)
    obtain row w1 rows1 where
      one: "check_dimension E sub rc by True d f l (di_reset_period c) w = (Inr row, w1)" and
      rest: "check_dimensions E (Some sub) rc by True ds w1 = (Inr rows1, w')" and
      rows: "rows = (case row of Some r \<Rightarrow> (d, r) # rows1 | None \<Rightarrow> rows1)"
      using Cons.prems(1) unfolding step and_then_Inr_iff by blast
    from one obtain u where u: "row = Some u" "usage_row_for E sub f l (di_reset_period c) w = (u, w1)"
      by (rule check_dimension_locked)
    note k = usage_row_for_keyed [OF u(2) Cons.prems(2,3)]
    note IH = Cons.IH [OF rest k(1,2)]
    from IH k(4) obtain v where v: "tbl_get (w_usages w') (su_id u) = Some v" "same_but_limit u v"
      unfolding usages_kept_def by blast
    then have "su_subscription_id v = sub" "su_feature_id v = ft_id f"
      using k(5,6) by (auto simp: same_but_limit_def)
    note v = v this
    have "\<exists>u v. (d', u) \<in> set rows \<and> su_limit_value u = l' \<and> tbl_get (w_usages w') (su_id u) = Some v \<and> same_but_limit u v
        \<and> su_subscription_id v = sub \<and> su_feature_id v = ft_id f'"
      if "(d', c') \<in> set (dc # ds)" "di_limit c' = Some l'" "di_feature c' = Some f'" for d' c' l' f'
    proof (cases "(d', c') = (d, c)")
      case True
      with v that lf usage_row_for_facts(1) [OF u(2)] rows u(1) show ?thesis by auto
    next
      case False
      then have "(d', c') \<in> set ds" using that(1) dc by auto
      with that(2,3) IH have "\<exists>u v. (d', u) \<in> set rows1 \<and> su_limit_value u = l' \<and> tbl_get (w_usages w') (su_id u) = Some v
          \<and> same_but_limit u v \<and> su_subscription_id v = sub \<and> su_feature_id v = ft_id f'" by blast
      then show ?thesis using rows u(1) by auto
    qed
    with IH usages_kept_trans [OF k(3)] show ?thesis by blast
  qed
qed

lemma check_dimensions_no_subscription:
  "check_dimensions E None rc by lock ds w = (Inr [], w)"
  by (induction ds) (auto split: option.splits)

lemma maybe_notify_frame [simp]:
  "w_reservations (maybe_notify_usage E u sub rows w) = w_reservations w"
  "w_messages (maybe_notify_usage E u sub rows w) = w_messages w"
  "w_attempts (maybe_notify_usage E u sub rows w) = w_attempts w"
  "w_usages (maybe_notify_usage E u sub rows w) = w_usages w"
  "delivery_jobs (maybe_notify_usage E u sub rows w) = delivery_jobs w"
  by (simp_all add: maybe_notify_usage_def Let_def split: option.splits)

lemma outstanding_after_save:
  assumes "find_reservation w mid = None"
  shows "outstanding_reserved_units (save_reservation mid r w) sub d start =
     outstanding_reserved_units w sub d start
       + (if counts_as_outstanding sub start r then dimension_units d r else 0)"
  using assms tbl_put_new_rows [of "w_reservations w" mid r]
  by (simp add: outstanding_reserved_units_def save_reservation_def find_reservation_def)

lemma reserve_new_cases:
  assumes "reserve E u m key by w = (Inr (Some r), w')"
    and "cf_metering_enabled (e_cfg E)" and "find_reservation w (om_id m) = None"
  obtains rows w1 where
    "check_allowance E u (current_subscription w u) (max 0 (recipient_count m)) (max 0 by) True w = (Inr rows, w1)"
    and "ur_usage_ids r = map (\<lambda>(d, row). (d, su_id row)) rows"
    and "ur_state r = Reserved" "ur_subscription_id r = map_option sb_id (current_subscription w u)"
    and "ur_reserved_at r = e_now E" "ur_message_units r = 1"
    and "ur_recipient_units r = max 0 (recipient_count m)" "ur_attachment_bytes r = max 0 by"
    and "w' = maybe_notify_usage E u (map_option sb_id (current_subscription w u)) rows
               (save_reservation (om_id m) r w1)"
proof -
  let ?sub = "current_subscription w u"
  let ?n = "max 0 (recipient_count m)" and ?b = "max 0 by"
  have "\<exists>rows w1. check_allowance E u ?sub ?n ?b True w = (Inr rows, w1) \<and>
     r = \<lparr>ur_outbound_message_id = om_id m, ur_user_id = u_id u,
           ur_subscription_id = map_option sb_id ?sub,
           ur_operation = om_operation m, ur_idempotency_key = key,
           ur_state = Reserved, ur_message_units = 1,
           ur_recipient_units = ?n, ur_attachment_bytes = ?b,
           ur_reserved_at = e_now E, ur_committed_at = None, ur_released_at = None,
           ur_expires_at = Some (e_now E + cf_reservation_ttl_seconds (e_cfg E)),
           ur_release_reason = None, ur_usage_ids = map (\<lambda>(d, row). (d, su_id row)) rows,
           ur_attempts = 0, ur_retries = 0, ur_permanent_failures = 0\<rparr>
     \<and> w' = maybe_notify_usage E u (map_option sb_id ?sub) rows (save_reservation (om_id m) r w1)"
    using assms unfolding reserve_def
    by (simp only: Let_def transaction_Inr_iff and_then_Inr_iff if_False not_True_eq_False simp_thms
        option.case prod.inject sum.inject option.inject) blast
  then show thesis by (elim exE conjE) (rule that, simp_all)
qed

lemma reserve_rollback:
  assumes "reserve E u m key by w = (Inl e, w')"
  shows "w' = w\<lparr>w_cache := w_cache w', w_cache_ttl := w_cache_ttl w', w_next_id := w_next_id w'\<rparr>"
  using assms
  by (auto simp: reserve_def Let_def transaction_def split: if_splits option.splits prod.splits sum.splits)

lemma reserve_frame:
  assumes "reserve E u m key by w = (x, w')"
  shows "w_messages w' = w_messages w"
proof -
  have cd: "w_messages (snd (check_dimension E s rc b lock d f l p w)) = w_messages w" for s rc b lock d f l p w
    by (auto simp: check_dimension_def usage_row_for_def create_usage_row_def fresh_id_def save_usage_def
        Let_def split: option.splits)
  have cds: "w_messages (snd (check_dimensions E s rc b lock ds w)) = w_messages w" for s rc b lock ds w
  proof (induction ds arbitrary: w)
    case (Cons dc ds)
    obtain d c where "dc = (d, c)" by force
    then show ?case
      using Cons cd
      by (auto simp: and_then_def split: option.splits prod.splits sum.splits)
         (metis snd_conv)+
  qed simp
  show ?thesis
    using assms cds
    by (auto simp: reserve_def Let_def transaction_def and_then_def check_allowance_def save_reservation_def
        split: if_splits option.splits prod.splits sum.splits) (metis snd_conv)+
qed

end
