(* ===== verification/Domain_Auth.thy ===== *)
theory Domain_Auth
  imports Model "HOL-Library.Char_ord" "HOL-Library.List_Lexorder"
begin

text \<open>
  \<open>app/Services/Outbound/OutboundDomainAuthenticationService.php\<close>: the DNS records a sending
  domain must publish, their verification, and the gate the send path asks. The resolver
  (\<open>e_dns_txt\<close>, \<open>e_dns_cname\<close>) returns the records of a name or throws.
\<close>

section \<open>States\<close>

fun auth_state_value :: "domain_auth_state \<Rightarrow> string" where
  "auth_state_value AuthUnconfigured = ''unconfigured''"
| "auth_state_value AuthPending = ''pending''"
| "auth_state_value AuthVerified = ''verified''"
| "auth_state_value AuthDegraded = ''degraded''"
| "auth_state_value AuthFailed = ''failed''"

fun state_allows_sending :: "domain_auth_state \<Rightarrow> bool \<Rightarrow> bool" where
  "state_allows_sending AuthVerified allowDegraded = True"
| "state_allows_sending AuthDegraded allowDegraded = allowDegraded"
| "state_allows_sending _ allowDegraded = False"

section \<open>Expected records\<close>

definition resolve_provider :: "env \<Rightarrow> string option \<Rightarrow> string" where
  "resolve_provider E p =
     (let raw = (case p of Some x \<Rightarrow> (if truthy x then x else cf_provider (e_cfg E)) | None \<Rightarrow> cf_provider (e_cfg E));
          configured = strtolower (trim raw)
      in if configured \<in> {''generic'', ''ses''} then configured else ''generic'')"

definition is_alnum :: "char \<Rightarrow> bool" where
  "is_alnum c \<longleftrightarrow>
     (let n = (of_char c :: nat) in (48 \<le> n \<and> n \<le> 57) \<or> (65 \<le> n \<and> n \<le> 90) \<or> (97 \<le> n \<and> n \<le> 122))"

definition dkim_tokens :: "env \<Rightarrow> string list" where
  "dkim_tokens E =
     filter truthy (map (\<lambda>t. filter is_alnum (trim t)) (explode CHR '','' (cf_ses_dkim_tokens (e_cfg E))))"

record expected_records =
  ex_provider :: string
  ex_spf :: "string option"
  ex_dkim :: "(string \<times> string) list"
  ex_ownership :: "string option"
  ex_dmarc :: string

text \<open>A DKIM expectation is the host of a CNAME record and its value.\<close>

definition expected_records_for :: "env \<Rightarrow> mail_domain \<Rightarrow> string option \<Rightarrow> expected_records" where
  "expected_records_for E d p =
     (let provider = resolve_provider E p; name = strtolower (trim (dm_domain d)) in
      if provider = ''ses'' then
        \<lparr>ex_provider = ''ses'',
         ex_spf = Some (''v=spf1 '' @ cf_ses_spf_include (e_cfg E) @ '' ~all''),
         ex_dkim = map (\<lambda>t. (t @ ''._domainkey.'' @ name, t @ ''.'' @ cf_ses_dkim_cname_suffix (e_cfg E))) (dkim_tokens E),
         ex_ownership = Some (cf_ses_ownership_prefix (e_cfg E)
             @ take 32 (e_sha256 E (''outbound-domain:'' @ dm_id d))),
         ex_dmarc = ''v=DMARC1; p=quarantine; rua=mailto:dmarc@'' @ name\<rparr>
      else
        let host = trim (cf_smtp_host (e_cfg E)) in
        \<lparr>ex_provider = provider,
         ex_spf = (if host \<noteq> [] then Some (''v=spf1 a:'' @ host @ '' ~all'') else None),
         ex_dkim = [], ex_ownership = None, ex_dmarc = ''v=DMARC1; p=quarantine''\<rparr>)"

definition save_domain_auth :: "mail_domain \<Rightarrow> string \<Rightarrow> domain_auth \<Rightarrow> world \<Rightarrow> world" where
  "save_domain_auth d provider a w = w\<lparr>w_domain_auths := tbl_put (dm_id d, provider) a (w_domain_auths w)\<rparr>"

definition ensure_record :: "env \<Rightarrow> mail_domain \<Rightarrow> string option \<Rightarrow> world \<Rightarrow> domain_auth \<times> world" where
  "ensure_record E d p w =
     (let provider = resolve_provider E p; ex = expected_records_for E d (Some provider) in
      case tbl_get (w_domain_auths w) (dm_id d, provider) of
        Some a \<Rightarrow> (a, w)
      | None \<Rightarrow>
          (let a = \<lparr>da_state = AuthUnconfigured, da_ownership_state = AuthUnconfigured,
                    da_spf_state = AuthUnconfigured, da_dkim_state = AuthUnconfigured,
                    da_dmarc_state = AuthUnconfigured, da_expected_spf = ex_spf ex,
                    da_expected_dkim = ex_dkim ex, da_expected_ownership = ex_ownership ex,
                    da_failure_code = None, da_record_version = 1, da_last_checked_at = None,
                    da_last_verified_at = None, da_next_check_at = Some (e_now E)\<rparr>
           in (a, save_domain_auth d provider a w)))"

section \<open>The checks of one record set\<close>

definition verify_ownership :: "env \<Rightarrow> mail_domain \<Rightarrow> string option \<Rightarrow> exn + domain_auth_state" where
  "verify_ownership E d expected =
     (case expected of
        None \<Rightarrow> Inr (if dm_dns_verified_at d \<noteq> None then AuthVerified else AuthUnconfigured)
      | Some e \<Rightarrow>
          if e = [] then Inr (if dm_dns_verified_at d \<noteq> None then AuthVerified else AuthUnconfigured)
          else (case e_dns_txt E (dm_domain d) of
                  Inl x \<Rightarrow> Inl x
                | Inr records \<Rightarrow>
                    Inr (if strtolower e \<in> set (map strtolower records) then AuthVerified else AuthPending)))"

definition verify_spf :: "env \<Rightarrow> string \<Rightarrow> string option \<Rightarrow> exn + domain_auth_state" where
  "verify_spf E host_name expected =
     (if expected = None \<or> expected = Some [] then Inr AuthUnconfigured
      else case e_dns_txt E host_name of
        Inl x \<Rightarrow> Inl x
      | Inr records \<Rightarrow>
         (case filter (\<lambda>r. str_starts_with (strtolower r) ''v=spf1'') records of
            [] \<Rightarrow> Inr AuthPending
          | [spf] \<Rightarrow>
              (let provider = resolve_provider E None;
                   host = strtolower (trim (cf_smtp_host (e_cfg E)))
               in Inr (if str_contains spf ''+all'' then AuthFailed
                       else if provider = ''ses'' \<and> \<not> str_contains spf (strtolower (cf_ses_spf_include (e_cfg E)))
                         then AuthFailed
                       else if provider \<noteq> ''ses'' \<and> host \<noteq> [] \<and> \<not> str_contains spf host
                               \<and> \<not> str_contains spf (''a:'' @ host) then AuthFailed
                       else AuthVerified))
          | _ \<Rightarrow> Inr AuthFailed))"

text \<open>The loop of \<open>verifyDkim\<close>, with the flag it carries.\<close>

fun verify_dkim_loop :: "env \<Rightarrow> bool \<Rightarrow> (string \<times> string) list \<Rightarrow> exn + domain_auth_state" where
  "verify_dkim_loop E pending [] = Inr (if pending then AuthPending else AuthVerified)"
| "verify_dkim_loop E pending ((host, raw) # rest) =
     (let v = rtrim_char CHR ''.'' (strtolower raw) in
      if host = [] \<or> v = [] then Inr AuthFailed
      else case e_dns_cname E host of
        Inl x \<Rightarrow> Inl x
      | Inr cnames \<Rightarrow>
          if cnames = [] then
            (case e_dns_txt E host of
               Inl x \<Rightarrow> Inl x
             | Inr txt \<Rightarrow>
                 let joined = strtolower (concat txt) in
                 if joined \<noteq> [] \<and> str_contains joined ''v=dkim1'' \<and> str_contains joined ''p=''
                    \<and> \<not> str_contains joined ''p=;''
                 then verify_dkim_loop E pending rest
                 else verify_dkim_loop E True rest)
          else if v \<notin> set (map (\<lambda>t. rtrim_char CHR ''.'' (strtolower t)) cnames) then Inr AuthFailed
          else verify_dkim_loop E pending rest)"

definition verify_dkim :: "env \<Rightarrow> (string \<times> string) list \<Rightarrow> exn + domain_auth_state" where
  "verify_dkim E expected = (if expected = [] then Inr AuthUnconfigured else verify_dkim_loop E False expected)"

text \<open>
  \<open>dmarcPolicy\<close>: the first tag \<open>p = none|quarantine|reject\<close> that starts the record or
  follows a semicolon and ends at a semicolon or the end, white space allowed around it.
\<close>

definition is_space :: "char \<Rightarrow> bool" where
  "is_space c \<longleftrightarrow> (of_char c :: nat) \<in> {32, 9, 10, 11, 12, 13}"

definition ltrim_space :: "string \<Rightarrow> string" where
  "ltrim_space s = dropWhile is_space s"

definition policy_word :: "string \<Rightarrow> string \<Rightarrow> string option" where
  "policy_word s p =
     (if str_starts_with (strtolower s) p
      then (case ltrim_space (drop (length p) s) of
              [] \<Rightarrow> Some p
            | c # _ \<Rightarrow> (if c = CHR '';'' then Some p else None))
      else None)"

definition policy_tag :: "string \<Rightarrow> string option" where
  "policy_tag s =
     (case ltrim_space s of
        [] \<Rightarrow> None
      | c # s1 \<Rightarrow>
          if to_lower_char c \<noteq> CHR ''p'' then None
          else (case ltrim_space s1 of
            [] \<Rightarrow> None
          | e # s2 \<Rightarrow>
              if e \<noteq> CHR ''='' then None
              else (case policy_word (ltrim_space s2) ''none'' of
                Some p \<Rightarrow> Some p
              | None \<Rightarrow> (case policy_word (ltrim_space s2) ''quarantine'' of
                  Some p \<Rightarrow> Some p
                | None \<Rightarrow> policy_word (ltrim_space s2) ''reject''))))"

fun policy_after_semicolon :: "string \<Rightarrow> string option" where
  "policy_after_semicolon [] = None"
| "policy_after_semicolon (c # s) =
     (if c = CHR '';'' \<and> policy_tag s \<noteq> None then policy_tag s else policy_after_semicolon s)"

definition dmarc_policy :: "string \<Rightarrow> string option" where
  "dmarc_policy s = (case policy_tag s of Some p \<Rightarrow> Some p | None \<Rightarrow> policy_after_semicolon s)"

definition verify_dmarc :: "env \<Rightarrow> string \<Rightarrow> exn + domain_auth_state" where
  "verify_dmarc E host_name =
     (case e_dns_txt E (''_dmarc.'' @ host_name) of
        Inl x \<Rightarrow> Inl x
      | Inr records \<Rightarrow>
         (case filter (\<lambda>r. str_starts_with (strtolower r) ''v=dmarc1'') records of
            [] \<Rightarrow> Inr AuthPending
          | [r] \<Rightarrow>
              Inr (case dmarc_policy r of
                     None \<Rightarrow> AuthFailed
                   | Some p \<Rightarrow>
                       if p \<in> {''quarantine'', ''reject''} then AuthVerified
                       else if p = ''none'' then AuthDegraded else AuthFailed)
          | _ \<Rightarrow> Inr AuthFailed))"

definition compose_state ::
  "domain_auth_state \<Rightarrow> domain_auth_state \<Rightarrow> domain_auth_state \<Rightarrow> domain_auth_state \<Rightarrow> domain_auth_state" where
  "compose_state ownership spf dkim dmarc =
     (if spf = AuthFailed \<or> dkim = AuthFailed then AuthFailed
      else if spf = AuthUnconfigured \<and> dkim = AuthUnconfigured then AuthUnconfigured
      else if spf \<in> {AuthPending, AuthUnconfigured} \<or> dkim \<in> {AuthPending, AuthUnconfigured} then AuthPending
      else if dmarc = AuthFailed then AuthFailed
      else if dmarc \<in> {AuthPending, AuthDegraded, AuthUnconfigured} then AuthDegraded
      else AuthVerified)"

definition auth_failure_code ::
  "domain_auth_state \<Rightarrow> domain_auth_state \<Rightarrow> domain_auth_state \<Rightarrow> domain_auth_state \<Rightarrow> domain_auth_state
   \<Rightarrow> string option" where
  "auth_failure_code ownership spf dkim dmarc overall =
     (case overall of
        AuthFailed \<Rightarrow> Some (if spf = AuthFailed then ''spf_invalid''
                           else if dkim = AuthFailed then ''dkim_invalid''
                           else if dmarc = AuthFailed then ''dmarc_invalid''
                           else ''domain_auth_failed'')
      | AuthPending \<Rightarrow> Some ''dns_pending''
      | AuthDegraded \<Rightarrow> Some ''dmarc_weak''
      | AuthUnconfigured \<Rightarrow> Some ''unconfigured''
      | AuthVerified \<Rightarrow> None)"

section \<open>verify\<close>

text \<open>The four checks of the \<open>try\<close> block, in order.\<close>

definition check_records ::
  "env \<Rightarrow> mail_domain \<Rightarrow> expected_records
   \<Rightarrow> exn + (domain_auth_state \<times> domain_auth_state \<times> domain_auth_state \<times> domain_auth_state)" where
  "check_records E d ex =
     (case verify_ownership E d (ex_ownership ex) of Inl x \<Rightarrow> Inl x | Inr ownership \<Rightarrow>
      (case verify_spf E (dm_domain d) (ex_spf ex) of Inl x \<Rightarrow> Inl x | Inr spf \<Rightarrow>
      (case verify_dkim E (ex_dkim ex) of Inl x \<Rightarrow> Inl x | Inr dkim \<Rightarrow>
      (case verify_dmarc E (dm_domain d) of Inl x \<Rightarrow> Inl x | Inr dmarc \<Rightarrow>
         Inr (ownership, spf, dkim, dmarc)))))"

definition verify_action :: "domain_auth_state \<Rightarrow> string option" where
  "verify_action s =
     (case s of
        AuthVerified \<Rightarrow> Some ''outbound.domain_verified''
      | AuthDegraded \<Rightarrow> Some ''outbound.domain_degraded''
      | AuthFailed \<Rightarrow> Some ''outbound.domain_verification_failed''
      | _ \<Rightarrow> None)"

definition verify_domain ::
  "env \<Rightarrow> mail_domain \<Rightarrow> string option \<Rightarrow> bool \<Rightarrow> world \<Rightarrow> (world, domain_auth) outcome" where
  "verify_domain E d p manual w =
     (let provider = resolve_provider E p;
          (auth, w1) = ensure_record E d (Some provider) w;
          ex = expected_records_for E d (Some provider);
          w2 = audit_write E ''outbound.domain_verification_started'' None (Some (''Domain'', dm_id d)) None None
                 (Some [(''provider'', PStr provider), (''manual'', PBool manual), (''domain'', PStr (dm_domain d))]) w1
      in case check_records E d ex of
        Inl (RuntimeException msg) \<Rightarrow>
          (if msg = ''dns_lookup_failed'' then
             (let auth1 = auth\<lparr>da_last_checked_at := Some (e_now E),
                               da_next_check_at := Some (e_now E + 15 * 60),
                               da_failure_code := Some ''dns_transient''\<rparr>;
                  w3 = save_domain_auth d provider auth1 w2
              in if da_state auth \<in> {AuthVerified, AuthDegraded} then (Inr auth1, w3)
                 else let auth2 = auth1\<lparr>da_state := AuthPending, da_failure_code := Some ''dns_transient''\<rparr>
                      in (Inr auth2, save_domain_auth d provider auth2 w3))
           else (Inl (RuntimeException msg), w2))
      | Inl x \<Rightarrow> (Inl x, w2)
      | Inr (ownership, spf, dkim, dmarc) \<Rightarrow>
         (let overall = compose_state ownership spf dkim dmarc;
              failure = auth_failure_code ownership spf dkim dmarc overall;
              auth1 = auth\<lparr>da_expected_spf := ex_spf ex, da_expected_dkim := ex_dkim ex,
                           da_expected_ownership := ex_ownership ex,
                           da_ownership_state := ownership, da_spf_state := spf,
                           da_dkim_state := dkim, da_dmarc_state := dmarc, da_state := overall,
                           da_failure_code := failure, da_last_checked_at := Some (e_now E),
                           da_last_verified_at := (if overall \<in> {AuthVerified, AuthDegraded}
                                                   then Some (e_now E) else da_last_verified_at auth),
                           da_next_check_at := Some (e_now E + cf_domain_recheck_interval (e_cfg E))\<rparr>;
              w3 = save_domain_auth d provider auth1 w2;
              w4 = (if dm_dns_verified_at d = None \<and> ownership = AuthVerified
                    then w3\<lparr>w_domains := snd (tbl_update_where (dm_id d) (\<lambda>_. True)
                           (\<lambda>r. r\<lparr>dm_dns_verified_at := Some (e_now E)\<rparr>) (w_domains w3))\<rparr>
                    else w3);
              w5 = (case verify_action overall of
                      None \<Rightarrow> w4
                    | Some action \<Rightarrow>
                        audit_write E action None (Some (''Domain'', dm_id d))
                          (Some [(''state'', PStr (auth_state_value (da_state auth)))])
                          (Some [(''state'', PStr (auth_state_value overall))])
                          (Some [(''provider'', PStr provider),
                                 (''failure_code'', case failure of Some f \<Rightarrow> PStr f | None \<Rightarrow> PNull),
                                 (''spf'', PStr (auth_state_value spf)), (''dkim'', PStr (auth_state_value dkim)),
                                 (''dmarc'', PStr (auth_state_value dmarc)),
                                 (''ownership'', PStr (auth_state_value ownership))]) w4)
          in (Inr auth1, w5)))"

definition manual_recheck :: "env \<Rightarrow> mail_domain \<Rightarrow> world \<Rightarrow> (world, domain_auth) outcome" where
  "manual_recheck E d w =
     (let (added, w1) = cache_add E (''outbound.domain_auth.recheck:'' @ dm_id d) (PInt 1)
            (max 30 (cf_domain_manual_cooldown (e_cfg E))) w
      in if \<not> added then
           (Inl (OutboundSendException ''domain_auth_rate_limited''
                   ''Domain authentication recheck was rate limited.'' 429), w1)
         else verify_domain E d None True w1)"

fun verify_due_loop :: "env \<Rightarrow> string \<Rightarrow> mail_domain list \<Rightarrow> world \<Rightarrow> (world, domain_auth list) outcome" where
  "verify_due_loop E provider [] w = (Inr [], w)"
| "verify_due_loop E provider (d # ds) w =
     (let (auth, w1) = ensure_record E d (Some provider) w in
      if (case da_next_check_at auth of Some t \<Rightarrow> e_now E < t | None \<Rightarrow> False)
      then verify_due_loop E provider ds w1
      else and_then (verify_domain E d (Some provider) False w1)
             (\<lambda>a w2. and_then (verify_due_loop E provider ds w2) (\<lambda>as w3. (Inr (a # as), w3))))"

definition verify_due :: "env \<Rightarrow> int \<Rightarrow> world \<Rightarrow> (world, domain_auth list) outcome" where
  "verify_due E limit w =
     verify_due_loop E (resolve_provider E None)
       (take (nat (max 1 (min 200 limit)))
          (sort_key dm_id
            (filter (\<lambda>d. dm_outbound_enabled d \<and> dm_is_active d \<and> dm_deleted_at d = None)
              (tbl_rows (w_domains w))))) w"

section \<open>The gate\<close>

definition auth_allows_sending :: "env \<Rightarrow> domain_auth \<Rightarrow> bool" where
  "auth_allows_sending E a = state_allows_sending (da_state a) (cf_allow_degraded_dmarc (e_cfg E))"

definition assert_domain_ready :: "env \<Rightarrow> mail_domain \<Rightarrow> string option \<Rightarrow> world \<Rightarrow> (world, unit) outcome" where
  "assert_domain_ready E d p w =
     (if \<not> cf_domain_auth_enforce (e_cfg E) then (Inr (), w)
      else let provider = resolve_provider E p; ex = expected_records_for E d (Some provider) in
        if ex_spf ex = None \<and> ex_dkim ex = [] then (Inr (), w)
        else
          let (auth, w1) = (case tbl_get (w_domain_auths w) (dm_id d, provider) of
                              Some a \<Rightarrow> (a, w)
                            | None \<Rightarrow> ensure_record E d (Some provider) w) in
          if auth_allows_sending E auth then (Inr (), w1)
          else (Inl (OutboundSendException
                  (case da_state auth of
                     AuthFailed \<Rightarrow> ''domain_auth_failed''
                   | AuthPending \<Rightarrow> ''domain_auth_pending''
                   | AuthUnconfigured \<Rightarrow> ''domain_auth_unconfigured''
                   | _ \<Rightarrow> ''domain_auth_not_ready'')
                  ''Domain authentication is not ready for outbound email.'' 403), w1))"

definition is_domain_ready :: "env \<Rightarrow> mail_domain \<Rightarrow> string option \<Rightarrow> world \<Rightarrow> bool \<times> world" where
  "is_domain_ready E d p w =
     (case assert_domain_ready E d p w of (Inr _, w1) \<Rightarrow> (True, w1) | (Inl _, w1) \<Rightarrow> (False, w1))"

section \<open>Lemmas\<close>

lemma ensure_record_stored:
  "ensure_record E d p w = (a, w') \<Longrightarrow>
     tbl_get (w_domain_auths w') (dm_id d, resolve_provider E p) = Some a \<and> w_messages w' = w_messages w"
  by (auto simp: ensure_record_def save_domain_auth_def Let_def tbl_simps split: option.splits)

lemma resolve_provider_cases: "resolve_provider E p = ''ses'' \<or> resolve_provider E p = ''generic''"
  by (auto simp: resolve_provider_def Let_def)

lemma resolve_provider_idem [simp]: "resolve_provider E (Some (resolve_provider E p)) = resolve_provider E p"
proof -
  have "strtolower (trim ''ses'') = ''ses''" "strtolower (trim ''generic'') = ''generic''" by code_simp+
  then show ?thesis
    using resolve_provider_cases [of E p] by (auto simp: resolve_provider_def truthy_def)
qed

text \<open>A state that lets mail out needs both mandatory checks.\<close>

lemma compose_state_sends:
  assumes "state_allows_sending (compose_state ownership spf dkim dmarc) deg"
  shows "spf \<in> {AuthVerified, AuthDegraded}" "dkim \<in> {AuthVerified, AuthDegraded}" "dmarc \<noteq> AuthFailed"
  using assms by (cases spf; cases dkim; simp add: compose_state_def split: if_splits)+

lemma str_starts_contains: "str_starts_with s (p @ q) \<Longrightarrow> str_contains s q"
proof (induction p arbitrary: s)
  case Nil
  then show ?case by (cases s) (simp_all add: str_starts_with_def)
next
  case (Cons c p)
  then show ?case by (cases s) (simp_all add: str_starts_with_def)
qed

lemma str_contains_after: "str_contains s (p @ q) \<Longrightarrow> str_contains s q"
  by (induction s) (auto dest: str_starts_contains)

lemma verify_spf_verified:
  assumes "verify_spf E host_name expected = Inr s" "s \<in> {AuthVerified, AuthDegraded}"
  obtains records spf where "e_dns_txt E host_name = Inr records"
    and "filter (\<lambda>r. str_starts_with (strtolower r) ''v=spf1'') records = [spf]"
    and "\<not> str_contains spf ''+all''"
    and "if resolve_provider E None = ''ses'' then str_contains spf (strtolower (cf_ses_spf_include (e_cfg E)))
         else strtolower (trim (cf_smtp_host (e_cfg E))) = [] \<or> str_contains spf (strtolower (trim (cf_smtp_host (e_cfg E))))"
proof -
  let ?host = "strtolower (trim (cf_smtp_host (e_cfg E)))"
  have a: "str_contains r (''a:'' @ ?host) \<Longrightarrow> str_contains r ?host" for r by (rule str_contains_after)
  show thesis using assms a that
    unfolding verify_spf_def Let_def by (auto split: if_splits sum.splits list.splits simp del: append.simps)
qed

text \<open>The answers that let one DKIM host pass.\<close>

definition dkim_published :: "env \<Rightarrow> string \<times> string \<Rightarrow> bool" where
  "dkim_published E hv =
     (case e_dns_cname E (fst hv) of
        Inl _ \<Rightarrow> False
      | Inr cnames \<Rightarrow>
          (if cnames = [] then
             (case e_dns_txt E (fst hv) of
                Inl _ \<Rightarrow> False
              | Inr txt \<Rightarrow> str_contains (strtolower (concat txt)) ''v=dkim1'')
           else rtrim_char CHR ''.'' (strtolower (snd hv)) \<in> set (map (\<lambda>t. rtrim_char CHR ''.'' (strtolower t)) cnames)))"

lemma verify_dkim_loop_verified:
  assumes "verify_dkim_loop E pending hs = Inr s" "s \<in> {AuthVerified, AuthDegraded}"
  shows "\<not> pending \<and> (\<forall>hv \<in> set hs. dkim_published E hv)"
  using assms
proof (induction E pending hs rule: verify_dkim_loop.induct)
  case (1 E pending)
  then show ?case by (simp split: if_splits)
next
  case (2 E pending host raw rest)
  let ?v = "rtrim_char CHR ''.'' (strtolower raw)"
  have nonempty: "host \<noteq> []" "?v \<noteq> []" using 2(4,5) by (auto split: if_splits)
  then obtain cnames where c: "e_dns_cname E host = Inr cnames"
    using 2(4) by (cases "e_dns_cname E host") simp_all
  show ?case
  proof (cases "cnames = []")
    case True
    then obtain ts where t: "e_dns_txt E host = Inr ts"
      using 2(4) c nonempty by (cases "e_dns_txt E host") simp_all
    let ?j = "strtolower (concat ts)"
    have ok: "?j \<noteq> [] \<and> str_contains ?j ''v=dkim1'' \<and> str_contains ?j ''p='' \<and> \<not> str_contains ?j ''p=;''"
    proof (rule ccontr)
      assume no: "\<not> ?thesis"
      then have "verify_dkim_loop E True rest = Inr s"
        using 2(4) c t True nonempty by (simp add: Let_def split: if_splits)
      with 2(2) [OF refl _ c True t refl no] 2(5) nonempty show False by simp
    qed
    then have "verify_dkim_loop E pending rest = Inr s" using 2(4) c t True nonempty by (simp add: Let_def)
    with 2(1) [OF refl _ c True t refl ok] 2(5) nonempty
    have "\<not> pending \<and> (\<forall>hv \<in> set rest. dkim_published E hv)" by simp
    moreover have "dkim_published E (host, raw)" using c t True ok by (simp add: dkim_published_def)
    ultimately show ?thesis by simp
  next
    case False
    have mem: "?v \<in> set (map (\<lambda>t. rtrim_char CHR ''.'' (strtolower t)) cnames)"
      using 2(4,5) c False nonempty by (auto split: if_splits)
    then have "verify_dkim_loop E pending rest = Inr s" using 2(4) c False nonempty by (simp add: Let_def)
    with 2(3) [OF refl _ c False] mem 2(5) nonempty
    have "\<not> pending \<and> (\<forall>hv \<in> set rest. dkim_published E hv)" by simp
    moreover have "dkim_published E (host, raw)" using c False mem by (simp add: dkim_published_def)
    ultimately show ?thesis by simp
  qed
qed

lemma verify_dkim_verified:
  assumes "verify_dkim E hs = Inr s" "s \<in> {AuthVerified, AuthDegraded}"
  shows "hs \<noteq> [] \<and> (\<forall>hv \<in> set hs. dkim_published E hv)"
  using assms verify_dkim_loop_verified [of E False hs s] by (auto simp: verify_dkim_def split: if_splits)

lemma check_records_dkim:
  "check_records E d ex = Inr (o', spf, dkim, dmarc) \<Longrightarrow>
     verify_spf E (dm_domain d) (ex_spf ex) = Inr spf \<and> verify_dkim E (ex_dkim ex) = Inr dkim
     \<and> verify_dmarc E (dm_domain d) = Inr dmarc"
  by (auto simp: check_records_def split: sum.splits)

lemma generic_has_no_dkim:
  "resolve_provider E p = ''generic'' \<Longrightarrow> ex_dkim (expected_records_for E d p) = []"
  by (simp add: expected_records_for_def Let_def)

text \<open>What \<open>verify\<close> returns is stored, under the provider it resolved.\<close>

lemma verify_domain_completed:
  assumes "check_records E d (expected_records_for E d (Some (resolve_provider E p))) = Inr (ow, spf, dkim, dmarc)"
    and "verify_domain E d p manual w = (Inr a, w')"
  shows "da_state a = compose_state ow spf dkim dmarc"
    and "tbl_get (w_domain_auths w') (dm_id d, resolve_provider E p) = Some a"
  using assms
  by (auto simp: verify_domain_def Let_def save_domain_auth_def tbl_simps split: prod.splits option.splits if_splits)

text \<open>After a look-up that failed for the time being the state is kept where it let the domain send.\<close>

lemma verify_domain_transient:
  assumes "verify_domain E d p manual w = (Inr a, w')"
    and "check_records E d (expected_records_for E d (Some (resolve_provider E p))) = Inl x"
    and "auth_allows_sending E a"
  shows "x = RuntimeException ''dns_lookup_failed'' \<and> (\<exists>a0. tbl_get (w_domain_auths w) (dm_id d, resolve_provider E p) = Some a0
    \<and> auth_allows_sending E a0 \<and> da_state a = da_state a0)"
proof -
  let ?pr = "resolve_provider E p"
  obtain auth w1 where e: "ensure_record E d (Some ?pr) w = (auth, w1)" by force
  have x: "x = RuntimeException ''dns_lookup_failed''"
    using assms(1,2) by (auto simp: verify_domain_def Let_def e split: exn.splits if_splits)
  have st: "da_state a = da_state auth" "da_state auth \<in> {AuthVerified, AuthDegraded}"
    using assms x by (auto simp: verify_domain_def Let_def e auth_allows_sending_def split: if_splits)
  have "tbl_get (w_domain_auths w) (dm_id d, ?pr) = Some auth"
    using e st(2) by (auto simp: ensure_record_def Let_def resolve_provider_idem split: option.splits)
  then show ?thesis using x st assms(3) by (auto simp: auth_allows_sending_def)
qed

end
