(* ===== verification/Launch_Control.thy ===== *)
theory Launch_Control
  imports Entitlement Domain_Auth
begin

text \<open>
  Who may send: provider identities (\<open>OutboundProviderRegistry.php\<close>), canary membership
  (\<open>OutboundCanaryService.php\<close>), the emergency stop and staged rollout
  (\<open>OutboundLaunchControlService.php\<close> with the errors of
  \<open>OutboundLaunchConfigValidator.php\<close>), and the authorization every send and every delivery
  attempt passes (\<open>OutboundAuthorizationService.php\<close>).
\<close>

section \<open>Provider identities\<close>

definition normalize_provider :: "string \<Rightarrow> string" where
  "normalize_provider p = strtolower (trim p)"

definition supported_providers :: "string list" where
  "supported_providers = [''generic'', ''ses'']"

definition is_supported :: "string \<Rightarrow> bool" where
  "is_supported p \<longleftrightarrow> normalize_provider p \<in> set supported_providers"

definition primary_provider :: "env \<Rightarrow> string" where
  "primary_provider E =
     (let c = normalize_provider (cf_primary_provider (e_cfg E)) in if is_supported c then c else ''generic'')"

definition secondary_provider_raw :: "env \<Rightarrow> string option" where
  "secondary_provider_raw E =
     (case cf_secondary_provider (e_cfg E) of
        None \<Rightarrow> None
      | Some c \<Rightarrow> if trim c = [] then None else Some (normalize_provider c))"

definition secondary_provider :: "env \<Rightarrow> string option" where
  "secondary_provider E =
     (case cf_secondary_provider (e_cfg E) of
        None \<Rightarrow> None
      | Some c \<Rightarrow>
          if trim c = [] then None
          else let c' = normalize_provider c in
            if \<not> is_supported c' then None
            else if c' = primary_provider E then None
            else Some c')"

definition failover_enabled :: "env \<Rightarrow> bool" where
  "failover_enabled E \<longleftrightarrow> cf_failover_enabled (e_cfg E) \<and> secondary_provider E \<noteq> None"

definition provider_config_errors :: "env \<Rightarrow> string list" where
  "provider_config_errors E =
     (let primaryRaw = normalize_provider (cf_primary_provider (e_cfg E)) in
      (if cf_outbound_enabled (e_cfg E) \<and> primaryRaw = [] then [''primary_provider_required''] else [])
      @ (if primaryRaw \<noteq> [] \<and> \<not> is_supported primaryRaw then [''primary_provider_unsupported''] else [])
      @ (case secondary_provider_raw E of
           None \<Rightarrow> []
         | Some s \<Rightarrow> if \<not> is_supported s then [''secondary_provider_unsupported'']
                     else if s = primary_provider E then [''secondary_provider_duplicates_primary''] else [])
      @ (if cf_failover_enabled (e_cfg E) \<and> secondary_provider E = None
         then [''failover_enabled_without_usable_secondary''] else []))"

section \<open>Canaries\<close>

fun canary_type_value :: "canary_type \<Rightarrow> string" where
  "canary_type_value CanaryUser = ''user''"
| "canary_type_value CanaryInbox = ''inbox''"
| "canary_type_value CanaryDomain = ''domain''"
| "canary_type_value CanaryApiKey = ''api_key''"

definition canary_subject_exists :: "world \<Rightarrow> canary_type \<Rightarrow> string \<Rightarrow> bool" where
  "canary_subject_exists w t i =
     (case t of
        CanaryUser \<Rightarrow> find_user w i \<noteq> None
      | CanaryInbox \<Rightarrow> find_inbox w i \<noteq> None
      | CanaryDomain \<Rightarrow> find_domain w i \<noteq> None
      | CanaryApiKey \<Rightarrow> i \<in> set (w_api_keys w))"

definition active_canaries :: "world \<Rightarrow> canary list" where
  "active_canaries w = filter cn_active (tbl_rows (w_canaries w))"

definition has_active_canaries :: "world \<Rightarrow> bool" where
  "has_active_canaries w \<longleftrightarrow> active_canaries w \<noteq> []"

definition canary_is :: "canary_type \<Rightarrow> string \<Rightarrow> canary \<Rightarrow> bool" where
  "canary_is t i c \<longleftrightarrow> cn_subject_type c = t \<and> cn_subject_id c = i"

definition canary_add ::
  "env \<Rightarrow> canary_type \<Rightarrow> string \<Rightarrow> user \<Rightarrow> string option \<Rightarrow> world \<Rightarrow> (world, canary) outcome" where
  "canary_add E t i actor label w =
     (if \<not> canary_subject_exists w t i then
        (Inl (OutboundSendException ''canary_subject_not_found'' ''The canary subject was not found.'' 404), w)
      else case first_of (filter (canary_is t i) (active_canaries w)) of
        Some c \<Rightarrow> (Inr c, w)
      | None \<Rightarrow>
         (let (cid, w1) = fresh_id E w;
              c = \<lparr>cn_id = cid, cn_subject_type = t, cn_subject_id = i,
                   cn_label = map_option (\<lambda>l. mb_substr0 (trim l) 255) label, cn_active = True,
                   cn_added_by = Some (u_id actor), cn_added_at = e_now E,
                   cn_removed_by = None, cn_removed_at = None\<rparr>
          in (Inr c, audit_write E ''outbound.canary_added'' (Some (u_id actor))
                (Some (''OutboundLaunchCanary'', cid)) None (Some [(''active'', PBool True)])
                (Some [(''canary_id'', PStr cid), (''subject_type'', PStr (canary_type_value t)),
                       (''subject_id'', PStr i)])
                (w1\<lparr>w_canaries := tbl_put cid c (w_canaries w1)\<rparr>))))"

definition canary_remove :: "env \<Rightarrow> canary \<Rightarrow> user \<Rightarrow> world \<Rightarrow> canary \<times> world" where
  "canary_remove E c actor w =
     (if \<not> cn_active c then (c, w)
      else let c' = c\<lparr>cn_active := False, cn_removed_by := Some (u_id actor), cn_removed_at := Some (e_now E)\<rparr>
           in (c', audit_write E ''outbound.canary_removed'' (Some (u_id actor))
                 (Some (''OutboundLaunchCanary'', cn_id c))
                 (Some [(''active'', PBool True)]) (Some [(''active'', PBool False)])
                 (Some [(''canary_id'', PStr (cn_id c)),
                        (''subject_type'', PStr (canary_type_value (cn_subject_type c))),
                        (''subject_id'', PStr (cn_subject_id c))])
                 (w\<lparr>w_canaries := tbl_put (cn_id c) c' (w_canaries w)\<rparr>)))"

text \<open>\<open>domain\<close> is the id of the inbox's domain, null when the loaded relation is null.\<close>

definition canary_matches :: "world \<Rightarrow> user \<Rightarrow> inbox \<Rightarrow> uuid option \<Rightarrow> uuid option \<Rightarrow> bool" where
  "canary_matches w u ib domain apiKey \<longleftrightarrow>
     (\<exists>c \<in> set (active_canaries w).
        canary_is CanaryUser (u_id u) c \<or> canary_is CanaryInbox (ib_id ib) c
        \<or> (case domain of Some d \<Rightarrow> canary_is CanaryDomain d c | None \<Rightarrow> False)
        \<or> (case apiKey of Some k \<Rightarrow> canary_is CanaryApiKey k c | None \<Rightarrow> False))"

section \<open>Launch control\<close>

definition cache_mode_key :: string where
  "cache_mode_key = ''outbound:rollout:override:mode''"

definition cache_percent_key :: string where
  "cache_percent_key = ''outbound:rollout:override:percent''"

definition cache_emergency_stop_key :: string where
  "cache_emergency_stop_key = ''outbound:rollout:override:emergency_stop''"

definition is_emergency_stopped :: "env \<Rightarrow> world \<Rightarrow> bool" where
  "is_emergency_stopped E w =
     (case cache_get w cache_emergency_stop_key of
        Some (PBool b) \<Rightarrow> b
      | _ \<Rightarrow> cf_emergency_stop (e_cfg E))"

definition rollout_mode :: "env \<Rightarrow> world \<Rightarrow> string" where
  "rollout_mode E w =
     (case cache_get w cache_mode_key of
        Some (PStr s) \<Rightarrow> (if s \<noteq> [] then strtolower (trim s) else strtolower (trim (cf_rollout_mode (e_cfg E))))
      | _ \<Rightarrow> strtolower (trim (cf_rollout_mode (e_cfg E))))"

definition is_supported_mode :: "env \<Rightarrow> string \<Rightarrow> bool" where
  "is_supported_mode E mode \<longleftrightarrow> mode \<in> set (cf_supported_modes (e_cfg E))"

definition raw_percent :: "env \<Rightarrow> world \<Rightarrow> int" where
  "raw_percent E w =
     (case cache_get w cache_percent_key of Some (PInt i) \<Rightarrow> i | _ \<Rightarrow> cf_rollout_percent (e_cfg E))"

definition rollout_percent :: "env \<Rightarrow> world \<Rightarrow> int" where
  "rollout_percent E w = max 0 (min 100 (raw_percent E w))"

definition bucket :: "env \<Rightarrow> user \<Rightarrow> int" where
  "bucket E u = int (hexdec (take 8 (e_sha256 E (''outbound-rollout:'' @ u_id u))) mod 100)"

definition within_percentage :: "env \<Rightarrow> world \<Rightarrow> user \<Rightarrow> bool" where
  "within_percentage E w u =
     (let percent = rollout_percent E w in
      if percent \<le> 0 then False
      else if 100 \<le> percent then True
      else bucket E u < percent)"

definition assert_rollout_eligible ::
  "env \<Rightarrow> world \<Rightarrow> user \<Rightarrow> inbox \<Rightarrow> uuid option \<Rightarrow> uuid option \<Rightarrow> exn + unit" where
  "assert_rollout_eligible E w u ib domain apiKey =
     (if is_emergency_stopped E w
        then Inl (OutboundSendException ''outbound_emergency_stop'' ''Outbound email is temporarily stopped.'' 503)
      else let mode = rollout_mode E w in
        if \<not> is_supported_mode E mode
          then Inl (OutboundSendException ''outbound_rollout_mode_invalid'' ''Outbound rollout mode is not configured correctly.'' 403)
        else if mode = ''enabled'' then Inr ()
        else if mode = ''disabled''
          then Inl (OutboundSendException ''outbound_rollout_disabled'' ''Outbound email is not yet enabled for any accounts.'' 403)
        else if mode = ''canary'' then
          (if canary_matches w u ib domain apiKey then Inr ()
           else Inl (OutboundSendException ''outbound_rollout_not_canary'' ''Outbound email is only enabled for canary accounts.'' 403))
        else if mode = ''percentage'' then
          (if within_percentage E w u then Inr ()
           else Inl (OutboundSendException ''outbound_rollout_percentage_excluded'' ''This account is not yet included in the outbound rollout.'' 403))
        else Inl (OutboundSendException ''outbound_rollout_mode_invalid'' ''Outbound rollout mode is not configured correctly.'' 403))"

definition is_eligible :: "env \<Rightarrow> world \<Rightarrow> user \<Rightarrow> inbox \<Rightarrow> uuid option \<Rightarrow> uuid option \<Rightarrow> bool" where
  "is_eligible E w u ib domain apiKey =
     (case assert_rollout_eligible E w u ib domain apiKey of Inr _ \<Rightarrow> True | Inl _ \<Rightarrow> False)"

definition set_emergency_stop :: "env \<Rightarrow> bool \<Rightarrow> user \<Rightarrow> world \<Rightarrow> world" where
  "set_emergency_stop E stopped actor w =
     audit_write E ''outbound.launch_emergency_stop_changed'' (Some (u_id actor)) None
       (Some [(''emergency_stop'', PBool (is_emergency_stopped E w))])
       (Some [(''emergency_stop'', PBool stopped)]) (Some [])
       (cache_forever cache_emergency_stop_key (PBool stopped) w)"

subsection \<open>The configuration validator\<close>

text \<open>
  The errors of \<open>OutboundLaunchConfigValidator::validate\<close>. The reports of the transport
  configuration and of queue readiness are inputs: they only read configuration and
  worker heartbeats.
\<close>

definition live_modes :: "string list" where
  "live_modes = [''canary'', ''percentage'', ''enabled'']"

definition verified_domain_count :: "world \<Rightarrow> nat" where
  "verified_domain_count w =
     length (filter (\<lambda>((d, p), a). da_state a = AuthVerified
          \<and> (case find_domain w d of Some m \<Rightarrow> dm_outbound_enabled m \<and> dm_is_active m | None \<Rightarrow> False))
       (w_domain_auths w))"

definition webhook_secret_present :: "env \<Rightarrow> bool" where
  "webhook_secret_present E \<longleftrightarrow>
     (if strtolower (cf_provider (e_cfg E)) = ''ses'' then trim (cf_ses_topic_arn (e_cfg E)) \<noteq> []
      else trim (cf_generic_webhook_secret (e_cfg E)) \<noteq> [])"

definition launch_errors :: "env \<Rightarrow> bool \<Rightarrow> bool \<Rightarrow> world \<Rightarrow> string list" where
  "launch_errors E transportValid queueValid w =
     (let mode = rollout_mode E w; percent = raw_percent E w; live = (mode \<in> set live_modes);
          supported = is_supported_mode E mode
      in (if \<not> supported then [''rollout_mode_unsupported''] else [])
         @ (if \<not> (0 \<le> percent \<and> percent \<le> 100) then [''rollout_percent_out_of_range''] else [])
         @ (if mode = ''canary'' \<and> \<not> has_active_canaries w then [''canary_mode_without_canaries''] else [])
         @ (if supported \<and> live then
              (if \<not> transportValid then [''enabled_without_valid_transport''] else [])
              @ (if \<not> queueValid then [''enabled_without_ready_queues''] else [])
              @ (if verified_domain_count w < 1 then [''enabled_without_verified_domain''] else [])
              @ (if \<not> webhook_secret_present E then [''enabled_without_webhook_secret''] else [])
            else [])
         @ provider_config_errors E)"

definition live_traffic_codes :: "string list" where
  "live_traffic_codes =
     [''enabled_without_valid_transport'', ''enabled_without_ready_queues'',
      ''enabled_without_verified_domain'', ''enabled_without_webhook_secret'']"

definition set_rollout ::
  "env \<Rightarrow> bool \<Rightarrow> bool \<Rightarrow> string \<Rightarrow> int \<Rightarrow> user \<Rightarrow> world \<Rightarrow> (world, unit) outcome" where
  "set_rollout E transportValid queueValid mode0 percent actor w =
     (let mode = strtolower (trim mode0);
          errs = filter (\<lambda>e. e \<in> set live_traffic_codes) (launch_errors E transportValid queueValid w)
      in if \<not> is_supported_mode E mode
           then (Inl (OutboundSendException ''outbound_rollout_mode_invalid'' ''Unsupported rollout mode.'' 422), w)
         else if percent < 0 \<or> 100 < percent
           then (Inl (OutboundSendException ''outbound_rollout_percent_out_of_range'' ''Rollout percent must be between 0 and 100.'' 422), w)
         else if mode = ''canary'' \<and> \<not> has_active_canaries w
           then (Inl (OutboundSendException ''canary_mode_without_canaries'' ''Add at least one active canary before switching to canary mode.'' 422), w)
         else if mode \<in> set live_modes \<and> errs \<noteq> []
           then (Inl (OutboundSendException ''rollout_prerequisites_not_met''
                   (''Launch prerequisites are not met: '' @ implode '', '' errs) 422), w)
         else (Inr (),
           audit_write E ''outbound.launch_rollout_changed'' (Some (u_id actor)) None
             (Some [(''mode'', PStr (rollout_mode E w)), (''percent'', PInt (rollout_percent E w))])
             (Some [(''mode'', PStr mode), (''percent'', PInt percent)]) (Some [])
             (cache_forever cache_percent_key (PInt percent) (cache_forever cache_mode_key (PStr mode) w))))"

definition clear_overrides :: "env \<Rightarrow> user \<Rightarrow> world \<Rightarrow> world" where
  "clear_overrides E actor w =
     audit_write E ''outbound.launch_overrides_cleared'' (Some (u_id actor)) None None None (Some [])
       (cache_forget cache_emergency_stop_key (cache_forget cache_percent_key (cache_forget cache_mode_key w)))"

section \<open>Authorization\<close>

definition inbox_is_expired :: "env \<Rightarrow> inbox \<Rightarrow> bool" where
  "inbox_is_expired E ib = (case ib_expires_at ib of Some t \<Rightarrow> t < e_now E | None \<Rightarrow> False)"

definition operation_flag :: "config \<Rightarrow> operation \<Rightarrow> bool" where
  "operation_flag c op = (case op of OpSend \<Rightarrow> cf_send_enabled c | OpReply \<Rightarrow> cf_reply_enabled c | OpForward \<Rightarrow> cf_forward_enabled c)"

definition assert_can_send ::
  "env \<Rightarrow> user \<Rightarrow> inbox \<Rightarrow> operation \<Rightarrow> uuid option \<Rightarrow> world \<Rightarrow> (world, unit) outcome" where
  "assert_can_send E u ib op apiKey w =
     (if is_emergency_stopped E w
        then (Inl (OutboundSendException ''outbound_emergency_stop'' ''Outbound email is temporarily stopped.'' 503), w)
      else if u_deleted_at u \<noteq> None \<or> \<not> user_is_active u
        then (Inl (OutboundSendException ''user_inactive'' ''The user account cannot send outbound email.'' 403), w)
      else if ib_user_id ib \<noteq> Some (u_id u) \<and> \<not> (ib_user_id ib = None \<and> u_id u = [])
        then (Inl (OutboundSendException ''inbox_forbidden'' ''The inbox does not belong to the authenticated user.'' 404), w)
      else if \<not> ib_is_active ib \<or> ib_deleted_at ib \<noteq> None \<or> inbox_is_expired E ib
        then (Inl (OutboundSendException ''inbox_inactive'' ''The inbox is not available for outbound email.'' 422), w)
      else case find_domain w (ib_domain_id ib) of
        None \<Rightarrow> (Inl (OutboundSendException ''domain_inactive'' ''The inbox domain is not available for outbound email.'' 422), w)
      | Some d \<Rightarrow>
          if \<not> dm_is_active d
            then (Inl (OutboundSendException ''domain_inactive'' ''The inbox domain is not available for outbound email.'' 422), w)
          else if \<not> dm_outbound_enabled d
            then (Inl (OutboundSendException ''domain_outbound_disabled'' ''Outbound email is disabled for this domain.'' 403), w)
          else and_then (assert_domain_ready E d None w) (\<lambda>_ w1.
            if \<not> cf_outbound_enabled (e_cfg E)
              then (Inl (OutboundSendException ''outbound_disabled'' ''Outbound email is disabled.'' 403), w1)
            else if \<not> operation_flag (e_cfg E) op
              then (Inl (OutboundSendException ''operation_disabled'' ''This outbound operation is disabled.'' 403), w1)
            else if \<not> has_feature w1 u (feature_key op)
              then (Inl (OutboundSendException ''entitlement_denied'' ''The current plan does not allow this outbound operation.'' 403), w1)
            else (assert_rollout_eligible E w1 u ib (Some (dm_id d)) apiKey, w1)))"

section \<open>Lemmas\<close>

lemma bucket_range: "0 \<le> bucket E u \<and> bucket E u < 100"
  by (simp add: bucket_def)

lemma bucket_same_hash: "e_sha256 E' = e_sha256 E \<Longrightarrow> bucket E' u = bucket E u"
  by (simp add: bucket_def)

lemma within_percentage_iff: "within_percentage E w u \<longleftrightarrow> bucket E u < rollout_percent E w"
  using bucket_range [of E u] by (auto simp: within_percentage_def Let_def)

lemma cache_forever_frame [simp]:
  "w_messages (cache_forever k v w) = w_messages w"
  "w_canaries (cache_forever k v w) = w_canaries w"
  "cache_get (cache_forever k v w) k' = (if k' = k then Some v else cache_get w k')"
  by (simp_all add: cache_forever_def cache_get_def tbl_simps)

lemma cache_get_audit [simp]: "cache_get (audit_write E a b c p q r w) k = cache_get w k"
  by (simp add: cache_get_def)

lemma launch_keys [simp]:
  "cache_mode_key \<noteq> cache_percent_key" "cache_percent_key \<noteq> cache_mode_key"
  "cache_emergency_stop_key \<noteq> cache_mode_key" "cache_emergency_stop_key \<noteq> cache_percent_key"
  "cache_mode_key \<noteq> cache_emergency_stop_key" "cache_percent_key \<noteq> cache_emergency_stop_key"
  by (simp_all add: cache_mode_key_def cache_percent_key_def cache_emergency_stop_key_def)

lemma assert_domain_ready_frame:
  "assert_domain_ready E d p w = (r, w') \<Longrightarrow>
     w_messages w' = w_messages w \<and> w_attempts w' = w_attempts w \<and> w_reservations w' = w_reservations w
     \<and> w_usages w' = w_usages w \<and> w_jobs w' = w_jobs w \<and> w_suppressions w' = w_suppressions w
     \<and> w_users w' = w_users w \<and> w_cache w' = w_cache w"
  by (auto simp: assert_domain_ready_def ensure_record_def save_domain_auth_def Let_def
      split: if_splits option.splits)

lemma assert_can_send_frame:
  assumes "assert_can_send E u ib op k w = (r, w')"
  shows "w_messages w' = w_messages w" "w_attempts w' = w_attempts w" "w_reservations w' = w_reservations w"
    "w_usages w' = w_usages w" "w_jobs w' = w_jobs w" "w_suppressions w' = w_suppressions w"
    "w_users w' = w_users w" "w_cache w' = w_cache w"
proof -
  have "w' = w \<or> (\<exists>d x. assert_domain_ready E d None w = (x, w'))"
    using assms
    by (auto simp: assert_can_send_def and_then_def split: if_splits option.splits prod.splits sum.splits)
  then show "w_messages w' = w_messages w" "w_attempts w' = w_attempts w" "w_reservations w' = w_reservations w"
    "w_usages w' = w_usages w" "w_jobs w' = w_jobs w" "w_suppressions w' = w_suppressions w"
    "w_users w' = w_users w" "w_cache w' = w_cache w"
    by (auto dest: assert_domain_ready_frame)
qed

end
