(* ===== verification/Suppressions.thy ===== *)
theory Suppressions
  imports Entitlement
begin

text \<open>
  \<open>app/Services/Outbound/OutboundSuppressionService.php\<close>: the list of addresses that must
  not receive mail, keyed by the hash of the normalized address.
\<close>

definition normalize_address :: "string \<Rightarrow> string" where
  "normalize_address s = strtolower (trim s)"

definition address_hash :: "env \<Rightarrow> string \<Rightarrow> string" where
  "address_hash E s = e_sha256 E (normalize_address s)"

text \<open>\<open>explode('@', $email, 2)\<close> padded to two parts.\<close>

fun split_at_sign :: "string \<Rightarrow> string \<times> string option" where
  "split_at_sign [] = ([], None)"
| "split_at_sign (c # s) =
     (if c = CHR ''@'' then ([], Some s)
      else case split_at_sign s of (l, d) \<Rightarrow> (c # l, d))"

definition mask_address :: "string \<Rightarrow> string" where
  "mask_address s =
     (case split_at_sign (normalize_address s) of (local, domain) \<Rightarrow>
        mb_substr0 local 1 @ replicate (max 1 (length local - 1)) CHR ''*''
        @ ''@'' @ (case domain of Some d \<Rightarrow> d | None \<Rightarrow> ''unknown''))"

definition suppression_live :: "env \<Rightarrow> suppression \<Rightarrow> bool" where
  "suppression_live E s \<longleftrightarrow> sp_active s \<and> (case sp_expires_at s of None \<Rightarrow> True | Some t \<Rightarrow> e_now E < t)"

definition is_suppressed :: "env \<Rightarrow> world \<Rightarrow> string \<Rightarrow> bool" where
  "is_suppressed E w s \<longleftrightarrow>
     (\<exists>r \<in> set (tbl_rows (w_suppressions w)). sp_recipient_hash r = address_hash E s \<and> suppression_live E r)"

fun assert_recipients_allowed :: "env \<Rightarrow> string list \<Rightarrow> user option \<Rightarrow> world \<Rightarrow> (world, unit) outcome" where
  "assert_recipients_allowed E [] actor w = (Inr (), w)"
| "assert_recipients_allowed E (r # rs) actor w =
     (if is_suppressed E w r then
        (Inl (OutboundSendException ''recipient_suppressed''
                ''One or more recipients cannot receive outbound mail.'' 422),
         (case actor of
            None \<Rightarrow> w
          | Some u \<Rightarrow> audit_write E ''outbound.send_blocked_by_suppression'' (Some (u_id u)) None None None
              (Some [(''recipient_hash'', PStr (address_hash E r)), (''masked_recipient'', PStr (mask_address r))]) w))
      else assert_recipients_allowed E rs actor w)"

text \<open>The rows of one address and scope that are marked active.\<close>

definition scope_matches :: "string \<Rightarrow> string \<Rightarrow> string option \<Rightarrow> suppression \<Rightarrow> bool" where
  "scope_matches h scopeType scopeId s \<longleftrightarrow>
     sp_recipient_hash s = h \<and> sp_scope_type s = scopeType \<and> sp_scope_id s = scopeId \<and> sp_active s"

definition suppress ::
  "env \<Rightarrow> string \<Rightarrow> string \<Rightarrow> string \<Rightarrow> string option \<Rightarrow> string option \<Rightarrow> time option
   \<Rightarrow> string \<Rightarrow> string option \<Rightarrow> user option \<Rightarrow> world \<Rightarrow> suppression \<times> world" where
  "suppress E email reason source provider sourceEvent expires scopeType scopeId actor w =
     (let normalized = normalize_address email; h = address_hash E normalized in
      case first_of (filter (scope_matches h scopeType scopeId) (tbl_rows (w_suppressions w))) of
        Some s \<Rightarrow> (s, w)
      | None \<Rightarrow>
         (let w1 = w\<lparr>w_suppressions := map (\<lambda>(i, s).
                (i, if scope_matches h scopeType scopeId s
                       \<and> (case sp_expires_at s of None \<Rightarrow> False | Some t \<Rightarrow> t \<le> e_now E)
                    then s\<lparr>sp_active := False, sp_removed_at := Some (e_now E)\<rparr> else s)) (w_suppressions w)\<rparr>;
              (i, w2) = fresh_id E w1;
              row = \<lparr>sp_id = i, sp_recipient_hash = h, sp_recipient = normalized,
                     sp_masked_recipient = mask_address normalized, sp_scope_type = scopeType,
                     sp_scope_id = scopeId, sp_reason = reason, sp_source = source,
                     sp_provider = provider, sp_source_event_id = sourceEvent, sp_active = True,
                     sp_suppressed_at = e_now E, sp_expires_at = expires,
                     sp_removed_at = None, sp_removed_by = None\<rparr>;
              w3 = w2\<lparr>w_suppressions := tbl_put i row (w_suppressions w2)\<rparr>
          in (row, audit_write E ''outbound.recipient_suppressed'' (map_option u_id actor)
                (Some (''OutboundRecipientSuppression'', i)) None (Some [(''active'', PBool True)])
                (Some [(''suppression_id'', PStr i), (''reason'', PStr reason), (''source'', PStr source),
                       (''scope'', PStr scopeType), (''masked_recipient'', PStr (mask_address normalized)),
                       (''recipient_hash'', PStr h)]) w3)))"

definition unsuppress :: "env \<Rightarrow> suppression \<Rightarrow> user \<Rightarrow> bool \<Rightarrow> world \<Rightarrow> (world, suppression) outcome" where
  "unsuppress E s actor elevated w =
     (if \<not> sp_active s then (Inr s, w)
      else if sp_reason s = ''complaint'' \<and> \<not> elevated then
        (Inl (OutboundSendException ''suppression_removal_denied''
                ''Complaint suppressions require elevated authorization.'' 403), w)
      else if sp_reason s \<in> {''permanent_bounce'', ''complaint''} \<and> \<not> elevated \<and> sp_source s = ''provider_event'' then
        (Inl (OutboundSendException ''suppression_removal_denied''
                ''Provider suppressions require elevated authorization.'' 403), w)
      else
        let s' = s\<lparr>sp_active := False, sp_removed_at := Some (e_now E), sp_removed_by := Some (u_id actor)\<rparr>
        in (Inr s', audit_write E ''outbound.recipient_unsuppressed'' (Some (u_id actor))
              (Some (''OutboundRecipientSuppression'', sp_id s))
              (Some [(''active'', PBool True)]) (Some [(''active'', PBool False)])
              (Some [(''suppression_id'', PStr (sp_id s)), (''reason'', PStr (sp_reason s)),
                     (''source'', PStr (sp_source s)), (''scope'', PStr (sp_scope_type s)),
                     (''masked_recipient'', PStr (sp_masked_recipient s)),
                     (''recipient_hash'', PStr (sp_recipient_hash s))])
              (w\<lparr>w_suppressions := tbl_put (sp_id s) s' (w_suppressions w)\<rparr>)))"

section \<open>Lemmas\<close>

lemma normalize_address_idem [simp]: "normalize_address (normalize_address s) = normalize_address s"
  by (simp add: normalize_address_def trim_strtolower)

lemma address_hash_normalized [simp]: "address_hash E (normalize_address s) = address_hash E s"
  by (simp add: address_hash_def)

lemma is_suppressed_audit [simp]: "is_suppressed E (audit_write E' a b c p q r w) s = is_suppressed E w s"
  by (simp add: is_suppressed_def)

lemma assert_recipients_allowed_Inr:
  "assert_recipients_allowed E rs actor w = (Inr (), w') \<Longrightarrow> w' = w \<and> (\<forall>r \<in> set rs. \<not> is_suppressed E w r)"
  by (induction rs) (auto split: if_splits)

lemma assert_recipients_allowed_Inl:
  "assert_recipients_allowed E rs actor w = (Inl e, w') \<Longrightarrow>
     error_code e = Some ''recipient_suppressed'' \<and> (\<exists>r \<in> set rs. is_suppressed E w r)"
  by (induction rs) (auto split: if_splits)

lemma assert_recipients_allowed_frame:
  "assert_recipients_allowed E rs actor w = (x, w') \<Longrightarrow>
     w_messages w' = w_messages w \<and> w_attempts w' = w_attempts w \<and> w_reservations w' = w_reservations w
     \<and> w_usages w' = w_usages w \<and> w_jobs w' = w_jobs w \<and> w_suppressions w' = w_suppressions w
     \<and> w_users w' = w_users w \<and> w_cache w' = w_cache w"
  by (induction rs) (auto split: if_splits option.splits)

lemma tbl_put_row_in: "r \<in> set (tbl_rows (tbl_put k r t))"
  unfolding tbl_rows_def tbl_put_def by (induction t) auto

lemma first_of_filter_Some:
  "first_of (filter P xs) = Some x \<Longrightarrow> x \<in> set xs \<and> P x"
  by (induction xs) (auto simp: first_of_def split: if_splits)

lemma suppress_cases:
  obtains s where "s \<in> set (tbl_rows (w_suppressions w))"
      "scope_matches (address_hash E email) scopeType scopeId s"
      "suppress E email reason source provider ev expires scopeType scopeId actor w = (s, w)"
  | row w' where "suppress E email reason source provider ev expires scopeType scopeId actor w = (row, w')"
      "row \<in> set (tbl_rows (w_suppressions w'))" "sp_recipient_hash row = address_hash E email"
      "sp_active row" "sp_expires_at row = expires"
proof (cases "first_of (filter (scope_matches (address_hash E email) scopeType scopeId) (tbl_rows (w_suppressions w)))")
  case None
  then show thesis
    using that(2) by (simp add: suppress_def Let_def fresh_id_def tbl_put_row_in)
next
  case (Some s)
  then show thesis
    using that(1) [of s] first_of_filter_Some [OF Some] by (simp add: suppress_def Let_def)
qed

end
