(* ===== verification/Attachments.thy ===== *)
theory Attachments
  imports Model
begin

text \<open>
  \<open>app/Services/Outbound/OutboundAttachmentSelector.php\<close> and
  \<open>app/Policies/AttachmentVisibilityPolicy.php\<close>: which attachments of the original mail a
  forward may carry, and the safe names and types they travel under.
\<close>

definition attachment_visible :: "env \<Rightarrow> attachment \<Rightarrow> bool" where
  "attachment_visible E a \<longleftrightarrow>
     ac_scan_status a = ScanClean \<and> ac_is_safe a
     \<and> e_disk_private E (ac_storage_disk a) \<and> e_file_exists E (ac_storage_disk a) (ac_storage_path a)"

definition is_quarantined :: "attachment \<Rightarrow> bool" where
  "is_quarantined a \<longleftrightarrow> ac_scan_status a \<in> {ScanInfected, ScanFailed}"

text \<open>The rows of the mail, soft-deleted ones excluded, by id.\<close>

definition find_attachment :: "world \<Rightarrow> uuid \<Rightarrow> uuid \<Rightarrow> attachment option" where
  "find_attachment w eid i =
     (case tbl_get (w_attachments w) i of
        Some a \<Rightarrow> (if ac_email_id a = eid \<and> ac_deleted_at a = None then Some a else None)
      | None \<Rightarrow> None)"

fun select_loop :: "env \<Rightarrow> world \<Rightarrow> uuid \<Rightarrow> bool \<Rightarrow> int \<Rightarrow> uuid list \<Rightarrow> exn + attachment list" where
  "select_loop E w eid recheck sofar [] = Inr []"
| "select_loop E w eid recheck sofar (i # ids) =
     (case find_attachment w eid i of
        None \<Rightarrow> Inl (OutboundSendException ''attachment_not_found''
                  ''One or more selected attachments are not part of the original email.'' 422)
      | Some a \<Rightarrow>
          if ac_deleted_at a \<noteq> None then Inl (OutboundSendException ''attachment_deleted'' ''A selected attachment has been deleted.'' 422)
          else if \<not> attachment_visible E a then Inl (OutboundSendException ''attachment_unsafe'' ''Only clean, safe attachments may be forwarded.'' 422)
          else if recheck \<and> \<not> attachment_visible E a then Inl (OutboundSendException ''attachment_unavailable'' ''A selected attachment is no longer available.'' 422)
          else if cf_max_attachment_bytes (e_cfg E) < ac_size_bytes a then
            Inl (OutboundSendException ''attachment_too_large'' ''A selected attachment exceeds the per-file size limit.'' 422)
          else if cf_max_total_attachment_bytes (e_cfg E) < sofar + ac_size_bytes a then
            Inl (OutboundSendException ''attachments_total_too_large'' ''Selected attachments exceed the sofar size limit.'' 422)
          else (case select_loop E w eid recheck (sofar + ac_size_bytes a) ids of
                  Inl e \<Rightarrow> Inl e
                | Inr as \<Rightarrow> Inr (a # as)))"

definition select_for_forward :: "env \<Rightarrow> world \<Rightarrow> email \<Rightarrow> string list \<Rightarrow> bool \<Rightarrow> exn + attachment list" where
  "select_for_forward E w em ids recheck =
     (let ids' = array_unique (filter (\<lambda>i. i \<noteq> []) ids) in
      if ids' = [] then Inr []
      else if cf_max_attachments_per_message (e_cfg E) < int (length ids') then
        Inl (OutboundSendException ''attachments_limit''
              (''A forward may include at most '' @ int_to_string (cf_max_attachments_per_message (e_cfg E)) @ '' attachments.'') 422)
      else select_loop E w (em_id em) recheck 0 ids')"

section \<open>Transport payload\<close>

text \<open>
  \<open>safeFilename\<close>. Control and path characters are removed, runs of line breaks and tabs
  become one blank, and a numbered prefix makes the name unique.
\<close>

definition is_break :: "char \<Rightarrow> bool" where
  "is_break c \<longleftrightarrow> (of_char c :: nat) \<in> {13, 10, 9}"

fun collapse_breaks :: "string \<Rightarrow> string" where
  "collapse_breaks [] = []"
| "collapse_breaks (c # s) =
     (if is_break c then (case s of
          d # _ \<Rightarrow> (if is_break d then collapse_breaks s else CHR '' '' # collapse_breaks s)
        | [] \<Rightarrow> [CHR '' ''])
      else c # collapse_breaks s)"

definition clean_filename :: "string \<Rightarrow> string" where
  "clean_filename f =
     (let f1 = filter (\<lambda>c. (of_char c :: nat) \<noteq> 0 \<and> c \<noteq> CHR ''/'' \<and> (of_char c :: nat) \<noteq> 92) f;
          f2 = trim (collapse_breaks f1);
          f3 = (if f2 = [] \<or> f2 = ''.'' \<or> f2 = ''..'' then ''attachment.bin'' else f2)
      in mb_substr0 f3 180)"

definition name_candidate :: "string \<Rightarrow> nat \<Rightarrow> string" where
  "name_candidate f i = (if i = 0 then f else nat_to_string i @ ''_'' @ f)"

text \<open>The \<open>while\<close> loop with fuel: the candidates tried from the \<open>i\<close>-th on.\<close>

fun free_name :: "nat \<Rightarrow> nat \<Rightarrow> string \<Rightarrow> string list \<Rightarrow> string option" where
  "free_name 0 i f used = None"
| "free_name (Suc n) i f used =
     (if strtolower (name_candidate f i) \<in> set used then free_name n (Suc i) f used
      else Some (name_candidate f i))"

definition safe_filename :: "string \<Rightarrow> string list \<Rightarrow> string option" where
  "safe_filename f used = free_name (Suc (length used)) 0 (clean_filename f) used"

definition is_mime_char :: "char \<Rightarrow> bool" where
  "is_mime_char c \<longleftrightarrow>
     (let n = (of_char c :: nat) in (97 \<le> n \<and> n \<le> 122) \<or> (48 \<le> n \<and> n \<le> 57) \<or> c \<in> {CHR ''.'', CHR ''+'', CHR ''-''})"

definition is_mime :: "string \<Rightarrow> bool" where
  "is_mime m =
     (case explode CHR ''/'' m of
        [a, b] \<Rightarrow> a \<noteq> [] \<and> b \<noteq> [] \<and> list_all is_mime_char a \<and> list_all is_mime_char b
      | _ \<Rightarrow> False)"

definition safe_mime :: "string \<Rightarrow> string" where
  "safe_mime m =
     (let m' = strtolower (trim m) in
      if m' = [] \<or> \<not> is_mime m' then ''application/octet-stream'' else mb_substr0 m' 100)"

record transport_attachment =
  ta_filename :: string
  ta_mime_type :: string
  ta_size_bytes :: int
  ta_storage_disk :: string
  ta_storage_path :: string

fun payload_loop :: "string list \<Rightarrow> attachment list \<Rightarrow> transport_attachment list option" where
  "payload_loop used [] = Some []"
| "payload_loop used (a # as) =
     (case safe_filename (ac_original_filename a) used of
        None \<Rightarrow> None
      | Some name \<Rightarrow>
          (case payload_loop (used @ [strtolower name]) as of
             None \<Rightarrow> None
           | Some rest \<Rightarrow> Some (\<lparr>ta_filename = name, ta_mime_type = safe_mime (ac_mime_type a),
                ta_size_bytes = ac_size_bytes a, ta_storage_disk = ac_storage_disk a,
                ta_storage_path = ac_storage_path a\<rparr> # rest)))"

definition to_transport_payload :: "attachment list \<Rightarrow> transport_attachment list option" where
  "to_transport_payload as = payload_loop [] as"

section \<open>Lemmas\<close>

lemma select_loop_ok:
  assumes "select_loop E w eid recheck sofar ids = Inr as" "0 \<le> sofar"
  shows "map ac_id as = map (\<lambda>i. ac_id (the (find_attachment w eid i))) ids
    \<and> (\<forall>a \<in> set as. attachment_visible E a \<and> ac_email_id a = eid \<and> ac_deleted_at a = None
          \<and> ac_size_bytes a \<le> cf_max_attachment_bytes (e_cfg E))
    \<and> (as \<noteq> [] \<longrightarrow> sofar + sum_list (map ac_size_bytes as) \<le> cf_max_total_attachment_bytes (e_cfg E))
    \<and> length as = length ids"
  using assms(1)
proof (induction ids arbitrary: sofar as)
  case Nil
  then show ?case by simp
next
  case (Cons i ids)
  obtain a where a: "find_attachment w eid i = Some a"
    using Cons.prems by (cases "find_attachment w eid i") simp_all
  obtain rest where rest: "select_loop E w eid recheck (sofar + ac_size_bytes a) ids = Inr rest"
    and as: "as = a # rest"
    using Cons.prems a by (auto split: if_splits sum.splits)
  have facts: "attachment_visible E a" "ac_size_bytes a \<le> cf_max_attachment_bytes (e_cfg E)"
    "sofar + ac_size_bytes a \<le> cf_max_total_attachment_bytes (e_cfg E)"
    using Cons.prems a by (auto split: if_splits)
  have row: "ac_email_id a = eid" "ac_deleted_at a = None"
    using a by (auto simp: find_attachment_def split: option.splits if_splits)
  from Cons.IH [OF rest] facts row as a show ?case
    by (cases "rest = []") (auto simp: algebra_simps)
qed

lemma name_candidate_inj:
  assumes "strtolower (name_candidate f i) = strtolower (name_candidate f j)"
  shows "i = j"
proof -
  have len: "length (name_candidate f k) = (if k = 0 then length f else length (nat_to_string k) + 1 + length f)" for k
    by (simp add: name_candidate_def)
  have "length (name_candidate f i) = length (name_candidate f j)"
    using assms by (metis length_strtolower)
  then have "i = 0 \<longleftrightarrow> j = 0" by (auto simp: len split: if_splits)
  then show ?thesis
  proof (cases "i = 0")
    case False
    with \<open>i = 0 \<longleftrightarrow> j = 0\<close> assms have "nat_to_string i @ strtolower (''_'' @ f) = nat_to_string j @ strtolower (''_'' @ f)"
      by (simp add: name_candidate_def del: append_Cons)
    then show ?thesis by (simp add: nat_to_string_inj)
  qed simp
qed

lemma free_name_Some:
  "free_name n i f used = Some c \<Longrightarrow> strtolower c \<notin> set used"
  by (induction n arbitrary: i) (auto split: if_splits)

text \<open>One candidate more than there are used names is enough.\<close>

lemma free_name_None:
  "free_name n i f used = None \<Longrightarrow> strtolower ` name_candidate f ` {i..<i + n} \<subseteq> set used"
proof (induction n arbitrary: i)
  case (Suc n)
  then have "strtolower (name_candidate f i) \<in> set used" "free_name n (Suc i) f used = None"
    by (auto split: if_splits)
  with Suc.IH [of "Suc i"] show ?case
    by (auto simp: image_iff) (metis Suc_leI add_Suc atLeastLessThan_iff image_subset_iff imageI le_neq_implies_less)
qed simp

lemma safe_filename_exists: "\<exists>c. safe_filename f used = Some c \<and> strtolower c \<notin> set used"
proof (cases "safe_filename f used")
  case None
  let ?g = "\<lambda>i. strtolower (name_candidate (clean_filename f) i)"
  from None have sub: "?g ` {0..<Suc (length used)} \<subseteq> set used"
    using free_name_None [of "Suc (length used)" 0 "clean_filename f" used]
    by (simp add: safe_filename_def image_image)
  have "inj_on ?g {0..<Suc (length used)}" by (rule inj_onI) (rule name_candidate_inj)
  then have "Suc (length used) \<le> card (set used)"
    using card_mono [OF _ sub] by (simp add: card_image)
  also have "\<dots> \<le> length used" by (rule card_length)
  finally show ?thesis by simp
next
  case (Some c)
  then show ?thesis using free_name_Some unfolding safe_filename_def by blast
qed

lemma payload_loop_exists:
  "\<exists>ps. payload_loop used as = Some ps \<and> length ps = length as
     \<and> distinct (map (strtolower \<circ> ta_filename) ps)
     \<and> set used \<inter> set (map (strtolower \<circ> ta_filename) ps) = {}
     \<and> map ta_storage_path ps = map ac_storage_path as"
proof (induction as arbitrary: used)
  case (Cons a as)
  obtain c where c: "safe_filename (ac_original_filename a) used = Some c" "strtolower c \<notin> set used"
    using safe_filename_exists by blast
  obtain ps where "payload_loop (used @ [strtolower c]) as = Some ps" "length ps = length as"
     "distinct (map (strtolower \<circ> ta_filename) ps)"
     "set (used @ [strtolower c]) \<inter> set (map (strtolower \<circ> ta_filename) ps) = {}"
     "map ta_storage_path ps = map ac_storage_path as"
    using Cons.IH by blast
  with c show ?case by (auto simp: comp_def)
qed simp

end
