(* ===== verification/Delivery_Job.thy ===== *)
theory Delivery_Job
  imports Usage_Facts Launch_Control Suppressions Attachments
begin

text \<open>
  \<open>app/Jobs/DeliverOutboundMessageJob.php\<close>: one run of the delivery job of a message. It
  claims the queued row, records the attempt, repeats the authorization, hands the message to
  the transport and settles the outcome. The transport is a parameter: it takes the outgoing
  message and returns a result or throws.
\<close>

section \<open>The outgoing message\<close>

text \<open>\<open>OutboundSenderProfileService::stripSignatureMarkers\<close>: both markers are removed.\<close>

definition text_sig_start :: string where "text_sig_start = ''[[outbound-sig-start]]''"
definition text_sig_end :: string where "text_sig_end = ''[[outbound-sig-end]]''"
definition html_sig_start :: string where "html_sig_start = ''<!--outbound-sig-start-->''"
definition html_sig_end :: string where "html_sig_end = ''<!--outbound-sig-end-->''"

text \<open>\<open>preg_replace('/a|b/', '', s)\<close> for two literal, nonempty patterns.\<close>

fun remove_either :: "string \<Rightarrow> string \<Rightarrow> string \<Rightarrow> string" where
  "remove_either a b [] = []"
| "remove_either a b (c # s) =
     (if str_starts_with (c # s) a then remove_either a b (drop (length a - 1) s)
      else if str_starts_with (c # s) b then remove_either a b (drop (length b - 1) s)
      else c # remove_either a b s)"

definition strip_signature_markers :: "string option \<Rightarrow> bool \<Rightarrow> string option" where
  "strip_signature_markers body isHtml =
     (case body of
        None \<Rightarrow> None
      | Some s \<Rightarrow>
          if s = [] then Some s
          else if isHtml then Some (remove_either html_sig_start html_sig_end s)
          else Some (remove_either text_sig_start text_sig_end s))"

record outbound_message_data =
  md_message_id :: uuid
  md_from_address :: string
  md_from_display_name :: "string option"
  md_to :: "string list"
  md_cc :: "string list"
  md_bcc :: "string list"
  md_subject :: string
  md_text_body :: "string option"
  md_html_body :: "string option"
  md_in_reply_to :: "string option"
  md_references :: "string option"
  md_attachments :: "transport_attachment list"
  md_reply_to_address :: "string option"
  md_reply_to_name :: "string option"

definition message_data :: "outbound_message \<Rightarrow> transport_attachment list \<Rightarrow> outbound_message_data" where
  "message_data m atts =
     \<lparr>md_message_id = om_id m, md_from_address = om_from_address m,
      md_from_display_name = om_from_display_name m,
      md_to = ors (om_to_recipients m), md_cc = ors (om_cc_recipients m), md_bcc = ors (om_bcc_recipients m),
      md_subject = (case om_subject m of Some s \<Rightarrow> s | None \<Rightarrow> []),
      md_text_body = strip_signature_markers (om_text_body m) False,
      md_html_body = strip_signature_markers (om_html_body m) True,
      md_in_reply_to = om_in_reply_to m, md_references = om_references m, md_attachments = atts,
      md_reply_to_address = om_reply_to_address m, md_reply_to_name = om_reply_to_name m\<rparr>"

type_synonym transport = "outbound_message_data \<Rightarrow> exn + delivery_result"

section \<open>Settling the outcome\<close>

text \<open>
  How a run ends: released back to the queue with a delay, returned, or thrown (the queue
  worker then runs the job again after its backoff, up to \<open>tries\<close> times).
\<close>

datatype job_end = ReleasedFor int | Returned | Threw exn

definition tries :: "env \<Rightarrow> int" where
  "tries E = max 1 (cf_send_max_attempts (e_cfg E))"

definition backoff :: "env \<Rightarrow> int list" where
  "backoff E = (if cf_send_backoff_seconds (e_cfg E) \<noteq> [] then cf_send_backoff_seconds (e_cfg E) else [60, 300, 900])"

definition audit_action :: "operation \<Rightarrow> string \<Rightarrow> string" where
  "audit_action op sfx =
     (case op of OpReply \<Rightarrow> ''outbound.reply_'' @ sfx
      | OpForward \<Rightarrow> ''outbound.forward_'' @ sfx
      | _ \<Rightarrow> ''outbound.message_'' @ sfx)"

definition auditable_message :: "outbound_message \<Rightarrow> (string \<times> uuid) option" where
  "auditable_message m = Some (''OutboundMessage'', om_id m)"

definition state_payload :: "message_state \<Rightarrow> payload option" where
  "state_payload s = Some [(''state'', PStr (state_value s))]"

text \<open>
  \<open>notify($fresh->user, ..)\<close>: the parameter is not nullable, so a soft-deleted user makes
  the call throw.
\<close>

definition notify_owner ::
  "env \<Rightarrow> outbound_message \<Rightarrow> string \<Rightarrow> payload \<Rightarrow> string \<Rightarrow> world \<Rightarrow> job_end \<times> world" where
  "notify_owner E m event extra key w =
     (case find_user w (om_user_id m) of
        None \<Rightarrow> (Threw TypeError, w)
      | Some u \<Rightarrow> (Returned, notify_user E u event (Some m) extra key w))"

definition mark_sent ::
  "env \<Rightarrow> uuid \<Rightarrow> outbound_message \<Rightarrow> string option \<Rightarrow> string option \<Rightarrow> world \<Rightarrow> job_end \<times> world" where
  "mark_sent E mid m provider pmid w =
     (let (n, w1) = update_message_where mid (\<lambda>r. om_state r = Sending)
            (\<lambda>r. r\<lparr>om_state := Sent, om_sent_at := Some (e_now E), om_provider := provider,
                    om_provider_message_id := pmid, om_failure_code := None,
                    om_failure_message := None, om_updated_at := e_now E\<rparr>) w
      in if n \<noteq> 1 then (Returned, w1)
         else
           let w2 = commit E mid w1;
               w3 = attempt_complete E m AttAccepted (Some (transport_result_value Accepted)) None pmid None w2
           in case find_message w3 mid of
                None \<Rightarrow> (Threw TypeError, w3)
              | Some fresh \<Rightarrow>
                  notify_owner E fresh ''outbound.sent'' [] (''sent:'' @ om_id fresh)
                    (audit_write E (audit_action (om_operation fresh) ''sent'') (Some (om_user_id fresh))
                       (auditable_message fresh) (state_payload Sending) (state_payload Sent)
                       (Some [(''attempt'', PInt (om_attempt_count fresh)), (''provider'', opt_str provider),
                              (''operation'', PStr (operation_value (om_operation fresh))),
                              (''inbox_id'', PStr (om_inbox_id fresh)),
                              (''recipient_count'', PInt (recipient_count fresh))]) w3))"

definition mark_failed ::
  "env \<Rightarrow> uuid \<Rightarrow> outbound_message \<Rightarrow> string \<Rightarrow> string \<Rightarrow> string option \<Rightarrow> bool \<Rightarrow> transport_result \<Rightarrow> bool
   \<Rightarrow> world \<Rightarrow> job_end \<times> world" where
  "mark_failed E mid m code msg provider skip attemptResult transportAttempted w =
     (let (n, w1) = update_message_where mid (\<lambda>r. om_state r = Sending)
            (\<lambda>r. r\<lparr>om_state := Failed, om_failed_at := Some (e_now E), om_failure_code := Some code,
                    om_failure_message := Some (mb_substr0 msg 255),
                    om_provider := (case provider of Some p \<Rightarrow> Some p | None \<Rightarrow> om_provider m),
                    om_updated_at := e_now E\<rparr>) w
      in if n \<noteq> 1 then (Returned, w1)
         else
           let w2 = (if transportAttempted then record_permanent_failure E mid w1
                     else release_reservation E mid ''pre_transport_failure'' None w1);
               w3 = (if skip then w2
                     else attempt_complete E m AttPermanentFailure (Some (transport_result_value attemptResult))
                            (Some code) None None w2)
           in case find_message w3 mid of
                None \<Rightarrow> (Threw TypeError, w3)
              | Some fresh \<Rightarrow>
                  notify_owner E fresh ''outbound.failed''
                    [(''failure_category'', PStr (user_safe_category (Some code)))] (''failed:'' @ om_id fresh)
                    (audit_write E (audit_action (om_operation fresh) ''failed'') (Some (om_user_id fresh))
                       (auditable_message fresh) (state_payload Sending) (state_payload Failed)
                       (Some [(''attempt'', PInt (om_attempt_count fresh)), (''failure_code'', PStr code),
                              (''provider'', opt_str (om_provider fresh)),
                              (''operation'', PStr (operation_value (om_operation fresh))),
                              (''inbox_id'', PStr (om_inbox_id fresh)),
                              (''recipient_count'', PInt (recipient_count fresh))]) w3))"

text \<open>The code after \<open>$transport->send\<close> returned.\<close>

definition settle_result ::
  "env \<Rightarrow> uuid \<Rightarrow> outbound_message \<Rightarrow> delivery_result \<Rightarrow> world \<Rightarrow> job_end \<times> world" where
  "settle_result E mid m r w =
     (let code = (case dr_failure_code r of Some c \<Rightarrow> c | None \<Rightarrow> ''transport_error'');
          msg = (case dr_failure_message r of Some s \<Rightarrow> s | None \<Rightarrow> ''Transport submission failed.'')
      in if dr_result r = Accepted then mark_sent E mid m (dr_provider r) (dr_provider_message_id r) w
         else if dr_result r = TemporaryFailure then
           (if om_attempt_count m < tries E then
              let w1 = snd (update_message_where mid (\<lambda>x. om_state x = Sending)
                     (\<lambda>x. x\<lparr>om_state := Queued, om_failure_code := dr_failure_code r,
                             om_failure_message := dr_failure_message r, om_provider := dr_provider r,
                             om_updated_at := e_now E\<rparr>) w);
                  w2 = attempt_complete E m AttTemporaryFailure (Some (transport_result_value (dr_result r)))
                         (dr_failure_code r) None None w1;
                  w3 = audit_write E ''outbound.retry_scheduled'' (Some (om_user_id m)) (auditable_message m) None
                         (state_payload Queued)
                         (Some [(''attempt'', PInt (om_attempt_count m)), (''failure_code'', opt_str (dr_failure_code r)),
                                (''provider'', opt_str (dr_provider r))]) w2
              in (Threw (RuntimeException ''Outbound temporary transport failure; retrying.''), w3)
            else
              let w1 = attempt_complete E m AttTemporaryFailure (Some (transport_result_value (dr_result r)))
                         (dr_failure_code r) None None w;
                  w2 = audit_write E ''outbound.retry_exhausted'' (Some (om_user_id m)) (auditable_message m) None
                         (state_payload Failed)
                         (Some [(''attempt'', PInt (om_attempt_count m)), (''failure_code'', opt_str (dr_failure_code r)),
                                (''provider'', opt_str (dr_provider r))]) w1
              in mark_failed E mid m code msg (dr_provider r) True PermanentFailure True w2)
         else mark_failed E mid m code msg (dr_provider r) False (dr_result r) True w)"

section \<open>The run\<close>

definition claim :: "env \<Rightarrow> uuid \<Rightarrow> world \<Rightarrow> outbound_message option \<times> world" where
  "claim E mid w =
     (case find_message w mid of
        None \<Rightarrow> (None, w)
      | Some m \<Rightarrow>
          if om_state m \<noteq> Queued then (None, w)
          else
            let (n, w1) = update_message_where mid (\<lambda>r. om_state r = Queued)
                  (\<lambda>r. r\<lparr>om_state := Sending, om_sending_at := Some (e_now E),
                          om_transport_attempted_at := None,
                          om_attempt_count := om_attempt_count m + 1, om_updated_at := e_now E\<rparr>) w
            in if n \<noteq> 1 then (None, w1) else (find_message w1 mid, w1))"

definition find_email :: "world \<Rightarrow> uuid \<Rightarrow> email option" where
  "find_email w i = (case tbl_get (w_emails w) i of
     Some e \<Rightarrow> (if em_deleted_at e = None then Some e else None) | None \<Rightarrow> None)"

text \<open>The checks of the first \<open>try\<close> block; a message without its inbox is a type error.\<close>

definition authorize_delivery :: "env \<Rightarrow> outbound_message \<Rightarrow> user \<Rightarrow> world \<Rightarrow> (world, unit) outcome" where
  "authorize_delivery E m u w =
     (case find_inbox w (om_inbox_id m) of
        None \<Rightarrow> (Inl TypeError, w)
      | Some ib \<Rightarrow> and_then (assert_can_send E u ib (om_operation m) None w)
          (\<lambda>_ w1. assert_recipients_allowed E (all_recipients m) (Some u) w1))"

definition forward_attachments :: "env \<Rightarrow> outbound_message \<Rightarrow> world \<Rightarrow> exn + transport_attachment list" where
  "forward_attachments E m w =
     (if om_operation m = OpForward \<and> ors (om_attachment_ids m) \<noteq> [] then
        (case (case om_source_email_id m of None \<Rightarrow> None | Some i \<Rightarrow> find_email w i) of
           None \<Rightarrow> Inl (OutboundSendException ''email_not_found'' ''The original email was not found.'' 404)
         | Some em \<Rightarrow>
            (case select_for_forward E w em (ors (om_attachment_ids m)) True of
               Inl e \<Rightarrow> Inl e
             | Inr as \<Rightarrow>
                (case to_transport_payload as of
                   Some ps \<Rightarrow> Inr ps
                 | None \<Rightarrow> Inl (RuntimeException ''no free file name''))))
      else Inr [])"

definition code_or :: "string \<Rightarrow> exn \<Rightarrow> string" where
  "code_or d e = (case error_code e of Some c \<Rightarrow> c | None \<Rightarrow> d)"

text \<open>A run also reports what it handed to the transport, if anything.\<close>

type_synonym job_run = "job_end \<times> outbound_message_data option \<times> world"

definition no_submission :: "job_end \<times> world \<Rightarrow> job_run" where
  "no_submission r = (fst r, None, snd r)"

definition submit :: "env \<Rightarrow> transport \<Rightarrow> uuid \<Rightarrow> outbound_message \<Rightarrow> transport_attachment list \<Rightarrow> world \<Rightarrow> job_run" where
  "submit E tr mid m atts w =
     (let payload = message_data m atts;
          w1 = snd (update_message_where mid (\<lambda>r. om_state r = Sending)
                 (\<lambda>r. r\<lparr>om_transport_attempted_at := Some (e_now E), om_updated_at := e_now E\<rparr>) w)
      in case tr payload of
           Inl e \<Rightarrow> (Threw e, Some payload, w1)
         | Inr r \<Rightarrow> (case settle_result E mid m r w1 of (je, w2) \<Rightarrow> (je, Some payload, w2)))"

text \<open>
  A user that is gone or no longer active: \<open>markFailed\<close> runs inside the first \<open>try\<close>, so what it
  throws is caught, and the handler marks the message as failed once more.
\<close>

definition fail_inactive :: "env \<Rightarrow> uuid \<Rightarrow> outbound_message \<Rightarrow> world \<Rightarrow> job_run" where
  "fail_inactive E mid m w =
     (case mark_failed E mid m ''user_inactive'' ''User is no longer active.'' None False PermanentFailure False w of
        (Threw e, w1) \<Rightarrow> no_submission (mark_failed E mid m (code_or ''authorization_failed'' e)
          ''Authorization failed before transport submission.'' None False PermanentFailure False w1)
      | (je, w1) \<Rightarrow> no_submission (je, w1))"

definition deliver_claimed :: "env \<Rightarrow> transport \<Rightarrow> uuid \<Rightarrow> outbound_message \<Rightarrow> world \<Rightarrow> job_run" where
  "deliver_claimed E tr mid m w =
     (case find_user w (om_user_id m) of
        None \<Rightarrow> fail_inactive E mid m w
      | Some u \<Rightarrow>
          if \<not> user_is_active u then fail_inactive E mid m w
          else (case authorize_delivery E m u w of
              (Inl e, w1) \<Rightarrow> no_submission (mark_failed E mid m (code_or ''authorization_failed'' e)
                  ''Authorization failed before transport submission.'' None False PermanentFailure False w1)
            | (Inr _, w1) \<Rightarrow>
                (case forward_attachments E m w1 of
                   Inl e \<Rightarrow> no_submission (mark_failed E mid m (code_or ''attachment_unsafe'' e)
                     ''Attachment revalidation failed before transport submission.'' None False PermanentFailure False w1)
                 | Inr atts \<Rightarrow> submit E tr mid m atts w1)))"

definition begin_attempt :: "env \<Rightarrow> outbound_message \<Rightarrow> world \<Rightarrow> world" where
  "begin_attempt E m w =
     audit_write E ''outbound.message_sending'' (Some (om_user_id m)) (auditable_message m)
       (state_payload Queued) (state_payload Sending)
       (Some [(''attempt'', PInt (om_attempt_count m)),
              (''operation'', PStr (operation_value (om_operation m))),
              (''inbox_id'', PStr (om_inbox_id m)),
              (''recipient_count'', PInt (recipient_count m))])
       (attempt_start E m (Some (cf_transport (e_cfg E))) (Some (primary_provider E)) None
         (record_attempt_started E m w))"

definition deliver :: "env \<Rightarrow> transport \<Rightarrow> uuid \<Rightarrow> world \<Rightarrow> job_run" where
  "deliver E tr mid w =
     (if is_emergency_stopped E w then
        (ReleasedFor (max 1 (cf_emergency_stop_retry_delay (e_cfg E))), None,
         audit_write E ''outbound.emergency_stop_blocked'' None None None None
           (Some [(''outbound_message_id'', PStr mid)]) w)
      else case claim E mid w of
        (None, w1) \<Rightarrow> (Returned, None, w1)
      | (Some m, w1) \<Rightarrow> deliver_claimed E tr mid m (begin_attempt E m w1))"

end
