(* ===== verification/Lifecycle.thy ===== *)
theory Lifecycle
  imports Model
begin

text \<open>
  Conformance of an operation to \<open>OutboundMessageState::allowedTransitions\<close>: no message row
  disappears and each one moves along the lifecycle graph. The locale
  \<open>message_operation\<close> is the contract every handler of the pipeline meets; whatever the
  order in which handlers meeting it run, final states stay final.
\<close>

definition conforms :: "world \<Rightarrow> world \<Rightarrow> bool" where
  "conforms w w' \<longleftrightarrow>
     (\<forall>i m. find_message w i = Some m \<longrightarrow>
        (\<exists>m'. find_message w' i = Some m' \<and> lifecycle (om_state m) (om_state m')))"

lemma conformsI:
  "(\<And>i m. find_message w i = Some m \<Longrightarrow> \<exists>m'. find_message w' i = Some m' \<and> lifecycle (om_state m) (om_state m'))
   \<Longrightarrow> conforms w w'"
  by (simp add: conforms_def)

lemma conforms_frame: "w_messages w' = w_messages w \<Longrightarrow> conforms w w'"
  by (auto simp: conforms_def find_message_def intro: lc_refl)

lemma conforms_refl [simp]: "conforms w w"
  by (simp add: conforms_frame)

lemma conforms_trans: "conforms w w' \<Longrightarrow> conforms w' w'' \<Longrightarrow> conforms w w''"
  unfolding conforms_def by (blast intro: lifecycle_trans)

lemma conforms_update:
  assumes "\<And>m. find_message w mid = Some m \<Longrightarrow> P m \<Longrightarrow> lifecycle (om_state m) (om_state (f m))"
  shows "conforms w (snd (update_message_where mid P f w))"
  using assms by (intro conformsI) (auto simp: find_update_message intro: lc_refl)

lemma conforms_save:
  assumes "find_message w mid = Some m" and "lifecycle (om_state m) (om_state m')"
  shows "conforms w (save_message mid m' w)"
  using assms by (intro conformsI) (auto simp: find_save_message intro: lc_refl)

lemma conforms_insert:
  assumes "find_message w mid = None"
  shows "conforms w (save_message mid m' w)"
  using assms by (intro conformsI) (auto simp: find_save_message intro: lc_refl)

lemma conforms_transaction:
  assumes "\<And>r w'. f w = (r, w') \<Longrightarrow> conforms w w'"
  shows "conforms w (snd (transaction f w))"
proof (cases "f w")
  case (Pair r w')
  then show ?thesis
    using assms [OF Pair] by (cases r) (simp_all add: transaction_def conforms_frame)
qed

text \<open>What one handler may do directly: the row of its own message moves as \<open>R\<close> says, every other keeps its state.\<close>

definition moves_only :: "uuid \<Rightarrow> (message_state \<Rightarrow> message_state \<Rightarrow> bool) \<Rightarrow> world \<Rightarrow> world \<Rightarrow> bool" where
  "moves_only mid R w w' \<longleftrightarrow>
     (\<forall>i m. find_message w i = Some m \<longrightarrow>
        (\<exists>m'. find_message w' i = Some m' \<and> (om_state m' = om_state m \<or> i = mid \<and> R (om_state m) (om_state m'))))"

lemma moves_frame: "w_messages w' = w_messages w \<Longrightarrow> moves_only mid R w w'"
  by (auto simp: moves_only_def find_message_def)

lemma moves_point:
  assumes "\<And>i. find_message w' i = (if i = mid then Some m' else find_message w i)"
    and "\<And>m. find_message w mid = Some m \<Longrightarrow> om_state m' = om_state m \<or> R (om_state m) (om_state m')"
  shows "moves_only mid R w w'"
  using assms by (auto simp: moves_only_def)

lemma moves_conforms: "\<lbrakk>moves_only mid R w w'; \<And>s t. R s t \<Longrightarrow> lifecycle s t\<rbrakk> \<Longrightarrow> conforms w w'"
  unfolding moves_only_def conforms_def by (metis lc_refl)

text \<open>The transitions the updates of the handlers make.\<close>

lemma lifecycle_edges:
  "lifecycle Queued Sending" "lifecycle Sending Sent" "lifecycle Sending Failed" "lifecycle Sending Queued"
  "lifecycle Failed Queued" "lifecycle Queued Cancelled" "lifecycle Scheduled Cancelled"
  "lifecycle Draft Scheduled" "lifecycle Scheduled Draft" "lifecycle Scheduled Queued"
  "lifecycle Draft Queued" "lifecycle Sent Delivered" "lifecycle Sent Failed"
  by (auto simp: can_transition_to_def intro!: lifecycle_one)

locale message_operation =
  fixes run :: "'i \<Rightarrow> world \<Rightarrow> world"
  assumes run_conforms: "conforms w (run i w)"
begin

lemma runs_conform: "conforms w (fold run is w)"
  by (induction "is" arbitrary: w) (auto intro: conforms_trans run_conforms)

lemma runs_keep_final:
  assumes "find_message w mid = Some m" and "om_state m \<in> {Delivered, Cancelled}"
  shows "\<exists>m'. find_message (fold run is w) mid = Some m' \<and> om_state m' = om_state m"
  using assms runs_conform [of w "is"] lifecycle_final unfolding conforms_def by blast

lemma runs_never_reopen:
  assumes "find_message w mid = Some m" and "om_state m \<notin> {Draft, Scheduled}"
  shows "\<exists>m'. find_message (fold run is w) mid = Some m' \<and> om_state m' \<notin> {Draft, Scheduled}"
  using assms runs_conform [of w "is"] lifecycle_sent_closed unfolding conforms_def by blast

end

end
