(* ===== verification/Delivery_Facts.thy ===== *)
theory Delivery_Facts
  imports Delivery_Job Lifecycle
begin

text \<open>
  What a run of the delivery job does to the message rows: each settling step in closed form,
  conformance to the lifecycle, and the count of transport submissions.
\<close>

section \<open>Message rows after each step\<close>

lemma notify_owner_frame [simp]:
  "w_messages (snd (notify_owner E m ev ex key w)) = w_messages w"
  "w_attempts (snd (notify_owner E m ev ex key w)) = w_attempts w"
  "w_reservations (snd (notify_owner E m ev ex key w)) = w_reservations w"
  "w_usages (snd (notify_owner E m ev ex key w)) = w_usages w"
  by (simp_all add: notify_owner_def split: option.splits)

definition sent_row :: "env \<Rightarrow> string option \<Rightarrow> string option \<Rightarrow> outbound_message \<Rightarrow> outbound_message" where
  "sent_row E provider pmid r =
     r\<lparr>om_state := Sent, om_sent_at := Some (e_now E), om_provider := provider,
       om_provider_message_id := pmid, om_failure_code := None,
       om_failure_message := None, om_updated_at := e_now E\<rparr>"

definition failed_row ::
  "env \<Rightarrow> string \<Rightarrow> string \<Rightarrow> string option \<Rightarrow> outbound_message \<Rightarrow> outbound_message \<Rightarrow> outbound_message" where
  "failed_row E code msg provider m r =
     r\<lparr>om_state := Failed, om_failed_at := Some (e_now E), om_failure_code := Some code,
       om_failure_message := Some (mb_substr0 msg 255),
       om_provider := (case provider of Some p \<Rightarrow> Some p | None \<Rightarrow> om_provider m),
       om_updated_at := e_now E\<rparr>"

definition requeued_row :: "env \<Rightarrow> delivery_result \<Rightarrow> outbound_message \<Rightarrow> outbound_message" where
  "requeued_row E dr x =
     x\<lparr>om_state := Queued, om_failure_code := dr_failure_code dr,
       om_failure_message := dr_failure_message dr, om_provider := dr_provider dr,
       om_updated_at := e_now E\<rparr>"

lemmas message_rows = sent_row_def failed_row_def requeued_row_def

lemma mark_sent_messages:
  "w_messages (snd (mark_sent E mid m provider pmid w)) =
     w_messages (snd (update_message_where mid (\<lambda>r. om_state r = Sending) (sent_row E provider pmid) w))"
  by (simp add: mark_sent_def Let_def sent_row_def [abs_def] split: prod.splits option.splits)

lemma mark_failed_messages:
  "w_messages (snd (mark_failed E mid m code msg provider skip ar ta w)) =
     w_messages (snd (update_message_where mid (\<lambda>r. om_state r = Sending) (failed_row E code msg provider m) w))"
  by (simp add: mark_failed_def Let_def failed_row_def [abs_def] split: prod.splits option.splits)

lemma find_mark_sent:
  "find_message (snd (mark_sent E mid m provider pmid w)) i =
     (case find_message w i of
        Some r \<Rightarrow> Some (if i = mid \<and> om_state r = Sending then sent_row E provider pmid r else r)
      | None \<Rightarrow> None)"
proof -
  have "find_message (snd (mark_sent E mid m provider pmid w)) i =
        find_message (snd (update_message_where mid (\<lambda>r. om_state r = Sending) (sent_row E provider pmid) w)) i"
    by (simp add: find_message_def mark_sent_messages)
  then show ?thesis by (simp add: find_update_message)
qed

lemma find_mark_failed:
  "find_message (snd (mark_failed E mid m code msg provider skip ar ta w)) i =
     (case find_message w i of
        Some r \<Rightarrow> Some (if i = mid \<and> om_state r = Sending then failed_row E code msg provider m r else r)
      | None \<Rightarrow> None)"
proof -
  have "find_message (snd (mark_failed E mid m code msg provider skip ar ta w)) i =
        find_message (snd (update_message_where mid (\<lambda>r. om_state r = Sending) (failed_row E code msg provider m) w)) i"
    by (simp add: find_message_def mark_failed_messages)
  then show ?thesis by (simp add: find_update_message)
qed

definition settled_row :: "env \<Rightarrow> outbound_message \<Rightarrow> delivery_result \<Rightarrow> outbound_message \<Rightarrow> outbound_message" where
  "settled_row E m dr r =
     (if dr_result dr = Accepted then sent_row E (dr_provider dr) (dr_provider_message_id dr) r
      else if dr_result dr = TemporaryFailure \<and> om_attempt_count m < tries E then requeued_row E dr r
      else failed_row E (case dr_failure_code dr of Some c \<Rightarrow> c | None \<Rightarrow> ''transport_error'')
             (case dr_failure_message dr of Some s \<Rightarrow> s | None \<Rightarrow> ''Transport submission failed.'')
             (dr_provider dr) m r)"

lemma find_settle_result:
  "find_message (snd (settle_result E mid m dr w)) i =
     (case find_message w i of
        Some r \<Rightarrow> Some (if i = mid \<and> om_state r = Sending then settled_row E m dr r else r)
      | None \<Rightarrow> None)"
  by (simp add: settle_result_def settled_row_def Let_def find_mark_sent find_mark_failed
      find_update_message requeued_row_def split: option.splits)

text \<open>The settled state is the one \<open>OutboundTransportResult::toMessageState\<close> names.\<close>

lemma settled_state:
  "om_state (settled_row E m dr r) = to_message_state (dr_result dr) (om_attempt_count m < tries E)"
  by (cases "dr_result dr") (simp_all add: settled_row_def message_rows)

lemma settled_attempt_count [simp]: "om_attempt_count (settled_row E m dr r) = om_attempt_count r"
  by (simp add: settled_row_def message_rows)

lemma begin_attempt_frame [simp]:
  "w_messages (begin_attempt E m w) = w_messages w"
  "w_usages (begin_attempt E m w) = w_usages w"
  "w_jobs (begin_attempt E m w) = w_jobs w"
  "find_message (begin_attempt E m w) i = find_message w i"
  by (simp_all add: begin_attempt_def record_attempt_started_def save_reservation_def find_message_def
      split: option.splits)

lemma assert_can_send_same:
  "assert_can_send E u ib op k w = (r, w') \<Longrightarrow>
     w_messages w' = w_messages w \<and> w_attempts w' = w_attempts w \<and> w_reservations w' = w_reservations w
     \<and> w_usages w' = w_usages w \<and> w_suppressions w' = w_suppressions w"
  by (intro conjI) (rule assert_can_send_frame, assumption)+

lemma authorize_delivery_messages:
  assumes "authorize_delivery E m u w = (x, w')"
  shows "w_messages w' = w_messages w" "find_message w' i = find_message w i"
    and "w_reservations w' = w_reservations w" "w_usages w' = w_usages w" "w_attempts w' = w_attempts w"
proof -
  show "w_messages w' = w_messages w" "w_reservations w' = w_reservations w" "w_usages w' = w_usages w"
    "w_attempts w' = w_attempts w"
    using assms
    by (auto simp: authorize_delivery_def and_then_def
        split: option.splits prod.splits sum.splits
        dest!: assert_can_send_same assert_recipients_allowed_frame)
  then show "find_message w' i = find_message w i" by (simp add: find_message_def)
qed

section \<open>The claim\<close>

definition claimed_row :: "env \<Rightarrow> outbound_message \<Rightarrow> outbound_message" where
  "claimed_row E m =
     m\<lparr>om_state := Sending, om_sending_at := Some (e_now E), om_transport_attempted_at := None,
       om_attempt_count := om_attempt_count m + 1, om_updated_at := e_now E\<rparr>"

lemma claim_Some:
  assumes "claim E mid w = (Some m', w1)"
  obtains m where "find_message w mid = Some m" "om_state m = Queued" "m' = claimed_row E m"
    "w1 = snd (update_message_where mid (\<lambda>r. om_state r = Queued) (\<lambda>r. claimed_row E r) w)"
    "\<And>i. find_message w1 i = (if i = mid then Some m' else find_message w i)"
proof -
  obtain m where m: "find_message w mid = Some m" "om_state m = Queued"
    using assms by (auto simp: claim_def split: option.splits if_splits)
  let ?f = "\<lambda>r. r\<lparr>om_state := Sending, om_sending_at := Some (e_now E), om_transport_attempted_at := None,
       om_attempt_count := om_attempt_count m + 1, om_updated_at := e_now E\<rparr>"
  obtain n w0 where u: "update_message_where mid (\<lambda>r. om_state r = Queued) ?f w = (n, w0)" by force
  have "n = 1" using count_update_message [of mid "\<lambda>r. om_state r = Queued" ?f w] m u by simp
  then have eq: "claim E mid w = (find_message w0 mid, w0)" using m u by (simp add: claim_def)
  have f0: "find_message w0 i = (if i = mid then Some (claimed_row E m) else find_message w i)" for i
    using find_update_message [of mid "\<lambda>r. om_state r = Queued" ?f w i] m u
    by (auto simp: claimed_row_def split: option.splits)
  have "update_message_where mid (\<lambda>r. om_state r = Queued) ?f w =
        update_message_where mid (\<lambda>r. om_state r = Queued) (\<lambda>r. claimed_row E r) w"
    using m by (simp add: update_message_where_def tbl_update_where_def find_message_def claimed_row_def)
  with u have "w0 = snd (update_message_where mid (\<lambda>r. om_state r = Queued) (\<lambda>r. claimed_row E r) w)" by simp
  with eq f0 m assms show thesis by (intro that [of m]) auto
qed

lemma claim_None:
  assumes "claim E mid w = (None, w1)"
  shows "w1 = w" "\<nexists>m. find_message w mid = Some m \<and> om_state m = Queued"
proof -
  have "w1 = w \<and> (\<nexists>m. find_message w mid = Some m \<and> om_state m = Queued)"
  proof (cases "find_message w mid")
    case None
    with assms show ?thesis by (simp add: claim_def)
  next
    case (Some m)
    let ?f = "\<lambda>r. r\<lparr>om_state := Sending, om_sending_at := Some (e_now E), om_transport_attempted_at := None,
         om_attempt_count := om_attempt_count m + 1, om_updated_at := e_now E\<rparr>"
    obtain n w0 where u: "update_message_where mid (\<lambda>r. om_state r = Queued) ?f w = (n, w0)" by force
    have "om_state m \<noteq> Queued"
      using assms Some u count_update_message [of mid "\<lambda>r. om_state r = Queued" ?f w]
        find_update_message [of mid "\<lambda>r. om_state r = Queued" ?f w mid]
      by (auto simp: claim_def split: if_splits)
    with assms Some show ?thesis by (simp add: claim_def)
  qed
  then show "w1 = w" "\<nexists>m. find_message w mid = Some m \<and> om_state m = Queued" by auto
qed

section \<open>The run in closed form\<close>

text \<open>
  What \<open>deliver_claimed\<close> can do with the claimed row: fail it before the transport was
  called, leave it in flight when the transport threw, or settle it by the result.
\<close>

definition in_flight_row :: "env \<Rightarrow> outbound_message \<Rightarrow> outbound_message" where
  "in_flight_row E r = r\<lparr>om_transport_attempted_at := Some (e_now E), om_updated_at := e_now E\<rparr>"

definition submittable :: "env \<Rightarrow> world \<Rightarrow> outbound_message \<Rightarrow> transport_attachment list \<Rightarrow> world \<Rightarrow> bool" where
  "submittable E w m atts w1 \<longleftrightarrow>
     (\<exists>u. find_user w (om_user_id m) = Some u \<and> user_is_active u
        \<and> authorize_delivery E m u w = (Inr (), w1) \<and> forward_attachments E m w1 = Inr atts)"

lemma mark_failed_again:
  assumes "mark_failed E mid m code msg p skip ar ta w = (je, w1)"
  shows "mark_failed E mid m code' msg' p' skip' ar' ta' w1 = (Returned, w1)"
proof -
  have "\<not> om_state r = Sending" if "find_message w1 mid = Some r" for r
    using that find_mark_failed [of E mid m code msg p skip ar ta w mid] assms
    by (auto simp: failed_row_def split: option.splits if_splits)
  then have "update_message_where mid (\<lambda>r. om_state r = Sending) f w1 = (0, w1)" for f
    by (auto simp: update_message_where_def tbl_update_where_def find_message_def split: option.splits)
  then show ?thesis by (simp add: mark_failed_def)
qed

lemma fail_inactive_world:
  "\<exists>je. fail_inactive E mid m w = (je, None,
     snd (mark_failed E mid m ''user_inactive'' ''User is no longer active.'' None False PermanentFailure False w))"
proof -
  obtain je w1 where m: "mark_failed E mid m ''user_inactive'' ''User is no longer active.'' None False PermanentFailure False w = (je, w1)"
    by force
  show ?thesis using mark_failed_again [OF m] by (cases je) (simp_all add: fail_inactive_def no_submission_def m)
qed

lemma deliver_claimed_cases:
  obtains (failed) je code msg w1 where "w_messages w1 = w_messages w" "w_attempts w1 = w_attempts w"
      "deliver_claimed E tr mid m w
         = (je, None, snd (mark_failed E mid m code msg None False PermanentFailure False w1))"
  | (submitted) atts w1 where "submittable E w m atts w1" "w_messages w1 = w_messages w" "w_attempts w1 = w_attempts w"
      "deliver_claimed E tr mid m w = submit E tr mid m atts w1"
proof (cases "find_user w (om_user_id m)")
  case None
  from fail_inactive_world [of E mid m w] show thesis using None by (auto simp: deliver_claimed_def intro: failed)
next
  case (Some u)
  show thesis
  proof (cases "user_is_active u")
    case False
    from fail_inactive_world [of E mid m w] show thesis using Some False by (auto simp: deliver_claimed_def intro: failed)
  next
    case True
    obtain x w1 where a: "authorize_delivery E m u w = (x, w1)" by force
    note same = authorize_delivery_messages(1,5) [OF a]
    show thesis
    proof (cases x)
      case (Inl e)
      with Some True a same show thesis by (intro failed [of w1]) (auto simp: deliver_claimed_def no_submission_def)
    next
      case (Inr y)
      show thesis
      proof (cases "forward_attachments E m w1")
        case (Inl e)
        with Some True a same Inr show thesis by (intro failed [of w1]) (auto simp: deliver_claimed_def no_submission_def)
      next
        case (Inr atts)
        with Some True a same \<open>x = Inr y\<close> show thesis
          by (intro submitted [of atts w1]) (auto simp: deliver_claimed_def submittable_def)
      qed
    qed
  qed
qed

text \<open>The row of the message after \<open>submit\<close>, when it was in state sending.\<close>

definition submitted_row :: "env \<Rightarrow> outbound_message \<Rightarrow> (exn + delivery_result) \<Rightarrow> outbound_message \<Rightarrow> outbound_message" where
  "submitted_row E m x r =
     (case x of Inl _ \<Rightarrow> in_flight_row E r | Inr dr \<Rightarrow> settled_row E m dr (in_flight_row E r))"

lemma find_submit:
  "find_message (snd (snd (submit E tr mid m atts w))) i =
     (case find_message w i of
        Some r \<Rightarrow> Some (if i = mid \<and> om_state r = Sending
                         then submitted_row E m (tr (message_data m atts)) r else r)
      | None \<Rightarrow> None)"
  by (simp add: submit_def Let_def submitted_row_def in_flight_row_def find_update_message
      find_settle_result split: sum.splits option.splits prod.splits)
     (auto simp: find_settle_result find_update_message in_flight_row_def
        dest!: arg_cong [where f = "\<lambda>p. find_message (snd p) i"] split: if_splits)

text \<open>A transport that throws shows the row as it is when the transport is called.\<close>

lemma submit_throws:
  assumes "find_message w mid = Some r" and "om_state r = Sending"
  shows "\<exists>v. submit E (\<lambda>_. Inl x) mid m atts w = (Threw x, Some (message_data m atts), v)
    \<and> find_message v mid = Some (in_flight_row E r)"
  using assms by (simp add: submit_def Let_def find_update_message in_flight_row_def)

lemma submit_payload: "fst (snd (submit E tr mid m atts w)) = Some (message_data m atts)"
  by (simp add: submit_def Let_def split: sum.splits prod.splits)

lemma submitted_row_state:
  "om_state r = Sending \<Longrightarrow> lifecycle Sending (om_state (submitted_row E m x r))"
  by (cases x) (auto simp: submitted_row_def in_flight_row_def settled_state
      intro: lc_refl lifecycle_one to_message_state_allowed)

definition delivery_moves :: "message_state \<Rightarrow> message_state \<Rightarrow> bool" where
  "delivery_moves s t \<longleftrightarrow> s = Queued \<and> (t = Sending \<or> can_transition_to Sending t)"

lemma submitted_row_moves:
  "om_state r = Sending \<Longrightarrow> om_state (submitted_row E m x r) = Sending \<or> can_transition_to Sending (om_state (submitted_row E m x r))"
  by (cases x) (simp_all add: submitted_row_def in_flight_row_def settled_state to_message_state_allowed)

lemma moves_deliver: "moves_only mid delivery_moves w (snd (snd (deliver E tr mid w)))"
proof (cases "is_emergency_stopped E w")
  case True
  then show ?thesis by (simp add: deliver_def moves_frame)
next
  case False
  obtain c w1 where c: "claim E mid w = (c, w1)" by force
  show ?thesis
  proof (cases c)
    case None
    with False c show ?thesis using claim_None(1) [of E mid w w1] by (simp add: deliver_def moves_frame)
  next
    case (Some m')
    with c obtain m where m: "find_message w mid = Some m" "om_state m = Queued" "m' = claimed_row E m"
      and f: "\<And>i. find_message w1 i = (if i = mid then Some m' else find_message w i)"
      by (auto elim: claim_Some)
    have s: "om_state m' = Sending" by (simp add: m(3) claimed_row_def)
    let ?w0 = "begin_attempt E m' w1"
    have "\<exists>r. (om_state r = Sending \<or> can_transition_to Sending (om_state r))
        \<and> (\<forall>i. find_message (snd (snd (deliver_claimed E tr mid m' ?w0))) i = (if i = mid then Some r else find_message w i))"
    proof (rule deliver_claimed_cases [of ?w0 E tr mid m'])
      fix je' code msg v assume v: "w_messages v = w_messages ?w0" and
        d: "deliver_claimed E tr mid m' ?w0 = (je', None, snd (mark_failed E mid m' code msg None False PermanentFailure False v))"
      have "find_message v i = (if i = mid then Some m' else find_message w i)" for i
        using f v by (simp add: find_message_def)
      then show ?thesis unfolding d
        by (intro exI [of _ "failed_row E code msg None m' m'"])
          (simp add: find_mark_failed s, auto simp: failed_row_def can_transition_to_def split: option.splits)
    next
      fix atts v assume v: "w_messages v = w_messages ?w0" and
        d: "deliver_claimed E tr mid m' ?w0 = submit E tr mid m' atts v"
      have "find_message v i = (if i = mid then Some m' else find_message w i)" for i
        using f v by (simp add: find_message_def)
      then show ?thesis unfolding d
        by (intro exI [of _ "submitted_row E m' (tr (message_data m' atts)) m'"])
          (simp add: find_submit s submitted_row_moves split: option.splits)
    qed
    then obtain r where r: "om_state r = Sending \<or> can_transition_to Sending (om_state r)"
      "\<And>i. find_message (snd (snd (deliver_claimed E tr mid m' ?w0))) i = (if i = mid then Some r else find_message w i)"
      by blast
    have "deliver E tr mid w = deliver_claimed E tr mid m' ?w0" using False c Some by (simp add: deliver_def)
    with r m show ?thesis by (intro moves_point [of _ _ r]) (simp_all add: delivery_moves_def)
  qed
qed

lemma delivery_moves_lifecycle: "delivery_moves s t \<Longrightarrow> lifecycle s t"
  unfolding delivery_moves_def using lifecycle_one lifecycle_trans lifecycle_edges(1) by blast

section \<open>The gates a submission passed\<close>

text \<open>The tables that decide who may send; the job only reads them.\<close>

definition directory where
  "directory w = (w_users w, w_inboxes w, w_domains w, w_suppressions w, w_subscriptions w, w_features w,
     w_plans w, w_plan_features w, w_emails w, w_attachments w, w_canaries w, w_cache w)"

lemma directory_update [simp]: "directory (snd (update_message_where mid P f w)) = directory w"
  by (simp add: directory_def update_message_where_def split: prod.splits)

lemma directory_audit [simp]: "directory (audit_write E a b c p q r w) = directory w"
  by (simp add: directory_def audit_write_def)

lemma directory_begin_attempt [simp]: "directory (begin_attempt E m w) = directory w"
  by (simp add: directory_def begin_attempt_def record_attempt_started_def save_reservation_def
      attempt_start_def save_attempt_def audit_write_def split: option.splits)

lemma directory_domain_ready: "assert_domain_ready E d p w = (r, w') \<Longrightarrow> directory w' = directory w"
  by (auto simp: assert_domain_ready_def ensure_record_def save_domain_auth_def Let_def directory_def
      split: if_splits option.splits)

lemma directory_cong:
  assumes "directory w' = directory w"
  shows "find_user w' i = find_user w i" "find_inbox w' i = find_inbox w i" "find_domain w' i = find_domain w i"
    "has_feature w' u k = has_feature w u k" "is_suppressed E w' s = is_suppressed E w s"
    "is_emergency_stopped E w' = is_emergency_stopped E w"
    "assert_rollout_eligible E w' u ib dm ak = assert_rollout_eligible E w u ib dm ak"
    "find_attachment w' eid aid = find_attachment w eid aid" "find_email w' i = find_email w i"
proof -
  from assms have eqs: "w_users w' = w_users w" "w_inboxes w' = w_inboxes w" "w_domains w' = w_domains w"
    "w_suppressions w' = w_suppressions w" "w_subscriptions w' = w_subscriptions w" "w_features w' = w_features w"
    "w_plans w' = w_plans w" "w_plan_features w' = w_plan_features w" "w_emails w' = w_emails w"
    "w_attachments w' = w_attachments w" "w_canaries w' = w_canaries w" "w_cache w' = w_cache w"
    by (simp_all add: directory_def)
  show "find_user w' i = find_user w i" "find_inbox w' i = find_inbox w i" "find_domain w' i = find_domain w i"
    "is_suppressed E w' s = is_suppressed E w s"
    "is_emergency_stopped E w' = is_emergency_stopped E w"
    "find_attachment w' eid aid = find_attachment w eid aid" "find_email w' i = find_email w i"
    by (simp_all add: find_user_def find_inbox_def find_domain_def is_suppressed_def
        is_emergency_stopped_def cache_get_def find_attachment_def find_email_def eqs)
  have sub: "current_subscription w' u = current_subscription w u" for u
    by (simp add: current_subscription_def eligible_subscriptions_def eqs)
  have plan: "current_plan w' u = current_plan w u" for u
    unfolding current_plan_def sub eqs ..
  have "feature_by_key w' k = feature_by_key w k" for k
    unfolding feature_by_key_def eqs ..
  then have "get_feature w' u k = get_feature w u k"
    unfolding get_feature_def plan eqs by simp
  then show "has_feature w' u k = has_feature w u k" by (simp add: has_feature_def)
  have "is_emergency_stopped E w' = is_emergency_stopped E w" "rollout_mode E w' = rollout_mode E w"
    "canary_matches w' u ib dm ak = canary_matches w u ib dm ak" "within_percentage E w' u = within_percentage E w u"
    unfolding is_emergency_stopped_def rollout_mode_def canary_matches_def active_canaries_def
      within_percentage_def rollout_percent_def raw_percent_def cache_get_def eqs
    by (rule refl)+
  then show "assert_rollout_eligible E w' u ib dm ak = assert_rollout_eligible E w u ib dm ak"
    unfolding assert_rollout_eligible_def by simp
qed

text \<open>Everything \<open>assertCanSend\<close> checks, as one predicate.\<close>

definition may_send :: "env \<Rightarrow> world \<Rightarrow> user \<Rightarrow> inbox \<Rightarrow> operation \<Rightarrow> uuid option \<Rightarrow> bool" where
  "may_send E w u ib op apiKey \<longleftrightarrow>
     \<not> is_emergency_stopped E w \<and> u_deleted_at u = None \<and> user_is_active u
     \<and> (ib_user_id ib = Some (u_id u) \<or> ib_user_id ib = None \<and> u_id u = [])
     \<and> ib_is_active ib \<and> ib_deleted_at ib = None \<and> \<not> inbox_is_expired E ib
     \<and> cf_outbound_enabled (e_cfg E) \<and> operation_flag (e_cfg E) op \<and> has_feature w u (feature_key op)
     \<and> (\<exists>d. find_domain w (ib_domain_id ib) = Some d \<and> dm_is_active d \<and> dm_outbound_enabled d
          \<and> fst (is_domain_ready E d None w)
          \<and> is_eligible E w u ib (Some (dm_id d)) apiKey)"

lemma assert_can_send_iff:
  "(\<exists>w'. assert_can_send E u ib op apiKey w = (Inr (), w')) \<longleftrightarrow> may_send E w u ib op apiKey"
proof (cases "find_domain w (ib_domain_id ib)")
  case None
  then show ?thesis by (simp add: assert_can_send_def may_send_def)
next
  case (Some d)
  obtain r w1 where r: "assert_domain_ready E d None w = (r, w1)" by force
  note same = directory_cong [OF directory_domain_ready [OF r]]
  show ?thesis
    using Some r
    by (cases r) (auto simp: assert_can_send_def may_send_def is_domain_ready_def is_eligible_def same
        split: sum.splits)
qed

lemma directory_can_send:
  assumes "assert_can_send E u ib op k w = (r, w')"
  shows "directory w' = directory w"
proof -
  have "w' = w \<or> (\<exists>d x. assert_domain_ready E d None w = (x, w'))"
    using assms
    by (auto simp: assert_can_send_def and_then_def split: if_splits option.splits prod.splits sum.splits)
  then show ?thesis by (auto dest: directory_domain_ready)
qed

lemma authorize_delivery_Inr:
  assumes "authorize_delivery E m u w = (Inr (), w')"
  shows "\<exists>ib. find_inbox w (om_inbox_id m) = Some ib \<and> may_send E w u ib (om_operation m) None"
    and "\<forall>r \<in> set (all_recipients m). \<not> is_suppressed E w r" and "directory w' = directory w"
proof -
  obtain ib w1 where ib: "find_inbox w (om_inbox_id m) = Some ib"
    and can: "assert_can_send E u ib (om_operation m) None w = (Inr (), w1)"
    and rec: "assert_recipients_allowed E (all_recipients m) (Some u) w1 = (Inr (), w')"
    using assms by (auto simp: authorize_delivery_def and_then_Inr_iff split: option.splits)
  note d = directory_can_send [OF can]
  note r = assert_recipients_allowed_Inr [OF rec]
  from can assert_can_send_iff have "may_send E w u ib (om_operation m) None" by blast
  with ib show "\<exists>ib. find_inbox w (om_inbox_id m) = Some ib \<and> may_send E w u ib (om_operation m) None" by blast
  show "\<forall>r \<in> set (all_recipients m). \<not> is_suppressed E w r" using r directory_cong(5) [OF d] by simp
  show "directory w' = directory w" using r d by simp
qed

lemma may_send_cong:
  assumes "directory w' = directory w" and "w_domain_auths w' = w_domain_auths w"
  shows "may_send E w' u ib op k = may_send E w u ib op k"
proof -
  have "fst (is_domain_ready E d p w') = fst (is_domain_ready E d p w)" for d p
    using assms(2)
    by (simp add: is_domain_ready_def assert_domain_ready_def ensure_record_def Let_def split: option.splits)
  then show ?thesis
    unfolding may_send_def is_eligible_def by (simp add: directory_cong [OF assms(1)])
qed

lemma begin_attempt_domain_auths [simp]: "w_domain_auths (begin_attempt E m w) = w_domain_auths w"
  by (simp add: begin_attempt_def record_attempt_started_def save_reservation_def
      attempt_start_def save_attempt_def split: option.splits)

lemma select_loop_cong:
  assumes "directory w' = directory w"
  shows "select_loop E w' eid rc n ids = select_loop E w eid rc n ids"
  by (induction ids arbitrary: n)
     (simp_all only: select_loop.simps directory_cong(8) [OF assms])

lemma forward_attachments_cong:
  assumes "directory w' = directory w"
  shows "forward_attachments E m w' = forward_attachments E m w"
  unfolding forward_attachments_def select_for_forward_def select_loop_cong [OF assms] directory_cong(9) [OF assms]
  by (rule refl)

lemma begin_attempt_reservations:
  "w_reservations (begin_attempt E m w) = w_reservations (record_attempt_started E m w)"
  by (simp add: begin_attempt_def)

lemma record_attempt_started_cong:
  "w_reservations w' = w_reservations w \<Longrightarrow>
     w_reservations (record_attempt_started E m w') = w_reservations (record_attempt_started E m w)"
  by (simp add: record_attempt_started_def find_reservation_def save_reservation_def split: option.splits)

lemma submittable_submit: "submittable E w m atts w1 \<Longrightarrow> deliver_claimed E tr mid m w = submit E tr mid m atts w1"
  by (auto simp: submittable_def deliver_claimed_def)

lemma deliver_submits:
  assumes "deliver E tr mid w = (je, Some p, w')"
  obtains m u ib atts w1 where "\<not> is_emergency_stopped E w"
    "find_message w mid = Some m" "om_state m = Queued"
    "find_user w (om_user_id m) = Some u" "find_inbox w (om_inbox_id m) = Some ib"
    "may_send E w u ib (om_operation m) None"
    "\<forall>r \<in> set (all_recipients m). \<not> is_suppressed E w r"
    "forward_attachments E (claimed_row E m) w = Inr atts"
    "p = message_data (claimed_row E m) atts"
    "\<And>i. find_message w1 i = (if i = mid then Some (claimed_row E m) else find_message w i)"
    "(je, Some p, w') = submit E tr mid (claimed_row E m) atts w1"
    "w_usages w1 = w_usages w"
    "w_reservations w1 = w_reservations (record_attempt_started E (claimed_row E m) w)"
    "\<And>tr'. deliver E tr' mid w = submit E tr' mid (claimed_row E m) atts w1"
proof -
  have go: "\<not> is_emergency_stopped E w" using assms by (auto simp: deliver_def)
  obtain c w1 where c: "claim E mid w = (c, w1)" by force
  with go assms obtain m' where m': "c = Some m'"
    and run: "deliver_claimed E tr mid m' (begin_attempt E m' w1) = (je, Some p, w')"
    by (cases c) (auto simp: deliver_def)
  from c m' obtain m where m: "find_message w mid = Some m" "om_state m = Queued" "m' = claimed_row E m"
    and w1: "w1 = snd (update_message_where mid (\<lambda>r. om_state r = Queued) (\<lambda>r. claimed_row E r) w)"
    and f: "\<And>i. find_message w1 i = (if i = mid then Some m' else find_message w i)"
    by (auto elim: claim_Some)
  let ?w2 = "begin_attempt E m' w1"
  have dir: "directory ?w2 = directory w" by (simp add: w1)
  have auths: "w_domain_auths ?w2 = w_domain_auths w"
    by (simp add: w1 update_message_where_def split: prod.splits)
  show thesis
  proof (rule deliver_claimed_cases [of ?w2 E tr mid m'])
    fix je' code msg v
    assume "deliver_claimed E tr mid m' ?w2 = (je', None, snd (mark_failed E mid m' code msg None False PermanentFailure False v))"
    with run show thesis by simp
  next
    fix atts v
    assume s: "submittable E ?w2 m' atts v" "w_messages v = w_messages ?w2"
      "deliver_claimed E tr mid m' ?w2 = submit E tr mid m' atts v"
    then obtain u where u: "find_user ?w2 (om_user_id m') = Some u"
      and auth: "authorize_delivery E m' u ?w2 = (Inr (), v)" and fwd: "forward_attachments E m' v = Inr atts"
      by (auto simp: submittable_def)
    note a = authorize_delivery_Inr [OF auth]
    from a(1) obtain ib where ib: "find_inbox ?w2 (om_inbox_id m') = Some ib"
      "may_send E ?w2 u ib (om_operation m') None" by blast
    have fv: "find_message v i = find_message w1 i" for i
      using s(2) by (simp add: find_message_def)
    have "p = message_data m' atts" using run s(3) submit_payload [of E tr mid m' atts v] by simp
    moreover have "\<forall>r \<in> set (all_recipients m). \<not> is_suppressed E w r"
      using a(2) directory_cong(5) [OF dir] by (simp add: m(3) claimed_row_def all_recipients_def)
    moreover have "find_user w (om_user_id m) = Some u" "find_inbox w (om_inbox_id m) = Some ib"
      using u ib(1) directory_cong(1,2) [OF dir] by (simp_all add: m(3) claimed_row_def)
    moreover have "may_send E w u ib (om_operation m) None"
      using ib(2) may_send_cong [OF dir auths] by (simp add: m(3) claimed_row_def)
    moreover have "forward_attachments E m' w = Inr atts"
      using fwd forward_attachments_cong [of v w] a(3) dir by simp
    moreover have "(je, Some p, w') = submit E tr mid m' atts v" using run s(3) by simp
    moreover have "deliver E tr' mid w = submit E tr' mid m' atts v" for tr'
      using go c m' submittable_submit [OF s(1), of tr' mid] by (simp add: deliver_def)
    moreover have "w_usages v = w_usages w" "w_reservations v = w_reservations (record_attempt_started E m' w)"
    proof -
      have "w_reservations w1 = w_reservations w" by (simp add: w1)
      then show "w_reservations v = w_reservations (record_attempt_started E m' w)"
        using authorize_delivery_messages(3) [OF auth] begin_attempt_reservations [of E m' w1]
          record_attempt_started_cong [of w1 w E m'] by simp
      show "w_usages v = w_usages w"
        using authorize_delivery_messages(4) [OF auth] by (simp add: w1)
    qed
    ultimately show thesis using that [of m u ib atts v] go m f fv by auto
  qed
qed

section \<open>Counting submissions\<close>

text \<open>
  The job of one message runs again and again, each time with its own environment and its own
  transport behaviour.
\<close>

fun run_job :: "uuid \<Rightarrow> (env \<times> transport) list \<Rightarrow> world \<Rightarrow> nat \<times> world" where
  "run_job mid [] w = (0, w)"
| "run_job mid ((E, tr) # rs) w =
     (case deliver E tr mid w of (je, p, w1) \<Rightarrow>
        (case run_job mid rs w1 of (n, w2) \<Rightarrow> ((if p = None then n else Suc n), w2)))"

lemma deliver_submission_state:
  assumes "deliver E tr mid w = (je, Some p, w')" and "find_message w mid = Some m"
  obtains m' where "find_message w' mid = Some m'" "om_attempt_count m' = om_attempt_count m + 1"
    "om_state m' = Queued \<Longrightarrow> om_attempt_count m' < tries E"
proof -
  from assms(1) obtain atts w1 where
    f: "\<And>i. find_message w1 i = (if i = mid then Some (claimed_row E m) else find_message w i)" and
    s: "(je, Some p, w') = submit E tr mid (claimed_row E m) atts w1"
    by (rule deliver_submits) (use assms(2) in auto)
  let ?m' = "submitted_row E (claimed_row E m) (tr (message_data (claimed_row E m) atts)) (claimed_row E m)"
  have w': "w' = snd (snd (submit E tr mid (claimed_row E m) atts w1))" by (simp flip: s)
  have "find_message w' mid = Some ?m'"
    unfolding w' by (simp add: find_submit f claimed_row_def)
  moreover have "om_attempt_count ?m' = om_attempt_count m + 1"
    by (simp add: submitted_row_def in_flight_row_def claimed_row_def split: sum.splits)
  moreover have "om_state ?m' = Queued \<Longrightarrow> om_attempt_count ?m' < tries E"
    by (auto simp: submitted_row_def in_flight_row_def claimed_row_def settled_row_def message_rows
        split: sum.splits if_splits)
  ultimately show thesis by (rule that)
qed

lemma deliver_no_submission:
  assumes "deliver E tr mid w = (je, None, w')" and "find_message w mid = Some m"
  obtains m' where "find_message w' mid = Some m'" "om_state m' = Queued \<Longrightarrow> m' = m"
proof (cases "is_emergency_stopped E w")
  case True
  with assms show thesis by (intro that [of m]) (auto simp: deliver_def)
next
  case False
  obtain c w1 where c: "claim E mid w = (c, w1)" by force
  show thesis
  proof (cases c)
    case None
    with c assms False show thesis using claim_None(1) [of E mid w w1] by (intro that [of m]) (auto simp: deliver_def)
  next
    case (Some m')
    with c obtain n where n: "find_message w mid = Some n" "m' = claimed_row E n"
      and f: "\<And>i. find_message w1 i = (if i = mid then Some m' else find_message w i)"
      by (auto elim: claim_Some)
    let ?w2 = "begin_attempt E m' w1"
    have run: "deliver_claimed E tr mid m' ?w2 = (je, None, w')" using assms(1) False c Some by (simp add: deliver_def)
    show thesis
    proof (rule deliver_claimed_cases [of ?w2 E tr mid m'])
      fix je' code msg v
      assume v: "w_messages v = w_messages ?w2" "deliver_claimed E tr mid m' ?w2
        = (je', None, snd (mark_failed E mid m' code msg None False PermanentFailure False v))"
      have "find_message v mid = Some m'" using f [of mid] v(1) by (simp add: find_message_def)
      then have "find_message w' mid = Some (failed_row E code msg None m' m')"
        using run v(2) find_mark_failed [of E mid m' code msg None False PermanentFailure False v mid] n(2)
        by (simp add: claimed_row_def)
      then show thesis by (rule that) (simp add: failed_row_def)
    next
      fix atts v assume "deliver_claimed E tr mid m' ?w2 = submit E tr mid m' atts v"
      with run submit_payload [of E tr mid m' atts v] show thesis by simp
    qed
  qed
qed

lemma deliver_needs_queued:
  assumes "deliver E tr mid w = (je, Some p, w')"
  shows "\<exists>m. find_message w mid = Some m \<and> om_state m = Queued"
  using assms by (rule deliver_submits) blast

text \<open>
  Whatever the transport answers, the submissions of a message stay within its remaining
  attempts; a message whose count is already exhausted (a manual retry) gets one more.
\<close>

lemma run_job_bound:
  assumes "find_message w mid = Some m" and "\<forall>(E, tr) \<in> set rs. tries E \<le> N"
  shows "int (fst (run_job mid rs w)) \<le> (if om_state m = Queued then max 1 (N - om_attempt_count m) else 0)"
  using assms
proof (induction rs arbitrary: w m)
  case Nil
  then show ?case by (simp add: le_max_iff_disj)
next
  case (Cons r rs)
  obtain E tr where r: "r = (E, tr)" by force
  obtain je p w1 where d: "deliver E tr mid w = (je, p, w1)" by (metis prod_cases3)
  have N: "tries E \<le> N" using Cons.prems(2) r by simp
  have rest: "\<forall>(E, tr) \<in> set rs. tries E \<le> N" using Cons.prems(2) by simp
  show ?case
  proof (cases p)
    case None
    with d Cons.prems(1) obtain m1 where m1: "find_message w1 mid = Some m1" "om_state m1 = Queued \<Longrightarrow> m1 = m"
      by (auto elim: deliver_no_submission)
    from Cons.IH [OF m1(1) rest] m1(2) show ?thesis
      by (auto simp: r d None split: prod.splits if_splits)
  next
    case (Some q)
    with d Cons.prems(1) obtain m1 where m1: "find_message w1 mid = Some m1"
      "om_attempt_count m1 = om_attempt_count m + 1" "om_state m1 = Queued \<Longrightarrow> om_attempt_count m1 < tries E"
      by (auto elim: deliver_submission_state)
    have "om_state m = Queued" using deliver_needs_queued d Some Cons.prems(1) by fastforce
    with Cons.IH [OF m1(1) rest] m1 N show ?thesis
      by (auto simp: r d Some split: prod.splits if_splits)
  qed
qed

end
