(* ===== verification/Message_Actions.thy ===== *)
theory Message_Actions
  imports Delivery_Facts
begin

text \<open>
  The actions a user takes on one of their messages (\<open>app/Actions/Outbound\<close>): cancel, retry,
  delete (hide) and unschedule. Each runs in one transaction; the exceptions are its error
  results.
\<close>

section \<open>Shared look-ups\<close>

text \<open>\<open>whereKey(id)->where('user_id', ..)->first()\<close>.\<close>

definition owned_message :: "world \<Rightarrow> uuid \<Rightarrow> user \<Rightarrow> outbound_message option" where
  "owned_message w mid u =
     (case find_message w mid of
        Some m \<Rightarrow> (if om_user_id m = u_id u then Some m else None)
      | None \<Rightarrow> None)"

definition not_found_error :: exn where
  "not_found_error = OutboundSendException ''not_found'' ''Outbound message not found.'' 404"

text \<open>\<open>OutboundScheduleFieldHelper::cleared\<close>.\<close>

definition clear_schedule :: "outbound_message \<Rightarrow> outbound_message" where
  "clear_schedule m =
     m\<lparr>om_scheduled_at := None, om_scheduled_timezone := None, om_scheduled_by_user_id := None,
       om_schedule_version := 0, om_scheduled_claimed_at := None, om_schedule_defer_reason := None,
       om_schedule_next_attempt_at := None\<rparr>"

definition opt_time :: "env \<Rightarrow> time option \<Rightarrow> php" where
  "opt_time E t = (case t of None \<Rightarrow> PNull | Some x \<Rightarrow> PStr (e_iso8601 E x))"

section \<open>Cancel\<close>

definition cancel_error :: exn where
  "cancel_error = OutboundSendException ''cancel_not_allowed'' ''Only queued or scheduled messages can be cancelled.'' 422"

definition cancel_body :: "env \<Rightarrow> uuid \<Rightarrow> user \<Rightarrow> world \<Rightarrow> (world, outbound_message) outcome" where
  "cancel_body E mid u w =
     (case owned_message w mid u of
        None \<Rightarrow> (Inl not_found_error, w)
      | Some m \<Rightarrow>
          if om_state m \<notin> {Queued, Scheduled} then (Inl cancel_error, w)
          else
            let previous = om_state m;
                schedule_metadata = (if previous = Scheduled then
                   [(''scheduled_at_utc'', opt_time E (om_scheduled_at m)),
                    (''scheduled_timezone'', opt_str (om_scheduled_timezone m)),
                    (''schedule_version'', PInt (om_schedule_version m))] else []);
                (n, w1) = update_message_where mid (\<lambda>r. om_state r = previous)
                  (\<lambda>r. let r' = r\<lparr>om_state := Cancelled, om_cancelled_at := Some (e_now E), om_updated_at := e_now E\<rparr>
                       in if previous = Scheduled then clear_schedule r' else r') w
            in if n \<noteq> 1 then (Inl cancel_error, w1)
               else case find_message w1 mid of
                 None \<Rightarrow> (Inl TypeError, w1)
               | Some fresh \<Rightarrow>
                  let w2 = (if previous = Queued
                            then release_reservation E mid ''cancelled_before_transport'' (Some (u_id u)) w1 else w1);
                      w3 = audit_write E ''outbound.message_cancelled'' (Some (u_id u)) (auditable_message fresh)
                             (state_payload previous) (state_payload Cancelled)
                             (Some ([(''operation'', PStr (operation_value (om_operation fresh))),
                                     (''inbox_id'', PStr (om_inbox_id fresh))] @ schedule_metadata)) w2;
                      w4 = notify_user E u ''outbound.cancelled'' (Some fresh) [] (''cancelled:'' @ om_id fresh) w3
                  in (Inr fresh, w4))"

definition cancel_message :: "env \<Rightarrow> uuid \<Rightarrow> user \<Rightarrow> world \<Rightarrow> (world, outbound_message) outcome" where
  "cancel_message E mid u w = transaction (cancel_body E mid u) w"

section \<open>Delete\<close>

definition already_deleted_error :: exn where
  "already_deleted_error = OutboundSendException ''already_deleted'' ''Outbound message already deleted.'' 409"

definition delete_body :: "env \<Rightarrow> uuid \<Rightarrow> user \<Rightarrow> world \<Rightarrow> (world, outbound_message) outcome" where
  "delete_body E mid u w =
     (case owned_message w mid u of
        None \<Rightarrow> (Inl not_found_error, w)
      | Some m \<Rightarrow>
          if is_user_deleted m then (Inl already_deleted_error, w)
          else and_then
            (if om_state m \<in> {Queued, Scheduled} then cancel_message E mid u w else (Inr m, w))
            (\<lambda>m' w1.
              let (n, w2) = update_message_where mid (\<lambda>r. om_user_deleted_at r = None)
                    (\<lambda>r. r\<lparr>om_user_deleted_at := Some (e_now E), om_updated_at := e_now E\<rparr>) w1
              in if n \<noteq> 1 then (Inl already_deleted_error, w2)
                 else case find_message w2 mid of
                   None \<Rightarrow> (Inl TypeError, w2)
                 | Some fresh \<Rightarrow> (Inr fresh,
                     audit_write E ''outbound.message_user_deleted'' (Some (u_id u)) (auditable_message fresh)
                       (Some [(''user_deleted_at'', PNull)])
                       (Some [(''user_deleted_at'', opt_time E (om_user_deleted_at fresh))])
                       (Some [(''state_before_hide'', PStr (state_value (om_state m))),
                              (''state'', PStr (state_value (om_state fresh))),
                              (''cancelled_first'', PBool (om_state m \<in> {Queued, Scheduled}))]) w2)))"

definition delete_message :: "env \<Rightarrow> uuid \<Rightarrow> user \<Rightarrow> world \<Rightarrow> (world, outbound_message) outcome" where
  "delete_message E mid u w = transaction (delete_body E mid u) w"

section \<open>Retry\<close>

definition non_retryable :: "string list" where
  "non_retryable =
     [''attachment_unsafe'', ''attachment_not_found'', ''attachment_deleted'', ''attachment_unavailable'',
      ''user_inactive'', ''inbox_inactive'', ''domain_outbound_disabled'', ''entitlement_denied'',
      ''invalid_config'']"

definition retry_error :: "string \<Rightarrow> exn" where
  "retry_error msg = OutboundSendException ''retry_not_allowed'' msg 422"

text \<open>The selection a forward repeats before it is queued again.\<close>

definition recheck_forward :: "env \<Rightarrow> outbound_message \<Rightarrow> world \<Rightarrow> exn + unit" where
  "recheck_forward E m w =
     (if om_operation m = OpForward \<and> ors (om_attachment_ids m) \<noteq> [] then
        (case (case om_source_email_id m of None \<Rightarrow> None | Some i \<Rightarrow> find_email w i) of
           None \<Rightarrow> Inl (OutboundSendException ''email_not_found'' ''The original email was not found.'' 404)
         | Some em \<Rightarrow>
            (case select_for_forward E w em (ors (om_attachment_ids m)) True of
               Inl e \<Rightarrow> Inl e | Inr _ \<Rightarrow> Inr ()))
      else Inr ())"

definition retried_row :: "env \<Rightarrow> outbound_message \<Rightarrow> outbound_message" where
  "retried_row E r =
     r\<lparr>om_state := Queued, om_queued_at := Some (e_now E), om_failed_at := None,
       om_failure_code := None, om_failure_message := None, om_updated_at := e_now E\<rparr>"

definition retry_body :: "env \<Rightarrow> uuid \<Rightarrow> user \<Rightarrow> uuid option \<Rightarrow> world \<Rightarrow> (world, outbound_message) outcome" where
  "retry_body E mid u apiKey w =
     (case owned_message w mid u of
        None \<Rightarrow> (Inl not_found_error, w)
      | Some m \<Rightarrow>
          if om_state m \<noteq> Failed then (Inl (retry_error ''Only failed messages can be retried.''), w)
          else if (case om_failure_code m of Some c \<Rightarrow> c | None \<Rightarrow> []) \<in> set non_retryable
            then (Inl (retry_error ''This failure category cannot be retried.''), w)
          else case find_inbox w (om_inbox_id m) of
            None \<Rightarrow> (Inl TypeError, w)
          | Some ib \<Rightarrow>
              and_then (assert_can_send E u ib (om_operation m) apiKey w) (\<lambda>_ w1.
              and_then (recheck_forward E m w1, w1) (\<lambda>_ w2.
                let (n, w3) = update_message_where mid (\<lambda>r. om_state r = Failed) (retried_row E) w2
                in if n \<noteq> 1 then (Inl (retry_error ''Only failed messages can be retried.''), w3)
                   else case find_message w3 mid of
                     None \<Rightarrow> (Inl TypeError, w3)
                   | Some fresh \<Rightarrow> (Inr fresh,
                       audit_write E ''outbound.manual_retry_requested'' (Some (u_id u)) (auditable_message fresh)
                         (state_payload Failed) (state_payload Queued)
                         (Some [(''operation'', PStr (operation_value (om_operation fresh))),
                                (''inbox_id'', PStr (om_inbox_id fresh)),
                                (''api_key_id'', opt_str apiKey),
                                (''attempt'', PInt (om_attempt_count fresh))]) w3))))"

definition retry_message :: "env \<Rightarrow> uuid \<Rightarrow> user \<Rightarrow> uuid option \<Rightarrow> world \<Rightarrow> (world, outbound_message) outcome" where
  "retry_message E mid u apiKey w =
     and_then (transaction (retry_body E mid u apiKey) w)
       (\<lambda>m w1. (Inr m, dispatch_job (DeliverOutboundMessageJob mid) w1))"

section \<open>Unschedule\<close>

definition schedule_error :: "string \<Rightarrow> string \<Rightarrow> nat \<Rightarrow> exn" where
  "schedule_error code msg status = OutboundSendException code msg status"

definition unschedule_body :: "env \<Rightarrow> user \<Rightarrow> uuid \<Rightarrow> int \<Rightarrow> world \<Rightarrow> (world, outbound_message) outcome" where
  "unschedule_body E u mid version w =
     (case owned_message w mid u of
        None \<Rightarrow> (Inl not_found_error, w)
      | Some m \<Rightarrow>
          if om_state m \<noteq> Scheduled
            then (Inl (schedule_error ''message_not_scheduled'' ''This message is not scheduled.'' 422), w)
          else if om_schedule_version m \<noteq> version
            then (Inl (schedule_error ''schedule_conflict'' ''This schedule has changed. Refresh and try again.'' 409), w)
          else if om_scheduled_claimed_at m \<noteq> None
            then (Inl (schedule_error ''schedule_already_dispatched'' ''This scheduled message is being dispatched.'' 409), w)
          else
            let m' = (clear_schedule (m\<lparr>om_state := Draft\<rparr>))\<lparr>om_updated_at := e_now E\<rparr>
            in (Inr m',
                audit_write E ''outbound.schedule_cancelled'' (Some (u_id u)) (auditable_message m')
                  (state_payload Scheduled) (state_payload Draft)
                  (Some [(''message_id'', PStr (om_id m)),
                         (''scheduled_at_utc'', opt_time E (om_scheduled_at m)),
                         (''scheduled_timezone'', opt_str (om_scheduled_timezone m)),
                         (''schedule_version'', PInt version),
                         (''operation'', PStr (operation_value (om_operation m)))])
                  (save_message mid m' w)))"

definition unschedule_message :: "env \<Rightarrow> user \<Rightarrow> uuid \<Rightarrow> int \<Rightarrow> world \<Rightarrow> (world, outbound_message) outcome" where
  "unschedule_message E u mid version w = transaction (unschedule_body E u mid version) w"

section \<open>Lemmas\<close>

lemma owned_message_Some:
  "owned_message w mid u = Some m \<longleftrightarrow> find_message w mid = Some m \<and> om_user_id m = u_id u"
  by (auto simp: owned_message_def split: option.splits if_splits)

lemma transaction_Inl:
  "transaction f w = (Inl e, w') \<Longrightarrow> w_messages w' = w_messages w \<and> find_message w' i = find_message w i
     \<and> find_reservation w' i = find_reservation w i \<and> w_jobs w' = w_jobs w \<and> w_audit w' = w_audit w"
  by (auto simp: transaction_def find_message_def find_reservation_def split: prod.splits sum.splits)

text \<open>The successful cancel in closed form.\<close>

definition cancelled_row :: "env \<Rightarrow> outbound_message \<Rightarrow> outbound_message" where
  "cancelled_row E m =
     (let r = m\<lparr>om_state := Cancelled, om_cancelled_at := Some (e_now E), om_updated_at := e_now E\<rparr>
      in if om_state m = Scheduled then clear_schedule r else r)"

lemma cancelled_row_simps [simp]:
  "om_state (cancelled_row E m) = Cancelled" "om_user_id (cancelled_row E m) = om_user_id m"
  "om_user_deleted_at (cancelled_row E m) = om_user_deleted_at m" "om_id (cancelled_row E m) = om_id m"
  by (simp_all add: cancelled_row_def Let_def clear_schedule_def)

lemma cancel_message_iff:
  "(\<exists>w' m'. cancel_message E mid u w = (Inr m', w')) \<longleftrightarrow>
     (\<exists>m. owned_message w mid u = Some m \<and> om_state m \<in> {Queued, Scheduled})"
  (is "?L \<longleftrightarrow> ?R")
proof
  assume ?L
  then show ?R
    by (auto simp: cancel_message_def transaction_Inr_iff cancel_body_def split: option.splits if_splits)
next
  assume ?R
  then obtain m where m: "find_message w mid = Some m" "om_user_id m = u_id u" "om_state m \<in> {Queued, Scheduled}"
    by (auto simp: owned_message_Some)
  let ?P = "\<lambda>r. om_state r = om_state m"
  let ?f = "\<lambda>r. let r' = r\<lparr>om_state := Cancelled, om_cancelled_at := Some (e_now E), om_updated_at := e_now E\<rparr>
                in if om_state m = Scheduled then clear_schedule r' else r'"
  obtain n w1 where up: "update_message_where mid ?P ?f w = (n, w1)" by force
  with count_update_message [of mid ?P ?f w] m(1) have "n = 1" by simp
  moreover have "find_message w1 mid \<noteq> None"
    using find_update_message [of mid ?P ?f w mid] up m(1) by simp
  ultimately show ?L
    using m up owned_message_Some [of w mid u m]
    by (auto simp: cancel_message_def transaction_Inr_iff cancel_body_def Let_def)
qed

lemma cancel_message_Inr:
  assumes "cancel_message E mid u w = (Inr m', w')"
  obtains m where "find_message w mid = Some m" "om_user_id m = u_id u" "om_state m \<in> {Queued, Scheduled}"
    "m' = cancelled_row E m"
    "\<And>i. find_message w' i = (if i = mid then Some m' else find_message w i)"
    "\<And>i. find_reservation w' i =
       (if om_state m = Queued then find_reservation (release_reservation E mid ''cancelled_before_transport'' (Some (u_id u)) w) i
        else find_reservation w i)"
proof -
  obtain m where m: "find_message w mid = Some m" "om_user_id m = u_id u" "om_state m \<in> {Queued, Scheduled}"
    using assms cancel_message_iff [of E mid u w] by (auto simp: owned_message_Some)
  let ?P = "\<lambda>r. om_state r = om_state m"
  let ?f = "\<lambda>r. let r' = r\<lparr>om_state := Cancelled, om_cancelled_at := Some (e_now E), om_updated_at := e_now E\<rparr>
                in if om_state m = Scheduled then clear_schedule r' else r'"
  obtain n w1 where up: "update_message_where mid ?P ?f w = (n, w1)" by force
  have n: "n = 1" using count_update_message [of mid ?P ?f w] m(1) up by simp
  have f1: "find_message w1 i = (if i = mid then Some (cancelled_row E m) else find_message w i)" for i
    using find_update_message [of mid ?P ?f w i] up m(1)
    by (simp add: cancelled_row_def Let_def split: option.splits)
  have res1: "w_reservations w1 = w_reservations w" using update_message_where_frame(2) [of mid ?P ?f w] up by simp
  have run: "m' = cancelled_row E m \<and> w' = notify_user E u ''outbound.cancelled'' (Some m') [] (''cancelled:'' @ om_id m')
      (audit_write E ''outbound.message_cancelled'' (Some (u_id u)) (auditable_message m')
         (state_payload (om_state m)) (state_payload Cancelled)
         (Some ([(''operation'', PStr (operation_value (om_operation m'))), (''inbox_id'', PStr (om_inbox_id m'))]
           @ (if om_state m = Scheduled then
                   [(''scheduled_at_utc'', opt_time E (om_scheduled_at m)),
                    (''scheduled_timezone'', opt_str (om_scheduled_timezone m)),
                    (''schedule_version'', PInt (om_schedule_version m))] else [])))
         (if om_state m = Queued then release_reservation E mid ''cancelled_before_transport'' (Some (u_id u)) w1 else w1))"
    using assms m up n f1 [of mid] owned_message_Some [of w mid u m]
    by (auto simp: cancel_message_def transaction_Inr_iff cancel_body_def Let_def split: if_splits)
  have fr1: "find_reservation w1 i = find_reservation w i" for i using res1 by (simp add: find_reservation_def)
  have rel: "find_reservation (release_reservation E mid rs a w1) i = find_reservation (release_reservation E mid rs a w) i" for rs a i
    by (simp only: find_release reservation_status_def fr1)
  show thesis
  proof (rule that [of m])
    show "find_message w' i = (if i = mid then Some m' else find_message w i)" for i
      using run f1 by simp
    show "find_reservation w' i =
       (if om_state m = Queued then find_reservation (release_reservation E mid ''cancelled_before_transport'' (Some (u_id u)) w) i
        else find_reservation w i)" for i
      using run rel fr1 by simp
  qed (use m run in auto)
qed

text \<open>The moves of the four actions.\<close>

definition cancel_moves :: "message_state \<Rightarrow> message_state \<Rightarrow> bool" where
  "cancel_moves s t \<longleftrightarrow> s \<in> {Queued, Scheduled} \<and> t = Cancelled"

definition retry_moves :: "message_state \<Rightarrow> message_state \<Rightarrow> bool" where
  "retry_moves s t \<longleftrightarrow> s = Failed \<and> t = Queued"

definition unschedule_moves :: "message_state \<Rightarrow> message_state \<Rightarrow> bool" where
  "unschedule_moves s t \<longleftrightarrow> s = Scheduled \<and> t = Draft"

lemma moves_cancel: "moves_only mid cancel_moves w (snd (cancel_message E mid u w))"
proof (cases "cancel_message E mid u w")
  case (Pair r w')
  show ?thesis
  proof (cases r)
    case (Inl e)
    with Pair show ?thesis
      using transaction_Inl [of "cancel_body E mid u" w e w'] by (simp add: cancel_message_def moves_frame)
  next
    case (Inr m')
    with Pair obtain m where "find_message w mid = Some m" "om_state m \<in> {Queued, Scheduled}" "m' = cancelled_row E m"
      "\<And>i. find_message w' i = (if i = mid then Some m' else find_message w i)"
      by (auto elim: cancel_message_Inr)
    with Pair show ?thesis
      by (intro moves_point [of _ _ m']) (auto simp: cancel_moves_def)
  qed
qed

lemma delete_message_Inr:
  assumes "delete_message E mid u w = (Inr m', w')"
  obtains m where "find_message w mid = Some m" "om_user_id m = u_id u" "\<not> is_user_deleted m"
    "m' = (if om_state m \<in> {Queued, Scheduled} then cancelled_row E m else m)
            \<lparr>om_user_deleted_at := Some (e_now E), om_updated_at := e_now E\<rparr>"
    "\<And>i. find_message w' i = (if i = mid then Some m' else find_message w i)"
proof -
  obtain m where m: "find_message w mid = Some m" "om_user_id m = u_id u" "\<not> is_user_deleted m"
    using assms
    by (auto simp: delete_message_def transaction_Inr_iff delete_body_def owned_message_Some
        split: option.splits if_splits)
  let ?m1 = "if om_state m \<in> {Queued, Scheduled} then cancelled_row E m else m"
  let ?P = "\<lambda>r. om_user_deleted_at r = None"
  let ?f = "\<lambda>r. r\<lparr>om_user_deleted_at := Some (e_now E), om_updated_at := e_now E\<rparr>"
  obtain m1 w1 where one: "(if om_state m \<in> {Queued, Scheduled} then cancel_message E mid u w else (Inr m, w)) = (Inr m1, w1)"
    using assms m owned_message_Some [of w mid u m]
    by (simp only: delete_message_def transaction_Inr_iff delete_body_def option.case if_False not_False_eq_True
        simp_thms and_then_Inr_iff) blast
  have f1: "find_message w1 i = (if i = mid then Some ?m1 else find_message w i)" for i
  proof (cases "om_state m \<in> {Queued, Scheduled}")
    case True
    with one have "cancel_message E mid u w = (Inr m1, w1)" by simp
    then show ?thesis by (rule cancel_message_Inr) (use m True in auto)
  next
    case False
    with one m show ?thesis by simp
  qed
  have alive: "om_user_deleted_at ?m1 = None" using m(3) by (simp add: is_user_deleted_def)
  obtain n w2 where up: "update_message_where mid ?P ?f w1 = (n, w2)" by force
  have n: "n = 1" using count_update_message [of mid ?P ?f w1] up f1 [of mid] alive by simp
  have f2: "find_message w2 i = (if i = mid then Some (?f ?m1) else find_message w i)" for i
    using find_update_message [of mid ?P ?f w1 i] up f1 [of i] alive by (auto split: option.splits)
  have "m' = ?f ?m1 \<and> (\<exists>a b c. w' = audit_write E ''outbound.message_user_deleted'' (Some (u_id u)) (auditable_message m') a b c w2)"
    using assms m one up n f2 [of mid] owned_message_Some [of w mid u m]
    by (auto simp: delete_message_def transaction_Inr_iff delete_body_def)
  then show thesis using m f2 by (intro that [of m]) auto
qed

lemma moves_delete: "moves_only mid cancel_moves w (snd (delete_message E mid u w))"
proof (cases "delete_message E mid u w")
  case (Pair r w')
  show ?thesis
  proof (cases r)
    case (Inl e)
    with Pair show ?thesis
      using transaction_Inl [of "delete_body E mid u" w e w'] by (simp add: delete_message_def moves_frame)
  next
    case (Inr m')
    with Pair have "delete_message E mid u w = (Inr m', w')" by simp
    then obtain m where "find_message w mid = Some m"
      "m' = (if om_state m \<in> {Queued, Scheduled} then cancelled_row E m else m)
            \<lparr>om_user_deleted_at := Some (e_now E), om_updated_at := e_now E\<rparr>"
      "\<And>i. find_message w' i = (if i = mid then Some m' else find_message w i)"
      by (rule delete_message_Inr) blast
    with Pair show ?thesis
      by (intro moves_point [of _ _ m']) (auto simp: cancel_moves_def)
  qed
qed

lemma retry_body_Inr:
  assumes "retry_body E mid u k w = (Inr m', w')"
  obtains m ib w1 where "find_message w mid = Some m" "om_user_id m = u_id u" "om_state m = Failed"
    "find_inbox w (om_inbox_id m) = Some ib" "may_send E w u ib (om_operation m) k"
    "m' = retried_row E m"
    "\<And>i. find_message w' i = (if i = mid then Some m' else find_message w i)"
    "w_reservations w' = w_reservations w" "w_usages w' = w_usages w" "w_jobs w' = w_jobs w"
proof -
  obtain m where m: "find_message w mid = Some m" "om_user_id m = u_id u" "om_state m = Failed"
    using assms by (auto simp: retry_body_def owned_message_Some split: option.splits if_splits)
  obtain ib w1 where ib: "find_inbox w (om_inbox_id m) = Some ib"
    and can: "assert_can_send E u ib (om_operation m) k w = (Inr (), w1)"
    using assms m owned_message_Some [of w mid u m]
    by (auto simp: retry_body_def and_then_Inr_iff split: option.splits if_splits)
  note frame = assert_can_send_frame [OF can]
  have f0: "find_message w1 i = find_message w i" for i using frame(1) by (simp add: find_message_def)
  let ?P = "\<lambda>r. om_state r = Failed"
  obtain n w2 where up: "update_message_where mid ?P (retried_row E) w1 = (n, w2)" by force
  have n: "n = 1" using count_update_message [of mid ?P "retried_row E" w1] up f0 m by simp
  have f2: "find_message w2 i = (if i = mid then Some (retried_row E m) else find_message w i)" for i
    using find_update_message [of mid ?P "retried_row E" w1 i] up f0 m by (auto split: option.splits)
  have books: "w_reservations w2 = w_reservations w" "w_usages w2 = w_usages w" "w_jobs w2 = w_jobs w"
    using update_message_where_frame [of mid ?P "retried_row E" w1] up frame by simp_all
  have "m' = retried_row E m \<and> (\<exists>a b c. w' = audit_write E ''outbound.manual_retry_requested'' (Some (u_id u)) (auditable_message m') a b c w2)"
    using assms m ib can up n f2 [of mid] owned_message_Some [of w mid u m]
    by (auto simp: retry_body_def and_then_Inr_iff split: if_splits)
  moreover have "may_send E w u ib (om_operation m) k" using can assert_can_send_iff by blast
  ultimately show thesis using m ib f2 books by (intro that [of m ib]) auto
qed

lemma moves_retry: "moves_only mid retry_moves w (snd (retry_message E mid u k w))"
proof -
  obtain r w' where t: "transaction (retry_body E mid u k) w = (r, w')" by force
  have "moves_only mid retry_moves w w'"
  proof (cases r)
    case (Inl e)
    with t show ?thesis using transaction_Inl [of "retry_body E mid u k" w e w'] by (simp add: moves_frame)
  next
    case (Inr m')
    with t obtain m where "find_message w mid = Some m" "om_state m = Failed" "m' = retried_row E m"
      "\<And>i. find_message w' i = (if i = mid then Some m' else find_message w i)"
      by (auto simp: transaction_Inr_iff elim: retry_body_Inr)
    then show ?thesis by (intro moves_point [of _ _ m']) (auto simp: retried_row_def retry_moves_def)
  qed
  moreover have "find_message (dispatch_job j w') i = find_message w' i" for i j by (simp add: find_message_def)
  ultimately show ?thesis
    using t by (cases r) (auto simp: retry_message_def moves_only_def)
qed

lemma unschedule_message_Inr:
  assumes "unschedule_message E u mid version w = (Inr m', w')"
  obtains m where "find_message w mid = Some m" "om_user_id m = u_id u" "om_state m = Scheduled"
    "om_schedule_version m = version" "om_scheduled_claimed_at m = None"
    "m' = (clear_schedule (m\<lparr>om_state := Draft\<rparr>))\<lparr>om_updated_at := e_now E\<rparr>"
    "\<And>i. find_message w' i = (if i = mid then Some m' else find_message w i)"
  using assms
  by (auto simp: unschedule_message_def transaction_Inr_iff unschedule_body_def owned_message_Some Let_def
      find_save_message split: option.splits if_splits)

lemma moves_unschedule: "moves_only mid unschedule_moves w (snd (unschedule_message E u mid version w))"
proof (cases "unschedule_message E u mid version w")
  case (Pair r w')
  show ?thesis
  proof (cases r)
    case (Inl e)
    with Pair show ?thesis
      using transaction_Inl [of "unschedule_body E u mid version" w e w'] by (simp add: unschedule_message_def moves_frame)
  next
    case (Inr m')
    with Pair obtain m where "find_message w mid = Some m" "om_state m = Scheduled" "om_state m' = Draft"
      "\<And>i. find_message w' i = (if i = mid then Some m' else find_message w i)"
      by (auto elim!: unschedule_message_Inr simp: clear_schedule_def)
    with Pair show ?thesis by (intro moves_point [of _ _ m']) (auto simp: unschedule_moves_def)
  qed
qed

end
