(* ===== verification/Pipeline.thy ===== *)
theory Pipeline
  imports Message_Actions
begin

text \<open>
  The pipeline as an event system: an event is one run of the delivery job or one user
  action, each with the environment it runs in, and the events interleave freely.
\<close>

datatype event =
    EvDeliver env transport uuid
  | EvCancel env uuid user
  | EvDelete env uuid user
  | EvRetry env uuid user "uuid option"
  | EvUnschedule env user uuid int

fun apply_event :: "event \<Rightarrow> world \<Rightarrow> world" where
  "apply_event (EvDeliver E tr mid) w = snd (snd (deliver E tr mid w))"
| "apply_event (EvCancel E mid u) w = snd (cancel_message E mid u w)"
| "apply_event (EvDelete E mid u) w = snd (delete_message E mid u w)"
| "apply_event (EvRetry E mid u k) w = snd (retry_message E mid u k w)"
| "apply_event (EvUnschedule E u mid v) w = snd (unschedule_message E u mid v w)"

text \<open>What an event hands to the transport, with the id of the message.\<close>

fun submitted_by :: "event \<Rightarrow> world \<Rightarrow> (uuid \<times> outbound_message_data) list" where
  "submitted_by (EvDeliver E tr mid) w =
     (case fst (snd (deliver E tr mid w)) of None \<Rightarrow> [] | Some p \<Rightarrow> [(mid, p)])"
| "submitted_by _ w = []"

fun submissions :: "event list \<Rightarrow> world \<Rightarrow> (uuid \<times> outbound_message_data) list" where
  "submissions [] w = []"
| "submissions (e # es) w = submitted_by e w @ submissions es (apply_event e w)"

text \<open>The message an event is about, and what it may do with its state; a run of the job goes through \<open>Sending\<close>.\<close>

fun event_message :: "event \<Rightarrow> uuid" where
  "event_message (EvDeliver E tr mid) = mid"
| "event_message (EvCancel E mid u) = mid"
| "event_message (EvDelete E mid u) = mid"
| "event_message (EvRetry E mid u k) = mid"
| "event_message (EvUnschedule E u mid v) = mid"

fun event_moves :: "event \<Rightarrow> message_state \<Rightarrow> message_state \<Rightarrow> bool" where
  "event_moves (EvDeliver E tr mid) = delivery_moves"
| "event_moves (EvCancel E mid u) = cancel_moves"
| "event_moves (EvDelete E mid u) = cancel_moves"
| "event_moves (EvRetry E mid u k) = retry_moves"
| "event_moves (EvUnschedule E u mid v) = unschedule_moves"

lemma apply_event_moves: "moves_only (event_message e) (event_moves e) w (apply_event e w)"
  by (cases e) (simp_all add: moves_deliver moves_cancel moves_delete moves_retry moves_unschedule)

lemmas action_moves = cancel_moves_def retry_moves_def unschedule_moves_def

lemma event_moves_lifecycle: "event_moves e s t \<Longrightarrow> lifecycle s t"
  by (cases e) (auto simp: delivery_moves_lifecycle action_moves intro: lifecycle_edges)

text \<open>Each event makes one allowed transition at most, the job one more after the claim.\<close>

lemma event_moves_allowed:
  "event_moves e s t \<Longrightarrow> can_transition_to s t
     \<or> (\<exists>E tr. e = EvDeliver E tr (event_message e)) \<and> can_transition_to s Sending \<and> can_transition_to Sending t"
  by (cases e) (auto simp: delivery_moves_def action_moves can_transition_to_def)

lemma apply_event_conforms: "conforms w (apply_event e w)"
  by (rule moves_conforms [OF apply_event_moves event_moves_lifecycle])

interpretation pipeline: message_operation apply_event
  by unfold_locales (rule apply_event_conforms)

lemma closed_event:
  assumes "find_message w mid = Some m" and "om_state m \<in> {Sent, Delivered, Cancelled}"
  shows "\<exists>m'. find_message (apply_event e w) mid = Some m' \<and> om_state m' = om_state m"
proof -
  have "\<not> event_moves e (om_state m) t" for t
    using assms(2) by (cases e) (auto simp: delivery_moves_def action_moves)
  then show ?thesis using apply_event_moves [of e w] assms(1) unfolding moves_only_def by blast
qed

lemma closed_events:
  assumes "find_message w mid = Some m" and "om_state m \<in> {Sent, Delivered, Cancelled}"
  shows "\<exists>m'. find_message (fold apply_event es w) mid = Some m' \<and> om_state m' = om_state m"
  using assms
proof (induction es arbitrary: w m)
  case (Cons e es)
  from closed_event [OF Cons.prems] obtain m1 where m1: "find_message (apply_event e w) mid = Some m1" "om_state m1 = om_state m" by blast
  from Cons.IH [OF m1(1)] m1(2) Cons.prems(2) show ?case by simp
qed simp

lemma submitted_by_queued:
  assumes "(mid, p) \<in> set (submitted_by e w)"
  shows "\<exists>m. find_message w mid = Some m \<and> om_state m = Queued"
proof (cases e)
  case (EvDeliver E tr i)
  with assms have "i = mid" and sub: "fst (snd (deliver E tr mid w)) = Some p"
    by (auto split: option.splits)
  obtain je q w' where "deliver E tr mid w = (je, q, w')" by (metis prod_cases3)
  with sub show ?thesis using deliver_needs_queued [of E tr mid w je p w'] by simp
qed (use assms in auto)

lemma submissions_final:
  assumes "find_message w mid = Some m" and "om_state m \<in> {Sent, Delivered, Cancelled}"
  shows "mid \<notin> fst ` set (submissions es w)"
  using assms
proof (induction es arbitrary: w m)
  case (Cons e es)
  obtain m' where m': "find_message (apply_event e w) mid = Some m'" "om_state m' = om_state m"
    using closed_event [OF Cons.prems] by blast
  have "mid \<notin> fst ` set (submitted_by e w)"
    using submitted_by_queued [of mid _ e w] Cons.prems by force
  moreover have "mid \<notin> fst ` set (submissions es (apply_event e w))"
    using Cons.IH [OF m'(1)] m'(2) Cons.prems(2) by simp
  ultimately show ?case by (auto simp: image_Un)
qed simp

end
