(* ===== verification/Delivery_Accounting.thy ===== *)
theory Delivery_Accounting
  imports Pipeline
begin

text \<open>
  What the delivery job does to the usage ledger and to the attempt records.
\<close>

section \<open>Charging\<close>

lemma commit_usages_cong:
  "w_reservations w' = w_reservations w \<Longrightarrow> w_usages w' = w_usages w \<Longrightarrow>
     w_usages (commit E mid w') = w_usages (commit E mid w)
     \<and> w_reservations (commit E mid w') = w_reservations (commit E mid w)"
  by (simp add: commit_def find_reservation_def save_reservation_def commit_dimension_def split: option.splits)

lemma used_value_usages: "w_usages w' = w_usages w \<Longrightarrow> used_value w' uid = used_value w uid"
  by (simp add: used_value_def)

lemma update_pair_frame:
  "update_message_where mid P f w = (n, w1) \<Longrightarrow>
     w_usages w1 = w_usages w \<and> w_attempts w1 = w_attempts w \<and> w_reservations w1 = w_reservations w"
  by (auto simp: update_message_where_def split: prod.splits)

lemma mark_failed_usages [simp]: "w_usages (snd (mark_failed E mid m code msg p skip ar ta w)) = w_usages w"
  by (auto simp: mark_failed_def Let_def record_permanent_failure_def release_reservation_def save_reservation_def
      split: prod.splits option.splits dest!: update_pair_frame)

lemma mark_sent_books:
  assumes "find_message w mid = Some r" and "om_state r = Sending"
  shows "w_usages (snd (mark_sent E mid m provider pmid w)) = w_usages (commit E mid w)"
    and "w_reservations (snd (mark_sent E mid m provider pmid w)) = w_reservations (commit E mid w)"
proof -
  let ?P = "\<lambda>r. om_state r = Sending"
  let ?f = "sent_row E provider pmid"
  obtain n w1 where up: "update_message_where mid ?P ?f w = (n, w1)" by force
  have n: "n = 1" using count_update_message [of mid ?P ?f w] up assms by simp
  have same: "w_reservations w1 = w_reservations w" "w_usages w1 = w_usages w"
    using update_message_where_frame(2,3) [of mid ?P ?f w] up by simp_all
  show "w_usages (snd (mark_sent E mid m provider pmid w)) = w_usages (commit E mid w)"
    "w_reservations (snd (mark_sent E mid m provider pmid w)) = w_reservations (commit E mid w)"
    using up n commit_usages_cong [OF same, of E mid]
    by (simp_all add: mark_sent_def Let_def flip: sent_row_def split: option.splits)
qed

lemma settle_result_usages:
  assumes "find_message w mid = Some r" and "om_state r = Sending"
  shows "w_usages (snd (settle_result E mid m dr w)) =
     (if dr_result dr = Accepted then w_usages (commit E mid w) else w_usages w)"
  using mark_sent_books [OF assms] by (simp add: settle_result_def Let_def)

lemma submit_world:
  "snd (snd (submit E tr mid m atts w)) =
     (let w1 = snd (update_message_where mid (\<lambda>r. om_state r = Sending)
                 (\<lambda>r. r\<lparr>om_transport_attempted_at := Some (e_now E), om_updated_at := e_now E\<rparr>) w)
      in case tr (message_data m atts) of Inl e \<Rightarrow> w1 | Inr r \<Rightarrow> snd (settle_result E mid m r w1))"
  by (simp add: submit_def Let_def split: sum.splits prod.splits)

text \<open>The charge of a reservation does not depend on its counters.\<close>

lemma reservation_after_start:
  assumes "w_reservations w1 = w_reservations (record_attempt_started E m w)"
  shows "reservation_status w1 i = reservation_status w i"
    and "find_reservation w i = Some r \<Longrightarrow> \<exists>r'. find_reservation w1 i = Some r' \<and> charge r' uid = charge r uid \<and> ur_state r' = ur_state r"
proof -
  have f: "find_reservation w1 i = find_reservation (record_attempt_started E m w) i"
    using assms by (simp add: find_reservation_def)
  have g: "find_reservation (record_attempt_started E m w) i =
     (case find_reservation w i of None \<Rightarrow> None
      | Some r \<Rightarrow> Some (if cf_metering_enabled (e_cfg E) \<and> i = om_id m
          then r\<lparr>ur_attempts := ur_attempts r + 1,
             ur_retries := (if 1 < om_attempt_count m then ur_retries r + 1 else ur_retries r)\<rparr> else r))"
    by (auto simp: record_attempt_started_def tbl_simps split: option.splits)
  show "reservation_status w1 i = reservation_status w i"
    by (simp add: reservation_status_def f g split: option.splits)
  show "find_reservation w i = Some r \<Longrightarrow> \<exists>r'. find_reservation w1 i = Some r' \<and> charge r' uid = charge r uid \<and> ur_state r' = ur_state r"
    by (simp add: f g charge_def dimension_units_def)
qed

lemma deliver_usages:
  assumes "deliver E tr mid w = (je, Some p, w')"
  shows "\<exists>w2. w_usages w2 = w_usages w \<and> (\<exists>m. w_reservations w2 = w_reservations (record_attempt_started E m w))
      \<and> w_usages w' = (case tr p of Inr r \<Rightarrow> if dr_result r = Accepted then w_usages (commit E mid w2) else w_usages w
                       | Inl _ \<Rightarrow> w_usages w)
      \<and> (\<forall>r. tr p = Inr r \<longrightarrow> dr_result r = Accepted \<longrightarrow> w_reservations w' = w_reservations (commit E mid w2))"
  using assms
proof (rule deliver_submits)
  fix m atts w1
  assume p: "p = message_data (claimed_row E m) atts"
    and f: "\<And>i. find_message w1 i = (if i = mid then Some (claimed_row E m) else find_message w i)"
    and s: "(je, Some p, w') = submit E tr mid (claimed_row E m) atts w1"
    and us: "w_usages w1 = w_usages w"
    and rs: "w_reservations w1 = w_reservations (record_attempt_started E (claimed_row E m) w)"
  let ?w2 = "snd (update_message_where mid (\<lambda>r. om_state r = Sending)
                 (\<lambda>r. r\<lparr>om_transport_attempted_at := Some (e_now E), om_updated_at := e_now E\<rparr>) w1)"
  have row: "find_message ?w2 mid = Some (in_flight_row E (claimed_row E m))"
    by (simp add: find_update_message f claimed_row_def in_flight_row_def)
  have sending: "om_state (in_flight_row E (claimed_row E m)) = Sending" by (simp add: in_flight_row_def claimed_row_def)
  have "w' = snd (snd (submit E tr mid (claimed_row E m) atts w1))" by (simp flip: s)
  then have w': "w' = (case tr p of Inl e \<Rightarrow> ?w2 | Inr r \<Rightarrow> snd (settle_result E mid (claimed_row E m) r ?w2))"
    by (simp add: submit_world p Let_def)
  then have "w_reservations w' = w_reservations (commit E mid ?w2)" if "tr p = Inr r" "dr_result r = Accepted" for r
    using that mark_sent_books(2) [OF row sending] by (simp add: settle_result_def Let_def)
  moreover from w' have "w_usages w' = (case tr p of Inr r \<Rightarrow> if dr_result r = Accepted then w_usages (commit E mid ?w2) else w_usages w
                       | Inl _ \<Rightarrow> w_usages w)"
    using settle_result_usages [OF row sending, of E "claimed_row E m"] us by (simp split: sum.splits)
  ultimately show ?thesis using us rs by (intro exI [of _ ?w2]) auto
qed

section \<open>Attempt outcomes\<close>

definition keeps_outcomes :: "world \<Rightarrow> world \<Rightarrow> bool" where
  "keeps_outcomes w w' \<longleftrightarrow>
     (\<forall>k a. tbl_get (w_attempts w) k = Some a \<longrightarrow> attempt_is_terminal (at_state a) \<longrightarrow>
        tbl_get (w_attempts w') k = Some a)"

lemma keeps_frame: "w_attempts w' = w_attempts w \<Longrightarrow> keeps_outcomes w w'"
  by (simp add: keeps_outcomes_def)

lemma keeps_trans: "keeps_outcomes w w' \<Longrightarrow> keeps_outcomes w' w'' \<Longrightarrow> keeps_outcomes w w''"
  by (simp add: keeps_outcomes_def)

lemma keeps_attempt_ops:
  "keeps_outcomes w (attempt_start E m t p f w)"
  "keeps_outcomes w (attempt_complete E m s r c i f w)"
  by (simp_all add: keeps_outcomes_def attempt_ops_keep_terminal)

text \<open>Completing an attempt as a function of the attempt table.\<close>

definition completed ::
  "env \<Rightarrow> outbound_message \<Rightarrow> attempt_state \<Rightarrow> string option \<Rightarrow> string option \<Rightarrow> string option
   \<Rightarrow> string option \<Rightarrow> (uuid \<times> int, delivery_attempt) tbl \<Rightarrow> (uuid \<times> int, delivery_attempt) tbl" where
  "completed E m s r c i f t = w_attempts (attempt_complete E m s r c i f (undefined\<lparr>w_attempts := t\<rparr>))"

lemma attempts_complete: "w_attempts (attempt_complete E m s r c i f w) = completed E m s r c i f (w_attempts w)"
  by (simp add: completed_def attempt_complete_def current_attempt_def save_attempt_def split: option.splits)

lemma keeps_completed:
  "w_attempts w' = completed E m s r c i f (w_attempts w) \<Longrightarrow> keeps_outcomes w w'"
  using keeps_attempt_ops(2) [of w E m s r c i f] by (simp add: keeps_outcomes_def attempts_complete)

lemma keeps_mark_sent: "keeps_outcomes w (snd (mark_sent E mid m provider pmid w))"
  by (auto simp: mark_sent_def Let_def attempts_complete split: prod.splits option.splits
      dest!: update_pair_frame intro: keeps_frame keeps_completed)

lemma mark_failed_attempts:
  "w_attempts (snd (mark_failed E mid m code msg provider skip ar ta w)) \<in>
     {w_attempts w, completed E m AttPermanentFailure (Some (transport_result_value ar)) (Some code) None None (w_attempts w)}"
  by (auto simp: mark_failed_def Let_def attempts_complete split: prod.splits option.splits dest!: update_pair_frame)

lemma keeps_mark_failed: "keeps_outcomes w (snd (mark_failed E mid m code msg provider skip ar ta w))"
  using mark_failed_attempts [of E mid m code msg provider skip ar ta w]
  by (auto intro: keeps_frame keeps_completed)

lemma keeps_settle_result: "keeps_outcomes w (snd (settle_result E mid m dr w))"
proof -
  have a: "keeps_outcomes w (audit_write E ac u b o' n' x (attempt_complete E m s r c i f w))" for ac u b o' n' x s r c i f
    by (rule keeps_trans [OF keeps_attempt_ops(2) keeps_frame]) simp
  have b: "keeps_outcomes w (audit_write E ac u b o' n' x (attempt_complete E m s r c i f
             (snd (update_message_where mid P g w))))" for ac u b o' n' x s r c i f P g
    by (rule keeps_trans [OF keeps_frame keeps_trans [OF keeps_attempt_ops(2) keeps_frame]]) simp_all
  show ?thesis
    using keeps_mark_sent keeps_mark_failed keeps_trans [OF a keeps_mark_failed] b
    by (simp add: settle_result_def Let_def)
qed

lemma keeps_deliver: "keeps_outcomes w (snd (snd (deliver E tr mid w)))"
proof (cases "is_emergency_stopped E w")
  case True
  then show ?thesis by (simp add: deliver_def keeps_frame)
next
  case False
  obtain c w1 where c: "claim E mid w = (c, w1)" by force
  show ?thesis
  proof (cases c)
    case None
    with False c show ?thesis using claim_None(1) [of E mid w w1] by (simp add: deliver_def keeps_frame)
  next
    case (Some m')
    with c have w1: "w1 = snd (update_message_where mid (\<lambda>r. om_state r = Queued) (\<lambda>r. claimed_row E r) w)"
      by (auto elim: claim_Some)
    let ?w2 = "begin_attempt E m' w1"
    have started: "keeps_outcomes w ?w2"
      unfolding begin_attempt_def
      by (rule keeps_trans [OF keeps_frame keeps_trans [OF keeps_attempt_ops(1) keeps_frame]]) (simp_all add: w1)
    have "keeps_outcomes ?w2 (snd (snd (deliver_claimed E tr mid m' ?w2)))"
    proof (rule deliver_claimed_cases [of ?w2 E tr mid m'])
      fix je' code msg v assume "w_attempts v = w_attempts ?w2" and
        "deliver_claimed E tr mid m' ?w2 = (je', None, snd (mark_failed E mid m' code msg None False PermanentFailure False v))"
      then show ?thesis
        using keeps_trans [OF keeps_frame keeps_mark_failed, of v ?w2] by simp
    next
      fix atts v assume v: "w_attempts v = w_attempts ?w2" and
        d: "deliver_claimed E tr mid m' ?w2 = submit E tr mid m' atts v"
      have "keeps_outcomes ?w2 (snd (update_message_where mid P g v))" for P g
        by (rule keeps_frame) (simp add: v)
      then have "keeps_outcomes ?w2 (snd (snd (submit E tr mid m' atts v)))"
        using keeps_trans [OF _ keeps_settle_result] by (auto simp: submit_world Let_def split: sum.splits)
      with d show ?thesis by simp
    qed
    then show ?thesis
      using False c Some keeps_trans [OF started] by (simp add: deliver_def)
  qed
qed

lemma keeps_transaction:
  "(\<And>r w'. f w = (r, w') \<Longrightarrow> keeps_outcomes w w') \<Longrightarrow> keeps_outcomes w (snd (transaction f w))"
  by (auto simp: transaction_def keeps_frame split: prod.splits sum.splits)

lemma transaction_Inl_attempts: "transaction f w = (Inl e, w') \<Longrightarrow> w_attempts w' = w_attempts w"
  by (auto simp: transaction_def split: prod.splits sum.splits)

lemma cancel_attempts: "w_attempts (snd (cancel_message E mid u w)) = w_attempts w"
proof -
  have "w_attempts w' = w_attempts w" if "cancel_body E mid u w = (r, w')" for r w'
    using that
    by (auto simp: cancel_body_def Let_def split: option.splits if_splits prod.splits dest!: update_pair_frame)
  then show ?thesis by (auto simp: cancel_message_def transaction_def split: prod.splits sum.splits)
qed

lemma delete_attempts: "w_attempts (snd (delete_message E mid u w)) = w_attempts w"
proof -
  have c: "w_attempts w' = w_attempts w" if "cancel_message E mid u w = (r, w')" for r w'
    using cancel_attempts [of E mid u w] that by simp
  have "w_attempts w' = w_attempts w" if "delete_body E mid u w = (r, w')" for r w'
    using that
    by (auto simp: delete_body_def Let_def and_then_def split: option.splits if_splits prod.splits sum.splits
        dest!: update_pair_frame c)
  then show ?thesis by (auto simp: delete_message_def transaction_def split: prod.splits sum.splits)
qed

lemma retry_attempts: "w_attempts (snd (retry_message E mid u k w)) = w_attempts w"
proof -
  have "w_attempts w' = w_attempts w" if "retry_body E mid u k w = (r, w')" for r w'
    using that
    by (auto simp: retry_body_def Let_def and_then_def split: option.splits if_splits prod.splits sum.splits
        dest!: update_pair_frame assert_can_send_same)
  then have "w_attempts (snd (transaction (retry_body E mid u k) w)) = w_attempts w"
    by (auto simp: transaction_def split: prod.splits sum.splits)
  then show ?thesis
    by (cases "transaction (retry_body E mid u k) w"; cases "fst (transaction (retry_body E mid u k) w)")
       (auto simp: retry_message_def)
qed

lemma unschedule_attempts: "w_attempts (snd (unschedule_message E u mid v w)) = w_attempts w"
  by (auto simp: unschedule_message_def unschedule_body_def transaction_def Let_def save_message_def
      split: prod.splits sum.splits option.splits if_splits)

lemma keeps_event: "keeps_outcomes w (apply_event e w)"
  by (cases e) (simp_all add: keeps_deliver keeps_frame cancel_attempts delete_attempts retry_attempts unschedule_attempts)

lemma keeps_events: "keeps_outcomes w (fold apply_event es w)"
  by (induction es arbitrary: w) (auto intro: keeps_trans keeps_event keeps_frame)

section \<open>The emergency stop\<close>

text \<open>No event of the pipeline touches the flag that stops it.\<close>

definition stop_flag :: "world \<Rightarrow> php option" where
  "stop_flag w = cache_get w cache_emergency_stop_key"

lemma stop_flag_frame [simp]:
  "stop_flag (audit_write E a b c p q r w) = stop_flag w"
  "stop_flag (dispatch_job j w) = stop_flag w"
  "stop_flag (save_message mid m w) = stop_flag w"
  "stop_flag (save_reservation mid x w) = stop_flag w"
  "stop_flag (w\<lparr>w_next_id := n\<rparr>) = stop_flag w"
  by (simp_all add: stop_flag_def cache_get_def dispatch_job_def save_message_def save_reservation_def)

lemma stop_flag_notify [simp]: "stop_flag (notify_user E u event msg extra key w) = stop_flag w"
  by (auto simp: stop_flag_def cache_get_def notify_def notify_user_def preference_def create_notification_def fresh_id_def
      cache_increment_def audit_write_def dispatch_job_def cache_emergency_stop_key_def tbl_simps Let_def
      split: prod.splits option.splits)

lemma stop_flag_release [simp]: "stop_flag (release_reservation E mid reason actor w) = stop_flag w"
  by (simp add: release_reservation_def split: option.splits)

lemma stop_flag_update: "update_message_where mid P f w = (n, w1) \<Longrightarrow> stop_flag w1 = stop_flag w"
  by (auto simp: update_message_where_def stop_flag_def cache_get_def split: prod.splits)

lemma stop_flag_directory: "directory w' = directory w \<Longrightarrow> stop_flag w' = stop_flag w"
  by (simp add: directory_def stop_flag_def cache_get_def)

lemma stop_flag_transaction:
  "(\<And>r w'. f w = (r, w') \<Longrightarrow> stop_flag w' = stop_flag w) \<Longrightarrow> stop_flag (snd (transaction f w)) = stop_flag w"
  by (auto simp: transaction_def stop_flag_def cache_get_def split: prod.splits sum.splits)

lemma stop_flag_cancel: "stop_flag (snd (cancel_message E mid u w)) = stop_flag w"
  unfolding cancel_message_def
  by (rule stop_flag_transaction)
    (auto simp: cancel_body_def Let_def split: option.splits if_splits prod.splits dest!: stop_flag_update)

lemma stop_flag_delete: "stop_flag (snd (delete_message E mid u w)) = stop_flag w"
proof -
  have c: "stop_flag w' = stop_flag w" if "cancel_message E mid u w = (r, w')" for r w'
    using stop_flag_cancel [of E mid u w] that by simp
  show ?thesis
    unfolding delete_message_def
    by (rule stop_flag_transaction)
      (auto simp: delete_body_def Let_def and_then_def split: option.splits if_splits prod.splits sum.splits
        dest!: stop_flag_update c)
qed

lemma stop_flag_retry: "stop_flag (snd (retry_message E mid u k w)) = stop_flag w"
proof -
  have "stop_flag (snd (transaction (retry_body E mid u k) w)) = stop_flag w"
    by (rule stop_flag_transaction)
      (auto simp: retry_body_def Let_def and_then_def split: option.splits if_splits prod.splits sum.splits
        dest!: stop_flag_update directory_can_send stop_flag_directory)
  then show ?thesis
    by (cases "transaction (retry_body E mid u k) w"; cases "fst (transaction (retry_body E mid u k) w)")
       (auto simp: retry_message_def)
qed

lemma stop_flag_unschedule: "stop_flag (snd (unschedule_message E u mid v w)) = stop_flag w"
  unfolding unschedule_message_def
  by (rule stop_flag_transaction)
    (auto simp: unschedule_body_def Let_def split: option.splits if_splits)

lemma stopped_flag: "is_emergency_stopped E w = (case stop_flag w of Some (PBool b) \<Rightarrow> b | _ \<Rightarrow> cf_emergency_stop (e_cfg E))"
  by (simp add: is_emergency_stopped_def stop_flag_def)

lemma stop_flag_event:
  assumes "stop_flag w = Some (PBool True)"
  shows "stop_flag (apply_event e w) = Some (PBool True)" and "submitted_by e w = []"
proof -
  have "is_emergency_stopped E w" for E by (simp add: stopped_flag assms)
  then show "stop_flag (apply_event e w) = Some (PBool True)" "submitted_by e w = []"
    using assms by (cases e; simp add: deliver_def stop_flag_cancel stop_flag_delete stop_flag_retry stop_flag_unschedule)+
qed

lemma stopped_pipeline:
  "stop_flag w = Some (PBool True) \<Longrightarrow> submissions es w = [] \<and> stop_flag (fold apply_event es w) = Some (PBool True)"
  by (induction es arbitrary: w) (simp_all add: stop_flag_event)

end
