(* ===== verification/Example_World.thy ===== *)
theory Example_World
  imports Pipeline
begin

text \<open>
  A small concrete world: one active user with one inbox, a domain, a plan with a metered
  allowance of two messages, and two messages. The closed examples in the root theory
  evaluate the model on it.
\<close>

definition sample_config :: config where
  "sample_config =
     \<lparr>cf_metering_enabled = True, cf_reservation_ttl_seconds = 86400,
     cf_default_reset_period = ''monthly'', cf_usage_warning_percent = 80,
     cf_notification_events = [''outbound.queued'', ''outbound.sent'', ''outbound.failed'', ''outbound.cancelled''],
     cf_notification_defaults = [(''outbound.sent'', (Some True, Some False)), (''outbound.failed'', (Some True, Some True))],
     cf_outbound_enabled = True, cf_send_enabled = True, cf_reply_enabled = True,
     cf_forward_enabled = True, cf_transport = ''smtp'', cf_provider = ''generic'',
     cf_primary_provider = ''generic'', cf_secondary_provider = Some ''ses'',
     cf_smtp_host = '''', cf_send_max_attempts = 3, cf_stale_sending_threshold_seconds = 900,
     cf_stale_sending_batch_size = 50, cf_schedule_enabled = True, cf_defer_seconds = 300,
     cf_max_defer_seconds = 900, cf_rollout_mode = ''enabled'',
     cf_supported_modes = [''disabled'', ''canary'', ''percentage'', ''enabled''],
     cf_rollout_percent = 0, cf_emergency_stop = False, cf_emergency_stop_retry_delay = 300,
     cf_messages_per_minute = 5, cf_messages_per_hour = 30, cf_messages_per_day = 200,
     cf_unique_recipients_per_hour = 100, cf_unique_recipients_per_day = 500,
     cf_max_recipients_per_message = 20, cf_concurrent_queued_messages = 20,
     cf_outbound_bytes_per_day = 104857600, cf_fail_closed_on_quota_backend = True,
     cf_temp_block_hours = 24, cf_bounce_threshold_24h = 10, cf_complaint_threshold_24h = 2,
     cf_failed_send_threshold_24h = 25, cf_suppression_block_threshold_24h = 20,
     cf_max_attachments_per_message = 10, cf_max_attachment_bytes = 10485760,
     cf_max_total_attachment_bytes = 26214400, cf_domain_auth_enforce = True,
     cf_allow_degraded_dmarc = True, cf_ses_spf_include = ''include:amazonses.com'',
     cf_ses_dkim_tokens = '''', cf_ses_dkim_cname_suffix = ''dkim.amazonses.com'',
     cf_ses_ownership_prefix = ''temail-domain-verification='',
     cf_domain_recheck_interval = 3600, cf_domain_manual_cooldown = 60, cf_ses_topic_arn = '''',
     cf_generic_webhook_secret = ''secret'', cf_failover_enabled = False,
     cf_send_backoff_seconds = [60, 300, 900]\<rparr>"

definition sample_env :: env where
  "sample_env =
     \<lparr>e_now = 1000000, e_cfg = sample_config, e_uuid = (\<lambda>n. ''id-'' @ nat_to_string n),
     e_iso8601 = (\<lambda>_. ''2026-07-01T00:00:00Z''), e_ymd = int_to_string, e_sha256 = (\<lambda>s. s),
     e_period_start = (\<lambda>p t. t - 1000), e_period_end = (\<lambda>p t. t + 1000),
     e_disk_private = (\<lambda>d. True), e_file_exists = (\<lambda>d p. True),
     e_dns_txt = (\<lambda>n. Inr []), e_dns_cname = (\<lambda>n. Inr [])\<rparr>"

definition sample_message :: "string \<Rightarrow> message_state \<Rightarrow> outbound_message" where
  "sample_message i st =
     \<lparr>om_id = i, om_user_id = ''u1'', om_inbox_id = ''b1'', om_source_email_id = None,
     om_operation = OpSend, om_state = st, om_draft_version = 1,
     om_idempotency_key = ''key-'' @ i, om_request_fingerprint = ''fp'',
     om_from_address = ''b1@example.test'', om_from_display_name = None,
     om_sender_profile_id = None, om_reply_to_address = None, om_reply_to_name = None,
     om_to_recipients = Some [''to@example.org''], om_cc_recipients = None,
     om_bcc_recipients = None, om_subject = Some ''Hello'', om_text_body = Some ''Hi'',
     om_html_body = None, om_in_reply_to = None, om_references = None, om_provider = None,
     om_provider_message_id = None, om_attempt_count = 0, om_queued_at = None,
     om_sending_at = None, om_transport_attempted_at = None, om_sent_at = None,
     om_delivered_at = None, om_failed_at = None, om_cancelled_at = None,
     om_draft_submitted_at = None, om_draft_deleted_at = None,
     om_reconciliation_flagged_at = None, om_reconciliation_note = None, om_failure_code = None,
     om_failure_message = None, om_attachment_ids = None, om_is_canary = False,
     om_user_deleted_at = None, om_content_redacted_at = None, om_retention_hold_until = None,
     om_retention_hold_reason_code = None, om_scheduled_at = None, om_scheduled_timezone = None,
     om_scheduled_by_user_id = None, om_schedule_version = 0, om_scheduled_claimed_at = None,
     om_schedule_defer_reason = None, om_schedule_next_attempt_at = None, om_created_at = 999000,
     om_updated_at = 999000\<rparr>"

definition sample_user :: user where
  "sample_user = \<lparr>u_id = ''u1'', u_status = UActive, u_platform_role = Some RoleAdmin, u_deleted_at = None\<rparr>"

definition sample_inbox :: inbox where
  "sample_inbox = \<lparr>ib_id = ''b1'', ib_user_id = Some ''u1'', ib_domain_id = ''d1'', ib_is_active = True,
     ib_deleted_at = None, ib_expires_at = None\<rparr>"

definition sample_domain :: mail_domain where
  "sample_domain = \<lparr>dm_id = ''d1'', dm_domain = ''example.test'', dm_is_active = True, dm_deleted_at = None,
     dm_outbound_enabled = True, dm_dns_verified_at = None\<rparr>"

definition sample_subscription :: subscription where
  "sample_subscription = \<lparr>sb_id = ''s1'', sb_user_id = ''u1'', sb_plan_id = ''p1'', sb_status = SubActive,
     sb_starts_at = Some 0, sb_created_at = Some 0\<rparr>"

definition sample_feature :: "string \<Rightarrow> string \<Rightarrow> feature_value \<Rightarrow> feature" where
  "sample_feature i k v = \<lparr>ft_id = i, ft_key = k, ft_is_active = True, ft_default_value = Some v, ft_deleted_at = None\<rparr>"

definition sample_world :: world where
  "sample_world =
     \<lparr>w_messages = [(''m1'', sample_message ''m1'' Queued), (''m2'', sample_message ''m2'' Sent)],
     w_attempts = [], w_reservations = [], w_usages = [], w_suppressions = [],
     w_notifications = [], w_preferences = [], w_abuse_blocks = [],
     w_users = [(''u1'', sample_user)], w_inboxes = [(''b1'', sample_inbox)],
     w_domains = [(''d1'', sample_domain)], w_domain_auths = [], w_emails = [],
     w_attachments = [], w_subscriptions = [(''s1'', sample_subscription)],
     w_features = [(''f1'', sample_feature ''f1'' ''send_email'' FOpaque), (''f2'', sample_feature ''f2'' ''outbound_messages_per_period'' (FMeter (Some (LNum 2)) (Some ''monthly'')))],
     w_plans = [(''p1'', \<lparr>pl_id = ''p1'', pl_deleted_at = None\<rparr>)],
     w_plan_features = [(''p1'', [(''f1'', None), (''f2'', None)])], w_canaries = [],
     w_api_keys = [], w_audit = [], w_jobs = [], w_cache = [], w_cache_ttl = [], w_next_id = 0\<rparr>"

definition accepting :: transport where
  "accepting p = Inr \<lparr>dr_result = Accepted, dr_provider = Some ''generic'', dr_provider_message_id = Some ''pm1'',
     dr_failure_code = None, dr_failure_message = None\<rparr>"

definition failing :: transport where
  "failing p = Inr \<lparr>dr_result = TemporaryFailure, dr_provider = Some ''generic'', dr_provider_message_id = None,
     dr_failure_code = Some ''timeout'', dr_failure_message = None\<rparr>"

lemma sample_message_simps [simp]:
  "om_id (sample_message i st) = i" "om_state (sample_message i st) = st"
  "om_attempt_count (sample_message i st) = 0" "om_user_id (sample_message i st) = ''u1''"
  by (simp_all add: sample_message_def)

text \<open>The same world with an open reservation for the first message.\<close>

definition sample_reservation :: usage_reservation where
  "sample_reservation =
     \<lparr>ur_outbound_message_id = ''m1'', ur_user_id = ''u1'', ur_subscription_id = Some ''s1'',
      ur_operation = OpSend, ur_idempotency_key = ''key-m1'', ur_state = Reserved, ur_message_units = 1,
      ur_recipient_units = 1, ur_attachment_bytes = 0, ur_reserved_at = 999500, ur_committed_at = None,
      ur_released_at = None, ur_expires_at = Some 999900, ur_release_reason = None,
      ur_usage_ids = [(''messages'', ''usage1'')], ur_attempts = 0, ur_retries = 0, ur_permanent_failures = 0\<rparr>"

definition sample_usage :: subscription_usage where
  "sample_usage =
     \<lparr>su_id = ''usage1'', su_subscription_id = ''s1'', su_feature_id = ''f2'', su_used_value = 0,
      su_limit_value = 2, su_reset_period = Monthly, su_period_start = 999000, su_period_end = 1001000,
      su_last_used_at = None\<rparr>"

definition reserved_world :: world where
  "reserved_world = sample_world\<lparr>w_reservations := [(''m1'', sample_reservation)], w_usages := [(''usage1'', sample_usage)]\<rparr>"

text \<open>A plan that allows no message, and an abandoned reservation of a cancelled message.\<close>

definition exhausted_world :: world where
  "exhausted_world = sample_world\<lparr>w_features :=
     [(''f2'', sample_feature ''f2'' ''outbound_messages_per_period'' (FMeter (Some (LNum 0)) (Some ''monthly'')))]\<rparr>"

definition abandoned_world :: world where
  "abandoned_world = reserved_world\<lparr>w_messages := [(''m1'', sample_message ''m1'' Cancelled)]\<rparr>"

text \<open>The SES provider with one DKIM token, and a zone that publishes its records.\<close>

definition ses_env :: env where
  "ses_env = sample_env\<lparr>e_cfg := sample_config\<lparr>cf_provider := ''ses'', cf_ses_dkim_tokens := ''tok1''\<rparr>,
     e_dns_txt := (\<lambda>n. if n = ''_dmarc.example.test'' then Inr [''v=DMARC1; p=reject'']
                       else Inr [''v=spf1 include:amazonses.com ~all'', ''temail-domain-verification=outbound-domain:d1'']),
     e_dns_cname := (\<lambda>n. Inr [''tok1.dkim.amazonses.com''])\<rparr>"

text \<open>Facts about the example that several closed theorems use.\<close>

lemma sample_submits: "fst (snd (deliver sample_env accepting ''m1'' sample_world)) \<noteq> None"
  by code_simp

lemma sample_allowance:
  obtains rows w1 where
    "check_allowance sample_env sample_user (Some sample_subscription) 1 0 True sample_world = (Inr rows, w1)"
proof -
  have "(case fst (check_allowance sample_env sample_user (Some sample_subscription) 1 0 True sample_world) of
      Inl _ \<Rightarrow> False | Inr _ \<Rightarrow> True)" by code_simp
  then show thesis
    using that
    by (cases "check_allowance sample_env sample_user (Some sample_subscription) 1 0 True sample_world")
       (auto split: sum.splits)
qed

lemma sample_reserve_facts:
  "find_reservation sample_world ''m1'' = None"
  "current_subscription sample_world sample_user = Some sample_subscription"
  "(''messages'', 2) \<in> set (limited_dimensions (resolve_dimensions sample_env sample_world sample_user))"
  "cf_metering_enabled (e_cfg sample_env)" "sb_id sample_subscription = ''s1''"
  "recipient_count (sample_message ''m1'' Queued) = 1"
  by code_simp+

lemma sample_usage_ids: "keyed_usages sample_world" "fresh_usage_ids sample_env sample_world"
proof -
  show "keyed_usages sample_world" by code_simp
  have "w_usages sample_world = []" by code_simp
  then show "fresh_usage_ids sample_env sample_world"
    by (simp add: fresh_usage_ids_def inj_on_def sample_env_def nat_to_string_inj)
qed

lemma sample_reserve:
  obtains r w' where
    "reserve sample_env sample_user (sample_message ''m1'' Queued) ''key-m1'' 0 sample_world = (Inr (Some r), w')"
proof -
  obtain rows w1 where c:
    "check_allowance sample_env sample_user (Some sample_subscription) 1 0 True sample_world = (Inr rows, w1)"
    by (rule sample_allowance)
  show thesis
    by (rule that) (simp add: reserve_def Let_def transaction_def c sample_reserve_facts)
qed

lemma sample_message_m1: "find_message sample_world ''m1'' = Some (sample_message ''m1'' Queued)"
  by code_simp

lemma exhausted_refuses:
  obtains e w' where
    "reserve sample_env sample_user (sample_message ''m1'' Queued) ''key-m1'' 0 exhausted_world = (Inl e, w')"
proof -
  have "(case fst (check_allowance sample_env sample_user (Some sample_subscription) 1 0 True exhausted_world) of
      Inl _ \<Rightarrow> True | Inr _ \<Rightarrow> False)" by code_simp
  then obtain e w1 where c:
    "check_allowance sample_env sample_user (Some sample_subscription) 1 0 True exhausted_world = (Inl e, w1)"
    by (cases "check_allowance sample_env sample_user (Some sample_subscription) 1 0 True exhausted_world")
       (auto split: sum.splits)
  have "find_reservation exhausted_world ''m1'' = None"
    "current_subscription exhausted_world sample_user = Some sample_subscription" by code_simp+
  then show thesis
    using that by (simp add: reserve_def Let_def transaction_def c sample_reserve_facts(4,6))
qed

end
