(* ===== verification/Script_Text.thy ===== *)
theory Script_Text
  imports Prelude "HOL-Library.Multiset"
begin

text \<open>
  Strings and arrays as the browser scripts use them (\<open>public/js\<close>, \<open>resources/js\<close>): white space,
  trimming, splitting into lines and joining them, slices, \<open>replaceAll\<close>, \<open>findIndex\<close> and
  \<open>splice\<close>, with the laws the component theories share. A string is a list of characters;
  characters beyond the first 256 code points are outside the model.
\<close>

named_theorems line_simps \<open>splitting strings into lines and joining them\<close>

section \<open>White space\<close>

abbreviation nl :: char where "nl \<equiv> CHR 0x0A"

abbreviation cr :: char where "cr \<equiv> CHR 0x0D"

text \<open>The class \<open>\s\<close>, which is also what \<open>trim\<close> removes.\<close>

definition js_space :: "char \<Rightarrow> bool" where
  "js_space c \<longleftrightarrow>
     c \<in> {CHR 0x09, CHR 0x0A, CHR 0x0B, CHR 0x0C, CHR 0x0D, CHR 0x20, CHR 0xA0}"

definition trim_start :: "string \<Rightarrow> string" where
  "trim_start s = dropWhile js_space s"

definition js_trim :: "string \<Rightarrow> string" where
  "js_trim s = rev (dropWhile js_space (rev (trim_start s)))"

definition is_blank :: "string \<Rightarrow> bool" where
  "is_blank s \<longleftrightarrow> js_trim s = []"

text \<open>The prefix a pattern \<open>^\s*\<close> or \<open>^ *\<close> matches.\<close>

definition leading_space :: "string \<Rightarrow> string" where
  "leading_space s = takeWhile js_space s"

definition leading_blanks :: "string \<Rightarrow> nat" where
  "leading_blanks s = length (takeWhile (\<lambda>c. c = CHR '' '') s)"

lemma js_space_code_points [simp]:
  "js_space nl" "js_space cr" "js_space (CHR '' '')" "js_space (CHR 0x09)"
  by (simp_all add: js_space_def)

lemma all_dropWhile: "(\<forall>c \<in> set (dropWhile P xs). P c) \<longleftrightarrow> (\<forall>c \<in> set xs. P c)"
  by (induction xs) auto

lemma is_blank_iff: "is_blank s \<longleftrightarrow> (\<forall>c \<in> set s. js_space c)"
  by (simp add: is_blank_def js_trim_def trim_start_def all_dropWhile)

lemma js_trim_idem [simp]: "js_trim (js_trim s) = js_trim s"
  by (simp add: js_trim_def trim_start_def dropWhile_rev_dropWhile)

lemma js_trim_id: "s = [] \<or> \<not> js_space (hd s) \<and> \<not> js_space (last s) \<Longrightarrow> js_trim s = s"
proof (cases "s = []")
  case False
  assume "s = [] \<or> \<not> js_space (hd s) \<and> \<not> js_space (last s)"
  with False have "dropWhile js_space s = s" "dropWhile js_space (rev s) = rev s"
    by (auto simp: dropWhile_eq_self_iff hd_rev)
  then show ?thesis by (simp add: js_trim_def trim_start_def)
qed (simp add: js_trim_def trim_start_def)

section \<open>Lines\<close>

definition split_lines :: "string \<Rightarrow> string list" where
  "split_lines s = explode nl s"

definition join_lines :: "string list \<Rightarrow> string" where
  "join_lines ls = implode [nl] ls"

lemma explode_not_Nil [simp]: "explode d s \<noteq> []"
  by (induction s) (auto split: list.splits)

lemma implode_Cons: "ls \<noteq> [] \<Longrightarrow> implode sep (l # ls) = l @ sep @ implode sep ls"
  by (cases ls) auto

lemma implode_explode [simp]: "implode [d] (explode d s) = s"
proof (induction s)
  case (Cons c s)
  show ?case
  proof (cases "c = d")
    case True
    with Cons show ?thesis by (simp add: implode_Cons)
  next
    case False
    obtain p ps where e: "explode d s = p # ps" by (cases "explode d s") auto
    with Cons False show ?thesis by (cases ps) auto
  qed
qed simp

lemma explode_mem: "l \<in> set (explode d s) \<Longrightarrow> d \<notin> set l"
  by (induction s arbitrary: l) (auto split: list.splits if_splits)

lemma explode_plain: "d \<notin> set s \<Longrightarrow> explode d s = [s]"
  by (induction s) auto

lemma explode_append: "explode d (a @ d # b) = explode d a @ explode d b"
  by (induction a) (auto split: list.splits)

lemma explode_append_plain: "d \<notin> set a \<Longrightarrow> explode d (a @ b) = (a @ hd (explode d b)) # tl (explode d b)"
  by (induction a) (auto split: list.splits)

lemma implode_append: "\<lbrakk>as \<noteq> []; bs \<noteq> []\<rbrakk> \<Longrightarrow> implode sep (as @ bs) = implode sep as @ sep @ implode sep bs"
proof (induction as)
  case (Cons a as)
  then show ?case by (cases "as = []") (simp_all add: implode_Cons)
qed simp

lemma explode_implode_concat:
  "rs \<noteq> [] \<Longrightarrow> explode d (implode [d] rs) = concat (map (explode d) rs)"
proof (induction rs)
  case (Cons r rs)
  then show ?case by (cases "rs = []") (simp_all add: implode_Cons explode_append)
qed simp

lemma explode_implode:
  assumes "ls \<noteq> []" and "\<And>l. l \<in> set ls \<Longrightarrow> d \<notin> set l"
  shows "explode d (implode [d] ls) = ls"
proof -
  have "concat (map (explode d) ks) = ks" if "\<And>l. l \<in> set ks \<Longrightarrow> d \<notin> set l" for ks
    using that by (induction ks) (auto simp: explode_plain)
  with assms show ?thesis by (simp add: explode_implode_concat)
qed

lemma length_explode: "length (explode d s) = Suc (count_list s d)"
  by (induction s) (auto split: list.splits)

lemma split_lines_not_Nil [simp]: "split_lines s \<noteq> []"
  by (simp add: split_lines_def)

lemma join_split [line_simps]: "join_lines (split_lines s) = s"
  by (simp add: join_lines_def split_lines_def)

lemma split_join [line_simps]: "\<lbrakk>ls \<noteq> []; \<And>l. l \<in> set ls \<Longrightarrow> nl \<notin> set l\<rbrakk> \<Longrightarrow> split_lines (join_lines ls) = ls"
  by (simp add: join_lines_def split_lines_def explode_implode)

lemma split_lines_mem: "l \<in> set (split_lines s) \<Longrightarrow> nl \<notin> set l"
  unfolding split_lines_def by (rule explode_mem)

lemma split_lines_append: "split_lines (a @ nl # b) = split_lines a @ split_lines b"
  by (simp add: split_lines_def explode_append)

lemma split_lines_plain [line_simps]: "nl \<notin> set s \<Longrightarrow> split_lines s = [s]"
  by (simp add: split_lines_def explode_plain)

lemma join_lines_simps [simp]:
  "join_lines [] = []" "join_lines [l] = l" "ls \<noteq> [] \<Longrightarrow> join_lines (l # ls) = l @ nl # join_lines ls"
  by (simp_all add: join_lines_def implode_Cons)

lemma join_lines_append: "\<lbrakk>as \<noteq> []; bs \<noteq> []\<rbrakk> \<Longrightarrow> join_lines (as @ bs) = join_lines as @ nl # join_lines bs"
  by (simp add: join_lines_def implode_append)

text \<open>The offset at which line \<open>p\<close> starts.\<close>

definition line_start :: "nat \<Rightarrow> string list \<Rightarrow> nat" where
  "line_start p ls = sum_list (map (\<lambda>l. length l + 1) (take p ls))"

lemma line_start_simps [simp]:
  "line_start 0 ls = 0" "line_start (Suc p) (l # ls) = length l + 1 + line_start p ls"
  by (simp_all add: line_start_def)

text \<open>The text of a list of lines, cut at line \<open>p\<close>.\<close>

lemma join_lines_at:
  "p < length ls \<Longrightarrow>
     \<exists>a b. join_lines ls = a @ (ls ! p) @ b \<and> length a = line_start p ls
       \<and> count_list a nl = p + count_list (concat (take p ls)) nl
       \<and> (\<forall>l. join_lines (ls[p := l]) = a @ l @ b)"
proof (induction ls arbitrary: p)
  case (Cons k ls)
  show ?case
  proof (cases p)
    case 0
    then show ?thesis by (cases "ls = []") (auto intro!: exI [of _ "[]"])
  next
    case (Suc q)
    with Cons.prems have "q < length ls" "ls \<noteq> []" by auto
    from Cons.IH [OF this(1)] obtain a b where
      "join_lines ls = a @ (ls ! q) @ b" "length a = line_start q ls"
      "count_list a nl = q + count_list (concat (take q ls)) nl"
      "\<forall>l. join_lines (ls[q := l]) = a @ l @ b" by blast
    with Suc \<open>ls \<noteq> []\<close> show ?thesis
      by (intro exI [of _ "k @ nl # a"] exI [of _ b]) simp
  qed
qed simp

section \<open>Slices and searches\<close>

text \<open>\<open>x || ""\<close> of a string that may be missing.\<close>

definition or_empty :: "string option \<Rightarrow> string" where
  "or_empty x = (case x of None \<Rightarrow> [] | Some s \<Rightarrow> s)"

text \<open>\<open>s.slice(i, j)\<close> for \<open>0 \<le> i\<close>.\<close>

definition slice :: "nat \<Rightarrow> nat \<Rightarrow> 'a list \<Rightarrow> 'a list" where
  "slice i j xs = take (j - i) (drop i xs)"

lemma slice_parts: "i \<le> j \<Longrightarrow> take i xs @ slice i j xs @ drop j xs = xs"
  by (simp add: slice_def) (metis append_take_drop_id drop_drop le_add_diff_inverse2)

lemma length_slice [simp]: "j \<le> length xs \<Longrightarrow> length (slice i j xs) = j - i"
  by (simp add: slice_def)

text \<open>\<open>findIndex\<close>: the first index of an element with the property, if any.\<close>

fun find_index :: "('a \<Rightarrow> bool) \<Rightarrow> 'a list \<Rightarrow> nat option" where
  "find_index P [] = None"
| "find_index P (x # xs) = (if P x then Some 0 else map_option Suc (find_index P xs))"

lemma find_index_Some: "find_index P xs = Some i \<Longrightarrow> i < length xs \<and> P (xs ! i) \<and> (\<forall>j < i. \<not> P (xs ! j))"
proof (induction xs arbitrary: i)
  case (Cons x xs)
  show ?case
  proof (cases "P x")
    case False
    with Cons.prems obtain k where k: "find_index P xs = Some k" "i = Suc k" by auto
    from Cons.IH [OF k(1)] False k(2) show ?thesis by (auto simp: nth_Cons split: nat.splits)
  qed (use Cons.prems in auto)
qed simp

lemma find_index_None: "find_index P xs = None \<longleftrightarrow> (\<forall>x \<in> set xs. \<not> P x)"
  by (induction xs) auto

text \<open>\<open>splice(i, 1)\<close> and \<open>splice(i, 0, x)\<close> for an index in range or past the end.\<close>

definition remove_at :: "nat \<Rightarrow> 'a list \<Rightarrow> 'a list" where
  "remove_at i xs = take i xs @ drop (Suc i) xs"

definition insert_at :: "nat \<Rightarrow> 'a \<Rightarrow> 'a list \<Rightarrow> 'a list" where
  "insert_at i x xs = take i xs @ x # drop i xs"

lemma mset_move:
  "i < length xs \<Longrightarrow> mset (insert_at j (xs ! i) (remove_at i xs)) = mset xs"
  unfolding insert_at_def remove_at_def
  by (metis (no_types, lifting) add_mset_add_single append_take_drop_id id_take_nth_drop mset.simps(2) mset_append
      union_mset_add_mset_right)

lemma length_remove_at [simp]: "i < length xs \<Longrightarrow> length (remove_at i xs) = length xs - 1"
  by (simp add: remove_at_def)

lemma length_insert_at [simp]: "length (insert_at i x xs) = Suc (length xs)"
  by (simp add: insert_at_def)

text \<open>\<open>replaceAll\<close> of a non-empty literal, from left to right.\<close>

function replace_all :: "string \<Rightarrow> string \<Rightarrow> string \<Rightarrow> string" where
  "replace_all p r [] = []"
| "replace_all p r (c # s) =
     (if p \<noteq> [] \<and> str_starts_with (c # s) p then r @ replace_all p r (drop (length p) (c # s))
      else c # replace_all p r s)"
  by pat_completeness auto
termination by (relation "measure (\<lambda>(p, r, s). length s)") (auto simp: neq_Nil_conv)

lemma replace_all_other: "\<lbrakk>p \<noteq> []; hd p \<notin> set s\<rbrakk> \<Longrightarrow> replace_all p r s = s"
  by (induction p r s rule: replace_all.induct) (auto simp: str_starts_with_def neq_Nil_conv)

text \<open>\<open>replace(/\r\n?/g, "\n")\<close>.\<close>

fun normalize_newlines :: "string \<Rightarrow> string" where
  "normalize_newlines [] = []"
| "normalize_newlines (c # s) =
     (if c = cr then nl # (case s of d # t \<Rightarrow> if d = nl then normalize_newlines t else normalize_newlines s | [] \<Rightarrow> [])
      else c # normalize_newlines s)"

lemma normalize_newlines_no_cr: "cr \<notin> set (normalize_newlines s)"
  by (induction s rule: normalize_newlines.induct) (auto split: list.splits)

lemma normalize_newlines_id: "cr \<notin> set s \<Longrightarrow> normalize_newlines s = s"
  by (induction s rule: normalize_newlines.induct) auto

text \<open>Lower case of the characters up to 255.\<close>

definition js_lower_char :: "char \<Rightarrow> char" where
  "js_lower_char c =
     (let n = (of_char c :: nat) in
      if 65 \<le> n \<and> n \<le> 90 \<or> 192 \<le> n \<and> n \<le> 222 \<and> n \<noteq> 215 then char_of (n + 32) else c)"

definition js_lower :: "string \<Rightarrow> string" where "js_lower s = map js_lower_char s"

text \<open>The digits of a number.\<close>

lemma nat_to_string_digits: "list_all (\<lambda>c. c \<in> set ''0123456789'') (nat_to_string n) \<and> nat_to_string n \<noteq> []"
proof (induction n rule: nat_to_string.induct)
  case (1 n)
  have "list_all (\<lambda>k. (char_of (48 + k) :: char) \<in> set ''0123456789'') [0..<10]" by code_simp
  then have digit: "(char_of (48 + k) :: char) \<in> set ''0123456789''" if "k < 10" for k :: nat
    using that by (simp only: list_all_iff set_upt) (metis atLeastLessThan_iff le0)
  show ?case
  proof (cases "n < 10")
    case True
    then show ?thesis using digit by (simp only: nat_to_string.simps [of n] if_True list.pred_inject) simp
  next
    case False
    then show ?thesis using 1 digit [of "n mod 10"]
      by (simp only: nat_to_string.simps [of n] if_False list_all_append list.pred_inject) simp
  qed
qed

end
