(* ===== verification/Editor_Style.thy ===== *)
theory Editor_Style
  imports Script_Text
begin

text \<open>
  \<open>public/js/filament/forms/components/rich-editor.js\<close>: the style sheet the rich editor puts
  into the page (\<open>l0\<close>, \<open>createStyleTag\<close>, \<open>injectCSS\<close>). The head of the document is the list
  of its style elements, each with its marker attribute, its nonce and its text.
\<close>

section \<open>The style sheet\<close>

definition editor_style_lines :: "string list" where
  "editor_style_lines =
     [''.ProseMirror {'',
      ''  position: relative;'',
      ''}'',
      '''',
      ''.ProseMirror {'',
      ''  word-wrap: break-word;'',
      ''  white-space: pre-wrap;'',
      ''  white-space: break-spaces;'',
      ''  -webkit-font-variant-ligatures: none;'',
      ''  font-variant-ligatures: none;'',
      ''  font-feature-settings: \"liga\" 0; /* the above doesn't seem to work in Edge */'',
      ''}'',
      '''',
      ''.ProseMirror [contenteditable=\"false\"] {'',
      ''  white-space: normal;'',
      ''}'',
      '''',
      ''.ProseMirror [contenteditable=\"false\"] [contenteditable=\"true\"] {'',
      ''  white-space: pre-wrap;'',
      ''}'',
      '''',
      ''.ProseMirror pre {'',
      ''  white-space: pre-wrap;'',
      ''}'',
      '''',
      ''img.ProseMirror-separator {'',
      ''  display: inline !important;'',
      ''  border: none !important;'',
      ''  margin: 0 !important;'',
      ''  width: 0 !important;'',
      ''  height: 0 !important;'',
      ''}'',
      '''',
      ''.ProseMirror-gapcursor {'',
      ''  display: none;'',
      ''  pointer-events: none;'',
      ''  position: absolute;'',
      ''  margin: 0;'',
      ''}'',
      '''',
      ''.ProseMirror-gapcursor:after {'',
      ''  content: \"\";'',
      ''  display: block;'',
      ''  position: absolute;'',
      ''  top: -2px;'',
      ''  width: 20px;'',
      ''  border-top: 1px solid black;'',
      ''  animation: ProseMirror-cursor-blink 1.1s steps(2, start) infinite;'',
      ''}'',
      '''',
      ''@keyframes ProseMirror-cursor-blink {'',
      ''  to {'',
      ''    visibility: hidden;'',
      ''  }'',
      ''}'',
      '''',
      ''.ProseMirror-hideselection *::selection {'',
      ''  background: transparent;'',
      ''}'',
      '''',
      ''.ProseMirror-hideselection *::-moz-selection {'',
      ''  background: transparent;'',
      ''}'',
      '''',
      ''.ProseMirror-hideselection * {'',
      ''  caret-color: transparent;'',
      ''}'',
      '''',
      ''.ProseMirror-focused .ProseMirror-gapcursor {'',
      ''  display: block;'',
      ''}'']"

definition editor_css :: string where
  "editor_css = join_lines editor_style_lines"

section \<open>Style elements\<close>

record style_element =
  st_marker :: string
  st_nonce :: "string option"
  st_text :: string

text \<open>An empty or missing suffix gives the plain marker; so does a missing nonce.\<close>

definition style_marker :: "string option \<Rightarrow> string" where
  "style_marker suff =
     ''data-tiptap-style'' @ (case suff of None \<Rightarrow> [] | Some t \<Rightarrow> if t = [] then [] else ''-'' @ t)"

definition new_style :: "string \<Rightarrow> string option \<Rightarrow> string option \<Rightarrow> style_element" where
  "new_style css nonce suff =
     \<lparr>st_marker = style_marker suff,
      st_nonce = (case nonce of None \<Rightarrow> None | Some n \<Rightarrow> if n = [] then None else Some n),
      st_text = css\<rparr>"

text \<open>\<open>createStyleTag\<close> returns the element that is already there, or appends a new one.\<close>

definition create_style_tag ::
  "string \<Rightarrow> string option \<Rightarrow> string option \<Rightarrow> style_element list \<Rightarrow> style_element \<times> style_element list" where
  "create_style_tag css nonce suff hd_els =
     (case find (\<lambda>e. st_marker e = style_marker suff) hd_els of
        Some e \<Rightarrow> (e, hd_els)
      | None \<Rightarrow> (new_style css nonce suff, hd_els @ [new_style css nonce suff]))"

text \<open>Mounting an editor: \<open>injectCSS\<close> with the options \<open>injectCSS\<close> and \<open>injectNonce\<close>.\<close>

definition inject_css :: "bool \<Rightarrow> string option \<Rightarrow> style_element list \<Rightarrow> style_element list" where
  "inject_css enabled nonce hd_els =
     (if enabled then snd (create_style_tag editor_css nonce None hd_els) else hd_els)"

section \<open>Facts\<close>

lemma find_append: "find P (xs @ ys) = (case find P xs of None \<Rightarrow> find P ys | r \<Rightarrow> r)"
  by (induction xs) auto

lemma style_marker_inj:
  "style_marker (Some s) = style_marker (Some t) \<longleftrightarrow> s = t"
  by (auto simp: style_marker_def split: if_splits)

lemma new_style_marker [simp]: "st_marker (new_style css n s) = style_marker s"
  by (simp add: new_style_def)

lemma create_style_tag_again:
  assumes "create_style_tag css n s h = (e, h')"
  shows "create_style_tag css2 n2 s h' = (e, h')"
  using assms by (auto simp: create_style_tag_def find_append split: option.splits)

lemma create_style_tag_distinct:
  assumes "distinct (map st_marker h)"
  shows "distinct (map st_marker (snd (create_style_tag css n s h)))"
proof (cases "find (\<lambda>e. st_marker e = style_marker s) h")
  case None
  then have "style_marker s \<notin> st_marker ` set h" by (auto simp: find_None_iff)
  with None assms show ?thesis by (auto simp: create_style_tag_def)
qed (use assms in \<open>simp add: create_style_tag_def\<close>)

lemma create_style_tag_extends: "\<exists>add. snd (create_style_tag css n s h) = h @ add \<and> length add \<le> 1"
  by (auto simp: create_style_tag_def split: option.splits)

lemma create_style_tag_present: "style_marker s \<in> st_marker ` set (snd (create_style_tag css n s h))"
proof (cases "find (\<lambda>e. st_marker e = style_marker s) h")
  case (Some e)
  then have "e \<in> set h" "st_marker e = style_marker s" by (auto simp: find_Some_iff)
  then have "style_marker s \<in> st_marker ` set h" by (metis image_eqI)
  with Some show ?thesis by (simp add: create_style_tag_def)
qed (simp add: create_style_tag_def)

text \<open>Mounting any number of editors, each with its own options.\<close>

definition mount_all :: "(bool \<times> string option) list \<Rightarrow> style_element list \<Rightarrow> style_element list" where
  "mount_all opts h = fold (\<lambda>(b, n). inject_css b n) opts h"

lemma mount_all_present:
  "\<lbrakk>e \<in> set h; st_marker e = style_marker None\<rbrakk> \<Longrightarrow> mount_all opts h = h"
proof (induction opts)
  case (Cons o1 opts)
  then have "find (\<lambda>e. st_marker e = style_marker None) h \<noteq> None" by (auto simp: find_None_iff)
  then have "inject_css (fst o1) (snd o1) h = h" by (auto simp: inject_css_def create_style_tag_def)
  with Cons show ?case by (simp add: mount_all_def case_prod_beta)
qed (simp add: mount_all_def)

lemma mount_all_fresh:
  assumes "\<forall>e \<in> set h. st_marker e \<noteq> style_marker None"
  shows "mount_all opts h = h @ (case find fst opts of None \<Rightarrow> [] | Some (_, n) \<Rightarrow> [new_style editor_css n None])"
  using assms
proof (induction opts)
  case (Cons o1 opts)
  obtain b n where o1: "o1 = (b, n)" by (cases o1)
  show ?case
  proof (cases b)
    case True
    have "find (\<lambda>e. st_marker e = style_marker None) h = None" using Cons.prems by (auto simp: find_None_iff)
    then have "inject_css b n h = h @ [new_style editor_css n None]"
      using True by (simp add: inject_css_def create_style_tag_def)
    moreover have "mount_all opts (h @ [new_style editor_css n None]) = h @ [new_style editor_css n None]"
      by (rule mount_all_present [of "new_style editor_css n None"]) simp_all
    ultimately show ?thesis using o1 True by (simp add: mount_all_def)
  next
    case False
    then have "inject_css b n h = h" by (simp add: inject_css_def)
    then show ?thesis using Cons.IH [OF Cons.prems] o1 False by (simp add: mount_all_def)
  qed
qed (simp add: mount_all_def)

section \<open>The property of the style sheet\<close>

text \<open>
  Mounting any number of editors on a page adds the style sheet at most once: the first
  editor that injects it appends one element with its nonce, everything else in the head stays,
  and later mounts change nothing.
\<close>
theorem style_injected_once:
  assumes "\<forall>e \<in> set h. st_marker e \<noteq> style_marker None"
  shows "mount_all opts h = h @ (case find fst opts of None \<Rightarrow> [] | Some (_, n) \<Rightarrow> [new_style editor_css n None])
    \<and> (find fst opts \<noteq> None \<longrightarrow> mount_all opts2 (mount_all opts h) = mount_all opts h)"
proof (intro conjI impI)
  show m: "mount_all opts h = h @ (case find fst opts of None \<Rightarrow> [] | Some (_, n) \<Rightarrow> [new_style editor_css n None])"
    by (rule mount_all_fresh [OF assms])
  assume "find fst opts \<noteq> None"
  then obtain b n where "find fst opts = Some (b, n)" by auto
  with m have "new_style editor_css n None \<in> set (mount_all opts h)" by simp
  then show "mount_all opts2 (mount_all opts h) = mount_all opts h"
    by (rule mount_all_present) simp
qed

end
