(* ===== verification/Editor_Code_Block.thy ===== *)
theory Editor_Code_Block
  imports Script_Text
begin

text \<open>
  The code block of the rich editor
  (\<open>public/js/filament/forms/components/rich-editor.js\<close>, the \<open>codeBlock\<close> node): its Tab,
  Shift-Tab and Enter keys, its Markdown, and the normalisation of text pasted into it. The
  state is the text of the block with the two ends of the selection as offsets into it; a
  selection that leaves the block is not modelled.
\<close>

section \<open>State and options\<close>

record code_state =
  cb_text :: string
  cb_from :: nat
  cb_to :: nat

record code_options =
  co_enable_tab :: bool
  co_tab_size :: "nat option"
  co_exit_triple_enter :: bool

definition code_state_ok :: "code_state \<Rightarrow> bool" where
  "code_state_ok s \<longleftrightarrow> cb_from s \<le> cb_to s \<and> cb_to s \<le> length (cb_text s)"

definition tab_size :: "code_options \<Rightarrow> nat" where
  "tab_size opt = (case co_tab_size opt of None \<Rightarrow> 4 | Some n \<Rightarrow> n)"

text \<open>Replacing the selected text; the selection then covers the new text.\<close>

definition replace_selection :: "string \<Rightarrow> code_state \<Rightarrow> code_state" where
  "replace_selection t s =
     s\<lparr>cb_text := take (cb_from s) (cb_text s) @ t @ drop (cb_to s) (cb_text s),
       cb_to := cb_from s + length t\<rparr>"

definition selected_text :: "code_state \<Rightarrow> string" where
  "selected_text s = slice (cb_from s) (cb_to s) (cb_text s)"

section \<open>Tab\<close>

definition indent_lines :: "nat \<Rightarrow> string \<Rightarrow> string" where
  "indent_lines n t = join_lines (map (\<lambda>p. replicate n (CHR '' '') @ p) (split_lines t))"

text \<open>\<open>None\<close>: the key is not handled. A cursor inserts the spaces and moves behind them.\<close>

definition tab_key :: "code_options \<Rightarrow> bool \<Rightarrow> code_state \<Rightarrow> code_state option" where
  "tab_key opt in_code s =
     (if \<not> co_enable_tab opt \<or> \<not> in_code then None
      else if cb_from s = cb_to s then
        Some (s\<lparr>cb_text := take (cb_from s) (cb_text s) @ replicate (tab_size opt) (CHR '' '')
                            @ drop (cb_from s) (cb_text s),
                cb_from := cb_from s + tab_size opt, cb_to := cb_from s + tab_size opt\<rparr>)
      else Some (replace_selection (indent_lines (tab_size opt) (selected_text s)) s))"

section \<open>Shift-Tab\<close>

definition outdent_line :: "nat \<Rightarrow> string \<Rightarrow> string" where
  "outdent_line n l = drop (min (leading_blanks l) n) l"

definition outdent_lines :: "nat \<Rightarrow> string \<Rightarrow> string" where
  "outdent_lines n t = join_lines (map (outdent_line n) (split_lines t))"

text \<open>
  The loop that finds the line of the cursor: \<open>cursor_line g m k ls\<close> looks through the lines
  \<open>ls\<close>, the first of which has number \<open>k\<close> and starts at offset \<open>m\<close>; without a hit the result
  stays 0.
\<close>

fun cursor_line :: "nat \<Rightarrow> nat \<Rightarrow> nat \<Rightarrow> string list \<Rightarrow> nat" where
  "cursor_line g m k [] = 0"
| "cursor_line g m k (l # ls) = (if g \<le> m + length l then k else cursor_line g (m + length l + 1) (Suc k) ls)"

definition outdent_cursor :: "nat \<Rightarrow> code_state \<Rightarrow> code_state" where
  "outdent_cursor n s =
     (let ls = split_lines (cb_text s);
          p = cursor_line (cb_from s) 0 0 ls;
          b = min (leading_blanks (ls ! p)) n;
          x = line_start p ls;
          c = (if cb_from s \<le> x + b then x else cb_from s - b)
      in if b = 0 then s
         else s\<lparr>cb_text := take x (cb_text s) @ drop (x + b) (cb_text s), cb_from := c, cb_to := c\<rparr>)"

definition shift_tab_key :: "code_options \<Rightarrow> bool \<Rightarrow> code_state \<Rightarrow> code_state option" where
  "shift_tab_key opt in_code s =
     (if \<not> co_enable_tab opt \<or> \<not> in_code then None
      else if cb_from s = cb_to s then Some (outdent_cursor (tab_size opt) s)
      else Some (replace_selection (outdent_lines (tab_size opt) (selected_text s)) s))"

section \<open>Enter\<close>

definition ends_with :: "string \<Rightarrow> string \<Rightarrow> bool" where
  "ends_with s p \<longleftrightarrow> length p \<le> length s \<and> drop (length s - length p) s = p"

text \<open>
  The third Enter at the end of the block: the two line ends typed before are deleted and the
  editor leaves the block. \<open>None\<close>: not handled here.
\<close>

definition enter_key :: "code_options \<Rightarrow> bool \<Rightarrow> code_state \<Rightarrow> code_state option" where
  "enter_key opt in_code s =
     (if \<not> co_exit_triple_enter opt then None
      else if cb_from s \<noteq> cb_to s \<or> \<not> in_code then None
      else if cb_from s \<noteq> length (cb_text s) \<or> \<not> ends_with (cb_text s) [nl, nl] then None
      else Some (s\<lparr>cb_text := take (cb_from s - 2) (cb_text s) @ drop (cb_from s) (cb_text s),
                   cb_from := cb_from s - 2, cb_to := cb_from s - 2\<rparr>))"

section \<open>Markdown\<close>

definition fence :: string where "fence = ''```''"

text \<open>\<open>renderMarkdown\<close>: without content the block is an empty fence; the language may be missing.\<close>

definition render_code_block :: "string option \<Rightarrow> string option \<Rightarrow> string" where
  "render_code_block lang children =
     (case children of
        Some t \<Rightarrow> join_lines [fence @ or_empty lang, t, fence]
      | None \<Rightarrow> fence @ or_empty lang @ [nl, nl] @ fence)"

text \<open>
  \<open>parseMarkdown\<close> of the lexer's token \<open>code\<close> (its \<open>raw\<close> text, style, language and text):
  \<open>None\<close> stands for the empty result.
\<close>

record code_token =
  ct_raw :: "string option"
  ct_style :: "string option"
  ct_lang :: "string option"
  ct_text :: string

definition nonempty :: "string \<Rightarrow> string option" where
  "nonempty s = (if s = [] then None else Some s)"

definition parse_code_token :: "code_token \<Rightarrow> (string option \<times> string option) option" where
  "parse_code_token t =
     (let not_fenced = (\<lambda>f. case ct_raw t of None \<Rightarrow> False | Some r \<Rightarrow> \<not> str_starts_with r f)
      in if not_fenced fence \<and> not_fenced ''~~~'' \<and> ct_style t \<noteq> Some ''indented'' then None
         else Some (Option.bind (ct_lang t) nonempty, nonempty (ct_text t)))"

section \<open>Lines and offsets\<close>

lemma leading_blanks_replicate [simp]: "leading_blanks (replicate n (CHR '' '') @ p) = n + leading_blanks p"
  by (induction n) (auto simp: leading_blanks_def)

lemma leading_blanks_le: "leading_blanks l \<le> length l"
  by (simp add: leading_blanks_def length_takeWhile_le)

lemma outdent_indent_line [simp]: "outdent_line n (replicate n (CHR '' '') @ p) = p"
  by (simp add: outdent_line_def)

lemma outdent_line_mem: "c \<in> set (outdent_line n l) \<Longrightarrow> c \<in> set l"
  unfolding outdent_line_def by (rule in_set_dropD)

lemma split_lines_indent:
  "split_lines (indent_lines n t) = map (\<lambda>p. replicate n (CHR '' '') @ p) (split_lines t)"
  unfolding indent_lines_def by (rule split_join) (auto dest: split_lines_mem)

lemma split_lines_outdent: "split_lines (outdent_lines n t) = map (outdent_line n) (split_lines t)"
  unfolding outdent_lines_def by (rule split_join) (auto dest!: outdent_line_mem split_lines_mem)

lemma outdent_indent_lines: "outdent_lines n (indent_lines n t) = t"
  by (simp add: outdent_lines_def split_lines_indent comp_def join_split)

lemma length_indent_lines: "length t \<le> length (indent_lines n t)"
proof -
  have "length (join_lines ls) \<le> length (join_lines (map (\<lambda>p. replicate n (CHR '' '') @ p) ls))" for ls
    by (induction ls rule: implode.induct [of _ "[nl]"]) (auto simp: join_lines_def)
  from this [of "split_lines t"] show ?thesis by (simp add: indent_lines_def join_split)
qed

lemma cursor_line_bounds:
  "\<lbrakk>ls \<noteq> []; m \<le> g; g \<le> m + length (join_lines ls)\<rbrakk> \<Longrightarrow>
     \<exists>p < length ls. cursor_line g m k ls = k + p \<and> m + line_start p ls \<le> g
       \<and> g \<le> m + line_start p ls + length (ls ! p)"
proof (induction ls arbitrary: m k)
  case (Cons l ls)
  show ?case
  proof (cases "g \<le> m + length l")
    case True
    with Cons.prems show ?thesis by (intro exI [of _ 0]) simp
  next
    case False
    with Cons.prems have "ls \<noteq> []" by (cases ls) auto
    moreover have "g \<le> (m + length l + 1) + length (join_lines ls)" using Cons.prems(3) \<open>ls \<noteq> []\<close> by simp
    moreover have "m + length l + 1 \<le> g" using False by simp
    ultimately obtain p where "p < length ls" "cursor_line g (m + length l + 1) (Suc k) ls = Suc k + p"
      "m + length l + 1 + line_start p ls \<le> g" "g \<le> m + length l + 1 + line_start p ls + length (ls ! p)"
      using Cons.IH [of "m + length l + 1" "Suc k"] by blast
    with False show ?thesis by (intro exI [of _ "Suc p"]) simp
  qed
qed simp

lemma count_list_concat_lines: "\<forall>l \<in> set ls. nl \<notin> set l \<Longrightarrow> count_list (concat ls) nl = 0"
  by (induction ls) (auto simp: count_list_0_iff)

text \<open>
  The cursor's line, cut out of the text: \<open>a\<close> before it, \<open>b\<close> behind it, and the column of the
  cursor in it.
\<close>

lemma cursor_line_cut:
  assumes "g \<le> length t"
  obtains p a b where "p < length (split_lines t)" "cursor_line g 0 0 (split_lines t) = p"
    "t = a @ (split_lines t ! p) @ b" "length a = line_start p (split_lines t)"
    "length a \<le> g" "g - length a \<le> length (split_lines t ! p)"
    "count_list (take g t) nl = p"
    "\<forall>l. nl \<notin> set l \<longrightarrow> split_lines (a @ l @ b) = (split_lines t)[p := l]"
    "count_list a nl = p"
proof -
  let ?ls = "split_lines t"
  obtain p where p: "p < length ?ls" "cursor_line g 0 0 ?ls = p" "line_start p ?ls \<le> g"
    "g \<le> line_start p ?ls + length (?ls ! p)"
    using cursor_line_bounds [of ?ls 0 g 0] assms by (auto simp: join_split)
  from join_lines_at [OF p(1)] obtain a b where ab: "t = a @ (?ls ! p) @ b" "length a = line_start p ?ls"
    "count_list a nl = p + count_list (concat (take p ?ls)) nl"
    "\<And>l. join_lines (?ls[p := l]) = a @ l @ b" by (auto simp: join_split)
  have "count_list (concat (take p ?ls)) nl = 0"
    by (rule count_list_concat_lines) (meson in_set_takeD split_lines_mem)
  with ab(3) have count: "count_list a nl = p" by simp
  have "nl \<notin> set (?ls ! p)" using p(1) by (intro split_lines_mem [of _ t] nth_mem)
  then have "count_list (take (g - length a) (?ls ! p)) nl = 0"
    by (meson count_list_0_iff in_set_takeD)
  moreover have "take g t = a @ take (g - length a) (?ls ! p)"
  proof -
    have "take g t = take g (a @ (?ls ! p) @ b)" using ab(1) by (rule arg_cong)
    with p(3,4) ab(2) show ?thesis by simp
  qed
  ultimately have "count_list (take g t) nl = p" by (simp add: count)
  moreover have lines: "split_lines (a @ l @ b) = ?ls[p := l]" if "nl \<notin> set l" for l
    unfolding ab(4) [symmetric]
    by (rule split_join) (use that in \<open>auto dest!: set_update_subset_insert [THEN subsetD] split_lines_mem\<close>)
  moreover have "g - length a \<le> length (?ls ! p)" using p(4) ab(2) by simp
  ultimately show thesis using that [of p a b] p ab(1,2) count by auto
qed

section \<open>The keys\<close>

lemma replace_selection_ok: "code_state_ok s \<Longrightarrow> code_state_ok (replace_selection t s)"
  by (auto simp: code_state_ok_def replace_selection_def)

lemma selected_replace_selection:
  "code_state_ok s \<Longrightarrow> selected_text (replace_selection t s) = t"
  by (simp add: code_state_ok_def selected_text_def replace_selection_def slice_def min_def)

lemma replace_selection_again:
  "code_state_ok s \<Longrightarrow> replace_selection u (replace_selection t s) = replace_selection u s"
  by (simp add: code_state_ok_def replace_selection_def min_def)

lemma replace_selection_same: "code_state_ok s \<Longrightarrow> replace_selection (selected_text s) s = s"
  using slice_parts [of "cb_from s" "cb_to s" "cb_text s"]
  by (simp add: code_state_ok_def selected_text_def replace_selection_def)

lemma outdent_cursor_spec:
  assumes "code_state_ok s" and "cb_from s = cb_to s"
  defines "p \<equiv> count_list (take (cb_from s) (cb_text s)) nl"
  shows "split_lines (cb_text (outdent_cursor n s))
      = (split_lines (cb_text s))[p := outdent_line n (split_lines (cb_text s) ! p)]
    \<and> count_list (take (cb_from (outdent_cursor n s)) (cb_text (outdent_cursor n s))) nl = p
    \<and> code_state_ok (outdent_cursor n s) \<and> cb_from (outdent_cursor n s) = cb_to (outdent_cursor n s)
    \<and> p < length (split_lines (cb_text s))"
proof -
  let ?t = "cb_text s" and ?g = "cb_from s"
  let ?ls = "split_lines ?t"
  have "?g \<le> length ?t" using assms(1) by (simp add: code_state_ok_def)
  then obtain q a b where q: "q < length ?ls" "cursor_line ?g 0 0 ?ls = q" "?t = a @ (?ls ! q) @ b"
    "length a = line_start q ?ls" "length a \<le> ?g" "?g - length a \<le> length (?ls ! q)"
    "count_list (take ?g ?t) nl = q"
    "\<forall>l. nl \<notin> set l \<longrightarrow> split_lines (a @ l @ b) = ?ls[q := l]" "count_list a nl = q"
    by (rule cursor_line_cut) blast
  have pq: "p = q" using q(7) by (simp add: p_def)
  let ?l = "?ls ! q" and ?b = "min (leading_blanks (?ls ! q)) n"
  have bl: "?b \<le> length ?l" using leading_blanks_le [of ?l] by simp
  have plain: "nl \<notin> set ?l" using q(1) by (intro split_lines_mem [of _ ?t] nth_mem)
  have out: "outdent_line n ?l = drop ?b ?l" by (simp add: outdent_line_def)
  have cut: "take (length a) ?t @ drop (length a + ?b) ?t = a @ drop ?b ?l @ b"
    using bl by (subst (1 2) q(3)) simp
  let ?s' = "s\<lparr>cb_text := a @ drop ?b ?l @ b, cb_from := length a + (?g - length a - ?b),
               cb_to := length a + (?g - length a - ?b)\<rparr>"
  have s': "outdent_cursor n s = ?s'"
  proof (cases "?b = 0")
    case True
    then have "a @ drop ?b ?l @ b = ?t" using q(3) by simp
    with True q(2,5) assms(2) show ?thesis by (auto simp: outdent_cursor_def Let_def)
  next
    case False
    then show ?thesis
      using q(2,4,5) cut by (auto simp: outdent_cursor_def Let_def)
  qed
  have "nl \<notin> set (drop ?b ?l)" using plain by (meson in_set_dropD)
  then have lines: "split_lines (cb_text ?s') = ?ls[q := outdent_line n ?l]" using q(8) out by simp
  let ?c = "take (?g - length a - ?b) (drop ?b ?l)"
  have "take (cb_from ?s') (cb_text ?s') = a @ ?c" using q(6) by simp
  then have "count_list (take (cb_from ?s') (cb_text ?s')) nl = count_list (a @ ?c) nl" by (rule arg_cong)
  also have "\<dots> = q + count_list ?c nl" by (simp only: count_list_append q(9))
  also have "count_list ?c nl = 0" using plain by (meson count_list_0_iff in_set_dropD in_set_takeD)
  finally have "count_list (take (cb_from ?s') (cb_text ?s')) nl = q" by (simp only: add_0_right)
  moreover have "code_state_ok ?s'" using q(6) by (simp add: code_state_ok_def)
  ultimately show ?thesis unfolding s' pq using lines q(1) by simp
qed

lemma tab_key_ok: "\<lbrakk>code_state_ok s; tab_key opt b s = Some s'\<rbrakk> \<Longrightarrow> code_state_ok s'"
  by (auto simp: tab_key_def replace_selection_ok split: if_splits) (auto simp: code_state_ok_def)

lemma shift_tab_key_ok: "\<lbrakk>code_state_ok s; shift_tab_key opt b s = Some s'\<rbrakk> \<Longrightarrow> code_state_ok s'"
  using outdent_cursor_spec [of s "tab_size opt"]
  by (auto simp: shift_tab_key_def replace_selection_ok split: if_splits)

lemma enter_key_ok: "\<lbrakk>code_state_ok s; enter_key opt b s = Some s'\<rbrakk> \<Longrightarrow> code_state_ok s'"
  by (auto simp: enter_key_def code_state_ok_def ends_with_def split: if_splits)

lemma tab_then_shift_tab:
  assumes "code_state_ok s" and "cb_from s < cb_to s" and "tab_key opt b s = Some s1"
  shows "shift_tab_key opt b s1 = Some s"
proof -
  let ?n = "tab_size opt" and ?t = "selected_text s"
  from assms have e: "co_enable_tab opt" "b" and s1: "s1 = replace_selection (indent_lines ?n ?t) s"
    by (auto simp: tab_key_def split: if_splits)
  have "length ?t = cb_to s - cb_from s"
    using assms(1) by (simp add: selected_text_def code_state_ok_def)
  then have "0 < length (indent_lines ?n ?t)" using length_indent_lines [of ?t ?n] assms(2) by linarith
  then have "cb_from s1 \<noteq> cb_to s1" by (simp add: s1 replace_selection_def)
  then have "shift_tab_key opt b s1 = Some (replace_selection (outdent_lines ?n (selected_text s1)) s1)"
    using e by (simp add: shift_tab_key_def)
  also have "\<dots> = Some s"
    using assms(1) by (simp add: s1 selected_replace_selection outdent_indent_lines replace_selection_again
        replace_selection_same)
  finally show ?thesis .
qed

section \<open>The properties of the keys\<close>

text \<open>
  Shift-Tab undoes Tab on every selection: the text and both ends of the selection come
  back, whatever the lines and the tab size are.
\<close>
theorem shift_tab_undoes_tab:
  assumes "code_state_ok s" and "cb_from s < cb_to s" and "tab_key opt in_code s = Some s1"
  shows "shift_tab_key opt in_code s1 = Some s"
  by (rule tab_then_shift_tab [OF assms])

text \<open>
  With only a cursor, Shift-Tab changes the line of the cursor and no other: that line
  loses at most the tab size of its leading blanks, and the cursor stays on it.
\<close>
theorem shift_tab_cursor_line:
  assumes "code_state_ok s" and "cb_from s = cb_to s" and "shift_tab_key opt in_code s = Some s'"
  shows "let ls = split_lines (cb_text s); p = count_list (take (cb_from s) (cb_text s)) nl
    in p < length ls \<and> split_lines (cb_text s') = ls[p := outdent_line (tab_size opt) (ls ! p)]
      \<and> cb_from s' = cb_to s' \<and> count_list (take (cb_from s') (cb_text s')) nl = p"
  using assms(3) outdent_cursor_spec [OF assms(1,2), of "tab_size opt"] assms(2)
  by (auto simp: shift_tab_key_def Let_def split: if_splits)

text \<open>
  Every key the code block handles keeps the selection inside the text, and the third
  Enter at the end removes exactly the two line ends typed before it.
\<close>
theorem code_keys_keep_selection:
  assumes "code_state_ok s"
    and "tab_key opt b s = Some s' \<or> shift_tab_key opt b s = Some s' \<or> enter_key opt b s = Some s'"
  shows "code_state_ok s' \<and> (enter_key opt b s = Some s' \<longrightarrow> cb_text s = cb_text s' @ [nl, nl])"
proof
  show "code_state_ok s'"
    using assms tab_key_ok shift_tab_key_ok enter_key_ok by blast
  show "enter_key opt b s = Some s' \<longrightarrow> cb_text s = cb_text s' @ [nl, nl]"
  proof
    assume "enter_key opt b s = Some s'"
    then have "cb_from s = length (cb_text s)" "ends_with (cb_text s) [nl, nl]"
      "cb_text s' = take (length (cb_text s) - 2) (cb_text s)"
      by (auto simp: enter_key_def split: if_splits)
    then have "drop (length (cb_text s) - 2) (cb_text s) = [nl, nl]"
      "cb_text s' = take (length (cb_text s) - 2) (cb_text s)" by (simp_all add: ends_with_def numeral_2_eq_2)
    then show "cb_text s = cb_text s' @ [nl, nl]" by (metis append_take_drop_id)
  qed
qed

end
