(* ===== verification/Editor_Markdown.thy ===== *)
theory Editor_Markdown
  imports Script_Text
begin

text \<open>
  Markdown written by the rich editor
  (\<open>public/js/filament/forms/components/rich-editor.js\<close>): block quotes, fenced containers,
  shortcodes and their attributes, the content of list items, tables, and the registration of
  link schemes. A node is given by its rendered children, which the code obtains from its
  \<open>renderChildren\<close> callback.
\<close>

section \<open>Block quotes, documents, hard breaks\<close>

definition quote_line :: "string \<Rightarrow> string" where
  "quote_line u = (if is_blank u then ''>'' else ''> '' @ u)"

definition render_blockquote :: "string list option \<Rightarrow> string" where
  "render_blockquote content =
     (case content of
        None \<Rightarrow> []
      | Some children \<Rightarrow>
          implode [nl, CHR ''>'', nl] (map (\<lambda>d. join_lines (map quote_line (split_lines d))) children))"

definition render_document :: "string list option \<Rightarrow> string" where
  "render_document content = (case content of None \<Rightarrow> [] | Some children \<Rightarrow> implode [nl, nl] children)"

definition render_hard_break :: string where
  "render_hard_break = ''  '' @ [nl]"

text \<open>Removing one level of quotation.\<close>

fun unquote :: "string \<Rightarrow> string" where
  "unquote (a # b # u) = (if a = CHR ''>'' then if b = CHR '' '' then u else b # u else a # b # u)"
| "unquote [a] = (if a = CHR ''>'' then [] else [a])"
| "unquote [] = []"

lemma quote_line_starts: "str_starts_with (quote_line u) ''>''"
  by (simp add: quote_line_def str_starts_with_def)

lemma unquote_quote_line: "unquote (quote_line u) = (if is_blank u then [] else u)"
  by (simp add: quote_line_def)

lemma nl_quote_line: "nl \<notin> set u \<Longrightarrow> nl \<notin> set (quote_line u)"
  by (simp add: quote_line_def)

lemma split_quoted: "split_lines (join_lines (map quote_line (split_lines d))) = map quote_line (split_lines d)"
  by (rule split_join) (auto dest!: split_lines_mem nl_quote_line)

lemma split_lines_implode:
  "\<lbrakk>rs \<noteq> []; nl \<notin> set sep\<rbrakk> \<Longrightarrow>
     split_lines (implode (nl # sep @ [nl]) rs) = implode [sep] (map split_lines rs)"
proof (induction rs)
  case (Cons r rs)
  then show ?case
    by (cases "rs = []") (simp_all add: implode_Cons split_lines_append split_lines_plain)
qed simp

text \<open>Every line of a quotation carries the mark, and without it the children come back.\<close>

lemma blockquote_lines:
  assumes "children \<noteq> []"
  shows "split_lines (render_blockquote (Some children))
     = implode [''>''] (map (\<lambda>d. map quote_line (split_lines d)) children)"
  using assms split_lines_implode [of "map (\<lambda>d. join_lines (map quote_line (split_lines d))) children" "''>''"]
  by (simp add: render_blockquote_def split_quoted comp_def)

lemma map_implode: "map f (implode sep xs) = implode (map f sep) (map (map f) xs)"
proof (induction xs)
  case (Cons x xs)
  then show ?case by (cases "xs = []") (simp_all add: implode_Cons)
qed simp

lemma set_implode: "set (implode sep xs) \<subseteq> set sep \<union> (\<Union>x \<in> set xs. set x)"
proof (induction xs)
  case (Cons x xs)
  then show ?case by (cases "xs = []") (auto simp: implode_Cons)
qed simp

lemma unquote_blockquote:
  assumes "children \<noteq> []" and "\<And>d u. \<lbrakk>d \<in> set children; u \<in> set (split_lines d); is_blank u\<rbrakk> \<Longrightarrow> u = []"
  shows "join_lines (map unquote (split_lines (render_blockquote (Some children)))) = implode [nl, nl] children"
proof -
  have unq: "map (\<lambda>d. map (\<lambda>u. unquote (quote_line u)) (split_lines d)) children = map split_lines children"
    by (auto simp: unquote_quote_line intro!: map_idI sym [OF assms(2)])
  have "map unquote (split_lines (render_blockquote (Some children)))
      = implode [[]] (map (\<lambda>d. map (\<lambda>u. unquote (quote_line u)) (split_lines d)) children)"
    using assms(1) by (simp add: blockquote_lines map_implode comp_def)
  also have "\<dots> = implode [[]] (map split_lines children)" by (simp only: unq)
  also have "\<dots> = split_lines (implode [nl, nl] children)"
    using split_lines_implode [of children "[]"] assms(1) by simp
  finally show ?thesis by (simp add: join_split)
qed

section \<open>Containers and shortcodes\<close>

text \<open>A container node: its name, its serialized attributes and its rendered children.\<close>

definition render_container :: "string \<Rightarrow> string \<Rightarrow> string list \<Rightarrow> string" where
  "render_container name attrs children =
     ( let m = (if attrs = [] then [] else '' {'' @ attrs @ ''}'');
           g = implode [nl, nl] children
       in '':::'' @ name @ m @ [nl, nl] @ g @ [nl, nl] @ '':::'')"

text \<open>The pattern class \<open>\w\<close>.\<close>

definition word_char :: "char \<Rightarrow> bool" where
  "word_char c \<longleftrightarrow>
     (let n = (of_char c :: nat) in 48 \<le> n \<and> n \<le> 57 \<or> 65 \<le> n \<and> n \<le> 90 \<or> n = 95 \<or> 97 \<le> n \<and> n \<le> 122)"

text \<open>
  \<open>parseAttributes\<close> runs the global pattern \<open>(\w+)=(?:"([^"]*)"|'([^']*)')\<close>. One match at the
  start of the rest of the text gives the key, the value between the quotes (\<open>None\<close> when it
  is empty, as \<open>i || s\<close> then is \<open>undefined\<close> or the empty second group) and what follows.
\<close>

definition quoted :: "string \<Rightarrow> (string \<times> string) option" where
  "quoted s =
     (case s of
        q # t \<Rightarrow>
          if q = CHR 0x22 \<or> q = CHR 0x27 then
            (case dropWhile (\<lambda>c. c \<noteq> q) t of
               [] \<Rightarrow> None
             | _ # rest \<Rightarrow> Some (takeWhile (\<lambda>c. c \<noteq> q) t, rest))
          else None
      | [] \<Rightarrow> None)"

datatype attr_value = Undefined | Value string

definition attribute_at :: "string \<Rightarrow> ((string \<times> attr_value) \<times> string) option" where
  "attribute_at s =
     (let k = takeWhile word_char s in
      case dropWhile word_char s of
        c # t \<Rightarrow>
          if k \<noteq> [] \<and> c = CHR ''='' then
            (case quoted t of
               None \<Rightarrow> None
             | Some (v, rest) \<Rightarrow>
                 Some ((k, if v = [] \<and> hd t = CHR 0x22 then Undefined else Value v), rest))
          else None
      | [] \<Rightarrow> None)"

lemma quoted_shorter: "quoted s = Some (v, rest) \<Longrightarrow> length rest < length s"
proof -
  assume a: "quoted s = Some (v, rest)"
  then obtain q t where s: "s = q # t" by (cases s) (auto simp: quoted_def)
  with a obtain c where c: "dropWhile (\<lambda>c. c \<noteq> q) t = c # rest"
    by (auto simp: quoted_def split: if_splits list.splits)
  have "length (dropWhile (\<lambda>c. c \<noteq> q) t) \<le> length t" by (rule length_dropWhile_le)
  with c s show ?thesis by simp
qed

lemma attribute_at_shorter: "attribute_at s = Some (kv, rest) \<Longrightarrow> length rest < length s"
proof -
  assume a: "attribute_at s = Some (kv, rest)"
  then obtain c t where c: "dropWhile word_char s = c # t"
    by (cases "dropWhile word_char s") (simp_all add: attribute_at_def)
  with a obtain v where "quoted t = Some (v, rest)"
    by (auto simp: attribute_at_def Let_def split: if_splits option.splits)
  from quoted_shorter [OF this] have "length rest < length t" .
  also have "length t < length (dropWhile word_char s)" using c by simp
  also have "\<dots> \<le> length s" by (rule length_dropWhile_le)
  finally show ?thesis .
qed

function scan_attributes :: "string \<Rightarrow> (string \<times> attr_value) list" where
  "scan_attributes s =
     (case attribute_at s of
        Some (kv, rest) \<Rightarrow> kv # scan_attributes rest
      | None \<Rightarrow> (case s of [] \<Rightarrow> [] | _ # t \<Rightarrow> scan_attributes t))"
  by pat_completeness auto
termination by (relation "measure length") (auto dest: attribute_at_shorter)

declare scan_attributes.simps [simp del]

text \<open>Assigning to an object's key: a new key goes to the end.\<close>

fun put_key :: "'k \<Rightarrow> 'v \<Rightarrow> ('k \<times> 'v) list \<Rightarrow> ('k \<times> 'v) list" where
  "put_key k v [] = [(k, v)]"
| "put_key k v ((k', v') # kvs) = (if k = k' then (k, v) # kvs else (k', v') # put_key k v kvs)"

definition parse_attributes :: "string \<Rightarrow> (string \<times> attr_value) list" where
  "parse_attributes t =
     (if is_blank t then [] else fold (\<lambda>(k, v). put_key k v) (scan_attributes t) [])"

definition serialize_attributes :: "(string \<times> attr_value) list \<Rightarrow> string" where
  "serialize_attributes kvs =
     implode '' '' (map (\<lambda>(k, v). k @ ''='' @ [CHR 0x22] @ (case v of Value s \<Rightarrow> s | Undefined \<Rightarrow> []) @ [CHR 0x22])
       (filter (\<lambda>(k, v). v \<noteq> Undefined) kvs))"

text \<open>\<open>renderMarkdown\<close> of a shortcode: its name, attributes, the text of its content.\<close>

definition render_shortcode :: "bool \<Rightarrow> string \<Rightarrow> (string \<times> attr_value) list \<Rightarrow> string \<Rightarrow> string" where
  "render_shortcode self_closing name attrs h =
     (let m = serialize_attributes attrs;
          g = (if m = [] then [] else '' '' @ m)
      in if self_closing then ''['' @ name @ g @ '']''
         else ''['' @ name @ g @ '']'' @ h @ ''[/'' @ name @ '']'')"

lemma word_char_not [simp]: "\<not> word_char (CHR ''='')" "\<not> word_char (CHR '' '')" "\<not> word_char (CHR 0x22)"
  by (simp_all add: word_char_def)

lemma word_char_not_space: "word_char c \<Longrightarrow> \<not> js_space c"
  by (auto simp: js_space_def word_char_def)

lemma attribute_at_pair:
  assumes "k \<noteq> []" and "list_all word_char k" and "CHR 0x22 \<notin> set v"
  shows "attribute_at (k @ ''='' @ [CHR 0x22] @ v @ [CHR 0x22] @ rest)
     = Some ((k, if v = [] then Undefined else Value v), rest)"
proof -
  have "takeWhile word_char (k @ ''='' @ x) = k" "dropWhile word_char (k @ ''='' @ x) = CHR ''='' # x" for x
    using assms(2) by (simp_all add: takeWhile_append2 dropWhile_append2 list_all_iff)
  moreover have "takeWhile (\<lambda>c. c \<noteq> CHR 0x22) (v @ [CHR 0x22] @ rest) = v"
    "dropWhile (\<lambda>c. c \<noteq> CHR 0x22) (v @ [CHR 0x22] @ rest) = CHR 0x22 # rest"
    using assms(3) by (simp_all add: takeWhile_tail dropWhile_append3 takeWhile_append2 dropWhile_append2)
      (metis (mono_tags, lifting) append_Nil2 dropWhile.simps(2) dropWhile_append2 takeWhile.simps(2) takeWhile_append2)+
  ultimately show ?thesis using assms(1) by (simp add: attribute_at_def quoted_def Let_def)
qed

definition attr_text :: "string \<times> string \<Rightarrow> string" where
  "attr_text kv = fst kv @ ''='' @ [CHR 0x22] @ snd kv @ [CHR 0x22]"

definition attr_ok :: "string \<times> string \<Rightarrow> bool" where
  "attr_ok kv \<longleftrightarrow> fst kv \<noteq> [] \<and> list_all word_char (fst kv) \<and> CHR 0x22 \<notin> set (snd kv)"

definition read_back :: "string \<times> string \<Rightarrow> string \<times> attr_value" where
  "read_back kv = (fst kv, if snd kv = [] then Undefined else Value (snd kv))"

lemma scan_serialized:
  "\<forall>kv \<in> set kvs. attr_ok kv \<Longrightarrow> scan_attributes (implode '' '' (map attr_text kvs)) = map read_back kvs"
proof (induction kvs)
  case Nil
  then show ?case by (simp add: scan_attributes.simps attribute_at_def)
next
  case (Cons kv kvs)
  let ?rest = "if kvs = [] then [] else '' '' @ implode '' '' (map attr_text kvs)"
  have "scan_attributes ?rest = scan_attributes (implode '' '' (map attr_text kvs))"
    by (cases "kvs = []") (simp_all add: scan_attributes.simps [of "CHR '' '' # _"] attribute_at_def)
  moreover have "implode '' '' (map attr_text (kv # kvs))
      = fst kv @ ''='' @ [CHR 0x22] @ snd kv @ [CHR 0x22] @ ?rest"
    by (simp add: implode_Cons attr_text_def)
  ultimately show ?case
    using Cons attribute_at_pair [of "fst kv" "snd kv" ?rest]
    by (simp add: scan_attributes.simps [of "fst kv @ _"] attr_ok_def read_back_def)
qed

lemma put_key_new: "k \<notin> fst ` set kvs \<Longrightarrow> put_key k v kvs = kvs @ [(k, v)]"
  by (induction kvs) auto

lemma fold_put_key:
  "distinct (map fst (acc @ kvs)) \<Longrightarrow> fold (\<lambda>(k, v). put_key k v) kvs acc = acc @ kvs"
proof (induction kvs arbitrary: acc)
  case (Cons kv kvs)
  then have "put_key (fst kv) (snd kv) acc = acc @ [kv]" by (auto simp: put_key_new)
  with Cons.IH [of "acc @ [kv]"] Cons.prems show ?case by (simp add: case_prod_beta)
qed simp

text \<open>
  Attributes come back as they were written, except that an empty value comes back undefined.
\<close>

lemma parse_serialized:
  assumes "distinct (map fst kvs)" and "\<forall>kv \<in> set kvs. attr_ok kv"
  shows "parse_attributes (serialize_attributes (map (\<lambda>(k, v). (k, Value v)) kvs)) = map read_back kvs"
proof -
  have ser: "serialize_attributes (map (\<lambda>(k, v). (k, Value v)) kvs) = implode '' '' (map attr_text kvs)"
    by (simp add: serialize_attributes_def filter_map comp_def case_prod_beta attr_text_def [abs_def])
  have "fold (\<lambda>(k, v). put_key k v) (map read_back kvs) [] = [] @ map read_back kvs"
    by (rule fold_put_key) (use assms(1) in \<open>simp add: read_back_def comp_def\<close>)
  moreover have "\<not> is_blank (implode '' '' (map attr_text kvs))" if ne: "kvs \<noteq> []"
  proof -
    from ne obtain kv ks where kvs: "kvs = kv # ks" by (cases kvs) auto
    obtain c k where c: "fst kv = c # k" "word_char c"
      using assms(2) kvs by (cases "fst kv") (auto simp: attr_ok_def)
    have "c \<in> set (implode '' '' (map attr_text kvs))"
      using c(1) kvs by (cases ks) (simp_all add: attr_text_def)
    with c(2) word_char_not_space show ?thesis by (auto simp: is_blank_iff)
  qed
  ultimately show ?thesis
    unfolding ser parse_attributes_def
    by (cases "kvs = []") (use scan_serialized [OF assms(2)] in simp_all)
qed

section \<open>Content of a list item\<close>

text \<open>
  \<open>renderNestedMarkdownContent\<close>: the first child behind the item's prefix, every further child
  (a paragraph or not) indented below it; the indentation is a callback.
\<close>

definition nested_child :: "(string \<Rightarrow> string) \<Rightarrow> bool \<times> string \<Rightarrow> string" where
  "nested_child ind c =
     (case c of (paragraph, h) \<Rightarrow>
        (if paragraph then [nl, nl] else [nl]) @ join_lines (map ind (split_lines h)))"

definition render_nested :: "(string \<Rightarrow> string) \<Rightarrow> string \<Rightarrow> string \<Rightarrow> (bool \<times> string) list \<Rightarrow> string" where
  "render_nested ind start first others = start @ first @ concat (map (nested_child ind) others)"

section \<open>Link schemes\<close>

text \<open>The state of the link scanner that registering a scheme touches.\<close>

record linkify =
  lk_initialized :: bool
  lk_schemes :: "(string \<times> bool) list"

definition scheme_char :: "char \<Rightarrow> bool" where
  "scheme_char c \<longleftrightarrow> (let n = (of_char c :: nat) in 48 \<le> n \<and> n \<le> 57 \<or> 97 \<le> n \<and> n \<le> 122)"

text \<open>The pattern \<open>^[0-9a-z]+(-[0-9a-z]+)*$\<close>.\<close>

definition scheme_format :: "string \<Rightarrow> bool" where
  "scheme_format s \<longleftrightarrow> (\<forall>p \<in> set (explode (CHR ''-'') s). p \<noteq> [] \<and> list_all scheme_char p)"

definition scheme_error :: string where
  "scheme_error = join_lines
     [''linkifyjs: incorrect scheme format.'',
      ''1. Must only contain digits, lowercase ASCII letters or \"-\"'',
      ''2. Cannot start or end with \"-\"'',
      ''3. \"-\" cannot repeat'']"

text \<open>
  \<open>registerCustomProtocol\<close>: a late registration warns (the first component of the result) but
  is not refused; a scheme of the wrong form is an error.
\<close>

definition register_scheme :: "string \<Rightarrow> bool \<Rightarrow> linkify \<Rightarrow> bool \<times> (string + linkify)" where
  "register_scheme s optional_slashes l =
     (lk_initialized l,
      if \<not> scheme_format s then Inl scheme_error
      else Inr (l\<lparr>lk_schemes := lk_schemes l @ [(s, optional_slashes)]\<rparr>))"

lemma scheme_char_code_point: "scheme_char c \<Longrightarrow> c \<noteq> CHR ''-''"
  by (auto simp: scheme_char_def)

text \<open>The pattern says what the three rules of the message say, for a non-empty name.\<close>

lemma scheme_format_rules:
  "scheme_format s \<longleftrightarrow>
     s \<noteq> [] \<and> (\<forall>c \<in> set s. scheme_char c \<or> c = CHR ''-'') \<and> hd s \<noteq> CHR ''-'' \<and> last s \<noteq> CHR ''-''
     \<and> \<not> (\<exists>a b. s = a @ ''--'' @ b)"
proof
  assume f: "scheme_format s"
  have chars: "\<forall>c \<in> set s. scheme_char c \<or> c = CHR ''-''" if "\<forall>p \<in> set (explode (CHR ''-'') s). list_all scheme_char p" for s
    using that
  proof (induction s)
    case (Cons c s)
    then show ?case by (auto split: if_splits list.splits simp: list_all_iff)
  qed simp
  have ne: "s \<noteq> []" using f by (auto simp: scheme_format_def)
  have "hd s \<noteq> CHR ''-''" using f ne by (cases s) (auto simp: scheme_format_def)
  moreover have "last s \<noteq> CHR ''-''"
  proof
    assume "last s = CHR ''-''"
    then have "s = butlast s @ CHR ''-'' # []" using ne by (metis append_butlast_last_id)
    then have "[] \<in> set (explode (CHR ''-'') s)"
      using explode_append [of "CHR ''-''" "butlast s" "[]"] by simp
    then show False using f by (auto simp: scheme_format_def)
  qed
  moreover have "\<not> (\<exists>a b. s = a @ ''--'' @ b)"
  proof
    assume "\<exists>a b. s = a @ ''--'' @ b"
    then obtain a b where "s = a @ CHR ''-'' # CHR ''-'' # b" by auto
    then have "[] \<in> set (explode (CHR ''-'') s)" by (simp add: explode_append)
    then show False using f by (auto simp: scheme_format_def)
  qed
  ultimately show "s \<noteq> [] \<and> (\<forall>c \<in> set s. scheme_char c \<or> c = CHR ''-'') \<and> hd s \<noteq> CHR ''-'' \<and> last s \<noteq> CHR ''-''
     \<and> \<not> (\<exists>a b. s = a @ ''--'' @ b)"
    using ne chars [of s] f by (auto simp: scheme_format_def)
next
  assume r: "s \<noteq> [] \<and> (\<forall>c \<in> set s. scheme_char c \<or> c = CHR ''-'') \<and> hd s \<noteq> CHR ''-'' \<and> last s \<noteq> CHR ''-''
     \<and> \<not> (\<exists>a b. s = a @ ''--'' @ b)"
  let ?ps = "explode (CHR ''-'') s"
  show "scheme_format s"
    unfolding scheme_format_def
  proof
    fix p assume p: "p \<in> set ?ps"
    then obtain xs ys where ps: "?ps = xs @ p # ys" by (meson split_list)
    have s: "s = implode ''-'' (xs @ p # ys)" using implode_explode [of "CHR ''-''" s] ps by simp
    have "set p \<subseteq> set s"
      unfolding s by (cases "xs = []"; cases "ys = []") (auto simp: implode_append implode_Cons)
    moreover have "CHR ''-'' \<notin> set p" using p by (rule explode_mem)
    ultimately have "list_all scheme_char p" using r by (auto simp: list_all_iff)
    moreover have "p \<noteq> []"
    proof
      assume "p = []"
      show False
      proof (cases "xs = []")
        case True
        with s \<open>p = []\<close> r show False by (cases "ys = []") (auto simp: implode_Cons)
      next
        case xs: False
        show False
        proof (cases "ys = []")
          case True
          with s xs \<open>p = []\<close> r show False by (simp add: implode_append)
        next
          case False
          with s xs \<open>p = []\<close> have "s = implode ''-'' xs @ ''--'' @ implode ''-'' ys"
            by (simp add: implode_append implode_Cons)
          with r show False by blast
        qed
      qed
    qed
    ultimately show "p \<noteq> [] \<and> list_all scheme_char p" by blast
  qed
qed

section \<open>The properties of the Markdown writers\<close>

text \<open>
  A rendered block quote has the mark on every line, and taking it off gives the children
  back, separated by an empty line; blank lines of the children must be empty, as the writer
  drops their white space.
\<close>
theorem blockquote_round_trip:
  assumes "children \<noteq> []" and "\<forall>d \<in> set children. \<forall>u \<in> set (split_lines d). is_blank u \<longrightarrow> u = []"
  shows "join_lines (map unquote (split_lines (render_blockquote (Some children)))) = implode [nl, nl] children
    \<and> (\<forall>l \<in> set (split_lines (render_blockquote (Some children))). str_starts_with l ''>'')"
proof
  show "join_lines (map unquote (split_lines (render_blockquote (Some children)))) = implode [nl, nl] children"
    by (rule unquote_blockquote) (use assms in auto)
  have "set (implode [''>''] (map (\<lambda>d. map quote_line (split_lines d)) children))
      \<subseteq> {''>''} \<union> (\<Union>d \<in> set children. quote_line ` set (split_lines d))"
    using set_implode [of "[''>'']" "map (\<lambda>d. map quote_line (split_lines d)) children"] by auto
  moreover have "str_starts_with ''>'' ''>''" by (simp add: str_starts_with_def)
  ultimately show "\<forall>l \<in> set (split_lines (render_blockquote (Some children))). str_starts_with l ''>''"
    unfolding blockquote_lines [OF assms(1)] using quote_line_starts by blast
qed

text \<open>
  Reading back serialized shortcode attributes gives every name with its value, in order,
  except that an empty value comes back undefined, and is dropped by the next serialization.
\<close>
theorem attributes_round_trip:
  assumes "distinct (map fst kvs)"
    and "\<forall>(k, v) \<in> set kvs. k \<noteq> [] \<and> list_all word_char k \<and> CHR 0x22 \<notin> set v"
  shows "let kvs' = parse_attributes (serialize_attributes (map (\<lambda>(k, v). (k, Value v)) kvs))
    in kvs' = map (\<lambda>(k, v). (k, if v = [] then Undefined else Value v)) kvs
      \<and> serialize_attributes kvs' = serialize_attributes (map (\<lambda>(k, v). (k, Value v)) (filter (\<lambda>(k, v). v \<noteq> []) kvs))"
proof -
  have "\<forall>kv \<in> set kvs. attr_ok kv" using assms(2) by (auto simp: attr_ok_def)
  from parse_serialized [OF assms(1) this]
  have parsed: "parse_attributes (serialize_attributes (map (\<lambda>(k, v). (k, Value v)) kvs))
      = map (\<lambda>(k, v). (k, if v = [] then Undefined else Value v)) kvs"
    by (simp add: read_back_def case_prod_beta)
  have "filter (\<lambda>(k, v). v \<noteq> Undefined) (map (\<lambda>(k, v). (k, if v = [] then Undefined else Value v)) xs)
      = filter (\<lambda>(k, v). v \<noteq> Undefined) (map (\<lambda>(k, v). (k, Value v)) (filter (\<lambda>(k, v). v \<noteq> []) xs))"
    for xs :: "(string \<times> string) list"
    by (induction xs) auto
  then show ?thesis unfolding parsed Let_def by (simp only: serialize_attributes_def simp_thms)
qed

text \<open>
  The pattern that guards the registration of link schemes accepts exactly the names the
  three rules of its error message describe (and that are not empty); an accepted scheme is
  appended to the registered ones, a refused one changes nothing.
\<close>
theorem scheme_registration:
  "register_scheme s o2 l =
     (lk_initialized l,
      if s \<noteq> [] \<and> (\<forall>c \<in> set s. scheme_char c \<or> c = CHR ''-'') \<and> hd s \<noteq> CHR ''-'' \<and> last s \<noteq> CHR ''-''
         \<and> \<not> (\<exists>a b. s = a @ ''--'' @ b)
      then Inr (l\<lparr>lk_schemes := lk_schemes l @ [(s, o2)]\<rparr>) else Inl scheme_error)"
  unfolding register_scheme_def scheme_format_rules [symmetric]
  by (cases "scheme_format s") (simp_all only: if_True if_False not_True_eq_False not_False_eq_True)

end
