(* ===== verification/Editor_Table.thy ===== *)
theory Editor_Table
  imports Editor_Markdown
begin

text \<open>
  Tables written as Markdown (\<open>renderTableToMarkdown\<close> of
  \<open>public/js/filament/forms/components/rich-editor.js\<close>): the rows become lines whose columns
  are padded to the widest cell. A cell comes with the rendered text of its children, its kind
  and its alignment attribute.
\<close>

section \<open>Cells\<close>

datatype alignment = AlignLeft | AlignRight | AlignCenter

fun normalize_align :: "string option \<Rightarrow> alignment option" where
  "normalize_align a =
     (if a = Some ''left'' then Some AlignLeft else if a = Some ''right'' then Some AlignRight
      else if a = Some ''center'' then Some AlignCenter else None)"

text \<open>The content of a cell: missing, or the rendered children.\<close>

record table_cell =
  tc_content :: "string list option"
  tc_is_header :: bool
  tc_align :: "string option"

record cell_info =
  ci_text :: string
  ci_header :: bool
  ci_align :: "alignment option"

text \<open>\<open>replace(/\s+/g, " ").trim()\<close>.\<close>

fun collapse_space :: "string \<Rightarrow> string" where
  "collapse_space [] = []"
| "collapse_space (c # s) =
     (if js_space c then
        (case s of [] \<Rightarrow> '' ''
         | d # _ \<Rightarrow> if js_space d then collapse_space s else CHR '' '' # collapse_space s)
      else c # collapse_space s)"

definition normalize_cell :: "string \<Rightarrow> string" where
  "normalize_cell s = js_trim (collapse_space s)"

text \<open>The separator between the children of a cell is an option; one child is taken as it is.\<close>

definition cell_info_of :: "string \<Rightarrow> table_cell \<Rightarrow> cell_info" where
  "cell_info_of sep c =
     \<lparr>ci_text = normalize_cell (case tc_content c of None \<Rightarrow> [] | Some rs \<Rightarrow>
         if 1 < length rs then implode sep rs else concat rs),
      ci_header = tc_is_header c, ci_align = normalize_align (tc_align c)\<rparr>"

section \<open>Columns\<close>

text \<open>\<open>m[y]?.text || ""\<close>.\<close>

definition cell_text :: "cell_info list \<Rightarrow> nat \<Rightarrow> string" where
  "cell_text r y = (if y < length r then ci_text (r ! y) else [])"

definition column_count :: "cell_info list list \<Rightarrow> nat" where
  "column_count rows = fold (\<lambda>r m. max m (length r)) rows 0"

definition widen :: "cell_info list \<Rightarrow> nat list \<Rightarrow> nat list" where
  "widen r ws =
     map (\<lambda>y. let w = (if ws ! y < length (cell_text r y) then length (cell_text r y) else ws ! y)
              in if w < 3 then 3 else w) [0..<length ws]"

definition column_widths :: "cell_info list list \<Rightarrow> nat list" where
  "column_widths rows = fold widen rows (replicate (column_count rows) 0)"

definition take_align :: "cell_info list \<Rightarrow> alignment option list \<Rightarrow> alignment option list" where
  "take_align r as =
     map (\<lambda>y. if as ! y = None \<and> y < length r then ci_align (r ! y) else as ! y) [0..<length as]"

definition column_aligns :: "cell_info list list \<Rightarrow> alignment option list" where
  "column_aligns rows = fold take_align rows (replicate (column_count rows) None)"

definition pad :: "string \<Rightarrow> nat \<Rightarrow> string" where
  "pad m g = m @ replicate (g - length m) (CHR '' '')"

definition row_line :: "nat list \<Rightarrow> (nat \<Rightarrow> string) \<Rightarrow> string" where
  "row_line ws f = ''| '' @ implode '' | '' (map (\<lambda>g. pad (f g) (ws ! g)) [0..<length ws]) @ '' |''"

definition rule_cell :: "nat \<Rightarrow> alignment option \<Rightarrow> string" where
  "rule_cell w a =
     (let d = replicate (max 3 w) (CHR ''-'') in
      case a of
        Some AlignLeft \<Rightarrow> '':'' @ d
      | Some AlignRight \<Rightarrow> d @ '':''
      | Some AlignCenter \<Rightarrow> '':'' @ d @ '':''
      | None \<Rightarrow> d)"

definition rule_line :: "nat list \<Rightarrow> alignment option list \<Rightarrow> string" where
  "rule_line ws as = ''| '' @ implode '' | '' (map (\<lambda>g. rule_cell (ws ! g) (as ! g)) [0..<length ws]) @ '' |''"

section \<open>The table\<close>

text \<open>The header line is the first row when that has a header cell, and empty otherwise.\<close>

definition table_lines :: "cell_info list list \<Rightarrow> string list" where
  "table_lines rows =
     (let ws = column_widths rows; as = column_aligns rows;
          h = hd rows; d = (\<exists>c \<in> set h. ci_header c)
      in row_line ws (\<lambda>g. if d then cell_text h g else [])
         # rule_line ws as
         # map (\<lambda>m. row_line ws (cell_text m)) (if d then tl rows else rows))"

definition render_table :: "string \<Rightarrow> table_cell list list \<Rightarrow> string" where
  "render_table sep content =
     (if content = [] then []
      else let rows = map (map (cell_info_of sep)) content in
        if column_count rows = 0 then []
        else nl # concat (map (\<lambda>l. l @ [nl]) (table_lines rows)))"

section \<open>Facts\<close>

lemma length_widen [simp]: "length (widen r ws) = length ws"
  by (simp add: widen_def)

lemma length_fold_widen [simp]: "length (fold widen rows ws) = length ws"
  by (induction rows arbitrary: ws) simp_all

lemma length_column_widths [simp]: "length (column_widths rows) = column_count rows"
  by (simp add: column_widths_def)

lemma widen_grows: "y < length ws \<Longrightarrow> ws ! y \<le> widen r ws ! y"
  by (simp add: widen_def Let_def)

lemma fold_widen_grows: "y < length ws \<Longrightarrow> ws ! y \<le> fold widen rows ws ! y"
proof (induction rows arbitrary: ws)
  case (Cons r rows)
  then have "ws ! y \<le> widen r ws ! y" by (simp add: widen_grows)
  also have "\<dots> \<le> fold widen rows (widen r ws) ! y" using Cons by simp
  finally show ?case by simp
qed simp

lemma fold_widen_fits:
  "\<lbrakk>r \<in> set rows; y < length ws\<rbrakk> \<Longrightarrow> length (cell_text r y) \<le> fold widen rows ws ! y"
proof (induction rows arbitrary: ws)
  case (Cons r' rows)
  show ?case
  proof (cases "r = r'")
    case True
    have "length (cell_text r y) \<le> widen r ws ! y"
      using Cons.prems(2) by (simp add: widen_def Let_def)
    also have "\<dots> \<le> fold widen rows (widen r ws) ! y"
      using Cons.prems(2) by (intro fold_widen_grows) simp
    finally show ?thesis by (simp add: True)
  qed (use Cons in auto)
qed simp

lemma column_width_fits:
  "\<lbrakk>r \<in> set rows; y < column_count rows\<rbrakk> \<Longrightarrow> length (cell_text r y) \<le> column_widths rows ! y"
  by (simp add: column_widths_def fold_widen_fits)

lemma column_count_ge: "r \<in> set rows \<Longrightarrow> length r \<le> column_count rows"
proof -
  have "\<And>m. (r \<in> set rows \<longrightarrow> length r \<le> fold (\<lambda>r m. max m (length r)) rows m)
      \<and> m \<le> fold (\<lambda>r m. max m (length r)) rows m"
    by (induction rows) (auto, (metis max.bounded_iff)+)
  then show "r \<in> set rows \<Longrightarrow> length r \<le> column_count rows" by (simp add: column_count_def)
qed

lemma length_pad: "length m \<le> g \<Longrightarrow> length (pad m g) = g"
  by (simp add: pad_def)

lemma length_implode: "xs \<noteq> [] \<Longrightarrow> length (implode sep xs) = sum_list (map length xs) + (length xs - 1) * length sep"
proof (induction xs)
  case (Cons x xs)
  then show ?case by (cases xs) (simp_all add: implode_Cons)
qed simp

text \<open>A text line is as long as its columns and their separators, whatever the texts are.\<close>

lemma length_row_line:
  assumes "ws \<noteq> []" and "\<And>y. y < length ws \<Longrightarrow> length (f y) \<le> ws ! y"
  shows "length (row_line ws f) = sum_list ws + 3 * (length ws - 1) + 4"
proof -
  have "map (\<lambda>g. length (pad (f g) (ws ! g))) [0..<length ws] = map (\<lambda>g. ws ! g) [0..<length ws]"
    using assms(2) by (simp add: length_pad)
  then have "sum_list (map (\<lambda>g. length (pad (f g) (ws ! g))) [0..<length ws]) = sum_list ws"
    by (simp add: map_nth)
  then show ?thesis using assms(1) by (simp add: row_line_def length_implode comp_def)
qed

text \<open>Between the bars of a line stand the padded texts, when no text has a bar of its own.\<close>

lemma explode_bars:
  assumes "xs \<noteq> []" and "\<And>x. x \<in> set xs \<Longrightarrow> CHR ''|'' \<notin> set x"
  shows "explode (CHR ''|'') (''| '' @ implode '' | '' xs @ '' |'') = [[]] @ map (\<lambda>x. '' '' @ x @ '' '') xs @ [[]]"
proof -
  have "explode (CHR ''|'') ('' '' @ implode '' | '' xs @ '' |'') = map (\<lambda>x. '' '' @ x @ '' '') xs @ [[]]"
    using assms
  proof (induction xs)
    case (Cons x xs)
    have plain: "explode (CHR ''|'') ('' '' @ x @ '' '' @ CHR ''|'' # s) = ('' '' @ x @ '' '') # explode (CHR ''|'') s" for s
      using explode_append [of "CHR ''|''" "'' '' @ x @ '' ''" s] Cons.prems(2) [of x]
        explode_plain [of "CHR ''|''" "'' '' @ x @ '' ''"] by simp
    show ?case
    proof (cases "xs = []")
      case True
      then show ?thesis using plain [of "[]"] by simp
    next
      case False
      then show ?thesis
        using plain [of "'' '' @ implode '' | '' xs @ '' |''"] Cons by (simp add: implode_Cons)
    qed
  qed simp
  then show ?thesis by simp
qed

lemma trim_padded:
  assumes "js_trim m = m"
  shows "js_trim ('' '' @ pad m g @ '' '') = m"
proof -
  have d: "dropWhile js_space (replicate n (CHR '' '') @ s) = dropWhile js_space s" for n s
    by (induction n) simp_all
  have "js_trim ('' '' @ pad m g @ '' '') = rev (dropWhile js_space (rev (dropWhile js_space (m @ replicate (Suc (g - length m)) (CHR '' '')))))"
    by (simp add: js_trim_def trim_start_def pad_def replicate_append_same)
  also have "\<dots> = js_trim m"
  proof (cases "\<forall>c \<in> set m. js_space c")
    case True
    then have "dropWhile js_space (m @ replicate (Suc (g - length m)) (CHR '' '')) = []"
      by (auto simp: dropWhile_eq_Nil_conv)
    moreover have "dropWhile js_space m = []" using True by (simp add: dropWhile_eq_Nil_conv)
    ultimately show ?thesis by (simp only: js_trim_def trim_start_def rev.simps dropWhile.simps)
  next
    case False
    then have "dropWhile js_space (m @ replicate k (CHR '' '')) = dropWhile js_space m @ replicate k (CHR '' '')" for k
      by (auto simp: dropWhile_append)
    then show ?thesis by (simp add: js_trim_def trim_start_def d del: replicate_Suc)
  qed
  finally show ?thesis using assms by simp
qed

lemma trim_padded_Cons: "js_trim m = m \<Longrightarrow> js_trim (CHR '' '' # pad m g @ '' '') = m"
  using trim_padded [of m g] by simp

lemma js_trim_Nil [simp]: "js_trim [] = []"
  by (simp add: js_trim_def trim_start_def)

lemma normalize_cell_trim [simp]: "js_trim (normalize_cell s) = normalize_cell s"
  by (simp add: normalize_cell_def)

lemma cell_info_text [simp]: "js_trim (ci_text (cell_info_of sep c)) = ci_text (cell_info_of sep c)"
  by (simp add: cell_info_of_def)

lemma row_line_cells:
  assumes "ws \<noteq> []" and "\<And>y. y < length ws \<Longrightarrow> CHR ''|'' \<notin> set (f y) \<and> js_trim (f y) = f y"
  shows "map js_trim (explode (CHR ''|'') (row_line ws f)) = [[]] @ map f [0..<length ws] @ [[]]"
proof -
  have "explode (CHR ''|'') (row_line ws f)
      = [[]] @ map (\<lambda>x. '' '' @ x @ '' '') (map (\<lambda>g. pad (f g) (ws ! g)) [0..<length ws]) @ [[]]"
    unfolding row_line_def by (rule explode_bars) (use assms in \<open>auto simp: pad_def\<close>)
  then show ?thesis using assms(2) by (simp add: comp_def trim_padded_Cons)
qed

section \<open>The property of tables\<close>

text \<open>
  In a rendered table the header and every row are lines of one length, made of as many
  cells as the widest row has; and a row whose texts have no bar is read back cell by cell.
\<close>
theorem table_rows_aligned:
  assumes "content \<noteq> []" and "rows = map (map (cell_info_of sep)) content" and "0 < column_count rows"
    and "r \<in> set rows"
  shows "length (row_line (column_widths rows) (cell_text r))
      = sum_list (column_widths rows) + 3 * (column_count rows - 1) + 4
    \<and> ((\<forall>c \<in> set r. CHR ''|'' \<notin> set (ci_text c)) \<longrightarrow>
        map js_trim (explode (CHR ''|'') (row_line (column_widths rows) (cell_text r)))
          = [[]] @ map ci_text r @ replicate (column_count rows - length r) [] @ [[]])
    \<and> (\<exists>hd_line rule. render_table sep content
        = nl # concat (map (\<lambda>l. l @ [nl]) (hd_line # rule
            # map (\<lambda>m. row_line (column_widths rows) (cell_text m))
                (if \<exists>c \<in> set (hd rows). ci_header c then tl rows else rows)))
        \<and> length hd_line = sum_list (column_widths rows) + 3 * (column_count rows - 1) + 4)"
proof (intro conjI impI)
  let ?ws = "column_widths rows" and ?n = "column_count rows"
  have ws: "?ws \<noteq> []" using assms(3) by (metis length_column_widths list.size(3) less_irrefl)
  have fits: "length (cell_text m y) \<le> ?ws ! y" if "m \<in> set rows" "y < length ?ws" for m y
    using column_width_fits [OF that(1)] that(2) by simp
  show "length (row_line ?ws (cell_text r)) = sum_list ?ws + 3 * (?n - 1) + 4"
    using length_row_line [OF ws fits [OF assms(4)]] by simp
  show "map js_trim (explode (CHR ''|'') (row_line ?ws (cell_text r)))
      = [[]] @ map ci_text r @ replicate (?n - length r) [] @ [[]]"
    if bars: "\<forall>c \<in> set r. CHR ''|'' \<notin> set (ci_text c)"
  proof -
    have cell: "CHR ''|'' \<notin> set (cell_text r y) \<and> js_trim (cell_text r y) = cell_text r y" for y
      using bars assms(2,4) by (auto simp: cell_text_def)
    have "map (cell_text r) [0..<?n] = map ci_text r @ replicate (?n - length r) []"
      using column_count_ge [OF assms(4)] by (intro nth_equalityI) (auto simp: cell_text_def nth_append)
    then show ?thesis using row_line_cells [OF ws cell] by simp
  qed
  let ?d = "\<exists>c \<in> set (hd rows). ci_header c"
  let ?h = "row_line ?ws (\<lambda>g. if ?d then cell_text (hd rows) g else [])"
  have "rows \<noteq> []" using assms(1,2) by simp
  then have "length (if ?d then cell_text (hd rows) y else []) \<le> ?ws ! y" if "y < length ?ws" for y
    using fits [of "hd rows" y] that by simp
  from length_row_line [OF ws this] have "length ?h = sum_list ?ws + 3 * (?n - 1) + 4" by simp
  moreover have "render_table sep content = nl # concat (map (\<lambda>l. l @ [nl]) (?h # rule_line ?ws (column_aligns rows)
      # map (\<lambda>m. row_line ?ws (cell_text m)) (if ?d then tl rows else rows)))"
    using assms(1-3) by (simp add: render_table_def table_lines_def Let_def)
  ultimately show "\<exists>hd_line rule. render_table sep content
        = nl # concat (map (\<lambda>l. l @ [nl]) (hd_line # rule
            # map (\<lambda>m. row_line ?ws (cell_text m)) (if ?d then tl rows else rows)))
        \<and> length hd_line = sum_list ?ws + 3 * (?n - 1) + 4" by blast
qed

definition sample_table :: "table_cell list list" where
  "sample_table =
     [[\<lparr>tc_content = Some [''Name''], tc_is_header = True, tc_align = Some ''left''\<rparr>,
       \<lparr>tc_content = Some [''N''], tc_is_header = True, tc_align = None\<rparr>],
      [\<lparr>tc_content = Some ['' a  b ''], tc_is_header = False, tc_align = None\<rparr>]]"

end
