(* ===== verification/Editor_Lists.thy ===== *)
theory Editor_Lists
  imports Editor_Markdown
begin

text \<open>
  The list tokenizers of the rich editor
  (\<open>public/js/filament/forms/components/rich-editor.js\<close>): \<open>parseIndentedBlocks\<close> with the task
  list that uses it, and the ordered list (\<open>collectOrderedListItems\<close>,
  \<open>buildNestedStructure\<close>). The lexer's \<open>blockTokens\<close> is a parameter, as it is in the code.
\<close>

section \<open>Indented blocks\<close>

record item_data =
  it_indent :: nat
  it_main :: string
  it_checked :: bool

text \<open>
  The lines that belong to an item of indentation \<open>m\<close>: deeper lines, and blank lines when the
  next line that is not blank is deeper.
\<close>

fun take_nested :: "nat \<Rightarrow> string list \<Rightarrow> string list \<times> string list" where
  "take_nested m [] = ([], [])"
| "take_nested m (k # ls) =
     (if is_blank k then
        (case find (\<lambda>v. \<not> is_blank v) ls of
           None \<Rightarrow> ([], k # ls)
         | Some v \<Rightarrow>
             if m < length (leading_space v) then (case take_nested m ls of (a, b) \<Rightarrow> (k # a, b))
             else ([], k # ls))
      else if m < length (leading_space k) then (case take_nested m ls of (a, b) \<Rightarrow> (k # a, b))
      else ([], k # ls))"

lemma take_nested_append: "take_nested m ls = (a, b) \<Longrightarrow> ls = a @ b"
  by (induction m ls arbitrary: a b rule: take_nested.induct)
     (auto split: if_splits option.splits prod.splits)

text \<open>The text of the nested lines, without the indentation of the item and its content.\<close>

definition nested_text :: "nat \<Rightarrow> string list \<Rightarrow> string option" where
  "nested_text n ys =
     (if ys = [] then None
      else let k = join_lines (map (drop n) ys) in if is_blank k then None else Some k)"

text \<open>
  The outer loop over the lines. The result is the items, each with its nested text, and the
  lines consumed; \<open>None\<close> when a line that is no item comes first.
\<close>

function parse_from ::
  "(string \<Rightarrow> item_data option) \<Rightarrow> nat \<Rightarrow> bool \<Rightarrow> string list
     \<Rightarrow> ((item_data \<times> string option) list \<times> string list) option" where
  "parse_from p u seen [] = Some ([], [])"
| "parse_from p u seen (f # ls) =
     (case p f of
        None \<Rightarrow>
          if seen then Some ([], [])
          else if is_blank f then map_option (\<lambda>(is, c). (is, f # c)) (parse_from p u False ls)
          else None
      | Some d \<Rightarrow>
          map_option (\<lambda>(is, c). ((d, nested_text (it_indent d + u) (fst (take_nested (it_indent d) ls))) # is,
                                  f # fst (take_nested (it_indent d) ls) @ c))
            (parse_from p u True (snd (take_nested (it_indent d) ls))))"
  by pat_completeness auto
termination
proof (relation "measure (\<lambda>(p, u, seen, ls). length ls)", goal_cases)
  case (3 p u seen f ls d)
  obtain a b where t: "take_nested (it_indent d) ls = (a, b)" by fastforce
  from take_nested_append [OF this] t show ?case by simp
qed auto

definition indented_blocks ::
  "(string \<Rightarrow> item_data option) \<Rightarrow> nat \<Rightarrow> string \<Rightarrow> ((item_data \<times> string option) list \<times> string) option" where
  "indented_blocks p u t =
     (case parse_from p u False (split_lines t) of
        None \<Rightarrow> None
      | Some (is, c) \<Rightarrow> if is = [] then None else Some (is, concat (map (\<lambda>l. l @ [nl]) c)))"

section \<open>Task lists\<close>

text \<open>The pattern \<open>^(\s*)([-+*])\s+\[([ xX])\]\s+(.*)$\<close> on one line.\<close>

definition task_pattern :: "string \<Rightarrow> item_data option" where
  "task_pattern l =
     (case dropWhile js_space l of
        b # l1 \<Rightarrow>
          if b \<in> {CHR ''-'', CHR ''+'', CHR ''*''} \<and> leading_space l1 \<noteq> [] then
            (case dropWhile js_space l1 of
               o1 # x # c1 # l2 \<Rightarrow>
                 if o1 = CHR ''['' \<and> x \<in> {CHR '' '', CHR ''x'', CHR ''X''} \<and> c1 = CHR '']''
                    \<and> leading_space l2 \<noteq> [] \<and> cr \<notin> set (dropWhile js_space l2) \<and> nl \<notin> set (dropWhile js_space l2)
                 then Some \<lparr>it_indent = length (leading_space l), it_main = dropWhile js_space l2,
                            it_checked = (x \<noteq> CHR '' '')\<rparr>
                 else None
             | _ \<Rightarrow> None)
          else None
      | [] \<Rightarrow> None)"

text \<open>An item's nested tokens: a task list again, or what the lexer makes of the text.\<close>

datatype 'b task_item = TaskItem item_data "'b nested_tokens option"
and 'b nested_tokens = NestedTasks string "'b task_item list" | Blocks 'b

lemma length_join_lines_drop: "length (join_lines (map (drop n) ys)) \<le> length (join_lines ys)"
proof (induction ys)
  case (Cons y ys)
  then show ?case by (cases "ys = []") simp_all
qed simp

lemma length_join_lines_append:
  "length (join_lines ys) \<le> length (join_lines (xs @ ys @ zs)) \<and> (xs \<noteq> [] \<and> ys \<noteq> [] \<longrightarrow> length (join_lines ys) < length (join_lines (xs @ ys @ zs)))"
proof -
  have a: "length (join_lines ys) \<le> length (join_lines (ys @ zs))" for ys zs
    by (cases "ys = []"; cases "zs = []") (simp_all add: join_lines_append)
  show ?thesis
  proof (cases "xs = [] \<or> ys @ zs = []")
    case False
    then show ?thesis using a [of ys zs] by (simp add: join_lines_append)
  qed (use a [of ys zs] in auto)
qed

lemma parse_from_consumes: "parse_from p u seen ls = Some (is, c) \<Longrightarrow> \<exists>rest. ls = c @ rest"
proof (induction p u seen ls arbitrary: "is" c rule: parse_from.induct)
  case (2 p u seen f ls)
  show ?case
  proof (cases "p f")
    case None
    with 2 show ?thesis by (auto split: if_splits)
  next
    case (Some d)
    obtain a b where t: "take_nested (it_indent d) ls = (a, b)" by fastforce
    from 2(3) Some t obtain is' c' where "parse_from p u True b = Some (is', c')" "c = f # a @ c'" by auto
    with 2(2) [OF Some] t obtain rest where "b = c' @ rest" by auto
    then show ?thesis using take_nested_append [OF t] \<open>c = f # a @ c'\<close> by simp
  qed
qed simp

lemma parse_from_nested_shorter:
  "\<lbrakk>parse_from p u seen ls = Some (is, c); (d, Some k) \<in> set is\<rbrakk> \<Longrightarrow> length k < length (join_lines ls)"
proof (induction p u seen ls arbitrary: "is" c rule: parse_from.induct)
  case (2 p u seen f ls)
  show ?case
  proof (cases "p f")
    case None
    with 2(3,4) obtain is' c' where *: "\<not> seen" "is_blank f" "parse_from p u False ls = Some (is', c')" "(d, Some k) \<in> set is'"
      by (auto split: if_splits)
    from 2(1) [OF None *] have "length k < length (join_lines ls)" .
    then show ?thesis by (cases "ls = []") auto
  next
    case (Some d')
    obtain a b where t: "take_nested (it_indent d') ls = (a, b)" by fastforce
    from 2(3) Some t obtain is' c' where p: "parse_from p u True b = Some (is', c')"
      "is = (d', nested_text (it_indent d' + u) a) # is'" by auto
    have ls: "ls = a @ b" by (rule take_nested_append [OF t])
    show ?thesis
    proof (cases "(d, Some k) \<in> set is'")
      case True
      with 2(2) [OF Some] p(1) t have "length k < length (join_lines b)" by auto
      then show ?thesis using length_join_lines_append [of b "f # a" "[]"] ls by auto
    next
      case False
      with 2(4) p(2) have "nested_text (it_indent d' + u) a = Some k" by auto
      then have "a \<noteq> []" "k = join_lines (map (drop (it_indent d' + u)) a)"
        by (auto simp: nested_text_def Let_def split: if_splits)
      then show ?thesis
        using length_join_lines_drop [of "it_indent d' + u" a] length_join_lines_append [of a "[f]" b] ls by auto
    qed
  qed
qed simp

lemma indented_blocks_nested_shorter:
  "\<lbrakk>indented_blocks p u t = Some (is, raw); (d, Some k) \<in> set is\<rbrakk> \<Longrightarrow> length k < length t"
  using parse_from_nested_shorter [of p u False "split_lines t" "is" _ d k]
  by (auto simp: indented_blocks_def join_split split: option.splits if_splits)

text \<open>The custom nested parser: the function \<open>r\<close> of the task list's \<open>tokenize\<close>.\<close>

function nested_tasks :: "(string \<Rightarrow> 'b) \<Rightarrow> string \<Rightarrow> 'b nested_tokens" where
  "nested_tasks bt i =
     (case indented_blocks task_pattern 2 i of
        None \<Rightarrow> Blocks (bt i)
      | Some (is, raw) \<Rightarrow> NestedTasks raw (map (\<lambda>(d, k). TaskItem d (map_option (nested_tasks bt) k)) is))"
  by pat_completeness auto
termination
  by (relation "measure (\<lambda>(bt, i). length i)") (auto dest: indented_blocks_nested_shorter)

declare nested_tasks.simps [simp del]

text \<open>\<open>tokenize\<close>: the same at the top, where a text without items gives no token.\<close>

definition tokenize_tasks :: "(string \<Rightarrow> 'b) \<Rightarrow> string \<Rightarrow> (string \<times> 'b task_item list) option" where
  "tokenize_tasks bt t =
     (case indented_blocks task_pattern 2 t of
        None \<Rightarrow> None
      | Some (is, raw) \<Rightarrow> Some (raw, map (\<lambda>(d, k). TaskItem d (map_option (nested_tasks bt) k)) is))"

text \<open>\<open>renderMarkdown\<close> of a task item and of the list.\<close>

definition task_prefix :: "bool \<Rightarrow> string" where
  "task_prefix checked = ''- ['' @ (if checked then ''x'' else '' '') @ ''] ''"

definition render_task_item :: "(string \<Rightarrow> string) \<Rightarrow> bool \<Rightarrow> string \<Rightarrow> (bool \<times> string) list \<Rightarrow> string" where
  "render_task_item ind checked first others = render_nested ind (task_prefix checked) first others"

definition render_task_list :: "string list \<Rightarrow> string" where
  "render_task_list items = join_lines items"

section \<open>Facts about task lists\<close>

lemma concat_lines_join: "ls \<noteq> [] \<Longrightarrow> concat (map (\<lambda>l. l @ [nl]) ls) = join_lines ls @ [nl]"
proof (induction ls)
  case (Cons l ls)
  then show ?case by (cases "ls = []") simp_all
qed simp

text \<open>The token's raw text is a prefix of the source and its final line end.\<close>

lemma indented_blocks_raw:
  assumes "indented_blocks p u t = Some (is, raw)"
  shows "\<exists>rest. t @ [nl] = raw @ rest"
proof -
  from assms obtain c where c: "parse_from p u False (split_lines t) = Some (is, c)"
    "raw = concat (map (\<lambda>l. l @ [nl]) c)"
    by (auto simp: indented_blocks_def split: option.splits if_splits)
  from parse_from_consumes [OF c(1)] obtain rest where rest: "split_lines t = c @ rest" by blast
  have "t @ [nl] = concat (map (\<lambda>l. l @ [nl]) (split_lines t))" by (simp add: concat_lines_join join_split)
  then have "t @ [nl] = raw @ concat (map (\<lambda>l. l @ [nl]) rest)" by (simp add: rest c(2))
  then show ?thesis by blast
qed

definition plain_task :: "bool \<times> string \<Rightarrow> bool" where
  "plain_task t \<longleftrightarrow> nl \<notin> set (snd t) \<and> cr \<notin> set (snd t) \<and> (snd t = [] \<or> \<not> js_space (hd (snd t)))"

definition task_line :: "bool \<times> string \<Rightarrow> string" where
  "task_line t = render_task_item id (fst t) (snd t) []"

lemma task_line_eq: "task_line t = task_prefix (fst t) @ snd t"
  by (simp add: task_line_def render_task_item_def render_nested_def)

lemma dropWhile_plain: "snd t = [] \<or> \<not> js_space (hd (snd t)) \<Longrightarrow> dropWhile js_space (snd t) = snd t"
  by (cases "snd t") auto

lemma js_space_marks [simp]:
  "\<not> js_space (CHR ''-'')" "\<not> js_space (CHR ''['')" "\<not> js_space (CHR ''x'')" "\<not> js_space (CHR '']'')"
  by (simp_all add: js_space_def)

lemma task_pattern_line:
  "plain_task t \<Longrightarrow> task_pattern (task_line t) = Some \<lparr>it_indent = 0, it_main = snd t, it_checked = fst t\<rparr>"
  by (cases "fst t") (auto simp: plain_task_def task_pattern_def task_line_eq task_prefix_def leading_space_def dropWhile_plain)

lemma task_line_not_nested: "take_nested 0 (map task_line ts) = ([], map task_line ts)"
  by (cases ts) (auto simp: is_blank_iff task_line_eq task_prefix_def leading_space_def)

lemma parse_from_task_lines:
  "\<forall>t \<in> set ts. plain_task t \<Longrightarrow>
     parse_from task_pattern u seen (map task_line ts)
       = Some (map (\<lambda>t. (\<lparr>it_indent = 0, it_main = snd t, it_checked = fst t\<rparr>, None)) ts, map task_line ts)"
  by (induction ts arbitrary: seen) (simp_all add: task_pattern_line task_line_not_nested nested_text_def)

lemma tokenize_rendered_tasks:
  assumes "ts \<noteq> []" and "\<forall>t \<in> set ts. plain_task t"
  shows "tokenize_tasks bt (render_task_list (map task_line ts))
     = Some (join_lines (map task_line ts) @ [nl],
         map (\<lambda>t. TaskItem \<lparr>it_indent = 0, it_main = snd t, it_checked = fst t\<rparr> None) ts)"
proof -
  have "split_lines (join_lines (map task_line ts)) = map task_line ts"
    by (rule split_join) (use assms in \<open>auto simp: task_line_eq task_prefix_def plain_task_def split: if_splits\<close>)
  then show ?thesis
    using assms parse_from_task_lines [OF assms(2)] concat_lines_join [of "map task_line ts"]
    by (simp add: tokenize_tasks_def render_task_list_def indented_blocks_def comp_def)
qed

section \<open>Ordered lists\<close>

record ordered_line =
  ol_indent :: nat
  ol_number :: nat
  ol_text :: string

definition is_digit :: "char \<Rightarrow> bool" where
  "is_digit c \<longleftrightarrow> c \<in> set ''0123456789''"

text \<open>The pattern \<open>^(\s*)(\d+)\.\s+(.*)$\<close> on one line.\<close>

definition ordered_pattern :: "string \<Rightarrow> ordered_line option" where
  "ordered_pattern l =
     (let l1 = dropWhile js_space l; ds = takeWhile is_digit l1 in
      case dropWhile is_digit l1 of
        c # l2 \<Rightarrow>
          if ds \<noteq> [] \<and> c = CHR ''.'' \<and> leading_space l2 \<noteq> []
             \<and> cr \<notin> set (dropWhile js_space l2) \<and> nl \<notin> set (dropWhile js_space l2)
          then Some \<lparr>ol_indent = length (leading_space l), ol_number = digits_value ds, ol_text = dropWhile js_space l2\<rparr>
          else None
      | [] \<Rightarrow> None)"

text \<open>
  The lines that follow an item of indentation \<open>c\<close>: the content lines and the raw lines they come
  from, and the rest. \<open>h\<close>: a blank line was seen.
\<close>

fun item_body :: "nat \<Rightarrow> bool \<Rightarrow> string list \<Rightarrow> string list \<times> string list \<times> string list" where
  "item_body c h [] = ([], [], [])"
| "item_body c h (p # ls) =
     (if ordered_pattern p \<noteq> None then ([], [], p # ls)
      else if is_blank p then (case item_body c True ls of (d, f, r) \<Rightarrow> ([] # d, p # f, r))
      else if js_space (hd p) then (case item_body c h ls of (d, f, r) \<Rightarrow> (drop (c + 2) p # d, p # f, r))
      else if h then ([], [], p # ls)
      else (case item_body c h ls of (d, f, r) \<Rightarrow> (p # d, p # f, r)))"

record ordered_item =
  oi_indent :: nat
  oi_number :: nat
  oi_content :: string
  oi_lines :: "string list"
  oi_raw :: string

lemma item_body_append: "item_body c h ls = (d, f, r) \<Longrightarrow> ls = f @ r"
  by (induction c h ls arbitrary: d f r rule: item_body.induct) (auto split: if_splits prod.splits)

text \<open>The items and the number of lines they take.\<close>

function collect_items :: "string list \<Rightarrow> ordered_item list \<times> nat" where
  "collect_items [] = ([], 0)"
| "collect_items (o1 # ls) =
     (case ordered_pattern o1 of
        None \<Rightarrow> ([], 0)
      | Some i \<Rightarrow>
          (case item_body (ol_indent i) False ls of
             (d, f, r) \<Rightarrow>
               (case collect_items r of
                  (es, n) \<Rightarrow>
                    (\<lparr>oi_indent = ol_indent i, oi_number = ol_number i,
                      oi_content = js_trim (join_lines (ol_text i # d)), oi_lines = ol_text i # d,
                      oi_raw = join_lines (o1 # f)\<rparr> # es,
                     Suc (length f) + n))))"
  by pat_completeness auto
termination
  by (relation "measure length") (auto dest!: item_body_append [OF sym])

text \<open>Whether a line starts a block of its own inside an item.\<close>

definition starts_block :: "string \<Rightarrow> bool" where
  "starts_block l =
     (let e = trim_start l; ds = takeWhile is_digit e; e1 = dropWhile is_digit e in
      e \<noteq> [] \<and>
      (hd e \<in> {CHR ''-'', CHR ''+'', CHR ''*''} \<and> leading_space (tl e) \<noteq> []
       \<or> ds \<noteq> [] \<and> e1 \<noteq> [] \<and> hd e1 = CHR ''.'' \<and> leading_space (tl e1) \<noteq> []
       \<or> hd e = CHR ''>'' \<or> str_starts_with e ''```'' \<or> str_starts_with e ''~~~''))"

text \<open>The paragraph of an item, and the lines of its blocks.\<close>

fun item_parts :: "bool \<Rightarrow> string list \<Rightarrow> string list \<times> string list" where
  "item_parts started [] = ([], [])"
| "item_parts started (o1 # ls) =
     (if is_blank o1 \<or> started \<and> starts_block o1 then ([], o1 # ls)
      else (case item_parts True ls of (a, b) \<Rightarrow> (o1 # a, b)))"

text \<open>
  A node of the list: the raw text, the paragraph, what the lexer makes of the other blocks, and
  the list of the deeper items that follow (its first number, its raw text and its nodes).
\<close>

datatype 'b ordered_node =
  OrderedNode string "string option" "'b option" "(nat \<times> string \<times> 'b ordered_node list) option"

function build_nested :: "(string \<Rightarrow> 'b) \<Rightarrow> nat \<Rightarrow> ordered_item list \<Rightarrow> 'b ordered_node list" where
  "build_nested bt e [] = []"
| "build_nested bt e (i # is) =
     (if oi_indent i = e then
        (let (pl, bl) = item_parts False (oi_lines i);
             a = js_trim (join_lines pl); d = js_trim (join_lines bl);
             f = takeWhile (\<lambda>x. e < oi_indent x) is
         in OrderedNode (oi_raw i) (if a = [] then None else Some a) (if d = [] then None else Some (bt d))
              (if f = [] then None
               else Some (oi_number (hd f), join_lines (map oi_raw f), build_nested bt (Min (set (map oi_indent f))) f)))
          # build_nested bt e (dropWhile (\<lambda>x. e < oi_indent x) is)
      else build_nested bt e is)"
  by pat_completeness auto
termination
  by (relation "measure (\<lambda>(bt, e, is). length is)")
     (auto simp: less_Suc_eq_le length_takeWhile_le length_dropWhile_le)

text \<open>\<open>tokenize\<close>: the first number, the raw text and the nodes.\<close>

definition tokenize_ordered :: "(string \<Rightarrow> 'b) \<Rightarrow> string \<Rightarrow> (nat \<times> string \<times> 'b ordered_node list) option" where
  "tokenize_ordered bt t =
     (case collect_items (split_lines t) of
        (is, n) \<Rightarrow>
          if is = [] then None
          else let l = build_nested bt 0 is in
            if l = [] then None
            else Some ((let k = oi_number (hd is) in if k = 0 then 1 else k), join_lines (take n (split_lines t)), l))"

section \<open>Facts about ordered lists\<close>

text \<open>The raw texts of a list of nodes, the nested ones included, in order.\<close>

fun node_raws :: "'b ordered_node \<Rightarrow> string list" where
  "node_raws (OrderedNode r p b n) =
     r # (case n of None \<Rightarrow> [] | Some (k, s, ns) \<Rightarrow> concat (map node_raws ns))"

text \<open>
  The items a level keeps: those at its indentation, and below each of them what the level of
  the deeper items that follow keeps.
\<close>

function kept :: "nat \<Rightarrow> ordered_item list \<Rightarrow> ordered_item list" where
  "kept e [] = []"
| "kept e (i # is) =
     (if oi_indent i = e then
        i # (let f = takeWhile (\<lambda>x. e < oi_indent x) is in kept (Min (set (map oi_indent f))) f)
          @ kept e (dropWhile (\<lambda>x. e < oi_indent x) is)
      else kept e is)"
  by pat_completeness auto
termination
  by (relation "measure (\<lambda>(e, is). length is)")
     (auto simp: less_Suc_eq_le length_takeWhile_le length_dropWhile_le)

lemma node_raws_build: "concat (map node_raws (build_nested bt e is)) = map oi_raw (kept e is)"
proof (induction bt e "is" rule: build_nested.induct)
  case (2 bt e i "is")
  let ?f = "takeWhile (\<lambda>x. e < oi_indent x) is"
  show ?case
  proof (cases "oi_indent i = e")
    case True
    obtain pl bl where pb: "item_parts False (oi_lines i) = (pl, bl)" by fastforce
    have "concat (map node_raws (build_nested bt (Min (set (map oi_indent ?f))) ?f))
        = map oi_raw (kept (Min (set (map oi_indent ?f))) ?f)" if "?f \<noteq> []"
      by (rule 2(1) [OF True refl pb [symmetric] refl refl refl that])
    moreover have "concat (map node_raws (build_nested bt e (dropWhile (\<lambda>x. e < oi_indent x) is)))
        = map oi_raw (kept e (dropWhile (\<lambda>x. e < oi_indent x) is))"
      by (rule 2(2) [OF True])
    ultimately show ?thesis using True pb by (cases "?f = []") (simp_all add: Let_def)
  qed (use 2(3) in simp)
qed simp

text \<open>A sequence of indentations that never returns to a level that is not open loses nothing.\<close>

lemma kept_flat: "\<forall>i \<in> set is. oi_indent i = e \<Longrightarrow> kept e is = is"
proof (induction "is")
  case (Cons i "is")
  have t: "takeWhile (\<lambda>x. e < oi_indent x) is = []" using Cons.prems by (cases "is") auto
  have d: "dropWhile (\<lambda>x. e < oi_indent x) is = is" using Cons.prems by (cases "is") auto
  have "kept e is = is" using Cons by simp
  then show ?case using Cons.prems by (simp only: kept.simps t d Let_def list.set_intros if_True append_Nil) simp
qed simp

lemma kept_two_levels:
  assumes "\<forall>i \<in> set is. oi_indent i = e \<or> oi_indent i = d" and "e < d" and "is = [] \<or> oi_indent (hd is) = e"
  shows "kept e is = is"
  using assms
proof (induction "length is" arbitrary: "is" rule: less_induct)
  case less
  show ?case
  proof (cases "is")
    case (Cons i js)
    let ?f = "takeWhile (\<lambda>x. e < oi_indent x) js" and ?r = "dropWhile (\<lambda>x. e < oi_indent x) js"
    have i: "oi_indent i = e" using less.prems(3) Cons by simp
    have f: "\<forall>x \<in> set ?f. oi_indent x = d"
    proof
      fix x assume "x \<in> set ?f"
      then have "x \<in> set js" "e < oi_indent x" by (auto dest: set_takeWhileD)
      then show "oi_indent x = d" using less.prems(1) Cons by force
    qed
    have "kept (Min (set (map oi_indent ?f))) ?f = ?f"
    proof (cases "?f = []")
      case False
      then have "set (map oi_indent ?f) = {d}" using f by (auto simp: image_iff) (metis f last_in_set)
      then show ?thesis using f by (simp add: kept_flat)
    qed simp
    moreover have "kept e ?r = ?r"
    proof (rule less.hyps)
      show "length ?r < length is" using Cons by (simp add: less_Suc_eq_le length_dropWhile_le)
      show "\<forall>x \<in> set ?r. oi_indent x = e \<or> oi_indent x = d" using less.prems(1) Cons by (auto dest: set_dropWhileD)
      show "?r = [] \<or> oi_indent (hd ?r) = e"
      proof (cases "?r = []")
        case False
        then have "\<not> e < oi_indent (hd ?r)" by (rule hd_dropWhile)
        moreover have "hd ?r \<in> set is" using False Cons by (metis hd_in_set list.set_intros(2) set_dropWhileD)
        ultimately show ?thesis using less.prems(1,2) by force
      qed simp
    qed (rule less.prems(2))
    ultimately show ?thesis using i Cons by (simp add: Let_def)
  qed simp
qed

lemma collect_items_lines: "collect_items ls = (is, n) \<Longrightarrow> n \<le> length ls \<and> (is \<noteq> [] \<longrightarrow> join_lines (map oi_raw is) = join_lines (take n ls))"
proof (induction ls arbitrary: "is" n rule: collect_items.induct)
  case (2 o1 ls)
  show ?case
  proof (cases "ordered_pattern o1")
    case None
    with 2(2) show ?thesis by auto
  next
    case (Some i)
    obtain d f r where b: "item_body (ol_indent i) False ls = (d, f, r)" by (metis prod_cases3)
    obtain es m where e: "collect_items r = (es, m)" by fastforce
    have ih: "m \<le> length r \<and> (es \<noteq> [] \<longrightarrow> join_lines (map oi_raw es) = join_lines (take m r))"
      by (rule 2(1) [OF Some b [symmetric] refl e])
    have ls: "ls = f @ r" by (rule item_body_append [OF b])
    have m0: "es = [] \<longleftrightarrow> m = 0"
      using e by (cases r) (auto split: option.splits prod.splits)
    from 2(2) Some b e have raws: "map oi_raw is = join_lines (o1 # f) # map oi_raw es" and n: "n = Suc (length f) + m"
      by auto
    have "join_lines (map oi_raw is) = join_lines ((o1 # f) @ take m r)"
    proof (cases "es = []")
      case False
      then have "take m r \<noteq> []" using ih m0 by auto
      then have "join_lines ((o1 # f) @ take m r) = join_lines (o1 # f) @ nl # join_lines (take m r)"
        by (intro join_lines_append) simp
      moreover have "join_lines (map oi_raw is) = join_lines (o1 # f) @ nl # join_lines (map oi_raw es)"
        unfolding raws using False by (intro join_lines_simps(3)) simp
      ultimately show ?thesis using False ih by simp
    qed (use raws m0 in simp)
    then show ?thesis using ih n ls by simp
  qed
qed simp

section \<open>The properties of the list tokenizers\<close>

text \<open>
  A list of tasks that the editor writes is read back: the token takes the whole text, and
  there is one item for each task, with its mark and its text.
\<close>
theorem task_list_round_trip:
  assumes "ts \<noteq> []" and "\<forall>(c, u) \<in> set ts. nl \<notin> set u \<and> cr \<notin> set u \<and> (u = [] \<or> \<not> js_space (hd u))"
  shows "let t = render_task_list (map (\<lambda>(c, u). render_task_item indent c u []) ts) in
    tokenize_tasks lexer t
      = Some (t @ [nl], map (\<lambda>(c, u). TaskItem \<lparr>it_indent = 0, it_main = u, it_checked = c\<rparr> None) ts)"
proof -
  have plain: "\<forall>t \<in> set ts. plain_task t" using assms(2) by (auto simp: plain_task_def)
  have line: "(\<lambda>(c, u). render_task_item indent c u []) = task_line"
    by (auto simp: task_line_eq render_task_item_def render_nested_def)
  show ?thesis
    unfolding line Let_def tokenize_rendered_tasks [OF assms(1) plain]
    by (simp add: render_task_list_def case_prod_beta)
qed

text \<open>
  What a list tokenizer consumes is a beginning of the source (with a line end that the task
  list adds at the end of the source), it has at least one item or node, and the number a list
  starts with is never zero.
\<close>
theorem list_tokens_consume_prefix:
  "(case tokenize_tasks lexer t of
      None \<Rightarrow> True
    | Some (raw, items) \<Rightarrow> items \<noteq> [] \<and> (\<exists>rest. t @ [nl] = raw @ rest))
   \<and> (case tokenize_ordered lexer t of
        None \<Rightarrow> True
      | Some (start, raw, nodes) \<Rightarrow> start \<noteq> 0 \<and> nodes \<noteq> [] \<and> (\<exists>rest. t = raw @ rest))"
proof
  show "case tokenize_tasks lexer t of None \<Rightarrow> True
      | Some (raw, items) \<Rightarrow> items \<noteq> [] \<and> (\<exists>rest. t @ [nl] = raw @ rest)"
  proof (cases "indented_blocks task_pattern 2 t")
    case (Some p)
    obtain items raw where p: "p = (items, raw)" by fastforce
    from Some p have "items \<noteq> []" by (auto simp: indented_blocks_def split: option.splits if_splits)
    with indented_blocks_raw [OF Some [unfolded p]] Some p show ?thesis by (simp add: tokenize_tasks_def)
  qed (simp add: tokenize_tasks_def)
  have "\<exists>rest. t = join_lines (take n (split_lines t)) @ rest" for n
  proof (cases "take n (split_lines t) = [] \<or> drop n (split_lines t) = []")
    case True
    then show ?thesis using join_split [of t] by (metis append.right_neutral append_Nil append_take_drop_id join_lines_simps(1))
  next
    case False
    then show ?thesis
      using join_lines_append [of "take n (split_lines t)" "drop n (split_lines t)"] join_split [of t] by auto
  qed
  then show "case tokenize_ordered lexer t of None \<Rightarrow> True
      | Some (start, raw, nodes) \<Rightarrow> start \<noteq> 0 \<and> nodes \<noteq> [] \<and> (\<exists>rest. t = raw @ rest)"
    by (auto simp: tokenize_ordered_def Let_def split: prod.splits option.splits)
qed

text \<open>
  When the items of an ordered list have at most two indentations and the first has none,
  every item's raw text is in the tree, in the source's order, and together they are the text the
  token consumes.
\<close>
theorem ordered_items_kept:
  assumes "tokenize_ordered lexer t = Some (start, raw, nodes)"
    and "\<forall>i \<in> set (fst (collect_items (split_lines t))). oi_indent i = 0 \<or> oi_indent i = d" and "0 < d"
    and "oi_indent (hd (fst (collect_items (split_lines t)))) = 0"
  shows "concat (map node_raws nodes) = map oi_raw (fst (collect_items (split_lines t)))
    \<and> join_lines (concat (map node_raws nodes)) = raw"
proof -
  obtain items n where c: "collect_items (split_lines t) = (items, n)" by fastforce
  with assms(1) have items: "items \<noteq> []" "nodes = build_nested lexer 0 items" "raw = join_lines (take n (split_lines t))"
    by (auto simp: tokenize_ordered_def Let_def split: if_splits)
  have "kept 0 items = items" by (rule kept_two_levels) (use assms(2-4) c in auto)
  then show ?thesis using collect_items_lines [OF c] items c by (simp add: node_raws_build)
qed

text \<open>
  An item indented deeper than the first item of its level is not in the tree, though the
  token consumes its text: here \<open>b\<close> is lost.
\<close>
lemma over_indented_item_lost:
  "tokenize_ordered (\<lambda>x. x) (''1. a'' @ nl # ''    2. b'' @ nl # ''  3. c'')
     = Some (1, ''1. a'' @ nl # ''    2. b'' @ nl # ''  3. c'',
         [OrderedNode ''1. a'' (Some ''a'') None
            (Some (2, ''    2. b'' @ nl # ''  3. c'', [OrderedNode ''  3. c'' (Some ''c'') None None]))])"
  by code_simp

end
