(* ===== verification/Code_Snippets.thy ===== *)
theory Code_Snippets
  imports Script_Text
begin

text \<open>
  Snippets of the code editor (\<open>public/js/filament/forms/components/code-editor.js\<close>): the
  completions it offers for Go, JavaScript, TypeScript and Python, the parser of a snippet's
  template (\<open>Snippet.parse\<close>), and its insertion into a document (\<open>Snippet.instantiate\<close>).
\<close>

abbreviation tab :: char where "tab \<equiv> CHR 0x09"

section \<open>The completions\<close>

record completion =
  cm_template :: string
  cm_label :: string
  cm_detail :: "string option"

definition snippet_completion :: "string list \<Rightarrow> string \<Rightarrow> string option \<Rightarrow> completion" where
  "snippet_completion ls label detail = \<lparr>cm_template = join_lines ls, cm_label = label, cm_detail = detail\<rparr>"

definition go_snippets :: "completion list" where
  "go_snippets =
     [snippet_completion [''func ${name}(${params}) ${type} {'', tab # ''${}'', ''}''] ''func'' (Some ''declaration''),
      snippet_completion [''func (${receiver}) ${name}(${params}) ${type} {'', tab # ''${}'', ''}''] ''func'' (Some ''method declaration''),
      snippet_completion [''var ${name} = ${value}''] ''var'' (Some ''declaration''),
      snippet_completion [''type ${name} ${type}''] ''type'' (Some ''declaration''),
      snippet_completion [''const ${name} = ${value}''] ''const'' (Some ''declaration''),
      snippet_completion [''type ${name} = ${type}''] ''type'' (Some ''alias declaration''),
      snippet_completion [''for ${init}; ${test}; ${update} {'', tab # ''${}'', ''}''] ''for'' (Some ''loop''),
      snippet_completion [''for ${i} := range ${value} {'', tab # ''${}'', ''}''] ''for'' (Some ''range''),
      snippet_completion [''select {'', tab # ''${}'', ''}''] ''select'' (Some ''statement''),
      snippet_completion [''case ${}:'', ''${}''] ''case'' None,
      snippet_completion [''switch ${} {'', tab # ''${}'', ''}''] ''switch'' (Some ''statement''),
      snippet_completion [''switch ${}.(${type}) {'', tab # ''${}'', ''}''] ''switch'' (Some ''type statement''),
      snippet_completion [''if ${} {'', tab # ''${}'', ''}''] ''if'' (Some ''block''),
      snippet_completion [''if ${} {'', tab # ''${}'', ''} else {'', tab # ''${}'', ''}''] ''if'' (Some ''/ else block''),
      snippet_completion [''import ${name} \"${module}\"'', ''${}''] ''import'' (Some ''declaration'')]"

definition javascript_snippets :: "completion list" where
  "javascript_snippets =
     [snippet_completion [''function ${name}(${params}) {'', tab # ''${}'', ''}''] ''function'' (Some ''definition''),
      snippet_completion [''for (let ${index} = 0; ${index} < ${bound}; ${index}++) {'', tab # ''${}'', ''}''] ''for'' (Some ''loop''),
      snippet_completion [''for (let ${name} of ${collection}) {'', tab # ''${}'', ''}''] ''for'' (Some ''of loop''),
      snippet_completion [''do {'', tab # ''${}'', ''} while (${})''] ''do'' (Some ''loop''),
      snippet_completion [''while (${}) {'', tab # ''${}'', ''}''] ''while'' (Some ''loop''),
      snippet_completion [''try {'', tab # ''${}'', ''} catch (${error}) {'', tab # ''${}'', ''}''] ''try'' (Some ''/ catch block''),
      snippet_completion [''if (${}) {'', tab # ''${}'', ''}''] ''if'' (Some ''block''),
      snippet_completion [''if (${}) {'', tab # ''${}'', ''} else {'', tab # ''${}'', ''}''] ''if'' (Some ''/ else block''),
      snippet_completion [''class ${name} {'', tab # ''constructor(${params}) {'', tab # tab # ''${}'', tab # ''}'', ''}''] ''class'' (Some ''definition''),
      snippet_completion [''import {${names}} from \"${module}\"'', ''${}''] ''import'' (Some ''named''),
      snippet_completion [''import ${name} from \"${module}\"'', ''${}''] ''import'' (Some ''default'')]"

definition typescript_only_snippets :: "completion list" where
  "typescript_only_snippets =
     [snippet_completion [''interface ${name} {'', tab # ''${}'', ''}''] ''interface'' (Some ''definition''),
      snippet_completion [''type ${name} = ${type}''] ''type'' (Some ''definition''),
      snippet_completion [''enum ${name} {'', tab # ''${}'', ''}''] ''enum'' (Some ''definition'')]"

definition python_snippets :: "completion list" where
  "python_snippets =
     [snippet_completion [''def ${name}(${params}):'', tab # ''${}''] ''def'' (Some ''function''),
      snippet_completion [''for ${name} in ${collection}:'', tab # ''${}''] ''for'' (Some ''loop''),
      snippet_completion [''while ${}:'', tab # ''${}''] ''while'' (Some ''loop''),
      snippet_completion [''try:'', tab # ''${}'', ''except ${error}:'', tab # ''${}''] ''try'' (Some ''/ except block''),
      snippet_completion [''if ${}:'', tab # '''', ''''] ''if'' (Some ''block''),
      snippet_completion [''if ${}:'', tab # ''${}'', ''else:'', tab # ''${}''] ''if'' (Some ''/ else block''),
      snippet_completion [''class ${name}:'', tab # ''def __init__(self, ${params}):'', tab # tab # tab # ''${}''] ''class'' (Some ''definition''),
      snippet_completion [''import ${module}''] ''import'' (Some ''statement''),
      snippet_completion [''from ${module} import ${names}''] ''from'' (Some ''import'')]"

definition typescript_snippets :: "completion list" where
  "typescript_snippets = javascript_snippets @ typescript_only_snippets"

section \<open>Placeholders\<close>

text \<open>
  The pattern \<open>[#$]\{(?:(\d+)(?::([^{}]*))?|((?:\\[{}]|[^{}])*))\}\<close> of one placeholder, at the
  start of a string. \<open>name_match\<close> is its second alternative with the closing brace: an escaped
  brace belongs to the name unless only that leaves no closing brace.
\<close>

definition brace :: "char \<Rightarrow> bool" where
  "brace c \<longleftrightarrow> c = CHR ''{'' \<or> c = CHR ''}''"

abbreviation backslash :: char where "backslash \<equiv> CHR 0x5C"

fun name_match :: "string \<Rightarrow> (string \<times> string) option" where
  "name_match [] = None"
| "name_match (c # t) =
     (if c = CHR ''}'' then Some ([], t)
      else if c = CHR ''{'' then None
      else if c = backslash then
        (case t of
           [] \<Rightarrow> None
         | b # t' \<Rightarrow>
             if brace b then
               (case name_match t' of
                  Some (n, r) \<Rightarrow> Some (c # b # n, r)
                | None \<Rightarrow> if b = CHR ''}'' then Some ([c], t') else None)
             else map_option (\<lambda>(n, r). (c # n, r)) (name_match t))
      else map_option (\<lambda>(n, r). (c # n, r)) (name_match t))"

definition is_digit :: "char \<Rightarrow> bool" where
  "is_digit c \<longleftrightarrow> c \<in> set ''0123456789''"

text \<open>A match: the three groups, its length, and the rest of the line.\<close>

record placeholder =
  ph_number :: "string option"
  ph_default :: "string option"
  ph_name :: "string option"
  ph_rest :: string

definition number_match :: "string \<Rightarrow> placeholder option" where
  "number_match t =
     (let ds = takeWhile is_digit t in
      if ds = [] then None
      else case dropWhile is_digit t of
        c # u \<Rightarrow>
          if c = CHR ''}'' then Some \<lparr>ph_number = Some ds, ph_default = None, ph_name = None, ph_rest = u\<rparr>
          else if c = CHR '':'' then
            (case dropWhile (\<lambda>x. \<not> brace x) u of
               d # v \<Rightarrow>
                 if d = CHR ''}'' then
                   Some \<lparr>ph_number = Some ds, ph_default = Some (takeWhile (\<lambda>x. \<not> brace x) u), ph_name = None, ph_rest = v\<rparr>
                 else None
             | [] \<Rightarrow> None)
          else None
      | [] \<Rightarrow> None)"

definition placeholder_at :: "string \<Rightarrow> placeholder option" where
  "placeholder_at s =
     (case s of
        c # b # t \<Rightarrow>
          if (c = CHR ''#'' \<or> c = CHR ''$'') \<and> b = CHR ''{'' then
            (case number_match t of
               Some p \<Rightarrow> Some p
             | None \<Rightarrow> map_option (\<lambda>(n, r). \<lparr>ph_number = None, ph_default = None, ph_name = Some n, ph_rest = r\<rparr>) (name_match t))
          else None
      | _ \<Rightarrow> None)"

text \<open>\<open>exec\<close>: the leftmost match, with the text before it.\<close>

fun find_placeholder :: "string \<Rightarrow> (string \<times> placeholder) option" where
  "find_placeholder [] = None"
| "find_placeholder (c # s) =
     (case placeholder_at (c # s) of
        Some p \<Rightarrow> Some ([], p)
      | None \<Rightarrow> map_option (\<lambda>(a, p). (c # a, p)) (find_placeholder s))"

text \<open>\<open>n[2] || n[3] || ""\<close>.\<close>

definition ph_text :: "placeholder \<Rightarrow> string" where
  "ph_text p = (if or_empty (ph_default p) \<noteq> [] then or_empty (ph_default p) else or_empty (ph_name p))"

fun unescape_braces :: "string \<Rightarrow> string" where
  "unescape_braces (c # b # s) =
     (if c = backslash \<and> brace b then b # unescape_braces s else c # unescape_braces (b # s))"
| "unescape_braces s = s"

section \<open>The parser\<close>

record snippet_field =
  sf_seq :: "nat option"
  sf_name :: string

record field_pos =
  fp_field :: nat
  fp_line :: nat
  fp_from :: int
  fp_to :: int

text \<open>The field a placeholder names: the last one with its number, or with its non-empty name.\<close>

definition find_field :: "nat option \<Rightarrow> string \<Rightarrow> snippet_field list \<Rightarrow> nat option" where
  "find_field a c t =
     fold (\<lambda>h l. if (if a \<noteq> None then sf_seq (t ! h) = a else c \<noteq> [] \<and> sf_name (t ! h) = c) then Some h else l)
       [0..<length t] None"

text \<open>Where a new field goes: numbered fields in order, before the named ones.\<close>

definition field_slot :: "nat option \<Rightarrow> snippet_field list \<Rightarrow> nat" where
  "field_slot a t =
     length (takeWhile (\<lambda>f. case a of None \<Rightarrow> True | Some n \<Rightarrow>
        (case sf_seq f of None \<Rightarrow> False | Some k \<Rightarrow> k < n)) t)"

definition shift_field :: "nat \<Rightarrow> field_pos \<Rightarrow> field_pos" where
  "shift_field l f = (if l \<le> fp_field f then f\<lparr>fp_field := Suc (fp_field f)\<rparr> else f)"

definition shift_pos :: "nat \<Rightarrow> int \<Rightarrow> int \<Rightarrow> field_pos \<Rightarrow> field_pos" where
  "shift_pos line i d f =
     (if fp_line f = line \<and> i < fp_from f then f\<lparr>fp_from := fp_from f - d, fp_to := fp_to f - d\<rparr> else f)"

type_synonym parse_state = "snippet_field list \<times> field_pos list"

text \<open>One round of the inner loop: the placeholder after \<open>a\<close> is replaced by its text.\<close>

definition add_field :: "nat \<Rightarrow> string \<Rightarrow> placeholder \<Rightarrow> parse_state \<Rightarrow> parse_state" where
  "add_field line a p st =
     (case st of (t, r) \<Rightarrow>
        let n = map_option digits_value (ph_number p);
            c = unescape_braces (ph_text p);
            (t1, r1, l) =
              (case find_field n c t of
                 Some l \<Rightarrow> (t, r, l)
               | None \<Rightarrow>
                   let l = field_slot n t in (insert_at l \<lparr>sf_seq = n, sf_name = c\<rparr> t, map (shift_field l) r, l));
            d = (if or_empty (ph_default p) \<noteq> [] then 3 + length (or_empty (ph_number p)) else 2);
            i = int (length a)
        in (t1, map (shift_pos line i (int d)) r1
                @ [\<lparr>fp_field = l, fp_line = line, fp_from = i, fp_to = i + int (length c)\<rparr>]))"

lemma name_match_shorter: "name_match s = Some (n, r) \<Longrightarrow> length n + length r < length s"
proof (induction s arbitrary: n r rule: name_match.induct)
  case (2 c t)
  consider "c = CHR ''}''" | "c = backslash" | "c \<noteq> CHR ''}''" "c \<noteq> CHR ''{''" "c \<noteq> backslash"
    using "2.prems" by (cases "c = CHR ''{''") auto
  then show ?case
  proof cases
    case 2
    with \<open>name_match (c # t) = Some (n, r)\<close> obtain b t' where t: "t = b # t'" by (cases t) auto
    show ?thesis
    proof (cases "brace b")
      case True
      then show ?thesis
        using "2.IH"(1) [of b t'] 2 t \<open>name_match (c # t) = Some (n, r)\<close>
        by (cases "name_match t'") (auto split: if_splits)
    next
      case False
      then show ?thesis
        using "2.IH"(2) [of b t'] 2 t \<open>name_match (c # t) = Some (n, r)\<close> by auto
    qed
  next
    case 3
    then show ?thesis using "2.IH"(3) "2.prems" by auto
  qed (use "2.prems" in auto)
qed simp

lemma placeholder_at_shorter: "placeholder_at s = Some p \<Longrightarrow> length (ph_text p) + length (ph_rest p) < length s"
proof -
  assume a: "placeholder_at s = Some p"
  then obtain c b t where s: "s = c # b # t"
    by (auto simp: placeholder_at_def split: list.splits)
  show ?thesis
  proof (cases "number_match t")
    case None
    with a s obtain n r where "name_match t = Some (n, r)" "ph_text p = n" "ph_rest p = r"
      by (auto simp: placeholder_at_def ph_text_def or_empty_def split: if_splits)
    then show ?thesis using name_match_shorter s by fastforce
  next
    case (Some q)
    with a s have q: "p = q" by (auto simp: placeholder_at_def split: if_splits)
    have le: "length (dropWhile is_digit t) \<le> length t" by (rule length_dropWhile_le)
    from Some obtain c u where u: "dropWhile is_digit t = c # u"
      by (auto simp: number_match_def Let_def split: if_splits list.splits)
    have parts: "length (takeWhile (\<lambda>x. \<not> brace x) u) + length (dropWhile (\<lambda>x. \<not> brace x) u) = length u"
      by (metis length_append takeWhile_dropWhile_id)
    show ?thesis
      using Some u le parts s q
      by (auto simp: number_match_def ph_text_def or_empty_def Let_def split: if_splits list.splits)
  qed
qed

lemma find_placeholder_shorter:
  "find_placeholder s = Some (a, p) \<Longrightarrow> length (a @ ph_text p @ ph_rest p) < length s"
  by (induction s arbitrary: a) (fastforce dest: placeholder_at_shorter split: option.splits)+

function parse_fields :: "nat \<Rightarrow> string \<Rightarrow> parse_state \<Rightarrow> string \<times> parse_state" where
  "parse_fields line s st =
     (case find_placeholder s of
        None \<Rightarrow> (s, st)
      | Some (a, p) \<Rightarrow> parse_fields line (a @ ph_text p @ ph_rest p) (add_field line a p st))"
  by pat_completeness auto
termination
  by (relation "measure (\<lambda>(line, s, st). length s)") (auto dest: find_placeholder_shorter)

declare parse_fields.simps [simp del]

text \<open>The last replacement on a line: escaped braces, from left to right.\<close>

fun unescape_line :: "nat \<Rightarrow> int \<Rightarrow> string \<Rightarrow> field_pos list \<Rightarrow> string \<times> field_pos list" where
  "unescape_line line i (c # b # s) r =
     (if c = backslash \<and> brace b then
        (case unescape_line line (i + 2) s (map (shift_pos line i 1) r) of (s', r') \<Rightarrow> (b # s', r'))
      else (case unescape_line line (i + 1) (b # s) r of (s', r') \<Rightarrow> (c # s', r')))"
| "unescape_line line i s r = (s, r)"

fun parse_lines :: "nat \<Rightarrow> string list \<Rightarrow> parse_state \<Rightarrow> string list \<times> parse_state" where
  "parse_lines line [] st = ([], st)"
| "parse_lines line (s # ss) st =
     (case parse_fields line s st of
        (s1, (t, r)) \<Rightarrow>
          (case unescape_line line 0 s1 r of
             (s2, r2) \<Rightarrow>
               (case parse_lines (Suc line) ss (t, r2) of (ls, st') \<Rightarrow> (s2 # ls, st'))))"

record snippet =
  sn_lines :: "string list"
  sn_positions :: "field_pos list"

definition parse_template :: "string \<Rightarrow> snippet \<times> snippet_field list" where
  "parse_template e =
     (case parse_lines 0 (split_lines (normalize_newlines e)) ([], []) of
        (ls, (t, r)) \<Rightarrow> (\<lparr>sn_lines = ls, sn_positions = r\<rparr>, t))"

section \<open>Insertion\<close>

definition leading_tabs :: "string \<Rightarrow> nat" where
  "leading_tabs l = length (takeWhile (\<lambda>c. c = tab) l)"

text \<open>A further line starts with the document's indentation, its tabs become indent units.\<close>

definition line_prefix :: "string \<Rightarrow> string \<Rightarrow> string \<Rightarrow> string" where
  "line_prefix unit base l = base @ concat (replicate (leading_tabs l) unit)"

fun instantiate_lines :: "string \<Rightarrow> string \<Rightarrow> bool \<Rightarrow> string list \<Rightarrow> int \<Rightarrow> string list \<times> int list" where
  "instantiate_lines unit base first [] t = ([], [])"
| "instantiate_lines unit base first (l # ls) t =
     (let text = (if first then l else line_prefix unit base l @ drop (leading_tabs l) l);
          start = (if first then t else t + int (length (line_prefix unit base l)) - int (leading_tabs l))
      in case instantiate_lines unit base False ls (t + int (length text) + 1) of
           (i, r) \<Rightarrow> (text # i, start # r))"

text \<open>
  \<open>instantiate\<close>: the lines to insert at position \<open>t\<close> of a document, and the field ranges;
  \<open>line_text\<close> is the text of the document's line at \<open>t\<close>, \<open>unit\<close> the indent unit.
\<close>

definition instantiate :: "string \<Rightarrow> string \<Rightarrow> snippet \<Rightarrow> int \<Rightarrow> string list \<times> (nat \<times> int \<times> int) list" where
  "instantiate unit line_text sn t =
     (case instantiate_lines unit (leading_space line_text) True (sn_lines sn) t of
        (i, r) \<Rightarrow>
          (i, map (\<lambda>p. (fp_field p, r ! fp_line p + fp_from p, r ! fp_line p + fp_to p)) (sn_positions sn)))"

section \<open>Facts\<close>

text \<open>Whether every field position of a parsed snippet selects the name of its field.\<close>

definition positions_ok :: "snippet \<times> snippet_field list \<Rightarrow> bool" where
  "positions_ok st =
     (case st of (sn, t) \<Rightarrow>
        list_all (\<lambda>p. fp_field p < length t \<and> fp_line p < length (sn_lines sn)
          \<and> (let l = sn_lines sn ! fp_line p in
              0 \<le> fp_from p \<and> fp_from p \<le> fp_to p \<and> fp_to p \<le> int (length l)
              \<and> (fp_line p = 0 \<or> int (leading_tabs l) \<le> fp_from p)
              \<and> slice (nat (fp_from p)) (nat (fp_to p)) l = sf_name (t ! fp_field p)))
          (sn_positions sn))"

text \<open>No placeholder is left in the text.\<close>

definition fully_parsed :: "snippet \<times> snippet_field list \<Rightarrow> bool" where
  "fully_parsed st = list_all (\<lambda>l. find_placeholder l = None) (sn_lines (fst st))"

lemma instantiate_lines_spec:
  assumes "instantiate_lines unit base first ls t = (i, r)"
  shows "length i = length ls \<and> length r = length ls
    \<and> (\<forall>k < length ls.
         (if first \<and> k = 0 then i ! k = ls ! k \<and> r ! k = t + int (line_start k i)
          else i ! k = line_prefix unit base (ls ! k) @ drop (leading_tabs (ls ! k)) (ls ! k)
            \<and> r ! k = t + int (line_start k i) + int (length (line_prefix unit base (ls ! k))) - int (leading_tabs (ls ! k))))"
  using assms
proof (induction unit base first ls t arbitrary: i r rule: instantiate_lines.induct)
  case (2 unit base first l ls t)
  let ?text = "if first then l else line_prefix unit base l @ drop (leading_tabs l) l"
  obtain i' r' where rec: "instantiate_lines unit base False ls (t + int (length ?text) + 1) = (i', r')" by fastforce
  with 2(2) have i: "i = ?text # i'" and r: "r = (if first then t else t + int (length (line_prefix unit base l)) - int (leading_tabs l)) # r'"
    by (auto simp: Let_def)
  note ih = 2(1) [OF refl refl rec]
  show ?case
  proof (intro conjI allI impI)
    fix k assume k: "k < length (l # ls)"
    show "if first \<and> k = 0 then i ! k = (l # ls) ! k \<and> r ! k = t + int (line_start k i)
          else i ! k = line_prefix unit base ((l # ls) ! k) @ drop (leading_tabs ((l # ls) ! k)) ((l # ls) ! k)
            \<and> r ! k = t + int (line_start k i) + int (length (line_prefix unit base ((l # ls) ! k))) - int (leading_tabs ((l # ls) ! k))"
    proof (cases k)
      case 0
      then show ?thesis using i r by simp
    next
      case (Suc j)
      then show ?thesis using ih i r k by simp
    qed
  qed (use ih i r in simp_all)
qed simp

lemma slice_middle: "slice (length a + m) (length a + n) (a @ l @ b) = take (n - m) (drop m (l @ b))"
  by (simp add: slice_def)

text \<open>A field range of the inserted text selects what its position selects in the template.\<close>

lemma instantiate_range:
  assumes "instantiate_lines unit base True ls t = (i, r)" and "k < length ls"
    and "0 \<le> f" and "f \<le> g" and "g \<le> int (length (ls ! k))" and "k = 0 \<or> int (leading_tabs (ls ! k)) \<le> f"
  shows "slice (nat (r ! k + f - t)) (nat (r ! k + g - t)) (join_lines i) = slice (nat f) (nat g) (ls ! k)"
proof -
  note spec = instantiate_lines_spec [OF assms(1)]
  have k: "k < length i" using spec assms(2) by simp
  from join_lines_at [OF k] obtain a b where ab: "join_lines i = a @ (i ! k) @ b" "length a = line_start k i" by blast
  show ?thesis
  proof (cases "k = 0")
    case True
    then have "i ! k = ls ! k" "r ! k = t + int (line_start k i)" using spec assms(2) by auto
    moreover have "line_start k i = 0" using True by simp
    ultimately show ?thesis
      using ab assms(3-5) True by (simp add: slice_def take_append)
  next
    case False
    let ?l = "ls ! k" and ?c = "leading_tabs (ls ! k)" and ?p = "line_prefix unit base (ls ! k)"
    have ik: "i ! k = ?p @ drop ?c ?l" and rk: "r ! k = t + int (line_start k i) + int (length ?p) - int ?c"
      using spec assms(2) False by auto
    have c: "int ?c \<le> f" using assms(6) False by blast
    have n: "nat (r ! k + f - t) = length (a @ ?p) + (nat f - ?c)" "nat (r ! k + g - t) = length (a @ ?p) + (nat g - ?c)"
      using rk ab(2) c assms(3,4) by auto
    have "join_lines i = (a @ ?p) @ drop ?c ?l @ b" using ab(1) ik by simp
    then have "slice (nat (r ! k + f - t)) (nat (r ! k + g - t)) (join_lines i)
        = take (nat g - ?c - (nat f - ?c)) (drop (nat f - ?c) (drop ?c ?l @ b))"
      unfolding n by (simp only: slice_middle)
    also have "\<dots> = slice (nat f) (nat g) ?l"
      using c assms(3-5) by (simp add: slice_def take_append)
    finally show ?thesis .
  qed
qed

section \<open>The properties of snippets\<close>

text \<open>
  Every completion the editor ships for Go, JavaScript, TypeScript and Python parses with no
  placeholder left in its text, and each of its field positions selects the name of its field.
\<close>
theorem builtin_snippets_sound:
  "\<forall>c \<in> set (go_snippets @ javascript_snippets @ typescript_snippets @ python_snippets).
     positions_ok (parse_template (cm_template c)) \<and> fully_parsed (parse_template (cm_template c))"
proof -
  let ?ok = "\<lambda>c. let s = parse_template (cm_template c) in positions_ok s \<and> fully_parsed s"
  have "list_all ?ok go_snippets" by code_simp
  moreover have "list_all ?ok javascript_snippets" by code_simp
  moreover have "list_all ?ok typescript_snippets" by code_simp
  moreover have "list_all ?ok python_snippets" by code_simp
  ultimately show ?thesis by (auto simp: list_all_iff Let_def)
qed

text \<open>
  When a parsed snippet is inserted at a position of the document, each range it returns
  lies at or after that position and selects, in the inserted text, the name of its field, for
  every indentation of the line and every indent unit.
\<close>
theorem snippet_ranges_select_fields:
  assumes "positions_ok (sn, fds)" and "instantiate unit line_text sn t = (ls, ranges)"
  shows "\<forall>(f, a, b) \<in> set ranges. f < length fds \<and> t \<le> a \<and> a \<le> b
    \<and> slice (nat (a - t)) (nat (b - t)) (join_lines ls) = sf_name (fds ! f)"
proof
  fix x assume x: "x \<in> set ranges"
  let ?base = "leading_space line_text"
  obtain i r where ir: "instantiate_lines unit ?base True (sn_lines sn) t = (i, r)" by fastforce
  with assms(2) have ls: "ls = i"
    and ranges: "ranges = map (\<lambda>p. (fp_field p, r ! fp_line p + fp_from p, r ! fp_line p + fp_to p)) (sn_positions sn)"
    by (auto simp: instantiate_def)
  from x ranges obtain p where p: "p \<in> set (sn_positions sn)"
    and xp: "x = (fp_field p, r ! fp_line p + fp_from p, r ! fp_line p + fp_to p)" by auto
  from assms(1) p have ok: "fp_field p < length fds" "fp_line p < length (sn_lines sn)"
    "0 \<le> fp_from p" "fp_from p \<le> fp_to p" "fp_to p \<le> int (length (sn_lines sn ! fp_line p))"
    "fp_line p = 0 \<or> int (leading_tabs (sn_lines sn ! fp_line p)) \<le> fp_from p"
    "slice (nat (fp_from p)) (nat (fp_to p)) (sn_lines sn ! fp_line p) = sf_name (fds ! fp_field p)"
    by (auto simp: positions_ok_def list_all_iff Let_def)
  have "t \<le> r ! fp_line p + fp_from p"
    using instantiate_lines_spec [OF ir] ok(2,3,6) by (cases "fp_line p = 0") auto
  then show "case x of (f, a, b) \<Rightarrow> f < length fds \<and> t \<le> a \<and> a \<le> b
      \<and> slice (nat (a - t)) (nat (b - t)) (join_lines ls) = sf_name (fds ! f)"
    using instantiate_range [OF ir ok(2-6)] ok(1,4,7) xp ls by simp
qed

end
