(* ===== verification/Image_Markup.thy ===== *)
theory Image_Markup
  imports Complex_Main Script_Text
begin

text \<open>
  SVG written by the file upload field
  (\<open>public/js/filament/forms/components/file-upload.js\<close>): the overlay of an image preview, with
  the identifiers that each overlay gets, and the document of a cropped SVG image. Numbers are
  rationals, where the script rounds to doubles, and their decimal rendering is a parameter.
\<close>

section \<open>The preview overlay\<close>

definition overlay_template :: string where
  "overlay_template = join_lines
     [''<svg width=\"500\" height=\"200\" viewBox=\"0 0 500 200\" preserveAspectRatio=\"none\">'',
      ''    <defs>'',
      ''        <radialGradient id=\"gradient-__UID__\" cx=\".5\" cy=\"1.25\" r=\"1.15\">'',
      ''            <stop offset='50%' stop-color='#000000'/>'',
      ''            <stop offset='56%' stop-color='#0a0a0a'/>'',
      ''            <stop offset='63%' stop-color='#262626'/>'',
      ''            <stop offset='69%' stop-color='#4f4f4f'/>'',
      ''            <stop offset='75%' stop-color='#808080'/>'',
      ''            <stop offset='81%' stop-color='#b1b1b1'/>'',
      ''            <stop offset='88%' stop-color='#dadada'/>'',
      ''            <stop offset='94%' stop-color='#f6f6f6'/>'',
      ''            <stop offset='100%' stop-color='#ffffff'/>'',
      ''        </radialGradient>'',
      ''        <mask id=\"mask-__UID__\">'',
      ''            <rect x=\"0\" y=\"0\" width=\"500\" height=\"200\" fill=\"url(#gradient-__UID__)\"></rect>'',
      ''        </mask>'',
      ''    </defs>'',
      ''    <rect x=\"0\" width=\"500\" height=\"200\" fill=\"currentColor\" mask=\"url(#mask-__UID__)\"></rect>'',
      ''</svg>'']"

definition uid_mark :: string where "uid_mark = ''__UID__''"

text \<open>
  \<open>create\<close> of the overlay view. In a page with a base element the references get the page's own
  address; \<open>k\<close> is the module's counter. The result is the class, the markup and the counter.
\<close>

definition overlay_source :: "string option \<Rightarrow> string" where
  "overlay_source base =
     (case base of
        None \<Rightarrow> overlay_template
      | Some href \<Rightarrow> replace_all ''url(#'' (''url('' @ href @ ''#'') overlay_template)"

definition create_overlay :: "string option \<Rightarrow> string \<Rightarrow> nat \<Rightarrow> (string \<times> string) \<times> nat" where
  "create_overlay base status k =
     ((''filepond--image-preview-overlay-'' @ status,
       replace_all uid_mark (nat_to_string (Suc k)) (overlay_source base)), Suc k)"

text \<open>A page that creates several overlays, one after the other.\<close>

fun create_overlays :: "string option \<Rightarrow> string list \<Rightarrow> nat \<Rightarrow> (string \<times> string) list" where
  "create_overlays base [] k = []"
| "create_overlays base (st # sts) k =
     (case create_overlay base st k of (v, k') \<Rightarrow> v # create_overlays base sts k')"

lemma replace_all_implode:
  assumes "p \<noteq> []" and "\<And>x. x \<in> set xs \<Longrightarrow> hd p \<notin> set x"
  shows "replace_all p r (implode p xs) = implode r xs"
proof -
  have plain: "replace_all p r (x @ s) = x @ replace_all p r s" if "hd p \<notin> set x" for x s
    using that
  proof (induction x)
    case (Cons c x)
    then have "\<not> str_starts_with (c # x @ s) p" using assms(1) by (cases p) (auto simp: str_starts_with_def)
    with Cons show ?case by simp
  qed simp
  have mark: "replace_all p r (p @ s) = r @ replace_all p r s" for s
  proof -
    obtain c t where "p = c # t" using assms(1) by (cases p) auto
    then show ?thesis by (simp add: str_starts_with_def)
  qed
  show ?thesis
    using assms(2)
  proof (induction xs)
    case (Cons x xs)
    show ?case
    proof (cases "xs = []")
      case True
      then show ?thesis using plain [of x "[]"] Cons.prems by simp
    next
      case False
      then show ?thesis using plain [of x "p @ implode p xs"] mark [of "implode p xs"] Cons by (simp add: implode_Cons)
    qed
  qed simp
qed

text \<open>The text around the four places of the identifier.\<close>

definition overlay_parts :: "string list" where
  "overlay_parts =
     [join_lines [''<svg width=\"500\" height=\"200\" viewBox=\"0 0 500 200\" preserveAspectRatio=\"none\">'',
         ''    <defs>'',
         ''        <radialGradient id=\"gradient-''],
      join_lines [''\" cx=\".5\" cy=\"1.25\" r=\"1.15\">'',
         ''            <stop offset='50%' stop-color='#000000'/>'',
         ''            <stop offset='56%' stop-color='#0a0a0a'/>'',
         ''            <stop offset='63%' stop-color='#262626'/>'',
         ''            <stop offset='69%' stop-color='#4f4f4f'/>'',
         ''            <stop offset='75%' stop-color='#808080'/>'',
         ''            <stop offset='81%' stop-color='#b1b1b1'/>'',
         ''            <stop offset='88%' stop-color='#dadada'/>'',
         ''            <stop offset='94%' stop-color='#f6f6f6'/>'',
         ''            <stop offset='100%' stop-color='#ffffff'/>'',
         ''        </radialGradient>'',
         ''        <mask id=\"mask-''],
      join_lines [''\">'',
         ''            <rect x=\"0\" y=\"0\" width=\"500\" height=\"200\" fill=\"url(#gradient-''],
      join_lines ['')\"></rect>'',
         ''        </mask>'',
         ''    </defs>'',
         ''    <rect x=\"0\" width=\"500\" height=\"200\" fill=\"currentColor\" mask=\"url(#mask-''],
      join_lines ['')\"></rect>'',
         ''</svg>'']]"

lemma overlay_template_parts: "overlay_template = implode uid_mark overlay_parts"
  by (simp add: overlay_template_def overlay_parts_def uid_mark_def)

lemma implode_inj:
  assumes "implode r xs = implode r' xs" and "length r = length r'" and "1 < length xs"
  shows "r = r'"
proof -
  from assms(3) obtain x y ys where "xs = x # y # ys" by (cases xs; cases "tl xs") auto
  with assms(1,2) show ?thesis by simp
qed

lemma length_implode_mono:
  "\<lbrakk>length r < length r'; 1 < length xs\<rbrakk> \<Longrightarrow> length (implode r xs) < length (implode r' xs)"
proof (induction xs)
  case (Cons x xs)
  show ?case
  proof (cases "1 < length xs")
    case True
    with Cons have "length (implode r xs) < length (implode r' xs)" by blast
    with Cons.prems True show ?thesis by (cases xs) simp_all
  next
    case False
    with Cons.prems obtain y where "xs = [y]" by (cases xs) auto
    with Cons.prems show ?thesis by simp
  qed
qed simp

lemma implode_eq_iff: "1 < length xs \<Longrightarrow> implode r xs = implode r' xs \<longleftrightarrow> r = r'"
  using implode_inj [of r xs r'] length_implode_mono [of r r' xs] length_implode_mono [of r' r xs]
  by (cases "length r" "length r'" rule: linorder_cases) auto

definition ends_in :: "string \<Rightarrow> string \<Rightarrow> bool" where
  "ends_in s t \<longleftrightarrow> drop (length s - length t) s = t"

text \<open>Which attribute each place belongs to.\<close>

lemma overlay_parts_around:
  "length overlay_parts = 5"
  "ends_in (overlay_parts ! 0) ''id=\"gradient-''" "str_starts_with (overlay_parts ! 1) ''\"''"
  "ends_in (overlay_parts ! 1) ''id=\"mask-''" "str_starts_with (overlay_parts ! 2) ''\"''"
  "ends_in (overlay_parts ! 2) ''fill=\"url(#gradient-''" "str_starts_with (overlay_parts ! 3) '')\"''"
  "ends_in (overlay_parts ! 3) ''mask=\"url(#mask-''" "str_starts_with (overlay_parts ! 4) '')\"''"
  by (simp_all add: overlay_parts_def ends_in_def str_starts_with_def numeral_nat)

lemma overlay_markup:
  "replace_all uid_mark r overlay_template = implode r overlay_parts"
  unfolding overlay_template_parts
  by (rule replace_all_implode) (simp_all add: uid_mark_def overlay_parts_def, auto)

section \<open>Cropping an SVG image\<close>

datatype transform = Rotate rat rat rat | Translate rat rat | Scale rat | Scale2 rat rat

fun show_transform :: "(rat \<Rightarrow> string) \<Rightarrow> transform \<Rightarrow> string" where
  "show_transform num (Rotate a x y) = ''rotate('' @ num a @ '' '' @ num x @ '' '' @ num y @ '')''"
| "show_transform num (Translate x y) = ''translate('' @ num x @ '' '' @ num y @ '')''"
| "show_transform num (Scale f) = ''scale('' @ num f @ '')''"
| "show_transform num (Scale2 f g) = ''scale('' @ num f @ '' '' @ num g @ '')''"

text \<open>
  The request: the size of the image and its units, the optional aspect ratio, centre, zoom and
  flips, the rotation in degrees, and the scale that fits the rotated image into the frame
  (computed by \<open>vo\<close>, with trigonometric functions outside the model).
\<close>

record crop =
  cr_width :: rat
  cr_height :: rat
  cr_width_unit :: string
  cr_height_unit :: string
  cr_aspect :: "rat option"
  cr_center :: "(rat \<times> rat) option"
  cr_degrees :: rat
  cr_fit :: rat
  cr_zoom :: rat
  cr_flip_horizontal :: bool
  cr_flip_vertical :: bool

definition frame_aspect :: "crop \<Rightarrow> rat" where
  "frame_aspect c = (case cr_aspect c of None \<Rightarrow> cr_height c / cr_width c
     | Some x \<Rightarrow> if x = 0 then cr_height c / cr_width c else x)"

definition frame_height :: "crop \<Rightarrow> rat" where
  "frame_height c = cr_width c * frame_aspect c"

definition crop_center :: "crop \<Rightarrow> rat \<times> rat" where
  "crop_center c = (case cr_center c of None \<Rightarrow> (1 / 2, 1 / 2) | Some p \<Rightarrow> p)"

definition frame_center :: "crop \<Rightarrow> rat \<times> rat" where
  "frame_center c = (cr_width c * (1 / 2), frame_height c * (1 / 2))"

definition frame_offset :: "crop \<Rightarrow> rat \<times> rat" where
  "frame_offset c = (fst (frame_center c) - cr_width c * fst (crop_center c),
                     snd (frame_center c) - cr_height c * snd (crop_center c))"

definition frame_transforms :: "crop \<Rightarrow> transform list" where
  "frame_transforms c =
     (case frame_center c of (x, y) \<Rightarrow>
        [Rotate (cr_degrees c) x y, Translate x y, Scale (cr_zoom c * cr_fit c), Translate (- x) (- y),
         Translate (fst (frame_offset c)) (snd (frame_offset c))])"

definition flip_transforms :: "crop \<Rightarrow> transform list" where
  "flip_transforms c =
     [Scale2 (if cr_flip_horizontal c then -1 else 1) (if cr_flip_vertical c then -1 else 1),
      Translate (if cr_flip_horizontal c then - cr_width c else 0) (if cr_flip_vertical c then - cr_height c else 0)]"

text \<open>The drawings on the image, by their depth, and the group they make.\<close>

definition markup_group :: "(int \<times> string) list \<Rightarrow> string" where
  "markup_group ms =
     (if ms = [] then []
      else [nl, nl] @ ''<g>''
        @ replace_all ''&nbsp;'' '' '' (concat (map (\<lambda>(z, h). [nl] @ h @ [nl]) (sort_key fst ms)))
        @ ''</g>'' @ [nl, nl])"

definition crop_document ::
  "(rat \<Rightarrow> string) \<Rightarrow> crop \<Rightarrow> string option \<Rightarrow> string option \<Rightarrow> string \<Rightarrow> (int \<times> string) list \<Rightarrow> string" where
  "crop_document num c background title picture ms =
     (let r = num (cr_width c); z = num (frame_height c) in join_lines
       [''<?xml version=\"1.0\" encoding=\"UTF-8\"?>'',
        ''<svg width=\"'' @ r @ cr_width_unit c @ ''\" height=\"'' @ z @ cr_height_unit c @ ''\" '',
        ''viewBox=\"0 0 '' @ r @ '' '' @ z @ ''\" ''
          @ (case background of None \<Rightarrow> [] | Some l \<Rightarrow> if l = [] then [] else ''style=\"background:'' @ l @ ''\" ''),
        ''preserveAspectRatio=\"xMinYMin\"'',
        ''xmlns:xlink=\"http://www.w3.org/1999/xlink\"'',
        ''xmlns=\"http://www.w3.org/2000/svg\">'',
        ''<!-- Generated by PQINA - https://pqina.nl/ -->'',
        ''<title>'' @ or_empty title @ ''</title>'',
        ''<g transform=\"'' @ implode '' '' (map (show_transform num) (frame_transforms c)) @ ''\">'',
        ''<g transform=\"'' @ implode '' '' (map (show_transform num) (flip_transforms c)) @ ''\">'',
        picture @ markup_group ms,
        ''</g>'',
        ''</g>'',
        ''</svg>''])"

text \<open>What the transforms do to a point: the last of a list first; a rotation is about its centre.\<close>

fun apply_transform :: "(rat \<Rightarrow> rat \<times> rat \<Rightarrow> rat \<times> rat) \<Rightarrow> transform \<Rightarrow> rat \<times> rat \<Rightarrow> rat \<times> rat" where
  "apply_transform rot (Rotate a x y) (u, v) = (case rot a (u - x, v - y) of (u', v') \<Rightarrow> (u' + x, v' + y))"
| "apply_transform rot (Translate x y) (u, v) = (u + x, v + y)"
| "apply_transform rot (Scale f) (u, v) = (f * u, f * v)"
| "apply_transform rot (Scale2 f g) (u, v) = (f * u, g * v)"

definition apply_transforms ::
  "(rat \<Rightarrow> rat \<times> rat \<Rightarrow> rat \<times> rat) \<Rightarrow> transform list \<Rightarrow> rat \<times> rat \<Rightarrow> rat \<times> rat" where
  "apply_transforms rot ts p = foldr (apply_transform rot) ts p"

lemma crop_center_to_frame_center:
  assumes "\<And>a. rot a (0, 0) = (0, 0)"
  shows "apply_transforms rot (frame_transforms c)
     (cr_width c * fst (crop_center c), cr_height c * snd (crop_center c)) = frame_center c"
  using assms by (simp add: apply_transforms_def frame_transforms_def frame_offset_def split: prod.splits)

lemma flip_point:
  "apply_transforms rot (flip_transforms c) (u, v)
     = (if cr_flip_horizontal c then cr_width c - u else u, if cr_flip_vertical c then cr_height c - v else v)"
  by (simp add: apply_transforms_def flip_transforms_def)

section \<open>The properties of the markup\<close>

text \<open>
  Overlays created one after the other get markup that refers to its own gradient and mask
  only, with the identifier of its turn in all four places, so no two overlays share one.
\<close>
theorem overlays_have_own_identifiers:
  "map snd (create_overlays None statuses k)
     = map (\<lambda>j. implode (nat_to_string (Suc (k + j))) overlay_parts) [0..<length statuses]
   \<and> distinct (map snd (create_overlays None statuses k))"
proof
  show *: "map snd (create_overlays None statuses k)
      = map (\<lambda>j. implode (nat_to_string (Suc (k + j))) overlay_parts) [0..<length statuses]" for k
  proof (induction statuses arbitrary: k)
    case (Cons st sts)
    show ?case
      by (simp only: create_overlays.simps create_overlay_def overlay_source_def option.case overlay_markup split
            list.map snd_conv Cons length_Cons upt_conv_Cons [OF zero_less_Suc] add_0_right map_Suc_upt [symmetric] map_map)
        (simp add: comp_def)
  qed simp
  have "inj_on (\<lambda>j. implode (nat_to_string (Suc (k + j))) overlay_parts) (set [0..<length statuses])"
    by (rule inj_onI) (simp add: implode_eq_iff overlay_parts_around(1) nat_to_string_inj)
  then show "distinct (map snd (create_overlays None statuses k))" by (simp add: * distinct_map)
qed

text \<open>
  The transforms of a cropped SVG move the crop's centre, taken on the image, to the centre
  of the frame, whatever the zoom, the rotation and the fit; and the flips mirror the image onto
  itself, so they are undone by a second application.
\<close>
theorem crop_maps_center:
  assumes "\<And>a. rot a (0, 0) = (0, 0)"
  shows "apply_transforms rot (frame_transforms c)
      (cr_width c * fst (crop_center c), cr_height c * snd (crop_center c)) = frame_center c
    \<and> apply_transforms rot (flip_transforms c) (apply_transforms rot (flip_transforms c) p) = p"
proof
  obtain u v where "p = (u, v)" by fastforce
  then show "apply_transforms rot (flip_transforms c) (apply_transforms rot (flip_transforms c) p) = p"
    by (simp add: flip_point)
qed (use assms in \<open>rule crop_center_to_frame_center\<close>)

end
