(* ===== verification/Table_Selection.thy ===== *)
theory Table_Selection
  imports Script_Text
begin

text \<open>
  The record selection of a table (\<open>filamentTable\<close> in
  \<open>public/js/filament/tables/tables.js\<close>). A JavaScript set is a list without repetition, in
  insertion order. The table has two representations of the selected records: the records
  selected, or, after all were selected, the records deselected since.
\<close>

section \<open>Sets in insertion order\<close>

definition set_add :: "'a \<Rightarrow> 'a list \<Rightarrow> 'a list" where
  "set_add x xs = (if x \<in> set xs then xs else xs @ [x])"

definition set_delete :: "'a \<Rightarrow> 'a list \<Rightarrow> 'a list" where
  "set_delete x xs = removeAll x xs"

definition set_of_keys :: "'a list \<Rightarrow> 'a list" where
  "set_of_keys ks = fold set_add ks []"

lemma set_set_add [simp]: "set (set_add x xs) = insert x (set xs)"
  by (auto simp: set_add_def)

lemma set_set_delete [simp]: "set (set_delete x xs) = set xs - {x}"
  by (simp add: set_delete_def)

lemma distinct_set_add [simp]: "distinct (set_add x xs) = distinct xs"
  by (auto simp: set_add_def)

lemma distinct_set_delete [simp]: "distinct xs \<Longrightarrow> distinct (set_delete x xs)"
  by (simp add: set_delete_def removeAll_filter_not_eq)

lemma length_set_add: "length (set_add x xs) = (if x \<in> set xs then length xs else Suc (length xs))"
  by (simp add: set_add_def)

lemma length_set_delete:
  "distinct xs \<Longrightarrow> x \<in> set xs \<Longrightarrow> Suc (length (set_delete x xs)) = length xs"
  by (induction xs) (auto simp: set_delete_def)

lemma fold_set_add: "set (fold set_add ks xs) = set ks \<union> set xs \<and> distinct (fold set_add ks xs) = distinct xs"
  by (induction ks arbitrary: xs) auto

lemma set_of_keys [simp]: "set (set_of_keys ks) = set ks" "distinct (set_of_keys ks)"
  using fold_set_add [of ks "[]"] by (simp_all add: set_of_keys_def)

section \<open>State and operations\<close>

text \<open>The table's parameters: \<open>maxSelectableRecords\<close>, \<open>canTrackDeselectedRecords\<close>, \<open>selectsCurrentPageOnly\<close>.\<close>

record table_config =
  tb_max :: "nat option"
  tb_can_track :: bool
  tb_page_only :: bool

text \<open>The value shared with the server: a list of keys, or one key when one record is selectable.\<close>

datatype entangled = ManyKeys "string list" | OneKey "string option"

record selection =
  sl_selected :: "string list"
  sl_deselected :: "string list"
  sl_tracking :: bool
  sl_entangled :: entangled
  sl_last :: "nat option"

definition is_record_selected :: "selection \<Rightarrow> string \<Rightarrow> bool" where
  "is_record_selected s k = (if sl_tracking s then k \<notin> set (sl_deselected s) else k \<in> set (sl_selected s))"

definition are_records_selected :: "selection \<Rightarrow> string list \<Rightarrow> bool" where
  "are_records_selected s ks = list_all (is_record_selected s) ks"

definition updated_selected :: "table_config \<Rightarrow> selection \<Rightarrow> selection" where
  "updated_selected c s =
     s\<lparr>sl_entangled :=
         (if tb_max c \<noteq> Some 1 then ManyKeys (sl_selected s)
          else OneKey (case sl_selected s of [] \<Rightarrow> None | k # ks \<Rightarrow> Some k))\<rparr>"

definition deselect_all_records :: "table_config \<Rightarrow> selection \<Rightarrow> selection" where
  "deselect_all_records c s =
     updated_selected c (s\<lparr>sl_tracking := False, sl_selected := [], sl_deselected := []\<rparr>)"

text \<open>One round of the loop of \<open>selectRecords\<close>, and of \<open>deselectRecords\<close>.\<close>

definition select_one :: "string \<Rightarrow> selection \<Rightarrow> selection" where
  "select_one k s =
     (if is_record_selected s k then s
      else if sl_tracking s then s\<lparr>sl_deselected := set_delete k (sl_deselected s)\<rparr>
      else s\<lparr>sl_selected := set_add k (sl_selected s)\<rparr>)"

definition deselect_one :: "string \<Rightarrow> selection \<Rightarrow> selection" where
  "deselect_one k s =
     (if sl_tracking s then s\<lparr>sl_deselected := set_add k (sl_deselected s)\<rparr>
      else s\<lparr>sl_selected := set_delete k (sl_selected s)\<rparr>)"

definition select_records :: "table_config \<Rightarrow> string list \<Rightarrow> selection \<Rightarrow> selection" where
  "select_records c ks s =
     updated_selected c
       (if tb_max c = Some 1 then fold select_one (take 1 ks) (deselect_all_records c s)
        else fold select_one ks s)"

definition deselect_records :: "table_config \<Rightarrow> string list \<Rightarrow> selection \<Rightarrow> selection" where
  "deselect_records c ks s = updated_selected c (fold deselect_one ks s)"

definition toggle_select_records :: "table_config \<Rightarrow> string list \<Rightarrow> selection \<Rightarrow> selection" where
  "toggle_select_records c ks s =
     (if are_records_selected s ks then deselect_records c ks s else select_records c ks s)"

definition toggle_selected_record :: "table_config \<Rightarrow> string \<Rightarrow> selection \<Rightarrow> selection" where
  "toggle_selected_record c k s =
     (if is_record_selected s k then deselect_records c [k] s else select_records c [k] s)"

text \<open>\<open>selectAllRecords\<close>; \<open>keys\<close> is the server's answer, when it is asked.\<close>

definition select_all_records :: "table_config \<Rightarrow> string list \<Rightarrow> selection \<Rightarrow> selection" where
  "select_all_records c keys s =
     updated_selected c
       (if \<not> tb_can_track c \<or> tb_page_only c then s\<lparr>sl_selected := set_of_keys keys\<rparr>
        else s\<lparr>sl_tracking := True, sl_selected := [], sl_deselected := []\<rparr>)"

text \<open>\<open>shown\<close> is the count of selectable records that the page shows, when it shows one.\<close>

definition selected_count :: "nat option \<Rightarrow> selection \<Rightarrow> int" where
  "selected_count shown s =
     (if sl_tracking s
      then (case shown of None \<Rightarrow> int (length (sl_deselected s)) | Some n \<Rightarrow> int n) - int (length (sl_deselected s))
      else int (length (sl_selected s)))"

definition are_records_toggleable :: "table_config \<Rightarrow> nat option \<Rightarrow> selection \<Rightarrow> string list \<Rightarrow> bool" where
  "are_records_toggleable c shown s ks =
     (case tb_max c of
        None \<Rightarrow> True
      | Some n \<Rightarrow>
          n = 1
          \<or> (let r = filter (is_record_selected s) ks in
              length r = length ks
              \<or> selected_count shown s + int (length ks - length r) \<le> int n))"

definition can_select_all :: "table_config \<Rightarrow> string list \<Rightarrow> nat option \<Rightarrow> selection \<Rightarrow> bool" where
  "can_select_all c on_page shown s =
     (if tb_page_only c then \<not> are_records_selected s on_page \<and> are_records_toggleable c shown s on_page
      else
        (case shown of
           None \<Rightarrow> False
         | Some i \<Rightarrow>
             i \<noteq> 0 \<and> int i \<noteq> selected_count shown s \<and> (case tb_max c of None \<Rightarrow> True | Some n \<Rightarrow> i \<le> n)))"

text \<open>
  \<open>handleCheckboxClick\<close>: \<open>boxes\<close> are the check boxes on the page in document order, each with its
  record's key; the box clicked is \<open>r\<close>, and \<open>checked\<close> its new state. The result has the state the
  box is left in.
\<close>

definition box_index :: "nat \<Rightarrow> (nat \<times> string) list \<Rightarrow> nat" where
  "box_index b boxes = length (takeWhile (\<lambda>x. fst x \<noteq> b) boxes)"

definition keys_between :: "nat \<Rightarrow> nat \<Rightarrow> (nat \<times> string) list \<Rightarrow> string list" where
  "keys_between a d boxes = map snd (take (Suc (max a d) - min a d) (drop (min a d) boxes))"

definition handle_checkbox_click ::
  "table_config \<Rightarrow> nat option \<Rightarrow> (nat \<times> string) list \<Rightarrow> bool \<Rightarrow> nat \<times> string \<Rightarrow> bool \<Rightarrow> selection \<Rightarrow> selection \<times> bool" where
  "handle_checkbox_click c shown boxes shift r checked s =
     (case sl_last s of
        None \<Rightarrow> (s\<lparr>sl_last := Some (fst r)\<rparr>, checked)
      | Some l \<Rightarrow>
          if \<not> shift then (s\<lparr>sl_last := Some (fst r)\<rparr>, checked)
          else if l \<notin> set (map fst boxes) then (s\<lparr>sl_last := Some (fst r)\<rparr>, checked)
          else let h = keys_between (box_index l boxes) (box_index (fst r) boxes) boxes in
            if checked then
              (if \<not> are_records_toggleable c shown s h then (deselect_records c [snd r] s, False)
               else ((select_records c h s)\<lparr>sl_last := Some (fst r)\<rparr>, checked))
            else ((deselect_records c h s)\<lparr>sl_last := Some (fst r)\<rparr>, checked))"

text \<open>What an action is told of the selection: tracking, selected and deselected records.\<close>

definition mount_action :: "selection \<Rightarrow> bool \<times> string list \<times> string list" where
  "mount_action s = (sl_tracking s, sl_selected s, sl_deselected s)"

text \<open>The collapsed groups; \<open>by_default\<close> when groups start collapsed.\<close>

definition is_group_collapsed :: "bool \<Rightarrow> string list \<Rightarrow> string \<Rightarrow> bool" where
  "is_group_collapsed by_default vis g = (if by_default then g \<notin> set vis else g \<in> set vis)"

text \<open>\<open>splice(indexOf(g), 1)\<close>: the index of an element that is missing is -1, the last place.\<close>

definition splice_out :: "'a \<Rightarrow> 'a list \<Rightarrow> 'a list" where
  "splice_out g vis = (if g \<in> set vis then remove1 g vis else butlast vis)"

definition toggle_collapse_group :: "bool \<Rightarrow> string \<Rightarrow> string list \<Rightarrow> string list" where
  "toggle_collapse_group by_default g vis =
     (if is_group_collapsed by_default vis g
      then (if by_default then vis @ [g] else splice_out g vis)
      else (if by_default then splice_out g vis else vis @ [g]))"

section \<open>The abstract selection\<close>

text \<open>The records selected, in both representations.\<close>

definition chosen :: "selection \<Rightarrow> string set" where
  "chosen s = {k. is_record_selected s k}"

text \<open>
  The contract of a set of keys that is changed by lists of keys, and what follows for a client
  that toggles a list: the whole list is selected afterwards, or, if it was, none of it is.
\<close>

locale key_selection =
  fixes sel :: "'c \<Rightarrow> 'k list \<Rightarrow> 's \<Rightarrow> 's"
    and desel :: "'c \<Rightarrow> 'k list \<Rightarrow> 's \<Rightarrow> 's"
    and keys :: "'s \<Rightarrow> 'k set"
    and multi :: "'c \<Rightarrow> bool"
  assumes keys_sel: "multi c \<Longrightarrow> keys (sel c ks s) = keys s \<union> set ks"
    and keys_desel: "multi c \<Longrightarrow> keys (desel c ks s) = keys s - set ks"
begin

lemma keys_toggle:
  "multi c \<Longrightarrow> keys (if set ks \<subseteq> keys s then desel c ks s else sel c ks s)
     = (if set ks \<subseteq> keys s then keys s - set ks else keys s \<union> set ks)"
  by (simp add: keys_sel keys_desel)

lemma desel_undoes_sel: "\<lbrakk>multi c; set ks \<inter> keys s = {}\<rbrakk> \<Longrightarrow> keys (desel c ks (sel c ks s)) = keys s"
  by (auto simp: keys_sel keys_desel)

lemma sel_undoes_desel: "\<lbrakk>multi c; set ks \<subseteq> keys s\<rbrakk> \<Longrightarrow> keys (sel c ks (desel c ks s)) = keys s"
  by (auto simp: keys_sel keys_desel)

lemma sel_order: "multi c \<Longrightarrow> keys (sel c ks (sel c ks' s)) = keys (sel c ks' (sel c ks s))"
  by (auto simp: keys_sel)

end

lemma chosen_updated [simp]: "chosen (updated_selected c s) = chosen s"
  by (simp add: chosen_def is_record_selected_def updated_selected_def)

lemma chosen_last [simp]: "chosen (s\<lparr>sl_last := l\<rparr>) = chosen s"
  by (simp add: chosen_def is_record_selected_def)

lemma chosen_select_one: "chosen (select_one k s) = insert k (chosen s)"
  by (auto simp: chosen_def is_record_selected_def select_one_def)

lemma chosen_deselect_one: "chosen (deselect_one k s) = chosen s - {k}"
  by (auto simp: chosen_def is_record_selected_def deselect_one_def)

lemma chosen_fold_select: "chosen (fold select_one ks s) = chosen s \<union> set ks"
  by (induction ks arbitrary: s) (auto simp: chosen_select_one)

lemma chosen_fold_deselect: "chosen (fold deselect_one ks s) = chosen s - set ks"
  by (induction ks arbitrary: s) (auto simp: chosen_deselect_one)

interpretation records: key_selection select_records deselect_records chosen "\<lambda>c. tb_max c \<noteq> Some 1"
  by unfold_locales (simp_all add: select_records_def deselect_records_def chosen_fold_select chosen_fold_deselect)

lemma are_records_selected_iff: "are_records_selected s ks \<longleftrightarrow> set ks \<subseteq> chosen s"
  by (auto simp: are_records_selected_def chosen_def list_all_iff)

lemma chosen_deselect_all [simp]: "chosen (deselect_all_records c s) = {}"
  by (simp add: deselect_all_records_def) (simp add: chosen_def is_record_selected_def)

lemma chosen_select_single: "tb_max c = Some 1 \<Longrightarrow> chosen (select_records c ks s) = set (take 1 ks)"
  by (simp add: select_records_def chosen_fold_select)

section \<open>Well-formed states and the count\<close>

definition selection_ok :: "table_config \<Rightarrow> selection \<Rightarrow> bool" where
  "selection_ok c s \<longleftrightarrow> distinct (sl_selected s) \<and> distinct (sl_deselected s)
     \<and> (if sl_tracking s then tb_can_track c \<and> \<not> tb_page_only c \<and> sl_selected s = [] else sl_deselected s = [])"

lemma selection_ok_updated [simp]: "selection_ok c (updated_selected c' s) = selection_ok c s"
  by (simp add: selection_ok_def updated_selected_def)

lemma selection_ok_last [simp]: "selection_ok c (s\<lparr>sl_last := l\<rparr>) = selection_ok c s"
  by (simp add: selection_ok_def)

lemma selection_ok_fold:
  "selection_ok c s \<Longrightarrow> selection_ok c (fold select_one ks s)"
  "selection_ok c s \<Longrightarrow> selection_ok c (fold deselect_one ks s)"
proof -
  have *: "selection_ok c s \<Longrightarrow> selection_ok c (select_one k s)" "selection_ok c s \<Longrightarrow> selection_ok c (deselect_one k s)"
    for k s by (auto simp: selection_ok_def select_one_def deselect_one_def split: if_splits)
  show "selection_ok c s \<Longrightarrow> selection_ok c (fold select_one ks s)"
    by (induction ks arbitrary: s) (simp_all add: *)
  show "selection_ok c s \<Longrightarrow> selection_ok c (fold deselect_one ks s)"
    by (induction ks arbitrary: s) (simp_all add: *)
qed

lemma selection_ok_deselect_all: "selection_ok c (deselect_all_records c' s)"
  by (simp add: deselect_all_records_def) (simp add: selection_ok_def)

lemma selection_ok_select: "selection_ok c s \<Longrightarrow> selection_ok c (select_records c ks s)"
  by (simp add: select_records_def selection_ok_fold selection_ok_deselect_all)

lemma selection_ok_deselect: "selection_ok c s \<Longrightarrow> selection_ok c (deselect_records c ks s)"
  by (simp add: deselect_records_def selection_ok_fold)

lemma selection_ok_select_all: "selection_ok c s \<Longrightarrow> selection_ok c (select_all_records c ks s)"
  by (simp add: select_all_records_def) (auto simp: selection_ok_def)

lemma count_updated [simp]: "selected_count t (updated_selected c s) = selected_count t s"
  by (simp add: selected_count_def updated_selected_def split: option.splits)

lemma count_last [simp]: "selected_count t (s\<lparr>sl_last := l\<rparr>) = selected_count t s"
  by (simp add: selected_count_def split: option.splits)

lemma count_select_one:
  "selection_ok c s \<Longrightarrow> selected_count t (select_one k s)
     \<le> selected_count t s + (if is_record_selected s k then 0 else 1)"
  using length_set_delete [of "sl_deselected s" k]
  by (auto simp: selected_count_def select_one_def is_record_selected_def selection_ok_def length_set_add
      split: option.splits)

lemma selected_select_one: "is_record_selected s j \<Longrightarrow> is_record_selected (select_one k s) j"
  by (auto simp: select_one_def is_record_selected_def)

lemma count_fold_select:
  "selection_ok c s \<Longrightarrow> selected_count t (fold select_one ks s)
     \<le> selected_count t s + int (length (filter (\<lambda>k. \<not> is_record_selected s k) ks))"
proof (induction ks arbitrary: s)
  case (Cons k ks)
  let ?s = "select_one k s"
  have "selection_ok c ?s" using selection_ok_fold(1) [OF Cons.prems, of "[k]"] by simp
  note ih = Cons.IH [OF this]
  have "length (filter (\<lambda>j. \<not> is_record_selected ?s j) ks) \<le> length (filter (\<lambda>j. \<not> is_record_selected s j) ks)"
    using selected_select_one [of s _ k] by (induction ks) auto
  then show ?case using ih count_select_one [OF Cons.prems, of t k] by (cases "is_record_selected s k") simp_all
qed simp

lemma count_deselect:
  assumes "selection_ok c s"
  shows "selected_count t (deselect_records c ks s) \<le> selected_count t s"
proof -
  have "selected_count t (fold deselect_one ks s) \<le> selected_count t s"
    using assms
  proof (induction ks arbitrary: s)
    case (Cons k ks)
    have "selection_ok c (deselect_one k s)" using selection_ok_fold(2) [OF Cons.prems, of "[k]"] by simp
    moreover have "selected_count t (deselect_one k s) \<le> selected_count t s"
      by (auto simp: selected_count_def deselect_one_def length_set_add set_delete_def split: option.splits)
    ultimately show ?case using Cons.IH by fastforce
  qed simp
  then show ?thesis by (simp add: deselect_records_def)
qed

lemma count_select_single:
  assumes "tb_max c = Some 1"
  shows "selected_count t (select_records c ks s) \<le> 1"
  using assms by (cases ks)
    (simp_all add: select_records_def, simp_all add: selected_count_def deselect_all_records_def updated_selected_def select_one_def
      is_record_selected_def set_add_def)

lemma count_select_toggleable:
  assumes "selection_ok c s" and "are_records_toggleable c t s ks"
    and "tb_max c = Some n" and "selected_count t s \<le> int n"
  shows "selected_count t (select_records c ks s) \<le> int n"
proof (cases "n = 1")
  case True
  then show ?thesis using count_select_single assms(3) by auto
next
  case False
  have "length (filter (\<lambda>k. \<not> is_record_selected s k) ks) = length ks - length (filter (is_record_selected s) ks)"
    using sum_length_filter_compl [of "is_record_selected s" ks] by simp
  moreover have "selected_count t s + int (length (filter (\<lambda>k. \<not> is_record_selected s k) ks)) \<le> int n"
    using assms(2-4) False calculation by (auto simp: are_records_toggleable_def Let_def)
  ultimately show ?thesis using count_fold_select [OF assms(1), of t ks] assms(3) False by (simp add: select_records_def)
qed

section \<open>The properties of the selection\<close>

text \<open>
  C39. In both representations the operations of a table with multiple selection do to the chosen
  records what they say: toggling a list deselects it when all of it is chosen and selects all of
  it otherwise, toggling one record flips it, deselecting all leaves none, selecting all gives the
  records of the server's answer, or every record there is.
\<close>
theorem selection_refines_set:
  assumes "tb_max c \<noteq> Some 1" and "selection_ok c s"
  shows "chosen (toggle_select_records c ks s) = (if set ks \<subseteq> chosen s then chosen s - set ks else chosen s \<union> set ks)
    \<and> chosen (toggle_selected_record c k s) = (if k \<in> chosen s then chosen s - {k} else insert k (chosen s))
    \<and> chosen (deselect_all_records c s) = {}
    \<and> chosen (select_all_records c ks s) = (if tb_can_track c \<and> \<not> tb_page_only c then UNIV else set ks)
    \<and> (case mount_action s of (tracking, sel, desel) \<Rightarrow> chosen s = (if tracking then - set desel else set sel))"
proof (intro conjI)
  show "chosen (toggle_select_records c ks s)
      = (if set ks \<subseteq> chosen s then chosen s - set ks else chosen s \<union> set ks)"
    using records.keys_toggle [of c ks s] assms(1) by (simp add: toggle_select_records_def are_records_selected_iff)
  have "is_record_selected s k \<longleftrightarrow> set [k] \<subseteq> chosen s" by (simp add: chosen_def)
  then show "chosen (toggle_selected_record c k s) = (if k \<in> chosen s then chosen s - {k} else insert k (chosen s))"
    using records.keys_toggle [of c "[k]" s] assms(1) by (simp add: toggle_selected_record_def)
  show "chosen (select_all_records c ks s) = (if tb_can_track c \<and> \<not> tb_page_only c then UNIV else set ks)"
    using assms(2) by (simp add: select_all_records_def) (auto simp: chosen_def is_record_selected_def selection_ok_def split: if_splits)
  show "case mount_action s of (tracking, sel, desel) \<Rightarrow> chosen s = (if tracking then - set desel else set sel)"
    by (auto simp: mount_action_def chosen_def is_record_selected_def)
qed (rule chosen_deselect_all)

definition sample_selection :: selection where
  "sample_selection = \<lparr>sl_selected = [''1'', ''4''], sl_deselected = [], sl_tracking = False,
     sl_entangled = ManyKeys [''1'', ''4''], sl_last = Some 10\<rparr>"

theorem selection_refines_set_witness:
  "let c = \<lparr>tb_max = None, tb_can_track = True, tb_page_only = False\<rparr>
   in chosen (toggle_select_records c [''1'', ''2''] sample_selection) = {''1'', ''2'', ''4''}
     \<and> chosen (toggle_selected_record c ''4'' sample_selection) = {''1''}"
proof -
  let ?c = "\<lparr>tb_max = None, tb_can_track = True, tb_page_only = False\<rparr>"
  have c: "chosen sample_selection = {''1'', ''4''}"
    by (auto simp: chosen_def is_record_selected_def sample_selection_def)
  have "tb_max ?c \<noteq> Some 1" "selection_ok ?c sample_selection" by (simp_all add: selection_ok_def sample_selection_def)
  from selection_refines_set [OF this, of "[''1'', ''2'']" "''4''"] show ?thesis unfolding c Let_def by auto
qed

text \<open>
  C40. A click on a check box keeps the state well formed, and a selection within the table's
  limit stays within it, whatever range a shift click spans; when the range would pass the limit
  the box is unchecked again and nothing is selected.
\<close>
theorem shift_click_keeps_limit:
  assumes "selection_ok c s" and "tb_max c = Some n" and "selected_count t s \<le> int n"
    and "handle_checkbox_click c t boxes shift r checked s = (s', checked')"
  shows "selection_ok c s' \<and> selected_count t s' \<le> int n
    \<and> (checked' \<noteq> checked \<longrightarrow> \<not> checked' \<and> s' = deselect_records c [snd r] s)"
proof -
  have le: "selected_count t (deselect_records c ks s) \<le> int n" for ks
    using count_deselect [OF assms(1), of t ks] assms(3) by linarith
  show ?thesis
    using assms(4) selection_ok_select [OF assms(1)] selection_ok_deselect [OF assms(1)] assms(1,3) le
      count_select_toggleable [OF assms(1) _ assms(2,3)]
    by (auto simp: handle_checkbox_click_def Let_def split: option.splits if_splits)
qed

theorem shift_click_keeps_limit_witness:
  "let c = \<lparr>tb_max = Some 4, tb_can_track = True, tb_page_only = False\<rparr>;
       boxes = [(10, ''1''), (11, ''2''), (12, ''3''), (13, ''4''), (14, ''5''), (15, ''6'')]
   in selected_count None (fst (handle_checkbox_click c None boxes True (13, ''4'') True sample_selection)) = 4
     \<and> handle_checkbox_click c None boxes True (15, ''6'') True sample_selection
        = (deselect_records c [''6''] sample_selection, False)"
proof -
  let ?c = "\<lparr>tb_max = Some 4, tb_can_track = True, tb_page_only = False\<rparr>"
  let ?boxes = "[(10, ''1''), (11, ''2''), (12, ''3''), (13, ''4''), (14, ''5''), (15, ''6'')] :: (nat \<times> string) list"
  have h: "selection_ok ?c sample_selection" "tb_max ?c = Some 4" "selected_count None sample_selection \<le> int 4"
    by (simp_all add: selection_ok_def sample_selection_def selected_count_def)
  obtain s' b where e: "handle_checkbox_click ?c None ?boxes True (15, ''6'') True sample_selection = (s', b)" by fastforce
  have "snd (handle_checkbox_click ?c None ?boxes True (15, ''6'') True sample_selection) = False" by code_simp
  with e shift_click_keeps_limit [OF h e] have "(s', b) = (deselect_records ?c [''6''] sample_selection, False)" by simp
  moreover have "selected_count None (fst (handle_checkbox_click ?c None ?boxes True (13, ''4'') True sample_selection)) = 4"
    by code_simp
  ultimately show ?thesis unfolding Let_def e by blast
qed

end
