(* ===== verification/Form_Widgets.thy ===== *)
theory Form_Widgets
  imports Script_Text
begin

text \<open>
  Form fields under \<open>public/js/filament/forms/components\<close>: the tags input
  (\<open>tags-input.js\<close>), the key-value field (\<open>key-value.js\<close>) and the check box list
  (\<open>checkbox-list.js\<close>). An item dragged to another place is removed and inserted, in all of them.
\<close>

text \<open>\<open>splice(old, 1)\<close> and \<open>splice(new, 0, x)\<close>.\<close>

definition move_item :: "nat \<Rightarrow> nat \<Rightarrow> 'a list \<Rightarrow> 'a list" where
  "move_item i j xs = insert_at j (xs ! i) (remove_at i xs)"

lemma mset_move_item: "i < length xs \<Longrightarrow> mset (move_item i j xs) = mset xs"
  by (simp add: move_item_def mset_move)

section \<open>Tags\<close>

record tags_input =
  tg_new :: string
  tg_state :: "string list"

definition create_tag :: "tags_input \<Rightarrow> tags_input" where
  "create_tag s =
     (let s1 = s\<lparr>tg_new := js_trim (tg_new s)\<rparr> in
      if tg_new s1 \<noteq> [] then
        (if tg_new s1 \<in> set (tg_state s1) then s1\<lparr>tg_new := []\<rparr>
         else s1\<lparr>tg_state := tg_state s1 @ [tg_new s1], tg_new := []\<rparr>)
      else s1)"

definition delete_tag :: "string \<Rightarrow> tags_input \<Rightarrow> tags_input" where
  "delete_tag t s = s\<lparr>tg_state := filter (\<lambda>e. e \<noteq> t) (tg_state s)\<rparr>"

definition reorder_tags :: "nat \<Rightarrow> nat \<Rightarrow> tags_input \<Rightarrow> tags_input" where
  "reorder_tags old new s = s\<lparr>tg_state := move_item old new (tg_state s)\<rparr>"

text \<open>A key press: whether the key's default is prevented, and the state.\<close>

definition tags_keydown :: "string list \<Rightarrow> string \<Rightarrow> tags_input \<Rightarrow> bool \<times> tags_input" where
  "tags_keydown split_keys k s =
     (if k \<in> set (''Enter'' # split_keys) then (True, create_tag s) else (False, s))"

text \<open>
  Splitting at the split keys, the first of them that matches first; the pattern escapes every
  character with a meaning in patterns, so keys stand for themselves. Keys are not empty.
\<close>

fun split_at_keys :: "string list \<Rightarrow> string \<Rightarrow> string list" where
  "split_at_keys ks [] = [[]]"
| "split_at_keys ks (c # s) =
     (case find (\<lambda>k. k \<noteq> [] \<and> str_starts_with (c # s) k) ks of
        Some k \<Rightarrow> [] # split_at_keys ks (drop (length k - 1) s)
      | None \<Rightarrow>
          (case split_at_keys ks s of
             [] \<Rightarrow> [[c]]
           | x # xs \<Rightarrow> (c # x) # xs))"

definition create_tags :: "string list \<Rightarrow> tags_input \<Rightarrow> tags_input" where
  "create_tags ps s = fold (\<lambda>e st. create_tag (st\<lparr>tg_new := e\<rparr>)) ps s"

definition paste_tags :: "string list \<Rightarrow> tags_input \<Rightarrow> tags_input" where
  "paste_tags split_keys s =
     (if split_keys = [] then create_tag s
      else create_tags (split_at_keys split_keys (tg_new s)) s)"

text \<open>What a text adds to the tags.\<close>

definition tags_ok :: "tags_input \<Rightarrow> bool" where
  "tags_ok s \<longleftrightarrow> distinct (tg_state s) \<and> (\<forall>t \<in> set (tg_state s). t \<noteq> [] \<and> js_trim t = t)"

lemma create_tag_spec:
  "set (tg_state (create_tag s)) = set (tg_state s) \<union> ({js_trim (tg_new s)} - {[]})"
  "tg_new (create_tag s) = []"
  "tags_ok s \<Longrightarrow> tags_ok (create_tag s)"
  "\<exists>xs. tg_state (create_tag s) = tg_state s @ xs"
  by (auto simp: create_tag_def Let_def tags_ok_def)

lemma create_tags_spec:
  "set (tg_state (create_tags ps s)) = set (tg_state s) \<union> (js_trim ` set ps - {[]})
   \<and> (ps \<noteq> [] \<longrightarrow> tg_new (create_tags ps s) = [])
   \<and> (tags_ok s \<longrightarrow> tags_ok (create_tags ps s))
   \<and> (\<exists>xs. tg_state (create_tags ps s) = tg_state s @ xs)"
proof (induction ps arbitrary: s)
  case (Cons p ps)
  let ?s = "s\<lparr>tg_new := p\<rparr>"
  have step: "create_tags (p # ps) s = create_tags ps (create_tag ?s)" by (simp add: create_tags_def)
  have s: "tags_ok ?s = tags_ok s" "tg_state ?s = tg_state s" by (simp_all add: tags_ok_def)
  note spec = create_tag_spec [of ?s, unfolded s]
  show ?case
    using Cons.IH [of "create_tag ?s"] spec unfolding step
    by (cases "ps = []") (auto simp: create_tags_def)
qed (simp add: create_tags_def)

lemma split_at_keys_not_empty: "split_at_keys ks s \<noteq> []"
  by (cases s) (auto split: option.splits list.splits)

lemma tags_ok_reorder: "\<lbrakk>tags_ok s; i < length (tg_state s)\<rbrakk> \<Longrightarrow> tags_ok (reorder_tags i j s)"
  using mset_move_item [of i "tg_state s" j]
  by (simp add: tags_ok_def reorder_tags_def) (metis mset_eq_imp_distinct_iff mset_eq_setD)

lemma tags_ok_delete: "tags_ok s \<Longrightarrow> tags_ok (delete_tag t s)"
  by (simp add: tags_ok_def delete_tag_def)

section \<open>Keys and values\<close>

text \<open>A key is a string or null; the values are of any type.\<close>

record 'v kv_row =
  kv_key :: "string option"
  kv_value :: 'v

record 'v key_value =
  kv_state :: "'v kv_row list"
  kv_rows :: "'v kv_row list"

definition blank_row :: "'v kv_row \<Rightarrow> bool" where
  "blank_row r \<longleftrightarrow> kv_key r = Some [] \<or> kv_key r = None"

definition update_rows :: "'v key_value \<Rightarrow> 'v key_value" where
  "update_rows s =
     s\<lparr>kv_rows := kv_state s @ map (\<lambda>r. \<lparr>kv_key = Some [], kv_value = kv_value r\<rparr>) (filter blank_row (kv_rows s))\<rparr>"

text \<open>\<open>updateState\<close>: the state is assigned when its text differs, that is, when it does.\<close>

definition update_state :: "'v key_value \<Rightarrow> 'v key_value" where
  "update_state s =
     (let e = filter (\<lambda>r. \<not> blank_row r) (kv_rows s) in if kv_state s \<noteq> e then s\<lparr>kv_state := e\<rparr> else s)"

text \<open>\<open>v0\<close> is the empty string, the value of a new row.\<close>

definition push_row :: "'v \<Rightarrow> 'v key_value \<Rightarrow> 'v key_value" where
  "push_row v0 s = s\<lparr>kv_rows := kv_rows s @ [\<lparr>kv_key = Some [], kv_value = v0\<rparr>]\<rparr>"

definition init_key_value :: "'v \<Rightarrow> 'v kv_row list \<Rightarrow> 'v key_value" where
  "init_key_value v0 state =
     (let s = update_rows \<lparr>kv_state = state, kv_rows = []\<rparr> in
      if kv_rows s = [] then push_row v0 s else update_state s)"

definition add_row :: "'v \<Rightarrow> 'v key_value \<Rightarrow> 'v key_value" where
  "add_row v0 s = update_state (push_row v0 s)"

definition delete_row :: "'v \<Rightarrow> nat \<Rightarrow> 'v key_value \<Rightarrow> 'v key_value" where
  "delete_row v0 e s =
     (let s1 = s\<lparr>kv_rows := remove_at e (kv_rows s)\<rparr>;
          s2 = (if kv_rows s1 = [] then add_row v0 s1 else s1)
      in update_state s2)"

definition reorder_rows :: "nat \<Rightarrow> nat \<Rightarrow> 'v key_value \<Rightarrow> 'v key_value" where
  "reorder_rows old new s = update_state (s\<lparr>kv_rows := move_item old new (kv_rows s)\<rparr>)"

text \<open>The watcher of the state: \<open>old\<close> is the length of its former value; both lists.\<close>

definition state_changed :: "nat \<Rightarrow> 'v key_value \<Rightarrow> 'v key_value" where
  "state_changed old s = (if length (kv_state s) = 0 \<and> old = 0 then s else update_rows s)"

text \<open>The user edits a row.\<close>

definition edit_row :: "nat \<Rightarrow> 'v kv_row \<Rightarrow> 'v key_value \<Rightarrow> 'v key_value" where
  "edit_row i r s = update_state (s\<lparr>kv_rows := (kv_rows s)[i := r]\<rparr>)"

definition kv_synced :: "'v key_value \<Rightarrow> bool" where
  "kv_synced s \<longleftrightarrow> kv_state s = filter (\<lambda>r. \<not> blank_row r) (kv_rows s) \<and> kv_rows s \<noteq> []"

lemma update_state_eq: "update_state s = s\<lparr>kv_state := filter (\<lambda>r. \<not> blank_row r) (kv_rows s)\<rparr>"
  by (simp add: update_state_def Let_def)

lemma filter_blank_new:
  "filter (\<lambda>r. \<not> blank_row r) (map (\<lambda>r. \<lparr>kv_key = Some [], kv_value = f r\<rparr>) xs) = []"
  by (induction xs) (simp_all add: blank_row_def)

lemma update_rows_synced: "kv_synced s \<Longrightarrow> kv_synced (update_rows s)"
  by (cases "kv_rows s") (auto simp: kv_synced_def update_rows_def filter_blank_new)

lemma update_rows_values:
  assumes "kv_synced s"
  shows "mset (map kv_value (kv_rows (update_rows s))) = mset (map kv_value (kv_rows s))"
proof -
  have "mset (map kv_value (filter (\<lambda>r. \<not> blank_row r) xs)) + mset (map kv_value (filter blank_row xs))
      = mset (map kv_value xs)" for xs :: "'a kv_row list"
    by (induction xs) simp_all
  then show ?thesis using assms by (simp add: kv_synced_def update_rows_def comp_def)
qed

section \<open>A list of check boxes\<close>

record checkbox =
  cx_label :: "string option"
  cx_description :: "string option"
  cx_checked :: bool
  cx_disabled :: bool

record checkbox_list =
  cl_all :: bool
  cl_search :: "string option"
  cl_options :: "checkbox list"

definition matches_search :: "string option \<Rightarrow> checkbox \<Rightarrow> bool" where
  "matches_search search o1 =
     (case search of
        None \<Rightarrow> True
      | Some q \<Rightarrow>
          q = []
          \<or> (case cx_label o1 of None \<Rightarrow> False | Some l \<Rightarrow> str_contains (js_lower l) (js_lower q))
          \<or> (case cx_description o1 of None \<Rightarrow> False | Some d \<Rightarrow> str_contains (js_lower d) (js_lower q)))"

definition all_checked :: "checkbox_list \<Rightarrow> bool" where
  "all_checked s =
     (let visible = filter (matches_search (cl_search s)) (cl_options s) in
      length visible = length (filter (\<lambda>o1. cx_checked o1 \<or> cx_disabled o1) visible))"

definition check_if_all :: "checkbox_list \<Rightarrow> checkbox_list" where
  "check_if_all s = s\<lparr>cl_all := all_checked s\<rparr>"

definition toggle_all_checkboxes :: "checkbox_list \<Rightarrow> checkbox_list" where
  "toggle_all_checkboxes s =
     (let s1 = check_if_all s; e = (\<not> cl_all s1) in
      s1\<lparr>cl_options := map (\<lambda>o1. if matches_search (cl_search s1) o1 \<and> \<not> (cx_disabled o1 \<or> cx_checked o1 = e)
                                then o1\<lparr>cx_checked := e\<rparr> else o1) (cl_options s1),
         cl_all := e\<rparr>)"

definition search_checkboxes :: "string option \<Rightarrow> checkbox_list \<Rightarrow> checkbox_list" where
  "search_checkboxes q s = check_if_all (s\<lparr>cl_search := q\<rparr>)"

lemma matches_search_checked [simp]: "matches_search q (o1\<lparr>cx_checked := b\<rparr>) = matches_search q o1"
  by (simp add: matches_search_def split: option.splits)

lemma all_checked_iff:
  "all_checked s \<longleftrightarrow> (\<forall>o1 \<in> set (cl_options s). matches_search (cl_search s) o1 \<longrightarrow> cx_checked o1 \<or> cx_disabled o1)"
proof -
  have "length xs = length (filter P xs) \<longleftrightarrow> (\<forall>x \<in> set xs. P x)" for P and xs :: "checkbox list"
    by (metis filter_id_conv length_filter_less nat_neq_iff)
  then show ?thesis by (auto simp: all_checked_def Let_def)
qed

text \<open>Turning all on leaves the flag as a recomputation would; boxes out of sight stay as they are.\<close>

lemma toggle_all_on:
  assumes "\<not> all_checked s"
  shows "cl_all (toggle_all_checkboxes s) \<and> all_checked (toggle_all_checkboxes s)"
  using assms by (auto simp: toggle_all_checkboxes_def check_if_all_def Let_def all_checked_iff)

lemma toggle_all_keeps:
  assumes "i < length (cl_options s)" and "\<not> matches_search (cl_search s) (cl_options s ! i) \<or> cx_disabled (cl_options s ! i)"
  shows "cl_options (toggle_all_checkboxes s) ! i = cl_options s ! i"
  using assms by (auto simp: toggle_all_checkboxes_def check_if_all_def Let_def)

section \<open>The properties of the fields\<close>

text \<open>
  Whatever is typed, pasted, deleted or moved, the tags stay distinct, trimmed and not empty;
  pasting adds exactly the trimmed, non-empty pieces between the split keys, after the tags there
  were, and empties the input.
\<close>
theorem pasted_tags:
  assumes "tags_ok s" and "split_keys \<noteq> []"
  shows "tags_ok (paste_tags split_keys s)
    \<and> tg_new (paste_tags split_keys s) = []
    \<and> set (tg_state (paste_tags split_keys s))
        = set (tg_state s) \<union> (js_trim ` set (split_at_keys split_keys (tg_new s)) - {[]})
    \<and> (\<exists>xs. tg_state (paste_tags split_keys s) = tg_state s @ xs)
    \<and> tags_ok (snd (tags_keydown split_keys k s)) \<and> tags_ok (delete_tag t s)
    \<and> (i < length (tg_state s) \<longrightarrow> tags_ok (reorder_tags i j s) \<and> mset (tg_state (reorder_tags i j s)) = mset (tg_state s))"
  using assms create_tags_spec [of "split_at_keys split_keys (tg_new s)" s]
  by (simp add: paste_tags_def split_at_keys_not_empty tags_keydown_def create_tag_spec(3) tags_ok_delete tags_ok_reorder)
    (simp add: reorder_tags_def mset_move_item)

text \<open>
  From its start on, the key-value field's state is the rows that have a key, in their order,
  and there is always a row; adding, deleting, editing and moving rows keep this, and so does the
  watcher that rebuilds the rows from the state, which loses no value that was typed.
\<close>
theorem key_value_synced:
  "kv_synced (init_key_value v0 state)
   \<and> (kv_synced s \<longrightarrow>
        kv_synced (add_row v0 s) \<and> kv_synced (delete_row v0 e s) \<and> kv_synced (edit_row e r s)
      \<and> (e < length (kv_rows s) \<longrightarrow> kv_synced (reorder_rows e e' s))
      \<and> kv_synced (state_changed n s)
      \<and> mset (map kv_value (kv_rows (state_changed n s))) = mset (map kv_value (kv_rows s)))"
proof (intro conjI impI)
  show "kv_synced (init_key_value v0 state)"
    by (auto simp: init_key_value_def Let_def update_rows_def kv_synced_def update_state_eq push_row_def blank_row_def)
  assume s: "kv_synced s"
  show "kv_synced (add_row v0 s)" by (simp add: add_row_def push_row_def update_state_eq kv_synced_def)
  show "kv_synced (delete_row v0 e s)"
    by (simp add: delete_row_def add_row_def push_row_def update_state_eq kv_synced_def Let_def)
  show "kv_synced (edit_row e r s)" using s by (simp add: edit_row_def update_state_eq kv_synced_def)
  show "kv_synced (state_changed n s)" using s by (simp add: state_changed_def update_rows_synced)
  show "mset (map kv_value (kv_rows (state_changed n s))) = mset (map kv_value (kv_rows s))"
    using update_rows_values [OF s] by (simp add: state_changed_def)
  show "kv_synced (reorder_rows e e' s)"
    by (simp add: reorder_rows_def update_state_eq kv_synced_def move_item_def insert_at_def)
qed

end
