(* ===== verification/Schema_Widgets.thy ===== *)
theory Schema_Widgets
  imports Script_Text
begin

text \<open>
  Layout components under \<open>public/js/filament/schemas\<close>: the wizard
  (\<open>components/wizard.js\<close>), the tabs (\<open>components/tabs.js\<close>) and the state paths of schema
  components (\<open>schemas.js\<close>). The steps and tabs come from the page at every operation, so they are
  arguments; a step that is missing is \<open>None\<close>, the script's undefined.
\<close>

section \<open>The wizard\<close>

record wizard =
  wz_skippable :: bool
  wz_step :: "string option"

text \<open>\<open>at(i)\<close> of an array.\<close>

definition js_at :: "int \<Rightarrow> 'a list \<Rightarrow> 'a option" where
  "js_at i xs =
     (let k = (if i < 0 then i + int (length xs) else i) in
      if 0 \<le> k \<and> k < int (length xs) then Some (xs ! nat k) else None)"

definition step_index :: "string list \<Rightarrow> string option \<Rightarrow> int" where
  "step_index steps t =
     (let e = (case t of None \<Rightarrow> -1
                | Some s \<Rightarrow> if s \<in> set steps then int (length (takeWhile (\<lambda>x. x \<noteq> s) steps)) else -1)
      in if e = -1 then 0 else e)"

definition init_wizard :: "bool \<Rightarrow> string list \<Rightarrow> int \<Rightarrow> wizard" where
  "init_wizard skippable steps start = \<lparr>wz_skippable = skippable, wz_step = js_at (start - 1) steps\<rparr>"

text \<open>The event that resets the component, unless its step is kept in the query string.\<close>

definition reset_wizard :: "bool \<Rightarrow> string list \<Rightarrow> int \<Rightarrow> wizard \<Rightarrow> wizard" where
  "reset_wizard persisted steps start w =
     (if persisted then w
      else w\<lparr>wz_step := (case js_at (start - 1) steps of None \<Rightarrow> wz_step w | Some s \<Rightarrow> Some s)\<rparr>)"

definition go_to_next_step :: "string list \<Rightarrow> wizard \<Rightarrow> wizard" where
  "go_to_next_step steps w =
     (let t = step_index steps (wz_step w) + 1 in
      if int (length steps) \<le> t then w else w\<lparr>wz_step := Some (steps ! nat t)\<rparr>)"

definition go_to_previous_step :: "string list \<Rightarrow> wizard \<Rightarrow> wizard" where
  "go_to_previous_step steps w =
     (let t = step_index steps (wz_step w) - 1 in
      if t < 0 then w else w\<lparr>wz_step := (if nat t < length steps then Some (steps ! nat t) else None)\<rparr>)"

definition go_to_step :: "string list \<Rightarrow> string \<Rightarrow> wizard \<Rightarrow> wizard" where
  "go_to_step steps t w =
     (let e = step_index steps (Some t) in
      if e \<le> -1 \<or> \<not> wz_skippable w \<and> step_index steps (wz_step w) < e then w
      else w\<lparr>wz_step := Some t\<rparr>)"

definition is_first_step :: "string list \<Rightarrow> wizard \<Rightarrow> bool" where
  "is_first_step steps w \<longleftrightarrow> step_index steps (wz_step w) \<le> 0"

definition is_last_step :: "string list \<Rightarrow> wizard \<Rightarrow> bool" where
  "is_last_step steps w \<longleftrightarrow> int (length steps) \<le> step_index steps (wz_step w) + 1"

definition is_step_accessible :: "string list \<Rightarrow> string \<Rightarrow> wizard \<Rightarrow> bool" where
  "is_step_accessible steps t w \<longleftrightarrow>
     wz_skippable w \<or> step_index steps (Some t) < step_index steps (wz_step w)"

lemma takeWhile_neq_nth: "\<lbrakk>distinct xs; k < length xs\<rbrakk> \<Longrightarrow> length (takeWhile (\<lambda>x. x \<noteq> xs ! k) xs) = k"
proof (induction xs arbitrary: k)
  case (Cons x xs)
  then show ?case by (cases k) (auto simp: nth_mem)
qed simp

lemma step_index_nth: "\<lbrakk>distinct steps; k < length steps\<rbrakk> \<Longrightarrow> step_index steps (Some (steps ! k)) = int k"
  by (simp add: step_index_def takeWhile_neq_nth Let_def)

lemma step_index_nonneg: "0 \<le> step_index steps t"
  by (simp add: step_index_def Let_def split: option.splits)

lemma wizard_at_step:
  assumes "wz_step w = Some s" and "s \<in> set steps"
  obtains k where "k < length steps" "wz_step w = Some (steps ! k)"
  using assms by (metis in_set_conv_nth)

section \<open>The tabs\<close>

text \<open>\<open>init\<close>: the tab of the query string, the tab given, or the active one; tabs count from 1.\<close>

definition nth_tab :: "string list \<Rightarrow> nat \<Rightarrow> string option" where
  "nth_tab tabs h = (if 0 < h \<and> h - 1 < length tabs then Some (tabs ! (h - 1)) else None)"

definition init_tab :: "string list \<Rightarrow> bool \<Rightarrow> string option \<Rightarrow> nat \<Rightarrow> string option \<Rightarrow> string option" where
  "init_tab tabs persisted query active tab =
     (let tab1 = (case query of Some q \<Rightarrow> if persisted \<and> q \<in> set tabs then Some q else tab | None \<Rightarrow> tab) in
      case tab1 of
        None \<Rightarrow> nth_tab tabs active
      | Some s \<Rightarrow> if s = [] \<or> s \<notin> set tabs then nth_tab tabs active else Some s)"

text \<open>After a server message: the tab stays when there is one of its name.\<close>

definition tabs_changed :: "string list \<Rightarrow> nat \<Rightarrow> string option \<Rightarrow> string option" where
  "tabs_changed tabs active tab =
     (if tab \<noteq> None \<and> the tab \<in> set tabs then tab
      else (case nth_tab tabs active of None \<Rightarrow> tab | Some s \<Rightarrow> Some s))"

record tab_item =
  ti_width :: int
  ti_label :: int
  ti_badge :: int

text \<open>
  \<open>findOverflowIndex\<close>: the width \<open>e\<close>, the gap \<open>i\<close> between tabs, the gap \<open>a\<close> in a tab, its padding
  \<open>l\<close>, and the width \<open>b\<close> of the menu's icon, all rounded up by the caller.
\<close>

definition tab_total :: "int \<Rightarrow> tab_item \<Rightarrow> int" where
  "tab_total a x = ti_label x + (if 0 < ti_badge x then a + ti_badge x else 0)"

definition bar_width :: "tab_item list \<Rightarrow> int \<Rightarrow> int \<Rightarrow> int \<Rightarrow> int \<Rightarrow> nat \<Rightarrow> int" where
  "bar_width t i a l b n =
     sum_list (map ti_width (take (Suc n) t)) + int n * i
     + (let o1 = drop (Suc n) t in if o1 = [] then 0 else l + Max (set (map (tab_total a) o1)) + a + b + i)"

definition find_overflow_index :: "tab_item list \<Rightarrow> int \<Rightarrow> int \<Rightarrow> int \<Rightarrow> int \<Rightarrow> int \<Rightarrow> int" where
  "find_overflow_index t e i a l b =
     (case find (\<lambda>n. e < bar_width t i a l b n) [0..<length t] of None \<Rightarrow> -1 | Some n \<Rightarrow> int n)"

lemma find_upt_Some: "find P [0..<n] = Some k \<Longrightarrow> P k \<and> k < n \<and> (\<forall>j < k. \<not> P j)"
  by (auto simp: find_Some_iff)

text \<open>All tabs fit, or those before the index do, with room for a menu, and one more does not.\<close>

lemma find_overflow_index_spec:
  "(find_overflow_index t e i a l b = -1 \<longrightarrow> (\<forall>n < length t. bar_width t i a l b n \<le> e))
   \<and> (find_overflow_index t e i a l b \<noteq> -1 \<longrightarrow>
        (let k = nat (find_overflow_index t e i a l b) in
         k < length t \<and> e < bar_width t i a l b k \<and> (\<forall>n < k. bar_width t i a l b n \<le> e)))"
  by (auto simp: find_overflow_index_def find_None_iff not_less dest!: find_upt_Some split: option.splits) (meson not_le)

section \<open>State paths\<close>

text \<open>The text before the last dot, when there is one.\<close>

definition parent_path :: "string \<Rightarrow> string option" where
  "parent_path t =
     (if CHR ''.'' \<in> set t then Some (rev (tl (dropWhile (\<lambda>c. c \<noteq> CHR ''.'') (rev t)))) else None)"

text \<open>
  The loop over \<open>../\<close>, and the function \<open>a\<close> that resolves a path. A path is null (\<open>None\<close>) or a string; asking
  null for its dots raises a type error, the outer \<open>None\<close>.
\<close>

function go_up :: "string option \<Rightarrow> string \<Rightarrow> (string option \<times> string) option" where
  "go_up t e =
     (if str_starts_with e ''../'' then
        (case t of None \<Rightarrow> None | Some p \<Rightarrow> go_up (parent_path p) (drop 3 e))
      else Some (t, e))"
  by pat_completeness auto
termination
  by (relation "measure (\<lambda>(t, e). length e)") (auto simp: str_starts_with_def dest: arg_cong [of _ _ length])

declare go_up.simps [simp del]

definition resolve_state_path :: "string option \<Rightarrow> string \<Rightarrow> bool \<Rightarrow> string option option" where
  "resolve_state_path container path absolute =
     (let slash = str_starts_with path ''/'';
          e = (if slash then drop 1 path else path) in
      if absolute \<or> slash then Some (Some e)
      else
        (case go_up container e of
           None \<Rightarrow> None
         | Some (t, e') \<Rightarrow>
             Some (if t = None \<or> t = Some [] then Some e'
                   else if e' = [] then t
                   else Some (the t @ ''.'' @ e'))))"

text \<open>A path of names without dots.\<close>

definition dotted :: "string list \<Rightarrow> string" where
  "dotted ps = implode ''.'' ps"

definition path_name :: "string \<Rightarrow> bool" where
  "path_name p \<longleftrightarrow> CHR ''.'' \<notin> set p"

lemma parent_path_append:
  "CHR ''.'' \<notin> set p \<Longrightarrow> parent_path (t @ ''.'' @ p) = Some t"
  by (simp add: parent_path_def dropWhile_append)

lemma dropWhile_name: "CHR ''.'' \<notin> set p \<Longrightarrow> parent_path p = None"
  by (simp add: parent_path_def)

lemma dotted_snoc: "ps \<noteq> [] \<Longrightarrow> dotted (ps @ [p]) = dotted ps @ ''.'' @ p"
  by (simp add: dotted_def implode_append)

text \<open>The container path of the given names; no names are null.\<close>

definition container_path :: "string list \<Rightarrow> string option" where
  "container_path ps = (if ps = [] then None else Some (dotted ps))"

lemma parent_container:
  "\<lbrakk>list_all path_name ps; ps \<noteq> []\<rbrakk> \<Longrightarrow> parent_path (dotted ps) = container_path (butlast ps)"
proof (cases ps rule: rev_cases)
  case (snoc qs q)
  assume "list_all path_name ps"
  with snoc have q: "CHR ''.'' \<notin> set q" by (simp add: path_name_def)
  show ?thesis
  proof (cases "qs = []")
    case True
    then show ?thesis using snoc q dropWhile_name by (simp add: container_path_def dotted_def)
  next
    case False
    then show ?thesis using snoc parent_path_append [OF q, of "dotted qs"]
      by (simp add: dotted_snoc container_path_def)
  qed
qed simp

lemma go_up_container:
  assumes "list_all path_name ps" and "\<not> str_starts_with e ''../''"
  shows "go_up (container_path ps) (concat (replicate k ''../'') @ e)
     = (if k \<le> length ps then Some (container_path (take (length ps - k) ps), e) else None)"
  using assms(1)
proof (induction k arbitrary: ps)
  case 0
  then show ?case using assms(2) by (simp add: go_up.simps [of _ e])
next
  case (Suc k)
  let ?r = "concat (replicate k ''../'') @ e"
  have e: "concat (replicate (Suc k) ''../'') @ e = ''../'' @ ?r" by simp
  have up: "go_up (container_path ps) (''../'' @ ?r)
      = (case container_path ps of None \<Rightarrow> None | Some p \<Rightarrow> go_up (parent_path p) ?r)"
    by (simp add: go_up.simps [of _ "''../'' @ ?r", simplified] str_starts_with_def numeral_3_eq_3 split: option.split)
  show ?case
  proof (cases "ps = []")
    case True
    then show ?thesis unfolding e up by (simp add: container_path_def)
  next
    case False
    then have "container_path ps = Some (dotted ps)" by (simp add: container_path_def)
    moreover have "parent_path (dotted ps) = container_path (butlast ps)" using parent_container Suc.prems False by blast
    moreover have "list_all path_name (butlast ps)" using Suc.prems by (auto simp: list_all_iff dest: in_set_butlastD)
    ultimately have "go_up (container_path ps) (''../'' @ ?r)
        = (if k \<le> length (butlast ps) then Some (container_path (take (length (butlast ps) - k) (butlast ps)), e) else None)"
      unfolding up using Suc.IH by simp
    moreover have "k \<le> length (butlast ps) \<longleftrightarrow> Suc k \<le> length ps" using False by (cases ps) auto
    moreover have "take (length (butlast ps) - k) (butlast ps) = take (length ps - Suc k) ps"
      by (simp add: butlast_conv_take min_def)
    ultimately show ?thesis unfolding e by simp
  qed
qed

section \<open>The properties of the layout components\<close>

text \<open>
  On a wizard at one of its steps, next and previous move by one and stop at the ends; going
  to another step of the wizard is refused exactly when it lies ahead and steps cannot be skipped;
  but a name that is no step of the wizard is taken as its step.
\<close>
theorem wizard_moves:
  assumes "distinct steps" and "k < length steps" and "wz_step w = Some (steps ! k)"
  shows "wz_step (go_to_next_step steps w) = Some (steps ! (if Suc k < length steps then Suc k else k))
    \<and> wz_step (go_to_previous_step steps w) = Some (steps ! (k - 1))
    \<and> (j < length steps \<longrightarrow>
        wz_step (go_to_step steps (steps ! j) w) = Some (steps ! (if wz_skippable w \<or> j \<le> k then j else k)))
    \<and> (t \<notin> set steps \<longrightarrow> wz_step (go_to_step steps t w) = Some t)
    \<and> (is_first_step steps w \<longleftrightarrow> k = 0) \<and> (is_last_step steps w \<longleftrightarrow> Suc k = length steps)"
proof -
  have i: "step_index steps (wz_step w) = int k" using assms by (simp add: step_index_nth)
  have "step_index steps (Some t) = 0" if "t \<notin> set steps" using that by (simp add: step_index_def)
  then have "t \<notin> set steps \<longrightarrow> wz_step (go_to_step steps t w) = Some t"
    by (simp add: go_to_step_def i Let_def)
  moreover have "step_index steps (Some (steps ! j)) = int j" if "j < length steps" using that assms(1) by (simp add: step_index_nth)
  then have "j < length steps \<longrightarrow>
      wz_step (go_to_step steps (steps ! j) w) = Some (steps ! (if wz_skippable w \<or> j \<le> k then j else k))"
    by (simp add: go_to_step_def i Let_def) (simp add: assms(3))
  moreover have "wz_step (go_to_next_step steps w) = Some (steps ! (if Suc k < length steps then Suc k else k))"
  proof (cases "Suc k < length steps")
    case True
    then have "\<not> int (length steps) \<le> int k + 1" "nat (int k + 1) = Suc k" by simp_all
    then show ?thesis using True by (simp add: go_to_next_step_def i Let_def)
  next
    case False
    then have "int (length steps) \<le> int k + 1" by simp
    then have "go_to_next_step steps w = w" by (simp only: go_to_next_step_def i Let_def if_True)
    then show ?thesis using False assms(3) by simp
  qed
  moreover have "wz_step (go_to_previous_step steps w) = Some (steps ! (k - 1))"
    using assms(2,3) i by (cases k) (simp_all add: go_to_previous_step_def Let_def)
  moreover have "is_first_step steps w \<longleftrightarrow> k = 0" "is_last_step steps w \<longleftrightarrow> Suc k = length steps"
    using assms(2) by (auto simp: is_first_step_def is_last_step_def i)
  ultimately show ?thesis by blast
qed

text \<open>
  A relative state path that goes up \<open>k\<close> times is resolved against the names of its container:
  \<open>k\<close> of them are dropped from the end and the rest of the path is appended; going up further than
  the container is deep fails with a type error. An absolute path is taken as it is.
\<close>
theorem state_paths_resolved:
  assumes "list_all path_name ps" and "e \<noteq> []" and "\<not> str_starts_with e ''../''" and "\<not> str_starts_with e ''/''"
    and "[] \<notin> set ps"
  shows "resolve_state_path (container_path ps) (concat (replicate k ''../'') @ e) False
      = (if k \<le> length ps then Some (Some (dotted (take (length ps - k) ps @ [e]))) else None)
    \<and> resolve_state_path (container_path ps) (''/'' @ e) b = Some (Some e)
    \<and> resolve_state_path (container_path ps) e True = Some (Some e)"
proof -
  let ?qs = "take (length ps - k) ps" and ?p = "concat (replicate k ''../'') @ e"
  have s: "\<not> str_starts_with ?p ''/''" using assms(4) by (cases k) (simp_all add: str_starts_with_def)
  have n: "dotted ?qs \<noteq> []" if "?qs \<noteq> []"
  proof -
    from that obtain q qs where "?qs = q # qs" using list.exhaust by blast
    moreover have "q \<noteq> []" using calculation assms(5) by (metis in_set_takeD list.set_intros(1))
    ultimately show ?thesis by (cases qs) (simp_all add: dotted_def)
  qed
  have "resolve_state_path (container_path ps) ?p False
      = (if k \<le> length ps then Some (Some (dotted (?qs @ [e]))) else None)"
  proof (cases "k \<le> length ps")
    case True
    then have "go_up (container_path ps) ?p = Some (container_path ?qs, e)" using go_up_container [OF assms(1,3), of k] by simp
    then have "resolve_state_path (container_path ps) ?p False
        = Some (if container_path ?qs = None \<or> container_path ?qs = Some [] then Some e else Some (the (container_path ?qs) @ ''.'' @ e))"
      using s assms(2) by (simp add: resolve_state_path_def Let_def)
    moreover have "container_path ?qs = None \<and> dotted (?qs @ [e]) = e \<or> container_path ?qs = Some (dotted ?qs) \<and> dotted ?qs \<noteq> []
        \<and> dotted (?qs @ [e]) = dotted ?qs @ ''.'' @ e"
    proof (cases "?qs = []")
      case True
      then show ?thesis by (simp only: container_path_def if_True append_Nil) (simp add: dotted_def)
    next
      case False
      then show ?thesis using n [OF False] dotted_snoc [OF False, of e] by (simp only: container_path_def if_False) simp
    qed
    ultimately show ?thesis using True by (elim disjE) auto
  next
    case False
    then have "go_up (container_path ps) ?p = None" using go_up_container [OF assms(1,3), of k] by simp
    then show ?thesis using s False by (simp add: resolve_state_path_def Let_def)
  qed
  then show ?thesis using assms(4) by (simp add: resolve_state_path_def str_starts_with_def)
qed

end
