(* ===== verification/Action_Modals.thy ===== *)
theory Action_Modals
  imports Script_Text
begin

text \<open>
  The modals of nested actions (\<open>filamentActionModals\<close> in
  \<open>public/js/filament/actions/actions.js\<close>): the stack depth that the server sends decides which
  modal is open; what the user closed is remembered, and so is the element that had the focus when
  a modal was opened. Events sent to the page are a list, callbacks for the next tick a queue.
\<close>

section \<open>Identifiers\<close>

definition modal_prefix :: "string \<Rightarrow> string" where
  "modal_prefix n = ''fi-'' @ n @ ''-action-''"

definition generate_modal_id :: "string \<Rightarrow> nat option \<Rightarrow> string" where
  "generate_modal_id n e = modal_prefix n @ (case e of None \<Rightarrow> ''null'' | Some k \<Rightarrow> nat_to_string k)"

text \<open>
  \<open>Number\<close> of a text, when it is an integer: blanks around are ignored and an empty text is zero;
  of the numerals, those of decimal digits with a sign or none.
\<close>

definition js_integer :: "string \<Rightarrow> int option" where
  "js_integer s =
     (let u = js_trim s;
          neg = str_starts_with u ''-'';
          v = (if neg \<or> str_starts_with u ''+'' then tl u else u)
      in if u = [] then Some 0
         else if v \<noteq> [] \<and> list_all (\<lambda>c. c \<in> set ''0123456789'') v
         then Some (if neg then - int (digits_value v) else int (digits_value v))
         else None)"

definition nesting_index_of :: "string \<Rightarrow> string option \<Rightarrow> int option" where
  "nesting_index_of n e =
     (case e of
        None \<Rightarrow> None
      | Some u \<Rightarrow>
          if str_starts_with u (modal_prefix n) then js_integer (drop (length (modal_prefix n)) u) else None)"

section \<open>The state machine\<close>

text \<open>The deferred callbacks open the modal, and may restore the focus.\<close>

record 'f modals =
  md_index :: "nat option"
  md_overlay :: bool
  md_closed :: "int list"
  md_focus :: "int \<Rightarrow> 'f option"
  md_ticks :: "bool list"

datatype 'f modal_event = OpenModal string | CloseModalQuietly string | GiveFocus 'f

text \<open>The page: the modals it has, the element with the focus, and the modal an element is in.\<close>

record 'f modal_page =
  pg_has :: "string \<Rightarrow> bool"
  pg_focused :: "'f option"
  pg_inside :: "string \<Rightarrow> 'f \<Rightarrow> bool"

definition init_modals :: "'f modals" where
  "init_modals = \<lparr>md_index = None, md_overlay = False, md_closed = [], md_focus = (\<lambda>_. None), md_ticks = []\<rparr>"

definition remember_focus :: "string \<Rightarrow> 'f modal_page \<Rightarrow> 'f modals \<Rightarrow> 'f modals" where
  "remember_focus n p s =
     (case pg_focused p of
        None \<Rightarrow> s
      | Some f \<Rightarrow>
          (case md_index s of
             None \<Rightarrow> s\<lparr>md_focus := (md_focus s)(-1 := Some f)\<rparr>
           | Some k \<Rightarrow>
               let i = generate_modal_id n (Some k) in
               if pg_has p i \<and> pg_inside p i f then s\<lparr>md_focus := (md_focus s)(int k := Some f)\<rparr> else s))"

definition restore_focus :: "int \<Rightarrow> 'f modals \<Rightarrow> 'f modals \<times> 'f modal_event list" where
  "restore_focus e s =
     (case md_focus s e of
        None \<Rightarrow> (s, [])
      | Some f \<Rightarrow> (s\<lparr>md_focus := (\<lambda>k. if e \<le> k then None else md_focus s k)\<rparr>, [GiveFocus f]))"

definition restore_current :: "'f modals \<Rightarrow> 'f modals \<times> 'f modal_event list" where
  "restore_current s = (case md_index s of None \<Rightarrow> (s, []) | Some k \<Rightarrow> restore_focus (int k) s)"

definition open_modal :: "string \<Rightarrow> 'f modals \<Rightarrow> 'f modal_event list" where
  "open_modal n s = [OpenModal (generate_modal_id n (md_index s))]"

definition close_modal :: "string \<Rightarrow> 'f modals \<Rightarrow> 'f modal_event list" where
  "close_modal n s = [CloseModalQuietly (generate_modal_id n (md_index s))]"

definition deeper :: "nat option \<Rightarrow> nat option \<Rightarrow> bool" where
  "deeper a b = (case (a, b) of (Some i, Some j) \<Rightarrow> i < j | _ \<Rightarrow> False)"

text \<open>\<open>syncActionModals\<close>.\<close>

definition sync_action_modals ::
  "string \<Rightarrow> 'f modal_page \<Rightarrow> nat option \<Rightarrow> bool \<Rightarrow> 'f modals \<Rightarrow> 'f modals \<times> 'f modal_event list" where
  "sync_action_modals n p e t s =
     (if md_index s = e
      then (if md_index s \<noteq> None then s\<lparr>md_ticks := md_ticks s @ [False]\<rparr> else s, [])
      else
        let down = deeper (md_index s) e;
            up = deeper e (md_index s);
            s1 = (if down \<or> md_index s = None \<and> e \<noteq> None then remember_focus n p s else s);
            ev1 = (if md_index s1 \<noteq> None \<and> \<not> (t \<and> down) then close_modal n s1 else []);
            s2 = s1\<lparr>md_index := e\<rparr>
        in case e of
             None \<Rightarrow>
               (case restore_focus (-1) s2 of
                  (s3, ev2) \<Rightarrow> (s3\<lparr>md_closed := [], md_focus := (\<lambda>_. None), md_overlay := False\<rparr>, ev1 @ ev2))
           | Some k \<Rightarrow>
               let s3 = s2\<lparr>md_overlay := t, md_closed := filter (\<lambda>d. d \<le> int k) (md_closed s2)\<rparr> in
               if int k \<in> set (md_closed s3) then (s3, ev1)
               else if \<not> pg_has p (generate_modal_id n e) then (s3\<lparr>md_ticks := md_ticks s3 @ [up]\<rparr>, ev1)
               else (case (if up then restore_current s3 else (s3, [])) of
                       (s4, ev2) \<Rightarrow> (s4, ev1 @ open_modal n s3 @ ev2)))"

text \<open>The first deferred callback runs.\<close>

definition run_tick :: "string \<Rightarrow> 'f modals \<Rightarrow> 'f modals \<times> 'f modal_event list" where
  "run_tick n s =
     (case md_ticks s of
        [] \<Rightarrow> (s, [])
      | r # rs \<Rightarrow>
          let s1 = s\<lparr>md_ticks := rs\<rparr> in
          case (if r then restore_current s1 else (s1, [])) of (s2, ev) \<Rightarrow> (s2, open_modal n s1 @ ev))"

text \<open>A modal of the page was closed by the user.\<close>

definition modal_closed :: "string \<Rightarrow> string option \<Rightarrow> 'f modals \<Rightarrow> 'f modals \<times> 'f modal_event list" where
  "modal_closed n i s =
     (case nesting_index_of n i of
        None \<Rightarrow> (s, [])
      | Some t \<Rightarrow>
          (case (if md_overlay s \<or> t = 0 then restore_focus (t - 1) s else (s, [])) of
             (s1, ev) \<Rightarrow> (s1\<lparr>md_closed := md_closed s1 @ [t]\<rparr>, ev)))"

section \<open>Facts\<close>

lemma nesting_index_of_id: "nesting_index_of n (Some (generate_modal_id n (Some k))) = Some (int k)"
proof -
  let ?s = "nat_to_string k"
  have d: "\<forall>c \<in> set ?s. c \<in> set ''0123456789''" and ne: "?s \<noteq> []"
    using nat_to_string_digits [of k] unfolding list_all_iff by blast+
  have digit: "\<not> js_space c \<and> c \<noteq> CHR ''-'' \<and> c \<noteq> CHR ''+''" if "c \<in> set ''0123456789''" for c
    using that by (auto simp: js_space_def)
  have h: "hd ?s \<in> set ''0123456789''" "last ?s \<in> set ''0123456789''" using d ne hd_in_set last_in_set by blast+
  have t: "js_trim ?s = ?s" by (rule js_trim_id) (use digit [OF h(1)] digit [OF h(2)] in blast)
  have sign: "\<not> str_starts_with ?s ''-''" "\<not> str_starts_with ?s ''+''"
    using digit [OF h(1)] ne by (cases ?s; simp add: str_starts_with_def)+
  have "js_integer ?s = Some (int k)"
    using nat_to_string_digits [of k]
    by (simp only: js_integer_def t sign Let_def if_False simp_thms digits_value_nat_to_string if_True)
  then show ?thesis by (simp add: nesting_index_of_def generate_modal_id_def str_starts_with_def)
qed

lemma generate_modal_id_inj: "generate_modal_id n (Some j) = generate_modal_id n (Some k) \<longleftrightarrow> j = k"
  by (simp add: generate_modal_id_def nat_to_string_inj)

lemma restore_focus_frame:
  "restore_focus e s = (s', ev) \<Longrightarrow> md_index s' = md_index s \<and> md_overlay s' = md_overlay s
     \<and> md_closed s' = md_closed s \<and> md_ticks s' = md_ticks s \<and> (\<forall>i. OpenModal i \<notin> set ev \<and> CloseModalQuietly i \<notin> set ev)"
  by (auto simp: restore_focus_def split: option.splits)

lemma remember_focus_frame [simp]:
  "md_index (remember_focus n p s) = md_index s" "md_closed (remember_focus n p s) = md_closed s"
  "md_ticks (remember_focus n p s) = md_ticks s"
  by (simp_all add: remember_focus_def Let_def split: option.splits)

lemma modal_closed_id:
  "modal_closed n (Some (generate_modal_id n (Some k))) s = (s', ev)
     \<Longrightarrow> int k \<in> set (md_closed s') \<and> md_index s' = md_index s \<and> md_ticks s' = md_ticks s"
  by (auto simp: modal_closed_def nesting_index_of_id dest: restore_focus_frame split: if_splits prod.splits)

text \<open>A level that is recorded as closed is neither opened nor queued when the server returns to it.\<close>

lemma sync_closed_level:
  assumes "int k \<in> set (md_closed s)" and "md_index s \<noteq> Some k"
    and "sync_action_modals n p (Some k) t s = (s', ev)"
  shows "md_index s' = Some k \<and> md_ticks s' = md_ticks s \<and> (\<forall>i. OpenModal i \<notin> set ev)"
  using assms by (auto simp: sync_action_modals_def Let_def close_modal_def split: if_splits)

lemma sync_closes:
  assumes "md_index s = Some j" and "e \<noteq> Some j" and "sync_action_modals n p e t s = (s', ev)"
  shows "CloseModalQuietly (generate_modal_id n (Some j)) \<in> set ev \<longleftrightarrow> \<not> (t \<and> deeper (Some j) e)"
  using assms
  by (auto simp: sync_action_modals_def Let_def close_modal_def open_modal_def restore_current_def
      dest!: restore_focus_frame split: if_splits option.splits prod.splits)

section \<open>The properties of the modals\<close>

text \<open>
  A modal's identifier gives its level back. When the user closes the modal of a level that
  is not the current one, a later return of the server to that level does not open it again; once
  the server empties the stack the state is the first one again, but for callbacks still queued,
  and any modal of the page opens. A change of level closes the current modal unless the new one
  overlays it.
\<close>
theorem modals_follow_stack:
  assumes "md_index s \<noteq> Some k"
    and "modal_closed n (Some (generate_modal_id n (Some k))) s = (s1, ev1)"
    and "sync_action_modals n p (Some k) t s1 = (s2, ev2)"
    and "sync_action_modals n p None b s2 = (s3, ev3)"
    and "sync_action_modals n p (Some j) b s3 = (s4, ev4)"
  shows "nesting_index_of n (Some (generate_modal_id n (Some k))) = Some (int k)
    \<and> (\<forall>i. OpenModal i \<notin> set ev2) \<and> md_index s2 = Some k \<and> md_ticks s2 = md_ticks s
    \<and> CloseModalQuietly (generate_modal_id n (Some k)) \<in> set ev3
    \<and> s3 = init_modals\<lparr>md_ticks := md_ticks s\<rparr>
    \<and> (pg_has p (generate_modal_id n (Some j)) \<longrightarrow> ev4 = [OpenModal (generate_modal_id n (Some j))])
    \<and> (\<forall>i. md_index s = Some i \<longrightarrow>
         (CloseModalQuietly (generate_modal_id n (Some i)) \<in> set ev2 \<longleftrightarrow> \<not> (t \<and> i < k)))"
proof -
  from modal_closed_id [OF assms(2)]
  have s1: "int k \<in> set (md_closed s1)" "md_index s1 = md_index s" "md_ticks s1 = md_ticks s" by auto
  from sync_closed_level [OF s1(1) _ assms(3)] s1 assms(1)
  have s2: "md_index s2 = Some k" "md_ticks s2 = md_ticks s" "\<forall>i. OpenModal i \<notin> set ev2" by auto
  from assms(4) s2(1,2) have s3: "s3 = init_modals\<lparr>md_ticks := md_ticks s\<rparr>"
    by (auto simp: sync_action_modals_def Let_def init_modals_def deeper_def restore_focus_def split: option.splits)
  have "CloseModalQuietly (generate_modal_id n (Some k)) \<in> set ev3"
    using sync_closes [OF s2(1) _ assms(4)] by (simp add: deeper_def)
  moreover have "ev4 = [OpenModal (generate_modal_id n (Some j))]" if "pg_has p (generate_modal_id n (Some j))"
    using assms(5) that s3
    by (auto simp: sync_action_modals_def Let_def init_modals_def deeper_def open_modal_def remember_focus_def split: option.splits)
  moreover have "CloseModalQuietly (generate_modal_id n (Some i)) \<in> set ev2 \<longleftrightarrow> \<not> (t \<and> i < k)" if "md_index s = Some i" for i
    using sync_closes [OF _ _ assms(3), of i] that s1(2) assms(1) by (simp add: deeper_def)
  ultimately show ?thesis using s2 s3 nesting_index_of_id by blast
qed

end
