(* ===== verification/App_Entry.thy ===== *)
theory App_Entry
  imports Script_Text
begin

text \<open>
  The application's own browser entry (\<open>resources/js\<close>) and its build configuration
  (\<open>vite.config.js\<close>). Evaluating \<open>app.js\<close> imports \<open>bootstrap.js\<close>, which publishes the HTTP client
  and marks every request it sends.
\<close>

section \<open>The HTTP client\<close>

record http_client =
  hc_common_headers :: "(string \<times> string) list"

record browser_window =
  bw_axios :: "http_client option"

fun set_header :: "string \<Rightarrow> string \<Rightarrow> (string \<times> string) list \<Rightarrow> (string \<times> string) list" where
  "set_header k v [] = [(k, v)]"
| "set_header k v ((k', v') # hs) = (if k = k' then (k, v) # hs else (k', v') # set_header k v hs)"

text \<open>\<open>bootstrap.js\<close>: \<open>axios\<close> is the imported module.\<close>

definition run_bootstrap :: "http_client \<Rightarrow> browser_window \<Rightarrow> browser_window" where
  "run_bootstrap axios w =
     (let w1 = w\<lparr>bw_axios := Some axios\<rparr> in
      w1\<lparr>bw_axios := map_option (\<lambda>a. a\<lparr>hc_common_headers :=
            set_header ''X-Requested-With'' ''XMLHttpRequest'' (hc_common_headers a)\<rparr>) (bw_axios w1)\<rparr>)"

text \<open>\<open>app.js\<close>.\<close>

definition run_app :: "http_client \<Rightarrow> browser_window \<Rightarrow> browser_window" where
  "run_app axios w = run_bootstrap axios w"

lemma map_of_set_header: "map_of (set_header k v hs) = (map_of hs)(k \<mapsto> v)"
  by (induction hs) auto

section \<open>The build\<close>

datatype build_plugin =
    LaravelPlugin "string list" bool
  | TailwindPlugin

record build_config =
  bc_plugins :: "build_plugin list"
  bc_watch_ignored :: "string list"

definition vite_config :: build_config where
  "vite_config =
     \<lparr>bc_plugins =
        [LaravelPlugin [''resources/css/app.css'', ''resources/js/app.js''] True,
         TailwindPlugin],
      bc_watch_ignored = [''**/storage/framework/views/**'']\<rparr>"

end
