(* ===== verification/Step_Map.thy ===== *)
theory Step_Map
  imports Script_Text
begin

unbundle bit_operations_syntax

text \<open>
  Position maps of the rich editor's document model
  (\<open>public/js/filament/forms/components/rich-editor.js\<close>): a step map (\<open>ht\<close>) carries a position
  over the ranges that a change replaced, a mapping (\<open>lr\<close>) is a pipeline of step maps in which a
  map and its inverse can be paired, so that a position inside a deleted range is recovered when
  the deletion is undone.
\<close>

section \<open>Step maps\<close>

text \<open>A range is its start, the size of the old text and the size of the new one.\<close>

type_synonym map_range = "int \<times> int \<times> int"

record step_map =
  sp_ranges :: "map_range list"
  sp_inverted :: bool

record map_result =
  mr_pos :: int
  mr_del :: int
  mr_recover :: "int option"

text \<open>A recovery value packs the index of a range and an offset into it: \<open>xm\<close>, \<open>Tc\<close> and \<open>km\<close>.\<close>

definition make_recover :: "nat \<Rightarrow> int \<Rightarrow> int" where
  "make_recover k off = int k + off * 65536"

definition recover_index :: "int \<Rightarrow> nat" where
  "recover_index v = nat (v mod 65536)"

definition recover_offset :: "int \<Rightarrow> int" where
  "recover_offset v = (v - v mod 65536) div 65536"

definition range_from :: "bool \<Rightarrow> map_range \<Rightarrow> int" where
  "range_from iv r = (case r of (st, old, new) \<Rightarrow> if iv then new else old)"

definition range_to :: "bool \<Rightarrow> map_range \<Rightarrow> int" where
  "range_to iv r = (case r of (st, old, new) \<Rightarrow> if iv then old else new)"

text \<open>
  The loop of \<open>_map\<close> from range number \<open>k\<close>, with the size difference \<open>o1\<close> of the ranges before;
  \<open>n\<close> is the side that the position sticks to. The flags of a deletion are 1 (before), 2 (after),
  4 (across) and 8 (the side that \<open>n\<close> names).
\<close>

fun map_from :: "bool \<Rightarrow> int \<Rightarrow> int \<Rightarrow> nat \<Rightarrow> int \<Rightarrow> map_range list \<Rightarrow> map_result" where
  "map_from iv e n k o1 [] = \<lparr>mr_pos = e + o1, mr_del = 0, mr_recover = None\<rparr>"
| "map_from iv e n k o1 (r # rs) =
     (let a = fst r - (if iv then o1 else 0) in
      if e < a then \<lparr>mr_pos = e + o1, mr_del = 0, mr_recover = None\<rparr>
      else
        let c = range_from iv r; d = range_to iv r; u = a + c in
        if e \<le> u then
          (let f = (if c \<noteq> 0 then if e = a then -1 else if e = u then 1 else n else n);
               m = (if e = a then 2 else if e = u then 1 else 4)
           in \<lparr>mr_pos = a + o1 + (if f < 0 then 0 else d),
               mr_del = (if (if n < 0 then e \<noteq> a else e \<noteq> u) then m OR 8 else m),
               mr_recover = (if e = (if n < 0 then a else u) then None else Some (make_recover k (e - a)))\<rparr>)
        else map_from iv e n (Suc k) (o1 + (d - c)) rs)"

definition map_result_of :: "step_map \<Rightarrow> int \<Rightarrow> int \<Rightarrow> map_result" where
  "map_result_of m e n = map_from (sp_inverted m) e n 0 0 (sp_ranges m)"

definition map_position :: "step_map \<Rightarrow> int \<Rightarrow> int \<Rightarrow> int" where
  "map_position m e n = mr_pos (map_result_of m e n)"

definition recover_position :: "step_map \<Rightarrow> int \<Rightarrow> int" where
  "recover_position m v =
     (let r = recover_index v;
          n = (if sp_inverted m then 0 else sum_list (map (\<lambda>(st, old, new). new - old) (take r (sp_ranges m))))
      in fst (sp_ranges m ! r) + n + recover_offset v)"

definition invert_map :: "step_map \<Rightarrow> step_map" where
  "invert_map m = m\<lparr>sp_inverted := \<not> sp_inverted m\<rparr>"

definition offset_map :: "int \<Rightarrow> step_map" where
  "offset_map e =
     (if e = 0 then \<lparr>sp_ranges = [], sp_inverted = False\<rparr>
      else \<lparr>sp_ranges = [if e < 0 then (0, - e, 0) else (0, 0, e)], sp_inverted = False\<rparr>)"

text \<open>\<open>touches\<close>: whether the position is at the range that a recovery value names.\<close>

fun touches_from :: "bool \<Rightarrow> int \<Rightarrow> nat \<Rightarrow> nat \<Rightarrow> int \<Rightarrow> map_range list \<Rightarrow> bool" where
  "touches_from iv e j k o1 [] = False"
| "touches_from iv e j k o1 (r # rs) =
     (let a = fst r - (if iv then o1 else 0) in
      if e < a then False
      else if e \<le> a + range_from iv r \<and> k = j then True
      else touches_from iv e j (Suc k) (o1 + (range_to iv r - range_from iv r)) rs)"

definition map_touches :: "step_map \<Rightarrow> int \<Rightarrow> int \<Rightarrow> bool" where
  "map_touches m e v = touches_from (sp_inverted m) e (recover_index v) 0 0 (sp_ranges m)"

text \<open>\<open>forEach\<close>: each range with its bounds before and after, in order.\<close>

fun for_each_from :: "bool \<Rightarrow> int \<Rightarrow> map_range list \<Rightarrow> (int \<times> int \<times> int \<times> int) list" where
  "for_each_from iv i [] = []"
| "for_each_from iv i (r # rs) =
     (let l = fst r - (if iv then i else 0); a = fst r + (if iv then 0 else i);
          c = range_from iv r; d = range_to iv r
      in (l, l + c, a, a + d) # for_each_from iv (i + (d - c)) rs)"

definition for_each_range :: "step_map \<Rightarrow> (int \<times> int \<times> int \<times> int) list" where
  "for_each_range m = for_each_from (sp_inverted m) 0 (sp_ranges m)"

section \<open>Mappings\<close>

record mapping =
  mg_maps :: "step_map list"
  mg_mirror :: "nat list option"
  mg_from :: nat
  mg_to :: nat

definition empty_mapping :: mapping where
  "empty_mapping = \<lparr>mg_maps = [], mg_mirror = None, mg_from = 0, mg_to = 0\<rparr>"

text \<open>The mirror is a list of pairs, each index next to its partner.\<close>

definition get_mirror :: "mapping \<Rightarrow> nat \<Rightarrow> nat option" where
  "get_mirror g e =
     (case mg_mirror g of
        None \<Rightarrow> None
      | Some ms \<Rightarrow>
          (case find_index (\<lambda>x. x = e) ms of
             None \<Rightarrow> None
           | Some n \<Rightarrow> Some (ms ! (if odd n then n - 1 else n + 1))))"

definition set_mirror :: "nat \<Rightarrow> nat \<Rightarrow> mapping \<Rightarrow> mapping" where
  "set_mirror e n g = g\<lparr>mg_mirror := Some ((case mg_mirror g of None \<Rightarrow> [] | Some ms \<Rightarrow> ms) @ [e, n])\<rparr>"

definition append_map :: "step_map \<Rightarrow> nat option \<Rightarrow> mapping \<Rightarrow> mapping" where
  "append_map m n g =
     (let g1 = g\<lparr>mg_maps := mg_maps g @ [m], mg_to := Suc (length (mg_maps g))\<rparr> in
      case n of None \<Rightarrow> g1 | Some i \<Rightarrow> set_mirror (length (mg_maps g1) - 1) i g1)"

text \<open>
  \<open>_map\<close> from map number \<open>i\<close>: a position that the map deletes is recovered by the mirror map, when
  there is one further on, and everything in between is skipped.
\<close>

function mapping_from :: "mapping \<Rightarrow> int \<Rightarrow> nat \<Rightarrow> int \<Rightarrow> int \<Rightarrow> int \<times> int" where
  "mapping_from g n i e dl =
     (if i < mg_to g then
        (let l = map_result_of (mg_maps g ! i) e n in
         case (mr_recover l, get_mirror g i) of
           (Some v, Some a) \<Rightarrow>
             if i < a \<and> a < mg_to g then mapping_from g n (Suc a) (recover_position (mg_maps g ! a) v) dl
             else mapping_from g n (Suc i) (mr_pos l) (dl OR mr_del l)
         | _ \<Rightarrow> mapping_from g n (Suc i) (mr_pos l) (dl OR mr_del l))
      else (e, dl))"
  by pat_completeness auto
termination
  by (relation "measure (\<lambda>(g, n, i, e, dl). mg_to g - i)") auto

declare mapping_from.simps [simp del]

definition mapping_result :: "mapping \<Rightarrow> int \<Rightarrow> int \<Rightarrow> map_result" where
  "mapping_result g e n =
     (case mapping_from g n (mg_from g) e 0 of (p, dl) \<Rightarrow> \<lparr>mr_pos = p, mr_del = dl, mr_recover = None\<rparr>)"

text \<open>\<open>map\<close>: without a mirror the maps are applied one after the other.\<close>

definition mapping_position :: "mapping \<Rightarrow> int \<Rightarrow> int \<Rightarrow> int" where
  "mapping_position g e n =
     (if mg_mirror g \<noteq> None then fst (mapping_from g n (mg_from g) e 0)
      else fold (\<lambda>m p. map_position m p n) (take (mg_to g - mg_from g) (drop (mg_from g) (mg_maps g))) e)"

text \<open>\<open>appendMapping\<close> and \<open>appendMappingInverted\<close> keep the pairs of the mapping they append.\<close>

definition append_mapping :: "mapping \<Rightarrow> mapping \<Rightarrow> mapping" where
  "append_mapping e g =
     (let r = length (mg_maps g) in
      fold (\<lambda>n h. append_map (mg_maps e ! n)
              (case get_mirror e n of Some p \<Rightarrow> if p < n then Some (r + p) else None | None \<Rightarrow> None) h)
        [0..<length (mg_maps e)] g)"

definition append_mapping_inverted :: "mapping \<Rightarrow> mapping \<Rightarrow> mapping" where
  "append_mapping_inverted e g =
     (let r = length (mg_maps g) + length (mg_maps e) in
      fold (\<lambda>n h. append_map (invert_map (mg_maps e ! n))
              (case get_mirror e n of Some p \<Rightarrow> if n < p then Some (r - p - 1) else None | None \<Rightarrow> None) h)
        (rev [0..<length (mg_maps e)]) g)"

definition invert_mapping :: "mapping \<Rightarrow> mapping" where
  "invert_mapping g = append_mapping_inverted g empty_mapping"

section \<open>Ranges with both bounds\<close>

text \<open>
  The bounds that \<open>forEach\<close> reports determine the map: \<open>(l, r)\<close> before and \<open>(a, b)\<close> after.
  Ranges are well formed when they are in order, not negative in size, and apart from each other.
\<close>

type_synonym bounds = "int \<times> int \<times> int \<times> int"

fun bounds_ok :: "int \<Rightarrow> int \<Rightarrow> bounds list \<Rightarrow> bool" where
  "bounds_ok p q [] = True"
| "bounds_ok p q ((l, r, a, b) # qs) = (p < l \<and> l - p = a - q \<and> l \<le> r \<and> a \<le> b \<and> bounds_ok r b qs)"

fun flip_bounds :: "bounds \<Rightarrow> bounds" where
  "flip_bounds (l, r, a, b) = (a, b, l, r)"

fun map_bounds :: "int \<Rightarrow> int \<Rightarrow> nat \<Rightarrow> int \<Rightarrow> bounds list \<Rightarrow> map_result" where
  "map_bounds e n k o1 [] = \<lparr>mr_pos = e + o1, mr_del = 0, mr_recover = None\<rparr>"
| "map_bounds e n k o1 ((l, r, a, b) # qs) =
     (if e < l then \<lparr>mr_pos = e + o1, mr_del = 0, mr_recover = None\<rparr>
      else if e \<le> r then
        \<lparr>mr_pos = (if (if l \<noteq> r then if e = l then -1 else if e = r then 1 else n else n) < 0 then a else b),
         mr_del = (let m = (if e = l then 2 else if e = r then 1 else 4) in
                   if (if n < 0 then e \<noteq> l else e \<noteq> r) then m OR 8 else m),
         mr_recover = (if e = (if n < 0 then l else r) then None else Some (make_recover k (e - l)))\<rparr>
      else map_bounds e n (Suc k) (b - r) qs)"

definition step_map_ok :: "step_map \<Rightarrow> bool" where
  "step_map_ok m \<longleftrightarrow> bounds_ok (-1) (-1) (for_each_range m) \<and> length (sp_ranges m) \<le> 65536"

lemma bounds_ok_flip: "bounds_ok q p (map flip_bounds qs) = bounds_ok p q qs"
  by (induction p q qs rule: bounds_ok.induct) auto

lemma flip_flip [simp]: "flip_bounds (flip_bounds x) = x"
  by (cases x) simp

lemma range_swap [simp]: "range_from (\<not> iv) r = range_to iv r" "range_to (\<not> iv) r = range_from iv r"
  by (simp_all add: range_from_def range_to_def split: prod.splits)

lemma for_each_from_flip: "for_each_from (\<not> iv) (- i) rs = map flip_bounds (for_each_from iv i rs)"
proof (induction rs arbitrary: i)
  case (Cons r rs)
  have "- i + (range_from iv r - range_to iv r) = - (i + (range_to iv r - range_from iv r))" by simp
  then show ?case using Cons [of "i + (range_to iv r - range_from iv r)"] by (simp add: Let_def)
qed simp

lemma for_each_invert: "for_each_range (invert_map m) = map flip_bounds (for_each_range m)"
  using for_each_from_flip [of "sp_inverted m" 0 "sp_ranges m"] by (simp add: for_each_range_def invert_map_def)

lemma step_map_ok_invert [simp]: "step_map_ok (invert_map m) = step_map_ok m"
  unfolding step_map_ok_def for_each_invert bounds_ok_flip by (simp add: invert_map_def)

lemma map_from_bounds: "map_from iv e n k i rs = map_bounds e n k i (for_each_from iv i rs)"
proof (induction rs arbitrary: k i)
  case (Cons r rs)
  let ?c = "range_from iv r" and ?d = "range_to iv r"
  have o1: "(fst r + (if iv then 0 else i) + ?d) - (fst r - (if iv then i else 0) + ?c) = i + (?d - ?c)"
    by (cases iv) auto
  show ?case using Cons [of "Suc k" "i + (?d - ?c)"] o1
    by (cases iv) (simp_all add: Let_def algebra_simps)
qed simp

lemma map_result_bounds: "map_result_of m e n = map_bounds e n 0 0 (for_each_range m)"
  by (simp add: map_result_of_def for_each_range_def map_from_bounds)

section \<open>Facts about one map\<close>

text \<open>A position that needs no recovery comes back when the map is undone.\<close>

lemma map_bounds_back:
  assumes "bounds_ok p q qs" and "p < e" and "mr_recover (map_bounds e n k (q - p) qs) = None"
  shows "q < mr_pos (map_bounds e n k (q - p) qs)
    \<and> mr_pos (map_bounds (mr_pos (map_bounds e n k (q - p) qs)) n j (p - q) (map flip_bounds qs)) = e"
  using assms
proof (induction qs arbitrary: p q k j)
  case (Cons x qs)
  obtain l r a b where x: "x = (l, r, a, b)" by (cases x) auto
  from Cons.prems(1) x have ok: "p < l" "l - p = a - q" "l \<le> r" "a \<le> b" "bounds_ok r b qs" by auto
  consider "e < l" | "l \<le> e" "e \<le> r" | "r < e" by linarith
  then show ?case
  proof cases
    case 2
    then have "e = (if n < 0 then l else r)" using Cons.prems(3) x by (simp split: if_splits)
    then show ?thesis using ok 2 x Cons.prems(2) by (auto split: if_splits)
  next
    case 3
    have *: "map_bounds e n k (q - p) (x # qs) = map_bounds e n (Suc k) (b - r) qs" using 3 ok x by simp
    from Cons.prems(3) have "mr_recover (map_bounds e n (Suc k) (b - r) qs) = None" unfolding * .
    from Cons.IH [OF ok(5) 3 this, of "Suc j"] show ?thesis using ok x unfolding * by auto
  qed (use ok x Cons.prems(2) in auto)
qed auto

lemma map_bounds_nonneg:
  "\<lbrakk>bounds_ok p q qs; p < e\<rbrakk> \<Longrightarrow> q < mr_pos (map_bounds e n k (q - p) qs)"
proof (induction qs arbitrary: p q k)
  case (Cons x qs)
  obtain l r a b where x: "x = (l, r, a, b)" by (cases x) auto
  with Cons.prems have ok: "p < l" "l - p = a - q" "l \<le> r" "a \<le> b" "bounds_ok r b qs" by auto
  show ?case
  proof (cases "r < e")
    case True
    have "b < mr_pos (map_bounds e n (Suc k) (b - r) qs)" by (rule Cons.IH [OF ok(5) True])
    then show ?thesis using True ok x by simp
  qed (use ok x Cons.prems(2) in auto)
qed auto

text \<open>A recovery value names a range and the offset of the position in it.\<close>

lemma map_bounds_recover:
  "mr_recover (map_bounds e n k i qs) = Some v \<Longrightarrow>
     \<exists>j < length qs. \<exists>l r a b. qs ! j = (l, r, a, b) \<and> l \<le> e \<and> e \<le> r \<and> v = make_recover (k + j) (e - l)"
proof (induction e n k i qs rule: map_bounds.induct)
  case (2 e n k o1 l r a b qs)
  show ?case
  proof (cases "l \<le> e \<and> r < e")
    case True
    with 2 obtain j l' r' a' b' where "j < length qs" "qs ! j = (l', r', a', b')" "l' \<le> e" "e \<le> r'"
      "v = make_recover (Suc k + j) (e - l')" by (auto split: if_splits)
    then show ?thesis by (intro exI [of _ "Suc j"]) simp
  next
    case False
    then have "l \<le> e \<and> e \<le> r \<and> v = make_recover k (e - l)" using 2(2) by (auto split: if_splits)
    then show ?thesis by (intro exI [of _ 0]) auto
  qed
qed simp

lemma for_each_from_nth:
  "j < length rs \<Longrightarrow> fst (for_each_from iv i rs ! j)
     = fst (rs ! j) - (if iv then i + sum_list (map (\<lambda>r. range_to iv r - range_from iv r) (take j rs)) else 0)"
proof (induction rs arbitrary: i j)
  case (Cons r rs)
  then show ?case by (cases j) (auto simp: Let_def)
qed simp

lemma length_for_each_from [simp]: "length (for_each_from iv i rs) = length rs"
  by (induction rs arbitrary: i) (simp_all add: Let_def)

lemma recover_parts:
  assumes "k < 65536" and "0 \<le> off"
  shows "recover_index (make_recover k off) = k" "recover_offset (make_recover k off) = off"
proof -
  have m: "make_recover k off mod 65536 = int k" using assms by (simp add: make_recover_def)
  show "recover_index (make_recover k off) = k" by (simp add: recover_index_def m)
  show "recover_offset (make_recover k off) = off" by (simp add: recover_offset_def m) (simp add: make_recover_def)
qed

lemma recover_inverse:
  assumes "length (sp_ranges m) \<le> 65536" and "mr_recover (map_result_of m e n) = Some v"
  shows "recover_position (invert_map m) v = e"
proof -
  let ?rs = "sp_ranges m" and ?iv = "sp_inverted m"
  from map_bounds_recover [OF assms(2) [unfolded map_result_bounds]]
  obtain j l r a b where j: "j < length ?rs" "for_each_range m ! j = (l, r, a, b)" "l \<le> e" "v = make_recover j (e - l)"
    by (auto simp: for_each_range_def)
  have p: "recover_index v = j" "recover_offset v = e - l" using recover_parts [of j "e - l"] j assms(1) by auto
  have "l = fst (?rs ! j) - (if ?iv then sum_list (map (\<lambda>r. range_to ?iv r - range_from ?iv r) (take j ?rs)) else 0)"
    using for_each_from_nth [OF j(1), of ?iv 0] j(2) by (simp add: for_each_range_def)
  moreover have "sum_list (map (\<lambda>(st, old, new). new - old) xs)
      = - sum_list (map (\<lambda>r. range_to True r - range_from True r) xs)" for xs :: "map_range list"
    by (induction xs) (auto simp: range_to_def range_from_def)
  ultimately show ?thesis by (cases ?iv) (simp_all add: recover_position_def invert_map_def p Let_def)
qed

lemma map_back:
  assumes "step_map_ok m" and "0 \<le> e" and "mr_recover (map_result_of m e n) = None"
  shows "0 \<le> map_position m e n \<and> map_position (invert_map m) (map_position m e n) n = e"
  using map_bounds_back [of "-1" "-1" "for_each_range m" e n 0 0] assms
  by (simp add: step_map_ok_def map_position_def map_result_bounds for_each_invert)

lemma map_position_nonneg: "\<lbrakk>step_map_ok m; 0 \<le> e\<rbrakk> \<Longrightarrow> 0 \<le> map_position m e n"
  using map_bounds_nonneg [of "-1" "-1" "for_each_range m" e n 0]
  by (simp add: step_map_ok_def map_position_def map_result_bounds)

text \<open>Order is kept, and the two sides enclose each other.\<close>

lemma map_bounds_mono:
  "\<lbrakk>bounds_ok p q qs; e \<le> e'; p < e\<rbrakk> \<Longrightarrow> mr_pos (map_bounds e n k (q - p) qs) \<le> mr_pos (map_bounds e' n k (q - p) qs)"
proof (induction qs arbitrary: p q k)
  case (Cons x qs)
  obtain l r a b where x: "x = (l, r, a, b)" by (cases x) auto
  with Cons.prems have ok: "p < l" "l - p = a - q" "l \<le> r" "a \<le> b" "bounds_ok r b qs" by auto
  consider "e' \<le> r" | "e \<le> r" "r < e'" | "r < e" by linarith
  then show ?case
  proof cases
    case 1
    then show ?thesis using Cons.prems ok x by (auto split: if_splits)
  next
    case 2
    have "b < mr_pos (map_bounds e' n (Suc k) (b - r) qs)" by (rule map_bounds_nonneg [OF ok(5) 2(2)])
    then show ?thesis using Cons.prems ok x 2 by (auto split: if_splits)
  next
    case 3
    then show ?thesis using Cons.prems ok x Cons.IH [OF ok(5) Cons.prems(2) 3] by simp
  qed
qed simp

lemma map_bounds_sides:
  "\<lbrakk>bounds_ok p q qs; n \<le> n'\<rbrakk> \<Longrightarrow> mr_pos (map_bounds e n k i qs) \<le> mr_pos (map_bounds e n' k i qs)"
proof (induction qs arbitrary: p q k i)
  case (Cons x qs)
  obtain l r a b where x: "x = (l, r, a, b)" by (cases x) auto
  with Cons show ?case by (auto split: if_splits)
qed simp

section \<open>A change and its undoing\<close>

text \<open>
  Maps followed by their inverses in the opposite order, each inverse the mirror of its map, as
  a rebased change builds it.
\<close>

definition undo_mapping :: "step_map list \<Rightarrow> mapping" where
  "undo_mapping ms =
     fold (\<lambda>i g. append_map (invert_map (ms ! i)) (Some i) g) (rev [0..<length ms])
       (fold (\<lambda>m g. append_map m None g) ms empty_mapping)"

fun pair_list :: "nat \<Rightarrow> nat list \<Rightarrow> nat list" where
  "pair_list k [] = []"
| "pair_list k (i # is) = k # i # pair_list (Suc k) is"

lemma fold_append_plain:
  "fold (\<lambda>m g. append_map m None g) ms g
     = (if ms = [] then g else g\<lparr>mg_maps := mg_maps g @ ms, mg_to := length (mg_maps g) + length ms\<rparr>)"
  by (induction ms arbitrary: g) (auto simp: append_map_def)

lemma fold_append_mirror:
  "fold (\<lambda>i g. append_map (f i) (Some i) g) is g
     = (if is = [] then g
        else g\<lparr>mg_maps := mg_maps g @ map f is, mg_to := length (mg_maps g) + length is,
               mg_mirror := Some ((case mg_mirror g of None \<Rightarrow> [] | Some ms \<Rightarrow> ms) @ pair_list (length (mg_maps g)) is)\<rparr>)"
  by (induction "is" arbitrary: g) (auto simp: append_map_def set_mirror_def)

lemma undo_mapping_eq:
  "ms \<noteq> [] \<Longrightarrow> undo_mapping ms
     = \<lparr>mg_maps = ms @ map (\<lambda>i. invert_map (ms ! i)) (rev [0..<length ms]),
        mg_mirror = Some (pair_list (length ms) (rev [0..<length ms])), mg_from = 0, mg_to = 2 * length ms\<rparr>"
  by (simp add: undo_mapping_def fold_append_plain fold_append_mirror empty_mapping_def)

lemma pair_list_lookup:
  assumes "\<forall>i \<in> set is. i < k"
  shows "(case find_index (\<lambda>x. x = e) (pair_list k is) of None \<Rightarrow> None
          | Some n \<Rightarrow> Some (pair_list k is ! (if odd n then n - 1 else n + 1)))
     = (if e < k then map_option (\<lambda>t. k + t) (find_index (\<lambda>x. x = e) is)
        else if e < k + length is then Some (is ! (e - k)) else None)"
  using assms
proof (induction k "is" rule: pair_list.induct)
  case (2 k i "is")
  then have ih: "(case find_index (\<lambda>x. x = e) (pair_list (Suc k) is) of None \<Rightarrow> None
          | Some n \<Rightarrow> Some (pair_list (Suc k) is ! (if odd n then n - 1 else n + 1)))
     = (if e < Suc k then map_option (\<lambda>t. Suc k + t) (find_index (\<lambda>x. x = e) is)
        else if e < Suc k + length is then Some (is ! (e - Suc k)) else None)"
    by (simp add: less_SucI)
  have i: "i < k" using 2 by simp
  show ?case
  proof (cases "e = k \<or> e = i")
    case False
    let ?P = "pair_list (Suc k) is"
    have step: "(case find_index (\<lambda>x. x = e) (pair_list k (i # is)) of None \<Rightarrow> None
          | Some n \<Rightarrow> Some (pair_list k (i # is) ! (if odd n then n - 1 else n + 1)))
        = (case find_index (\<lambda>x. x = e) ?P of None \<Rightarrow> None | Some n \<Rightarrow> Some (?P ! (if odd n then n - 1 else n + 1)))"
      using False by (cases "find_index (\<lambda>x. x = e) ?P") (auto simp: nth_Cons' elim!: oddE)
    show ?thesis unfolding step ih using False i
      by (cases "find_index (\<lambda>x. x = e) is") (auto simp: nth_Cons')
  qed (use i in auto)
qed simp

lemma find_index_rev_upt: "e < k \<Longrightarrow> find_index (\<lambda>x. x = e) (rev [0..<k]) = Some (k - 1 - e)"
proof (induction k)
  case (Suc k)
  then show ?case by (cases "e = k") auto
qed simp

lemma undo_mapping_mirror:
  assumes "e < 2 * length ms"
  shows "get_mirror (undo_mapping ms) e = Some (2 * length ms - 1 - e)"
proof -
  let ?k = "length ms"
  have "ms \<noteq> []" using assms by auto
  moreover have "\<forall>i \<in> set (rev [0..<?k]). i < ?k" by auto
  note pair_list_lookup [OF this, of e]
  ultimately show ?thesis using assms
    by (cases "e < ?k") (auto simp: undo_mapping_eq get_mirror_def find_index_rev_upt rev_nth)
qed

lemma undo_mapping_from:
  assumes "\<forall>m \<in> set ms. step_map_ok m" and "i \<le> length ms" and "0 \<le> e"
  shows "\<exists>dl'. mapping_from (undo_mapping ms) n i e dl = mapping_from (undo_mapping ms) n (2 * length ms - i) e dl'"
  using assms(2,3)
proof (induction "length ms - i" arbitrary: i e dl)
  case 0
  then have "2 * length ms - i = i" by simp
  then show ?case by auto
next
  case (Suc x)
  let ?k = "length ms" and ?g = "undo_mapping ms"
  let ?a = "2 * ?k - 1 - i"
  have i: "i < ?k" using Suc(2) by simp
  then have ms: "ms \<noteq> []" and ok: "step_map_ok (ms ! i)" using assms(1) by auto
  have g: "mg_to ?g = 2 * ?k" "mg_maps ?g ! i = ms ! i" "mg_maps ?g ! ?a = invert_map (ms ! i)"
    using i by (auto simp: undo_mapping_eq [OF ms] nth_append rev_nth)
  have mirror: "get_mirror ?g i = Some ?a" "get_mirror ?g ?a = Some i" using i by (auto simp: undo_mapping_mirror)
  have lt: "i < ?a" "?a < 2 * ?k" using i by auto
  have end_eq: "Suc ?a = 2 * ?k - i" using i by simp
  show ?case
  proof (cases "mr_recover (map_result_of (ms ! i) e n)")
    case (Some v)
    have "recover_position (invert_map (ms ! i)) v = e"
      using recover_inverse [OF _ Some] ok by (simp add: step_map_ok_def)
    then have "mapping_from ?g n i e dl = mapping_from ?g n (Suc ?a) e dl"
      using lt g mirror Some by (simp add: mapping_from.simps [of ?g n i] Let_def)
    then show ?thesis unfolding end_eq by blast
  next
    case None
    let ?p = "map_position (ms ! i) e n"
    have p: "0 \<le> ?p" "map_position (invert_map (ms ! i)) ?p n = e" using map_back [OF ok Suc(4) None] by auto
    have "mapping_from ?g n i e dl = mapping_from ?g n (Suc i) ?p (dl OR mr_del (map_result_of (ms ! i) e n))"
      using i g None by (simp add: mapping_from.simps [of ?g n i] Let_def map_position_def)
    moreover have "x = ?k - Suc i" "Suc i \<le> ?k" using Suc(2) i by auto
    from Suc(1) [OF this p(1)] obtain dl1
      where "mapping_from ?g n (Suc i) ?p (dl OR mr_del (map_result_of (ms ! i) e n)) = mapping_from ?g n ?a ?p dl1"
      by (metis diff_Suc_eq_diff_pred)
    moreover have "\<exists>dl2. mapping_from ?g n ?a ?p dl1 = mapping_from ?g n (Suc ?a) e dl2"
      by (subst mapping_from.simps)
        (use lt g mirror p(2) in \<open>auto simp: Let_def map_position_def split: option.splits\<close>)
    ultimately show ?thesis unfolding end_eq by auto
  qed
qed

section \<open>The properties of position maps\<close>

text \<open>
  C25. A sequence of changes followed by their undoing, each inverse paired with its map, carries
  every position of the document back to itself, also the positions inside text that a change
  deleted, whichever side they stick to.
\<close>
theorem undone_changes_restore_positions:
  assumes "\<forall>m \<in> set ms. step_map_ok m" and "0 \<le> e"
  shows "mapping_position (undo_mapping ms) e n = e"
proof (cases "ms = []")
  case False
  from undo_mapping_from [OF assms(1) _ assms(2), of 0 n 0]
  obtain dl where "mapping_from (undo_mapping ms) n 0 e 0 = mapping_from (undo_mapping ms) n (2 * length ms) e dl" by auto
  then show ?thesis using False by (simp add: mapping_position_def undo_mapping_eq mapping_from.simps [of _ _ "2 * length ms"])
qed (simp add: undo_mapping_def mapping_position_def empty_mapping_def)

theorem undone_changes_restore_positions_witness:
  "let ms = [\<lparr>sp_ranges = [(2, 4, 0)], sp_inverted = False\<rparr>, \<lparr>sp_ranges = [(1, 0, 3), (5, 1, 2)], sp_inverted = True\<rparr>]
   in map (\<lambda>e. mapping_position (undo_mapping ms) e 1) [0, 3, 4, 6, 7, 20] = [0, 3, 4, 6, 7, 20]
     \<and> map (\<lambda>e. map_position (hd ms) e 1) [0, 3, 4, 6, 7, 20] = [0, 2, 2, 2, 3, 16]"
proof -
  let ?ms = "[\<lparr>sp_ranges = [(2, 4, 0)], sp_inverted = False\<rparr>, \<lparr>sp_ranges = [(1, 0, 3), (5, 1, 2)], sp_inverted = True\<rparr>]"
  have "\<forall>m \<in> set ?ms. step_map_ok m"
    by (simp add: step_map_ok_def for_each_range_def range_from_def range_to_def Let_def)
  from undone_changes_restore_positions [OF this]
  have "0 \<le> e \<Longrightarrow> mapping_position (undo_mapping ?ms) e 1 = e" for e by blast
  moreover have "map (\<lambda>e. map_position (hd ?ms) e 1) [0, 3, 4, 6, 7, 20] = [0, 2, 2, 2, 3, 16]" by code_simp
  ultimately show ?thesis by (simp add: Let_def)
qed

text \<open>
  C26. A map keeps the order of positions, sends no position below zero and keeps a position
  sticking to the left at or before the same position sticking to the right; undoing the map
  takes a position back unless the map asks for its recovery, and then the inverse recovers it.
\<close>
theorem map_position_laws:
  assumes "step_map_ok m" and "0 \<le> e" and "e \<le> e'" and "n \<le> n'"
  shows "0 \<le> map_position m e n \<and> map_position m e n \<le> map_position m e' n
    \<and> map_position m e n \<le> map_position m e n'
    \<and> (case mr_recover (map_result_of m e n) of
         None \<Rightarrow> map_position (invert_map m) (map_position m e n) n = e
       | Some v \<Rightarrow> recover_position (invert_map m) v = e)"
proof (intro conjI)
  let ?q = "for_each_range m"
  have ok: "bounds_ok (-1) (-1) ?q" using assms(1) by (simp add: step_map_ok_def)
  show "map_position m e n \<le> map_position m e' n"
    using map_bounds_mono [OF ok assms(3), of n 0] assms(2) by (simp add: map_position_def map_result_bounds)
  show "map_position m e n \<le> map_position m e n'"
    using map_bounds_sides [OF ok assms(4)] by (simp add: map_position_def map_result_bounds)
  show "case mr_recover (map_result_of m e n) of
         None \<Rightarrow> map_position (invert_map m) (map_position m e n) n = e
       | Some v \<Rightarrow> recover_position (invert_map m) v = e"
    using map_back [OF assms(1,2), of n] recover_inverse [of m e n] assms(1)
    by (auto simp: step_map_ok_def split: option.splits)
qed (rule map_position_nonneg [OF assms(1,2)])

theorem map_position_laws_witness:
  "let m = \<lparr>sp_ranges = [(2, 4, 1)], sp_inverted = False\<rparr>
   in recover_position (invert_map m) (the (mr_recover (map_result_of m 5 1))) = 5"
proof -
  let ?m = "\<lparr>sp_ranges = [(2, 4, 1)], sp_inverted = False\<rparr>"
  have "step_map_ok ?m" by (simp add: step_map_ok_def for_each_range_def range_from_def range_to_def Let_def)
  from map_position_laws [OF this, of 5 5 1 1] have "case mr_recover (map_result_of ?m 5 1) of
         None \<Rightarrow> map_position (invert_map ?m) (map_position ?m 5 1) 1 = 5
       | Some v \<Rightarrow> recover_position (invert_map ?m) v = 5" by simp
  moreover have "mr_recover (map_result_of ?m 5 1) = Some (3 * 65536)" by code_simp
  ultimately show ?thesis by simp
qed

end
