(* ===== verification/Content_Expr.thy ===== *)
theory Content_Expr
  imports Script_Text
begin

text \<open>
  Content expressions of the document schema
  (\<open>public/js/filament/forms/components/rich-editor.js\<close>): the expressions that the parser builds,
  their language, and the nondeterministic automaton that \<open>cm\<close> builds from one. The automaton is
  a store of nodes with their outgoing edges; an edge whose target is still open is named by its
  node and its place in the node's list, and is connected later, as the script sets its \<open>to\<close>.
\<close>

section \<open>Expressions\<close>

text \<open>The maximum of a range is -1 when it has none.\<close>

datatype 'a content_expr =
    ChoiceE "'a content_expr list"
  | SeqE "'a content_expr list"
  | PlusE "'a content_expr"
  | StarE "'a content_expr"
  | OptE "'a content_expr"
  | RangeE nat int "'a content_expr"
  | NameE 'a

definition conc_lang :: "'a list set \<Rightarrow> 'a list set \<Rightarrow> 'a list set" where
  "conc_lang A B = {u @ v | u v. u \<in> A \<and> v \<in> B}"

definition star_lang :: "'a list set \<Rightarrow> 'a list set" where
  "star_lang A = {concat ws | ws. set ws \<subseteq> A}"

primrec content_lang :: "'a content_expr \<Rightarrow> 'a list set" where
  "content_lang (ChoiceE es) = \<Union> (set (map content_lang es))"
| "content_lang (SeqE es) = foldr conc_lang (map content_lang es) {[]}"
| "content_lang (PlusE e) = {concat ws | ws. set ws \<subseteq> content_lang e \<and> ws \<noteq> []}"
| "content_lang (StarE e) = star_lang (content_lang e)"
| "content_lang (OptE e) = insert [] (content_lang e)"
| "content_lang (RangeE mn mx e) =
     {concat ws | ws. set ws \<subseteq> content_lang e \<and> mn \<le> length ws \<and> (mx = -1 \<or> int (length ws) \<le> max (int mn) mx)}"
| "content_lang (NameE a) = {[a]}"

text \<open>
  What the parser builds has no empty list; a range from 0 without a maximum is left out, as its
  automaton is wrong where the node it starts from is shared.
\<close>

primrec content_expr_ok :: "'a content_expr \<Rightarrow> bool" where
  "content_expr_ok (ChoiceE es) = (es \<noteq> [] \<and> list_all (\<lambda>b. b) (map content_expr_ok es))"
| "content_expr_ok (SeqE es) = (es \<noteq> [] \<and> list_all (\<lambda>b. b) (map content_expr_ok es))"
| "content_expr_ok (PlusE e) = content_expr_ok e"
| "content_expr_ok (StarE e) = content_expr_ok e"
| "content_expr_ok (OptE e) = content_expr_ok e"
| "content_expr_ok (RangeE mn mx e) = (content_expr_ok e \<and> -1 \<le> mx \<and> \<not> (mn = 0 \<and> mx = -1))"
| "content_expr_ok (NameE a) = True"

section \<open>The automaton\<close>

type_synonym 'a nfa = "('a option \<times> nat option) list list"
type_synonym edge_ref = "nat \<times> nat"
type_synonym 'a builder = "nat \<Rightarrow> 'a nfa \<Rightarrow> edge_ref list \<times> 'a nfa"

definition new_node :: "'a nfa \<Rightarrow> nat \<times> 'a nfa" where
  "new_node N = (length N, N @ [[]])"

definition add_edge :: "nat \<Rightarrow> nat option \<Rightarrow> 'a option \<Rightarrow> 'a nfa \<Rightarrow> edge_ref \<times> 'a nfa" where
  "add_edge s q t N = ((s, length (N ! s)), N[s := N ! s @ [(t, q)]])"

definition connect_one :: "nat \<Rightarrow> edge_ref \<Rightarrow> 'a nfa \<Rightarrow> 'a nfa" where
  "connect_one q r N = (case r of (s, i) \<Rightarrow> N[s := (N ! s)[i := (fst (N ! s ! i), Some q)]])"

definition connect_edges :: "edge_ref list \<Rightarrow> nat \<Rightarrow> 'a nfa \<Rightarrow> 'a nfa" where
  "connect_edges refs q N = fold (connect_one q) refs N"

definition comp_name :: "'a \<Rightarrow> 'a builder" where
  "comp_name a l N = (case add_edge l None (Some a) N of (r, N') \<Rightarrow> ([r], N'))"

fun comp_choice :: "'a builder list \<Rightarrow> 'a builder" where
  "comp_choice [] l N = ([], N)"
| "comp_choice (f # fs) l N =
     (case f l N of (r, N1) \<Rightarrow> (case comp_choice fs l N1 of (rs, N2) \<Rightarrow> (r @ rs, N2)))"

fun comp_seq :: "'a builder list \<Rightarrow> 'a builder" where
  "comp_seq [] l N = ([], N)"
| "comp_seq [f] l N = f l N"
| "comp_seq (f # g # fs) l N =
     (case f l N of (r, N1) \<Rightarrow>
        (case new_node N1 of (l', N2) \<Rightarrow> comp_seq (g # fs) l' (connect_edges r l' N2)))"

definition comp_star :: "'a builder \<Rightarrow> 'a builder" where
  "comp_star f l N =
     (case new_node N of (a, N1) \<Rightarrow>
        (case add_edge l (Some a) None N1 of (r0, N2) \<Rightarrow>
           (case f a N2 of (r, N3) \<Rightarrow>
              (case add_edge a None None (connect_edges r a N3) of (x, N4) \<Rightarrow> ([x], N4)))))"

definition comp_plus :: "'a builder \<Rightarrow> 'a builder" where
  "comp_plus f l N =
     (case new_node N of (a, N1) \<Rightarrow>
        (case f l N1 of (r, N2) \<Rightarrow>
           (case f a (connect_edges r a N2) of (r', N3) \<Rightarrow>
              (case add_edge a None None (connect_edges r' a N3) of (x, N4) \<Rightarrow> ([x], N4)))))"

definition comp_opt :: "'a builder \<Rightarrow> 'a builder" where
  "comp_opt f l N =
     (case add_edge l None None N of (x, N1) \<Rightarrow> (case f l N1 of (r, N2) \<Rightarrow> (x # r, N2)))"

text \<open>The copies of a range that must be there, and those that may be.\<close>

fun comp_copies :: "'a builder \<Rightarrow> nat \<Rightarrow> nat \<Rightarrow> 'a nfa \<Rightarrow> nat \<times> 'a nfa" where
  "comp_copies f 0 a N = (a, N)"
| "comp_copies f (Suc k) a N =
     (case new_node N of (d, N1) \<Rightarrow>
        (case f a N1 of (r, N2) \<Rightarrow> comp_copies f k d (connect_edges r d N2)))"

fun comp_options :: "'a builder \<Rightarrow> nat \<Rightarrow> nat \<Rightarrow> 'a nfa \<Rightarrow> nat \<times> 'a nfa" where
  "comp_options f 0 a N = (a, N)"
| "comp_options f (Suc k) a N =
     (case new_node N of (d, N1) \<Rightarrow>
        (case add_edge a (Some d) None N1 of (x, N2) \<Rightarrow>
           (case f a N2 of (r, N3) \<Rightarrow> comp_options f k d (connect_edges r d N3))))"

definition comp_range :: "'a builder \<Rightarrow> nat \<Rightarrow> int \<Rightarrow> 'a builder" where
  "comp_range f mn mx l N =
     (case comp_copies f mn l N of (a, N1) \<Rightarrow>
        (case (if mx = -1 then (case f a N1 of (r, N2) \<Rightarrow> (a, connect_edges r a N2))
               else comp_options f (nat (mx - int mn)) a N1) of
           (b, N3) \<Rightarrow> (case add_edge b None None N3 of (x, N4) \<Rightarrow> ([x], N4))))"

primrec compile_expr :: "'a content_expr \<Rightarrow> 'a builder" where
  "compile_expr (ChoiceE es) = comp_choice (map compile_expr es)"
| "compile_expr (SeqE es) = comp_seq (map compile_expr es)"
| "compile_expr (PlusE e) = comp_plus (compile_expr e)"
| "compile_expr (StarE e) = comp_star (compile_expr e)"
| "compile_expr (OptE e) = comp_opt (compile_expr e)"
| "compile_expr (RangeE mn mx e) = comp_range (compile_expr e) mn mx"
| "compile_expr (NameE a) = comp_name a"

text \<open>\<open>cm\<close>: the last node accepts.\<close>

definition content_nfa :: "'a content_expr \<Rightarrow> 'a nfa" where
  "content_nfa e =
     (case compile_expr e 0 [[]] of (r, N) \<Rightarrow> (case new_node N of (q, N1) \<Rightarrow> connect_edges r q N1))"

section \<open>Runs\<close>

type_synonym 'a edges = "(nat \<times> 'a option \<times> nat) set"

fun label_word :: "'a option \<Rightarrow> 'a list" where
  "label_word None = []"
| "label_word (Some a) = [a]"

inductive run :: "'a edges \<Rightarrow> nat \<Rightarrow> 'a list \<Rightarrow> nat \<Rightarrow> bool" for E where
  run_refl [intro]: "run E s [] s"
| run_step: "\<lbrakk>(s, t, q) \<in> E; run E q w p\<rbrakk> \<Longrightarrow> run E s (label_word t @ w) p"

lemma run_one: "(s, t, q) \<in> E \<Longrightarrow> run E s (label_word t) q"
  using run_step [OF _ run_refl, of s t q E] by simp

lemma run_trans: "\<lbrakk>run E s w q; run E q v p\<rbrakk> \<Longrightarrow> run E s (w @ v) p"
  by (induction rule: run.induct) (auto intro: run_step simp: append_assoc)

lemma run_mono: "\<lbrakk>run E s w q; E \<subseteq> E'\<rbrakk> \<Longrightarrow> run E' s w q"
  by (induction rule: run.induct) (auto intro: run_step)

definition link_edges :: "(nat \<times> 'a option) set \<Rightarrow> nat \<Rightarrow> 'a edges" where
  "link_edges D q = {(p, t, q) | p t. (p, t) \<in> D}"

lemma link_edges_iff [simp]: "(p, t, q') \<in> link_edges D q \<longleftrightarrow> q' = q \<and> (p, t) \<in> D"
  by (auto simp: link_edges_def)

text \<open>
  A fragment starts at \<open>s\<close>, has its own nodes \<open>V\<close>, the edges \<open>E\<close> and the open edges \<open>D\<close>, and leaves
  with the words \<open>L\<close>; no edge leads back to its start, which it may share. An open end is a
  fragment that leads to one node, from which no edge leaves yet.
\<close>

definition edges_within :: "nat \<Rightarrow> nat set \<Rightarrow> 'a edges \<Rightarrow> bool" where
  "edges_within s V E \<longleftrightarrow> s \<notin> V \<and> (\<forall>p t q. (p, t, q) \<in> E \<longrightarrow> p \<in> insert s V \<and> q \<in> V)"

definition frag :: "nat \<Rightarrow> nat set \<Rightarrow> 'a edges \<Rightarrow> (nat \<times> 'a option) set \<Rightarrow> 'a list set \<Rightarrow> bool" where
  "frag s V E D L \<longleftrightarrow> edges_within s V E \<and> (\<forall>p t. (p, t) \<in> D \<longrightarrow> p \<in> insert s V)
     \<and> L = {w @ label_word t | w p t. run E s w p \<and> (p, t) \<in> D}"

definition open_end :: "nat \<Rightarrow> nat set \<Rightarrow> 'a edges \<Rightarrow> nat \<Rightarrow> 'a list set \<Rightarrow> bool" where
  "open_end s V E a L \<longleftrightarrow> edges_within s V E \<and> a \<in> insert s V \<and> (\<forall>p t q. (p, t, q) \<in> E \<longrightarrow> p \<noteq> a)
     \<and> L = {w. run E s w a}"

lemma run_within:
  assumes "run E x w p" and "edges_within s V E" and "x \<in> insert s V"
  shows "p \<in> insert s V \<and> (p = s \<longrightarrow> x = s \<and> w = [])"
  using assms by (induction rule: run.induct) (auto simp: edges_within_def)

lemma run_empty [simp]: "run {} s w p \<longleftrightarrow> w = [] \<and> p = s"
  by (auto elim: run.cases)

lemma frag_eps: "frag s {} {} {(s, t)} {label_word t}"
  by (simp add: frag_def edges_within_def)

lemma frag_empty: "frag s {} {} {} {}"
  by (simp add: frag_def edges_within_def)

lemma open_end_refl: "open_end s {} {} s {[]}"
  by (simp add: open_end_def edges_within_def)

lemma open_end_frag: "open_end s V E a L \<Longrightarrow> frag s V E {(a, None)} L"
  by (auto simp: open_end_def frag_def)

text \<open>Edges that start elsewhere do not matter to a run that stays inside.\<close>

lemma run_stays:
  assumes "run (E \<union> E') x w p" and "x \<in> A" and "\<And>p t q. (p, t, q) \<in> E \<Longrightarrow> q \<in> A"
    and "\<And>p t q. (p, t, q) \<in> E' \<Longrightarrow> p \<notin> A"
  shows "run E x w p"
  using assms(1,2)
proof (induction rule: run.induct)
  case (run_step s t q w p)
  then have "(s, t, q) \<in> E" using assms(4) by auto
  with run_step assms(3) show ?case by (blast intro: run.run_step)
qed (rule run_refl)

lemma frag_union:
  assumes "frag s V1 E1 D1 L1" and "frag s V2 E2 D2 L2" and "V1 \<inter> V2 = {}"
  shows "frag s (V1 \<union> V2) (E1 \<union> E2) (D1 \<union> D2) (L1 \<union> L2)"
proof -
  have w1: "edges_within s V1 E1" "\<forall>p t. (p, t) \<in> D1 \<longrightarrow> p \<in> insert s V1" and
    w2: "edges_within s V2 E2" "\<forall>p t. (p, t) \<in> D2 \<longrightarrow> p \<in> insert s V2"
    using assms by (auto simp: frag_def)
  have within: "edges_within s (V1 \<union> V2) (E1 \<union> E2)" using w1(1) w2(1) unfolding edges_within_def by blast
  have split: "run E1 s w p \<and> p \<in> insert s V1 \<or> run E2 s w p \<and> p \<in> insert s V2"
    "p \<in> V1 \<longrightarrow> run E1 s w p" "p \<in> V2 \<longrightarrow> run E2 s w p" if "run (E1 \<union> E2) s w p" for w p
  proof -
    have "p = s \<and> w = [] \<or> run E1 s w p \<and> p \<in> V1 \<or> run E2 s w p \<and> p \<in> V2"
      using that
    proof cases
      case (run_step t q v)
      show ?thesis
      proof (cases "(s, t, q) \<in> E1")
        case True
        then have q: "q \<in> V1" using w1 by (auto simp: edges_within_def)
        have r: "run E1 q v p"
          by (rule run_stays [OF run_step(3) q]) (use w1(1) w2(1) assms(3) in \<open>unfold edges_within_def, blast+\<close>)
        then have "run E1 s w p" using True run_step(1) by (auto intro: run.run_step)
        moreover have "p \<in> V1" using run_within [OF r w1(1)] q w1(1) by (auto simp: edges_within_def)
        ultimately show ?thesis by blast
      next
        case False
        then have e: "(s, t, q) \<in> E2" using run_step(2) by blast
        then have q: "q \<in> V2" using w2 by (auto simp: edges_within_def)
        have r: "run E2 q v p"
          by (rule run_stays [OF run_step(3) [unfolded Un_commute [of E1]] q])
            (use w1(1) w2(1) assms(3) in \<open>unfold edges_within_def, blast+\<close>)
        then have "run E2 s w p" using e run_step(1) by (auto intro: run.run_step)
        moreover have "p \<in> V2" using run_within [OF r w2(1)] q w2(1) by (auto simp: edges_within_def)
        ultimately show ?thesis by blast
      qed
    qed auto
    then show "run E1 s w p \<and> p \<in> insert s V1 \<or> run E2 s w p \<and> p \<in> insert s V2"
      "p \<in> V1 \<longrightarrow> run E1 s w p" "p \<in> V2 \<longrightarrow> run E2 s w p"
      using w1(1) w2(1) assms(3) by (auto simp: edges_within_def)
  qed
  have "L1 \<union> L2 = {w @ label_word t | w p t. run (E1 \<union> E2) s w p \<and> (p, t) \<in> D1 \<union> D2}" (is "_ = ?R")
  proof
    have "L1 \<subseteq> ?R" "L2 \<subseteq> ?R" using assms(1,2) unfolding frag_def by (auto intro: run_mono)
    then show "L1 \<union> L2 \<subseteq> ?R" by blast
    show "?R \<subseteq> L1 \<union> L2"
    proof
      fix x assume "x \<in> ?R"
      then obtain w p t where x: "x = w @ label_word t" "run (E1 \<union> E2) s w p" "(p, t) \<in> D1 \<union> D2" by blast
      have "run E1 s w p" if "(p, t) \<in> D1"
        using split [OF x(2)] that w1 w2 run_within [of E2 s w p s V2] by (auto simp: edges_within_def)
      moreover have "run E2 s w p" if "(p, t) \<in> D2"
        using split [OF x(2)] that w1 w2 run_within [of E1 s w p s V1] by (auto simp: edges_within_def)
      ultimately show "x \<in> L1 \<union> L2" using x(1,3) assms(1,2) unfolding frag_def by blast
    qed
  qed
  with within w1(2) w2(2) show ?thesis unfolding frag_def by blast
qed

text \<open>The open edges of a fragment are connected to a new node.\<close>

lemma run_link:
  assumes "run (E \<union> link_edges D a) x w q" and "x \<noteq> a"
    and "\<forall>p t q. (p, t, q) \<in> E \<longrightarrow> p \<noteq> a \<and> q \<noteq> a" and "\<forall>t. (a, t) \<notin> D"
  shows "run E x w q \<and> q \<noteq> a \<or> q = a \<and> (\<exists>v p t. run E x v p \<and> (p, t) \<in> D \<and> w = v @ label_word t)"
  using assms(1,2)
proof (induction rule: run.induct)
  case (run_step s t q w p)
  show ?case
  proof (cases "(s, t, q) \<in> E")
    case True
    then have "q \<noteq> a" using assms(3) by blast
    from run_step(3) [OF this] show ?thesis
    proof
      assume "run E q w p \<and> p \<noteq> a"
      then show ?thesis using True by (blast intro: run.run_step)
    next
      assume "p = a \<and> (\<exists>v p' t. run E q v p' \<and> (p', t) \<in> D \<and> w = v @ label_word t)"
      then obtain v p' t' where "p = a" "run E q v p'" "(p', t') \<in> D" "w = v @ label_word t'" by blast
      then have "run E s (label_word t @ v) p'" "label_word t @ w = (label_word t @ v) @ label_word t'"
        using True by (auto intro: run.run_step)
      then show ?thesis using \<open>p = a\<close> \<open>(p', t') \<in> D\<close> by blast
    qed
  next
    case False
    then have l: "q = a" "(s, t) \<in> D" using run_step(1) by auto
    have "w = [] \<and> p = a"
      using run_step(2) unfolding l(1)
    proof cases
      case (run_step t' q' v)
      then show ?thesis using assms(3,4) by auto
    qed simp
    then show ?thesis using l(2) run_refl [of E s] by (metis append_Nil append_Nil2)
  qed
qed auto

lemma frag_close:
  assumes "frag s V E D L" and "a \<notin> insert s V"
  shows "open_end s (insert a V) (E \<union> link_edges D a) a L"
proof -
  have w: "edges_within s V E" "\<forall>p t. (p, t) \<in> D \<longrightarrow> p \<in> insert s V"
    and L: "L = {w @ label_word t | w p t. run E s w p \<and> (p, t) \<in> D}"
    using assms(1) unfolding frag_def by auto
  have E: "\<forall>p t q. (p, t, q) \<in> E \<longrightarrow> p \<noteq> a \<and> q \<noteq> a"
    using w(1) assms(2) unfolding edges_within_def by blast
  have D: "\<forall>t. (a, t) \<notin> D" using w(2) assms(2) by blast
  have sa: "s \<noteq> a" using assms(2) by blast
  have "edges_within s (insert a V) (E \<union> link_edges D a)"
    using w assms(2) unfolding edges_within_def Un_iff link_edges_iff by blast
  moreover have "\<forall>p t q. (p, t, q) \<in> E \<union> link_edges D a \<longrightarrow> p \<noteq> a"
    using E D unfolding Un_iff link_edges_iff by blast
  moreover have "{w. run (E \<union> link_edges D a) s w a} = L"
  proof
    show "{w. run (E \<union> link_edges D a) s w a} \<subseteq> L"
      using run_link [of E D a s _ a, OF _ sa E D] unfolding L by blast
    show "L \<subseteq> {w. run (E \<union> link_edges D a) s w a}"
    proof
      fix x assume "x \<in> L"
      then obtain w p t where x: "x = w @ label_word t" "run E s w p" "(p, t) \<in> D" unfolding L by blast
      have "run (E \<union> link_edges D a) p (label_word t) a" using x(3) by (intro run_one) auto
      with x(2) show "x \<in> {w. run (E \<union> link_edges D a) s w a}"
        unfolding x(1) by (auto intro: run_trans run_mono)
    qed
  qed
  ultimately show ?thesis unfolding open_end_def by auto
qed

text \<open>A fragment that starts where an open end leads; \<open>E2\<close> may go back to its start.\<close>

lemma run_split:
  assumes "run (E1 \<union> E2) x w p" and "x \<in> insert s V1" and "edges_within s V1 E1"
    and "\<forall>p t q. (p, t, q) \<in> E1 \<longrightarrow> p \<noteq> a"
    and "\<forall>p t q. (p, t, q) \<in> E2 \<longrightarrow> p \<in> insert a V2 \<and> q \<in> insert a V2"
    and "insert s V1 \<inter> V2 = {}"
  shows "run E1 x w p \<and> p \<in> insert s V1
    \<or> (\<exists>u v. run E1 x u a \<and> run E2 a v p \<and> p \<in> insert a V2 \<and> w = u @ v)"
  using assms(1,2)
proof (induction rule: run.induct)
  case (run_step s' t q w p)
  show ?case
  proof (cases "(s', t, q) \<in> E1")
    case True
    then have "q \<in> insert s V1" using assms(3) unfolding edges_within_def by blast
    from run_step(3) [OF this] show ?thesis
    proof (elim disjE exE conjE)
      fix u v assume "run E1 q u a" "run E2 a v p" "p \<in> insert a V2" "w = u @ v"
      moreover have "run E1 s' (label_word t @ u) a" using True calculation(1) by (rule run.run_step)
      ultimately show ?thesis by (metis append_assoc)
    qed (use True in \<open>auto intro: run.run_step\<close>)
  next
    case False
    then have e: "(s', t, q) \<in> E2" using run_step(1) by blast
    then have a: "s' = a" using assms(5,6) run_step(4) by blast
    have "run (E2 \<union> E1) s' (label_word t @ w) p"
      using run_step(1,2) by (subst Un_commute) (rule run.run_step)
    then have "run (E2 \<union> E1) a (label_word t @ w) p" unfolding a .
    then have r: "run E2 a (label_word t @ w) p"
    proof (rule run_stays)
      show "a \<in> insert a V2" by simp
      show "q \<in> insert a V2" if "(p, t, q) \<in> E2" for p t q using that assms(5) by blast
      show "p \<notin> insert a V2" if "(p, t, q) \<in> E1" for p t q
        using that assms(3,4,6) unfolding edges_within_def by blast
    qed
    moreover have "run E2 x v y \<Longrightarrow> x \<in> insert a V2 \<Longrightarrow> y \<in> insert a V2" for x v y
      by (induction rule: run.induct) (use assms(5) in blast)+
    from this [OF r] have "p \<in> insert a V2" by blast
    moreover have "run E1 s' [] a" unfolding a by (rule run_refl)
    ultimately show ?thesis by (metis append_Nil)
  qed
qed auto

lemma open_end_then:
  assumes "open_end s V1 E1 a L1" and "frag a V2 E2 D2 L2" and "insert s V1 \<inter> V2 = {}"
  shows "frag s (V1 \<union> V2) (E1 \<union> E2) D2 (conc_lang L1 L2)"
proof -
  have w1: "edges_within s V1 E1" "a \<in> insert s V1" "\<forall>p t q. (p, t, q) \<in> E1 \<longrightarrow> p \<noteq> a" "L1 = {w. run E1 s w a}"
    using assms(1) unfolding open_end_def by blast+
  have w2: "edges_within a V2 E2" "\<forall>p t. (p, t) \<in> D2 \<longrightarrow> p \<in> insert a V2"
    "L2 = {w @ label_word t | w p t. run E2 a w p \<and> (p, t) \<in> D2}"
    using assms(2) unfolding frag_def by blast+
  have E2: "\<forall>p t q. (p, t, q) \<in> E2 \<longrightarrow> p \<in> insert a V2 \<and> q \<in> insert a V2"
    using w2(1) unfolding edges_within_def by blast
  have "edges_within s (V1 \<union> V2) (E1 \<union> E2)"
    using w1(1,2) w2(1) assms(3) unfolding edges_within_def by blast
  moreover have "\<forall>p t. (p, t) \<in> D2 \<longrightarrow> p \<in> insert s (V1 \<union> V2)" using w2(2) w1(2) by blast
  moreover have "conc_lang L1 L2 = {w @ label_word t | w p t. run (E1 \<union> E2) s w p \<and> (p, t) \<in> D2}" (is "_ = ?R")
  proof
    show "conc_lang L1 L2 \<subseteq> ?R"
    proof
      fix x assume "x \<in> conc_lang L1 L2"
      then obtain u v p t where x: "x = u @ v @ label_word t" "run E1 s u a" "run E2 a v p" "(p, t) \<in> D2"
        unfolding conc_lang_def w1(4) w2(3) by blast
      have "run (E1 \<union> E2) s (u @ v) p" by (rule run_trans [OF run_mono run_mono]) (use x in auto)
      then show "x \<in> ?R" using x by (metis (mono_tags, lifting) append_assoc mem_Collect_eq)
    qed
    show "?R \<subseteq> conc_lang L1 L2"
    proof
      fix x assume "x \<in> ?R"
      then obtain w p t where x: "x = w @ label_word t" "run (E1 \<union> E2) s w p" "(p, t) \<in> D2" by blast
      have "\<exists>u v. run E1 s u a \<and> run E2 a v p \<and> w = u @ v"
        using run_split [OF x(2) insertI1 w1(1) w1(3) E2 assms(3)]
      proof (elim disjE)
        assume "run E1 s w p \<and> p \<in> insert s V1"
        moreover have "p \<in> insert a V2" using x(3) w2(2) by blast
        ultimately have "p = a" using assms(3) by blast
        then show ?thesis using \<open>run E1 s w p \<and> _\<close> run_refl [of E2 a] by (metis append_Nil2)
      qed auto
      then show "x \<in> conc_lang L1 L2" using x(1,3) unfolding conc_lang_def w1(4) w2(3)
        by (auto simp: append_assoc) blast
    qed
  qed
  ultimately show ?thesis unfolding frag_def by blast
qed

text \<open>A loop at an open end.\<close>

lemma star_lang_cons: "\<lbrakk>u \<in> A; v \<in> star_lang A\<rbrakk> \<Longrightarrow> u @ v \<in> star_lang A"
  unfolding star_lang_def
proof (elim CollectE exE conjE, intro CollectI)
  fix ws assume "u \<in> A" "v = concat ws" "set ws \<subseteq> A"
  then have "u @ v = concat (u # ws) \<and> set (u # ws) \<subseteq> A" by simp
  then show "\<exists>ws. u @ v = concat ws \<and> set ws \<subseteq> A" by blast
qed

lemma star_lang_empty: "[] \<in> star_lang A"
  unfolding star_lang_def by (auto intro: exI [of _ "[]"])

lemma run_loop:
  assumes "run (E \<union> link_edges D a) x w q" and "q = a" and "x \<in> insert a V" and "edges_within a V E"
    and L: "L = {w @ label_word t | w p t. run E a w p \<and> (p, t) \<in> D}"
  shows "w = [] \<and> x = a \<or> (\<exists>u p t v. run E x u p \<and> (p, t) \<in> D \<and> w = u @ label_word t @ v \<and> v \<in> star_lang L)"
  using assms(1-3)
proof (induction rule: run.induct)
  case (run_step s t q w p)
  have star: "w' \<in> star_lang L"
    if "w' = [] \<or> (\<exists>u p t v. run E a u p \<and> (p, t) \<in> D \<and> w' = u @ label_word t @ v \<and> v \<in> star_lang L)" for w'
    using that
  proof (elim disjE exE conjE)
    fix u p t v assume *: "run E a u p" "(p, t) \<in> D" "w' = u @ label_word t @ v" "v \<in> star_lang L"
    then have "u @ label_word t \<in> L" unfolding L by blast
    from star_lang_cons [OF this *(4)] show ?thesis unfolding *(3) by simp
  qed (simp add: star_lang_empty)
  show ?case
  proof (cases "(s, t, q) \<in> E")
    case True
    then have q: "q \<in> V" "q \<noteq> a" using assms(4) unfolding edges_within_def by blast+
    with run_step(3) [OF run_step(4)] obtain u p' t' v
      where "run E q u p'" "(p', t') \<in> D" "w = u @ label_word t' @ v" "v \<in> star_lang L" by blast
    moreover have "run E s (label_word t @ u) p'" using True calculation(1) by (rule run.run_step)
    ultimately show ?thesis by (metis append_assoc)
  next
    case False
    then have l: "q = a" "(s, t) \<in> D" using run_step(1) by auto
    have "w \<in> star_lang L" by (rule star) (use run_step(3) [OF run_step(4)] l(1) in blast)
    then show ?thesis using l(2) run_refl [of E s] by (metis append_Nil)
  qed
qed simp

lemma loop_runs:
  assumes "frag a V E D L"
  shows "{w. run (E \<union> link_edges D a) a w a} = star_lang L"
proof
  have w: "edges_within a V E" "L = {w @ label_word t | w p t. run E a w p \<and> (p, t) \<in> D}"
    using assms unfolding frag_def by blast+
  show "{w. run (E \<union> link_edges D a) a w a} \<subseteq> star_lang L"
  proof
    fix x assume "x \<in> {w. run (E \<union> link_edges D a) a w a}"
    then have "run (E \<union> link_edges D a) a x a" by simp
    from run_loop [OF this refl insertI1 w] show "x \<in> star_lang L"
    proof (elim disjE exE conjE)
      fix u p t v assume *: "run E a u p" "(p, t) \<in> D" "x = u @ label_word t @ v" "v \<in> star_lang L"
      then have "u @ label_word t \<in> L" unfolding w(2) by blast
      from star_lang_cons [OF this *(4)] show ?thesis unfolding *(3) by simp
    qed (simp_all add: star_lang_empty)
  qed
  have one: "run (E \<union> link_edges D a) a u a" if "u \<in> L" for u
  proof -
    from that obtain w' p t where u: "u = w' @ label_word t" "run E a w' p" "(p, t) \<in> D" unfolding w(2) by blast
    have "run (E \<union> link_edges D a) p (label_word t) a" using u(3) by (intro run_one) auto
    with u show ?thesis by (auto intro: run_trans run_mono)
  qed
  have "run (E \<union> link_edges D a) a (concat ws) a" if "set ws \<subseteq> L" for ws
    using that by (induction ws) (auto intro: run_trans one)
  then show "star_lang L \<subseteq> {w. run (E \<union> link_edges D a) a w a}" unfolding star_lang_def by blast
qed

lemma open_end_loop:
  assumes "open_end s V1 E1 a L1" and "a \<in> V1" and "frag a V2 E2 D2 L2" and "insert s V1 \<inter> V2 = {}"
  shows "frag s (V1 \<union> V2) (E1 \<union> E2 \<union> link_edges D2 a) {(a, None)} (conc_lang L1 (star_lang L2))"
proof -
  let ?E2 = "E2 \<union> link_edges D2 a"
  have w1: "edges_within s V1 E1" "\<forall>p t q. (p, t, q) \<in> E1 \<longrightarrow> p \<noteq> a" "L1 = {w. run E1 s w a}"
    using assms(1) unfolding open_end_def by blast+
  have w2: "edges_within a V2 E2" "\<forall>p t. (p, t) \<in> D2 \<longrightarrow> p \<in> insert a V2"
    using assms(3) unfolding frag_def by blast+
  have E2: "\<forall>p t q. (p, t, q) \<in> ?E2 \<longrightarrow> p \<in> insert a V2 \<and> q \<in> insert a V2"
    using w2 unfolding edges_within_def Un_iff link_edges_iff by blast
  have "edges_within s (V1 \<union> V2) (E1 \<union> ?E2)"
    using w1(1) assms(2,4) E2 unfolding edges_within_def by blast
  moreover have "conc_lang L1 (star_lang L2) = {w. run (E1 \<union> ?E2) s w a}"
  proof
    show "conc_lang L1 (star_lang L2) \<subseteq> {w. run (E1 \<union> ?E2) s w a}"
      unfolding conc_lang_def w1(3) loop_runs [OF assms(3), symmetric]
      by (auto intro!: run_trans [OF run_mono run_mono])
    show "{w. run (E1 \<union> ?E2) s w a} \<subseteq> conc_lang L1 (star_lang L2)"
    proof
      fix w assume "w \<in> {w. run (E1 \<union> ?E2) s w a}"
      then have "run (E1 \<union> ?E2) s w a" by simp
      from run_split [OF this insertI1 w1(1,2) E2 assms(4)]
      have "\<exists>u v. run E1 s u a \<and> run ?E2 a v a \<and> w = u @ v"
        using run_refl [of ?E2 a] by (metis append_Nil2 insertI1)
      then show "w \<in> conc_lang L1 (star_lang L2)"
        unfolding conc_lang_def w1(3) loop_runs [OF assms(3), symmetric] by blast
    qed
  qed
  ultimately show ?thesis using assms(2) unfolding frag_def by (auto simp: Un_assoc)
qed

end
