(* ===== verification/Content_Nfa.thy ===== *)
theory Content_Nfa
  imports Content_Expr
begin

text \<open>
  The automaton that \<open>cm\<close> builds accepts the language of its expression. Each builder of
  \<open>Content_Expr\<close> extends the store by a fragment of its own and leaves its open edges pending; the
  lemmas follow the script's composition of builders.
\<close>

section \<open>The store\<close>

text \<open>The edges with a target, and the places of those without.\<close>

definition nfa_edges :: "'a nfa \<Rightarrow> 'a edges" where
  "nfa_edges N = {(p, t, q). \<exists>i. p < length N \<and> i < length (N ! p) \<and> N ! p ! i = (t, Some q)}"

definition pending :: "'a nfa \<Rightarrow> edge_ref set" where
  "pending N = {(p, i). p < length N \<and> i < length (N ! p) \<and> snd (N ! p ! i) = None}"

text \<open>A store extends another when nodes and edges are only added at the ends.\<close>

definition ext :: "'a nfa \<Rightarrow> 'a nfa \<Rightarrow> bool" where
  "ext N N' \<longleftrightarrow> length N \<le> length N' \<and> (\<forall>p < length N. \<exists>es. N' ! p = N ! p @ es)"

definition dangling :: "'a nfa \<Rightarrow> edge_ref list \<Rightarrow> (nat \<times> 'a option) set" where
  "dangling N refs = {(p, fst (N ! p ! i)) | p i. (p, i) \<in> set refs}"

definition fresh_refs :: "'a nfa \<Rightarrow> edge_ref list \<Rightarrow> bool" where
  "fresh_refs N refs \<longleftrightarrow> distinct refs \<and> (\<forall>p i. (p, i) \<in> set refs \<longrightarrow> p < length N \<longrightarrow> length (N ! p) \<le> i)"

lemma ext_refl [simp]: "ext N N"
  by (simp add: ext_def)

lemma ext_trans: "\<lbrakk>ext N N1; ext N1 N2\<rbrakk> \<Longrightarrow> ext N N2"
  unfolding ext_def by (metis append_assoc less_le_trans order_trans)

lemma ext_new [simp]: "ext N (N @ [[]])"
  by (simp add: ext_def nth_append)

lemma nfa_edges_new [simp]: "nfa_edges (N @ [[]]) = nfa_edges N"
proof -
  have "p < length (N @ [[]]) \<and> i < length ((N @ [[]]) ! p) \<and> (N @ [[]]) ! p ! i = (t, Some q)
    \<longleftrightarrow> p < length N \<and> i < length (N ! p) \<and> N ! p ! i = (t, Some q)" for p i t q
    by (cases "p < length N") (auto simp: nth_append less_Suc_eq)
  then show ?thesis unfolding nfa_edges_def by simp
qed

lemma pending_new [simp]: "pending (N @ [[]]) = pending N"
proof -
  have "p < length (N @ [[]]) \<and> i < length ((N @ [[]]) ! p) \<and> snd ((N @ [[]]) ! p ! i) = None
    \<longleftrightarrow> p < length N \<and> i < length (N ! p) \<and> snd (N ! p ! i) = None" for p i
    by (cases "p < length N") (auto simp: nth_append less_Suc_eq)
  then show ?thesis unfolding pending_def by simp
qed

lemma add_edge_spec:
  assumes "s < length N" and "add_edge s q t N = (r, N')"
  shows "r = (s, length (N ! s))" "length N' = length N" "ext N N'"
    "nfa_edges N' = nfa_edges N \<union> (case q of None \<Rightarrow> {} | Some q' \<Rightarrow> {(s, t, q')})"
    "pending N' = pending N \<union> (if q = None then {r} else {})" "N' ! s ! length (N ! s) = (t, q)"
    "length (N' ! p) = (if p = s then Suc (length (N ! p)) else length (N ! p))"
proof -
  have N': "N' = N[s := N ! s @ [(t, q)]]" "r = (s, length (N ! s))" using assms(2) by (auto simp: add_edge_def)
  show "ext N N'" using assms(1) unfolding ext_def N' by (auto simp: nth_list_update)
  show "nfa_edges N' = nfa_edges N \<union> (case q of None \<Rightarrow> {} | Some q' \<Rightarrow> {(s, t, q')})"
    using assms(1) unfolding nfa_edges_def N'
    by (auto simp: nth_list_update nth_append less_Suc_eq split: option.splits if_splits)
  show "pending N' = pending N \<union> (if q = None then {r} else {})"
    using assms(1) unfolding pending_def N' by (auto simp: nth_list_update nth_append less_Suc_eq split: if_splits)
qed (use assms in \<open>auto simp: add_edge_def\<close>)

lemma connect_one_spec:
  assumes "(p, i) \<in> pending N"
  shows "length (connect_one q (p, i) N) = length N"
    "length (connect_one q (p, i) N ! p') = length (N ! p')"
    "fst (connect_one q (p, i) N ! p' ! i') = fst (N ! p' ! i')"
    "pending (connect_one q (p, i) N) = pending N - {(p, i)}"
    "nfa_edges (connect_one q (p, i) N) = nfa_edges N \<union> {(p, fst (N ! p ! i), q)}"
proof -
  have p: "p < length N" "i < length (N ! p)" "snd (N ! p ! i) = None" using assms by (auto simp: pending_def)
  have len1: "length (connect_one q (p, i) N) = length N" using p by (simp add: connect_one_def)
  have len2: "length (connect_one q (p, i) N ! p') = length (N ! p')" for p'
    using p by (auto simp: connect_one_def nth_list_update)
  show "length (connect_one q (p, i) N) = length N" "length (connect_one q (p, i) N ! p') = length (N ! p')"
    by (rule len1, rule len2)
  show "fst (connect_one q (p, i) N ! p' ! i') = fst (N ! p' ! i')"
    using p by (auto simp: connect_one_def nth_list_update)
  show "pending (connect_one q (p, i) N) = pending N - {(p, i)}"
    using p by (auto simp: connect_one_def pending_def nth_list_update split: if_splits)
  have "connect_one q (p, i) N ! p' ! i' = (t, Some q') \<longleftrightarrow>
      (if p' = p \<and> i' = i then t = fst (N ! p ! i) \<and> q' = q else N ! p' ! i' = (t, Some q'))"
    if "p' < length N" "i' < length (N ! p')" for p' i' t q'
    using that p by (auto simp: connect_one_def nth_list_update)
  then have "p' < length N \<and> i' < length (N ! p') \<and> connect_one q (p, i) N ! p' ! i' = (t, Some q') \<longleftrightarrow>
      p' < length N \<and> i' < length (N ! p') \<and> N ! p' ! i' = (t, Some q') \<or> p' = p \<and> i' = i \<and> t = fst (N ! p ! i) \<and> q' = q"
    for p' i' t q'
    using p by (cases "p' = p \<and> i' = i") auto
  then show "nfa_edges (connect_one q (p, i) N) = nfa_edges N \<union> {(p, fst (N ! p ! i), q)}"
    unfolding nfa_edges_def len1 len2 by auto
qed

lemma connect_edges_spec:
  assumes "distinct refs" and "set refs \<subseteq> pending N"
  shows "length (connect_edges refs q N) = length N \<and> (\<forall>p. length (connect_edges refs q N ! p) = length (N ! p))
    \<and> pending (connect_edges refs q N) = pending N - set refs
    \<and> nfa_edges (connect_edges refs q N) = nfa_edges N \<union> link_edges (dangling N refs) q"
  using assms
proof (induction refs arbitrary: N)
  case (Cons r refs)
  obtain p i where r: "r = (p, i)" by (cases r)
  let ?N = "connect_one q r N"
  have pi: "(p, i) \<in> pending N" using Cons.prems(2) r by simp
  note one = connect_one_spec [OF pi, of q, folded r]
  have "set refs \<subseteq> pending ?N" using Cons.prems one(4) r by auto
  with Cons have ih: "length (connect_edges refs q ?N) = length ?N"
    "\<forall>p. length (connect_edges refs q ?N ! p) = length (?N ! p)"
    "pending (connect_edges refs q ?N) = pending ?N - set refs"
    "nfa_edges (connect_edges refs q ?N) = nfa_edges ?N \<union> link_edges (dangling ?N refs) q" by auto
  have step: "connect_edges (r # refs) q N = connect_edges refs q ?N" by (simp add: connect_edges_def)
  have "dangling ?N refs = dangling N refs" unfolding dangling_def one(3) ..
  moreover have "dangling N (r # refs) = insert (p, fst (N ! p ! i)) (dangling N refs)"
    by (auto simp: dangling_def r)
  ultimately have "nfa_edges (connect_edges refs q ?N) = nfa_edges N \<union> link_edges (dangling N (r # refs)) q"
    unfolding ih(4) one(5) by (auto simp: link_edges_def)
  moreover have "pending (connect_edges refs q ?N) = pending N - set (r # refs)" unfolding ih(3) one(4) by auto
  ultimately show ?case unfolding step using ih(1,2) one(1,2) by auto
qed (auto simp: connect_edges_def dangling_def link_edges_def)

text \<open>Edges that are new since \<open>N0\<close> can be connected without touching what \<open>N0\<close> has.\<close>

lemma ext_connect:
  assumes "ext N0 N" and "fresh_refs N0 refs" and "set refs \<subseteq> pending N"
  shows "ext N0 (connect_edges refs q N)"
  using assms
proof (induction refs arbitrary: N)
  case (Cons r refs)
  obtain p i where r: "r = (p, i)" by (cases r)
  have pi: "(p, i) \<in> pending N" "p < length N0 \<longrightarrow> length (N0 ! p) \<le> i"
    using Cons.prems r by (auto simp: fresh_refs_def)
  have "ext N0 (connect_one q r N)"
    unfolding ext_def
  proof (intro conjI allI impI)
    show "length N0 \<le> length (connect_one q r N)"
      using Cons.prems(1) connect_one_spec(1) [OF pi(1)] r by (simp add: ext_def)
    fix p' assume p': "p' < length N0"
    with Cons.prems(1) obtain es where es: "N ! p' = N0 ! p' @ es" by (auto simp: ext_def)
    show "\<exists>es. connect_one q r N ! p' = N0 ! p' @ es"
    proof (cases "p' = p")
      case True
      have "p < length N" using pi(1) by (simp add: pending_def)
      moreover have "(N ! p)[i := x] = N0 ! p @ es[i - length (N0 ! p) := x]" for x
        using pi(2) p' es unfolding True by (simp add: list_update_append)
      ultimately show ?thesis unfolding True r connect_one_def by simp
    next
      case False
      then show ?thesis using es by (simp add: r connect_one_def)
    qed
  qed
  moreover have "fresh_refs N0 refs" using Cons.prems(2) by (simp add: fresh_refs_def)
  moreover have "set refs \<subseteq> pending (connect_one q r N)"
    using Cons.prems connect_one_spec(4) [OF pi(1), of q] r by (auto simp: fresh_refs_def)
  ultimately have "ext N0 (connect_edges refs q (connect_one q r N))" by (rule Cons.IH)
  then show ?case by (simp add: connect_edges_def)
qed (simp add: connect_edges_def)

section \<open>What a builder does\<close>

definition built :: "'a nfa \<Rightarrow> nat \<Rightarrow> nat set \<Rightarrow> edge_ref list \<Rightarrow> 'a nfa \<Rightarrow> 'a list set \<Rightarrow> bool" where
  "built N s V refs N' L \<longleftrightarrow> ext N N' \<and> fresh_refs N refs \<and> pending N' = pending N \<union> set refs
     \<and> V \<subseteq> {length N..<length N'}
     \<and> (\<exists>E. nfa_edges N' = nfa_edges N \<union> E \<and> frag s V E (dangling N' refs) L)"

definition opened :: "'a nfa \<Rightarrow> nat \<Rightarrow> nat set \<Rightarrow> 'a nfa \<Rightarrow> nat \<Rightarrow> 'a list set \<Rightarrow> bool" where
  "opened N s V N' a L \<longleftrightarrow> ext N N' \<and> a < length N' \<and> pending N' = pending N \<and> V \<subseteq> {length N..<length N'}
     \<and> (\<exists>E. nfa_edges N' = nfa_edges N \<union> E \<and> open_end s V E a L)"

definition builds :: "'a builder \<Rightarrow> 'a list set \<Rightarrow> bool" where
  "builds f L \<longleftrightarrow> (\<forall>N s refs N'. s < length N \<longrightarrow> f s N = (refs, N') \<longrightarrow> (\<exists>V. built N s V refs N' L))"

lemma opened_refl: "s < length N \<Longrightarrow> opened N s {} N s {[]}"
  using open_end_refl [of s] by (auto simp: opened_def)

lemma opened_new: "opened N s V N' a L \<Longrightarrow> opened N s V (N' @ [[]]) a L"
  unfolding opened_def using ext_trans [OF _ ext_new] by auto

lemma opened_length: "opened N s V N' a L \<Longrightarrow> length N \<le> length N' \<and> a < length N'"
  by (auto simp: opened_def ext_def)

lemma refs_dangling_ext:
  assumes "ext N N'" and "set refs \<subseteq> pending N"
  shows "dangling N' refs = dangling N refs"
proof -
  have "N' ! p ! i = N ! p ! i" if "(p, i) \<in> set refs" for p i
  proof -
    have "p < length N" "i < length (N ! p)" using that assms(2) by (auto simp: pending_def)
    then show ?thesis using assms(1) by (auto simp: ext_def nth_append dest!: spec [of _ p])
  qed
  then show ?thesis unfolding dangling_def by (metis (no_types, opaque_lifting))
qed

lemma built_length: "built N s V refs N' L \<Longrightarrow> length N \<le> length N'"
  by (auto simp: built_def ext_def)

lemma built_choice:
  assumes "built N s V1 r1 N1 L1" and "built N1 s V2 r2 N2 L2"
  shows "built N s (V1 \<union> V2) (r1 @ r2) N2 (L1 \<union> L2)"
proof -
  from assms obtain E1 E2 where E: "nfa_edges N1 = nfa_edges N \<union> E1" "frag s V1 E1 (dangling N1 r1) L1"
    "nfa_edges N2 = nfa_edges N1 \<union> E2" "frag s V2 E2 (dangling N2 r2) L2" by (auto simp: built_def)
  have x: "ext N N1" "ext N1 N2" "fresh_refs N r1" "fresh_refs N1 r2" "pending N1 = pending N \<union> set r1"
    "pending N2 = pending N1 \<union> set r2" "V1 \<subseteq> {length N..<length N1}" "V2 \<subseteq> {length N1..<length N2}"
    using assms by (auto simp: built_def)
  have len: "length N \<le> length N1" "length N1 \<le> length N2" using x(1,2) by (auto simp: ext_def)
  have d: "dangling N2 (r1 @ r2) = dangling N1 r1 \<union> dangling N2 r2"
  proof -
    have "dangling N2 (r1 @ r2) = dangling N2 r1 \<union> dangling N2 r2" by (auto simp: dangling_def)
    then show ?thesis using refs_dangling_ext [OF x(2), of r1] x(5) by simp
  qed
  have V: "V1 \<inter> V2 = {}" using x(7,8) by force
  have "fresh_refs N (r1 @ r2)"
    unfolding fresh_refs_def
  proof (intro conjI allI impI)
    have "(p, i) \<notin> set r2" if "(p, i) \<in> set r1" for p i
    proof -
      have "p < length N1" "i < length (N1 ! p)" using that x(5) by (auto simp: pending_def set_eq_iff)
      then show ?thesis using x(4) by (force simp: fresh_refs_def)
    qed
    then show "distinct (r1 @ r2)" using x(3,4) by (auto simp: fresh_refs_def)
    fix p i assume *: "(p, i) \<in> set (r1 @ r2)" "p < length N"
    show "length (N ! p) \<le> i"
    proof (cases "(p, i) \<in> set r1")
      case False
      then have "length (N1 ! p) \<le> i" using * x(4) len(1) by (auto simp: fresh_refs_def)
      moreover obtain es where "N1 ! p = N ! p @ es" using x(1) *(2) by (auto simp: ext_def)
      ultimately show ?thesis by simp
    qed (use * x(3) in \<open>auto simp: fresh_refs_def\<close>)
  qed
  moreover have "V1 \<union> V2 \<subseteq> {length N..<length N2}" using x(7,8) len by (force simp: subset_iff)
  moreover have "nfa_edges N2 = nfa_edges N \<union> (E1 \<union> E2)" unfolding E(3) E(1) by blast
  ultimately show ?thesis
    unfolding built_def d using ext_trans [OF x(1,2)] x(5,6) frag_union [OF E(2,4) V] by (auto simp: Un_assoc)
qed

section \<open>The steps of the builders\<close>

lemma fresh_refs_ext: "\<lbrakk>ext N N1; fresh_refs N1 refs\<rbrakk> \<Longrightarrow> fresh_refs N refs"
  unfolding fresh_refs_def ext_def by (metis le_add1 le_trans length_append less_le_trans)

lemma fresh_not_pending: "fresh_refs N refs \<Longrightarrow> set refs \<inter> pending N = {}"
  by (force simp: fresh_refs_def pending_def)

lemma built_new: "built (N @ [[]]) s V refs N' L \<Longrightarrow> built N s V refs N' L"
  unfolding built_def using ext_trans [OF ext_new] fresh_refs_ext [OF ext_new] by auto

lemma built_new_end:
  assumes "built N s V refs N' L"
  shows "built N s V refs (N' @ [[]]) L"
proof -
  have "dangling (N' @ [[]]) refs = dangling N' refs"
    using assms by (intro refs_dangling_ext) (auto simp: built_def)
  then show ?thesis using assms ext_trans [OF _ ext_new] unfolding built_def by auto
qed

lemma opened_build:
  assumes "opened N s V1 N1 a L1" and "built N1 a V2 refs N2 L2" and "s < length N"
  shows "built N s (V1 \<union> V2) refs N2 (conc_lang L1 L2)"
proof -
  from assms obtain E1 E2 where E: "nfa_edges N1 = nfa_edges N \<union> E1" "open_end s V1 E1 a L1"
    "nfa_edges N2 = nfa_edges N1 \<union> E2" "frag a V2 E2 (dangling N2 refs) L2" by (auto simp: built_def opened_def)
  have x: "ext N N1" "ext N1 N2" "fresh_refs N1 refs" "pending N1 = pending N" "pending N2 = pending N1 \<union> set refs"
    "V1 \<subseteq> {length N..<length N1}" "V2 \<subseteq> {length N1..<length N2}"
    using assms by (auto simp: built_def opened_def)
  have len: "length N \<le> length N1" "length N1 \<le> length N2" using x(1,2) by (auto simp: ext_def)
  have "V1 \<union> V2 \<subseteq> {length N..<length N2}" using x(6,7) len by (force simp: subset_iff)
  moreover have "insert s V1 \<inter> V2 = {}" using x(6,7) assms(3) len by force
  then have "frag s (V1 \<union> V2) (E1 \<union> E2) (dangling N2 refs) (conc_lang L1 L2)" by (rule open_end_then [OF E(2,4)])
  moreover have "nfa_edges N2 = nfa_edges N \<union> (E1 \<union> E2)" unfolding E(1,3) by blast
  ultimately show ?thesis
    unfolding built_def using ext_trans [OF x(1,2)] fresh_refs_ext [OF x(1,3)] x(4,5) by blast
qed

lemma built_connect:
  assumes "built N s V refs N' L"
  shows "ext N (connect_edges refs a N')" "length (connect_edges refs a N') = length N'"
    "pending (connect_edges refs a N') = pending N"
    "nfa_edges (connect_edges refs a N') = nfa_edges N' \<union> link_edges (dangling N' refs) a"
proof -
  have x: "ext N N'" "fresh_refs N refs" "pending N' = pending N \<union> set refs" using assms by (auto simp: built_def)
  have d: "distinct refs" "set refs \<subseteq> pending N'" using x by (auto simp: fresh_refs_def)
  note c = connect_edges_spec [OF d, of a]
  show "ext N (connect_edges refs a N')" by (rule ext_connect [OF x(1,2) d(2)])
  show "length (connect_edges refs a N') = length N'" using c by blast
  show "nfa_edges (connect_edges refs a N') = nfa_edges N' \<union> link_edges (dangling N' refs) a" using c by blast
  have "pending (connect_edges refs a N') = pending N' - set refs" using c by blast
  then show "pending (connect_edges refs a N') = pending N" using fresh_not_pending [OF x(2)] x(3) by blast
qed

lemma built_close:
  assumes "built N s V refs N' L" and "length N \<le> a" and "a < length N'" and "a \<notin> insert s V"
  shows "opened N s (insert a V) (connect_edges refs a N') a L"
proof -
  from assms(1) obtain E where E: "nfa_edges N' = nfa_edges N \<union> E" "frag s V E (dangling N' refs) L"
    and V: "V \<subseteq> {length N..<length N'}" by (auto simp: built_def)
  note c = built_connect [OF assms(1), of a]
  have "nfa_edges (connect_edges refs a N') = nfa_edges N \<union> (E \<union> link_edges (dangling N' refs) a)"
    unfolding c(4) E(1) by blast
  then show ?thesis
    unfolding opened_def using c frag_close [OF E(2) assms(4)] V assms(2,3) by auto
qed

text \<open>An edge without a term that leads out of a node.\<close>

lemma exit_edge:
  assumes "ext N N1" and "a < length N1" and "pending N1 = pending N" and "V \<subseteq> {length N..<length N1}"
    and "nfa_edges N1 = nfa_edges N \<union> E" and "frag s V E {(a, None)} L" and "add_edge a None None N1 = (x, N2)"
  shows "built N s V [x] N2 L"
proof -
  note e = add_edge_spec [OF assms(2,7)]
  have "dangling N2 [x] = {(a, None)}" by (simp add: dangling_def e(1,6))
  moreover have "fresh_refs N [x]"
    using assms(1) e(1) by (auto simp: fresh_refs_def ext_def dest!: spec [of _ a])
  ultimately show ?thesis
    unfolding built_def using ext_trans [OF assms(1) e(3)] assms(3-6) e(2,4,5) by auto
qed

lemma opened_exit:
  assumes "opened N s V N1 a L" and "add_edge a None None N1 = (x, N2)"
  shows "built N s V [x] N2 L"
proof -
  from assms(1) obtain E where E: "nfa_edges N1 = nfa_edges N \<union> E" "open_end s V E a L" by (auto simp: opened_def)
  from assms(1) have "ext N N1" "a < length N1" "pending N1 = pending N" "V \<subseteq> {length N..<length N1}"
    by (simp_all add: opened_def)
  from exit_edge [OF this E(1) open_end_frag [OF E(2)] assms(2)] show ?thesis .
qed

lemma opened_loop:
  assumes "opened N s V1 N1 a L1" and "a \<in> V1" and "built N1 a V2 refs N2 L2" and "s < length N"
    and "add_edge a None None (connect_edges refs a N2) = (x, N3)"
  shows "built N s (V1 \<union> V2) [x] N3 (conc_lang L1 (star_lang L2))"
proof -
  from assms obtain E1 E2 where E: "nfa_edges N1 = nfa_edges N \<union> E1" "open_end s V1 E1 a L1"
    "nfa_edges N2 = nfa_edges N1 \<union> E2" "frag a V2 E2 (dangling N2 refs) L2" by (auto simp: built_def opened_def)
  have x: "ext N N1" "pending N1 = pending N" "V1 \<subseteq> {length N..<length N1}" "V2 \<subseteq> {length N1..<length N2}" "a < length N1"
    "ext N1 N2" using assms(1,3) by (auto simp: built_def opened_def)
  have len: "length N \<le> length N1" "length N1 \<le> length N2" using x(1,6) by (auto simp: ext_def)
  note c = built_connect [OF assms(3), of a]
  have disj: "insert s V1 \<inter> V2 = {}" using x(3,4) assms(4) len by force
  have "nfa_edges (connect_edges refs a N2) = nfa_edges N \<union> (E1 \<union> E2 \<union> link_edges (dangling N2 refs) a)"
    unfolding c(4) E(1,3) by blast
  moreover have "V1 \<union> V2 \<subseteq> {length N..<length (connect_edges refs a N2)}"
    using x(3,4) len unfolding c(2) by (force simp: subset_iff)
  moreover have "a < length (connect_edges refs a N2)" using c(2) x(5) len by simp
  moreover have "pending (connect_edges refs a N2) = pending N" using c(3) x(2) by simp
  ultimately show ?thesis
    using exit_edge [OF ext_trans [OF x(1) c(1)] _ _ _ _ open_end_loop [OF E(2) assms(2) E(4) disj] assms(5)] by blast
qed

text \<open>An optional step to a new node, beside what a builder adds.\<close>

lemma opened_option:
  assumes "opened N s V N1 a L" and "add_edge a (Some (length N1)) None (N1 @ [[]]) = (x, N2)"
    and "built N2 a V2 refs N3 L2" and "s < length N"
  shows "opened N s (insert (length N1) (V \<union> V2)) (connect_edges refs (length N1) N3) (length N1) (conc_lang L (insert [] L2))"
proof -
  let ?d = "length N1"
  from assms obtain E1 E2 where E: "nfa_edges N1 = nfa_edges N \<union> E1" "open_end s V E1 a L"
    "nfa_edges N3 = nfa_edges N2 \<union> E2" "frag a V2 E2 (dangling N3 refs) L2" by (auto simp: built_def opened_def)
  have x: "ext N N1" "pending N1 = pending N" "V \<subseteq> {length N..<length N1}" "V2 \<subseteq> {length N2..<length N3}" "a < length N1"
    "ext N2 N3" using assms(1,3) by (auto simp: built_def opened_def)
  have "a < length (N1 @ [[]])" using x(5) by simp
  note e = add_edge_spec [OF this assms(2)]
  have len: "length N \<le> length N1" "length N2 = Suc (length N1)" "length N2 \<le> length N3"
    using x(1,6) e(2) by (auto simp: ext_def)
  note c = built_connect [OF assms(3), of ?d]
  have "frag a ({} \<union> V2) ({} \<union> E2) ({(a, None)} \<union> dangling N3 refs) ({label_word None} \<union> L2)"
    by (rule frag_union [OF frag_eps E(4)]) simp
  then have "frag a V2 E2 (insert (a, None) (dangling N3 refs)) (insert [] L2)" by simp
  from open_end_then [OF E(2) this]
  have "frag s (V \<union> V2) (E1 \<union> E2) (insert (a, None) (dangling N3 refs)) (conc_lang L (insert [] L2))"
    using x(3,4) assms(4) len by force
  from frag_close [OF this, of ?d]
  have "open_end s (insert ?d (V \<union> V2)) (E1 \<union> E2 \<union> link_edges (insert (a, None) (dangling N3 refs)) ?d) ?d (conc_lang L (insert [] L2))"
    using x(3,4) assms(4) len by force
  moreover have "nfa_edges (connect_edges refs ?d N3) =
      nfa_edges N \<union> (E1 \<union> E2 \<union> link_edges (insert (a, None) (dangling N3 refs)) ?d)"
    unfolding c(4) E(1,3) e(4) by (auto simp: E(1) link_edges_def)
  moreover have "insert ?d (V \<union> V2) \<subseteq> {length N..<length (connect_edges refs ?d N3)}"
    using x(3,4) len unfolding c(2) by (force simp: subset_iff)
  moreover have "ext N (connect_edges refs ?d N3)"
    using x(1) ext_new e(3) c(1) by (blast intro: ext_trans)
  ultimately show ?thesis unfolding opened_def using c(2,3) x(2) e(5) len by auto
qed

lemma opened_eps:
  assumes "opened N s V N1 a L" and "add_edge a (Some (length N1)) None (N1 @ [[]]) = (x, N2)" and "s < length N"
  shows "opened N s (insert (length N1) V) N2 (length N1) L"
proof -
  have "built N2 a {} [] N2 {}" unfolding built_def using frag_empty [of a] by (auto simp: fresh_refs_def dangling_def)
  from opened_option [OF assms(1,2) this assms(3)] show ?thesis
    by (simp add: connect_edges_def conc_lang_def)
qed

section \<open>The builders\<close>

lemma buildsD: "\<lbrakk>builds f L; s < length N; f s N = (refs, N')\<rbrakk> \<Longrightarrow> \<exists>V. built N s V refs N' L"
  by (simp add: builds_def)

lemma conc_lang_unit [simp]: "conc_lang {[]} L = L" "conc_lang L {[]} = L"
  by (simp_all add: conc_lang_def)

lemma conc_lang_assoc: "conc_lang (conc_lang A B) C = conc_lang A (conc_lang B C)"
  unfolding conc_lang_def by (auto, metis append_assoc, metis append_assoc)

lemma builds_name: "builds (comp_name a) {[a]}"
  unfolding builds_def
proof (intro allI impI)
  fix N :: "'a nfa" and s refs N' assume s: "s < length N" and f: "comp_name a s N = (refs, N')"
  from f obtain r where r: "add_edge s None (Some a) N = (r, N')" "refs = [r]"
    by (auto simp: comp_name_def split: prod.splits)
  note e = add_edge_spec [OF s r(1)]
  have "dangling N' refs = {(s, Some a)}" by (simp add: dangling_def r(2) e(1,6))
  moreover have "frag s {} {} {(s, Some a)} {[a]}" using frag_eps [of s "Some a"] by simp
  ultimately show "\<exists>V. built N s V refs N' {[a]}"
    unfolding built_def using e by (auto simp: r(2) fresh_refs_def)
qed

lemma builds_choice:
  assumes "list_all2 builds fs Ls"
  shows "builds (comp_choice fs) (\<Union> (set Ls))"
  using assms
proof (induction rule: list_all2_induct)
  case Nil
  have "built N s {} [] N {}" for N :: "'a nfa" and s
    unfolding built_def using frag_empty [of s] by (auto simp: fresh_refs_def dangling_def)
  then show ?case by (auto simp: builds_def)
next
  case (Cons f fs L Ls)
  show ?case
    unfolding builds_def
  proof (intro allI impI)
    fix N :: "'a nfa" and s refs N' assume s: "s < length N" and f: "comp_choice (f # fs) s N = (refs, N')"
    obtain r1 N1 where 1: "f s N = (r1, N1)" by fastforce
    obtain r2 N2 where 2: "comp_choice fs s N1 = (r2, N2)" by fastforce
    from buildsD [OF Cons.hyps(1) s 1] obtain V1 where V1: "built N s V1 r1 N1 L" ..
    have "s < length N1" using s built_length [OF V1] by simp
    from buildsD [OF Cons.IH this 2] obtain V2 where "built N1 s V2 r2 N2 (\<Union> (set Ls))" ..
    from built_choice [OF V1 this] have "built N s (V1 \<union> V2) (r1 @ r2) N2 (L \<union> \<Union> (set Ls))" .
    then show "\<exists>V. built N s V refs N' (\<Union> (set (L # Ls)))" using f 1 2 by auto
  qed
qed

lemma opened_builds:
  assumes "opened N s V N1 a L1" and "builds f L2" and "f a N1 = (refs, N2)" and "s < length N"
  obtains V' where "built N s (V \<union> V') refs N2 (conc_lang L1 L2)" and "built N1 a V' refs N2 L2"
proof -
  have "a < length N1" using assms(1) by (simp add: opened_def)
  from buildsD [OF assms(2) this assms(3)] obtain V' where V': "built N1 a V' refs N2 L2" ..
  with opened_build [OF assms(1) V' assms(4)] that show ?thesis by blast
qed

lemma opened_seq:
  assumes "list_all2 builds fs Ls" and "fs \<noteq> []" and "opened N s V N1 a L" and "s < length N"
    and "comp_seq fs a N1 = (refs, N2)"
  shows "\<exists>V'. built N s V' refs N2 (conc_lang L (foldr conc_lang Ls {[]}))"
  using assms
proof (induction fs a N1 arbitrary: V L Ls rule: comp_seq.induct)
  case (2 f a N1)
  then obtain Lf where Ls: "Ls = [Lf]" "builds f Lf" by (auto simp: list_all2_Cons1)
  from 2 have "f a N1 = (refs, N2)" by simp
  from opened_builds [OF "2.prems"(3) Ls(2) this "2.prems"(4)] show ?case using Ls(1) by auto
next
  case (3 f g fs a N1)
  then obtain Lf Ls' where Ls: "Ls = Lf # Ls'" "builds f Lf" "list_all2 builds (g # fs) Ls'"
    by (auto simp: list_all2_Cons1)
  obtain r N1' where r: "f a N1 = (r, N1')" by fastforce
  from opened_builds [OF "3.prems"(3) Ls(2) r "3.prems"(4)]
  obtain V' where V': "built N s (V \<union> V') r N1' (conc_lang L Lf)" by blast
  have len: "length N \<le> length N1'" using built_length [OF V'] .
  have "V \<union> V' \<subseteq> {length N..<length N1'}" using V' by (simp add: built_def)
  then have "length N1' \<notin> insert s (V \<union> V')" using len "3.prems"(4) by force
  with built_close [OF built_new_end [OF V'], of "length N1'"] len
  have o: "opened N s (insert (length N1') (V \<union> V')) (connect_edges r (length N1') (N1' @ [[]])) (length N1') (conc_lang L Lf)"
    by simp
  have "(length N1', N1' @ [[]]) = new_node N1'" by (simp add: new_node_def)
  from "3.IH" [OF r [symmetric] this Ls(3) _ o "3.prems"(4)] "3.prems"(5) r show ?case
    by (simp add: new_node_def Ls(1) conc_lang_assoc)
qed simp

lemma builds_seq:
  assumes "list_all2 builds fs Ls" and "fs \<noteq> []"
  shows "builds (comp_seq fs) (foldr conc_lang Ls {[]})"
  unfolding builds_def
proof (intro allI impI)
  fix N :: "'a nfa" and s refs N' assume s: "s < length N" and "comp_seq fs s N = (refs, N')"
  from opened_seq [OF assms opened_refl [OF s] s this(2)]
  show "\<exists>V. built N s V refs N' (foldr conc_lang Ls {[]})" by simp
qed

lemma builds_opt:
  assumes "builds f L"
  shows "builds (comp_opt f) (insert [] L)"
  unfolding builds_def
proof (intro allI impI)
  fix N :: "'a nfa" and s refs N' assume s: "s < length N" and f: "comp_opt f s N = (refs, N')"
  obtain x N1 where x: "add_edge s None None N = (x, N1)" by fastforce
  obtain r N2 where r: "f s N1 = (r, N2)" by fastforce
  have b: "built N s {} [x] N1 {[]}" by (rule opened_exit [OF opened_refl [OF s] x])
  have "s < length N1" using s built_length [OF b] by simp
  from buildsD [OF assms this r] obtain V where "built N1 s V r N2 L" ..
  from built_choice [OF b this] have "built N s V (x # r) N2 (insert [] L)" by simp
  then show "\<exists>V. built N s V refs N' (insert [] L)" using f x r by (auto simp: comp_opt_def)
qed

lemma builds_star:
  assumes "builds f L"
  shows "builds (comp_star f) (star_lang L)"
  unfolding builds_def
proof (intro allI impI)
  fix N :: "'a nfa" and s refs N' assume s: "s < length N" and f: "comp_star f s N = (refs, N')"
  let ?a = "length N"
  obtain x N2 where x: "add_edge s (Some ?a) None (N @ [[]]) = (x, N2)" by fastforce
  obtain r N3 where r: "f ?a N2 = (r, N3)" by fastforce
  obtain y N4 where y: "add_edge ?a None None (connect_edges r ?a N3) = (y, N4)" by fastforce
  have o: "opened N s {?a} N2 ?a {[]}" using opened_eps [OF opened_refl [OF s] x s] .
  from opened_builds [OF o assms r s] obtain V where "built N2 ?a V r N3 L" by blast
  from opened_loop [OF o _ this s y] have "built N s ({?a} \<union> V) [y] N4 (star_lang L)" by simp
  then show "\<exists>V. built N s V refs N' (star_lang L)"
    using f x r y by (auto simp: comp_star_def new_node_def)
qed

lemma builds_plus:
  assumes "builds f L"
  shows "builds (comp_plus f) (conc_lang L (star_lang L))"
  unfolding builds_def
proof (intro allI impI)
  fix N :: "'a nfa" and s refs N' assume s: "s < length N" and f: "comp_plus f s N = (refs, N')"
  let ?a = "length N"
  obtain r N2 where r: "f s (N @ [[]]) = (r, N2)" by fastforce
  obtain r' N3 where r': "f ?a (connect_edges r ?a N2) = (r', N3)" by fastforce
  obtain x N4 where x: "add_edge ?a None None (connect_edges r' ?a N3) = (x, N4)" by fastforce
  have "s < length (N @ [[]])" using s by simp
  from buildsD [OF assms this r] obtain V where V: "built (N @ [[]]) s V r N2 L" ..
  have "?a \<notin> insert s V" "?a < length N2"
    using V s built_length [OF V] by (auto simp: built_def)
  with built_close [OF built_new [OF V], of ?a]
  have o: "opened N s (insert ?a V) (connect_edges r ?a N2) ?a L" by simp
  from opened_builds [OF o assms r' s] obtain V' where "built (connect_edges r ?a N2) ?a V' r' N3 L" by blast
  from opened_loop [OF o _ this s x] have "\<exists>V. built N s V [x] N4 (conc_lang L (star_lang L))" by blast
  then show "\<exists>V. built N s V refs N' (conc_lang L (star_lang L))"
    using f r r' x by (auto simp: comp_plus_def new_node_def)
qed

section \<open>Ranges\<close>

definition word_power :: "'a list set \<Rightarrow> nat \<Rightarrow> 'a list set" where
  "word_power A k = {concat ws | ws. set ws \<subseteq> A \<and> length ws = k}"

definition word_upto :: "'a list set \<Rightarrow> nat \<Rightarrow> 'a list set" where
  "word_upto A k = {concat ws | ws. set ws \<subseteq> A \<and> length ws \<le> k}"

lemma word_power_0 [simp]: "word_power A 0 = {[]}"
  by (auto simp: word_power_def)

lemma word_power_Suc: "word_power A (Suc k) = conc_lang A (word_power A k)"
proof (intro equalityI subsetI)
  fix w assume "w \<in> word_power A (Suc k)"
  then obtain u ws where "w = u @ concat ws" "u \<in> A" "set ws \<subseteq> A" "length ws = k"
    by (auto simp: word_power_def length_Suc_conv)
  then show "w \<in> conc_lang A (word_power A k)" unfolding conc_lang_def word_power_def by blast
next
  fix w assume "w \<in> conc_lang A (word_power A k)"
  then obtain u ws where "w = concat (u # ws)" "set (u # ws) \<subseteq> A" "length (u # ws) = Suc k"
    by (auto simp: conc_lang_def word_power_def)
  then show "w \<in> word_power A (Suc k)" unfolding word_power_def by blast
qed

lemma word_upto_0 [simp]: "word_upto A 0 = {[]}"
  by (auto simp: word_upto_def)

lemma word_upto_Suc: "word_upto A (Suc k) = conc_lang (insert [] A) (word_upto A k)"
proof
  show "word_upto A (Suc k) \<subseteq> conc_lang (insert [] A) (word_upto A k)"
  proof
    fix w assume "w \<in> word_upto A (Suc k)"
    then obtain ws where ws: "w = concat ws" "set ws \<subseteq> A" "length ws \<le> Suc k" by (auto simp: word_upto_def)
    show "w \<in> conc_lang (insert [] A) (word_upto A k)"
    proof (cases ws)
      case Nil
      then show ?thesis using ws(1) unfolding conc_lang_def word_upto_def
        by (auto intro!: exI [of _ "[]"])
    next
      case (Cons u vs)
      then have "u \<in> insert [] A" "concat vs \<in> word_upto A k" using ws by (auto simp: word_upto_def)
      then show ?thesis using ws(1) Cons by (auto simp: conc_lang_def)
    qed
  qed
  show "conc_lang (insert [] A) (word_upto A k) \<subseteq> word_upto A (Suc k)"
  proof
    fix w assume "w \<in> conc_lang (insert [] A) (word_upto A k)"
    then obtain u ws where w: "w = u @ concat ws" "u \<in> insert [] A" "set ws \<subseteq> A" "length ws \<le> k"
      by (auto simp: conc_lang_def word_upto_def)
    show "w \<in> word_upto A (Suc k)"
    proof (cases "u \<in> A")
      case True
      then have "w = concat (u # ws) \<and> set (u # ws) \<subseteq> A \<and> length (u # ws) \<le> Suc k" using w by simp
      then show ?thesis unfolding word_upto_def by blast
    next
      case False
      then have "w = concat ws \<and> set ws \<subseteq> A \<and> length ws \<le> Suc k" using w by simp
      then show ?thesis unfolding word_upto_def by blast
    qed
  qed
qed

lemma conc_words:
  "conc_lang {concat ws | ws. set ws \<subseteq> A \<and> P (length ws)} {concat ws | ws. set ws \<subseteq> A \<and> Q (length ws)}
    = {concat ws | ws. set ws \<subseteq> A \<and> (\<exists>m n. length ws = m + n \<and> P m \<and> Q n)}"
proof (intro equalityI subsetI)
  fix w assume "w \<in> conc_lang {concat ws | ws. set ws \<subseteq> A \<and> P (length ws)} {concat ws | ws. set ws \<subseteq> A \<and> Q (length ws)}"
  then obtain us vs where u: "w = concat us @ concat vs" "set us \<subseteq> A" "set vs \<subseteq> A" "P (length us)" "Q (length vs)"
    unfolding conc_lang_def by blast
  then have "w = concat (us @ vs)" "set (us @ vs) \<subseteq> A" "length (us @ vs) = length us + length vs" by simp_all
  with u(4,5) show "w \<in> {concat ws | ws. set ws \<subseteq> A \<and> (\<exists>m n. length ws = m + n \<and> P m \<and> Q n)}" by blast
next
  fix w assume "w \<in> {concat ws | ws. set ws \<subseteq> A \<and> (\<exists>m n. length ws = m + n \<and> P m \<and> Q n)}"
  then obtain ws m n where ws: "w = concat ws" "set ws \<subseteq> A" "length ws = m + n" "P m" "Q n" by blast
  have "w = concat (take m ws) @ concat (drop m ws)" unfolding ws(1) concat_append [symmetric] by simp
  moreover have "set (take m ws) \<subseteq> A" "set (drop m ws) \<subseteq> A" using ws(2) set_take_subset set_drop_subset by fast+
  moreover have "P (length (take m ws))" "Q (length (drop m ws))" using ws(3-5) by simp_all
  ultimately show "w \<in> conc_lang {concat ws | ws. set ws \<subseteq> A \<and> P (length ws)} {concat ws | ws. set ws \<subseteq> A \<and> Q (length ws)}"
    unfolding conc_lang_def by blast
qed

lemma opened_copies:
  assumes "builds f L" and "s < length N" and "opened N s V N1 a L1" and "comp_copies f k a N1 = (b, N2)"
  shows "\<exists>V'. opened N s V' N2 b (conc_lang L1 (word_power L k)) \<and> (0 < k \<or> a \<in> V \<longrightarrow> b \<in> V')"
  using assms(3,4)
proof (induction k arbitrary: a N1 V L1)
  case (Suc k)
  let ?d = "length N1"
  obtain r N3 where r: "f a (N1 @ [[]]) = (r, N3)" by fastforce
  from opened_builds [OF opened_new [OF Suc.prems(1)] assms(1) r assms(2)]
  obtain V' where V': "built N s (V \<union> V') r N3 (conc_lang L1 L)" "built (N1 @ [[]]) a V' r N3 L" .
  have "?d \<notin> insert s (V \<union> V')" "length N \<le> ?d" "?d < length N3"
    using Suc.prems(1) opened_length [OF Suc.prems(1)] V'(2) built_length [OF V'(2)] assms(2)
    by (auto simp: opened_def built_def)
  with built_close [OF V'(1), of ?d]
  have o: "opened N s (insert ?d (V \<union> V')) (connect_edges r ?d N3) ?d (conc_lang L1 L)" by simp
  from Suc.IH [OF o] Suc.prems(2) r show ?case
    by (simp add: new_node_def word_power_Suc conc_lang_assoc)
qed auto

lemma opened_options:
  assumes "builds f L" and "s < length N" and "opened N s V N1 a L1" and "comp_options f k a N1 = (b, N2)"
  shows "\<exists>V'. opened N s V' N2 b (conc_lang L1 (word_upto L k))"
  using assms(3,4)
proof (induction k arbitrary: a N1 V L1)
  case (Suc k)
  let ?d = "length N1"
  obtain x N3 where x: "add_edge a (Some ?d) None (N1 @ [[]]) = (x, N3)" by fastforce
  obtain r N4 where r: "f a N3 = (r, N4)" by fastforce
  have "a < length (N1 @ [[]])" using Suc.prems(1) by (auto simp: opened_def)
  from add_edge_spec(2) [OF this x] this have "a < length N3" by simp
  from buildsD [OF assms(1) this r] obtain V' where V': "built N3 a V' r N4 L" ..
  note o = opened_option [OF Suc.prems(1) x V' assms(2)]
  from Suc.IH [OF o] Suc.prems(2) x r show ?case
    by (simp add: new_node_def word_upto_Suc conc_lang_assoc)
qed auto

lemma range_bounded:
  assumes "mx \<noteq> -1" and "-1 \<le> mx"
  shows "content_lang (RangeE mn mx e) = conc_lang (word_power (content_lang e) mn) (word_upto (content_lang e) (nat (mx - int mn)))"
proof -
  have "(\<exists>m n. k = m + n \<and> m = mn \<and> n \<le> nat (mx - int mn)) \<longleftrightarrow> mn \<le> k \<and> (mx = -1 \<or> int k \<le> max (int mn) mx)" for k
    using assms by (auto intro: exI [of _ "k - mn"])
  then show ?thesis
    unfolding word_power_def word_upto_def conc_words [of _ "\<lambda>n. n = mn" "\<lambda>n. n \<le> nat (mx - int mn)"] by simp
qed

lemma range_open:
  "content_lang (RangeE mn (-1) e) = conc_lang (word_power (content_lang e) mn) (star_lang (content_lang e))"
proof -
  have "(\<exists>m n. k = m + n \<and> m = mn \<and> True) \<longleftrightarrow> mn \<le> k" for k by (auto intro: exI [of _ "k - mn"])
  then show ?thesis
    using conc_words [of "content_lang e" "\<lambda>n. n = mn" "\<lambda>n. True"]
    unfolding word_power_def star_lang_def by simp
qed

lemma builds_range:
  assumes "builds f (content_lang e)" and "-1 \<le> mx" and "\<not> (mn = 0 \<and> mx = -1)"
  shows "builds (comp_range f mn mx) (content_lang (RangeE mn mx e))"
  unfolding builds_def
proof (intro allI impI)
  fix N :: "'a nfa" and s refs N' assume s: "s < length N" and f: "comp_range f mn mx s N = (refs, N')"
  let ?L = "content_lang e"
  obtain a N1 where a: "comp_copies f mn s N = (a, N1)" by fastforce
  from opened_copies [OF assms(1) s opened_refl [OF s] a]
  obtain V where V: "opened N s V N1 a (word_power ?L mn)" "0 < mn \<longrightarrow> a \<in> V" by auto
  show "\<exists>V. built N s V refs N' (content_lang (RangeE mn mx e))"
  proof (cases "mx = -1")
    case True
    obtain r N2 where r: "f a N1 = (r, N2)" by fastforce
    obtain x N3 where x: "add_edge a None None (connect_edges r a N2) = (x, N3)" by fastforce
    from opened_builds [OF V(1) assms(1) r s] obtain V' where "built N1 a V' r N2 ?L" by blast
    from opened_loop [OF V(1) _ this s x] V(2) assms(3) True
    have "built N s (V \<union> V') [x] N3 (content_lang (RangeE mn mx e))" by (simp add: range_open del: content_lang.simps)
    then show ?thesis using f a r x True by (auto simp: comp_range_def)
  next
    case False
    obtain b N2 where b: "comp_options f (nat (mx - int mn)) a N1 = (b, N2)" by fastforce
    obtain x N3 where x: "add_edge b None None N2 = (x, N3)" by fastforce
    from opened_options [OF assms(1) s V(1) b]
    obtain V' where "opened N s V' N2 b (content_lang (RangeE mn mx e))"
      by (auto simp: range_bounded [OF False assms(2)] simp del: content_lang.simps)
    from opened_exit [OF this x] show ?thesis using f a b x False by (auto simp: comp_range_def)
  qed
qed

section \<open>The automaton of an expression\<close>

lemma plus_lang: "content_lang (PlusE e) = conc_lang (content_lang e) (star_lang (content_lang e))"
proof (intro equalityI subsetI)
  fix w assume "w \<in> content_lang (PlusE e)"
  then obtain u ws where "w = u @ concat ws" "u \<in> content_lang e" "set ws \<subseteq> content_lang e"
    by (auto simp: neq_Nil_conv)
  then show "w \<in> conc_lang (content_lang e) (star_lang (content_lang e))"
    unfolding conc_lang_def star_lang_def by blast
next
  fix w assume "w \<in> conc_lang (content_lang e) (star_lang (content_lang e))"
  then obtain u ws where "w = concat (u # ws)" "set (u # ws) \<subseteq> content_lang e" "u # ws \<noteq> []"
    by (auto simp: conc_lang_def star_lang_def)
  then show "w \<in> content_lang (PlusE e)" unfolding content_lang.simps by blast
qed

lemma builds_compile: "content_expr_ok e \<Longrightarrow> builds (compile_expr e) (content_lang e)"
proof (induction e)
  case (ChoiceE es)
  then have "list_all2 builds (map compile_expr es) (map content_lang es)"
    by (simp add: list_all2_conv_all_nth list_all_length)
  from builds_choice [OF this] show ?case by simp
next
  case (SeqE es)
  then have "list_all2 builds (map compile_expr es) (map content_lang es)"
    by (simp add: list_all2_conv_all_nth list_all_length)
  from builds_seq [OF this] SeqE show ?case by simp
next
  case (RangeE mn mx e)
  then show ?case using builds_range [of "compile_expr e" e mx mn] by simp
qed (auto simp: plus_lang builds_star builds_plus builds_opt builds_name simp del: content_lang.simps(3))

definition nfa_accepts :: "'a nfa \<Rightarrow> 'a list \<Rightarrow> bool" where
  "nfa_accepts M w \<longleftrightarrow> run (nfa_edges M) 0 w (length M - 1)"

lemma content_nfa_language:
  assumes "content_expr_ok e"
  shows "content_lang e = {w. nfa_accepts (content_nfa e) w}" and "pending (content_nfa e) = {}"
    and "1 < length (content_nfa e)" and "\<forall>t q. (length (content_nfa e) - 1, t, q) \<notin> nfa_edges (content_nfa e)"
    and "\<forall>p t q. (p, t, q) \<in> nfa_edges (content_nfa e) \<longrightarrow> q < length (content_nfa e)"
proof -
  let ?N0 = "[[]] :: 'a nfa"
  obtain refs N where c: "compile_expr e 0 ?N0 = (refs, N)" by fastforce
  have "0 < length ?N0" by simp
  from buildsD [OF builds_compile [OF assms] this c] obtain V where V: "built ?N0 0 V refs N (content_lang e)" ..
  let ?q = "length N"
  have q: "length ?N0 \<le> ?q" "?q < length (N @ [[]])" "?q \<notin> insert 0 V"
    using built_length [OF V] V by (auto simp: built_def simp flip: length_greater_0_conv)
  note o = built_close [OF built_new_end [OF V] q]
  have M: "content_nfa e = connect_edges refs ?q (N @ [[]])" by (simp add: content_nfa_def c new_node_def)
  note k = built_connect [OF built_new_end [OF V], of ?q]
  have len: "length (content_nfa e) = Suc ?q" unfolding M k(2) by simp
  have e0: "nfa_edges ?N0 = {}" "pending ?N0 = {}" by (auto simp: nfa_edges_def pending_def)
  have oe: "open_end 0 (insert ?q V) (nfa_edges (content_nfa e)) ?q (content_lang e)"
    using o unfolding M opened_def e0 by auto
  then show "content_lang e = {w. nfa_accepts (content_nfa e) w}"
    unfolding open_end_def nfa_accepts_def len by simp
  show "pending (content_nfa e) = {}" unfolding M k(3) e0 ..
  show "1 < length (content_nfa e)" using len q(1) by (cases N) auto
  show "\<forall>t q. (length (content_nfa e) - 1, t, q) \<notin> nfa_edges (content_nfa e)"
    using oe unfolding open_end_def len by auto
  have "edges_within 0 (insert ?q V) (nfa_edges (content_nfa e))" using oe by (simp add: open_end_def)
  moreover have "insert ?q V \<subseteq> {..<length (content_nfa e)}" using V unfolding len by (auto simp: built_def)
  ultimately show "\<forall>p t q. (p, t, q) \<in> nfa_edges (content_nfa e) \<longrightarrow> q < length (content_nfa e)"
    unfolding edges_within_def by blast
qed

end
