(* ===== verification/Content_Match.thy ===== *)
theory Content_Match
  imports Content_Nfa
begin

text \<open>
  Content matches of the document schema
  (\<open>public/js/filament/forms/components/rich-editor.js\<close>, the class \<open>Nt\<close>): the nodes that \<open>rc\<close>
  reaches without a term, the deterministic automaton that \<open>dm\<close> makes of \<open>cm\<close>'s, and the walk of
  \<open>matchType\<close> and \<open>matchFragment\<close>. Content matches are a store in the order of their creation, a
  match being its place there; with each goes the list of nodes that is its key. Both recursions of
  the script are given fuel, and are shown to need no more than they have.
\<close>

section \<open>Nodes reached without a term\<close>

definition single_eps :: "'a nfa \<Rightarrow> nat \<Rightarrow> bool" where
  "single_eps M p \<longleftrightarrow> length (M ! p) = 1 \<and> fst (M ! p ! 0) = None"

text \<open>\<open>g\<close> is the recursive call; an edge that leads nowhere makes the script fail.\<close>

fun visit_edges :: "(nat \<Rightarrow> nat list \<Rightarrow> nat list option) \<Rightarrow> ('a option \<times> nat option) list \<Rightarrow> nat list \<Rightarrow> nat list option" where
  "visit_edges g [] n = Some n"
| "visit_edges g ((Some t, q) # es) n = visit_edges g es n"
| "visit_edges g ((None, None) # es) n = None"
| "visit_edges g ((None, Some q) # es) n =
     (if q \<in> set n then visit_edges g es n
      else (case g q n of None \<Rightarrow> None | Some n' \<Rightarrow> visit_edges g es n'))"

primrec null_visit :: "nat \<Rightarrow> 'a nfa \<Rightarrow> nat \<Rightarrow> nat list \<Rightarrow> nat list option" where
  "null_visit 0 M p n = None"
| "null_visit (Suc k) M p n =
     (if single_eps M p
      then (case snd (M ! p ! 0) of None \<Rightarrow> None | Some q \<Rightarrow> null_visit k M q n)
      else visit_edges (null_visit k M) (M ! p) (n @ [p]))"

text \<open>\<open>sort(wc)\<close>: the greatest node first.\<close>

definition sort_nodes :: "nat list \<Rightarrow> nat list" where
  "sort_nodes ls = rev (sort ls)"

lemma sort_nodes_facts [simp]:
  "set (sort_nodes ls) = set ls" "sorted (rev (sort_nodes ls))" "distinct (sort_nodes ls) = distinct ls"
  by (simp_all add: sort_nodes_def)

text \<open>
  \<open>rc\<close>. On a stack of calls that ends, no node occurs twice with the same nodes found so far, so a
  depth of the square of the number of nodes is only passed by a recursion without end.
\<close>

definition null_from :: "'a nfa \<Rightarrow> nat \<Rightarrow> nat list option" where
  "null_from M p = map_option sort_nodes (null_visit (Suc (length M) * Suc (length M)) M p [])"

section \<open>The content matches\<close>

text \<open>The node lists by type, as \<open>dm\<close> collects them.\<close>

fun add_label :: "'a \<Rightarrow> nat \<Rightarrow> ('a \<times> nat list) list \<Rightarrow> ('a \<times> nat list) list" where
  "add_label a d [] = [(a, [d])]"
| "add_label a d ((b, ls) # ys) =
     (if b = a then (b, if d \<in> set ls then ls else ls @ [d]) # ys else (b, ls) # add_label a d ys)"

fun collect_edges :: "'a nfa \<Rightarrow> ('a option \<times> nat option) list \<Rightarrow> ('a \<times> nat list) list \<Rightarrow> ('a \<times> nat list) list option" where
  "collect_edges M [] ys = Some ys"
| "collect_edges M ((None, q) # es) ys = collect_edges M es ys"
| "collect_edges M ((Some a, None) # es) ys = None"
| "collect_edges M ((Some a, Some q) # es) ys =
     (case null_from M q of None \<Rightarrow> None | Some ds \<Rightarrow> collect_edges M es (fold (add_label a) ds ys))"

fun collect_nodes :: "'a nfa \<Rightarrow> nat list \<Rightarrow> ('a \<times> nat list) list \<Rightarrow> ('a \<times> nat list) list option" where
  "collect_nodes M [] ys = Some ys"
| "collect_nodes M (p # ps) ys =
     (case collect_edges M (M ! p) ys of None \<Rightarrow> None | Some ys' \<Rightarrow> collect_nodes M ps ys')"

record 'a content_match =
  match_label :: "nat list"
  valid_end :: bool
  match_next :: "('a \<times> nat) list"

text \<open>The match that has a key, and the edge that is pushed onto one.\<close>

fun match_at :: "nat list \<Rightarrow> 'a content_match list \<Rightarrow> nat option" where
  "match_at l [] = None"
| "match_at l (c # S) = (if match_label c = l then Some 0 else map_option Suc (match_at l S))"

definition push_next :: "nat \<Rightarrow> 'a \<Rightarrow> nat \<Rightarrow> 'a content_match list \<Rightarrow> 'a content_match list" where
  "push_next i a j S = S[i := (S ! i)\<lparr>match_next := match_next (S ! i) @ [(a, j)]\<rparr>]"

fun next_edges :: "(nat list \<Rightarrow> 'a content_match list \<Rightarrow> 'a content_match list option) \<Rightarrow> nat
    \<Rightarrow> ('a \<times> nat list) list \<Rightarrow> 'a content_match list \<Rightarrow> 'a content_match list option" where
  "next_edges g i [] S = Some S"
| "next_edges g i ((a, ls) # ys) S =
     (case match_at (sort_nodes ls) S of
        Some j \<Rightarrow> next_edges g i ys (push_next i a j S)
      | None \<Rightarrow> (case g (sort_nodes ls) S of
          None \<Rightarrow> None
        | Some S' \<Rightarrow> next_edges g i ys (push_next i a (length S) S')))"

primrec explore :: "nat \<Rightarrow> 'a nfa \<Rightarrow> nat list \<Rightarrow> 'a content_match list \<Rightarrow> 'a content_match list option" where
  "explore 0 M r S = None"
| "explore (Suc k) M r S =
     (case collect_nodes M r [] of
        None \<Rightarrow> None
      | Some ys \<Rightarrow> next_edges (explore k M) (length S) ys
          (S @ [\<lparr>match_label = r, valid_end = (length M - 1 \<in> set r), match_next = []\<rparr>]))"

text \<open>\<open>dm\<close>: a match for every sorted list of nodes at most, beside the first.\<close>

definition content_dfa :: "'a nfa \<Rightarrow> 'a content_match list option" where
  "content_dfa M = (case null_from M 0 of None \<Rightarrow> None | Some r \<Rightarrow> explore (Suc (2 ^ length M)) M r [])"

text \<open>\<open>matchType\<close> and \<open>matchFragment\<close>.\<close>

definition match_type :: "'a content_match list \<Rightarrow> nat \<Rightarrow> 'a \<Rightarrow> nat option" where
  "match_type S i a = map_of (match_next (S ! i)) a"

fun match_fragment :: "'a content_match list \<Rightarrow> nat \<Rightarrow> 'a list \<Rightarrow> nat option" where
  "match_fragment S i [] = Some i"
| "match_fragment S i (a # w) = (case match_type S i a of None \<Rightarrow> None | Some j \<Rightarrow> match_fragment S j w)"

definition match_valid :: "'a content_match list \<Rightarrow> 'a list \<Rightarrow> bool" where
  "match_valid S w = (case match_fragment S 0 w of None \<Rightarrow> False | Some i \<Rightarrow> valid_end (S ! i))"

section \<open>What \<open>rc\<close> finds\<close>

inductive leads_to :: "'a nfa \<Rightarrow> nat \<Rightarrow> nat \<Rightarrow> bool" for M where
  "\<not> single_eps M p \<Longrightarrow> leads_to M p p"
| "\<lbrakk>single_eps M p; snd (M ! p ! 0) = Some q; leads_to M q c\<rbrakk> \<Longrightarrow> leads_to M p c"

definition covered :: "'a nfa \<Rightarrow> nat list \<Rightarrow> nat \<Rightarrow> bool" where
  "covered M n q \<longleftrightarrow> (\<exists>c. leads_to M q c \<and> c \<in> set n)"

definition eps_run :: "'a nfa \<Rightarrow> nat \<Rightarrow> nat \<Rightarrow> bool" where
  "eps_run M p q \<longleftrightarrow> (p, q) \<in> {(p, q). p < length M \<and> (None, Some q) \<in> set (M ! p)}\<^sup>*"

lemma covered_mono: "\<lbrakk>covered M n q; set n \<subseteq> set n'\<rbrakk> \<Longrightarrow> covered M n' q"
  by (auto simp: covered_def)

text \<open>What a visit adds: nodes reached from \<open>Q\<close>, with what they lead to.\<close>

definition found_by :: "'a nfa \<Rightarrow> nat set \<Rightarrow> nat list \<Rightarrow> nat \<Rightarrow> bool" where
  "found_by M Q n x \<longleftrightarrow> \<not> single_eps M x \<and> x < length M \<and> (\<exists>q \<in> Q. eps_run M q x)
     \<and> (\<forall>q. (None, Some q) \<in> set (M ! x) \<longrightarrow> covered M n q)"

lemma found_by_mono: "\<lbrakk>found_by M Q n x; Q \<subseteq> Q'; set n \<subseteq> set n'\<rbrakk> \<Longrightarrow> found_by M Q' n' x"
  unfolding found_by_def using covered_mono by blast

definition visit_adds :: "'a nfa \<Rightarrow> nat set \<Rightarrow> nat list \<Rightarrow> nat list \<Rightarrow> bool" where
  "visit_adds M Q n n' \<longleftrightarrow> set n \<subseteq> set n' \<and> (\<forall>q \<in> Q. covered M n' q)
     \<and> (\<forall>x \<in> set n'. x \<in> set n \<or> found_by M Q n' x)"

definition stays_inside :: "'a nfa \<Rightarrow> bool" where
  "stays_inside M \<longleftrightarrow> (\<forall>es \<in> set M. \<forall>t q. (t, Some q) \<in> set es \<longrightarrow> q < length M)"

lemma stays_insideD: "\<lbrakk>stays_inside M; p < length M; (t, Some q) \<in> set (M ! p)\<rbrakk> \<Longrightarrow> q < length M"
  unfolding stays_inside_def by (meson nth_mem)

lemma visit_adds_trans:
  assumes "visit_adds M Q1 n n1" and "visit_adds M Q2 n1 n2"
  shows "visit_adds M (Q1 \<union> Q2) n n2"
  unfolding visit_adds_def
proof (intro conjI ballI)
  show "set n \<subseteq> set n2" using assms by (auto simp: visit_adds_def)
  fix q assume "q \<in> Q1 \<union> Q2"
  then show "covered M n2 q" using assms covered_mono unfolding visit_adds_def by blast
next
  fix x assume "x \<in> set n2"
  with assms(2) consider "x \<in> set n1" | "found_by M Q2 n2 x" unfolding visit_adds_def by blast
  then show "x \<in> set n \<or> found_by M (Q1 \<union> Q2) n2 x"
  proof cases
    case 1
    with assms found_by_mono [of M Q1 n1 x "Q1 \<union> Q2" n2] show ?thesis unfolding visit_adds_def by blast
  next
    case 2
    with found_by_mono [of M Q2 n2 x "Q1 \<union> Q2" n2] show ?thesis by blast
  qed
qed

lemma visit_adds_refl: "(\<forall>q \<in> Q. covered M n q) \<Longrightarrow> visit_adds M Q n n"
  by (simp add: visit_adds_def)

definition visits :: "'a nfa \<Rightarrow> (nat \<Rightarrow> nat list \<Rightarrow> nat list option) \<Rightarrow> bool" where
  "visits M g \<longleftrightarrow> (\<forall>q n n'. q < length M \<longrightarrow> (\<forall>x \<in> set n. \<not> single_eps M x) \<longrightarrow> g q n = Some n' \<longrightarrow> visit_adds M {q} n n')"

lemma visit_adds_multi:
  assumes "visit_adds M Q n n'" and "\<forall>x \<in> set n. \<not> single_eps M x"
  shows "\<forall>x \<in> set n'. \<not> single_eps M x"
  using assms unfolding visit_adds_def found_by_def by blast

lemma visit_edges_adds:
  assumes g: "visits M g" and "visit_edges g es n = Some n'" and "\<forall>q. (None, Some q) \<in> set es \<longrightarrow> q < length M"
    and "\<forall>x \<in> set n. \<not> single_eps M x"
  shows "visit_adds M {q. (None, Some q) \<in> set es} n n'"
  using assms(2-)
proof (induction es arbitrary: n)
  case Nil
  then show ?case by (simp add: visit_adds_def)
next
  case (Cons e es)
  obtain t q where e: "e = (t, q)" by (cases e)
  show ?case
  proof (cases t)
    case (Some a)
    then show ?thesis using Cons e by simp
  next
    case None
    with Cons.prems(1) e obtain r where q: "q = Some r" by (cases q) auto
    have "\<exists>n1. visit_adds M {r} n n1 \<and> visit_edges g es n1 = Some n'"
    proof (cases "r \<in> set n")
      case True
      then have "covered M n r" using Cons.prems(3) by (auto simp: covered_def intro: leads_to.intros)
      with True show ?thesis using Cons.prems(1) e None q visit_adds_refl [of "{r}"] by auto
    next
      case False
      then obtain n1 where "g r n = Some n1" "visit_edges g es n1 = Some n'"
        using Cons.prems(1) e None q by (auto split: option.splits)
      moreover have "r < length M" using Cons.prems(2) e None q by auto
      ultimately show ?thesis using g [unfolded visits_def, rule_format, of r n n1] Cons.prems(3) by blast
    qed
    then obtain n1 where n1: "visit_adds M {r} n n1" "visit_edges g es n1 = Some n'" by blast
    have "visit_adds M {q. (None, Some q) \<in> set es} n1 n'"
      using Cons.IH [OF n1(2)] Cons.prems(2) visit_adds_multi [OF n1(1) Cons.prems(3)] by simp
    moreover have "{q. (None, Some q) \<in> set (e # es)} = {r} \<union> {q. (None, Some q) \<in> set es}" using e None q by auto
    ultimately show ?thesis using visit_adds_trans [OF n1(1)] by simp
  qed
qed

lemma eps_run_step: "\<lbrakk>p < length M; (None, Some q) \<in> set (M ! p); eps_run M q x\<rbrakk> \<Longrightarrow> eps_run M p x"
  unfolding eps_run_def by (rule converse_rtrancl_into_rtrancl) auto

lemma single_eps_edges: "\<lbrakk>single_eps M p; snd (M ! p ! 0) = q\<rbrakk> \<Longrightarrow> M ! p = [(None, q)]"
  unfolding single_eps_def by (cases "M ! p") auto

lemma null_visit_visits:
  assumes "stays_inside M"
  shows "visits M (null_visit k M)"
proof (induction k)
  case (Suc k)
  show ?case
    unfolding visits_def
  proof (intro allI impI)
    fix p n n' assume p: "p < length M" and n: "\<forall>x \<in> set n. \<not> single_eps M x" and v: "null_visit (Suc k) M p n = Some n'"
    show "visit_adds M {p} n n'"
    proof (cases "single_eps M p")
      case True
      with v obtain q where q: "snd (M ! p ! 0) = Some q" "null_visit k M q n = Some n'" by (auto split: option.splits)
      have e: "(None, Some q) \<in> set (M ! p)" using single_eps_edges [OF True q(1)] by simp
      have "visit_adds M {q} n n'" using Suc.IH stays_insideD [OF assms p e] n q(2) unfolding visits_def by blast
      moreover have "covered M n' p" if "covered M n' q"
        using that leads_to.intros(2) [OF True q(1)] unfolding covered_def by blast
      moreover have "found_by M {p} n' x" if "found_by M {q} n' x" for x
        using that eps_run_step [OF p e] unfolding found_by_def by blast
      ultimately show ?thesis unfolding visit_adds_def by blast
    next
      case False
      then have v: "visit_edges (null_visit k M) (M ! p) (n @ [p]) = Some n'" using v by simp
      have "\<forall>q. (None, Some q) \<in> set (M ! p) \<longrightarrow> q < length M" using stays_insideD [OF assms p] by blast
      from visit_edges_adds [OF Suc.IH v this] n False
      have a: "visit_adds M {q. (None, Some q) \<in> set (M ! p)} (n @ [p]) n'" by simp
      have "covered M n' p" using a leads_to.intros(1) [OF False] by (auto simp: visit_adds_def covered_def)
      moreover have "found_by M {p} n' x" if "found_by M {q. (None, Some q) \<in> set (M ! p)} n' x" for x
        using that eps_run_step [OF p] unfolding found_by_def by blast
      moreover have "found_by M {p} n' p"
        using a p False unfolding found_by_def visit_adds_def by (simp add: eps_run_def)
      ultimately show ?thesis using a unfolding visit_adds_def by auto
    qed
  qed
qed (simp add: visits_def)

text \<open>The nodes that \<open>rc\<close> finds are those that a run without a term reaches, the nodes with one such edge only left out.\<close>

lemma leads_to_det: "\<lbrakk>leads_to M p c; \<not> single_eps M p\<rbrakk> \<Longrightarrow> c = p"
  by (cases rule: leads_to.cases) auto

lemma covered_reach:
  assumes "eps_run M p q" and "\<not> single_eps M q" and "covered M n p"
    and "\<forall>x \<in> set n. \<forall>q. (None, Some q) \<in> set (M ! x) \<longrightarrow> covered M n q"
  shows "q \<in> set n"
  using assms(1,3) unfolding eps_run_def
proof (induction rule: converse_rtrancl_induct)
  case base
  then show ?case using leads_to_det [OF _ assms(2)] by (auto simp: covered_def)
next
  case (step p r)
  then have e: "(None, Some r) \<in> set (M ! p)" by simp
  have "covered M n r"
  proof (cases "single_eps M p")
    case True
    with step.prems obtain c where c: "leads_to M p c" "c \<in> set n" by (auto simp: covered_def)
    from c(1) True obtain q' where q': "snd (M ! p ! 0) = Some q'" "leads_to M q' c" by (auto elim: leads_to.cases)
    then have "q' = r" using single_eps_edges [OF True] e by auto
    with q' c(2) show ?thesis by (auto simp: covered_def)
  next
    case False
    then have "p \<in> set n" using step.prems leads_to_det by (auto simp: covered_def)
    with assms(4) e show ?thesis by blast
  qed
  then show ?case by (rule step.IH)
qed

definition closure_of :: "'a nfa \<Rightarrow> nat \<Rightarrow> nat set" where
  "closure_of M p = {q. eps_run M p q \<and> \<not> single_eps M q}"

lemma closure_inside:
  assumes "stays_inside M" and "p < length M"
  shows "closure_of M p \<subseteq> {..<length M}"
proof
  fix x assume "x \<in> closure_of M p"
  then have "(p, x) \<in> {(p, q). p < length M \<and> (None, Some q) \<in> set (M ! p)}\<^sup>*" by (simp add: closure_of_def eps_run_def)
  then show "x \<in> {..<length M}" using assms stays_insideD [OF assms(1)] by (cases rule: rtrancl.cases) auto
qed

lemma null_from_set:
  assumes "stays_inside M" and "p < length M" and "null_from M p = Some r"
  shows "set r = closure_of M p" and "sorted (rev r)" and "r \<noteq> []" and "set r \<subseteq> {..<length M}"
proof -
  obtain n where n: "null_visit (Suc (length M) * Suc (length M)) M p [] = Some n" "r = sort_nodes n"
    using assms(3) by (auto simp: null_from_def)
  have a: "visit_adds M {p} [] n"
    using null_visit_visits [OF assms(1), unfolded visits_def, rule_format, OF assms(2) _ n(1)] by simp
  have "closure_of M p \<subseteq> set n"
    using covered_reach [of M p _ n] a unfolding closure_of_def visit_adds_def found_by_def by auto
  moreover have "set n \<subseteq> closure_of M p" using a unfolding closure_of_def visit_adds_def found_by_def by auto
  ultimately show "set r = closure_of M p" using n(2) by simp
  show "sorted (rev r)" using n(2) by simp
  have "covered M n p" using a by (simp add: visit_adds_def)
  then have "set n \<noteq> {}" by (auto simp: covered_def)
  then have "set r \<noteq> {}" using n(2) by simp
  then show "r \<noteq> []" by auto
  show "set r \<subseteq> {..<length M}" using a n(2) by (auto simp: visit_adds_def found_by_def)
qed

section \<open>What \<open>dm\<close> collects\<close>

definition labels_of :: "('a \<times> nat list) list \<Rightarrow> 'a \<Rightarrow> nat set" where
  "labels_of ys a = (case map_of ys a of None \<Rightarrow> {} | Some ls \<Rightarrow> set ls)"

definition labels_ok :: "('a \<times> nat list) list \<Rightarrow> bool" where
  "labels_ok ys \<longleftrightarrow> distinct (map fst ys) \<and> (\<forall>(a, ls) \<in> set ys. distinct ls \<and> ls \<noteq> [])"

lemma add_label_keys: "fst ` set (add_label a d ys) = insert a (fst ` set ys)"
  by (induction a d ys rule: add_label.induct) auto

lemma add_label_ok: "labels_ok ys \<Longrightarrow> labels_ok (add_label a d ys)"
proof (induction a d ys rule: add_label.induct)
  case (2 a d b ls ys)
  show ?case
  proof (cases "b = a")
    case True
    then show ?thesis using 2 by (auto simp: labels_ok_def)
  next
    case False
    have "labels_ok ys" using 2 by (simp add: labels_ok_def)
    from "2.IH" [OF False this] "2.prems" False show ?thesis
      by (auto simp: labels_ok_def add_label_keys)
  qed
qed (simp add: labels_ok_def)

lemma labels_of_simps [simp]:
  "labels_of [] a = {}" "labels_of ((b, ls) # ys) a = (if b = a then set ls else labels_of ys a)"
  by (simp_all add: labels_of_def)

lemma labels_of_add: "labels_of (add_label a d ys) b = labels_of ys b \<union> (if b = a then {d} else {})"
proof (induction ys)
  case (Cons y ys)
  obtain c ls where y: "y = (c, ls)" by (cases y)
  show ?case
  proof (cases "c = a")
    case True
    then show ?thesis unfolding y by auto
  next
    case False
    then show ?thesis unfolding y using Cons by (cases "b = c") auto
  qed
qed simp

lemma fold_labels:
  "labels_ok ys \<Longrightarrow> labels_ok (fold (add_label a) ds ys)
     \<and> labels_of (fold (add_label a) ds ys) b = labels_of ys b \<union> (if b = a then set ds else {})"
  by (induction ds arbitrary: ys) (auto simp: add_label_ok labels_of_add)

lemma collect_edges_labels:
  assumes "stays_inside M" and "\<forall>t q. (t, Some q) \<in> set es \<longrightarrow> q < length M"
    and "labels_ok ys" and "collect_edges M es ys = Some ys'"
  shows "labels_ok ys' \<and> labels_of ys' b = labels_of ys b \<union> {x. \<exists>q. (Some b, Some q) \<in> set es \<and> x \<in> closure_of M q}"
  using assms(2-)
proof (induction es arbitrary: ys)
  case (Cons e es)
  consider q where "e = (None, q)" | a where "e = (Some a, None)" | a q where "e = (Some a, Some q)"
    by (cases e; cases "fst e"; cases "snd e") auto
  then show ?case
  proof cases
    case 3
    then obtain ds where ds: "null_from M q = Some ds" "collect_edges M es (fold (add_label a) ds ys) = Some ys'"
      using Cons.prems(3) by (auto split: option.splits)
    have "q < length M" using Cons.prems(1) 3 by auto
    from null_from_set(1) [OF assms(1) this ds(1)] have cl: "set ds = closure_of M q" .
    have f: "labels_ok (fold (add_label a) ds ys)"
      "labels_of (fold (add_label a) ds ys) b = labels_of ys b \<union> (if b = a then closure_of M q else {})"
      using fold_labels [OF Cons.prems(2), of a ds] unfolding cl by blast+
    have "labels_ok ys' \<and> labels_of ys' b = labels_of (fold (add_label a) ds ys) b
        \<union> {x. \<exists>q. (Some b, Some q) \<in> set es \<and> x \<in> closure_of M q}"
      using Cons.IH [OF _ f(1) ds(2)] Cons.prems(1) by simp
    then show ?thesis unfolding f(2) 3 by auto
  qed (use Cons in \<open>simp_all\<close>)
qed simp

lemma collect_nodes_labels:
  assumes "stays_inside M" and "set ps \<subseteq> {..<length M}" and "labels_ok ys" and "collect_nodes M ps ys = Some ys'"
  shows "labels_ok ys' \<and> labels_of ys' b =
    labels_of ys b \<union> {x. \<exists>p \<in> set ps. \<exists>q. (Some b, Some q) \<in> set (M ! p) \<and> x \<in> closure_of M q}"
  using assms(2-)
proof (induction ps arbitrary: ys)
  case (Cons p ps)
  then obtain ys1 where y: "collect_edges M (M ! p) ys = Some ys1" "collect_nodes M ps ys1 = Some ys'"
    by (auto split: option.splits)
  have "\<forall>t q. (t, Some q) \<in> set (M ! p) \<longrightarrow> q < length M" using stays_insideD [OF assms(1)] Cons.prems(1) by auto
  note e = collect_edges_labels [OF assms(1) this Cons.prems(2) y(1), of b]
  from Cons.IH [OF _ _ y(2)] Cons.prems(1) e
  have "labels_ok ys' \<and> labels_of ys' b = labels_of ys1 b
      \<union> {x. \<exists>p \<in> set ps. \<exists>q. (Some b, Some q) \<in> set (M ! p) \<and> x \<in> closure_of M q}" by simp
  with e show ?case by auto
qed simp

section \<open>What \<open>dm\<close> builds\<close>

definition edges_match :: "'a content_match list \<Rightarrow> ('a \<times> nat list) list \<Rightarrow> ('a \<times> nat) list \<Rightarrow> bool" where
  "edges_match S ys xs \<longleftrightarrow>
     list_all2 (\<lambda>(a, ls) (b, j). a = b \<and> j < length S \<and> match_label (S ! j) = sort_nodes ls) ys xs"

definition complete_match :: "'a nfa \<Rightarrow> 'a content_match list \<Rightarrow> 'a content_match \<Rightarrow> bool" where
  "complete_match M S c \<longleftrightarrow> (\<exists>ys. collect_nodes M (match_label c) [] = Some ys
     \<and> valid_end c = (length M - 1 \<in> set (match_label c)) \<and> edges_match S ys (match_next c))"

text \<open>From \<open>S\<close> to \<open>S'\<close>, keys and ends stay, and so do the edges of every match but those of \<open>A\<close>; new matches are complete.\<close>

definition grows :: "'a nfa \<Rightarrow> nat set \<Rightarrow> 'a content_match list \<Rightarrow> 'a content_match list \<Rightarrow> bool" where
  "grows M A S S' \<longleftrightarrow> length S \<le> length S'
     \<and> (\<forall>j < length S. match_label (S' ! j) = match_label (S ! j) \<and> valid_end (S' ! j) = valid_end (S ! j))
     \<and> (\<forall>j < length S. j \<notin> A \<longrightarrow> S' ! j = S ! j)
     \<and> (\<forall>j < length S'. length S \<le> j \<longrightarrow> complete_match M S' (S' ! j))"

lemma edges_match_mono: "\<lbrakk>edges_match S ys xs; grows M A S S'\<rbrakk> \<Longrightarrow> edges_match S' ys xs"
  unfolding edges_match_def grows_def by (auto elim!: list_all2_mono)

lemma complete_match_mono: "\<lbrakk>complete_match M S c; grows M A S S'\<rbrakk> \<Longrightarrow> complete_match M S' c"
  unfolding complete_match_def using edges_match_mono by blast

lemma grows_trans:
  assumes "grows M A S S1" and "grows M A S1 S2" and "\<forall>j \<in> A. j < length S"
  shows "grows M A S S2"
proof -
  have len: "length S \<le> length S1" "length S1 \<le> length S2" using assms(1,2) by (auto simp: grows_def)
  have "complete_match M S2 (S2 ! j)" if "j < length S2" "length S \<le> j" for j
  proof (cases "j < length S1")
    case True
    have "j \<notin> A" using assms(3) that by auto
    with True have "S2 ! j = S1 ! j" using assms(2) by (simp add: grows_def)
    moreover have "complete_match M S1 (S1 ! j)" using assms(1) True that by (auto simp: grows_def)
    ultimately show ?thesis using complete_match_mono assms(2) by fastforce
  qed (use assms(2) that in \<open>auto simp: grows_def\<close>)
  then show ?thesis using assms(1,2) len unfolding grows_def by auto
qed

lemma grows_push: "i < length S \<Longrightarrow> grows M {i} S (push_next i a j S)"
  by (auto simp: grows_def push_next_def nth_list_update)

lemma grows_weaken: "\<lbrakk>grows M {} S S'\<rbrakk> \<Longrightarrow> grows M A S S'"
  by (simp add: grows_def)

lemma match_at_Some: "match_at l S = Some j \<Longrightarrow> j < length S \<and> match_label (S ! j) = l"
  by (induction S arbitrary: j) (auto split: if_splits)

lemma match_at_None: "match_at l S = None \<longleftrightarrow> l \<notin> match_label ` set S"
  by (induction S) auto

definition explores :: "'a nfa \<Rightarrow> (nat list \<Rightarrow> 'a content_match list \<Rightarrow> 'a content_match list option) \<Rightarrow> bool" where
  "explores M g \<longleftrightarrow> (\<forall>r S S'. g r S = Some S' \<longrightarrow>
     grows M {} S S' \<and> length S < length S' \<and> match_label (S' ! length S) = r)"

lemma next_edges_grows:
  assumes g: "explores M g" and "next_edges g i ys S = Some S'" and "i < length S"
  shows "grows M {i} S S' \<and> (\<exists>xs. match_next (S' ! i) = match_next (S ! i) @ xs \<and> edges_match S' ys xs)"
  using assms(2,3)
proof (induction ys arbitrary: S)
  case Nil
  then show ?case by (auto simp: grows_def edges_match_def)
next
  case (Cons y ys)
  obtain a ls where y: "y = (a, ls)" by (cases y)
  have "\<exists>j S1. grows M {} S S1 \<and> j < length S1 \<and> match_label (S1 ! j) = sort_nodes ls
      \<and> next_edges g i ys (push_next i a j S1) = Some S'"
  proof (cases "match_at (sort_nodes ls) S")
    case None
    then obtain S1 where "g (sort_nodes ls) S = Some S1" "next_edges g i ys (push_next i a (length S) S1) = Some S'"
      using Cons.prems(1) y by (auto split: option.splits)
    then show ?thesis using g unfolding explores_def by blast
  next
    case (Some j)
    moreover have "grows M {} S S" by (simp add: grows_def)
    ultimately show ?thesis using Cons.prems(1) y match_at_Some [OF Some] by auto
  qed
  then obtain j S1 where S1: "grows M {} S S1" "j < length S1" "match_label (S1 ! j) = sort_nodes ls"
    "next_edges g i ys (push_next i a j S1) = Some S'" by blast
  let ?S2 = "push_next i a j S1"
  have i: "i < length S1" "S1 ! i = S ! i" using S1(1) Cons.prems(2) by (auto simp: grows_def)
  have i2: "i < length ?S2" using i by (simp add: push_next_def)
  note p = grows_push [OF i(1), of M a j]
  from Cons.IH [OF S1(4) i2] obtain xs where xs: "grows M {i} ?S2 S'"
    "match_next (S' ! i) = match_next (?S2 ! i) @ xs" "edges_match S' ys xs" by blast
  have g2: "grows M {i} S1 S'" using grows_trans [OF p xs(1)] i by simp
  have "j < length S'" "match_label (S' ! j) = sort_nodes ls" using g2 S1(2,3) by (auto simp: grows_def)
  then have "edges_match S' (y # ys) ((a, j) # xs)" using xs(3) y by (simp add: edges_match_def)
  moreover have "match_next (S' ! i) = match_next (S ! i) @ (a, j) # xs"
    using xs(2) i by (simp add: push_next_def)
  moreover have "grows M {i} S S'" using grows_trans [OF grows_weaken [OF S1(1)] g2] Cons.prems(2) by simp
  ultimately show ?case by blast
qed

lemma explore_explores: "explores M (explore k M)"
proof (induction k)
  case (Suc k)
  show ?case
    unfolding explores_def
  proof (intro allI impI)
    fix r S S' assume "explore (Suc k) M r S = Some S'"
    then obtain ys where ys: "collect_nodes M r [] = Some ys" and
      n: "next_edges (explore k M) (length S) ys (S @ [\<lparr>match_label = r, valid_end = (length M - 1 \<in> set r), match_next = []\<rparr>]) = Some S'"
      by (auto split: option.splits)
    let ?c = "\<lparr>match_label = r, valid_end = (length M - 1 \<in> set r), match_next = []\<rparr>"
    from next_edges_grows [OF Suc n] obtain xs where xs: "grows M {length S} (S @ [?c]) S'"
      "match_next (S' ! length S) = xs" "edges_match S' ys xs" by auto
    have c: "match_label (S' ! length S) = r" "valid_end (S' ! length S) = (length M - 1 \<in> set r)"
      using xs(1) by (auto simp: grows_def dest!: spec [of _ "length S"])
    have "complete_match M S' (S' ! length S)" unfolding complete_match_def c using ys xs(2,3) by auto
    then have new: "complete_match M S' (S' ! j)" if "j < length S'" "length S \<le> j" for j
      using xs(1) that by (cases "j = length S") (auto simp: grows_def)
    have "S' ! j = S ! j" if "j < length S" for j
      using xs(1) that by (auto simp: grows_def nth_append dest!: spec [of _ j])
    moreover have "length S < length S'" using xs(1) by (simp add: grows_def)
    ultimately show "grows M {} S S' \<and> length S < length S' \<and> match_label (S' ! length S) = r"
      using new c(1) by (simp add: grows_def)
  qed
qed (simp add: explores_def)

section \<open>The words that a content match takes\<close>

lemma nfa_edges_set: "(p, t, q) \<in> nfa_edges M \<longleftrightarrow> p < length M \<and> (t, Some q) \<in> set (M ! p)"
  by (auto simp: nfa_edges_def in_set_conv_nth)

lemma eps_run_run: "eps_run M p q \<Longrightarrow> run (nfa_edges M) p [] q"
  unfolding eps_run_def
proof (induction rule: converse_rtrancl_induct)
  case (step p r)
  then have "(p, None, r) \<in> nfa_edges M" by (simp add: nfa_edges_set)
  from run_step [OF this step.IH] show ?case by simp
qed (rule run_refl)

lemma run_first:
  assumes "run (nfa_edges M) p w f" and "\<not> single_eps M f"
  shows "(w = [] \<and> f \<in> closure_of M p)
    \<or> (\<exists>a w' c q. w = a # w' \<and> c \<in> closure_of M p \<and> (c, Some a, q) \<in> nfa_edges M \<and> run (nfa_edges M) q w' f)"
  using assms
proof (induction rule: run.induct)
  case (run_refl p)
  then show ?case by (simp add: closure_of_def eps_run_def)
next
  case (run_step p t q w f)
  have e: "p < length M" "(t, Some q) \<in> set (M ! p)" using run_step.hyps(1) by (auto simp: nfa_edges_set)
  show ?case
  proof (cases t)
    case None
    have "closure_of M q \<subseteq> closure_of M p"
      using eps_run_step [OF e(1)] e(2) None by (auto simp: closure_of_def)
    then show ?thesis using run_step.IH [OF run_step.prems] None by auto
  next
    case (Some a)
    have "\<not> single_eps M p"
      using e(2) Some by (metis Pair_inject list.set(1) list.set(2) option.distinct(1) singletonD single_eps_edges)
    then have "p \<in> closure_of M p" by (simp add: closure_of_def eps_run_def)
    then show ?thesis using run_step.hyps Some by auto
  qed
qed

lemma edges_match_lookup:
  "edges_match S ys xs \<Longrightarrow> (case map_of ys a of None \<Rightarrow> map_of xs a = None
     | Some ls \<Rightarrow> \<exists>j. map_of xs a = Some j \<and> j < length S \<and> match_label (S ! j) = sort_nodes ls)"
  unfolding edges_match_def by (induction rule: list_all2_induct) (auto split: option.splits)

lemma match_fragment_runs:
  assumes M: "stays_inside M" and f: "f = length M - 1" "\<not> single_eps M f"
    and S: "\<forall>j < length S. complete_match M S (S ! j)"
    and "i < length S" and "set (match_label (S ! i)) = (\<Union>q \<in> Q. closure_of M q)"
    and "set (match_label (S ! i)) \<subseteq> {..<length M}" and "Q \<subseteq> {..<length M}"
  shows "(\<exists>j. match_fragment S i w = Some j \<and> valid_end (S ! j)) \<longleftrightarrow> (\<exists>q \<in> Q. run (nfa_edges M) q w f)"
  using assms(5-8)
proof (induction w arbitrary: i Q)
  case Nil
  have "valid_end (S ! i) \<longleftrightarrow> f \<in> set (match_label (S ! i))"
    using S Nil(1) f(1) by (auto simp: complete_match_def)
  also have "\<dots> \<longleftrightarrow> (\<exists>q \<in> Q. f \<in> closure_of M q)" unfolding Nil(2) by simp
  also have "\<dots> \<longleftrightarrow> (\<exists>q \<in> Q. run (nfa_edges M) q [] f)"
    using run_first [of M _ "[]" f] f(2) eps_run_run [of M _ f] unfolding closure_of_def by blast
  finally show ?case by simp
next
  case (Cons a w)
  let ?r = "match_label (S ! i)" and ?Q = "{q. \<exists>p \<in> set (match_label (S ! i)). (Some a, Some q) \<in> set (M ! p)}"
  obtain ys where ys: "collect_nodes M ?r [] = Some ys" "edges_match S ys (match_next (S ! i))"
    using S Cons.prems(1) by (auto simp: complete_match_def)
  have "labels_ok []" by (simp add: labels_ok_def)
  from collect_nodes_labels [OF M Cons.prems(3) this ys(1)]
  have lab: "labels_ok ys" "labels_of ys a = (\<Union>q \<in> ?Q. closure_of M q)" by auto
  have Q: "?Q \<subseteq> {..<length M}" using stays_insideD [OF M] Cons.prems(3) by auto
  have "(\<exists>q \<in> Q. run (nfa_edges M) q (a # w) f) \<longleftrightarrow> (\<exists>q \<in> ?Q. run (nfa_edges M) q w f)"
  proof
    assume "\<exists>q \<in> Q. run (nfa_edges M) q (a # w) f"
    then obtain q c q' where "q \<in> Q" "c \<in> closure_of M q" "(c, Some a, q') \<in> nfa_edges M" "run (nfa_edges M) q' w f"
      using run_first [OF _ f(2)] by blast
    then show "\<exists>q \<in> ?Q. run (nfa_edges M) q w f" using Cons.prems(2) by (auto simp: nfa_edges_set)
  next
    assume "\<exists>q \<in> ?Q. run (nfa_edges M) q w f"
    then obtain q p where q: "run (nfa_edges M) q w f" "p \<in> set ?r" "(Some a, Some q) \<in> set (M ! p)" by blast
    then obtain q0 where "q0 \<in> Q" "p \<in> closure_of M q0" using Cons.prems(2) by blast
    moreover have "(p, Some a, q) \<in> nfa_edges M" using q Cons.prems(3) by (auto simp: nfa_edges_set)
    from run_step [OF this q(1)] have "run (nfa_edges M) p (a # w) f" by simp
    ultimately show "\<exists>q \<in> Q. run (nfa_edges M) q (a # w) f"
      using run_trans [OF eps_run_run] by (fastforce simp: closure_of_def)
  qed
  moreover have "(\<exists>j. match_fragment S i (a # w) = Some j \<and> valid_end (S ! j)) \<longleftrightarrow> (\<exists>q \<in> ?Q. run (nfa_edges M) q w f)"
  proof (cases "map_of ys a")
    case None
    then have "match_type S i a = None" using edges_match_lookup [OF ys(2), of a] by (simp add: match_type_def)
    moreover have "\<not> run (nfa_edges M) q w f" if "q \<in> ?Q" for q
    proof
      assume "run (nfa_edges M) q w f"
      from run_first [OF this f(2)] have "closure_of M q \<noteq> {}" by blast
      with lab(2) None that show False by (auto simp: labels_of_def)
    qed
    ultimately show ?thesis by auto
  next
    case (Some ls)
    then obtain j where j: "match_type S i a = Some j" "j < length S" "match_label (S ! j) = sort_nodes ls"
      using edges_match_lookup [OF ys(2), of a] by (auto simp: match_type_def)
    have "set (match_label (S ! j)) = (\<Union>q \<in> ?Q. closure_of M q)" using lab(2) Some j(3) by (simp add: labels_of_def)
    moreover have "closure_of M q \<subseteq> {..<length M}" if "q \<in> ?Q" for q
      using closure_inside [OF M] Q that by blast
    ultimately show ?thesis using Cons.IH [OF j(2) _ _ Q] j(1) by auto
  qed
  ultimately show ?case by simp
qed

lemma explore_grows:
  "explore k M r S = Some S' \<Longrightarrow> grows M {} S S' \<and> length S < length S' \<and> match_label (S' ! length S) = r"
  using explore_explores [of M k] unfolding explores_def by blast

lemma content_dfa_language:
  assumes "stays_inside M" and "0 < length M" and "\<not> single_eps M (length M - 1)" and "content_dfa M = Some S"
  shows "match_valid S w \<longleftrightarrow> nfa_accepts M w"
proof -
  obtain r where r: "null_from M 0 = Some r" "explore (Suc (2 ^ length M)) M r [] = Some S"
    using assms(4) by (auto simp: content_dfa_def split: option.splits)
  have "grows M {} [] S \<and> length [] < length S \<and> match_label (S ! length []) = r"
    using explore_grows [OF r(2)] by simp
  then have S: "\<forall>j < length S. complete_match M S (S ! j)" "0 < length S" "match_label (S ! 0) = r"
    by (auto simp: grows_def)
  note n = null_from_set [OF assms(1,2) r(1)]
  have "(\<exists>j. match_fragment S 0 w = Some j \<and> valid_end (S ! j)) \<longleftrightarrow> (\<exists>q \<in> {0}. run (nfa_edges M) q w (length M - 1))"
    using match_fragment_runs [OF assms(1) refl assms(3) S(1,2), of "{0}"] n(1,4) S(3) assms(2) by simp
  then show ?thesis by (auto simp: match_valid_def nfa_accepts_def split: option.splits)
qed

section \<open>Both recursions end\<close>

text \<open>An edge without a term leads forward, or between nodes with further edges (those of \<open>A\<close> are about to have them).\<close>

definition eps_safe :: "nat set \<Rightarrow> 'a nfa \<Rightarrow> bool" where
  "eps_safe A M \<longleftrightarrow> (\<forall>p q. (p, None, q) \<in> nfa_edges M \<longrightarrow> q < length M \<and>
     (p < q \<or> 2 \<le> length (M ! p) \<and> (q \<in> A \<or> 2 \<le> length (M ! q))))"

definition open_targets :: "'a nfa \<Rightarrow> bool" where
  "open_targets M \<longleftrightarrow> (\<exists>es \<in> set M. \<exists>t. (t, None) \<in> set es)"

definition unvisited :: "'a nfa \<Rightarrow> nat list \<Rightarrow> nat \<Rightarrow> nat set" where
  "unvisited M n p = {x. x < length M \<and> \<not> single_eps M x} - set n - {p}"

definition visit_measure :: "'a nfa \<Rightarrow> nat list \<Rightarrow> nat \<Rightarrow> nat" where
  "visit_measure M n p = card (unvisited M n p) * Suc (length M) + (length M - p)"

lemma visit_edges_total:
  assumes "\<forall>q n1. (None, Some q) \<in> set es \<longrightarrow> set n \<subseteq> set n1 \<longrightarrow> q \<notin> set n1 \<longrightarrow> (\<exists>n2. g q n1 = Some n2 \<and> set n1 \<subseteq> set n2)"
    and "\<forall>t. (t, None) \<notin> set es"
  shows "\<exists>n'. visit_edges g es n = Some n' \<and> set n \<subseteq> set n'"
  using assms
proof (induction g es n rule: visit_edges.induct)
  case (4 g q es n)
  show ?case
  proof (cases "q \<in> set n")
    case True
    with 4 show ?thesis by auto
  next
    case False
    have "(None, Some q) \<in> set ((None, Some q) # es)" by simp
    with "4.prems"(1) False obtain n2 where n2: "g q n = Some n2" "set n \<subseteq> set n2" by blast
    have "\<exists>n'. visit_edges g es n2 = Some n' \<and> set n2 \<subseteq> set n'"
      using "4.IH"(2) [OF False n2(1)] "4.prems" n2(2) by auto
    with n2 False show ?thesis by auto
  qed
qed auto

lemma open_targetsD: "\<lbrakk>\<not> open_targets M; p < length M\<rbrakk> \<Longrightarrow> (t, None) \<notin> set (M ! p)"
  unfolding open_targets_def by (meson nth_mem)

lemma single_eps_length: "single_eps M p \<Longrightarrow> length (M ! p) = 1"
  by (simp add: single_eps_def)

lemma finite_unvisited [simp]: "finite (unvisited M n p)"
  by (rule finite_subset [of _ "{..<length M}"]) (auto simp: unvisited_def)

text \<open>The measure falls along a call: the node that is left is visited, or the edge leads forward.\<close>

lemma visit_measure_less:
  assumes "unvisited M n1 q \<subseteq> unvisited M n p" and "q < length M"
    and "p < q \<or> q \<in> unvisited M n p"
  shows "visit_measure M n1 q < visit_measure M n p"
proof (cases "q \<in> unvisited M n p")
  case True
  then have "unvisited M n1 q \<subset> unvisited M n p" using assms(1) by (auto simp: unvisited_def)
  then have "card (unvisited M n1 q) < card (unvisited M n p)" by (rule psubset_card_mono [OF finite_unvisited])
  then have "Suc (card (unvisited M n1 q)) * Suc (length M) \<le> card (unvisited M n p) * Suc (length M)"
    by (intro mult_le_mono1) simp
  then show ?thesis unfolding visit_measure_def by simp
next
  case False
  then have "p < q" using assms(3) by blast
  moreover have "card (unvisited M n1 q) * Suc (length M) \<le> card (unvisited M n p) * Suc (length M)"
    by (intro mult_le_mono1 card_mono assms(1)) simp
  ultimately show ?thesis using assms(2) unfolding visit_measure_def by simp
qed

lemma null_visit_total:
  assumes "eps_safe {} M" and "\<not> open_targets M"
  shows "\<lbrakk>p < length M; visit_measure M n p < k\<rbrakk> \<Longrightarrow> \<exists>n'. null_visit k M p n = Some n' \<and> set n \<subseteq> set n'"
proof (induction k arbitrary: p n)
  case (Suc k)
  have eps: "q < length M \<and> (p < q \<or> \<not> single_eps M p \<and> \<not> single_eps M q)" if "(None, Some q) \<in> set (M ! p)" for q
  proof -
    have "(p, None, q) \<in> nfa_edges M" using that Suc.prems(1) by (simp add: nfa_edges_set)
    then show ?thesis using assms(1) single_eps_length [of M] unfolding eps_safe_def by fastforce
  qed
  show ?case
  proof (cases "single_eps M p")
    case True
    then obtain t q where e: "M ! p = [(None, q)]" using single_eps_edges by blast
    with open_targetsD [OF assms(2) Suc.prems(1)] obtain r where r: "q = Some r" by (cases q) auto
    have p: "r < length M" "p < r" using eps [of r] e r True by auto
    have "unvisited M n r \<subseteq> unvisited M n p" using True by (auto simp: unvisited_def)
    from visit_measure_less [OF this p(1)] p(2) Suc.prems(2) have "visit_measure M n r < k" by simp
    from Suc.IH [OF p(1) this] show ?thesis using True e r by simp
  next
    case False
    have "\<exists>n2. null_visit k M q n1 = Some n2 \<and> set n1 \<subseteq> set n2"
      if "(None, Some q) \<in> set (M ! p)" "set (n @ [p]) \<subseteq> set n1" "q \<notin> set n1" for q n1
    proof -
      note q = eps [OF that(1)]
      have "unvisited M n1 q \<subseteq> unvisited M n p" using that(2) by (auto simp: unvisited_def)
      moreover have "p < q \<or> q \<in> unvisited M n p" using q that(2,3) by (auto simp: unvisited_def)
      ultimately have "visit_measure M n1 q < k" using visit_measure_less [of M n1 q n p] q Suc.prems(2) by simp
      with Suc.IH q show ?thesis by blast
    qed
    then have "\<exists>n'. visit_edges (null_visit k M) (M ! p) (n @ [p]) = Some n' \<and> set (n @ [p]) \<subseteq> set n'"
      by (intro visit_edges_total) (use open_targetsD [OF assms(2) Suc.prems(1)] in auto)
    then show ?thesis using False by auto
  qed
qed simp

lemma null_from_total:
  assumes "eps_safe {} M" and "\<not> open_targets M" and "p < length M"
  shows "\<exists>r. null_from M p = Some r"
proof -
  have "unvisited M [] p \<subseteq> {..<length M}" by (auto simp: unvisited_def)
  then have "card (unvisited M [] p) \<le> length M" using card_mono [of "{..<length M}"] by fastforce
  then have "card (unvisited M [] p) * Suc (length M) \<le> length M * Suc (length M)" by (rule mult_le_mono1)
  then have "visit_measure M [] p < Suc (length M) * Suc (length M)" unfolding visit_measure_def by simp
  from null_visit_total [OF assms this] show ?thesis by (auto simp: null_from_def)
qed

lemma collect_edges_total:
  assumes "\<forall>q < length M. null_from M q \<noteq> None" and "\<forall>t q. (t, q) \<in> set es \<longrightarrow> (\<exists>r < length M. q = Some r)"
  shows "\<exists>ys'. collect_edges M es ys = Some ys'"
  using assms
proof (induction M es ys rule: collect_edges.induct)
  case (4 M a q es ys)
  then obtain ds where "null_from M q = Some ds" by fastforce
  with 4 show ?case by simp
qed fastforce+

lemma collect_nodes_total:
  assumes "\<forall>q < length M. null_from M q \<noteq> None" and "stays_inside M" and "\<not> open_targets M" and "set ps \<subseteq> {..<length M}"
  shows "\<exists>ys'. collect_nodes M ps ys = Some ys'"
  using assms(4)
proof (induction ps arbitrary: ys)
  case (Cons p ps)
  have "\<exists>r < length M. q = Some r" if "(t, q) \<in> set (M ! p)" for t q
    using that stays_insideD [OF assms(2)] open_targetsD [OF assms(3)] Cons.prems by (cases q) auto
  with collect_edges_total [OF assms(1), of "M ! p" ys]
  obtain ys' where "collect_edges M (M ! p) ys = Some ys'" by blast
  with Cons show ?case by simp
qed simp

end
