(* ===== verification/Content_Totality.thy ===== *)
theory Content_Totality
  imports Content_Match
begin

text \<open>
  Every content expression without a range gets its content match: the automaton that \<open>cm\<close> builds
  has no cycle of nodes with a single edge, so the recursions of \<open>rc\<close> and \<open>dm\<close> end
  (\<open>public/js/filament/forms/components/rich-editor.js\<close>), and the match takes the words of the
  expression.
\<close>

section \<open>The content matches that can be made\<close>

definition node_lists :: "nat \<Rightarrow> nat list set" where
  "node_lists m = {ls. sorted (rev ls) \<and> distinct ls \<and> set ls \<subseteq> {..<m}}"

lemma node_lists_card: "finite (node_lists m) \<and> card (node_lists m) \<le> 2 ^ m"
proof -
  have i: "inj_on set (node_lists m)" 
    by (auto simp: inj_on_def node_lists_def) (metis distinct_rev rev_swap set_rev sorted_distinct_set_unique)
  have s: "set ` node_lists m \<subseteq> Pow {..<m}" by (auto simp: node_lists_def)
  have "card (node_lists m) \<le> card (Pow {..<m})" by (rule card_inj_on_le [OF i s]) simp
  moreover have "finite (node_lists m)" by (rule inj_on_finite [OF i s]) simp
  ultimately show ?thesis by (simp add: card_Pow)
qed

definition unexplored :: "'a nfa \<Rightarrow> 'a content_match list \<Rightarrow> nat list \<Rightarrow> nat list set" where
  "unexplored M S r = node_lists (length M) - match_label ` set S - {r}"

lemma push_next_labels: "match_label ` set (push_next i a j S) = match_label ` set S"
proof -
  have "map match_label (push_next i a j S) = map match_label S"
  proof (rule nth_equalityI)
    fix k assume "k < length (map match_label (push_next i a j S))"
    then show "map match_label (push_next i a j S) ! k = map match_label S ! k"
      by (cases "k = i") (simp_all add: push_next_def)
  qed (simp add: push_next_def)
  then show ?thesis by (metis list.set_map)
qed

lemma grows_labels:
  assumes "grows M {} S S'"
  shows "match_label ` set S \<subseteq> match_label ` set S'"
proof -
  have "S ! j \<in> set S'" if "j < length S" for j
    using assms that unfolding grows_def by (metis empty_iff less_le_trans nth_mem)
  then show ?thesis by (auto simp: in_set_conv_nth)
qed

text \<open>\<open>g\<close> succeeds on each list of \<open>K\<close> that has no match yet, in a store that has the keys \<open>B\<close>.\<close>

definition explores_all :: "nat list set \<Rightarrow> (nat list \<Rightarrow> 'a content_match list \<Rightarrow> 'a content_match list option) \<Rightarrow> nat list set \<Rightarrow> bool" where
  "explores_all K g B \<longleftrightarrow> (\<forall>l S. l \<in> K \<longrightarrow> B \<subseteq> match_label ` set S \<longrightarrow> l \<notin> match_label ` set S \<longrightarrow>
     (\<exists>S2. g l S = Some S2 \<and> match_label ` set S \<subseteq> match_label ` set S2))"

lemma explores_all_mono: "\<lbrakk>explores_all K g B; B \<subseteq> B'\<rbrakk> \<Longrightarrow> explores_all K g B'"
  unfolding explores_all_def by (meson order_trans)

lemma explores_allD:
  "\<lbrakk>explores_all K g (match_label ` set S); l \<in> K; l \<notin> match_label ` set S\<rbrakk>
    \<Longrightarrow> \<exists>S2. g l S = Some S2 \<and> match_label ` set S \<subseteq> match_label ` set S2"
  by (simp add: explores_all_def)

lemma next_edges_total:
  assumes "explores_all K g (match_label ` set S)" and "\<forall>(a, ls) \<in> set ys. sort_nodes ls \<in> K"
  shows "\<exists>S'. next_edges g i ys S = Some S'"
  using assms
proof (induction ys arbitrary: S)
  case (Cons y ys)
  obtain a ls where y: "y = (a, ls)" by (cases y)
  have K: "sort_nodes ls \<in> K" "\<forall>(a, ls) \<in> set ys. sort_nodes ls \<in> K" using Cons.prems(2) y by auto
  show ?case
  proof (cases "match_at (sort_nodes ls) S")
    case None
    then have n: "sort_nodes ls \<notin> match_label ` set S" by (simp add: match_at_None)
    from explores_allD [OF Cons.prems(1) K(1) n]
    obtain S2 where S2: "g (sort_nodes ls) S = Some S2" "match_label ` set S \<subseteq> match_label ` set S2" by blast
    have "explores_all K g (match_label ` set (push_next i a (length S) S2))"
      unfolding push_next_labels by (rule explores_all_mono [OF Cons.prems(1) S2(2)])
    from Cons.IH [OF this K(2)] show ?thesis using y None S2(1) by simp
  next
    case (Some j)
    have "explores_all K g (match_label ` set (push_next i a j S))" unfolding push_next_labels by (rule Cons.prems(1))
    from Cons.IH [OF this K(2)] show ?thesis using y Some by simp
  qed
qed simp

lemma collect_lists:
  assumes "stays_inside M" and "set r \<subseteq> {..<length M}" and "collect_nodes M r [] = Some ys"
  shows "\<forall>(a, ls) \<in> set ys. sort_nodes ls \<in> node_lists (length M)"
proof (intro ballI, clarify)
  fix a ls assume ls: "(a, ls) \<in> set ys"
  have "labels_ok []" by (simp add: labels_ok_def)
  note c = collect_nodes_labels [OF assms(1,2) this assms(3), of a]
  have "map_of ys a = Some ls" using c ls by (simp add: labels_ok_def)
  then have "set ls = labels_of ys a" by (simp add: labels_of_def)
  also have "\<dots> = {x. \<exists>p \<in> set r. \<exists>q. (Some a, Some q) \<in> set (M ! p) \<and> x \<in> closure_of M q}" using c by simp
  also have "\<dots> \<subseteq> {..<length M}"
    using closure_inside [OF assms(1)] stays_insideD [OF assms(1)] assms(2) by blast
  finally show "sort_nodes ls \<in> node_lists (length M)" using c ls by (auto simp: node_lists_def labels_ok_def)
qed

lemma explore_total:
  fixes M :: "'a nfa"
  assumes "\<forall>q < length M. null_from M q \<noteq> None" and "stays_inside M" and "\<not> open_targets M"
  shows "\<lbrakk>set r \<subseteq> {..<length M}; card (unexplored M S r) < k\<rbrakk> \<Longrightarrow> \<exists>S'. explore k M r S = Some S'"
proof (induction k arbitrary: r S)
  case (Suc k)
  from collect_nodes_total [OF assms Suc.prems(1)] obtain ys where ys: "collect_nodes M r [] = Some ys" by blast
  let ?S = "S @ [\<lparr>match_label = r, valid_end = (length M - 1 \<in> set r), match_next = []\<rparr>]"
  have "explores_all (node_lists (length M)) (explore k M) (match_label ` set ?S)"
    unfolding explores_all_def
  proof (intro allI impI)
    fix l and S1 :: "'a content_match list" assume l: "l \<in> node_lists (length M)" "match_label ` set ?S \<subseteq> match_label ` set S1" "l \<notin> match_label ` set S1"
    have "l \<in> unexplored M S r" "l \<notin> unexplored M S1 l" using l by (auto simp: unexplored_def)
    moreover have "unexplored M S1 l \<subseteq> unexplored M S r" using l(2) by (auto simp: unexplored_def)
    ultimately have "unexplored M S1 l \<subset> unexplored M S r" by blast
    then have "card (unexplored M S1 l) < card (unexplored M S r)"
      by (rule psubset_card_mono [rotated]) (simp add: unexplored_def node_lists_card)
    moreover have "set l \<subseteq> {..<length M}" using l(1) by (simp add: node_lists_def)
    ultimately obtain S2 where "explore k M l S1 = Some S2" using Suc.IH Suc.prems(2) by fastforce
    with explore_grows [OF this] grows_labels
    show "\<exists>S2. explore k M l S1 = Some S2 \<and> match_label ` set S1 \<subseteq> match_label ` set S2" by blast
  qed
  from next_edges_total [OF this collect_lists [OF assms(2) Suc.prems(1) ys]]
  have "\<exists>S'. next_edges (explore k M) (length S) ys ?S = Some S'" .
  then show ?case using ys by simp
qed simp

lemma content_dfa_total:
  assumes "eps_safe {} M" and "\<not> open_targets M" and "stays_inside M" and "0 < length M"
  shows "\<exists>S. content_dfa M = Some S"
proof -
  have n: "\<forall>q < length M. null_from M q \<noteq> None" using null_from_total [OF assms(1,2)] by blast
  then obtain r where r: "null_from M 0 = Some r" using assms(4) by blast
  have "card (unexplored M [] r) \<le> card (node_lists (length M))"
    using node_lists_card by (intro card_mono) (auto simp: unexplored_def)
  then have "card (unexplored M [] r) < Suc (2 ^ length M)" using node_lists_card [of "length M"] by linarith
  from explore_total [OF n assms(3,2) null_from_set(4) [OF assms(3,4) r] this]
  show ?thesis by (simp add: content_dfa_def r del: explore.simps)
qed

section \<open>Edges without a term in what \<open>cm\<close> builds\<close>

primrec range_free :: "'a content_expr \<Rightarrow> bool" where
  "range_free (ChoiceE es) = (es \<noteq> [] \<and> list_all (\<lambda>b. b) (map range_free es))"
| "range_free (SeqE es) = (es \<noteq> [] \<and> list_all (\<lambda>b. b) (map range_free es))"
| "range_free (PlusE e) = range_free e"
| "range_free (StarE e) = range_free e"
| "range_free (OptE e) = range_free e"
| "range_free (RangeE mn mx e) = False"
| "range_free (NameE a) = True"

lemma range_free_ok: "range_free e \<Longrightarrow> content_expr_ok e"
  by (induction e) (auto simp: list_all_length)

definition safe_refs :: "'a nfa \<Rightarrow> edge_ref list \<Rightarrow> bool" where
  "safe_refs N refs \<longleftrightarrow> (\<forall>p i. (p, i) \<in> set refs \<longrightarrow> fst (N ! p ! i) = None \<longrightarrow> 2 \<le> length (N ! p))"

text \<open>A calm builder adds an edge to its start, keeps the edges without a term safe, and leaves open edges that may lead back.\<close>

definition calm :: "'a builder \<Rightarrow> bool" where
  "calm f \<longleftrightarrow> (\<forall>A N s refs N'. s < length N \<longrightarrow> eps_safe A N \<longrightarrow> f s N = (refs, N') \<longrightarrow>
     eps_safe A N' \<and> length (N ! s) < length (N' ! s) \<and> safe_refs N' refs)"

lemma calmD:
  assumes "calm f" and "s < length N" and "eps_safe A N" and "f s N = (refs, N')"
  shows "eps_safe A N'" "length (N ! s) < length (N' ! s)" "safe_refs N' refs"
  using assms unfolding calm_def by blast+

lemma ext_lengths: "\<lbrakk>ext N N'; p < length N\<rbrakk> \<Longrightarrow> length (N ! p) \<le> length (N' ! p)"
  by (auto simp: ext_def dest!: spec [of _ p])

lemma eps_safe_new: "eps_safe A N \<Longrightarrow> eps_safe A (N @ [[]])"
  unfolding eps_safe_def by (auto simp: nfa_edges_set nth_append less_SucI)

lemma eps_safe_drop: "\<lbrakk>eps_safe (insert a A) N; 2 \<le> length (N ! a)\<rbrakk> \<Longrightarrow> eps_safe A N"
  by (auto simp: eps_safe_def)

lemma eps_safe_mono: "\<lbrakk>eps_safe A N; A \<subseteq> B\<rbrakk> \<Longrightarrow> eps_safe B N"
  unfolding eps_safe_def by blast

lemma eps_safe_lengths:
  assumes "eps_safe A N" and "length N \<le> length N'" and "\<forall>p < length N. length (N ! p) \<le> length (N' ! p)"
    and "\<forall>p q. (p, None, q) \<in> nfa_edges N' \<longrightarrow> (p, None, q) \<in> nfa_edges N
      \<or> q < length N' \<and> (p < q \<or> 2 \<le> length (N' ! p) \<and> (q \<in> A \<or> 2 \<le> length (N' ! q)))"
  shows "eps_safe A N'"
  unfolding eps_safe_def
proof (intro allI impI)
  fix p q assume e: "(p, None, q) \<in> nfa_edges N'"
  show "q < length N' \<and> (p < q \<or> 2 \<le> length (N' ! p) \<and> (q \<in> A \<or> 2 \<le> length (N' ! q)))"
  proof (cases "(p, None, q) \<in> nfa_edges N")
    case True
    then have "p < length N" "q < length N" "p < q \<or> 2 \<le> length (N ! p) \<and> (q \<in> A \<or> 2 \<le> length (N ! q))"
      using assms(1) by (auto simp: eps_safe_def nfa_edges_set)
    then show ?thesis using assms(2,3) by (meson le_trans less_le_trans)
  qed (use assms(4) e in blast)
qed

lemma eps_safe_add:
  assumes "s < length N" and "add_edge s q t N = (r, N')" and "eps_safe A N"
    and "\<forall>q'. q = Some q' \<longrightarrow> q' < length N \<and> s < q'"
  shows "eps_safe A N'"
proof -
  note e = add_edge_spec [OF assms(1,2)]
  show ?thesis
    by (rule eps_safe_lengths [OF assms(3)]) (use assms(4) e(2,4,7) in \<open>auto split: option.splits if_splits\<close>)
qed

lemma eps_safe_connect:
  assumes "built N s V refs N' L" and "eps_safe A N'" and "a < length N'"
    and "\<forall>p i. (p, i) \<in> set refs \<longrightarrow> fst (N' ! p ! i) = None \<longrightarrow> p < a \<or> 2 \<le> length (N' ! p) \<and> a \<in> A"
  shows "eps_safe A (connect_edges refs a N')"
    and "length (connect_edges refs a N' ! p) = length (N' ! p)"
proof -
  have d: "distinct refs" "set refs \<subseteq> pending N'" using assms(1) by (auto simp: built_def fresh_refs_def)
  note c = connect_edges_spec [OF d, of a]
  have len: "length (connect_edges refs a N') = length N'" "\<forall>p. length (connect_edges refs a N' ! p) = length (N' ! p)"
    and e: "nfa_edges (connect_edges refs a N') = nfa_edges N' \<union> link_edges (dangling N' refs) a" using c by auto
  show "length (connect_edges refs a N' ! p) = length (N' ! p)" using len(2) by blast
  show "eps_safe A (connect_edges refs a N')"
  proof (rule eps_safe_lengths [OF assms(2)])
    show "\<forall>p q. (p, None, q) \<in> nfa_edges (connect_edges refs a N') \<longrightarrow> (p, None, q) \<in> nfa_edges N' \<or> q < length (connect_edges refs a N')
        \<and> (p < q \<or> 2 \<le> length (connect_edges refs a N' ! p) \<and> (q \<in> A \<or> 2 \<le> length (connect_edges refs a N' ! q)))"
      unfolding e len(1) using assms(3,4) len(2) by (fastforce simp: dangling_def)
  qed (simp_all add: len)
qed

text \<open>The loop of a star and of a plus: what starts at \<open>a\<close> leads back to it, and an edge leads out.\<close>

lemma loop_calm:
  assumes "calm f" and "builds f L" and "a < length N" and "eps_safe (insert a A) N" and "f a N = (r, N3)"
    and "add_edge a None None (connect_edges r a N3) = (x, N4)"
  shows "eps_safe A N4" "safe_refs N4 [x]" "ext N N4"
proof -
  note f = calmD [OF assms(1,3,4,5)]
  from buildsD [OF assms(2,3,5)] obtain V where V: "built N a V r N3 L" ..
  have a: "a < length N3" using assms(3) built_length [OF V] by simp
  have "\<forall>p i. (p, i) \<in> set r \<longrightarrow> fst (N3 ! p ! i) = None \<longrightarrow> p < a \<or> 2 \<le> length (N3 ! p) \<and> a \<in> insert a A"
    using f(3) by (simp add: safe_refs_def)
  note c = eps_safe_connect [OF V f(1) a this]
  note k = built_connect [OF V, of a]
  have a': "a < length (connect_edges r a N3)" using k(2) a by simp
  note e = add_edge_spec [OF a' assms(6)]
  have two: "2 \<le> length (N4 ! a)" using e(7) [of a] c(2) f(2) by simp
  have "eps_safe (insert a A) N4" by (rule eps_safe_add [OF a' assms(6) c(1)]) simp
  from eps_safe_drop [OF this two] show "eps_safe A N4" .
  show "safe_refs N4 [x]" using e(1) two by (simp add: safe_refs_def)
  show "ext N N4" using ext_trans [OF k(1) e(3)] .
qed

lemma calm_name: "calm (comp_name a)"
  unfolding calm_def
proof (intro allI impI)
  fix A and N :: "'a nfa" and s refs N' assume s: "s < length N" "eps_safe A N" and f: "comp_name a s N = (refs, N')"
  from f obtain r where r: "add_edge s None (Some a) N = (r, N')" "refs = [r]" by (auto simp: comp_name_def split: prod.splits)
  note e = add_edge_spec [OF s(1) r(1)]
  show "eps_safe A N' \<and> length (N ! s) < length (N' ! s) \<and> safe_refs N' refs"
    using eps_safe_add [OF s(1) r(1) s(2)] e(1,6) e(7) [of s] by (simp add: r(2) safe_refs_def)
qed

lemma calm_opt:
  assumes "calm f" and "builds f L"
  shows "calm (comp_opt f)"
  unfolding calm_def
proof (intro allI impI)
  fix A and N :: "'a nfa" and s refs N' assume s: "s < length N" "eps_safe A N" and f: "comp_opt f s N = (refs, N')"
  obtain x N1 where x: "add_edge s None None N = (x, N1)" by fastforce
  obtain r N2 where r: "f s N1 = (r, N2)" by fastforce
  have res: "refs = x # r" "N' = N2" using f x r by (auto simp: comp_opt_def)
  note e = add_edge_spec [OF s(1) x]
  have s1: "s < length N1" using s(1) e(2) by simp
  have "eps_safe A N1" by (rule eps_safe_add [OF s(1) x s(2)]) simp
  note c = calmD [OF assms(1) s1 this r]
  have "length (N ! s) < length (N2 ! s)" "2 \<le> length (N2 ! s)" using c(2) e(7) [of s] by simp_all
  then show "eps_safe A N' \<and> length (N ! s) < length (N' ! s) \<and> safe_refs N' refs"
    using c(1,3) e(1) unfolding res by (auto simp: safe_refs_def)
qed

lemma calm_star:
  assumes "calm f" and "builds f L"
  shows "calm (comp_star f)"
  unfolding calm_def
proof (intro allI impI)
  fix A and N :: "'a nfa" and s refs N' assume s: "s < length N" "eps_safe A N" and f: "comp_star f s N = (refs, N')"
  let ?a = "length N"
  obtain x N2 where x: "add_edge s (Some ?a) None (N @ [[]]) = (x, N2)" by fastforce
  obtain r N3 where r: "f ?a N2 = (r, N3)" by fastforce
  obtain y N4 where y: "add_edge ?a None None (connect_edges r ?a N3) = (y, N4)" by fastforce
  have res: "refs = [y]" "N' = N4" using f x r y by (auto simp: comp_star_def new_node_def)
  have s1: "s < length (N @ [[]])" using s(1) by simp
  note e = add_edge_spec [OF s1 x]
  have "eps_safe A N2" by (rule eps_safe_add [OF s1 x eps_safe_new [OF s(2)]]) (use s(1) in simp)
  then have safe: "eps_safe (insert ?a A) N2" by (rule eps_safe_mono) blast
  have a: "?a < length N2" using e(2) by simp
  note l = loop_calm [OF assms a safe r y]
  have "length (N ! s) < length (N2 ! s)" using e(7) [of s] s(1) by (simp add: nth_append)
  also have "\<dots> \<le> length (N4 ! s)" using ext_lengths [OF l(3)] s(1) e(2) by simp
  finally show "eps_safe A N' \<and> length (N ! s) < length (N' ! s) \<and> safe_refs N' refs" using l(1,2) unfolding res by simp
qed

lemma calm_plus:
  assumes "calm f" and "builds f L"
  shows "calm (comp_plus f)"
  unfolding calm_def
proof (intro allI impI)
  fix A and N :: "'a nfa" and s refs N' assume s: "s < length N" "eps_safe A N" and f: "comp_plus f s N = (refs, N')"
  let ?a = "length N"
  obtain r N2 where r: "f s (N @ [[]]) = (r, N2)" by fastforce
  obtain r' N3 where r': "f ?a (connect_edges r ?a N2) = (r', N3)" by fastforce
  obtain y N4 where y: "add_edge ?a None None (connect_edges r' ?a N3) = (y, N4)" by fastforce
  have res: "refs = [y]" "N' = N4" using f r r' y by (auto simp: comp_plus_def new_node_def)
  have s1: "s < length (N @ [[]])" using s(1) by simp
  have "eps_safe (insert ?a A) (N @ [[]])" by (rule eps_safe_mono [OF eps_safe_new [OF s(2)]]) blast
  note c = calmD [OF assms(1) s1 this r]
  from buildsD [OF assms(2) s1 r] obtain V where V: "built (N @ [[]]) s V r N2 L" ..
  have a: "?a < length N2" using built_length [OF V] by simp
  have "\<forall>p i. (p, i) \<in> set r \<longrightarrow> fst (N2 ! p ! i) = None \<longrightarrow> p < ?a \<or> 2 \<le> length (N2 ! p) \<and> ?a \<in> insert ?a A"
    using c(3) by (simp add: safe_refs_def)
  note k = eps_safe_connect [OF V c(1) a this]
  have a': "?a < length (connect_edges r ?a N2)" and s2: "s < length (connect_edges r ?a N2)"
    using built_connect(2) [OF V] a s(1) by simp_all
  note l = loop_calm [OF assms a' k(1) r' y]
  have "length (N ! s) < length (connect_edges r ?a N2 ! s)" using c(2) k(2) s(1) by (simp add: nth_append)
  also have "\<dots> \<le> length (N4 ! s)" by (rule ext_lengths [OF l(3) s2])
  finally show "eps_safe A N' \<and> length (N ! s) < length (N' ! s) \<and> safe_refs N' refs" using l(1,2) unfolding res by simp
qed

lemma calm_choice_list:
  assumes "list_all2 builds fs Ls" and "list_all calm fs" and "s < length N" and "eps_safe A N"
    and "comp_choice fs s N = (refs, N')"
  shows "eps_safe A N' \<and> length (N ! s) + length fs \<le> length (N' ! s) \<and> safe_refs N' refs"
  using assms
proof (induction fs arbitrary: Ls N refs N')
  case Nil
  then show ?case by (auto simp: safe_refs_def)
next
  case (Cons f fs)
  obtain L Ls' where Ls: "builds f L" "list_all2 builds fs Ls'" using Cons.prems(1) by (auto simp: list_all2_Cons1)
  obtain r1 N1 where 1: "f s N = (r1, N1)" by fastforce
  obtain r2 N2 where 2: "comp_choice fs s N1 = (r2, N2)" by fastforce
  have res: "refs = r1 @ r2" "N' = N2" using Cons.prems(5) 1 2 by auto
  have "calm f" "list_all calm fs" using Cons.prems(2) by simp_all
  note c = calmD [OF this(1) Cons.prems(3,4) 1]
  from buildsD [OF Ls(1) Cons.prems(3) 1] obtain V where V: "built N s V r1 N1 L" ..
  have s1: "s < length N1" using Cons.prems(3) built_length [OF V] by simp
  note ih = Cons.IH [OF Ls(2) \<open>list_all calm fs\<close> s1 c(1) 2]
  from buildsD [OF builds_choice [OF Ls(2)] s1 2] obtain V2 where V2: "built N1 s V2 r2 N2 (\<Union> (set Ls'))" ..
  have "ext N1 N2" "set r1 \<subseteq> pending N1" using V V2 by (auto simp: built_def)
  then have "N2 ! p ! i = N1 ! p ! i \<and> length (N1 ! p) \<le> length (N2 ! p)" if "(p, i) \<in> set r1" for p i
  proof -
    have p: "p < length N1" "i < length (N1 ! p)" using that \<open>set r1 \<subseteq> pending N1\<close> by (auto simp: pending_def)
    with \<open>ext N1 N2\<close> obtain es where "N2 ! p = N1 ! p @ es" by (auto simp: ext_def)
    with p show ?thesis by (simp add: nth_append)
  qed
  then have "safe_refs N2 r1" using c(3) unfolding safe_refs_def by (metis le_trans)
  then show ?case using ih c(2) unfolding res by (auto simp: safe_refs_def)
qed

lemma calm_choice:
  assumes "list_all2 builds fs Ls" and "list_all calm fs" and "fs \<noteq> []"
  shows "calm (comp_choice fs)"
  unfolding calm_def
proof (intro allI impI)
  fix A and N :: "'a nfa" and s refs N' assume "s < length N" "eps_safe A N" "comp_choice fs s N = (refs, N')"
  moreover have "0 < length fs" using assms(3) by simp
  ultimately show "eps_safe A N' \<and> length (N ! s) < length (N' ! s) \<and> safe_refs N' refs"
    using calm_choice_list [OF assms(1,2), of s N A refs N'] by linarith
qed

lemma calm_seq_list:
  assumes "list_all2 builds fs Ls" and "list_all calm fs" and "fs \<noteq> []" and "s < length N" and "eps_safe A N"
    and "comp_seq fs s N = (refs, N')"
  shows "eps_safe A N' \<and> length (N ! s) < length (N' ! s) \<and> safe_refs N' refs"
  using assms
proof (induction fs s N arbitrary: Ls rule: comp_seq.induct)
  case (2 f s N)
  then show ?case using calmD [of f s N A refs N'] by simp
next
  case (3 f g fs s N)
  obtain L Ls' where Ls: "builds f L" "list_all2 builds (g # fs) Ls'" using "3.prems"(1) by (auto simp: list_all2_Cons1)
  obtain r N1 where r: "f s N = (r, N1)" by fastforce
  let ?N2 = "connect_edges r (length N1) (N1 @ [[]])"
  have f: "calm f" "list_all calm (g # fs)" using "3.prems"(2) by simp_all
  note c = calmD [OF f(1) "3.prems"(4,5) r]
  from buildsD [OF Ls(1) "3.prems"(4) r] obtain V where "built N s V r N1 L" ..
  from built_new_end [OF this] have V: "built N s V r (N1 @ [[]]) L" .
  have len: "length N \<le> length N1" using \<open>built N s V r N1 L\<close> by (rule built_length)
  have "\<forall>p i. (p, i) \<in> set r \<longrightarrow> p < length N1" using \<open>built N s V r N1 L\<close> by (auto simp: built_def pending_def set_eq_iff)
  then have "\<forall>p i. (p, i) \<in> set r \<longrightarrow> fst ((N1 @ [[]]) ! p ! i) = None \<longrightarrow>
      p < length N1 \<or> 2 \<le> length ((N1 @ [[]]) ! p) \<and> length N1 \<in> A" by blast
  note k = eps_safe_connect [OF V eps_safe_new [OF c(1)] _ this, simplified]
  have l: "length N1 < length ?N2" "s < length ?N2" using built_connect(2) [OF V] "3.prems"(4) len by simp_all
  have rest: "comp_seq (g # fs) (length N1) ?N2 = (refs, N')" using "3.prems"(6) r by (simp add: new_node_def)
  have "(length N1, N1 @ [[]]) = new_node N1" by (simp add: new_node_def)
  note ih = "3.IH" [OF r [symmetric] this Ls(2) f(2) _ l(1) k(1) rest, simplified]
  from buildsD [OF builds_seq [OF Ls(2)] l(1) rest]
  obtain V' where "built ?N2 (length N1) V' refs N' (foldr conc_lang Ls' {[]})" by auto
  then have "ext ?N2 N'" by (simp add: built_def)
  from ext_lengths [OF this l(2)] have "length (N1 ! s) \<le> length (N' ! s)"
    using k(2) [of s] "3.prems"(4) len by (simp add: nth_append)
  then show ?case using ih c(2) by simp
qed simp

lemma calm_seq:
  assumes "list_all2 builds fs Ls" and "list_all calm fs" and "fs \<noteq> []"
  shows "calm (comp_seq fs)"
  unfolding calm_def using calm_seq_list [OF assms] by blast

lemma calm_compile: "range_free e \<Longrightarrow> calm (compile_expr e)"
proof (induction e)
  case (ChoiceE es)
  have "\<forall>e \<in> set es. builds (compile_expr e) (content_lang e)" "\<forall>e \<in> set es. calm (compile_expr e)"
    using ChoiceE builds_compile [OF range_free_ok] by (auto simp: list_all_iff)
  then have "list_all2 builds (map compile_expr es) (map content_lang es)" "list_all calm (map compile_expr es)"
    by (simp_all add: list_all2_map1 list_all2_map2 list_all2_same list_all_iff)
  from calm_choice [OF this] ChoiceE show ?case by simp
next
  case (SeqE es)
  have "\<forall>e \<in> set es. builds (compile_expr e) (content_lang e)" "\<forall>e \<in> set es. calm (compile_expr e)"
    using SeqE builds_compile [OF range_free_ok] by (auto simp: list_all_iff)
  then have "list_all2 builds (map compile_expr es) (map content_lang es)" "list_all calm (map compile_expr es)"
    by (simp_all add: list_all2_map1 list_all2_map2 list_all2_same list_all_iff)
  from calm_seq [OF this] SeqE show ?case by simp
next
  case (PlusE e)
  then show ?case using calm_plus [OF _ builds_compile [OF range_free_ok]] by simp
next
  case (StarE e)
  then show ?case using calm_star [OF _ builds_compile [OF range_free_ok]] by simp
next
  case (OptE e)
  then show ?case using calm_opt [OF _ builds_compile [OF range_free_ok]] by simp
qed (simp_all add: calm_name)

lemma content_nfa_safe:
  assumes "range_free e"
  shows "eps_safe {} (content_nfa e)"
proof -
  let ?N0 = "[[]] :: 'a nfa"
  obtain refs N where c: "compile_expr e 0 ?N0 = (refs, N)" by fastforce
  have z: "0 < length ?N0" "eps_safe {} ?N0" by (auto simp: eps_safe_def nfa_edges_set)
  from buildsD [OF builds_compile [OF range_free_ok [OF assms]] z(1) c]
  obtain V where V: "built ?N0 0 V refs N (content_lang e)" ..
  note k = calmD [OF calm_compile [OF assms] z c]
  have "\<forall>p i. (p, i) \<in> set refs \<longrightarrow> p < length N" using V by (auto simp: built_def pending_def set_eq_iff)
  with eps_safe_connect(1) [OF built_new_end [OF V] eps_safe_new [OF k(1)], of "length N"]
  show ?thesis by (simp add: content_nfa_def c new_node_def)
qed

lemma content_nfa_shape:
  assumes "content_expr_ok e"
  shows "stays_inside (content_nfa e)" and "\<not> open_targets (content_nfa e)" and "0 < length (content_nfa e)"
    and "\<not> single_eps (content_nfa e) (length (content_nfa e) - 1)"
proof -
  let ?M = "content_nfa e"
  note n = content_nfa_language [OF assms]
  show "stays_inside ?M"
    unfolding stays_inside_def using n(5) by (auto simp: nfa_edges_set in_set_conv_nth [of _ ?M])
  have "(t, None) \<notin> set (?M ! p)" if "p < length ?M" for p t
  proof
    assume "(t, None) \<in> set (?M ! p)"
    then obtain i where "i < length (?M ! p)" "?M ! p ! i = (t, None)" by (auto simp: in_set_conv_nth)
    with that have "(p, i) \<in> pending ?M" by (simp add: pending_def)
    with n(2) show False by simp
  qed
  then show open_targets: "\<not> open_targets ?M" unfolding open_targets_def by (auto simp: in_set_conv_nth [of _ ?M])
  show len: "0 < length ?M" using n(3) by linarith
  show "\<not> single_eps ?M (length ?M - 1)"
  proof
    assume "single_eps ?M (length ?M - 1)"
    then obtain q where e: "?M ! (length ?M - 1) = [(None, q)]" using single_eps_edges by blast
    with open_targetsD [OF open_targets, of "length ?M - 1" None] len obtain r where "q = Some r" by (cases q) auto
    with e len have "(length ?M - 1, None, r) \<in> nfa_edges ?M" by (simp add: nfa_edges_set)
    with n(4) show False by blast
  qed
qed

section \<open>Content matches and content expressions\<close>

definition sample_expr :: "char content_expr" where
  "sample_expr = SeqE [PlusE (NameE CHR ''p''), OptE (NameE CHR ''l'')]"

definition sample_matches :: "char content_match list" where
  "sample_matches =
     [\<lparr>match_label = [0], valid_end = False, match_next = [(CHR ''p'', 1)]\<rparr>,
      \<lparr>match_label = [3, 2, 1], valid_end = True, match_next = [(CHR ''l'', 2), (CHR ''p'', 1)]\<rparr>,
      \<lparr>match_label = [3], valid_end = True, match_next = []\<rparr>]"

lemma sample_expr_facts:
  "content_expr_ok sample_expr" "range_free sample_expr"
  "content_dfa (content_nfa sample_expr) = Some sample_matches"
  by code_simp+

text \<open>
  The content match of every content expression without a range can be made: neither the
  recursion of \<open>rc\<close> through edges without a term, which does not look back where a node has one
  such edge only, nor that of \<open>dm\<close> through the matches runs for ever or fails.
\<close>

theorem content_match_exists: "range_free e \<Longrightarrow> \<exists>S. content_dfa (content_nfa e) = Some S"
  by (rule content_dfa_total [OF content_nfa_safe content_nfa_shape(2,1,3) [OF range_free_ok]])

text \<open>
  C19. The matches that \<open>dm\<close> makes of the automaton of a content expression take the words that the
  expression describes: walking a sequence of node types with \<open>matchFragment\<close> ends in a valid end
  exactly when the sequence is in the expression's language. They are made for every expression of
  groups, sequences, plus, star and optional parts, and where they are made for an expression with
  ranges they take its words too, but for a range from 0 without a maximum, whose automaton is wrong.
\<close>
theorem content_match_language:
  assumes "content_expr_ok e"
  shows "(range_free e \<longrightarrow> (\<exists>S. content_dfa (content_nfa e) = Some S))
    \<and> (\<forall>S w. content_dfa (content_nfa e) = Some S \<longrightarrow> (match_valid S w \<longleftrightarrow> w \<in> content_lang e))"
  using content_match_exists content_dfa_language [OF content_nfa_shape(1,3,4) [OF assms]]
    content_nfa_language(1) [OF assms] by blast

theorem content_match_language_witness: "''ppl'' \<in> content_lang sample_expr \<and> ''lp'' \<notin> content_lang sample_expr"
  unfolding content_match_language [OF sample_expr_facts(1), THEN conjunct2, rule_format, OF sample_expr_facts(3), symmetric] by code_simp

text \<open>What the script does with the ranges that are left out.\<close>

theorem open_range_takes_wrong_words:
  "content_dfa (content_nfa (ChoiceE [RangeE 0 (-1) (NameE CHR ''x''), NameE CHR ''y''])) \<noteq> None
   \<and> match_valid (the (content_dfa (content_nfa (ChoiceE [RangeE 0 (-1) (NameE CHR ''x''), NameE CHR ''y''])))) ''xy''
   \<and> ''xy'' \<notin> content_lang (ChoiceE [RangeE 0 (-1) (NameE CHR ''x''), NameE CHR ''y''])"
proof (intro conjI)
  show "''xy'' \<notin> content_lang (ChoiceE [RangeE 0 (-1) (NameE CHR ''x''), NameE CHR ''y''])"
  proof
    assume "''xy'' \<in> content_lang (ChoiceE [RangeE 0 (-1) (NameE CHR ''x''), NameE CHR ''y''])"
    then obtain ws where ws: "''xy'' = concat ws" "set ws \<subseteq> {''x''}" by auto
    then have "set (concat ws) \<subseteq> {CHR ''x''}" by auto
    then show False unfolding ws(1) [symmetric] by simp
  qed
qed code_simp+

theorem looping_range_never_ends:
  "content_dfa (content_nfa (StarE (RangeE 1 1 (OptE (NameE CHR ''x''))))) = None"
  by code_simp

end
