(* ===== verification/Content_Fill.thy ===== *)
theory Content_Fill
  imports Content_Totality
begin

text \<open>
  \<open>fillBefore\<close> of a content match (\<open>public/js/filament/forms/components/rich-editor.js\<close>, the
  class \<open>Nt\<close>): the search for node types that can be made without content of their own, such that
  a given fragment fits behind them. \<open>gen\<close> says which types the script may make (no text, no
  attributes without a default). The depth of the search is at most the number of matches.
\<close>

section \<open>The search\<close>

definition fill_fits :: "'a content_match list \<Rightarrow> 'a list \<Rightarrow> bool \<Rightarrow> nat \<Rightarrow> bool" where
  "fill_fits S w to_end i = (case match_fragment S i w of None \<Rightarrow> False | Some j \<Rightarrow> to_end \<longrightarrow> valid_end (S ! j))"

text \<open>\<open>g\<close> is the recursive call; what is returned is the filling, when there is one, and the matches seen.\<close>

fun fill_edges :: "(nat \<Rightarrow> 'a list \<Rightarrow> nat list \<Rightarrow> ('a list option \<times> nat list) option) \<Rightarrow> ('a \<Rightarrow> bool)
    \<Rightarrow> ('a \<times> nat) list \<Rightarrow> 'a list \<Rightarrow> nat list \<Rightarrow> ('a list option \<times> nat list) option" where
  "fill_edges g gen [] ts seen = Some (None, seen)"
| "fill_edges g gen ((a, q) # xs) ts seen =
     (if gen a \<and> q \<notin> set seen
      then (case g q (ts @ [a]) (seen @ [q]) of
          None \<Rightarrow> None
        | Some (Some f, seen') \<Rightarrow> Some (Some f, seen')
        | Some (None, seen') \<Rightarrow> fill_edges g gen xs ts seen')
      else fill_edges g gen xs ts seen)"

primrec fill_visit :: "nat \<Rightarrow> 'a content_match list \<Rightarrow> ('a \<Rightarrow> bool) \<Rightarrow> 'a list \<Rightarrow> bool
    \<Rightarrow> nat \<Rightarrow> 'a list \<Rightarrow> nat list \<Rightarrow> ('a list option \<times> nat list) option" where
  "fill_visit 0 S gen w to_end i ts seen = None"
| "fill_visit (Suc k) S gen w to_end i ts seen =
     (if fill_fits S w to_end i then Some (Some ts, seen)
      else fill_edges (fill_visit k S gen w to_end) gen (match_next (S ! i)) ts seen)"

definition fill_before :: "'a content_match list \<Rightarrow> ('a \<Rightarrow> bool) \<Rightarrow> nat \<Rightarrow> 'a list \<Rightarrow> bool \<Rightarrow> 'a list option option" where
  "fill_before S gen i w to_end = map_option fst (fill_visit (Suc (length S)) S gen w to_end i [] [i])"

section \<open>What it finds\<close>

text \<open>A store as \<open>dm\<close> leaves it: edges lead to matches, and a match has one edge of a type at most.\<close>

definition matches_ok :: "'a content_match list \<Rightarrow> bool" where
  "matches_ok S \<longleftrightarrow> (\<forall>c \<in> set S. distinct (map fst (match_next c)) \<and> snd ` set (match_next c) \<subseteq> {..<length S})"

lemma matches_okD:
  assumes "matches_ok S" and "i < length S" and "(a, q) \<in> set (match_next (S ! i))"
  shows "match_type S i a = Some q" "q < length S"
proof -
  have "distinct (map fst (match_next (S ! i)))" "snd ` set (match_next (S ! i)) \<subseteq> {..<length S}"
    using assms(1,2) unfolding matches_ok_def by (meson nth_mem)+
  with assms(3) show "match_type S i a = Some q" "q < length S" by (auto simp: match_type_def)
qed

lemma match_fragment_append:
  "match_fragment S i (u @ v) = (case match_fragment S i u of None \<Rightarrow> None | Some j \<Rightarrow> match_fragment S j v)"
  by (induction u arbitrary: i) (auto split: option.splits)

lemma fill_fits_append: "match_fragment S i u = Some j \<Longrightarrow> fill_fits S (u @ w) to_end i = fill_fits S w to_end j"
  by (simp add: fill_fits_def match_fragment_append)

definition fills :: "'a content_match list \<Rightarrow> ('a \<Rightarrow> bool) \<Rightarrow> 'a list \<Rightarrow> bool \<Rightarrow> nat \<Rightarrow> 'a list \<Rightarrow> bool" where
  "fills S gen w to_end i us \<longleftrightarrow> list_all gen us \<and> fill_fits S (us @ w) to_end i"

lemma fills_step: "\<lbrakk>match_type S i a = Some q; gen a; fills S gen w to_end q us\<rbrakk> \<Longrightarrow> fills S gen w to_end i (a # us)"
  by (simp add: fills_def fill_fits_def)

definition dead_end :: "'a content_match list \<Rightarrow> ('a \<Rightarrow> bool) \<Rightarrow> 'a list \<Rightarrow> bool \<Rightarrow> nat list \<Rightarrow> nat \<Rightarrow> bool" where
  "dead_end S gen w to_end seen x \<longleftrightarrow> \<not> fill_fits S w to_end x
     \<and> (\<forall>a q. (a, q) \<in> set (match_next (S ! x)) \<longrightarrow> gen a \<longrightarrow> q \<in> set seen)"

text \<open>The outcomes of a search from \<open>i\<close>, and of one along edges.\<close>

definition fill_outcome :: "'a content_match list \<Rightarrow> ('a \<Rightarrow> bool) \<Rightarrow> 'a list \<Rightarrow> bool \<Rightarrow> nat \<Rightarrow> 'a list \<Rightarrow> nat list
    \<Rightarrow> 'a list option \<times> nat list \<Rightarrow> bool" where
  "fill_outcome S gen w to_end i ts seen r \<longleftrightarrow> (case r of
       (Some f, seen') \<Rightarrow> (\<exists>us. f = ts @ us \<and> fills S gen w to_end i us)
     | (None, seen') \<Rightarrow> set seen \<subseteq> set seen' \<and> (\<forall>x \<in> set seen'. x \<in> set seen - {i} \<or> dead_end S gen w to_end seen' x))"

definition edges_outcome :: "'a content_match list \<Rightarrow> ('a \<Rightarrow> bool) \<Rightarrow> 'a list \<Rightarrow> bool \<Rightarrow> ('a \<times> nat) list \<Rightarrow> 'a list \<Rightarrow> nat list
    \<Rightarrow> 'a list option \<times> nat list \<Rightarrow> bool" where
  "edges_outcome S gen w to_end xs ts seen r \<longleftrightarrow> (case r of
       (Some f, seen') \<Rightarrow> (\<exists>a q us. (a, q) \<in> set xs \<and> gen a \<and> f = ts @ a # us \<and> fills S gen w to_end q us)
     | (None, seen') \<Rightarrow> set seen \<subseteq> set seen' \<and> (\<forall>x \<in> set seen'. x \<in> set seen \<or> dead_end S gen w to_end seen' x)
         \<and> (\<forall>a q. (a, q) \<in> set xs \<longrightarrow> gen a \<longrightarrow> q \<in> set seen'))"

lemma dead_end_mono: "\<lbrakk>dead_end S gen w to_end seen x; set seen \<subseteq> set seen'\<rbrakk> \<Longrightarrow> dead_end S gen w to_end seen' x"
  unfolding dead_end_def by blast

definition fill_goal :: "'a content_match list \<Rightarrow> ('a \<Rightarrow> bool) \<Rightarrow> 'a list \<Rightarrow> bool \<Rightarrow> nat
    \<Rightarrow> (nat \<Rightarrow> 'a list \<Rightarrow> nat list \<Rightarrow> ('a list option \<times> nat list) option) \<Rightarrow> bool" where
  "fill_goal S gen w to_end k g \<longleftrightarrow> (\<forall>i ts seen. i < length S \<longrightarrow> i \<in> set seen \<longrightarrow> card ({..<length S} - set seen) < k \<longrightarrow>
     (\<exists>r. g i ts seen = Some r \<and> fill_outcome S gen w to_end i ts seen r))"

lemma fill_edges_outcome:
  assumes g: "fill_goal S gen w to_end k g" and "\<forall>(a, q) \<in> set xs. q < length S"
    and "card ({..<length S} - set seen) \<le> k"
  shows "\<exists>r. fill_edges g gen xs ts seen = Some r \<and> edges_outcome S gen w to_end xs ts seen r"
  using assms(2,3)
proof (induction xs arbitrary: seen)
  case Nil
  then show ?case by (simp add: edges_outcome_def)
next
  case (Cons x xs)
  obtain a q where x: "x = (a, q)" by (cases x)
  have tail: "\<forall>(a, q) \<in> set xs. q < length S" and q: "q < length S" using Cons.prems(1) x by auto
  show ?case
  proof (cases "gen a \<and> q \<notin> set seen")
    case False
    from Cons.IH [OF tail Cons.prems(2)] obtain r where
      r: "fill_edges g gen xs ts seen = Some r" "edges_outcome S gen w to_end xs ts seen r" by blast
    from r(2) False have "edges_outcome S gen w to_end (x # xs) ts seen r"
      unfolding edges_outcome_def x by (auto split: prod.splits option.splits)
    moreover have "fill_edges g gen (x # xs) ts seen = Some r" using r(1) False x by auto
    ultimately show ?thesis by blast
  next
    case True
    have "{..<length S} - set (seen @ [q]) \<subset> {..<length S} - set seen" using True q by auto
    then have c: "card ({..<length S} - set (seen @ [q])) < card ({..<length S} - set seen)" by (intro psubset_card_mono) simp
    have "q \<in> set (seen @ [q])" "card ({..<length S} - set (seen @ [q])) < k" using c Cons.prems(2) by auto
    with g q obtain f seen' where r: "g q (ts @ [a]) (seen @ [q]) = Some (f, seen')"
      "fill_outcome S gen w to_end q (ts @ [a]) (seen @ [q]) (f, seen')" unfolding fill_goal_def by (metis surj_pair)
    show ?thesis
    proof (cases f)
      case (Some us)
      with r(2) have "edges_outcome S gen w to_end (x # xs) ts seen (f, seen')"
        unfolding fill_outcome_def edges_outcome_def x using True by auto
      with r(1) True Some x show ?thesis by auto
    next
      case None
      have s: "set (seen @ [q]) \<subseteq> set seen'"
        and d: "\<forall>x \<in> set seen'. x \<in> set (seen @ [q]) - {q} \<or> dead_end S gen w to_end seen' x"
        using r(2) None by (auto simp: fill_outcome_def)
      have "card ({..<length S} - set seen') \<le> k"
        using card_mono [of "{..<length S} - set seen" "{..<length S} - set seen'"] s Cons.prems(2) by fastforce
      from Cons.IH [OF tail this] obtain f2 seen2 where r2: "fill_edges g gen xs ts seen' = Some (f2, seen2)"
        "edges_outcome S gen w to_end xs ts seen' (f2, seen2)" by (metis surj_pair)
      have "edges_outcome S gen w to_end (x # xs) ts seen (f2, seen2)"
      proof (cases f2)
        case (Some us)
        then show ?thesis using r2(2) unfolding edges_outcome_def x by auto
      next
        case None
        then have s2: "set seen' \<subseteq> set seen2" "\<forall>x \<in> set seen2. x \<in> set seen' \<or> dead_end S gen w to_end seen2 x"
          "\<forall>a q. (a, q) \<in> set xs \<longrightarrow> gen a \<longrightarrow> q \<in> set seen2" using r2(2) by (auto simp: edges_outcome_def)
        have "x \<in> set seen \<or> dead_end S gen w to_end seen2 x" if "x \<in> set seen2" for x
          using that s2(1,2) d dead_end_mono [of S gen w to_end seen' x seen2] by auto
        then show ?thesis using None s s2(1,3) unfolding edges_outcome_def x by auto
      qed
      with r(1) r2(1) True None x show ?thesis by auto
    qed
  qed
qed

lemma fill_visit_goal:
  assumes "matches_ok S"
  shows "fill_goal S gen w to_end k (fill_visit k S gen w to_end)"
proof (induction k)
  case (Suc k)
  show ?case
    unfolding fill_goal_def
  proof (intro allI impI)
    fix i ts seen assume i: "i < length S" "i \<in> set seen" and c: "card ({..<length S} - set seen) < Suc k"
    show "\<exists>r. fill_visit (Suc k) S gen w to_end i ts seen = Some r \<and> fill_outcome S gen w to_end i ts seen r"
    proof (cases "fill_fits S w to_end i")
      case True
      then show ?thesis by (simp add: fill_outcome_def fills_def)
    next
      case False
      have t: "\<forall>(a, q) \<in> set (match_next (S ! i)). q < length S" using matches_okD(2) [OF assms i(1)] by blast
      have "card ({..<length S} - set seen) \<le> k" using c by simp
      from fill_edges_outcome [OF Suc t this, of ts] obtain f seen' where
        r: "fill_edges (fill_visit k S gen w to_end) gen (match_next (S ! i)) ts seen = Some (f, seen')"
        and o: "edges_outcome S gen w to_end (match_next (S ! i)) ts seen (f, seen')" by (metis surj_pair)
      have "fill_outcome S gen w to_end i ts seen (f, seen')"
      proof (cases f)
        case (Some us)
        with o obtain a q vs where v: "(a, q) \<in> set (match_next (S ! i))" "gen a" "us = ts @ a # vs" "fills S gen w to_end q vs"
          by (auto simp: edges_outcome_def)
        from fills_step [OF matches_okD(1) [OF assms i(1) v(1)], of gen w to_end vs] v Some show ?thesis
          by (auto simp: fill_outcome_def)
      next
        case None
        with o False show ?thesis by (auto simp: edges_outcome_def fill_outcome_def dead_end_def)
      qed
      with r False show ?thesis by simp
    qed
  qed
qed (simp add: fill_goal_def)

lemma no_filling:
  assumes "\<forall>x \<in> set seen. dead_end S gen w to_end seen x" and "i \<in> set seen"
  shows "\<not> fills S gen w to_end i us"
  using assms(2)
proof (induction us arbitrary: i)
  case Nil
  then show ?case using assms(1) by (simp add: fills_def dead_end_def)
next
  case (Cons a us)
  show ?case
  proof
    assume f: "fills S gen w to_end i (a # us)"
    then obtain q where q: "match_type S i a = Some q" "gen a" "fills S gen w to_end q us"
      by (auto simp: fills_def fill_fits_def split: option.splits)
    then have "(a, q) \<in> set (match_next (S ! i))" by (simp add: match_type_def map_of_SomeD)
    with assms(1) Cons.prems q(2) have "q \<in> set seen" unfolding dead_end_def by blast
    with Cons.IH q(3) show False by blast
  qed
qed

lemma fill_before_outcome:
  assumes "matches_ok S" and "i < length S"
  shows "case fill_before S gen i w to_end of
      None \<Rightarrow> False
    | Some (Some us) \<Rightarrow> fills S gen w to_end i us
    | Some None \<Rightarrow> \<forall>us. \<not> fills S gen w to_end i us"
proof -
  have "card ({..<length S} - set [i]) < Suc (length S)" using card_mono [of "{..<length S}" "{..<length S} - set [i]"] by simp
  with fill_visit_goal [OF assms(1), of gen w to_end "Suc (length S)"] assms(2)
  obtain f seen where r: "fill_visit (Suc (length S)) S gen w to_end i [] [i] = Some (f, seen)"
    "fill_outcome S gen w to_end i [] [i] (f, seen)" unfolding fill_goal_def by (metis list.set_intros(1) surj_pair)
  show ?thesis
  proof (cases f)
    case None
    then have "i \<in> set seen" "\<forall>x \<in> set seen. dead_end S gen w to_end seen x" using r(2) by (auto simp: fill_outcome_def)
    with no_filling [of seen S gen w to_end i] have "\<forall>us. \<not> fills S gen w to_end i us" by blast
    then show ?thesis using r(1) None by (simp add: fill_before_def del: fill_visit.simps)
  qed (use r in \<open>simp add: fill_before_def fill_outcome_def del: fill_visit.simps\<close>)
qed

lemma collect_edges_ok: "\<lbrakk>labels_ok ys; collect_edges M es ys = Some ys'\<rbrakk> \<Longrightarrow> labels_ok ys'"
  by (induction M es ys rule: collect_edges.induct) (auto split: option.splits dest: fold_labels)

lemma collect_nodes_ok: "\<lbrakk>labels_ok ys; collect_nodes M ps ys = Some ys'\<rbrakk> \<Longrightarrow> labels_ok ys'"
  by (induction M ps ys rule: collect_nodes.induct) (auto split: option.splits dest: collect_edges_ok)

lemma content_dfa_ok:
  assumes "content_dfa M = Some S"
  shows "matches_ok S" and "0 < length S"
proof -
  obtain r where "explore (Suc (2 ^ length M)) M r [] = Some S"
    using assms by (auto simp: content_dfa_def split: option.splits)
  note g = explore_grows [OF this]
  then show "0 < length S" by simp
  show "matches_ok S"
    unfolding matches_ok_def
  proof
    fix c assume "c \<in> set S"
    then have "complete_match M S c" using g by (auto simp: grows_def in_set_conv_nth)
    then obtain ys where ys: "collect_nodes M (match_label c) [] = Some ys" "edges_match S ys (match_next c)"
      by (auto simp: complete_match_def)
    have "labels_ok []" by (simp add: labels_ok_def)
    from collect_nodes_ok [OF this ys(1)] have "distinct (map fst ys)" by (simp add: labels_ok_def)
    moreover have "map fst (match_next c) = map fst ys \<and> snd ` set (match_next c) \<subseteq> {..<length S}"
      using ys(2) unfolding edges_match_def by (induction rule: list_all2_induct) auto
    ultimately show "distinct (map fst (match_next c)) \<and> snd ` set (match_next c) \<subseteq> {..<length S}" by simp
  qed
qed



text \<open>The edges of a match lead to the later parts first, as \<open>rc\<close> lists the greatest nodes first.\<close>

lemma filling_skips_optional_parts:
  "map_option (\<lambda>S. fill_before S (\<lambda>a. True) 0 [] True)
     (content_dfa (content_nfa (SeqE [OptE (NameE CHR ''a''), OptE (NameE CHR ''b''), NameE CHR ''c''])))
   = Some (Some (Some ''c''))"
  by code_simp

end
