(* ===== verification/Content_Check.thy ===== *)
theory Content_Check
  imports Content_Fill
begin

text \<open>
  What \<open>parse\<close> of a content match does after the parser
  (\<open>public/js/filament/forms/components/rich-editor.js\<close>, the class \<open>Nt\<close>): it makes the matches and
  then has \<open>um\<close> look at every one that can be reached, the nearest first. A match that is no valid
  end and that no type leaves which the script may make by itself (\<open>gen\<close>) is refused, with the names
  of the types that are required there. The matches to look at are a list that grows at its end;
  as it has no match twice, the loop needs no more fuel than there are matches.
\<close>

section \<open>The check\<close>

definition dead_match :: "'a content_match list \<Rightarrow> ('a \<Rightarrow> bool) \<Rightarrow> nat \<Rightarrow> bool" where
  "dead_match S gen i \<longleftrightarrow> \<not> valid_end (S ! i) \<and> list_all (\<lambda>(a, q). \<not> gen a) (match_next (S ! i))"

definition push_matches :: "('a \<times> nat) list \<Rightarrow> nat list \<Rightarrow> nat list" where
  "push_matches xs r = fold (\<lambda>(a, q) r. if q \<in> set r then r else r @ [q]) xs r"

primrec check_from :: "nat \<Rightarrow> 'a content_match list \<Rightarrow> ('a \<Rightarrow> bool) \<Rightarrow> nat \<Rightarrow> nat list \<Rightarrow> ('a list + unit) option" where
  "check_from 0 S gen n r = None"
| "check_from (Suc k) S gen n r =
     (if n < length r
      then (if dead_match S gen (r ! n) then Some (Inl (map fst (match_next (S ! (r ! n)))))
            else check_from k S gen (Suc n) (push_matches (match_next (S ! (r ! n))) r))
      else Some (Inr ()))"

definition check_matches :: "'a content_match list \<Rightarrow> ('a \<Rightarrow> bool) \<Rightarrow> ('a list + unit) option" where
  "check_matches S gen = check_from (Suc (length S)) S gen 0 [0]"

text \<open>\<open>parse\<close>, from the expression that the parser returns: the error of \<open>um\<close>, or the matches.\<close>

definition make_matches :: "('a \<Rightarrow> bool) \<Rightarrow> 'a content_expr \<Rightarrow> ('a list + 'a content_match list) option" where
  "make_matches gen e =
     (case content_dfa (content_nfa e) of
        None \<Rightarrow> None
      | Some S \<Rightarrow> (case check_matches S gen of
          None \<Rightarrow> None
        | Some (Inl ts) \<Rightarrow> Some (Inl ts)
        | Some (Inr u) \<Rightarrow> Some (Inr S)))"

section \<open>What it finds\<close>

definition reached_match :: "'a content_match list \<Rightarrow> nat \<Rightarrow> bool" where
  "reached_match S i \<longleftrightarrow> (\<exists>w. match_fragment S 0 w = Some i)"

lemma reached_start: "reached_match S 0"
  unfolding reached_match_def by (rule exI [of _ "[]"]) simp

lemma reached_step:
  assumes "reached_match S i" and "match_type S i a = Some q"
  shows "reached_match S q"
proof -
  from assms(1) obtain w where w: "match_fragment S 0 w = Some i" by (auto simp: reached_match_def)
  have "match_fragment S 0 (w @ [a]) = Some q" by (simp add: match_fragment_append w assms(2))
  then show ?thesis by (auto simp: reached_match_def)
qed

lemma push_matches_set: "q \<in> set (push_matches xs r) \<longleftrightarrow> q \<in> set r \<or> (\<exists>a. (a, q) \<in> set xs)"
proof (induction xs arbitrary: r)
  case (Cons x xs)
  obtain b p where x: "x = (b, p)" by (cases x)
  have "push_matches (x # xs) r = push_matches xs (if p \<in> set r then r else r @ [p])"
    by (simp add: push_matches_def x)
  with Cons.IH show ?case by (auto simp: x)
qed (simp add: push_matches_def)

lemma push_matches_distinct: "distinct r \<Longrightarrow> distinct (push_matches xs r)"
  unfolding push_matches_def by (induction xs arbitrary: r) auto

lemma push_matches_prefix: "\<exists>r'. push_matches xs r = r @ r'"
  unfolding push_matches_def
proof (induction xs arbitrary: r)
  case (Cons x xs)
  from Cons.IH [of "if snd x \<in> set r then r else r @ [snd x]"] show ?case by (cases x) auto
qed simp

text \<open>The list before its place \<open>n\<close> has been looked at: no match there is dead, and the list has what follows them.\<close>

definition checked :: "'a content_match list \<Rightarrow> ('a \<Rightarrow> bool) \<Rightarrow> nat \<Rightarrow> nat list \<Rightarrow> bool" where
  "checked S gen n r \<longleftrightarrow> n \<le> length r \<and> distinct r \<and> set r \<subseteq> {..<length S} \<and> 0 \<in> set r \<and> list_all (reached_match S) r
     \<and> (\<forall>i \<in> set (take n r). \<not> dead_match S gen i \<and> snd ` set (match_next (S ! i)) \<subseteq> set r)"

lemma checked_start: "0 < length S \<Longrightarrow> checked S gen 0 [0]"
  by (simp add: checked_def reached_start)

lemma checked_step:
  assumes "matches_ok S" and "checked S gen n r" and "n < length r" and "\<not> dead_match S gen (r ! n)"
  shows "checked S gen (Suc n) (push_matches (match_next (S ! (r ! n))) r)"
proof -
  let ?i = "r ! n" and ?r = "push_matches (match_next (S ! (r ! n))) r"
  have i: "?i \<in> set r" using assms(3) by simp
  then have i: "?i \<in> set r" "?i < length S" "reached_match S ?i"
    using assms(2) unfolding checked_def list_all_iff by blast+
  have p: "set ?r = set r \<union> snd ` set (match_next (S ! ?i))" by (force simp: push_matches_set)
  obtain r' where r': "?r = r @ r'" using push_matches_prefix by blast
  have to: "q < length S \<and> reached_match S q" if "(a, q) \<in> set (match_next (S ! ?i))" for a q
    using matches_okD [OF assms(1) i(2) that] reached_step [OF i(3)] by blast
  have t: "set (take (Suc n) ?r) = insert ?i (set (take n r))"
    using assms(3) r' by (simp add: take_Suc_conv_app_nth)
  have "set ?r \<subseteq> {..<length S}" "list_all (reached_match S) ?r"
    using assms(2) to p by (auto simp: checked_def list_all_iff)
  moreover have "\<not> dead_match S gen x \<and> snd ` set (match_next (S ! x)) \<subseteq> set ?r" if "x \<in> insert ?i (set (take n r))" for x
    using that assms(2,4) p unfolding checked_def by blast
  moreover have "distinct ?r" using assms(2) by (simp add: checked_def push_matches_distinct)
  moreover have "Suc n \<le> length ?r" "0 \<in> set ?r" using assms(2,3) p r' by (auto simp: checked_def)
  ultimately show ?thesis unfolding checked_def t by blast
qed

lemma check_from_outcome:
  assumes "matches_ok S"
  shows "\<lbrakk>checked S gen n r; length S - n < k\<rbrakk> \<Longrightarrow> case check_from k S gen n r of
      None \<Rightarrow> False
    | Some (Inl ts) \<Rightarrow> \<exists>i. reached_match S i \<and> dead_match S gen i \<and> ts = map fst (match_next (S ! i))
    | Some (Inr u) \<Rightarrow> \<exists>r'. checked S gen (length r') r'"
proof (induction k arbitrary: n r)
  case (Suc k)
  have "length r \<le> length S"
    using Suc.prems(1) card_mono [of "{..<length S}" "set r"] by (simp add: checked_def distinct_card)
  show ?case
  proof (cases "n < length r \<and> \<not> dead_match S gen (r ! n)")
    case True
    then have "length S - Suc n < k" using Suc.prems(2) \<open>length r \<le> length S\<close> by linarith
    with Suc.IH [OF checked_step [OF assms Suc.prems(1)]] True show ?thesis by simp
  next
    case False
    then show ?thesis using Suc.prems(1) nth_mem [of n r]
      by (auto simp: checked_def list_all_iff)
  qed
qed simp

lemma checked_all:
  assumes "checked S gen (length r) r" and "reached_match S i"
  shows "i \<in> set r \<and> \<not> dead_match S gen i"
proof -
  from assms(2) obtain w where w: "match_fragment S 0 w = Some i" by (auto simp: reached_match_def)
  have "i \<in> set r" if "match_fragment S j w = Some i" "j \<in> set r" for j
    using that
  proof (induction w arbitrary: j)
    case (Cons a w)
    then obtain q where q: "match_type S j a = Some q" "match_fragment S q w = Some i" by (auto split: option.splits)
    then have "(a, q) \<in> set (match_next (S ! j))" by (simp add: match_type_def map_of_SomeD)
    then have "q \<in> set r" using assms(1) Cons.prems(2) by (force simp: checked_def)
    with Cons.IH q(2) show ?case by blast
  qed simp
  then show ?thesis using w assms(1) by (auto simp: checked_def)
qed

lemma check_matches_outcome:
  assumes "matches_ok S" and "0 < length S"
  shows "case check_matches S gen of
      None \<Rightarrow> False
    | Some (Inl ts) \<Rightarrow> \<exists>i. reached_match S i \<and> dead_match S gen i \<and> ts = map fst (match_next (S ! i))
    | Some (Inr u) \<Rightarrow> \<forall>i. reached_match S i \<longrightarrow> \<not> dead_match S gen i"
  using check_from_outcome [OF assms(1) checked_start [OF assms(2)], of "Suc (length S)" gen]
  unfolding check_matches_def by (auto split: option.splits sum.splits dest: checked_all simp del: check_from.simps)

text \<open>
  C20. Making the content match of an expression without a range always ends. It is refused exactly
  when some sequence of node types leads to a match where the content may not end and every type
  that may follow is one the editor cannot make by itself, and the error then names the types of
  such a match.
\<close>
theorem content_match_made:
  assumes "range_free e"
  shows "\<exists>S. content_dfa (content_nfa e) = Some S \<and>
    (case make_matches gen e of
       None \<Rightarrow> False
     | Some (Inl ts) \<Rightarrow> \<exists>w i. match_fragment S 0 w = Some i \<and> \<not> valid_end (S ! i)
         \<and> (\<forall>a. match_type S i a \<noteq> None \<longrightarrow> \<not> gen a) \<and> ts = map fst (match_next (S ! i))
     | Some (Inr S') \<Rightarrow> S' = S \<and> (\<forall>w i. match_fragment S 0 w = Some i \<longrightarrow> valid_end (S ! i)
         \<or> (\<exists>a. match_type S i a \<noteq> None \<and> gen a)))"
proof -
  obtain S where S: "content_dfa (content_nfa e) = Some S" using content_match_exists [OF assms] ..
  have dead: "dead_match S gen i \<longleftrightarrow> \<not> valid_end (S ! i) \<and> (\<forall>a. match_type S i a \<noteq> None \<longrightarrow> \<not> gen a)" for i
    unfolding dead_match_def match_type_def map_of_eq_None_iff by (fastforce simp: list_all_iff)
  show ?thesis
    using check_matches_outcome [OF content_dfa_ok [OF S], of gen] S
    unfolding make_matches_def reached_match_def dead
    by (auto split: option.splits sum.splits)
qed

theorem content_match_made_witness:
  "make_matches (\<lambda>a. a = CHR ''p'') sample_expr = Some (Inr sample_matches)
   \<and> make_matches (\<lambda>a. a = CHR ''l'') sample_expr = Some (Inl ''p'')
   \<and> (\<exists>w i. match_fragment sample_matches 0 w = Some i \<and> \<not> valid_end (sample_matches ! i)
        \<and> ''p'' = map fst (match_next (sample_matches ! i)))"
proof -
  have a: "make_matches (\<lambda>a. a = CHR ''p'') sample_expr = Some (Inr sample_matches)"
    "make_matches (\<lambda>a. a = CHR ''l'') sample_expr = Some (Inl ''p'')" by code_simp+
  obtain S w i where S: "content_dfa (content_nfa sample_expr) = Some S"
    and made: "match_fragment S 0 w = Some i" "\<not> valid_end (S ! i)"
      "''p'' = map fst (match_next (S ! i))"
    using content_match_made [OF sample_expr_facts(2), of "\<lambda>a. a = CHR ''l''"]
    unfolding a(2) option.case sum.case by (elim exE conjE) (rule that)
  have "S = sample_matches" using S sample_expr_facts(3) by simp
  with a made show ?thesis by (intro conjI exI) simp_all
qed

end
