(* ===== verification/Content_Fuel.thy ===== *)
theory Content_Fuel
  imports Content_Totality
begin

text \<open>
  The fuel of \<open>rc\<close> and \<open>dm\<close> (\<open>public/js/filament/forms/components/rich-editor.js\<close>) is enough for every
  automaton: where some amount of fuel gives a result, the amount that \<open>null_from\<close> and \<open>content_dfa\<close>
  have gives it too, so that no result of theirs means that the script runs for ever or fails.
\<close>

section \<open>The nodes reached without a term\<close>

text \<open>The nodes found matter as a set only, but for their order in the result.\<close>

definition same_nodes :: "nat list option \<Rightarrow> nat list option \<Rightarrow> bool" where
  "same_nodes a b \<longleftrightarrow> rel_option (\<lambda>n m. set n = set m) a b"

lemma visit_edges_same:
  assumes "\<forall>q n m. set n = set m \<longrightarrow> same_nodes (g q n) (g q m)" and "set n = set m"
  shows "same_nodes (visit_edges g es n) (visit_edges g es m)"
  using assms(2)
proof (induction es arbitrary: n m)
  case (Cons e es)
  obtain t q where e: "e = (t, q)" by (cases e)
  show ?case
  proof (cases "t = None \<and> q \<noteq> None \<and> the q \<notin> set n")
    case True
    then obtain r where r: "e = (None, Some r)" "r \<notin> set n" "r \<notin> set m" using e Cons.prems by auto
    have "same_nodes (g r n) (g r m)" using assms(1) Cons.prems by blast
    then show ?thesis using Cons.IH r by (cases "g r n"; cases "g r m") (auto simp: same_nodes_def)
  next
    case False
    then show ?thesis using Cons e by (cases t; cases q) (auto simp: same_nodes_def)
  qed
qed (simp add: same_nodes_def)

lemma null_visit_same: "set n = set m \<Longrightarrow> same_nodes (null_visit k M p n) (null_visit k M p m)"
proof (induction k arbitrary: p n m)
  case (Suc k)
  show ?case
  proof (cases "single_eps M p")
    case True
    then show ?thesis using Suc by (cases "snd (M ! p ! 0)") (simp_all add: same_nodes_def)
  next
    case False
    then show ?thesis using visit_edges_same [of "null_visit k M" "n @ [p]" "m @ [p]"] Suc by simp
  qed
qed (simp add: same_nodes_def)

text \<open>\<open>P\<close> is kept by the visits that are made.\<close>

lemma visit_edges_agree:
  assumes "\<forall>q n1 n2. (None, Some q) \<in> set es \<longrightarrow> P n1 \<longrightarrow> g q n1 = Some n2 \<longrightarrow> P n2 \<and> h q n1 = Some n2"
    and "visit_edges g es n = Some n'" and "P n"
  shows "visit_edges h es n = Some n' \<and> P n'"
  using assms
proof (induction es arbitrary: n)
  case (Cons e es)
  obtain t q where e: "e = (t, q)" by (cases e)
  have tail: "\<forall>q n1 n2. (None, Some q) \<in> set es \<longrightarrow> P n1 \<longrightarrow> g q n1 = Some n2 \<longrightarrow> P n2 \<and> h q n1 = Some n2"
    using Cons.prems(1) by simp
  show ?case
  proof (cases "t = None \<and> q \<noteq> None \<and> the q \<notin> set n")
    case True
    then obtain r where r: "e = (None, Some r)" "r \<notin> set n" using e by auto
    with Cons.prems(2) obtain n2 where n2: "g r n = Some n2" "visit_edges g es n2 = Some n'" by (auto split: option.splits)
    with Cons.prems(1,3) r have "P n2" "h r n = Some n2" by auto
    with Cons.IH [OF tail n2(2)] r show ?thesis by simp
  next
    case False
    then show ?thesis using Cons.IH [OF tail] Cons.prems(2,3) e by (cases t; cases q) auto
  qed
qed simp

lemma null_visit_Suc: "null_visit k M p n = Some n' \<Longrightarrow> null_visit (Suc k) M p n = Some n'"
proof (induction k arbitrary: p n n')
  case (Suc k)
  show ?case
  proof (cases "single_eps M p")
    case True
    then show ?thesis using Suc by (cases "snd (M ! p ! 0)") auto
  next
    case False
    then have "visit_edges (null_visit k M) (M ! p) (n @ [p]) = Some n'" using Suc.prems by simp
    from visit_edges_agree [where P = "\<lambda>n. True", OF _ this, of "null_visit (Suc k) M"] Suc.IH False
    show ?thesis by simp
  qed
qed simp

lemma null_visit_le: "\<lbrakk>null_visit k M p n = Some n'; k \<le> k'\<rbrakk> \<Longrightarrow> null_visit k' M p n = Some n'"
  by (induction k') (auto simp: le_Suc_eq null_visit_Suc simp del: null_visit.simps)

lemma null_visit_keeps:
  assumes "stays_inside M"
  shows "\<lbrakk>null_visit k M p n = Some n'; p < length M; set n0 \<subseteq> set n; set n \<subseteq> {..<length M}\<rbrakk>
    \<Longrightarrow> set n0 \<subseteq> set n' \<and> set n' \<subseteq> {..<length M}"
proof (induction k arbitrary: p n n')
  case (Suc k)
  have to: "q < length M" if "(None, Some q) \<in> set (M ! p)" for q
    using stays_insideD [OF assms Suc.prems(2) that] .
  show ?case
  proof (cases "single_eps M p")
    case True
    with Suc.prems(1) obtain q where q: "snd (M ! p ! 0) = Some q" "null_visit k M q n = Some n'" by (auto split: option.splits)
    with Suc.IH [OF q(2) to Suc.prems(3,4)] single_eps_edges [OF True q(1)] show ?thesis by simp
  next
    case False
    then have v: "visit_edges (null_visit k M) (M ! p) (n @ [p]) = Some n'" using Suc.prems(1) by simp
    let ?P = "\<lambda>n. set n0 \<subseteq> set n \<and> set n \<subseteq> {..<length M}"
    have c: "\<forall>q n1 n2. (None, Some q) \<in> set (M ! p) \<longrightarrow> ?P n1 \<longrightarrow> null_visit k M q n1 = Some n2
        \<longrightarrow> ?P n2 \<and> null_visit k M q n1 = Some n2" using Suc.IH to by blast
    have "?P (n @ [p])" using Suc.prems(2-4) by auto
    from visit_edges_agree [where P = ?P, OF c v this] show ?thesis by blast
  qed
qed simp

text \<open>
  \<open>A\<close> are nodes that need more fuel with the nodes found so far: those whose visits are under way.
  A visit from one of them would not end, so the ones left and the nodes not found yet bound the fuel.
\<close>

definition visit_bound :: "'a nfa \<Rightarrow> nat list \<Rightarrow> nat set \<Rightarrow> nat" where
  "visit_bound M n A = (length M - card (set n)) * Suc (length M) + (length M - card A)"

lemma visit_bound_less:
  assumes "set n \<subseteq> {..<length M}" and "set n1 \<subseteq> {..<length M}" and "A \<subseteq> {..<length M}" and "p < length M" and "p \<notin> A"
    and "set n \<subseteq> set n1" and "A1 = (if set n1 = set n then insert p A else {})"
  shows "visit_bound M n1 A1 < visit_bound M n A"
proof -
  have A: "finite A" "insert p A \<subseteq> {..<length M}" using assms(3,4) finite_subset by auto
  then have "Suc (card A) \<le> length M" using card_mono [of "{..<length M}" "insert p A"] assms(5) by simp
  show ?thesis
  proof (cases "set n1 = set n")
    case True
    then show ?thesis using A(1) assms(5,7) \<open>Suc (card A) \<le> length M\<close> by (simp add: visit_bound_def)
  next
    case False
    then have "card (set n) < card (set n1)" using assms(6) by (intro psubset_card_mono) auto
    moreover have "card (set n1) \<le> length M" using card_mono [OF _ assms(2)] by simp
    ultimately have "Suc (length M - card (set n1)) * Suc (length M) \<le> (length M - card (set n)) * Suc (length M)"
      by (intro mult_le_mono1) linarith
    then show ?thesis using False assms(7) \<open>Suc (card A) \<le> length M\<close> by (simp add: visit_bound_def)
  qed
qed

lemma null_visit_bound:
  assumes "stays_inside M"
  shows "\<lbrakk>null_visit k M p n = Some n'; \<forall>a \<in> A. null_visit k M a n = None; A \<subseteq> {..<length M}; p < length M; set n \<subseteq> {..<length M}\<rbrakk>
    \<Longrightarrow> null_visit (Suc (visit_bound M n A)) M p n = Some n'"
proof (induction k arbitrary: p n n' A)
  case (Suc k)
  have less: "null_visit k M a n = None" if "a \<in> A" for a
    using null_visit_Suc [of k M a n] Suc.prems(2) that by (cases "null_visit k M a n") (auto simp del: null_visit.simps)
  show ?case
  proof (cases "null_visit k M p n")
    case (Some r)
    then have "null_visit k M p n = Some n'" using null_visit_Suc [OF Some] Suc.prems(1) by simp
    with Suc.IH less Suc.prems(3-5) show ?thesis by blast
  next
    case None
    have "p \<notin> A" using Suc.prems(1,2) by auto
    have call: "null_visit (visit_bound M n A) M q n1 = Some n2"
      if "null_visit k M q n1 = Some n2" "q < length M" "set n \<subseteq> set n1" "set n1 \<subseteq> {..<length M}" for q n1 n2
    proof -
      let ?A = "if set n1 = set n then insert p A else {}"
      have "null_visit k M a n1 = None" if "a \<in> ?A" for a
        using that None less null_visit_same [of n n1 k M a] by (auto simp: same_nodes_def split: if_splits)
      moreover have "?A \<subseteq> {..<length M}" using Suc.prems(3,4) by auto
      ultimately have "null_visit (Suc (visit_bound M n1 ?A)) M q n1 = Some n2" using Suc.IH that by blast
      then show ?thesis
        by (rule null_visit_le) (use visit_bound_less [OF Suc.prems(5) that(4) Suc.prems(3,4) \<open>p \<notin> A\<close> that(3) refl] in simp)
    qed
    show ?thesis
    proof (cases "single_eps M p")
      case True
      with Suc.prems(1) obtain q where q: "snd (M ! p ! 0) = Some q" "null_visit k M q n = Some n'" by (auto split: option.splits)
      have "(None, Some q) \<in> set (M ! p)" using single_eps_edges [OF True q(1)] by simp
      from call [OF q(2) stays_insideD [OF assms Suc.prems(4) this]] Suc.prems(5) True q(1) show ?thesis by simp
    next
      case False
      let ?P = "\<lambda>n1. set n \<subseteq> set n1 \<and> set n1 \<subseteq> {..<length M}"
      have to: "q < length M" if "(None, Some q) \<in> set (M ! p)" for q using stays_insideD [OF assms Suc.prems(4) that] .
      have c: "\<forall>q n1 n2. (None, Some q) \<in> set (M ! p) \<longrightarrow> ?P n1 \<longrightarrow> null_visit k M q n1 = Some n2
          \<longrightarrow> ?P n2 \<and> null_visit (visit_bound M n A) M q n1 = Some n2"
        using call to null_visit_keeps [OF assms] by blast
      have v: "visit_edges (null_visit k M) (M ! p) (n @ [p]) = Some n'" using Suc.prems(1) False by simp
      have "?P (n @ [p])" using Suc.prems(4,5) by auto
      from visit_edges_agree [where P = ?P, OF c v this] False show ?thesis by simp
    qed
  qed
qed simp

lemma null_from_fuel:
  assumes "stays_inside M" and "p < length M" and "null_visit k M p [] = Some n"
  shows "null_from M p = Some (sort_nodes n)"
proof -
  have "null_visit (Suc (visit_bound M [] {})) M p [] = Some n"
    by (rule null_visit_bound [OF assms(1,3)]) (use assms(2) in auto)
  moreover have "Suc (visit_bound M [] {}) = Suc (length M) * Suc (length M)" by (simp add: visit_bound_def)
  ultimately show ?thesis by (simp add: null_from_def del: null_visit.simps)
qed

section \<open>The matches\<close>

text \<open>A list of nodes that has a match is not explored again.\<close>

definition explores_as :: "nat list set \<Rightarrow> nat list set \<Rightarrow> (nat list \<Rightarrow> 'a content_match list \<Rightarrow> 'a content_match list option)
    \<Rightarrow> (nat list \<Rightarrow> 'a content_match list \<Rightarrow> 'a content_match list option) \<Rightarrow> bool" where
  "explores_as K B g h \<longleftrightarrow> (\<forall>l S S2. l \<in> K \<longrightarrow> B \<subseteq> match_label ` set S \<longrightarrow> l \<notin> match_label ` set S \<longrightarrow> g l S = Some S2
     \<longrightarrow> match_label ` set S \<subseteq> match_label ` set S2 \<and> h l S = Some S2)"

lemma next_edges_agree:
  assumes "explores_as K B g h" and "\<forall>(a, ls) \<in> set ys. sort_nodes ls \<in> K" and "B \<subseteq> match_label ` set S"
    and "next_edges g i ys S = Some S'"
  shows "next_edges h i ys S = Some S'"
  using assms(2-)
proof (induction ys arbitrary: S)
  case (Cons y ys)
  obtain a ls where y: "y = (a, ls)" by (cases y)
  have K: "sort_nodes ls \<in> K" "\<forall>(a, ls) \<in> set ys. sort_nodes ls \<in> K" using Cons.prems(1) y by auto
  show ?case
  proof (cases "match_at (sort_nodes ls) S")
    case None
    then have n: "sort_nodes ls \<notin> match_label ` set S" by (simp add: match_at_None)
    from Cons.prems(3) y None obtain S2 where S2: "g (sort_nodes ls) S = Some S2"
      "next_edges g i ys (push_next i a (length S) S2) = Some S'" by (auto split: option.splits)
    from assms(1) K(1) Cons.prems(2) n S2(1)
    have h: "match_label ` set S \<subseteq> match_label ` set S2" "h (sort_nodes ls) S = Some S2" unfolding explores_as_def by blast+
    from Cons.IH [OF K(2) _ S2(2)] h(1) Cons.prems(2) have "next_edges h i ys (push_next i a (length S) S2) = Some S'"
      unfolding push_next_labels by blast
    with y None h(2) show ?thesis by simp
  next
    case (Some j)
    with Cons.prems(3) y have "next_edges g i ys (push_next i a j S) = Some S'" by simp
    from Cons.IH [OF K(2) _ this] Cons.prems(2) have "next_edges h i ys (push_next i a j S) = Some S'"
      unfolding push_next_labels .
    with y Some show ?thesis by simp
  qed
qed simp

lemma unexplored_less:
  assumes "l \<in> node_lists (length M)" and "insert r (match_label ` set S) \<subseteq> match_label ` set S1" and "l \<notin> match_label ` set S1"
  shows "card (unexplored M S1 l) < card (unexplored M S r)"
proof -
  have "l \<in> unexplored M S r" "l \<notin> unexplored M S1 l" using assms by (auto simp: unexplored_def)
  moreover have "unexplored M S1 l \<subseteq> unexplored M S r" using assms(2) by (auto simp: unexplored_def)
  ultimately have "unexplored M S1 l \<subset> unexplored M S r" by blast
  then show ?thesis by (rule psubset_card_mono [rotated]) (simp add: unexplored_def node_lists_card)
qed

lemma explore_bound:
  assumes "stays_inside M"
  shows "\<lbrakk>explore k M r S = Some S'; set r \<subseteq> {..<length M}; card (unexplored M S r) < b\<rbrakk> \<Longrightarrow> explore b M r S = Some S'"
proof (induction k arbitrary: r S S' b)
  case (Suc k)
  from Suc.prems(3) obtain b' where b: "b = Suc b'" by (cases b) auto
  from Suc.prems(1) obtain ys where ys: "collect_nodes M r [] = Some ys"
    and e: "next_edges (explore k M) (length S) ys
      (S @ [\<lparr>match_label = r, valid_end = (length M - 1 \<in> set r), match_next = []\<rparr>]) = Some S'" (is "next_edges _ _ _ ?S = _")
    by (auto split: option.splits)
  have "explores_as (node_lists (length M)) (match_label ` set ?S) (explore k M) (explore b' M)"
    unfolding explores_as_def
  proof (intro allI impI)
    fix l S1 S2 assume l: "l \<in> node_lists (length M)" "match_label ` set ?S \<subseteq> match_label ` set S1"
      "l \<notin> match_label ` set S1" and g: "explore k M l S1 = Some S2"
    have "card (unexplored M S1 l) < b'" using unexplored_less [OF l(1) _ l(3), of r S] l(2) Suc.prems(3) b by simp
    with Suc.IH [OF g] l(1) have "explore b' M l S1 = Some S2" by (simp add: node_lists_def)
    with explore_grows [OF g] grows_labels
    show "match_label ` set S1 \<subseteq> match_label ` set S2 \<and> explore b' M l S1 = Some S2" by blast
  qed
  from next_edges_agree [OF this collect_lists [OF assms Suc.prems(2) ys] order_refl e] ys b show ?case by simp
qed simp

text \<open>So no content match is made with more fuel that is not made with the fuel given.\<close>

lemma content_dfa_fuel:
  assumes "stays_inside M" and "0 < length M" and "null_visit k M 0 [] = Some n" and "explore k' M (sort_nodes n) [] = Some S"
  shows "content_dfa M = Some S"
proof -
  note r = null_from_fuel [OF assms(1-3)]
  have "card (unexplored M [] (sort_nodes n)) \<le> card (node_lists (length M))"
    using node_lists_card by (intro card_mono) (auto simp: unexplored_def)
  then have "card (unexplored M [] (sort_nodes n)) < Suc (2 ^ length M)" using node_lists_card [of "length M"] by linarith
  from explore_bound [OF assms(1,4) null_from_set(4) [OF assms(1,2) r] this] r
  show ?thesis by (simp add: content_dfa_def del: explore.simps)
qed

end
