(* ===== verification/Column_Sync.thy ===== *)
theory Column_Sync
  imports Script_Text
begin

text \<open>
  Table cells that are edited in place, under
  \<open>public/js/filament/tables/components/columns\<close>: the check box and the toggle (\<open>checkbox.js\<close>,
  \<open>toggle.js\<close>), the text input (\<open>text-input.js\<close>) and the select (\<open>select.js\<close>, the component
  around the bundled select). A cell keeps its state beside a hidden input that says what the server
  has (\<open>$refs.serverState\<close>); a change sends the state to the server when the two differ, and what
  the server answers is written back to the input. Requests in flight are a queue; what the server
  saves is part of the model, its answers are arguments.
\<close>

section \<open>Cells\<close>

text \<open>What differs between the columns: how the input is read, the state compared, the input written, and the state set.\<close>

record ('v, 'r, 'n) column_kind =
  read_ref :: "'r \<Rightarrow> 'n"
  norm_state :: "'v \<Rightarrow> 'n"
  write_ref :: "'v \<Rightarrow> 'r"
  load_state :: "'n \<Rightarrow> 'v"

record ('v, 'r) cell =
  cell_state :: 'v
  cell_ref :: "'r option"
  cell_error :: "string option"
  cell_loading :: bool

text \<open>\<open>getServerState\<close>: undefined without the input.\<close>

definition server_state :: "('v, 'r, 'n) column_kind \<Rightarrow> ('v, 'r) cell \<Rightarrow> 'n option" where
  "server_state K c = map_option (read_ref K) (cell_ref c)"

text \<open>The watcher of the state, up to its request; and what follows the answer.\<close>

definition watch_state :: "('v, 'r, 'n) column_kind \<Rightarrow> ('v, 'r) cell \<Rightarrow> 'v option \<times> ('v, 'r) cell" where
  "watch_state K c =
     (case server_state K c of
        None \<Rightarrow> (None, c)
      | Some e \<Rightarrow> if norm_state K (cell_state c) = e then (None, c)
                 else (Some (cell_state c), c\<lparr>cell_loading := True\<rparr>))"

definition settle_update :: "('v, 'r, 'n) column_kind \<Rightarrow> string option \<Rightarrow> ('v, 'r) cell \<Rightarrow> ('v, 'r) cell" where
  "settle_update K err c =
     c\<lparr>cell_error := err,
       cell_ref := (if err = None then map_option (\<lambda>_. write_ref K (cell_state c)) (cell_ref c) else cell_ref c),
       cell_loading := False\<rparr>"

text \<open>After a message of Livewire: \<open>own\<close> says whether it is this component's.\<close>

definition message_done :: "('v, 'r, 'n) column_kind \<Rightarrow> bool \<Rightarrow> ('v, 'r) cell \<Rightarrow> ('v, 'r) cell" where
  "message_done K own c =
     (if cell_loading c \<or> \<not> own then c
      else (case server_state K c of
          None \<Rightarrow> c
        | Some e \<Rightarrow> if norm_state K (cell_state c) = e then c else c\<lparr>cell_state := load_state K e\<rparr>))"

section \<open>The columns\<close>

definition check_column :: "(bool, string, bool) column_kind" where
  "check_column = \<lparr>read_ref = (\<lambda>r. r = ''1''), norm_state = (\<lambda>v. v),
     write_ref = (\<lambda>v. if v then ''1'' else ''0''), load_state = (\<lambda>n. n)\<rparr>"

text \<open>\<open>replaceAll\<close> of a backslash and a quote by the quote.\<close>

fun unescape_quotes :: "string \<Rightarrow> string" where
  "unescape_quotes (a # b # s) =
     (if a = CHR 0x5C \<and> b = CHR 0x22 then CHR 0x22 # unescape_quotes s else a # unescape_quotes (b # s))"
| "unescape_quotes s = s"

definition text_column :: "(string option, string option, string) column_kind" where
  "text_column = \<lparr>read_ref = (\<lambda>r. unescape_quotes (or_empty r)), norm_state = or_empty,
     write_ref = (\<lambda>v. Some (or_empty v)), load_state = Some\<rparr>"

text \<open>The select hands the state to the bundled one first, unless it is a native select.\<close>

definition watch_select :: "bool \<Rightarrow> string option \<times> (string option, string option) cell
    \<Rightarrow> string option option \<times> string option \<times> (string option, string option) cell" where
  "watch_select native p =
     (case p of (w, c) \<Rightarrow> (case watch_state text_column c of
        (req, c') \<Rightarrow> (req, if \<not> native \<and> w \<noteq> cell_state c then cell_state c else w, c')))"

section \<open>A cell and the server\<close>

record ('v, 'r) cell_system =
  sys_cell :: "('v, 'r) cell"
  sys_queue :: "'v list"
  sys_server :: 'v

text \<open>
  The user's edit, the answer to the oldest request, and a message of the own component. The watcher
  runs after a message that sets the state too, but finds the input equal (\<open>message_agrees\<close>).
\<close>

datatype 'v cell_event = Edit 'v | Answer "string option" | Message

fun cell_step :: "('v, 'r, 'n) column_kind \<Rightarrow> 'v cell_event \<Rightarrow> ('v, 'r) cell_system \<Rightarrow> ('v, 'r) cell_system" where
  "cell_step K (Edit v) s =
     (case watch_state K (sys_cell s\<lparr>cell_state := v\<rparr>) of
        (None, c) \<Rightarrow> s\<lparr>sys_cell := c\<rparr>
      | (Some r, c) \<Rightarrow> s\<lparr>sys_cell := c, sys_queue := sys_queue s @ [r]\<rparr>)"
| "cell_step K (Answer err) s =
     (case sys_queue s of
        [] \<Rightarrow> s
      | r # rs \<Rightarrow> s\<lparr>sys_cell := settle_update K err (sys_cell s), sys_queue := rs,
                     sys_server := (if err = None then r else sys_server s)\<rparr>)"
| "cell_step K Message s = s\<lparr>sys_cell := message_done K True (sys_cell s)\<rparr>"

definition cell_steps :: "('v, 'r, 'n) column_kind \<Rightarrow> 'v cell_event list \<Rightarrow> ('v, 'r) cell_system \<Rightarrow> ('v, 'r) cell_system" where
  "cell_steps K es s = fold (cell_step K) es s"

definition synchronised :: "('v, 'r, 'n) column_kind \<Rightarrow> ('v, 'r) cell_system \<Rightarrow> bool" where
  "synchronised K s \<longleftrightarrow> sys_queue s = [] \<and> \<not> cell_loading (sys_cell s)
     \<and> server_state K (sys_cell s) = Some (norm_state K (cell_state (sys_cell s)))
     \<and> norm_state K (sys_server s) = norm_state K (cell_state (sys_cell s))"

text \<open>The cell's state is what the newest request carries; without one, it is the server's.\<close>

definition tracked :: "('v, 'r, 'n) column_kind \<Rightarrow> ('v, 'r) cell_system \<Rightarrow> bool" where
  "tracked K s \<longleftrightarrow> cell_ref (sys_cell s) \<noteq> None \<and>
     (if sys_queue s = [] then synchronised K s
      else norm_state K (last (sys_queue s)) = norm_state K (cell_state (sys_cell s))
        \<and> (cell_loading (sys_cell s) \<or> server_state K (sys_cell s) = Some (norm_state K (cell_state (sys_cell s)))))"

text \<open>No edit goes back to what the input has while requests are in flight.\<close>

definition forward_edit :: "('v, 'r, 'n) column_kind \<Rightarrow> 'v \<Rightarrow> ('v, 'r) cell_system \<Rightarrow> bool" where
  "forward_edit K v s \<longleftrightarrow> sys_queue s = [] \<or> server_state K (sys_cell s) \<noteq> Some (norm_state K v)"

text \<open>A run of such edits, of answers without an error, and of messages.\<close>

fun good_run :: "('v, 'r, 'n) column_kind \<Rightarrow> ('v \<Rightarrow> bool) \<Rightarrow> ('v, 'r) cell_system \<Rightarrow> 'v cell_event list \<Rightarrow> bool" where
  "good_run K ok s [] \<longleftrightarrow> True"
| "good_run K ok s (e # es) \<longleftrightarrow>
     (case e of Edit v \<Rightarrow> ok v \<and> forward_edit K v s | Answer err \<Rightarrow> err = None | Message \<Rightarrow> True)
     \<and> good_run K ok (cell_step K e s) es"

definition answer_all :: "('v, 'r, 'n) column_kind \<Rightarrow> ('v, 'r) cell_system \<Rightarrow> ('v, 'r) cell_system" where
  "answer_all K s = cell_steps K (replicate (length (sys_queue s)) (Answer None)) s"

section \<open>The contract of a column\<close>

locale column =
  fixes K :: "('v, 'r, 'n) column_kind"
    and ok :: "'v \<Rightarrow> bool"
  assumes read_write: "ok v \<Longrightarrow> read_ref K (write_ref K v) = norm_state K v"
    and norm_load: "norm_state K (load_state K n) = n"
begin

lemma message_agrees:
  assumes "\<not> cell_loading c" and "cell_ref c \<noteq> None"
  shows "server_state K (message_done K True c) = Some (norm_state K (cell_state (message_done K True c)))"
  using assms norm_load by (auto simp: message_done_def server_state_def)

lemma message_quiet:
  "\<lbrakk>\<not> cell_loading c; cell_ref c \<noteq> None\<rbrakk> \<Longrightarrow> watch_state K (message_done K True c) = (None, message_done K True c)"
  using message_agrees [of c] by (simp add: watch_state_def)

lemma edit_keeps_tracked:
  assumes "tracked K s" and "forward_edit K v s"
  shows "tracked K (cell_step K (Edit v) s)"
proof -
  obtain r where r: "cell_ref (sys_cell s) = Some r" using assms(1) by (auto simp: tracked_def)
  show ?thesis
  proof (cases "norm_state K v = read_ref K r")
    case True
    then have "sys_queue s = []" using assms(2) r by (simp add: forward_edit_def server_state_def)
    then have "synchronised K s" using assms(1) by (simp add: tracked_def)
    then show ?thesis
      using True r by (simp add: tracked_def synchronised_def watch_state_def server_state_def)
  qed (use r in \<open>simp add: tracked_def watch_state_def server_state_def\<close>)
qed

lemma answer_keeps_tracked:
  assumes "tracked K s" and "ok (cell_state (sys_cell s))"
  shows "tracked K (cell_step K (Answer None) s)"
proof (cases "sys_queue s")
  case (Cons r rs)
  then show ?thesis
    using assms read_write by (auto simp: tracked_def synchronised_def settle_update_def server_state_def)
qed (use assms(1) in simp)

lemma message_keeps_tracked:
  assumes "tracked K s"
  shows "cell_step K Message s = s"
  using assms by (auto simp: tracked_def synchronised_def message_done_def split: if_splits)

lemma run_keeps_tracked:
  assumes "tracked K s" and "ok (cell_state (sys_cell s))" and "good_run K ok s es"
  shows "tracked K (cell_steps K es s) \<and> ok (cell_state (sys_cell (cell_steps K es s)))"
  using assms
proof (induction es arbitrary: s)
  case Nil
  then show ?case by (simp add: cell_steps_def)
next
  case (Cons e es)
  have "tracked K (cell_step K e s) \<and> ok (cell_state (sys_cell (cell_step K e s)))"
  proof (cases e)
    case (Edit v)
    with Cons.prems edit_keeps_tracked [of s v] show ?thesis
      by (auto simp: watch_state_def split: option.split)
  next
    case (Answer err)
    with Cons.prems answer_keeps_tracked [of s] show ?thesis
      by (auto simp: settle_update_def split: list.split)
  next
    case Message
    with Cons.prems message_keeps_tracked [of s] show ?thesis by simp
  qed
  with Cons show ?case by (simp add: cell_steps_def)
qed

lemma answers_synchronise:
  assumes "tracked K s" and "ok (cell_state (sys_cell s))"
  shows "synchronised K (answer_all K s)"
  using assms
proof (induction "length (sys_queue s)" arbitrary: s)
  case 0
  then show ?case by (simp add: answer_all_def tracked_def cell_steps_def)
next
  case (Suc n)
  then obtain r rs where q: "sys_queue s = r # rs" by (cases "sys_queue s") auto
  let ?s = "cell_step K (Answer None) s"
  have s: "sys_queue ?s = rs" "cell_state (sys_cell ?s) = cell_state (sys_cell s)" using q by (simp_all add: settle_update_def)
  have "n = length (sys_queue ?s)" using Suc.hyps(2) q s(1) by simp
  then have "synchronised K (answer_all K ?s)"
    using Suc.hyps(1) answer_keeps_tracked [OF Suc.prems] Suc.prems(2) s(2) by simp
  then show ?case using q s(1) by (simp add: answer_all_def cell_steps_def)
qed

lemma run_synchronises:
  assumes "synchronised K s" and "ok (cell_state (sys_cell s))" and "good_run K ok s es"
  shows "synchronised K (answer_all K (cell_steps K es s))"
proof -
  have "tracked K s" using assms(1) by (auto simp: tracked_def synchronised_def server_state_def)
  from run_keeps_tracked [OF this assms(2,3)] show ?thesis using answers_synchronise by blast
qed

text \<open>After an answer with an error, the next message puts back what the server has.\<close>

lemma failed_edit_put_back:
  assumes "synchronised K s" and "s' = cell_steps K [Edit v, Answer (Some err), Message] s"
  shows "synchronised K s' \<and> sys_server s' = sys_server s"
proof -
  obtain r where r: "cell_ref (sys_cell s) = Some r" using assms(1) by (auto simp: synchronised_def server_state_def)
  then show ?thesis
    using assms norm_load
    by (auto simp: cell_steps_def synchronised_def server_state_def watch_state_def settle_update_def message_done_def)
qed

end

interpretation check: column check_column "\<lambda>_. True"
  by unfold_locales (simp_all add: check_column_def)

fun escaped_quote :: "string \<Rightarrow> bool" where
  "escaped_quote (a # b # s) \<longleftrightarrow> a = CHR 0x5C \<and> b = CHR 0x22 \<or> escaped_quote (b # s)"
| "escaped_quote s \<longleftrightarrow> False"

lemma unescape_plain: "\<not> escaped_quote s \<Longrightarrow> unescape_quotes s = s"
  by (induction s rule: unescape_quotes.induct) auto

interpretation entry: column text_column "\<lambda>v. \<not> escaped_quote (or_empty v)"
  by unfold_locales (simp_all add: text_column_def unescape_plain or_empty_def)

section \<open>Edited cells\<close>

text \<open>
  C27. A check box, toggle or text cell that agrees with the server, then sees a run of edits, answers
  and messages in which no edit goes back to what its hidden input has while a request is in flight,
  no text has a backslash before a quote and no answer is a refusal, shows what the server
  saved once the requests in flight are answered too, with no request and no loading state left.
\<close>
theorem settled_updates_synchronise:
  "(synchronised check_column s \<and> good_run check_column (\<lambda>_. True) s es
      \<longrightarrow> synchronised check_column (answer_all check_column (cell_steps check_column es s)))
   \<and> (synchronised text_column t \<and> \<not> escaped_quote (or_empty (cell_state (sys_cell t)))
        \<and> good_run text_column (\<lambda>v. \<not> escaped_quote (or_empty v)) t fs
      \<longrightarrow> synchronised text_column (answer_all text_column (cell_steps text_column fs t)))"
  by (simp add: check.run_synchronises entry.run_synchronises)

definition sample_check :: "(bool, string) cell_system" where
  "sample_check = \<lparr>sys_cell = \<lparr>cell_state = False, cell_ref = Some ''0'', cell_error = None, cell_loading = False\<rparr>,
     sys_queue = [], sys_server = False\<rparr>"

definition sample_entry :: "(string option, string option) cell_system" where
  "sample_entry = \<lparr>sys_cell = \<lparr>cell_state = Some ''a'', cell_ref = Some (Some ''a''), cell_error = None, cell_loading = False\<rparr>,
     sys_queue = [], sys_server = Some ''a''\<rparr>"

theorem settled_updates_synchronise_witness:
  "sys_server (answer_all check_column (cell_steps check_column [Edit True] sample_check)) = True
   \<and> synchronised check_column (answer_all check_column (cell_steps check_column [Edit True] sample_check))
   \<and> synchronised text_column (answer_all text_column
       (cell_steps text_column [Edit (Some ''b''), Edit (Some ''c''), Answer None, Message] sample_entry))"
proof -
  have s: "synchronised check_column sample_check \<and> good_run check_column (\<lambda>_. True) sample_check [Edit True]"
    "synchronised text_column sample_entry \<and> \<not> escaped_quote (or_empty (cell_state (sys_cell sample_entry)))
      \<and> good_run text_column (\<lambda>v. \<not> escaped_quote (or_empty v)) sample_entry
          [Edit (Some ''b''), Edit (Some ''c''), Answer None, Message]" by code_simp+
  have "sys_server (answer_all check_column (cell_steps check_column [Edit True] sample_check)) = True" by code_simp
  with settled_updates_synchronise [THEN conjunct1, THEN mp, OF s(1)]
    settled_updates_synchronise [THEN conjunct2, THEN mp, OF s(2)] show ?thesis by blast
qed

text \<open>
  When the server refuses an edit, the cell says why, and the next message of its table puts
  back the value that the server has; nothing was saved.
\<close>
theorem refused_edit_put_back:
  assumes "synchronised check_column s" and "synchronised text_column t"
  shows "synchronised check_column (cell_steps check_column [Edit v, Answer (Some err), Message] s)
    \<and> sys_server (cell_steps check_column [Edit v, Answer (Some err), Message] s) = sys_server s
    \<and> synchronised text_column (cell_steps text_column [Edit x, Answer (Some err), Message] t)
    \<and> sys_server (cell_steps text_column [Edit x, Answer (Some err), Message] t) = sys_server t"
  using check.failed_edit_put_back [OF assms(1) refl] entry.failed_edit_put_back [OF assms(2) refl] by simp_all

text \<open>
  What the exceptions come to: a check box that is set and unset before the first answer arrives
  stays set on the server, unnoticed; a text with a backslash before a quote is changed by the next
  message.
\<close>

theorem undone_toggle_lost:
  "let s = answer_all check_column (cell_steps check_column [Edit True, Edit False] sample_check)
   in sys_queue s = [] \<and> \<not> cell_loading (sys_cell s) \<and> cell_state (sys_cell s) = False \<and> sys_server s = True
     \<and> cell_step check_column Message s = s"
  by code_simp

theorem escaped_quote_lost:
  "let v = [CHR 0x5C, CHR 0x22];
       s = cell_steps text_column [Edit (Some v), Answer None, Message] sample_entry
   in sys_server s = Some v \<and> cell_state (sys_cell s) = Some [CHR 0x22]"
  by code_simp

end
