(* ===== verification/Column_Manager.thy ===== *)
theory Column_Manager
  imports Script_Text
begin

text \<open>
  The column manager of a table (\<open>public/js/filament/tables/tables.js\<close>, \<open>filamentTableColumnManager\<close>):
  the deferred copy of the table's columns in which columns and groups are switched and reordered,
  and its application to the table. A call to the server is part of the result; its answer is an
  argument of what follows it.
\<close>

section \<open>Columns and groups\<close>

record managed_column =
  mc_name :: string
  mc_hidden :: bool
  mc_toggleable :: bool
  mc_toggled :: bool

text \<open>An item of the list is a column or a group; only groups have columns of their own.\<close>

record managed_item = managed_column +
  mi_group :: bool
  mi_columns :: "managed_column list option"

record group_state =
  gs_hidden :: bool
  gs_checked :: bool
  gs_disabled :: bool
  gs_indeterminate :: bool

text \<open>\<open>calculateGroupedColumns\<close>, branch by branch.\<close>

definition group_state_of :: "managed_item \<Rightarrow> group_state" where
  "group_state_of g =
     (let cs = (case mi_columns g of None \<Rightarrow> [] | Some cs \<Rightarrow> cs);
          shown = filter (\<lambda>c. \<not> mc_hidden c) cs;
          able = filter mc_toggleable shown;
          l = length (filter mc_toggled able);
          fixed = filter (\<lambda>c. \<not> mc_toggleable c) shown
      in if shown = [] then \<lparr>gs_hidden = True, gs_checked = False, gs_disabled = False, gs_indeterminate = False\<rparr>
         else if able = [] then \<lparr>gs_hidden = False, gs_checked = True, gs_disabled = True, gs_indeterminate = False\<rparr>
         else if l = 0 \<and> fixed \<noteq> [] then \<lparr>gs_hidden = False, gs_checked = True, gs_disabled = False, gs_indeterminate = True\<rparr>
         else if l = 0 then \<lparr>gs_hidden = False, gs_checked = False, gs_disabled = False, gs_indeterminate = False\<rparr>
         else if l = length able then \<lparr>gs_hidden = False, gs_checked = True, gs_disabled = False, gs_indeterminate = False\<rparr>
         else \<lparr>gs_hidden = False, gs_checked = True, gs_disabled = False, gs_indeterminate = True\<rparr>)"

text \<open>\<open>groupedColumns\<close>: the state of each group by its name; a later group takes the name.\<close>

definition grouped_columns :: "managed_item list \<Rightarrow> string \<Rightarrow> group_state option" where
  "grouped_columns xs = map_of (rev (map (\<lambda>g. (mc_name g, group_state_of g)) (filter mi_group xs)))"

section \<open>Switching\<close>

definition set_toggled :: "bool \<Rightarrow> managed_column \<Rightarrow> managed_column" where
  "set_toggled b c = (if mc_toggleable c then c\<lparr>mc_toggled := b\<rparr> else c)"

definition is_group :: "string \<Rightarrow> managed_item \<Rightarrow> bool" where
  "is_group n x \<longleftrightarrow> mi_group x \<and> mc_name x = n"

text \<open>What \<open>toggleGroup\<close> writes to a group's columns: the new state, and the group.\<close>

definition group_target :: "managed_item \<Rightarrow> managed_column list \<Rightarrow> bool" where
  "group_target g cs = (if gs_indeterminate (group_state_of g) then True
     else \<not> list_ex mc_toggled (filter mc_toggleable cs))"

text \<open>The first item that \<open>P\<close> finds is changed in place.\<close>

fun update_first :: "('a \<Rightarrow> bool) \<Rightarrow> ('a \<Rightarrow> 'a) \<Rightarrow> 'a list \<Rightarrow> 'a list" where
  "update_first P f [] = []"
| "update_first P f (x # xs) = (if P x then f x # xs else x # update_first P f xs)"

record column_manager =
  cm_columns :: "managed_item list"
  cm_deferred :: "managed_item list"
  cm_live :: bool
  cm_reordered :: bool
  cm_loading :: bool
  cm_error :: "string option"

type_synonym manager_call = "managed_item list \<times> bool"

text \<open>
  \<open>applyTableColumnManager\<close> up to its call; the watcher of the columns then runs
  \<open>resetDeferredColumns\<close>. What follows the answer sets the error.
\<close>

definition reset_deferred :: "column_manager \<Rightarrow> column_manager" where
  "reset_deferred m = m\<lparr>cm_deferred := cm_columns m, cm_reordered := False\<rparr>"

definition apply_manager :: "column_manager \<Rightarrow> column_manager \<times> manager_call" where
  "apply_manager m =
     (let m1 = m\<lparr>cm_loading := True, cm_columns := cm_deferred m\<rparr>
      in (m1, (cm_columns m1, cm_reordered m1)))"

definition apply_answered :: "bool \<Rightarrow> column_manager \<Rightarrow> column_manager" where
  "apply_answered ok m =
     (if ok then m\<lparr>cm_reordered := False, cm_error := None, cm_loading := False\<rparr>
      else m\<lparr>cm_error := Some ''Failed to update column visibility'', cm_loading := False\<rparr>)"

definition apply_if_live :: "column_manager \<Rightarrow> column_manager \<times> manager_call option" where
  "apply_if_live m =
     (if cm_live m then (case apply_manager m of (m', c) \<Rightarrow> (m', Some c)) else (m, None))"

definition init_manager :: "managed_item list option \<Rightarrow> bool \<Rightarrow> column_manager" where
  "init_manager cols live =
     (let cs = (case cols of None \<Rightarrow> [] | Some cs \<Rightarrow> cs) in
      \<lparr>cm_columns = cs, cm_deferred = cs, cm_live = live, cm_reordered = False, cm_loading = False, cm_error = None\<rparr>)"

definition toggle_group :: "string \<Rightarrow> column_manager \<Rightarrow> column_manager \<times> manager_call option" where
  "toggle_group n m =
     (case find (is_group n) (cm_deferred m) of
        None \<Rightarrow> (m, None)
      | Some g \<Rightarrow>
          (case mi_columns g of
             None \<Rightarrow> (m, None)
           | Some cs \<Rightarrow>
               if gs_disabled (group_state_of g) then (m, None)
               else apply_if_live (m\<lparr>cm_deferred := update_first (is_group n)
                 (\<lambda>x. x\<lparr>mi_columns := Some (map (set_toggled (group_target g cs)) cs)\<rparr>) (cm_deferred m)\<rparr>)))"

text \<open>\<open>getColumn\<close> without a group looks at every item of the list; with one, at the group's columns.\<close>

definition toggle_column :: "string \<Rightarrow> string option \<Rightarrow> column_manager \<Rightarrow> column_manager \<times> manager_call option" where
  "toggle_column c grp m =
     (case grp of
        None \<Rightarrow>
          (case find (\<lambda>x. mc_name x = c) (cm_deferred m) of
             None \<Rightarrow> (m, None)
           | Some x \<Rightarrow> if \<not> mc_toggleable x then (m, None)
               else apply_if_live (m\<lparr>cm_deferred := update_first (\<lambda>x. mc_name x = c)
                 (\<lambda>x. x\<lparr>mc_toggled := \<not> mc_toggled x\<rparr>) (cm_deferred m)\<rparr>))
      | Some n \<Rightarrow>
          (case find (is_group n) (cm_deferred m) of
             None \<Rightarrow> (m, None)
           | Some g \<Rightarrow>
               (case mi_columns g of
                  None \<Rightarrow> (m, None)
                | Some cs \<Rightarrow>
                    (case find (\<lambda>x. mc_name x = c) cs of
                       None \<Rightarrow> (m, None)
                     | Some x \<Rightarrow> if \<not> mc_toggleable x then (m, None)
                         else apply_if_live (m\<lparr>cm_deferred := update_first (is_group n)
                           (\<lambda>y. y\<lparr>mi_columns := Some (update_first (\<lambda>x. mc_name x = c)
                              (\<lambda>x. x\<lparr>mc_toggled := \<not> mc_toggled x\<rparr>) cs)\<rparr>) (cm_deferred m)\<rparr>)))))"

section \<open>Reordering\<close>

text \<open>\<open>split("::")\<close>; an order names items by their kind and name.\<close>

fun split_colons :: "string \<Rightarrow> string list" where
  "split_colons (a # b # s) =
     (if a = CHR '':'' \<and> b = CHR '':'' then [] # split_colons s
      else (case split_colons (b # s) of [] \<Rightarrow> [[a]] | x # xs \<Rightarrow> (a # x) # xs))"
| "split_colons s = [s]"

text \<open>The two names of an order's entry; without a separator the second is undefined.\<close>

definition order_entry :: "string \<Rightarrow> string \<times> string option" where
  "order_entry s = (case split_colons s of k # n # _ \<Rightarrow> (k, Some n) | [k] \<Rightarrow> (k, None) | [] \<Rightarrow> ([], None))"

definition entry_names :: "string \<times> string option \<Rightarrow> managed_item \<Rightarrow> bool" where
  "entry_names e x =
     (if fst e = ''group'' then mi_group x \<and> Some (mc_name x) = snd e
      else if fst e = ''column'' then \<not> mi_group x \<and> Some (mc_name x) = snd e
      else False)"

definition reorder_top_level :: "string list \<Rightarrow> managed_item list \<Rightarrow> managed_item list" where
  "reorder_top_level order xs = List.map_filter (\<lambda>s. find (entry_names (order_entry s)) xs) order"

definition reorder_columns :: "string list \<Rightarrow> column_manager \<Rightarrow> column_manager \<times> manager_call option" where
  "reorder_columns order m =
     apply_if_live (m\<lparr>cm_deferred := reorder_top_level order (cm_deferred m), cm_reordered := True\<rparr>)"

text \<open>A group without columns makes the script fail, unless the order is empty.\<close>

definition reorder_group_columns :: "string list \<Rightarrow> string \<Rightarrow> column_manager \<Rightarrow> (column_manager \<times> manager_call option) option" where
  "reorder_group_columns order n m =
     (case find (is_group n) (cm_deferred m) of
        None \<Rightarrow> Some (m, None)
      | Some g \<Rightarrow>
          (case (mi_columns g, order) of
             (None, _ # _) \<Rightarrow> None
           | (cs, _) \<Rightarrow>
               Some (apply_if_live (m\<lparr>cm_deferred := update_first (is_group n)
                 (\<lambda>x. x\<lparr>mi_columns := Some (List.map_filter
                    (\<lambda>s. find (\<lambda>c. Some (mc_name c) = snd (order_entry s)) (case cs of None \<Rightarrow> [] | Some l \<Rightarrow> l)) order)\<rparr>)
                 (cm_deferred m), cm_reordered := True\<rparr>))))"

section \<open>What switching and reordering do\<close>

lemma update_first_found:
  "\<lbrakk>find P xs = Some x; \<forall>y. P y \<longrightarrow> P (f y)\<rbrakk> \<Longrightarrow> find P (update_first P f xs) = Some (f x)"
  by (induction xs) (auto split: if_splits)

lemma update_first_others: "\<lbrakk>\<forall>y. P y \<longrightarrow> h (f y) = h y\<rbrakk> \<Longrightarrow> map h (update_first P f xs) = map h xs"
  by (induction xs) auto

text \<open>An item's entry in an order, and names that can stand in one.\<close>

definition item_entry :: "managed_item \<Rightarrow> string" where
  "item_entry x = (if mi_group x then ''group'' else ''column'') @ ''::'' @ mc_name x"

fun colon_free :: "string \<Rightarrow> bool" where
  "colon_free (a # b # s) \<longleftrightarrow> \<not> (a = CHR '':'' \<and> b = CHR '':'') \<and> colon_free (b # s)"
| "colon_free s \<longleftrightarrow> True"

lemma split_plain: "colon_free s \<Longrightarrow> split_colons s = [s]"
  by (induction s rule: split_colons.induct) auto

lemma split_entry_group: "split_colons (''group::'' @ s) = ''group'' # split_colons s"
  and split_entry_column: "split_colons (''column::'' @ s) = ''column'' # split_colons s"
  by simp_all

definition item_key :: "managed_item \<Rightarrow> bool \<times> string" where
  "item_key x = (mi_group x, mc_name x)"

lemma entry_of_item:
  assumes "colon_free (mc_name x)"
  shows "entry_names (order_entry (item_entry x)) y \<longleftrightarrow> item_key y = item_key x"
proof (cases "mi_group x")
  case True
  then have "order_entry (item_entry x) = (''group'', Some (mc_name x))"
    using split_entry_group [of "mc_name x"] split_plain [OF assms] by (simp add: order_entry_def item_entry_def)
  with True show ?thesis by (auto simp: entry_names_def item_key_def)
next
  case False
  then have "order_entry (item_entry x) = (''column'', Some (mc_name x))"
    using split_entry_column [of "mc_name x"] split_plain [OF assms] by (simp add: order_entry_def item_entry_def)
  with False show ?thesis by (auto simp: entry_names_def item_key_def)
qed

lemma find_distinct:
  assumes "distinct (map k xs)" and "x \<in> set xs"
  shows "find (\<lambda>y. k y = k x) xs = Some x"
  using assms by (induction xs) (auto simp: image_iff)

lemma map_filter_all: "\<forall>x \<in> set ys. f (g x) = Some x \<Longrightarrow> List.map_filter f (map g ys) = ys"
  by (induction ys) (simp_all add: List.map_filter_simps)

lemma group_state_iff:
  assumes "mi_columns g = Some cs"
  defines "able \<equiv> filter (\<lambda>c. \<not> mc_hidden c \<and> mc_toggleable c) cs"
  shows "gs_disabled (group_state_of g) \<longleftrightarrow> filter (\<lambda>c. \<not> mc_hidden c) cs \<noteq> [] \<and> able = []"
    and "gs_indeterminate (group_state_of g) \<Longrightarrow> able \<noteq> [] \<and> filter mc_toggled able \<noteq> able"
proof -
  have a: "filter mc_toggleable (filter (\<lambda>c. \<not> mc_hidden c) cs) = able" by (simp add: able_def conj_commute)
  show "gs_disabled (group_state_of g) \<longleftrightarrow> filter (\<lambda>c. \<not> mc_hidden c) cs \<noteq> [] \<and> able = []"
    unfolding group_state_of_def Let_def assms(1) option.case a by simp
  show "gs_indeterminate (group_state_of g) \<Longrightarrow> able \<noteq> [] \<and> filter mc_toggled able \<noteq> able"
    unfolding group_state_of_def Let_def assms(1) option.case a by (auto split: if_splits)
qed

lemma group_state_toggled:
  assumes "mi_columns g = Some cs" and "\<exists>c \<in> set cs. mc_toggleable c"
  defines "h b \<equiv> g\<lparr>mi_columns := Some (map (set_toggled b) cs)\<rparr>"
  shows "gs_disabled (group_state_of (h b)) = gs_disabled (group_state_of g)"
    and "group_target (h b) (map (set_toggled b) cs) = (\<not> b)"
proof -
  have h: "mi_columns (h b) = Some (map (set_toggled b) cs)" by (simp add: h_def)
  have "filter P (map (set_toggled b) cs) = [] \<longleftrightarrow> filter P cs = []" if "\<forall>c. P (set_toggled b c) = P c" for P
    using that by (auto simp: filter_empty_conv)
  from this [of "\<lambda>c. \<not> mc_hidden c"] this [of "\<lambda>c. \<not> mc_hidden c \<and> mc_toggleable c"]
  show "gs_disabled (group_state_of (h b)) = gs_disabled (group_state_of g)"
    unfolding group_state_iff(1) [OF h] group_state_iff(1) [OF assms(1)] by (simp add: set_toggled_def)
  have ex: "list_ex mc_toggled (filter mc_toggleable (map (set_toggled b) cs)) = b"
    using assms(2) by (auto simp: list_ex_iff set_toggled_def)
  have "\<not> gs_indeterminate (group_state_of (h b))" if b
  proof
    assume i: "gs_indeterminate (group_state_of (h b))"
    have "filter mc_toggled (filter (\<lambda>c. \<not> mc_hidden c \<and> mc_toggleable c) (map (set_toggled b) cs))
        = filter (\<lambda>c. \<not> mc_hidden c \<and> mc_toggleable c) (map (set_toggled b) cs)"
      using that by (intro filter_True) (auto simp: set_toggled_def)
    with group_state_iff(2) [OF h i] show False by blast
  qed
  then show "group_target (h b) (map (set_toggled b) cs) = (\<not> b)"
    unfolding group_target_def ex by auto
qed

lemma toggle_group_found:
  assumes "find (is_group n) (cm_deferred m) = Some g" and "mi_columns g = Some cs"
    and "\<not> gs_disabled (group_state_of g)"
  shows "find (is_group n) (cm_deferred (fst (toggle_group n m))) = Some (g\<lparr>mi_columns := Some (map (set_toggled (group_target g cs)) cs)\<rparr>)"
    and "filter (\<lambda>x. \<not> is_group n x) (cm_deferred (fst (toggle_group n m))) = filter (\<lambda>x. \<not> is_group n x) (cm_deferred m)"
proof -
  let ?f = "\<lambda>x. x\<lparr>mi_columns := Some (map (set_toggled (group_target g cs)) cs)\<rparr>"
  have d: "cm_deferred (fst (toggle_group n m)) = update_first (is_group n) ?f (cm_deferred m)"
    using assms by (simp add: toggle_group_def apply_if_live_def apply_manager_def Let_def)
  have keep: "\<forall>y. is_group n y \<longrightarrow> is_group n (?f y)" by (simp add: is_group_def)
  show "find (is_group n) (cm_deferred (fst (toggle_group n m))) = Some (?f g)"
    unfolding d by (rule update_first_found [OF assms(1) keep])
  have "filter (\<lambda>x. \<not> is_group n x) (update_first (is_group n) ?f xs) = filter (\<lambda>x. \<not> is_group n x) xs" for xs
    using keep by (induction xs) auto
  then show "filter (\<lambda>x. \<not> is_group n x) (cm_deferred (fst (toggle_group n m))) = filter (\<lambda>x. \<not> is_group n x) (cm_deferred m)"
    unfolding d .
qed

section \<open>The properties of the column manager\<close>

text \<open>
  Switching a group sets all its columns that can be switched, hidden ones too, to one state and leaves
  its other columns and everything outside the group alone; switching it again sets the opposite.
\<close>
theorem group_switch_alternates:
  assumes "find (is_group n) (cm_deferred m) = Some g" and "mi_columns g = Some cs"
    and "\<not> gs_disabled (group_state_of g)" and "\<exists>c \<in> set cs. mc_toggleable c"
  shows "let m1 = fst (toggle_group n m); m2 = fst (toggle_group n m1); b = group_target g cs
    in find (is_group n) (cm_deferred m1) = Some (g\<lparr>mi_columns := Some (map (set_toggled b) cs)\<rparr>)
      \<and> find (is_group n) (cm_deferred m2) = Some (g\<lparr>mi_columns := Some (map (set_toggled (\<not> b)) cs)\<rparr>)
      \<and> filter (\<lambda>x. \<not> is_group n x) (cm_deferred m2) = filter (\<lambda>x. \<not> is_group n x) (cm_deferred m)"
proof -
  let ?b = "group_target g cs" and ?m1 = "fst (toggle_group n m)"
  let ?g1 = "g\<lparr>mi_columns := Some (map (set_toggled ?b) cs)\<rparr>"
  note one = toggle_group_found [OF assms(1-3)]
  note st = group_state_toggled [OF assms(2,4), of ?b]
  have "\<not> gs_disabled (group_state_of ?g1)" using st(1) assms(3) by simp
  from toggle_group_found [OF one(1) _ this, of "map (set_toggled ?b) cs"] st(2)
  have two: "find (is_group n) (cm_deferred (fst (toggle_group n ?m1)))
      = Some (?g1\<lparr>mi_columns := Some (map (set_toggled (\<not> ?b)) (map (set_toggled ?b) cs))\<rparr>)"
    "filter (\<lambda>x. \<not> is_group n x) (cm_deferred (fst (toggle_group n ?m1))) = filter (\<lambda>x. \<not> is_group n x) (cm_deferred ?m1)"
    by simp_all
  have "map (set_toggled (\<not> ?b)) (map (set_toggled ?b) cs) = map (set_toggled (\<not> ?b)) cs"
    by (simp add: set_toggled_def)
  with one two show ?thesis by (simp add: Let_def)
qed

text \<open>A hidden column that is on makes the click on an unchecked group go unseen.\<close>

theorem hidden_column_swallows_click:
  "let c = (\<lambda>n h s. \<lparr>mc_name = n, mc_hidden = h, mc_toggleable = True, mc_toggled = s\<rparr>);
       g = \<lparr>mc_name = ''g'', mc_hidden = False, mc_toggleable = True, mc_toggled = False, mi_group = True,
            mi_columns = Some [c ''a'' False False, c ''b'' True True]\<rparr>;
       m = init_manager (Some [g]) False; m1 = fst (toggle_group ''g'' m)
   in map_option gs_checked (grouped_columns (cm_deferred m) ''g'') = Some False
     \<and> map_option gs_checked (grouped_columns (cm_deferred m1) ''g'') = Some False"
  by code_simp

text \<open>
  Dragging the entries of the column manager into another order gives exactly that order: no
  column or group is lost or doubled, when names are distinct and hold no double colon; the change
  is marked as a reordering, and a live manager sends it.
\<close>
theorem column_order_follows_drag:
  assumes "mset ys = mset (cm_deferred m)" and "distinct (map item_key (cm_deferred m))"
    and "\<forall>x \<in> set (cm_deferred m). colon_free (mc_name x)"
  shows "case reorder_columns (map item_entry ys) m of (m', call) \<Rightarrow>
      cm_deferred m' = ys \<and> cm_reordered m' \<and> call = (if cm_live m then Some (ys, True) else None)"
proof -
  have "set ys = set (cm_deferred m)" using assms(1) by (metis set_mset_mset)
  moreover have "find (entry_names (order_entry (item_entry x))) (cm_deferred m) = Some x" if "x \<in> set (cm_deferred m)" for x
  proof -
    have "entry_names (order_entry (item_entry x)) = (\<lambda>y. item_key y = item_key x)"
      using entry_of_item assms(3) that by (intro HOL.ext) simp
    then show ?thesis using find_distinct [OF assms(2) that] by simp
  qed
  ultimately have "\<forall>x \<in> set ys. find (entry_names (order_entry (item_entry x))) (cm_deferred m) = Some x" by simp
  from map_filter_all [where f = "\<lambda>s. find (entry_names (order_entry s)) (cm_deferred m)" and g = item_entry, OF this]
  have "reorder_top_level (map item_entry ys) (cm_deferred m) = ys"
    by (simp add: reorder_top_level_def)
  then show ?thesis by (simp add: reorder_columns_def apply_if_live_def apply_manager_def Let_def)
qed

end
