(* ===== verification/Panel_Shell.thy ===== *)
theory Panel_Shell
  imports Script_Text
begin

text \<open>
  The frame of a panel: the sidebar, the theme and the notification of failed requests
  (\<open>public/js/filament/filament/app.js\<close>), a notification on the page
  (\<open>public/js/filament/notifications/notifications.js\<close>), the height of a text area
  (\<open>forms/components/textarea.js\<close>) and the width of sticky actions (\<open>schemas/components/actions.js\<close>).
  The width of the window, what the style sheets say and the measures of elements are arguments.
\<close>

section \<open>The sidebar\<close>

text \<open>The persisted groups are null at first; the script then fails where it reads them.\<close>

record sidebar =
  sb_open :: bool
  sb_desktop :: bool
  sb_groups :: "string list option"

definition is_desktop :: "int \<Rightarrow> bool" where
  "is_desktop w \<longleftrightarrow> 1024 \<le> w"

definition close_sidebar :: "int \<Rightarrow> sidebar \<Rightarrow> sidebar" where
  "close_sidebar w s = (let s1 = s\<lparr>sb_open := False\<rparr> in if is_desktop w then s1\<lparr>sb_desktop := False\<rparr> else s1)"

definition open_sidebar :: "int \<Rightarrow> sidebar \<Rightarrow> sidebar" where
  "open_sidebar w s = (let s1 = s\<lparr>sb_open := True\<rparr> in if is_desktop w then s1\<lparr>sb_desktop := True\<rparr> else s1)"

text \<open>\<open>setUpResizeObserver\<close>, at the start and after a navigation; and its observer, from width \<open>t\<close> to \<open>w\<close>.\<close>

definition set_up_observer :: "int \<Rightarrow> sidebar \<Rightarrow> sidebar" where
  "set_up_observer w s =
     (if \<not> is_desktop w then (if sb_open s then close_sidebar w (s\<lparr>sb_desktop := True\<rparr>) else s)
      else s\<lparr>sb_open := sb_desktop s\<rparr>)"

definition sidebar_resized :: "int \<Rightarrow> int \<Rightarrow> sidebar \<Rightarrow> sidebar" where
  "sidebar_resized t w s =
     (if is_desktop t \<and> \<not> is_desktop w then
        (let s1 = s\<lparr>sb_desktop := sb_open s\<rparr> in if sb_open s1 then close_sidebar w s1 else s1)
      else if \<not> is_desktop t \<and> is_desktop w then s\<lparr>sb_open := sb_desktop s\<rparr>
      else s)"

definition group_is_collapsed :: "string \<Rightarrow> sidebar \<Rightarrow> bool option" where
  "group_is_collapsed g s = map_option (\<lambda>gs. g \<in> set gs) (sb_groups s)"

definition collapse_group :: "string \<Rightarrow> sidebar \<Rightarrow> sidebar option" where
  "collapse_group g s = map_option (\<lambda>gs. if g \<in> set gs then s else s\<lparr>sb_groups := Some (gs @ [g])\<rparr>) (sb_groups s)"

definition toggle_collapsed_group :: "string \<Rightarrow> sidebar \<Rightarrow> sidebar option" where
  "toggle_collapsed_group g s =
     map_option (\<lambda>gs. s\<lparr>sb_groups := Some (if g \<in> set gs then filter (\<lambda>n. n \<noteq> g) gs else gs @ [g])\<rparr>) (sb_groups s)"

text \<open>What happens while the window stays narrow: opening and closing, resizing, moving to another page.\<close>

datatype sidebar_event = OpenSide | CloseSide | ResizeTo int

definition sidebar_event_step :: "sidebar_event \<Rightarrow> int \<times> sidebar \<Rightarrow> int \<times> sidebar" where
  "sidebar_event_step e p =
     (case p of (w, s) \<Rightarrow>
       (case e of
          OpenSide \<Rightarrow> (w, open_sidebar w s)
        | CloseSide \<Rightarrow> (w, close_sidebar w s)
        | ResizeTo w' \<Rightarrow> (w', sidebar_resized w w' s)))"

definition sidebar_events :: "sidebar_event list \<Rightarrow> int \<times> sidebar \<Rightarrow> int \<times> sidebar" where
  "sidebar_events es p = fold sidebar_event_step es p"

definition desktop_settled :: "int \<times> sidebar \<Rightarrow> bool" where
  "desktop_settled p \<longleftrightarrow> (is_desktop (fst p) \<longrightarrow> sb_open (snd p) = sb_desktop (snd p))"

lemma sidebar_settled: "desktop_settled p \<Longrightarrow> desktop_settled (sidebar_events es p)"
  unfolding sidebar_events_def
  by (induction es arbitrary: p)
    (auto simp: sidebar_event_step_def desktop_settled_def open_sidebar_def close_sidebar_def sidebar_resized_def Let_def
      split: sidebar_event.split prod.splits)

text \<open>Opening and closing the sidebar on a narrow window is forgotten when the window is wide again.\<close>

fun stays_narrow :: "sidebar_event list \<Rightarrow> bool" where
  "stays_narrow [] \<longleftrightarrow> True"
| "stays_narrow (ResizeTo w # es) \<longleftrightarrow> \<not> is_desktop w \<and> stays_narrow es"
| "stays_narrow (e # es) \<longleftrightarrow> stays_narrow es"

lemma narrow_keeps_desktop:
  "\<lbrakk>\<not> is_desktop (fst p); stays_narrow es\<rbrakk> \<Longrightarrow>
     \<not> is_desktop (fst (sidebar_events es p)) \<and> sb_desktop (snd (sidebar_events es p)) = sb_desktop (snd p)"
proof (induction es arbitrary: p)
  case (Cons e es)
  have "\<not> is_desktop (fst (sidebar_event_step e p)) \<and> sb_desktop (snd (sidebar_event_step e p)) = sb_desktop (snd p)
      \<and> stays_narrow es"
    using Cons.prems
    by (cases e) (auto simp: sidebar_event_step_def open_sidebar_def close_sidebar_def sidebar_resized_def Let_def split: prod.splits)
  with Cons.IH show ?case by (simp add: sidebar_events_def)
qed (simp add: sidebar_events_def)

theorem desktop_sidebar_restored:
  assumes "is_desktop t" and "is_desktop w" and "\<not> is_desktop v" and "stays_narrow es"
  shows "sb_open (snd (sidebar_events (ResizeTo v # es @ [ResizeTo w]) (t, s))) = sb_open s"
proof -
  let ?s1 = "sidebar_resized t v s"
  have d: "sb_desktop ?s1 = sb_open s" using assms(1,3) by (simp add: sidebar_resized_def close_sidebar_def Let_def)
  obtain w' s' where e: "sidebar_events es (v, ?s1) = (w', s')" by fastforce
  from narrow_keeps_desktop [of "(v, ?s1)", OF _ assms(4)] assms(3) e d have "\<not> is_desktop w'" "sb_desktop s' = sb_open s" by auto
  then show ?thesis
    using e assms(2) by (simp add: sidebar_events_def sidebar_event_step_def sidebar_resized_def)
qed

text \<open>A navigation on a narrow window with the sidebar open forgets that it was closed on wide ones.\<close>

theorem navigation_reopens_desktop:
  "let s = snd (sidebar_events [CloseSide, ResizeTo 800, OpenSide] (1200, \<lparr>sb_open = True, sb_desktop = True, sb_groups = None\<rparr>))
   in \<not> sb_desktop s \<and> sb_open (sidebar_resized 800 1200 (set_up_observer 800 s))"
  by code_simp

lemma toggle_group_twice:
  assumes "sb_groups s = Some gs" and "distinct gs"
  shows "\<exists>s' s''. toggle_collapsed_group g s = Some s' \<and> toggle_collapsed_group g s' = Some s''
    \<and> group_is_collapsed g s' = Some (g \<notin> set gs) \<and> group_is_collapsed g s'' = Some (g \<in> set gs)"
  using assms by (auto simp: toggle_collapsed_group_def group_is_collapsed_def)

section \<open>The theme\<close>

record theme_state =
  th_stored :: "string option"
  th_default :: string
  th_prefers_dark :: bool
  th_theme :: string

definition resolved_theme :: "string \<Rightarrow> bool \<Rightarrow> string" where
  "resolved_theme t d = (if t = ''dark'' \<or> t = ''system'' \<and> d then ''dark'' else ''light'')"

definition init_theme :: "string option \<Rightarrow> string \<Rightarrow> bool \<Rightarrow> theme_state" where
  "init_theme stored def d =
     \<lparr>th_stored = stored, th_default = def, th_prefers_dark = d,
      th_theme = resolved_theme (case stored of Some t \<Rightarrow> t | None \<Rightarrow> def) d\<rparr>"

text \<open>The event \<open>theme-changed\<close> keeps any other name as it is; then a change of what the system prefers.\<close>

definition theme_changed :: "string \<Rightarrow> theme_state \<Rightarrow> theme_state" where
  "theme_changed t s =
     s\<lparr>th_stored := Some t,
       th_theme := (if t = ''system'' then if th_prefers_dark s then ''dark'' else ''light'' else t)\<rparr>"

definition preference_changed :: "bool \<Rightarrow> theme_state \<Rightarrow> theme_state" where
  "preference_changed d s =
     (let s1 = s\<lparr>th_prefers_dark := d\<rparr> in
      if th_stored s1 = Some ''system'' then s1\<lparr>th_theme := (if d then ''dark'' else ''light'')\<rparr> else s1)"

definition dark_class :: "theme_state \<Rightarrow> bool" where
  "dark_class s \<longleftrightarrow> th_theme s = ''dark''"

datatype theme_event = ThemeChanged string | PreferenceChanged bool

definition theme_step :: "theme_event \<Rightarrow> theme_state \<Rightarrow> theme_state" where
  "theme_step e s = (case e of ThemeChanged t \<Rightarrow> theme_changed t s | PreferenceChanged d \<Rightarrow> preference_changed d s)"

definition theme_shown :: "theme_state \<Rightarrow> bool" where
  "theme_shown s \<longleftrightarrow> (dark_class s \<longleftrightarrow>
     resolved_theme (case th_stored s of Some t \<Rightarrow> t | None \<Rightarrow> th_default s) (th_prefers_dark s) = ''dark'')"

lemma theme_step_shown:
  "\<lbrakk>theme_shown s; th_stored s \<noteq> None \<or> th_default s \<noteq> ''system''\<rbrakk> \<Longrightarrow>
     theme_shown (theme_step e s) \<and> (th_stored (theme_step e s) \<noteq> None \<or> th_default (theme_step e s) \<noteq> ''system'')"
  by (auto simp: theme_shown_def theme_step_def theme_changed_def preference_changed_def dark_class_def resolved_theme_def Let_def
      split: theme_event.split option.splits)

lemma init_theme_shown: "theme_shown (init_theme stored def d)"
  by (simp add: theme_shown_def init_theme_def dark_class_def split: option.split)

text \<open>
  The page is dark exactly when the chosen theme asks for it, whatever the user and the system do,
  provided a theme was chosen or the default is not that of the system; otherwise a change of the
  system's preference goes unseen.
\<close>

theorem theme_follows_choice:
  assumes "stored \<noteq> None \<or> def \<noteq> ''system''"
  shows "theme_shown (fold theme_step es (init_theme stored def d))"
proof -
  have "theme_shown s \<Longrightarrow> th_stored s \<noteq> None \<or> th_default s \<noteq> ''system'' \<Longrightarrow> theme_shown (fold theme_step es s)" for s
  proof (induction es arbitrary: s)
    case (Cons e es)
    from theme_step_shown [OF Cons.prems, of e] show ?case by (simp only: fold.simps comp_apply Cons.IH)
  qed simp
  then show ?thesis using init_theme_shown assms by (simp add: init_theme_def)
qed

theorem default_system_theme_stale:
  "\<not> theme_shown (theme_step (PreferenceChanged True) (init_theme None ''system'' False))"
  by code_simp

section \<open>Failed requests\<close>

record error_entry =
  ee_title :: string
  ee_body :: string
  ee_disabled :: bool
  ee_hidden :: bool

datatype error_reaction = IgnoreError | PreventError "(string \<times> string) option" | ScriptError

text \<open>
  The configured notifications by status, the empty status standing for all others; \<open>comps\<close> says of
  each component of the request whether it is the one of the notifications, and is empty when the
  payload cannot be read.
\<close>

definition on_request_error :: "(string \<rightharpoonup> error_entry) option \<Rightarrow> bool list \<Rightarrow> string option \<Rightarrow> error_reaction" where
  "on_request_error conf comps status =
     (case conf of
        None \<Rightarrow> IgnoreError
      | Some c \<Rightarrow>
          if length comps = 1 \<and> list_ex (\<lambda>b. b) comps then IgnoreError
          else (case (case c (case status of None \<Rightarrow> [] | Some y \<Rightarrow> y) of None \<Rightarrow> c [] | Some v \<Rightarrow> Some v) of
              None \<Rightarrow> ScriptError
            | Some v \<Rightarrow>
                if ee_disabled v then IgnoreError
                else PreventError (if ee_hidden v then None else Some (ee_title v, ee_body v))))"

definition on_request_failure :: "(string \<rightharpoonup> error_entry) option \<Rightarrow> error_reaction" where
  "on_request_failure conf =
     (case conf of None \<Rightarrow> IgnoreError
      | Some c \<Rightarrow> (case c [] of None \<Rightarrow> ScriptError | Some w \<Rightarrow> PreventError (Some (ee_title w, ee_body w))))"

section \<open>A notification\<close>

datatype note_duration = NoDuration | Persistent | Millis nat

record notification_component =
  nc_shown :: bool
  nc_timer :: "nat option"
  nc_on_leave :: bool
  nc_closed :: nat

definition init_notification :: "note_duration \<Rightarrow> notification_component" where
  "init_notification d =
     \<lparr>nc_shown = True, nc_timer = (case d of Millis n \<Rightarrow> if n = 0 then None else Some n | _ \<Rightarrow> None),
      nc_on_leave = False, nc_closed = 0\<rparr>"

text \<open>\<open>close\<close>; the event is dispatched once the transition is over.\<close>

definition close_notification :: "notification_component \<Rightarrow> notification_component" where
  "close_notification n = n\<lparr>nc_shown := False, nc_closed := Suc (nc_closed n)\<rparr>"

definition notification_timeout :: "bool \<Rightarrow> notification_component \<Rightarrow> notification_component" where
  "notification_timeout hovered n =
     (case nc_timer n of
        None \<Rightarrow> n
      | Some _ \<Rightarrow> let n1 = n\<lparr>nc_timer := None\<rparr> in if hovered then n1\<lparr>nc_on_leave := True\<rparr> else close_notification n1)"

definition notification_left :: "notification_component \<Rightarrow> notification_component" where
  "notification_left n = (if nc_on_leave n then close_notification n else n)"

lemma persistent_stays:
  "notification_left (notification_timeout h (init_notification Persistent)) = init_notification Persistent"
  by (simp add: notification_timeout_def notification_left_def init_notification_def)

lemma hovered_waits:
  assumes "0 < k"
  shows "nc_shown (notification_timeout True (init_notification (Millis k)))"
    and "\<not> nc_shown (notification_left (notification_timeout True (init_notification (Millis k))))"
    and "\<not> nc_shown (notification_timeout False (init_notification (Millis k)))"
  using assms by (simp_all add: notification_timeout_def notification_left_def close_notification_def init_notification_def)

section \<open>Sizes\<close>

text \<open>\<open>resize\<close> of a text area: the wrapper's new height in pixels; rem is the root's font size.\<close>

definition textarea_height :: "int \<Rightarrow> int \<Rightarrow> int \<Rightarrow> int \<Rightarrow> int \<Rightarrow> int" where
  "textarea_height initial rem shown content h = (if shown \<le> 0 then h else max content (initial * rem))"

lemma textarea_not_smaller: "0 < shown \<Longrightarrow> initial * rem \<le> textarea_height initial rem shown content h \<and> content \<le> textarea_height initial rem shown content h"
  by (simp add: textarea_height_def)

definition sticky_width :: "int \<Rightarrow> int \<Rightarrow> int \<Rightarrow> int" where
  "sticky_width offset start_margin end_margin = offset + start_margin * -1 + end_margin * -1"

definition enable_sticky :: "int \<Rightarrow> bool" where
  "enable_sticky edge \<longleftrightarrow> 0 < edge"

end
