(* ===== verification/Markdown_Text.thy ===== *)
theory Markdown_Text
  imports Script_Text
begin

text \<open>
  The text of the Markdown editor (\<open>public/js/filament/forms/components/markdown-editor.js\<close>): how a
  text is split into lines, the replacement of ranges, and the command that continues a list or
  quote on the next line and renumbers what follows. A document is its list of lines, never empty.
  What the mode knows of a line (whether it is in a list, in a quote) is an argument.
\<close>

section \<open>Splitting lines\<close>

text \<open>\<open>e.split(/\r\n?|\n/)\<close>.\<close>

fun split_breaks :: "string \<Rightarrow> string list" where
  "split_breaks [] = [[]]"
| "split_breaks [c] = (if c = nl \<or> c = cr then [[], []] else [[c]])"
| "split_breaks (c # d # s) =
     (if c = nl then [] # split_breaks (d # s)
      else if c = cr then [] # (if d = nl then split_breaks s else split_breaks (d # s))
      else (case split_breaks (d # s) of [] \<Rightarrow> [[c]] | l # ls \<Rightarrow> (c # l) # ls))"

text \<open>The loop for browsers whose \<open>split\<close> drops empty lines, from position \<open>t\<close>.\<close>

definition break_after :: "string \<Rightarrow> nat \<Rightarrow> nat" where
  "break_after e t = t + length (takeWhile (\<lambda>c. c \<noteq> nl) (drop t e))"

definition line_piece :: "string \<Rightarrow> nat \<Rightarrow> string" where
  "line_piece e t =
     (let i = break_after e t in slice t (if 0 < i \<and> i - 1 < length e \<and> e ! (i - 1) = cr then i - 1 else i) e)"

function split_from :: "string \<Rightarrow> nat \<Rightarrow> string list" where
  "split_from e t =
     (if t \<le> length e then
        (case find_index (\<lambda>c. c = cr) (line_piece e t) of
           Some l \<Rightarrow> take l (line_piece e t) # split_from e (t + l + 1)
         | None \<Rightarrow> line_piece e t # split_from e (break_after e t + 1))
      else [])"
  by pat_completeness auto
termination
  by (relation "measure (\<lambda>(e, t). Suc (length e) - t)") (auto simp: break_after_def)

declare split_from.simps [simp del]

lemma split_breaks_not_Nil [simp]: "split_breaks s \<noteq> []"
  by (induction s rule: split_breaks.induct) (auto split: list.splits)

lemma split_breaks_other:
  "\<lbrakk>c \<noteq> nl; c \<noteq> cr\<rbrakk> \<Longrightarrow> split_breaks (c # s) = (c # hd (split_breaks s)) # tl (split_breaks s)"
  by (cases s) (auto split: list.split)

lemma split_breaks_append:
  "\<lbrakk>nl \<notin> set a; cr \<notin> set a\<rbrakk> \<Longrightarrow> split_breaks (a @ s) = (a @ hd (split_breaks s)) # tl (split_breaks s)"
  by (induction a) (auto simp: split_breaks_other)

lemma split_breaks_plain: "\<lbrakk>nl \<notin> set s; cr \<notin> set s\<rbrakk> \<Longrightarrow> split_breaks s = [s]"
  using split_breaks_append [of s "[]"] by simp

lemma split_breaks_at:
  "split_breaks (nl # s) = [] # split_breaks s" "split_breaks (cr # nl # s) = [] # split_breaks s"
  "s = [] \<or> hd s \<noteq> nl \<Longrightarrow> split_breaks (cr # s) = [] # split_breaks s"
  by (cases s; simp)+

text \<open>Position \<open>t\<close> is not between the two characters of one break.\<close>

definition at_line :: "string \<Rightarrow> nat \<Rightarrow> bool" where
  "at_line e t \<longleftrightarrow> \<not> (0 < t \<and> t < length e \<and> e ! (t - 1) = cr \<and> e ! t = nl)"

lemma piece_parts:
  assumes "t \<le> length e" and "e = [] \<or> last e \<noteq> cr" and "at_line e t"
  defines "u \<equiv> takeWhile (\<lambda>c. c \<noteq> nl) (drop t e)"
  shows "line_piece e t = (if u \<noteq> [] \<and> last u = cr then butlast u else u)"
    and "drop t e = u \<or> (\<exists>s. drop t e = u @ nl # s)" and "break_after e t \<le> length e"
proof -
  let ?i = "break_after e t"
  have i: "?i = t + length u" by (simp add: break_after_def u_def)
  have "length u \<le> length (drop t e)" unfolding u_def by (rule length_takeWhile_le)
  then show "?i \<le> length e" using assms(1) i by simp
  have u: "u = take (length u) (drop t e)" unfolding u_def by (rule takeWhile_eq_take)
  have char: "e ! (?i - 1) = last u" if "u \<noteq> []"
  proof -
    have "last u = u ! (length u - 1)" using that by (rule last_conv_nth)
    also have "\<dots> = drop t e ! (length u - 1)" using u that by (metis diff_less length_greater_0_conv nth_take zero_less_one)
    also have "\<dots> = e ! (t + (length u - 1))" using assms(1) by simp
    finally show ?thesis using that i by (simp add: Suc_leI)
  qed
  show "line_piece e t = (if u \<noteq> [] \<and> last u = cr then butlast u else u)"
  proof (cases "u = []")
    case True
    then have "?i = t" using i by simp
    then show ?thesis using True by (auto simp: line_piece_def Let_def slice_def)
  next
    case False
    have "slice t ?i e = u" using u i by (simp add: slice_def)
    moreover have "slice t (?i - 1) e = butlast u"
    proof -
      have "take (length u - 1) (drop t e) = butlast u" using u by (metis butlast_take \<open>length u \<le> length (drop t e)\<close>)
      then show ?thesis using i False by (simp add: slice_def)
    qed
    moreover have "?i - 1 < length e" "0 < ?i" using \<open>?i \<le> length e\<close> i False by (auto simp: neq_Nil_conv)
    ultimately show ?thesis using char [OF False] False by (auto simp: line_piece_def Let_def)
  qed
  show "drop t e = u \<or> (\<exists>s. drop t e = u @ nl # s)"
  proof (cases "dropWhile (\<lambda>c. c \<noteq> nl) (drop t e)")
    case Nil
    then have "u = drop t e" unfolding u_def by (simp add: takeWhile_eq_all_conv)
    then show ?thesis by simp
  next
    case (Cons c s)
    then have "c = nl" using hd_dropWhile [of "\<lambda>c. c \<noteq> nl" "drop t e"] by simp
    with Cons takeWhile_dropWhile_id [of "\<lambda>c. c \<noteq> nl" "drop t e"] show ?thesis unfolding u_def by metis
  qed
qed

lemma split_breaks_line:
  "\<lbrakk>nl \<notin> set a; cr \<notin> set a; split_breaks s = [] # ls\<rbrakk> \<Longrightarrow> split_breaks (a @ s) = a # ls"
  by (simp add: split_breaks_append)

lemma split_from_breaks:
  "\<lbrakk>e = [] \<or> last e \<noteq> cr; t \<le> length e; at_line e t\<rbrakk> \<Longrightarrow> split_from e t = split_breaks (drop t e)"
proof (induction e t rule: split_from.induct)
  case (1 e t)
  let ?s = "drop t e"
  define u where "u = takeWhile (\<lambda>c. c \<noteq> nl) ?s"
  define a where "a = line_piece e t"
  note p = piece_parts [OF "1.prems"(2,1,3), folded u_def, folded a_def]
  have nlu: "nl \<notin> set u" unfolding u_def using set_takeWhileD by fastforce
  then have nla: "nl \<notin> set a" unfolding p(1) by (auto dest: in_set_butlastD)
  have su: "take (length u) ?s = u" unfolding u_def by (rule takeWhile_eq_take [symmetric])
  show ?case
  proof (cases "find_index (\<lambda>c. c = cr) a")
    case (Some l)
    from find_index_Some [OF Some] have l: "l < length a" "a ! l = cr" "\<forall>j < l. a ! j \<noteq> cr" by auto
    have lu: "Suc l < length u"
    proof (cases "u \<noteq> [] \<and> last u = cr")
      case True
      then show ?thesis using l(1) unfolding p(1) by auto
    next
      case False
      then have a: "a = u" using p(1) by argo
      then have "u \<noteq> []" using l(1) by auto
      with False have "last u \<noteq> cr" by blast
      then have "l \<noteq> length u - 1" using l(2) a \<open>u \<noteq> []\<close> by (auto simp: last_conv_nth)
      then show ?thesis using l(1) a by simp
    qed
    have au: "a = take (length a) u" unfolding p(1) by (simp add: butlast_conv_take)
    have st: "?s ! j = u ! j" if "j < length u" for j using su that by (metis nth_take)
    have len: "length u \<le> length ?s" unfolding u_def by (rule length_takeWhile_le)
    have "u ! Suc l \<noteq> nl" using nlu lu nth_mem by metis
    then have n: "?s ! Suc l \<noteq> nl" using st [OF lu] by simp
    have "?s ! l = cr" using st [of l] lu l(1,2) au by (metis Suc_lessD nth_take)
    then have s: "?s = take l ?s @ cr # drop (Suc l) ?s" using id_take_nth_drop [of l ?s] lu len by simp
    have tk: "take l ?s = take l a"
    proof -
      have "take l ?s = take l u" using su lu by (metis Suc_lessD less_imp_le_nat min.absorb1 take_take)
      also have "\<dots> = take l a" using au l(1) by (metis less_imp_le_nat min.absorb1 take_take)
      finally show ?thesis .
    qed
    have "cr \<notin> set (take l a)" using l(1,3) by (auto simp: in_set_conv_nth)
    moreover have "nl \<notin> set (take l a)" using nla by (meson in_set_takeD)
    moreover have hd: "hd (drop (Suc l) ?s) \<noteq> nl" using n lu len hd_drop_conv_nth [of "Suc l" ?s] by (metis less_le_trans)
    ultimately have sb: "split_breaks ?s = take l a # split_breaks (drop (Suc l) ?s)"
      using split_breaks_line [OF _ _ split_breaks_at(3)] s tk by metis
    have t: "t + l + 1 \<le> length e" using lu len "1.prems"(2) by simp
    have "e ! (t + l + 1) \<noteq> nl" using n lu len by simp
    then have "at_line e (t + l + 1)" by (simp add: at_line_def)
    from "1.IH"(2) [folded a_def, OF "1.prems"(2) Some "1.prems"(1) t this] have "split_from e (t + l + 1) = split_breaks (drop (Suc l) ?s)"
      by (simp add: add.commute)
    then show ?thesis using Some "1.prems"(2) sb by (simp add: split_from.simps [of e t] a_def)
  next
    case None
    then have cra: "cr \<notin> set a" by (auto simp: find_index_None)
    have i: "break_after e t = t + length u" by (simp add: break_after_def u_def)
    from p(2) show ?thesis
    proof
      assume s: "?s = u"
      have "\<not> (u \<noteq> [] \<and> last u = cr)"
      proof
        assume u: "u \<noteq> [] \<and> last u = cr"
        then have "last e = cr" using s by (metis drop_eq_Nil last_drop not_le)
        with u s "1.prems"(1) show False by auto
      qed
      then have "a = u" using p(1) by argo
      with s nla cra have "split_breaks ?s = [a]" using split_breaks_plain by metis
      moreover have "\<not> t + length u + 1 \<le> length e" using arg_cong [OF s, of length] "1.prems"(2) by simp
      then have "split_from e (break_after e t + 1) = []" by (simp add: split_from.simps i)
      ultimately show ?thesis using None "1.prems"(2) by (simp add: split_from.simps [of e t] a_def)
    next
      assume "\<exists>s. ?s = u @ nl # s"
      then obtain s where s: "?s = u @ nl # s" ..
      have sb: "split_breaks ?s = a # split_breaks s"
      proof (cases "u \<noteq> [] \<and> last u = cr")
        case True
        then have "?s = a @ cr # nl # s" using s p(1) append_butlast_last_id [of u] by (metis append.assoc append_Cons append_Nil)
        then show ?thesis using split_breaks_line [OF nla cra split_breaks_at(2)] by metis
      next
        case False
        then have "a = u" using p(1) by argo
        then have "?s = a @ nl # s" using s by simp
        then show ?thesis using split_breaks_line [OF nla cra split_breaks_at(1)] by metis
      qed
      have len: "length e - t = length u + Suc (length s)" using arg_cong [OF s, of length] by simp
      have d: "drop (break_after e t + 1) e = s"
      proof -
        have "drop (length u + 1) ?s = s" by (subst s) simp
        then show ?thesis using i by (simp add: add.commute add.left_commute)
      qed
      have "?s ! length u = nl" by (subst s) simp
      then have "e ! break_after e t = nl" using i "1.prems"(2) by simp
      then have "at_line e (break_after e t + 1)" by (simp add: at_line_def)
      from "1.IH"(1) [folded a_def, OF "1.prems"(2) None "1.prems"(1) _ this] len i "1.prems"(2)
      have "split_from e (break_after e t + 1) = split_breaks s" unfolding d by simp
      then show ?thesis using None "1.prems"(2) sb by (simp add: split_from.simps [of e t] a_def)
    qed
  qed
qed

text \<open>A final carriage return: the loop does what it does with a line feed after it, but for the last line.\<close>

lemma split_from_not_Nil: "t \<le> length e \<Longrightarrow> split_from e t \<noteq> []"
  by (subst split_from.simps) (simp split: option.split)

lemma split_from_return:
  "t \<le> length e \<Longrightarrow> split_from (e @ [cr]) t = butlast (split_from (e @ [cr, nl]) t)"
proof (induction "Suc (length e) - t" arbitrary: t rule: less_induct)
  case less
  let ?e = "e @ [cr]" and ?e' = "e @ [cr, nl]"
  let ?u = "takeWhile (\<lambda>c. c \<noteq> nl) (drop t e)"
  have d: "drop t ?e = drop t e @ [cr]" "drop t ?e' = drop t e @ [cr, nl]" using less.prems by simp_all
  have ne: "split_from ?e' t' \<noteq> []" if "t' \<le> length ?e'" for t' using that by (rule split_from_not_Nil)
  have piece: "line_piece ?e t = line_piece ?e' t \<and> t + length (line_piece ?e t) \<le> length e
      \<and> (break_after ?e t = break_after ?e' t \<and> break_after ?e t < length e
         \<or> break_after ?e t = Suc (length e) \<and> break_after ?e' t = Suc (length e))"
  proof (cases "nl \<in> set (drop t e)")
    case True
    then obtain a b where "drop t e = a @ nl # b" "nl \<notin> set a" by (auto dest: split_list_first)
    then have "length ?u < length (drop t e)" by (simp add: takeWhile_append)
    moreover have b: "break_after ?e t = t + length ?u" "break_after ?e' t = t + length ?u"
      unfolding break_after_def d using True by (auto simp: takeWhile_append)
    ultimately obtain x where b: "break_after ?e t = x" "break_after ?e' t = x" and i: "x < length e" using less.prems by simp
    define k where "k = (if 0 < x \<and> e ! (x - 1) = cr then x - 1 else x)"
    have x: "x - 1 < length e" using i by linarith
    then have "?e ! (x - 1) = e ! (x - 1)" "?e' ! (x - 1) = e ! (x - 1)" by (simp_all only: nth_append if_True)
    then have "line_piece ?e t = slice t k ?e" "line_piece ?e' t = slice t k ?e'"
      using x unfolding line_piece_def b Let_def k_def by auto
    moreover have k: "k < length e" using i x unfolding k_def by simp
    moreover have "slice t k ?e = slice t k e" "slice t k ?e' = slice t k e" "t + length (slice t k e) \<le> length e"
      using k less.prems by (simp_all add: slice_def)
    ultimately show ?thesis using i b by simp
  next
    case False
    then have "takeWhile (\<lambda>c. c \<noteq> nl) (drop t e) = drop t e" by (auto simp: takeWhile_eq_all_conv)
    then have b: "break_after ?e t = Suc (length e)" "break_after ?e' t = Suc (length e)"
      unfolding break_after_def d using False less.prems by (simp_all add: takeWhile_append)
    then show ?thesis using less.prems by (simp add: line_piece_def Let_def slice_def nth_append)
  qed
  show ?case
  proof (cases "find_index (\<lambda>c. c = cr) (line_piece ?e t)")
    case (Some l)
    then have l: "t + l + 1 \<le> length e" using find_index_Some [OF Some] piece by linarith
    then have "split_from ?e (t + l + 1) = butlast (split_from ?e' (t + l + 1))" by (intro less.hyps) auto
    then show ?thesis using Some piece less.prems l ne [of "t + l + 1"]
      by (simp add: split_from.simps [of ?e t] split_from.simps [of ?e' t])
  next
    case None
    show ?thesis
    proof (cases "break_after ?e t < length e")
      case True
      have "t \<le> break_after ?e t" by (simp add: break_after_def)
      with True have "split_from ?e (break_after ?e t + 1) = butlast (split_from ?e' (break_after ?e t + 1))"
        by (intro less.hyps) auto
      then show ?thesis using None piece less.prems True ne [of "break_after ?e t + 1"]
        by (auto simp: split_from.simps [of ?e t] split_from.simps [of ?e' t])
    next
      case False
      then have b: "break_after ?e t + 1 = length e + 2" "break_after ?e' t + 1 = length e + 2" using piece by auto
      have "line_piece ?e' (length e + 2) = []"
        by (simp add: line_piece_def break_after_def slice_def nth_append)
      then have "split_from ?e' (length e + 2) = [[]]"
        by (subst split_from.simps) (simp add: break_after_def split_from.simps)
      moreover have "split_from ?e (length e + 2) = []" by (simp add: split_from.simps)
      ultimately show ?thesis using None piece less.prems b
        by (simp add: split_from.simps [of ?e t] split_from.simps [of ?e' t])
    qed
  qed
qed

lemma split_breaks_return: "split_breaks (e @ [cr, nl]) = split_breaks (e @ [cr])"
  by (induction e rule: split_breaks.induct) auto

text \<open>
  C37. The loop for old browsers splits every text into the lines of the pattern, whatever line
  ends are mixed, except that it loses the empty last line of a text that ends in a carriage return.
\<close>
theorem split_lines_agree:
  "split_from e 0 = (if e \<noteq> [] \<and> last e = cr then butlast (split_breaks e) else split_breaks e)"
proof (cases "e \<noteq> [] \<and> last e = cr")
  case True
  then have e: "e = butlast e @ [cr]" using append_butlast_last_id [of e] by simp
  have "split_from e 0 = butlast (split_from (butlast e @ [cr, nl]) 0)"
    by (subst e) (rule split_from_return, simp)
  also have "split_from (butlast e @ [cr, nl]) 0 = split_breaks (butlast e @ [cr, nl])"
    using split_from_breaks [of "butlast e @ [cr, nl]" 0] by (simp add: at_line_def)
  also have "\<dots> = split_breaks e" by (subst (2) e) (rule split_breaks_return)
  finally show ?thesis using True by simp
next
  case False
  then show ?thesis using split_from_breaks [of e 0] by (auto simp: at_line_def)
qed

theorem split_lines_agree_witness:
  "split_from [CHR ''a'', cr, cr, nl, nl, CHR ''b''] 0 = [''a'', [], [], ''b'']
   \<and> split_from [CHR ''a'', cr] 0 = [''a''] \<and> split_breaks [CHR ''a'', cr] = [''a'', []]"
  unfolding split_lines_agree by simp

section \<open>The document\<close>

text \<open>Text at a place of a document, which the editor splits into lines; the place is in range.\<close>

definition insert_lines :: "string list \<Rightarrow> string \<Rightarrow> string \<Rightarrow> string list" where
  "insert_lines ls a b =
     (case ls of [] \<Rightarrow> [a @ b] | [l] \<Rightarrow> [a @ l @ b] | l # m # ms \<Rightarrow> (a @ l) # butlast (m # ms) @ [last (m # ms) @ b])"

type_synonym md_pos = "int \<times> nat"

text \<open>A position outside the document is the nearest one in it.\<close>

definition clip_pos :: "string list \<Rightarrow> md_pos \<Rightarrow> nat \<times> nat" where
  "clip_pos d p =
     (if fst p < 0 then (0, 0)
      else if int (length d) \<le> fst p then (length d - 1, length (last d))
      else (nat (fst p), min (snd p) (length (d ! nat (fst p)))))"

definition replace_range :: "string \<Rightarrow> md_pos \<Rightarrow> md_pos \<Rightarrow> string list \<Rightarrow> string list" where
  "replace_range t p q d =
     (case (clip_pos d p, clip_pos d q) of
        ((l1, c1), (l2, c2)) \<Rightarrow>
          take l1 d @ insert_lines (split_breaks t) (take c1 (d ! l1)) (drop c2 (d ! l2)) @ drop (Suc l2) d)"

section \<open>Continuing lists and quotes\<close>

text \<open>The parts of a line that \<open>/^(\s*)(>[> ]*|[*+-] \[[x ]\]\s|[*+-]\s|(\d+)([.)]))(\s*)/\<close> matches, and the rest.\<close>

record md_item =
  it_indent :: string
  it_marker :: string
  it_number :: "(string \<times> char) option"
  it_space :: string
  it_rest :: string

definition is_md_digit :: "char \<Rightarrow> bool" where
  "is_md_digit c \<longleftrightarrow> c \<in> set ''0123456789''"

definition is_bullet :: "char \<Rightarrow> bool" where
  "is_bullet c \<longleftrightarrow> c \<in> set ''*+-''"

definition make_item :: "string \<Rightarrow> string \<Rightarrow> (string \<times> char) option \<Rightarrow> string \<Rightarrow> md_item" where
  "make_item ind m num r =
     \<lparr>it_indent = ind, it_marker = m, it_number = num, it_space = takeWhile js_space r, it_rest = dropWhile js_space r\<rparr>"

text \<open>Digits with the delimiter behind them.\<close>

definition match_number :: "string \<Rightarrow> string \<Rightarrow> md_item option" where
  "match_number ind r =
     (let ds = takeWhile is_md_digit r in
      if ds = [] then None
      else (case dropWhile is_md_digit r of
          [] \<Rightarrow> None
        | d # s \<Rightarrow> if d = CHR ''.'' \<or> d = CHR '')'' then Some (make_item ind (ds @ [d]) (Some (ds, d)) s) else None))"

definition match_md_item :: "string \<Rightarrow> md_item option" where
  "match_md_item M =
     (let ind = takeWhile js_space M; r = dropWhile js_space M in
      case r of
        [] \<Rightarrow> None
      | c # s \<Rightarrow>
          if c = CHR ''>'' then
            (let qs = takeWhile (\<lambda>c. c = CHR ''>'' \<or> c = CHR '' '') s in Some (make_item ind (c # qs) None (drop (length qs) s)))
          else if is_bullet c then
            (case s of
               a # b # x # e # sp # t \<Rightarrow>
                 if a = CHR '' '' \<and> b = CHR ''['' \<and> (x = CHR ''x'' \<or> x = CHR '' '') \<and> e = CHR '']'' \<and> js_space sp
                 then Some (make_item ind [c, a, b, x, e, sp] None t)
                 else if js_space a then Some (make_item ind [c, a] None (b # x # e # sp # t)) else None
             | a # t \<Rightarrow> if js_space a then Some (make_item ind [c, a] None t) else None
             | [] \<Rightarrow> None)
          else match_number ind r)"

text \<open>\<open>/^(\s*)(>[> ]*|[*+-] \[[x ]\]|[*+-]|(\d+)[.)])(\s*)$/\<close>: an item without content.\<close>

definition empty_item :: "string \<Rightarrow> bool" where
  "empty_item M =
     (let r = dropWhile js_space M in
      case r of
        [] \<Rightarrow> False
      | c # s \<Rightarrow>
          if c = CHR ''>'' then is_blank (dropWhile (\<lambda>c. c = CHR ''>'' \<or> c = CHR '' '') s)
          else if is_bullet c then
            is_blank s \<or> (case s of
               a # b # x # e # t \<Rightarrow> a = CHR '' '' \<and> b = CHR ''['' \<and> (x = CHR ''x'' \<or> x = CHR '' '') \<and> e = CHR '']'' \<and> is_blank t
             | _ \<Rightarrow> False)
          else (takeWhile is_md_digit r \<noteq> [] \<and> (case dropWhile is_md_digit r of
               [] \<Rightarrow> False
             | d # t \<Rightarrow> (d = CHR ''.'' \<or> d = CHR '')'') \<and> is_blank t)))"

text \<open>\<open>b\<close>: the items below the cursor's line are renumbered; \<open>g\<close> counts the lines, \<open>k\<close> those skipped.\<close>

fun renumber :: "string \<Rightarrow> nat \<Rightarrow> nat \<Rightarrow> nat \<Rightarrow> string list \<Rightarrow> string list" where
  "renumber ind n g k [] = []"
| "renumber ind n g k (x # xs) =
     (case match_md_item x of
        None \<Rightarrow> x # xs
      | Some m \<Rightarrow>
          (case (if ind = it_indent m then it_number m else None) of
             Some (ds, d) \<Rightarrow>
               (let w = int n + int (Suc g) - int k; W = int (digits_value ds);
                    e = (if w = W then W + 1 else if W < w then w + 1 else W)
                in (it_indent m @ int_to_string e @ [d] @ it_space m @ it_rest m) # renumber ind n (Suc g) k xs)
           | None \<Rightarrow>
               if length (it_indent m) < length ind \<or> length ind < length (it_indent m) \<and> g = 0 then x # xs
               else x # renumber ind n (Suc g) (Suc k) xs))"

text \<open>
  The first \<open>x\<close> of a marker becomes a blank; an ordered marker counts on. Then the command itself,
  for one cursor: a plain new line, or the new lines of the document with the cursor in them.
\<close>

fun uncheck :: "string \<Rightarrow> string" where
  "uncheck [] = []"
| "uncheck (c # s) = (if c = CHR ''x'' then CHR '' '' # s else c # uncheck s)"

definition next_marker :: "md_item \<Rightarrow> string" where
  "next_marker m = (case it_number m of Some (ds, d) \<Rightarrow> nat_to_string (digits_value ds + 1) @ [d] | None \<Rightarrow> uncheck (it_marker m))"

definition ends_in_quote :: "string \<Rightarrow> bool" where
  "ends_in_quote M = (case dropWhile js_space (rev M) of [] \<Rightarrow> False | c # _ \<Rightarrow> c = CHR ''>'')"

datatype continue_result = PlainNewline | Continued "string list" "nat \<times> nat"

definition continue_list :: "bool \<Rightarrow> bool \<Rightarrow> string list \<Rightarrow> nat \<Rightarrow> nat \<Rightarrow> continue_result" where
  "continue_list in_list in_quote d l c =
     (let M = d ! l in
      case match_md_item M of
        None \<Rightarrow> PlainNewline
      | Some m \<Rightarrow>
          if \<not> in_list \<and> \<not> in_quote \<or> is_blank (take c M) then PlainNewline
          else if empty_item M then
            (let M' = (if in_quote \<and> ends_in_quote M \<or> \<not> ends_in_quote M then drop (Suc c) M else M);
                 c' = (if M' = M then c else 0)
             in Continued (take l d @ [take c' M', drop c' M'] @ drop (Suc l) d) (Suc l, 0))
          else
            (let t = it_indent m @ next_marker m @ it_space m;
                 below = (case it_number m of None \<Rightarrow> drop (Suc l) d
                          | Some (ds, _) \<Rightarrow> renumber (it_indent m) (digits_value ds) 0 0 (drop (Suc l) d))
             in Continued (take l d @ [take c M, t @ drop c M] @ below) (Suc l, length t)))"

text \<open>Items of an ordered list, and how they are read back.\<close>

definition number_item :: "string \<Rightarrow> char \<Rightarrow> string \<Rightarrow> nat \<Rightarrow> string \<Rightarrow> string" where
  "number_item ind d sp n body = ind @ nat_to_string n @ [d] @ sp @ body"

fun number_items :: "string \<Rightarrow> char \<Rightarrow> string \<Rightarrow> nat \<Rightarrow> string list \<Rightarrow> string list" where
  "number_items ind d sp n [] = []"
| "number_items ind d sp n (b # bs) = number_item ind d sp n b # number_items ind d sp (Suc n) bs"

definition item_parts_ok :: "string \<Rightarrow> char \<Rightarrow> string \<Rightarrow> bool" where
  "item_parts_ok ind d sp \<longleftrightarrow> list_all js_space ind \<and> list_all js_space sp \<and> (d = CHR ''.'' \<or> d = CHR '')'')"

definition body_ok :: "string \<Rightarrow> bool" where
  "body_ok b \<longleftrightarrow> b = [] \<or> \<not> js_space (hd b)"

lemma nat_to_string_is_digits: "list_all is_md_digit (nat_to_string n)"
  using nat_to_string_digits [of n] by (simp add: is_md_digit_def list_all_iff)

lemma digit_plain: "is_md_digit c \<Longrightarrow> c \<noteq> CHR ''>'' \<and> \<not> is_bullet c \<and> \<not> js_space c"
  by (auto simp: is_md_digit_def is_bullet_def js_space_def)

lemma takeWhile_all_append: "\<lbrakk>list_all P xs; ys = [] \<or> \<not> P (hd ys)\<rbrakk> \<Longrightarrow> takeWhile P (xs @ ys) = xs \<and> dropWhile P (xs @ ys) = ys"
  by (induction xs) (cases ys; auto)+

lemma match_number_item:
  assumes "item_parts_ok ind d sp" and "body_ok body"
  shows "match_md_item (number_item ind d sp n body) =
      Some \<lparr>it_indent = ind, it_marker = nat_to_string n @ [d], it_number = Some (nat_to_string n, d), it_space = sp, it_rest = body\<rparr>"
    and "body \<noteq> [] \<Longrightarrow> \<not> empty_item (number_item ind d sp n body)"
proof -
  obtain c s where cs: "nat_to_string n = c # s" by (cases "nat_to_string n") auto
  have c: "c \<noteq> CHR ''>''" "\<not> is_bullet c" "\<not> js_space c"
    using digit_plain [of c] nat_to_string_is_digits [of n] cs by simp_all
  let ?r = "nat_to_string n @ d # sp @ body"
  have ind: "takeWhile js_space (ind @ ?r) = ind \<and> dropWhile js_space (ind @ ?r) = ?r"
    using takeWhile_all_append [of js_space ind ?r] assms(1) c(3) cs by (auto simp: item_parts_ok_def)
  have "\<not> is_md_digit d" using assms(1) by (auto simp: item_parts_ok_def is_md_digit_def)
  then have ds: "takeWhile is_md_digit ?r = nat_to_string n \<and> dropWhile is_md_digit ?r = d # sp @ body"
    using takeWhile_all_append [of is_md_digit "nat_to_string n" "d # sp @ body"] nat_to_string_is_digits by simp
  have sp: "takeWhile js_space (sp @ body) = sp \<and> dropWhile js_space (sp @ body) = body"
    using takeWhile_all_append [of js_space sp body] assms by (auto simp: item_parts_ok_def body_ok_def)
  have r: "?r = c # s @ d # sp @ body" using cs by simp
  have "match_number ind ?r = Some \<lparr>it_indent = ind, it_marker = nat_to_string n @ [d], it_number = Some (nat_to_string n, d),
      it_space = sp, it_rest = body\<rparr>"
    using assms(1) sp unfolding match_number_def Let_def ds [THEN conjunct1] ds [THEN conjunct2]
    by (auto simp: item_parts_ok_def make_item_def)
  moreover have "match_md_item (ind @ ?r) = match_number ind ?r"
    unfolding match_md_item_def Let_def ind [THEN conjunct1] ind [THEN conjunct2] using c(1,2) r by simp
  ultimately show "match_md_item (number_item ind d sp n body) =
      Some \<lparr>it_indent = ind, it_marker = nat_to_string n @ [d], it_number = Some (nat_to_string n, d), it_space = sp, it_rest = body\<rparr>"
    by (simp add: number_item_def)
  show "\<not> empty_item (number_item ind d sp n body)" if "body \<noteq> []"
  proof -
    have "\<not> is_blank (sp @ body)" using that assms(2) by (auto simp: is_blank_iff body_ok_def neq_Nil_conv)
    then have "\<not> empty_item (ind @ ?r)"
      unfolding empty_item_def Let_def ind [THEN conjunct2] using c(1,2) r ds by simp
    then show ?thesis by (simp add: number_item_def)
  qed
qed

lemma renumber_items:
  assumes "item_parts_ok ind d sp" and "\<forall>b \<in> set bs. body_ok b" and "post = [] \<or> match_md_item (hd post) = None"
  shows "renumber ind n g 0 (number_items ind d sp (Suc (n + g)) bs @ post) = number_items ind d sp (Suc (Suc (n + g))) bs @ post"
  using assms(2)
proof (induction bs arbitrary: g)
  case Nil
  then show ?case using assms(3) by (cases post) auto
next
  case (Cons b bs)
  have "int_to_string (int (Suc (n + g)) + 1) = nat_to_string (Suc (Suc (n + g)))" by (simp add: int_to_string_def nat_add_distrib)
  with Cons.IH [of "Suc g"] Cons.prems match_number_item(1) [OF assms(1), of b "Suc (n + g)"]
  show ?case by (simp add: digits_value_nat_to_string Let_def number_item_def)
qed

text \<open>
  C36. Enter inside an item of an ordered list starts the next item with the text behind the
  cursor, with the same indentation, delimiter and spacing, and the list stays numbered without a
  gap: every later item of the list counts one more, nothing else changes.
\<close>
theorem continued_list_consecutive:
  assumes "item_parts_ok ind d sp" and "\<forall>b \<in> set (body # bs). body_ok b" and "body \<noteq> []"
    and "post = [] \<or> match_md_item (hd post) = None" and "\<not> is_blank (take c (number_item ind d sp n body))"
  shows "continue_list True in_quote (pre @ number_items ind d sp n (body # bs) @ post) (length pre) c =
    Continued (pre @ [take c (number_item ind d sp n body),
        ind @ nat_to_string (n + 1) @ [d] @ sp @ drop c (number_item ind d sp n body)]
      @ number_items ind d sp (n + 2) bs @ post)
    (Suc (length pre), length (ind @ nat_to_string (n + 1) @ [d] @ sp))"
proof -
  have b: "body_ok body" "\<forall>b \<in> set bs. body_ok b" using assms(2) by simp_all
  note m = match_number_item [OF assms(1) b(1), of n]
  have "renumber ind n 0 0 (number_items ind d sp (Suc n) bs @ post) = number_items ind d sp (Suc (Suc n)) bs @ post"
    using renumber_items [OF assms(1) b(2) assms(4), of n 0] by simp
  then show ?thesis
    using m(1) m(2) [OF assms(3)] assms(5)
    by (simp add: continue_list_def Let_def nth_append next_marker_def digits_value_nat_to_string)
qed

theorem continued_list_consecutive_witness:
  "continue_list True False [''x'', ''1. one two'', ''2. three'', ''end''] 1 7
   = Continued [''x'', ''1. one '', ''2. two'', ''3. three'', ''end''] (2, 3)"
proof -
  have ok: "item_parts_ok [] CHR ''.'' '' ''" "\<forall>b \<in> set [''one two'', ''three'']. body_ok b" "''one two'' \<noteq> []"
    "[''end''] = [] \<or> match_md_item (hd [''end'']) = None" by code_simp+
  have one: "number_item [] CHR ''.'' '' '' 1 ''one two'' = ''1. one two''" by code_simp
  have "\<not> is_blank (take 7 (number_item [] CHR ''.'' '' '' 1 ''one two''))" unfolding one by code_simp
  note c = continued_list_consecutive [OF ok this, of False "[''x'']"]
  have "number_items [] CHR ''.'' '' '' 1 [''one two'', ''three''] = [''1. one two'', ''2. three'']"
    "number_items [] CHR ''.'' '' '' (1 + 2) [''three''] = [''3. three'']" "nat_to_string (1 + 1) = ''2''" by code_simp+
  with c show ?thesis unfolding one by simp
qed

end
