(* ===== verification/Markdown_Toolbar.thy ===== *)
theory Markdown_Toolbar
  imports Markdown_Text
begin

text \<open>
  The buttons of the Markdown editor (\<open>public/js/filament/forms/components/markdown-editor.js\<close>, the
  functions \<open>jr\<close>, \<open>Lr\<close>, \<open>la\<close>, \<open>sa\<close> and \<open>yc\<close>): headings, lists and quotes, bold, italic and
  strike-through, and the texts for links, images, tables and rules. Whether a format is
  active at the cursor is what the editor's mode says of the document,
  and an argument here. A selection is its two positions.
\<close>

section \<open>Selections\<close>

definition line_at :: "string list \<Rightarrow> nat \<Rightarrow> string" where
  "line_at d l = (if l < length d then d ! l else [])"

definition get_range :: "string list \<Rightarrow> nat \<times> nat \<Rightarrow> nat \<times> nat \<Rightarrow> string" where
  "get_range d p q =
     (if fst p = fst q then slice (snd p) (snd q) (line_at d (fst p))
      else join_lines (drop (snd p) (line_at d (fst p)) # slice (Suc (fst p)) (fst q) d @ [take (snd q) (line_at d (fst q))]))"

definition as_pos :: "nat \<times> nat \<Rightarrow> md_pos" where
  "as_pos p = (int (fst p), snd p)"

text \<open>\<open>replace("#url#", u)\<close> for a \<open>u\<close> without a dollar sign.\<close>

fun replace_first :: "string \<Rightarrow> string \<Rightarrow> string \<Rightarrow> string" where
  "replace_first p r [] = (if p = [] then r else [])"
| "replace_first p r (c # s) =
     (if str_starts_with (c # s) p then r @ drop (length p) (c # s) else c # replace_first p r s)"

text \<open>
  \<open>jr\<close>: texts around the selection. When the format is active the script writes the line once more
  in front of itself.
\<close>

definition insert_around :: "bool \<Rightarrow> string \<times> string \<Rightarrow> string option \<Rightarrow> string list \<Rightarrow> nat \<times> nat \<Rightarrow> nat \<times> nat
    \<Rightarrow> string list \<times> (nat \<times> nat) \<times> (nat \<times> nat)" where
  "insert_around active ts url d p q =
     (let a = (case url of None \<Rightarrow> fst ts | Some u \<Rightarrow> replace_first ''#url#'' u (fst ts));
          b = (case url of None \<Rightarrow> snd ts | Some u \<Rightarrow> replace_first ''#url#'' u (snd ts))
      in if active then
           (let l = line_at d (fst p) in
            (replace_range (take (snd p) l @ drop (snd p) l) (int (fst p), 0) (int (fst p), 0) d, p, q))
         else
           (replace_range (a @ get_range d p q @ b) (as_pos p) (as_pos q) d,
            (fst p, snd p + length a), (fst q, snd q + length a)))"

section \<open>Texts to insert\<close>

record insert_texts =
  tx_link :: "string \<times> string"
  tx_image :: "string \<times> string"
  tx_uploaded :: "string \<times> string"
  tx_table :: "string \<times> string"
  tx_rule :: "string \<times> string"

definition default_texts :: insert_texts where
  "default_texts =
     \<lparr>tx_link = (''['', ''](#url#)''), tx_image = (''!['', ''](#url#)''), tx_uploaded = (''![](#url#)'', []),
      tx_table = ([], join_lines [[], [], ''| Column 1 | Column 2 | Column 3 |'', ''| -------- | -------- | -------- |'',
        ''| Text     | Text     | Text     |'', [], []]),
      tx_rule = ([], join_lines [[], [], ''-----'', [], []])\<rparr>"

text \<open>\<open>yc\<close>: an uploaded file becomes an image or, by its extension, a link; the link's text is changed for good.\<close>

definition after_last :: "char \<Rightarrow> string \<Rightarrow> string" where
  "after_last c s = rev (takeWhile (\<lambda>x. x \<noteq> c) (rev s))"

definition image_extensions :: "string list" where
  "image_extensions = [''png'', ''jpg'', ''jpeg'', ''gif'', ''svg'', ''apng'', ''avif'', ''webp'']"

definition file_extension :: "string \<Rightarrow> string" where
  "file_extension name = js_lower (takeWhile (\<lambda>c. c \<noteq> CHR ''?'') (after_last (CHR ''.'') name))"

definition insert_uploaded :: "bool \<Rightarrow> bool \<Rightarrow> string \<Rightarrow> insert_texts \<Rightarrow> string list \<Rightarrow> nat \<times> nat \<Rightarrow> nat \<times> nat
    \<Rightarrow> insert_texts \<times> string list \<times> (nat \<times> nat) \<times> (nat \<times> nat)" where
  "insert_uploaded image_active link_active url tx d p q =
     (let name = after_last (CHR ''/'') url in
      if file_extension name \<in> set image_extensions then (tx, insert_around image_active (tx_uploaded tx) (Some url) d p q)
      else (let tx1 = tx\<lparr>tx_link := (CHR ''['' # name, snd (tx_link tx))\<rparr>
            in (tx1, insert_around link_active (tx_link tx1) (Some url) d p q)))"

theorem upload_changes_link_button:
  "let tx = fst (insert_uploaded False False ''/f/a.pdf'' default_texts [[]] (0, 0) (0, 0))
   in fst (insert_around False (tx_link tx) (Some ''u'') [''text''] (0, 0) (0, 4)) = [''[a.pdftext](u)'']"
  by code_simp

section \<open>Headings\<close>

datatype heading_change = Smaller | Bigger | Level nat

text \<open>\<open>h.search(/[^#]/)\<close>: the number of leading number signs, or none when there is nothing else.\<close>

definition heading_depth :: "string \<Rightarrow> nat" where
  "heading_depth h = (if list_all (\<lambda>c. c = CHR ''#'') h then 0 else length (takeWhile (\<lambda>c. c = CHR ''#'') h))"

definition toggle_heading :: "heading_change \<Rightarrow> string \<Rightarrow> string" where
  "toggle_heading ch h =
     (let g = heading_depth h in
      case ch of
        Level v \<Rightarrow>
          if g = 0 then replicate v CHR ''#'' @ '' '' @ h
          else if g = v then drop (g + 1) h
          else replicate v CHR ''#'' @ '' '' @ drop (g + 1) h
      | _ \<Rightarrow>
          if g = 0 then if ch = Bigger then ''###### '' @ h else ''# '' @ h
          else if g = 6 \<and> ch = Smaller then drop 7 h
          else if g = 1 \<and> ch = Bigger then drop 2 h
          else if ch = Bigger then drop 1 h
          else CHR ''#'' # h)"

text \<open>The lines of a selection, changed each on its own.\<close>

definition on_lines :: "(string \<Rightarrow> string) \<Rightarrow> nat \<Rightarrow> nat \<Rightarrow> string list \<Rightarrow> string list" where
  "on_lines f a b d = take a d @ map f (slice a (Suc b) d) @ drop (Suc b) d"

lemma heading_depth_hashes: "\<lbrakk>c \<noteq> CHR ''#''\<rbrakk> \<Longrightarrow> heading_depth (replicate v CHR ''#'' @ c # s) = v"
  by (induction v) (simp_all add: heading_depth_def)

lemma heading_twice:
  assumes "heading_depth h = 0" and "0 < v"
  shows "toggle_heading (Level v) (toggle_heading (Level v) h) = h"
proof -
  have "toggle_heading (Level v) h = replicate v CHR ''#'' @ CHR '' '' # h" using assms(1) by (simp add: toggle_heading_def)
  then show ?thesis using assms(2) by (simp add: toggle_heading_def heading_depth_hashes)
qed

theorem headings_toggle_back:
  assumes "\<forall>l \<in> set (slice a (Suc b) d). heading_depth l = 0" and "0 < v" and "a \<le> b" and "b < length d"
  shows "on_lines (toggle_heading (Level v)) a b (on_lines (toggle_heading (Level v)) a b d) = d"
proof -
  let ?f = "toggle_heading (Level v)" and ?m = "slice a (Suc b) d"
  have len: "length ?m = Suc b - a" "length (take a d) = a" using assms(3,4) by (simp_all add: min_absorb2)
  have 1: "take a (on_lines ?f a b d) = take a d" "slice a (Suc b) (on_lines ?f a b d) = map ?f ?m"
    "drop (Suc b) (on_lines ?f a b d) = drop (Suc b) d"
    using len assms(3) unfolding on_lines_def by (simp_all add: slice_def)
  have "map ?f (map ?f ?m) = ?m" using assms(1,2) by (simp add: heading_twice map_idI)
  then show ?thesis
    unfolding on_lines_def [of _ _ _ "on_lines ?f a b d"] 1 using slice_parts [of a "Suc b" d] assms(3) by simp
qed

text \<open>A line that begins with a tag loses two characters to the first heading button.\<close>

theorem heading_eats_tag: "toggle_heading (Level 1) ''#tag line'' = ''ag line''"
  by code_simp

section \<open>Lists and quotes\<close>

text \<open>The parts of \<open>/^(\s*)(\*|-|\+|\d*\.)(\s+)/\<close>; and the patterns that are taken away.\<close>

definition match_marker :: "string \<Rightarrow> (string \<times> string \<times> string \<times> string) option" where
  "match_marker z =
     (let ind = takeWhile js_space z; r = dropWhile js_space z in
      case (if r \<noteq> [] \<and> is_bullet (hd r) then Some ([hd r], tl r)
            else (case dropWhile is_md_digit r of
                [] \<Rightarrow> None
              | c # s \<Rightarrow> if c = CHR ''.'' then Some (takeWhile is_md_digit r @ [c], s) else None)) of
        None \<Rightarrow> None
      | Some (m, s) \<Rightarrow>
          if takeWhile js_space s = [] then None
          else Some (ind, m, takeWhile js_space s, dropWhile js_space s))"

datatype line_style = QuoteStyle | BulletStyle | NumberStyle

definition strip_style :: "line_style \<Rightarrow> string \<Rightarrow> string" where
  "strip_style st z =
     (case st of
        QuoteStyle \<Rightarrow>
          (case dropWhile js_space z of
             c # s \<Rightarrow> if c = CHR ''>'' \<and> s \<noteq> [] \<and> js_space (hd s) then takeWhile js_space z @ dropWhile js_space s else z
           | [] \<Rightarrow> z)
      | _ \<Rightarrow> (case match_marker z of None \<Rightarrow> z | Some (ind, m, sp, r) \<Rightarrow> ind @ r))"

definition line_marker :: "string \<Rightarrow> line_style \<Rightarrow> nat \<Rightarrow> string" where
  "line_marker v st k = (case st of QuoteStyle \<Rightarrow> ''>'' | BulletStyle \<Rightarrow> v | NumberStyle \<Rightarrow> nat_to_string k @ ''.'')"

text \<open>\<open>k(M, z)\<close>: whether a marker is already one of the style; digits are followed by any character.\<close>

fun digit_then_any :: "string \<Rightarrow> bool" where
  "digit_then_any (a # b # s) \<longleftrightarrow> is_md_digit a \<or> digit_then_any (b # s)"
| "digit_then_any s \<longleftrightarrow> False"

definition is_line_marker :: "string \<Rightarrow> line_style \<Rightarrow> string \<Rightarrow> bool" where
  "is_line_marker v st z \<longleftrightarrow> z \<noteq> [] \<and>
     (case st of QuoteStyle \<Rightarrow> CHR ''>'' \<in> set z | BulletStyle \<Rightarrow> str_contains z v | NumberStyle \<Rightarrow> digit_then_any z)"

definition add_style :: "string \<Rightarrow> line_style \<Rightarrow> nat \<Rightarrow> bool \<Rightarrow> string \<Rightarrow> string" where
  "add_style v st k only z =
     (case match_marker z of
        Some (ind, m, sp, r) \<Rightarrow>
          ind @ (if is_line_marker v st m then [] else line_marker v st k) @ sp @ strip_style st (dropWhile js_space z)
      | None \<Rightarrow> if only then z else line_marker v st k @ '' '' @ z)"

text \<open>\<open>la\<close>: \<open>active\<close> is what the mode says at the cursor; the numbers count the lines.\<close>

fun toggle_lines :: "bool \<Rightarrow> string \<Rightarrow> line_style \<Rightarrow> nat \<Rightarrow> string list \<Rightarrow> string list" where
  "toggle_lines active v st k [] = []"
| "toggle_lines active v st k (z # zs) =
     (if active then strip_style st z # toggle_lines active v st k zs
      else add_style v st k False (if st = BulletStyle then add_style v NumberStyle k True z else z)
        # toggle_lines active v st (Suc k) zs)"

definition plain_line :: "string \<Rightarrow> bool" where
  "plain_line z \<longleftrightarrow> match_marker z = None \<and> (z = [] \<or> \<not> js_space (hd z))"

lemma plain_parts: "plain_line z \<Longrightarrow> dropWhile js_space z = z \<and> takeWhile js_space z = []"
  by (cases z) (auto simp: plain_line_def)

lemma match_marked:
  assumes "plain_line z" and "\<not> js_space c"
    and "is_bullet c \<and> s = [] \<or> \<not> is_bullet c \<and> takeWhile is_md_digit (c # s @ '' '' @ z) @ [CHR ''.''] = c # s
      \<and> dropWhile is_md_digit (c # s @ '' '' @ z) = CHR ''.'' # CHR '' '' # z"
  shows "match_marker (c # s @ '' '' @ z) = Some ([], c # s, '' '', z)"
proof -
  have h: "takeWhile js_space (c # s @ '' '' @ z) = []" "dropWhile js_space (c # s @ '' '' @ z) = c # s @ '' '' @ z"
    using assms(2) by simp_all
  have z: "takeWhile js_space (CHR '' '' # z) = '' ''" "dropWhile js_space (CHR '' '' # z) = z"
    using plain_parts [OF assms(1)] by simp_all
  from assms(3) show ?thesis
  proof
    assume "is_bullet c \<and> s = []"
    then show ?thesis using h z unfolding match_marker_def Let_def by simp
  next
    assume d: "\<not> is_bullet c \<and> takeWhile is_md_digit (c # s @ '' '' @ z) @ [CHR ''.''] = c # s
      \<and> dropWhile is_md_digit (c # s @ '' '' @ z) = CHR ''.'' # CHR '' '' # z"
    have nb: "\<not> (c # s @ '' '' @ z \<noteq> [] \<and> is_bullet (hd (c # s @ '' '' @ z)))" using d by simp
    show ?thesis
      unfolding match_marker_def Let_def h if_not_P [OF nb] d [THEN conjunct2, THEN conjunct2] list.case
        d [THEN conjunct2, THEN conjunct1]
      using z by simp
  qed
qed

lemma strip_added:
  assumes "plain_line z" and "st = BulletStyle \<longrightarrow> (\<exists>c. v = [c] \<and> is_bullet c)"
  shows "strip_style st (line_marker v st k @ '' '' @ z) = z"
proof (cases st)
  case QuoteStyle
  then show ?thesis using plain_parts [OF assms(1)] by (simp add: strip_style_def line_marker_def js_space_def)
next
  case BulletStyle
  with assms(2) obtain c where c: "v = [c]" "is_bullet c" by blast
  then have "\<not> js_space c" by (auto simp: is_bullet_def js_space_def)
  from match_marked [OF assms(1) this, of "[]"] c BulletStyle show ?thesis
    by (simp add: strip_style_def line_marker_def)
next
  case NumberStyle
  obtain c s where cs: "nat_to_string k = c # s" by (cases "nat_to_string k") auto
  have c: "is_md_digit c" using nat_to_string_is_digits [of k] cs by simp
  have "\<not> is_md_digit CHR ''.''" by (simp add: is_md_digit_def)
  then have ds: "takeWhile is_md_digit (nat_to_string k @ CHR ''.'' # CHR '' '' # z) = nat_to_string k
      \<and> dropWhile is_md_digit (nat_to_string k @ CHR ''.'' # CHR '' '' # z) = CHR ''.'' # CHR '' '' # z"
    using takeWhile_all_append [of is_md_digit "nat_to_string k" "CHR ''.'' # CHR '' '' # z"] nat_to_string_is_digits by simp
  have "match_marker (c # (s @ ''.'') @ '' '' @ z) = Some ([], c # s @ ''.'', '' '', z)"
    by (rule match_marked [OF assms(1)]) (use digit_plain [OF c] ds cs in auto)
  then show ?thesis using NumberStyle cs by (simp add: strip_style_def line_marker_def)
qed

theorem lines_toggle_back:
  assumes "\<forall>z \<in> set zs. plain_line z" and "st = BulletStyle \<longrightarrow> (\<exists>c. v = [c] \<and> is_bullet c)"
  shows "toggle_lines True v st j (toggle_lines False v st k zs) = zs"
  using assms(1)
proof (induction zs arbitrary: k)
  case (Cons z zs)
  then have "match_marker z = None" and z: "plain_line z" by (simp_all add: plain_line_def)
  then have n: "add_style v NumberStyle k True z = z" and a: "add_style v st' k False z = line_marker v st' k @ '' '' @ z" for st'
    by (simp_all add: add_style_def)
  have "(if st = BulletStyle then add_style v NumberStyle k True z else z) = z" using n by simp
  then show ?case using Cons strip_added [OF z assms(2), of k] a [of st] by (simp only: toggle_lines.simps if_True if_False) simp
qed simp

section \<open>Bold, italic, strike-through\<close>

datatype inline_style = Bold | Italic | Strike

definition style_marks :: "inline_style \<Rightarrow> string list" where
  "style_marks st = (case st of Bold \<Rightarrow> [''**'', ''__''] | Italic \<Rightarrow> [''*'', ''_''] | Strike \<Rightarrow> [''**'', ''~~''])"

definition mark_at :: "string list \<Rightarrow> string \<Rightarrow> string option" where
  "mark_at ms s = find (\<lambda>m. str_starts_with s m) ms"

fun has_mark :: "string list \<Rightarrow> string \<Rightarrow> bool" where
  "has_mark ms [] \<longleftrightarrow> False"
| "has_mark ms (c # s) \<longleftrightarrow> mark_at ms (c # s) \<noteq> None \<or> has_mark ms s"

text \<open>\<open>replace(/(m|n)/, "")\<close>, and the same for a mark that no other follows.\<close>

fun remove_first_mark :: "string list \<Rightarrow> string \<Rightarrow> string" where
  "remove_first_mark ms [] = []"
| "remove_first_mark ms (c # s) =
     (case mark_at ms (c # s) of Some m \<Rightarrow> drop (length m) (c # s) | None \<Rightarrow> c # remove_first_mark ms s)"

fun remove_last_mark :: "string list \<Rightarrow> string \<Rightarrow> string" where
  "remove_last_mark ms [] = []"
| "remove_last_mark ms (c # s) =
     (case mark_at ms (c # s) of
        Some m \<Rightarrow> if has_mark ms (drop (length m) (c # s)) then c # remove_last_mark ms s else drop (length m) (c # s)
      | None \<Rightarrow> c # remove_last_mark ms s)"

text \<open>What is taken out of a selection before marks are put around it.\<close>

definition clear_marks :: "inline_style \<Rightarrow> string \<Rightarrow> string" where
  "clear_marks st s = (case st of
     Bold \<Rightarrow> replace_all ''__'' [] (replace_all ''**'' [] s)
   | Italic \<Rightarrow> replace_all ''_'' [] (replace_all ''*'' [] s)
   | Strike \<Rightarrow> replace_all ''~~'' [] s)"

text \<open>\<open>sa\<close>; the selection's columns are integers, as the script may take them below 0.\<close>

definition toggle_block :: "bool \<Rightarrow> inline_style \<Rightarrow> string \<Rightarrow> string list \<Rightarrow> nat \<times> nat \<Rightarrow> nat \<times> nat
    \<Rightarrow> string list \<times> (nat \<times> int) \<times> (nat \<times> int)" where
  "toggle_block active st v d p q =
     (if active then
        (let l = line_at d (fst p); k = (if st = Italic then 1 else 2) in
         (d[fst p := remove_last_mark (style_marks st) (take (snd p) l) @ remove_first_mark (style_marks st) (drop (snd p) l)],
          (fst p, int (snd p) - k), (fst q, int (snd q) - k)))
      else
        (let s = clear_marks st (get_range d p q); c = int (snd p) + int (length v) in
         (replace_range (v @ s @ v) (as_pos p) (as_pos q) d, (fst p, c), (fst q, c + int (length s)))))"

definition default_mark :: "inline_style \<Rightarrow> string" where
  "default_mark st = (case st of Bold \<Rightarrow> ''**'' | Italic \<Rightarrow> ''*'' | Strike \<Rightarrow> ''~~'')"

lemma mark_at_simps:
  "mark_at (style_marks Bold) s = (if str_starts_with s ''**'' then Some ''**'' else if str_starts_with s ''__'' then Some ''__'' else None)"
  "mark_at (style_marks Italic) s = (if str_starts_with s ''*'' then Some ''*'' else if str_starts_with s ''_'' then Some ''_'' else None)"
  "mark_at (style_marks Strike) s = (if str_starts_with s ''**'' then Some ''**'' else if str_starts_with s ''~~'' then Some ''~~'' else None)"
  by (simp_all add: mark_at_def style_marks_def)

text \<open>The mark behind a text is the last one, whatever the text holds.\<close>

lemma has_mark_end: "has_mark (style_marks st) (u @ default_mark st)"
  by (induction u) (cases st; simp add: default_mark_def mark_at_simps str_starts_with_def)+

lemma mark_at_other: "\<lbrakk>c \<noteq> CHR ''*''; c \<noteq> CHR ''_''; c \<noteq> CHR ''~''\<rbrakk> \<Longrightarrow> mark_at (style_marks st) (c # s) = None"
  by (cases st) (auto simp: mark_at_simps str_starts_with_def)

lemma mark_at_end: "mark_at (style_marks st) (default_mark st @ w) = Some (default_mark st)"
  by (cases st) (simp_all add: mark_at_simps default_mark_def str_starts_with_def)

lemma mark_at_length: "mark_at (style_marks st) s = Some m \<Longrightarrow> length m = length (default_mark st)"
  by (cases st) (auto simp: mark_at_simps default_mark_def split: if_splits)

lemma mark_at_one_more:
  "\<lbrakk>mark_at (style_marks st) (c # default_mark st) = Some m; st \<noteq> Italic\<rbrakk> \<Longrightarrow> drop (length m) (c # default_mark st) = [c]"
  by (cases st) (auto simp: mark_at_simps default_mark_def str_starts_with_def split: if_splits)

lemma default_mark_cases: "default_mark Italic = ''*''" "st \<noteq> Italic \<Longrightarrow> \<exists>c. default_mark st = [c, c]"
  by (cases st; simp add: default_mark_def)+

lemma remove_last_end: "remove_last_mark (style_marks st) (u @ default_mark st) = u"
proof (induction u)
  case Nil
  obtain c s where cs: "default_mark st = c # s" by (cases st) (auto simp: default_mark_def)
  then show ?case using mark_at_end [of st "[]"] by simp
next
  case (Cons c u)
  let ?s = "c # u @ default_mark st"
  show ?case
  proof (cases "mark_at (style_marks st) ?s")
    case (Some m)
    show ?thesis
    proof (cases "has_mark (style_marks st) (drop (length m) ?s)")
      case False
      have st: "st \<noteq> Italic"
      proof
        assume "st = Italic"
        then have "drop (length m) ?s = u @ default_mark st" using mark_at_length [OF Some] default_mark_cases(1) by simp
        with False has_mark_end show False by simp
      qed
      then have len: "length m = 2" using mark_at_length [OF Some] default_mark_cases(2) by fastforce
      have u: "u = []"
      proof (rule ccontr)
        assume "u \<noteq> []"
        then have "drop (length m) ?s = tl u @ default_mark st" using len by (cases u) simp_all
        with False has_mark_end show False by simp
      qed
      then have "drop (length m) ?s = [c]" using mark_at_one_more [OF _ st] Some by simp
      then show ?thesis using Some False u by simp
    qed (use Some Cons in simp)
  qed (use Cons in simp)
qed

lemma remove_first_end:
  assumes "\<forall>c \<in> set u. c \<noteq> CHR ''*'' \<and> c \<noteq> CHR ''_'' \<and> c \<noteq> CHR ''~''"
  shows "remove_first_mark (style_marks st) (u @ default_mark st @ w) = u @ w"
  using assms
proof (induction u)
  case Nil
  obtain c s where cs: "default_mark st = c # s" by (cases st) (auto simp: default_mark_def)
  then show ?case using mark_at_end [of st w] by simp
next
  case (Cons c u)
  then show ?case using mark_at_other [of c st] by simp
qed

lemma clear_plain:
  assumes "\<forall>c \<in> set u. c \<noteq> CHR ''*'' \<and> c \<noteq> CHR ''_'' \<and> c \<noteq> CHR ''~''"
  shows "clear_marks st u = u"
proof -
  have none: "CHR ''*'' \<notin> set u" "CHR ''_'' \<notin> set u" "CHR ''~'' \<notin> set u" using assms by blast+
  have same: "replace_all (c # p) r u = u" if "c \<notin> set u" for c p r using that by (simp add: replace_all_other)
  show ?thesis unfolding clear_marks_def same [OF none(1)] same [OF none(2)] same [OF none(3)]
    by (cases st) (simp_all only: inline_style.case same [OF none(2)])
qed

text \<open>
  Bold, italic and strike-through are undone by the same button: after the marks are put
  around a selection on one line that holds none of them, pressing the button again inside takes
  away those two marks and no other, and restores line and selection.
\<close>
theorem inline_style_round_trip:
  assumes "l < length d" and "a \<le> b" and "b \<le> length (d ! l)"
    and "\<forall>c \<in> set (slice a b (d ! l)). c \<noteq> CHR ''*'' \<and> c \<noteq> CHR ''_'' \<and> c \<noteq> CHR ''~''"
    and "\<forall>c \<in> set (slice a b (d ! l)). c \<noteq> nl \<and> c \<noteq> cr"
  shows "case toggle_block False st (default_mark st) d (l, a) (l, b) of (d1, (l1, a1), (l2, b1)) \<Rightarrow>
     d1 = d[l := take a (d ! l) @ default_mark st @ slice a b (d ! l) @ default_mark st @ drop b (d ! l)]
     \<and> toggle_block True st (default_mark st) d1 (l1, nat a1) (l2, nat b1) = (d, (l, int a), (l, int b))"
proof -
  let ?L = "d ! l" and ?m = "default_mark st"
  let ?s = "slice a b ?L"
  let ?d1 = "d[l := take a ?L @ ?m @ ?s @ ?m @ drop b ?L]"
  have sel: "get_range d (l, a) (l, b) = ?s" using assms(1) by (simp add: get_range_def line_at_def)
  have "nl \<notin> set (?m @ ?s @ ?m) \<and> cr \<notin> set (?m @ ?s @ ?m)"
    using assms(5) by (cases st) (auto simp: default_mark_def)
  then have "split_breaks (?m @ ?s @ ?m) = [?m @ ?s @ ?m]" using split_breaks_plain by blast
  then have "replace_range (?m @ ?s @ ?m) (as_pos (l, a)) (as_pos (l, b)) d = ?d1"
    using assms(1-3) by (simp add: replace_range_def clip_pos_def as_pos_def insert_lines_def upd_conv_take_nth_drop)
  then have on: "toggle_block False st ?m d (l, a) (l, b)
      = (?d1, (l, int a + int (length ?m)), (l, int a + int (length ?m) + int (length ?s)))"
    by (simp add: toggle_block_def sel clear_plain [OF assms(4)] Let_def)
  have len: "length ?s = b - a" using assms(3) by simp
  have a1: "nat (int a + int (length ?m)) = a + length ?m" by simp
  have k: "(if st = Italic then 1 else 2) = int (length ?m)" by (cases st) (simp_all add: default_mark_def)
  have la: "length (take a ?L) = a" using assms(2,3) by simp
  have line: "line_at ?d1 l = take a ?L @ ?m @ ?s @ ?m @ drop b ?L" using assms(1) by (simp add: line_at_def)
  have "take (a + length ?m) (line_at ?d1 l) = take a ?L @ ?m"
    "drop (a + length ?m) (line_at ?d1 l) = ?s @ ?m @ drop b ?L"
    unfolding line using la by simp_all
  then have "toggle_block True st ?m ?d1 (l, nat (int a + int (length ?m))) (l, nat (int a + int (length ?m) + int (length ?s)))
      = (?d1[l := take a ?L @ ?s @ drop b ?L], (l, int a), (l, int b))"
    unfolding toggle_block_def a1 using remove_last_end [of st "take a ?L"] remove_first_end [OF assms(4), of st "drop b ?L"] k len assms(2)
    by (simp add: Let_def)
  also have "?d1[l := take a ?L @ ?s @ drop b ?L] = d" using slice_parts [OF assms(2), of ?L] by simp
  finally show ?thesis unfolding on by simp
qed

end
