(* ===== verification/Markdown_Fence.thy ===== *)
theory Markdown_Fence
  imports Markdown_Toolbar
begin

text \<open>
  The code button of the Markdown editor (\<open>Pi\<close> in
  \<open>public/js/filament/forms/components/markdown-editor.js\<close>): what kind of code the cursor is in, and how
  the button puts fences or marks around a selection, takes them away, splits a fenced block or takes
  back the indentation of an indented one. What the editor's mode says of the document (the token at a
  place, whether a line carries the formatting of a fence) is an argument. \<open>None\<close> is the \<open>TypeError\<close>
  of a property read from a line that does not exist, or of \<open>v\<close> for no line.
\<close>

section \<open>Kinds of code\<close>

record md_token =
  tk_types :: "string list"
  tk_fenced :: "string option"
  tk_indented :: bool

record md_mode =
  mode_token :: "nat \<Rightarrow> nat \<Rightarrow> md_token"
  mode_fencing :: "nat \<Rightarrow> bool"

datatype code_kind = Indented | Fenced | Single | Uncoded

text \<open>\<open>v\<close>.\<close>

definition line_fences :: "md_mode \<Rightarrow> string list \<Rightarrow> int \<Rightarrow> bool option" where
  "line_fences M d l = (if 0 \<le> l \<and> l < int (length d) then Some (mode_fencing M (nat l)) else None)"

text \<open>\<open>b\<close>; an empty line has no token at its end.\<close>

definition code_kind_of :: "md_mode \<Rightarrow> string list \<Rightarrow> nat \<Rightarrow> md_token \<Rightarrow> code_kind option" where
  "code_kind_of M d l tok =
     (if length d \<le> l then None
      else let e = (if d ! l = [] then None else Some (mode_token M l (length (d ! l) - 1))) in
        if (case e of Some r \<Rightarrow> tk_indented r | None \<Rightarrow> False) then Some Indented
        else if ''comment'' \<notin> set (tk_types tok) then Some Uncoded
        else if tk_fenced tok \<noteq> None then Some Fenced
        else (case e of
            None \<Rightarrow> None
          | Some r \<Rightarrow> if tk_fenced r \<noteq> None \<or> mode_fencing M l then Some Fenced else Some Single))"

definition line_kind :: "md_mode \<Rightarrow> string list \<Rightarrow> nat \<Rightarrow> code_kind option" where
  "line_kind M d l = code_kind_of M d l (mode_token M l 1)"

section \<open>Fences around a selection\<close>

type_synonym md_selection = "(int \<times> int) \<times> (int \<times> int)"

text \<open>\<open>S\<close>, with the mark \<open>O\<close>.\<close>

definition insert_fence :: "string \<Rightarrow> string list \<Rightarrow> nat \<times> nat \<Rightarrow> nat \<times> nat \<Rightarrow> string list \<times> md_selection" where
  "insert_fence m d h g =
     (let more = (fst h \<noteq> fst g);
          close = (if more \<and> snd g = 0 then m @ [nl] else nl # m);
          last_row = fst g + 1 + (if more \<and> snd g \<noteq> 0 then 1 else 0)
      in (fst (insert_around False (m @ [nl], close) None d h g),
          ((int (fst h) + 1, 0), (int last_row, 0))))"

section \<open>Removing and splitting fences\<close>

text \<open>The search upwards among the first \<open>n\<close> lines, and downwards from \<open>a\<close>.\<close>

fun fence_above :: "(nat \<Rightarrow> bool) \<Rightarrow> nat \<Rightarrow> int" where
  "fence_above f 0 = -1"
| "fence_above f (Suc n) = (if f n then int n else fence_above f n)"

definition fence_below :: "(nat \<Rightarrow> bool) \<Rightarrow> nat \<Rightarrow> nat \<Rightarrow> int" where
  "fence_below f a n = (case find_index f [a..<n] of Some i \<Rightarrow> int (a + i) | None \<Rightarrow> int n)"

definition remove_line :: "int \<Rightarrow> string list \<Rightarrow> string list" where
  "remove_line l d = replace_range [] (l, 0) (l + 1, 0) d"

text \<open>The cursor is in a fenced block: both fences go, the lower one counted without the upper.\<close>

definition remove_fence :: "md_mode \<Rightarrow> string list \<Rightarrow> nat \<Rightarrow> string list option" where
  "remove_fence M d l =
     (let f = mode_fencing M; both = (\<lambda>a x. remove_line (x - 1) (remove_line a d)) in
      if f l then
        map_option (\<lambda>k. if k = Fenced then both (int l) (fence_below f (l + 1) (length d))
                        else both (fence_above f l) (int l)) (line_kind M d (l + 1))
      else Some (both (fence_above f (Suc l)) (fence_below f l (length d))))"

text \<open>\<open>"" + undefined\<close> is the text \<open>undefined\<close>.\<close>

definition fence_chars :: "md_mode \<Rightarrow> int \<Rightarrow> string" where
  "fence_chars M l = (case tk_fenced (mode_token M (nat l) (if l < 0 then 0 else 1)) of Some s \<Rightarrow> s | None \<Rightarrow> ''undefined'')"

text \<open>Part of a fenced block is selected: it is closed before the part and opened again behind it.\<close>

definition split_fence :: "md_mode \<Rightarrow> string list \<Rightarrow> nat \<times> nat \<Rightarrow> nat \<times> nat \<Rightarrow> (string list \<times> md_selection) option" where
  "split_fence M d h g =
     (let E = fence_chars M (fence_above (mode_fencing M) (Suc (fst h))) @ [nl];
          start = (if mode_fencing M (fst h) then Some ([], int (fst h))
                   else map_option (\<lambda>v. if v then ([], int (fst h) - 1) else (E, int (fst h))) (line_fences M d (int (fst h) - 1)));
          stop = (if mode_fencing M (fst g) then Some ([], int (fst g) + (if snd g = 0 then 1 else 0))
                  else if snd g \<noteq> 0 then
                    map_option (\<lambda>v. (if v then [] else E, int (fst g) + 1)) (line_fences M d (int (fst g) + 1))
                  else Some (E, int (fst g) + 1))
      in case (start, stop) of
           (Some (N, K), Some (V, r)) \<Rightarrow>
             (let re = (if snd g = 0 then r - 1 else r);
                  d1 = replace_range V (re, 0) (re + (if V = [] then 1 else 0), 0) d;
                  d2 = replace_range N (K, 0) (K + (if N = [] then 1 else 0), 0) d1
              in Some (d2, ((K + (if N = [] then 0 else 1), 0), (re + (if N = [] then -1 else 1), 0))))
         | _ \<Rightarrow> None)"

section \<open>Code in a line\<close>

text \<open>The script replaces up to column 99999999999999, which is the end of the line.\<close>

definition unmark_code :: "string list \<Rightarrow> nat \<times> nat \<Rightarrow> nat \<times> nat \<Rightarrow> string list \<times> md_selection" where
  "unmark_code d h g =
     (let l = line_at d (fst h);
          t = replace_first ''`'' [] (take (snd h) l) @ replace_first ''`'' [] (drop (snd h) l)
      in (replace_range t (int (fst h), 0) (int (fst h), length l) d,
          ((int (fst h), int (snd h) - 1), (int (fst g), int (snd g) - 1))))"

section \<open>Indented code\<close>

text \<open>\<open>Oe\<close>: the column behind leading blanks; \<open>Xn\<close> for \<open>"subtract"\<close>.\<close>

fun column_from :: "nat \<Rightarrow> nat \<Rightarrow> string \<Rightarrow> nat" where
  "column_from tab l [] = l"
| "column_from tab l (c # s) = column_from tab (if c = CHR 0x09 then l + (tab - l mod tab) else l + 1) s"

definition count_column :: "nat \<Rightarrow> string \<Rightarrow> nat" where
  "count_column tab s = column_from tab 0 (takeWhile js_space s)"

record indent_options =
  op_tab :: nat
  op_unit :: nat
  op_tabs :: bool

definition indent_less :: "indent_options \<Rightarrow> string \<Rightarrow> string" where
  "indent_less op s =
     (let A = (if is_blank s then 0 else count_column (op_tab op) s - op_unit op);
          k = (if op_tabs op then A div op_tab op else 0)
      in replicate k (CHR 0x09) @ replicate (A - k * op_tab op) (CHR '' '') @ dropWhile js_space s)"

text \<open>The first line of the block, searched upwards, and the last.\<close>

fun code_above :: "(nat \<Rightarrow> bool) \<Rightarrow> nat \<Rightarrow> int" where
  "code_above stop 0 = -1"
| "code_above stop (Suc n) = (if stop n then int n + 1 else code_above stop n)"

definition code_below :: "(nat \<Rightarrow> bool) \<Rightarrow> nat \<Rightarrow> nat \<Rightarrow> int" where
  "code_below stop a n = (case find_index stop [a..<n] of Some i \<Rightarrow> int (a + i) - 1 | None \<Rightarrow> int n)"

definition outdent_code :: "indent_options \<Rightarrow> md_mode \<Rightarrow> string list \<Rightarrow> nat \<times> nat \<Rightarrow> nat \<times> nat \<Rightarrow> string list" where
  "outdent_code op M d h g =
     (let stop = (\<lambda>l. \<not> is_blank (d ! l) \<and> line_kind M d l \<noteq> Some Indented);
          a = (if h \<noteq> g then int (fst h) else code_above stop (Suc (fst h)));
          x = (if h \<noteq> g then int (fst g) - (if snd g = 0 then 1 else 0) else code_below stop (fst h) (length d));
          more = (0 \<le> x + 1 \<and> x + 1 < int (length d) \<and> tk_indented (mode_token M (nat (x + 1)) (length (d ! nat (x + 1)) - 1)));
          d1 = (if more then replace_range [nl] (x + 1, 0) (x + 1, 0) d else d)
      in map (\<lambda>(i, l). if a \<le> int i \<and> int i \<le> x then indent_less op l else l) (enumerate 0 d1))"

section \<open>The button\<close>

text \<open>\<open>Pi\<close>; the selection is given where the script sets it.\<close>

definition toggle_code :: "indent_options \<Rightarrow> md_mode \<Rightarrow> string \<Rightarrow> string list \<Rightarrow> nat \<times> nat \<Rightarrow> nat \<times> nat
    \<Rightarrow> (string list \<times> md_selection option) option" where
  "toggle_code op M m d h g =
     (case code_kind_of M d (fst h) (mode_token M (fst h) (if snd h = 0 then 1 else snd h)) of
        None \<Rightarrow> None
      | Some Single \<Rightarrow> Some (apsnd Some (unmark_code d h g))
      | Some Fenced \<Rightarrow>
          if h \<noteq> g then map_option (apsnd Some) (split_fence M d h g)
          else map_option (\<lambda>d1. (d1, None)) (remove_fence M d (fst h))
      | Some Indented \<Rightarrow> Some (outdent_code op M d h g, None)
      | Some Uncoded \<Rightarrow>
          if h = g \<and> snd h = 0 \<or> fst h \<noteq> fst g then Some (apsnd Some (insert_fence m d h g))
          else (case insert_around False (''`'', ''`'') None d h g of
              (d1, (p, a), (q, b)) \<Rightarrow> Some (d1, Some ((int p, int a), (int q, int b)))))"

section \<open>Fences come and go\<close>

text \<open>A line holds no break; lines written one after the other are read as those lines.\<close>

definition unbroken_line :: "string \<Rightarrow> bool" where
  "unbroken_line l \<longleftrightarrow> nl \<notin> set l \<and> cr \<notin> set l"

lemma split_breaks_Cons: "unbroken_line a \<Longrightarrow> split_breaks (a @ nl # s) = a # split_breaks s"
  using split_breaks_append [of a "nl # s"] by (simp add: unbroken_line_def split_breaks_at(1))

lemma split_breaks_join:
  "\<lbrakk>ls \<noteq> []; \<forall>l \<in> set ls. unbroken_line l\<rbrakk> \<Longrightarrow> split_breaks (join_lines ls) = ls"
proof (induction ls rule: induct_list012)
  case (2 x)
  then show ?case using split_breaks_plain [of x] by (simp add: unbroken_line_def)
next
  case (3 x y zs)
  then show ?case using split_breaks_Cons [of x "join_lines (y # zs)"] by simp
qed simp

lemma replace_lines:
  assumes "ls \<noteq> []" and "post \<noteq> []" and "\<forall>l \<in> set ls. unbroken_line l"
  shows "replace_range (join_lines (ls @ [[]])) (int (length pre), 0) (int (length pre + length sel), 0) (pre @ sel @ post)
    = pre @ ls @ post"
proof -
  have sb: "split_breaks (join_lines (ls @ [[]])) = ls @ [[]]"
    using split_breaks_join [of "ls @ [[]]"] assms(3) by (simp add: unbroken_line_def)
  obtain b r where post: "post = b # r" using assms(2) by (cases post) auto
  obtain l rest where ls: "ls = l # rest" using assms(1) by (cases ls) auto
  have il: "insert_lines (ls @ [[]]) [] b = ls @ [b]" unfolding ls insert_lines_def by (cases rest) (simp_all add: butlast_append)
  have nth: "(pre @ sel @ post) ! (length pre + length sel) = b" unfolding post by (metis append.assoc length_append nth_append_length)
  have c1: "clip_pos (pre @ sel @ post) (int (length pre), 0) = (length pre, 0)"
    and c2: "clip_pos (pre @ sel @ post) (int (length pre + length sel), 0) = (length pre + length sel, 0)"
    unfolding clip_pos_def by (auto simp: post)
  show ?thesis unfolding replace_range_def c1 c2 using sb nth il by (simp add: post)
qed

lemma remove_line_inner: "Suc k < length d \<Longrightarrow> remove_line (int k) d = take k d @ drop (Suc k) d"
  by (simp add: remove_line_def replace_range_def clip_pos_def insert_lines_def nat_add_distrib Cons_nth_drop_Suc)

lemma remove_line_before: "\<lbrakk>d \<noteq> []; l < 0\<rbrakk> \<Longrightarrow> remove_line l d = d"
  by (cases d) (auto simp: remove_line_def replace_range_def clip_pos_def insert_lines_def)

lemma fence_above_found:
  "\<lbrakk>f k; k < n; \<And>i. \<lbrakk>k < i; i < n\<rbrakk> \<Longrightarrow> \<not> f i\<rbrakk> \<Longrightarrow> fence_above f n = int k"
  by (induction n) (auto simp: less_Suc_eq)

lemma fence_above_none: "(\<And>i. i < n \<Longrightarrow> \<not> f i) \<Longrightarrow> fence_above f n = -1"
  by (induction n) auto

text \<open>A fence is put around whole lines, \<open>sel\<close>, the cursor standing at the start of the line below them.\<close>

lemma insert_fence_lines:
  assumes "sel \<noteq> []" and "post \<noteq> []" and "\<forall>l \<in> set sel. unbroken_line l" and "unbroken_line m"
  shows "insert_fence m (pre @ sel @ post) (length pre, 0) (length pre + length sel, 0)
    = (pre @ (m # sel @ [m]) @ post, ((int (length pre) + 1, 0), (int (length pre + length sel) + 1, 0)))"
proof -
  let ?d = "pre @ sel @ post" and ?h = "(length pre, 0::nat)" and ?g = "(length pre + length sel, 0::nat)"
  obtain s r where sel: "sel = s # r" using assms(1) by (cases sel) auto
  have "get_range ?d ?h ?g = join_lines (sel @ [[]])"
    unfolding get_range_def by (simp add: line_at_def sel slice_def nth_append)
  moreover have "(m @ [nl]) @ join_lines (sel @ [[]]) @ (m @ [nl]) = join_lines ((m # sel @ [m]) @ [[]])"
    using join_lines_append [of "[m]" "sel @ [m, []]"] join_lines_append [OF assms(1), of "[[]]"]
      join_lines_append [OF assms(1), of "[m, []]"] assms(1) by simp
  ultimately have "fst (insert_around False (m @ [nl], m @ [nl]) None ?d ?h ?g) = pre @ (m # sel @ [m]) @ post"
    using replace_lines [of "m # sel @ [m]" post pre sel] assms by (simp add: insert_around_def as_pos_def)
  then show ?thesis using assms(1) by (simp add: insert_fence_def Let_def)
qed

lemma remove_fence_closing:
  assumes "\<And>l. mode_fencing M l \<longleftrightarrow> l = length pre \<or> l = Suc (length pre + length sel)"
    and "line_kind M (pre @ (m # sel @ [m]) @ post) (length pre + length sel + 2) = Some k" and "k \<noteq> Fenced"
  shows "remove_fence M (pre @ (m # sel @ [m]) @ post) (Suc (length pre + length sel)) = Some (pre @ sel @ post)"
proof -
  let ?d = "pre @ (m # sel @ [m]) @ post"
  have post: "post \<noteq> []" using assms(2) by (auto simp: line_kind_def code_kind_of_def split: if_splits)
  have "fence_above (mode_fencing M) (Suc (length pre + length sel)) = int (length pre)"
    by (rule fence_above_found) (auto simp: assms(1))
  moreover have "remove_line (int (length pre)) ?d = pre @ sel @ m # post" using remove_line_inner [of "length pre" ?d] by simp
  moreover have "remove_line (int (Suc (length pre + length sel)) - 1) (pre @ sel @ m # post) = pre @ sel @ post"
    using remove_line_inner [of "length pre + length sel" "pre @ sel @ m # post"] post by simp
  ultimately show ?thesis using assms by (simp add: remove_fence_def Let_def)
qed

lemma toggle_code_at:
  "code_kind_of M d l (mode_token M l (if a = 0 then 1 else a)) = Some Fenced \<Longrightarrow>
     toggle_code op M m d (l, a) (l, a) = map_option (\<lambda>d1. (d1, None)) (remove_fence M d l)"
  "code_kind_of M d l (mode_token M l (if a = 0 then 1 else a)) = Some Single \<Longrightarrow>
     toggle_code op M m d (l, a) (l, a) = Some (apsnd Some (unmark_code d (l, a) (l, a)))"
  by (simp_all only: toggle_code_def fst_conv snd_conv option.case code_kind.case simp_thms if_False)

text \<open>
  The code button on whole lines that are no code puts one fence above and one below them and
  selects the lines; pressed again on the closing fence, when the mode sees these two fences and
  something that is no fence follows, it takes exactly the two fences away.
\<close>
theorem code_fence_round_trip:
  assumes "sel \<noteq> []" and "\<forall>l \<in> set sel. unbroken_line l" and "unbroken_line m" and "m \<noteq> []"
    and "code_kind_of M (pre @ sel @ post) (length pre) (mode_token M (length pre) 1) = Some Uncoded" and "post \<noteq> []"
    and "\<And>l. mode_fencing M2 l \<longleftrightarrow> l = length pre \<or> l = Suc (length pre + length sel)"
    and "''comment'' \<in> set (tk_types (mode_token M2 (Suc (length pre + length sel)) (if col = 0 then 1 else col)))"
    and "\<not> tk_indented (mode_token M2 (Suc (length pre + length sel)) (length m - 1))"
    and "line_kind M2 (pre @ (m # sel @ [m]) @ post) (length pre + length sel + 2) = Some k" and "k \<noteq> Fenced"
  shows "toggle_code op M m (pre @ sel @ post) (length pre, 0) (length pre + length sel, 0)
       = Some (pre @ (m # sel @ [m]) @ post, Some ((int (length pre) + 1, 0), (int (length pre + length sel) + 1, 0)))
     \<and> toggle_code op M2 m (pre @ (m # sel @ [m]) @ post) (Suc (length pre + length sel), col) (Suc (length pre + length sel), col)
       = Some (pre @ sel @ post, None)"
proof
  show "toggle_code op M m (pre @ sel @ post) (length pre, 0) (length pre + length sel, 0)
      = Some (pre @ (m # sel @ [m]) @ post, Some ((int (length pre) + 1, 0), (int (length pre + length sel) + 1, 0)))"
    using assms(1,5) insert_fence_lines [OF assms(1,6,2,3)] by (simp add: toggle_code_def)
  let ?d = "pre @ (m # sel @ [m]) @ post" and ?c = "Suc (length pre + length sel)"
  have "?d ! ?c = m" by (simp add: nth_append)
  then have "code_kind_of M2 ?d ?c (mode_token M2 ?c (if col = 0 then 1 else col)) = Some Fenced"
    using assms(4,7,8,9) by (simp add: code_kind_of_def)
  then show "toggle_code op M2 m ?d (?c, col) (?c, col) = Some (pre @ sel @ post, None)"
    using remove_fence_closing [OF assms(7,10,11)] by (simp add: toggle_code_at(1))
qed

text \<open>What the mode says of a document whose fences are the lines \<open>fs\<close> and whose code is the lines \<open>cs\<close>.\<close>

definition fenced_mode :: "nat list \<Rightarrow> nat list \<Rightarrow> md_mode" where
  "fenced_mode fs cs =
     \<lparr>mode_token = (\<lambda>l _. \<lparr>tk_types = (if l \<in> set (fs @ cs) then [''comment''] else []), tk_fenced = None, tk_indented = False\<rparr>),
      mode_fencing = (\<lambda>l. l \<in> set fs)\<rparr>"

definition four_spaces :: indent_options where
  "four_spaces = \<lparr>op_tab = 4, op_unit = 4, op_tabs = False\<rparr>"

section \<open>Where the button goes wrong\<close>

text \<open>
  No mode of the editor stores \<open>fencedChars\<close>. So the inside of a block is no fenced code for the
  button, whatever its fences: it changes nothing there but the selection.
\<close>

theorem fence_body_kept:
  assumes "\<And>i c. tk_fenced (mode_token M i c) = None" and "\<not> mode_fencing M l" and "\<And>i c. \<not> tk_indented (mode_token M i c)"
    and "''comment'' \<in> set (tk_types (mode_token M l (if a = 0 then 1 else a)))"
    and "l < length d" and "d ! l \<noteq> []" and "CHR ''`'' \<notin> set (d ! l)" and "unbroken_line (d ! l)"
  shows "map_option fst (toggle_code op M m d (l, a) (l, a)) = Some d"
proof -
  have keep: "replace_first ''`'' [] s = s" if "CHR ''`'' \<notin> set s" for s
    using that by (induction s) (auto simp: str_starts_with_def)
  have "CHR ''`'' \<notin> set (take a (d ! l))" "CHR ''`'' \<notin> set (drop a (d ! l))"
    using assms(7) by (auto dest: in_set_takeD in_set_dropD)
  then have "unmark_code d (l, a) (l, a) = (replace_range (d ! l) (int l, 0) (int l, length (d ! l)) d, ((int l, int a - 1), (int l, int a - 1)))"
    using assms(5) by (simp add: unmark_code_def line_at_def Let_def keep)
  moreover have "replace_range (d ! l) (int l, 0) (int l, length (d ! l)) d = d"
    using assms(5,8) split_breaks_plain [of "d ! l"]
    by (simp add: replace_range_def clip_pos_def insert_lines_def unbroken_line_def Cons_nth_drop_Suc flip: upd_conv_take_nth_drop)
  moreover have "code_kind_of M d l (mode_token M l (if a = 0 then 1 else a)) = Some Single"
    using assms(1-6) by (simp add: code_kind_of_def)
  ultimately show ?thesis by (simp add: toggle_code_at(2))
qed

text \<open>On an opening fence with no fence above, it removes the line before the fence and no fence.\<close>

theorem opening_fence_takes_line_before:
  assumes "mode_fencing M l" and "\<And>i. i < l \<Longrightarrow> \<not> mode_fencing M i" and "0 < l"
    and "line_kind M d (Suc l) = Some k" and "k \<noteq> Fenced"
  shows "remove_fence M d l = Some (take (l - 1) d @ drop l d)"
proof -
  have l: "Suc l < length d" using assms(4) by (auto simp: line_kind_def code_kind_of_def split: if_splits)
  then have "d \<noteq> []" by auto
  have "fence_above (mode_fencing M) l = -1" using assms(2) by (rule fence_above_none)
  moreover have "remove_line (int l - 1) d = take (l - 1) d @ drop l d"
    using remove_line_inner [of "l - 1" d] l assms(3) by (simp add: of_nat_diff)
  ultimately show ?thesis
    using assms remove_line_before [OF \<open>d \<noteq> []\<close>, of "-1"] by (simp add: remove_fence_def Let_def)
qed

text \<open>On a closing fence that is the document's last line, it fails.\<close>

theorem last_closing_fence_fails: "mode_fencing M l \<Longrightarrow> length d = Suc l \<Longrightarrow> remove_fence M d l = None"
  by (simp add: remove_fence_def line_kind_def code_kind_of_def Let_def)

text \<open>A selection from a fence into its block closes the block with the word \<open>undefined\<close>; the second span of a line unmarks the first.\<close>

theorem split_writes_undefined:
  "map_option fst (toggle_code four_spaces (fenced_mode [0, 3] [1, 2]) ''```'' [''```'', ''x'', ''y'', ''```'', ''b''] (0, 0) (1, 1))
   = Some [''x'', ''undefined'', ''y'', ''```'', ''b'']"
  by code_simp

theorem second_span_unmarks_first:
  "fst (unmark_code [''`a` and `b`''] (0, 10) (0, 10)) = [''a` and `b'']"
  by code_simp

end
