(* ===== verification/Markdown_Document.thy ===== *)
theory Markdown_Document
  imports Markdown_Text
begin

text \<open>
  The document of the Markdown editor (\<open>public/js/filament/forms/components/markdown-editor.js\<close>): its
  lines are kept in a tree of leaves (\<open>Bn\<close>) and branches (\<open>jn\<close>) that store their number of lines;
  \<open>Fo\<close> applies a change to it line by line. The tree is shown to be its list of lines, and a change
  the replacement of a range in that list. Heights, parents and marked spans are left out.
\<close>

section \<open>The tree of lines\<close>

datatype 'a line_tree = Leaf "'a list" | Branch nat "'a line_tree list"

fun chunk_size :: "'a line_tree \<Rightarrow> nat" where
  "chunk_size (Leaf ls) = length ls"
| "chunk_size (Branch s cs) = s"

text \<open>What \<open>collapse\<close> collects.\<close>

fun lines_of :: "'a line_tree \<Rightarrow> 'a list" where
  "lines_of (Leaf ls) = ls"
| "lines_of (Branch s cs) = concat (map lines_of cs)"

definition new_branch :: "'a line_tree list \<Rightarrow> 'a line_tree" where
  "new_branch cs = Branch (sum_list (map chunk_size cs)) cs"

text \<open>\<open>Ae\<close>: a line by its number; \<open>None\<close> is the error that there is no such line.\<close>

fun get_line :: "'a line_tree \<Rightarrow> nat \<Rightarrow> 'a option" and get_line_in :: "'a line_tree list \<Rightarrow> nat \<Rightarrow> 'a option" where
  "get_line (Leaf ls) k = (if k < length ls then Some (ls ! k) else None)"
| "get_line (Branch s cs) k = (if k < s then get_line_in cs k else None)"
| "get_line_in [] k = None"
| "get_line_in (c # cs) k = (if k < chunk_size c then get_line c k else get_line_in cs (k - chunk_size c))"

text \<open>The text of that line is replaced.\<close>

fun set_line :: "'a line_tree \<Rightarrow> nat \<Rightarrow> 'a \<Rightarrow> 'a line_tree" and set_line_in :: "'a line_tree list \<Rightarrow> nat \<Rightarrow> 'a \<Rightarrow> 'a line_tree list" where
  "set_line (Leaf ls) k x = Leaf (ls[k := x])"
| "set_line (Branch s cs) k x = Branch s (set_line_in cs k x)"
| "set_line_in [] k x = []"
| "set_line_in (c # cs) k x =
     (if k < chunk_size c then set_line c k x # cs else c # set_line_in cs (k - chunk_size c) x)"

text \<open>\<open>removeInner\<close>: \<open>n\<close> lines from number \<open>e\<close>, all of them present.\<close>

definition is_leaf :: "'a line_tree \<Rightarrow> bool" where
  "is_leaf c = (case c of Leaf _ \<Rightarrow> True | _ \<Rightarrow> False)"

definition collapse_small :: "nat \<Rightarrow> 'a line_tree list \<Rightarrow> 'a line_tree" where
  "collapse_small s cs =
     (if s < 25 \<and> (1 < length cs \<or> cs = [] \<or> \<not> is_leaf (hd cs)) then Branch s [Leaf (concat (map lines_of cs))] else Branch s cs)"

fun remove_inner :: "'a line_tree \<Rightarrow> nat \<Rightarrow> nat \<Rightarrow> 'a line_tree"
  and remove_children :: "'a line_tree list \<Rightarrow> nat \<Rightarrow> nat \<Rightarrow> 'a line_tree list" where
  "remove_inner (Leaf ls) e n = Leaf (take e ls @ drop (e + n) ls)"
| "remove_inner (Branch s cs) e n = collapse_small (s - n) (remove_children cs e n)"
| "remove_children [] e n = []"
| "remove_children (c # cs) e n =
     (let i = chunk_size c in
      if e < i then
        (let a = min n (i - e); rest = (if n - a = 0 then cs else remove_children cs 0 (n - a))
         in if i = a then rest else remove_inner c e a # rest)
      else c # remove_children cs (e - i) n)"

text \<open>
  \<open>maybeSpill\<close>: a branch with more than ten children gives five at a time to a new branch behind it;
  at the root it keeps the rest in a new branch, too, until the root has at most ten.
\<close>

function spill :: "'a line_tree list \<Rightarrow> 'a line_tree list \<times> 'a line_tree list" where
  "spill cs =
     (if 10 < length cs then
        (case spill (take (length cs - 5) cs) of (k, ns) \<Rightarrow> (k, ns @ [new_branch (drop (length cs - 5) cs)]))
      else (cs, []))"
  by pat_completeness auto
termination by (relation "measure length") auto

declare spill.simps [simp del]

lemma spill_counts: "spill cs = (k, ns) \<Longrightarrow> length cs = length k + 5 * length ns \<and> length k \<le> 10 \<and> (10 < length cs \<longrightarrow> 5 < length k)"
proof (induction cs arbitrary: k ns rule: spill.induct)
  case (1 cs)
  show ?case
  proof (cases "10 < length cs")
    case True
    obtain k' ns' where s: "spill (take (length cs - 5) cs) = (k', ns')" by (rule prod.exhaust)
    have k: "k = k'" "ns = ns' @ [new_branch (drop (length cs - 5) cs)]"
      using "1.prems" True s by (auto simp: spill.simps [of cs])
    have IH: "length (take (length cs - 5) cs) = length k' + 5 * length ns' \<and> length k' \<le> 10
        \<and> (10 < length (take (length cs - 5) cs) \<longrightarrow> 5 < length k')" using "1.IH" [OF True s] .
    have "5 < length k'"
    proof (cases "10 < length cs - 5")
      case False
      then have "spill (take (length cs - 5) cs) = (take (length cs - 5) cs, [])" by (simp add: spill.simps [of "take (length cs - 5) cs"])
      then show ?thesis using s True by auto
    qed (use IH in simp)
    moreover have "length cs - 5 = length k' + 5 * length ns'" "length k' \<le> 10" using IH True by simp_all
    ultimately show ?thesis using True k by simp
  qed (use "1.prems" in \<open>auto simp: spill.simps [of cs]\<close>)
qed

lemma spill_not_Nil: "\<lbrakk>spill cs = (k, ns); cs \<noteq> []\<rbrakk> \<Longrightarrow> k \<noteq> []"
proof (cases "10 < length cs")
  case False
  assume s: "spill cs = (k, ns)" and ne: "cs \<noteq> []"
  have "spill cs = (cs, [])" using False by (subst spill.simps) simp
  then show ?thesis using s ne by simp
next
  case True
  assume "spill cs = (k, ns)"
  from spill_counts [OF this] True have "5 < length k" by blast
  then show ?thesis by auto
qed

function spill_root :: "'a line_tree list \<Rightarrow> 'a line_tree list" where
  "spill_root cs = (if 10 < length cs then (case spill cs of (k, ns) \<Rightarrow> spill_root (new_branch k # ns)) else cs)"
  by pat_completeness auto
termination by (relation "measure length") (auto dest!: spill_counts [OF sym])

declare spill_root.simps [simp del]

text \<open>
  \<open>insertInner\<close>: the child in whose range the place is, or ends, takes the lines; a leaf of more than
  fifty lines is cut in the branch above it. The second result says whether the branch has to look
  whether it spills; a branch that spilled gives its new neighbours to the branch above.
\<close>

fun cut_leaf :: "nat \<Rightarrow> 'a list \<Rightarrow> 'a line_tree list" where
  "cut_leaf n ls = (if ls = [] \<or> n = 0 then [] else Leaf (take n ls) # cut_leaf n (drop n ls))"

declare cut_leaf.simps [simp del]

definition leaf_pieces :: "'a list \<Rightarrow> 'a line_tree list" where
  "leaf_pieces ls = (let l = length ls mod 25 + 25 in Leaf (take l ls) # cut_leaf 25 (drop l ls))"

fun insert_node :: "'a line_tree \<Rightarrow> nat \<Rightarrow> 'a list \<Rightarrow> 'a line_tree list \<times> bool"
  and insert_children :: "'a line_tree list \<Rightarrow> nat \<Rightarrow> 'a list \<Rightarrow> 'a line_tree list \<times> bool" where
  "insert_node (Leaf ls) e xs =
     (let ys = take e ls @ xs @ drop e ls in if 50 < length ys then (leaf_pieces ys, True) else ([Leaf ys], False))"
| "insert_node (Branch s cs) e xs =
     (case insert_children cs e xs of (cs1, look) \<Rightarrow>
        if look then (case spill cs1 of (k, ns) \<Rightarrow>
            (Branch (s + length xs - sum_list (map chunk_size ns)) k # ns, ns \<noteq> []))
        else ([Branch (s + length xs) cs1], False))"
| "insert_children [] e xs = ([], False)"
| "insert_children (c # cs) e xs =
     (if e \<le> chunk_size c then (case insert_node c e xs of (ns, look) \<Rightarrow> (ns @ cs, look))
      else (case insert_children cs (e - chunk_size c) xs of (ns, look) \<Rightarrow> (c # ns, look)))"

text \<open>The operations of the document, which is a branch.\<close>

definition insert_root :: "'a line_tree \<Rightarrow> nat \<Rightarrow> 'a list \<Rightarrow> 'a line_tree" where
  "insert_root t e xs =
     (case t of
        Leaf ls \<Rightarrow> Leaf (take e ls @ xs @ drop e ls)
      | Branch s cs \<Rightarrow> (case insert_children cs e xs of (cs1, look) \<Rightarrow>
            Branch (s + length xs) (if look then spill_root cs1 else cs1)))"

section \<open>The tree is its list of lines\<close>

text \<open>Sizes are right, a branch has one to ten children, a leaf at most fifty lines.\<close>

fun tree_ok :: "'a line_tree \<Rightarrow> bool" where
  "tree_ok (Leaf ls) \<longleftrightarrow> length ls \<le> 50"
| "tree_ok (Branch s cs) \<longleftrightarrow> s = length (concat (map lines_of cs)) \<and> cs \<noteq> [] \<and> length cs \<le> 10 \<and> list_all tree_ok cs"

definition children_ok :: "'a line_tree list \<Rightarrow> bool" where
  "children_ok cs \<longleftrightarrow> list_all tree_ok cs"

abbreviation all_lines :: "'a line_tree list \<Rightarrow> 'a list" where
  "all_lines cs \<equiv> concat (map lines_of cs)"

lemma children_ok_simps [simp]:
  "children_ok []" "children_ok (c # cs) \<longleftrightarrow> tree_ok c \<and> children_ok cs"
  "children_ok (cs @ ds) \<longleftrightarrow> children_ok cs \<and> children_ok ds"
  by (simp_all add: children_ok_def)

lemma tree_ok_Branch [simp]:
  "tree_ok (Branch s cs) \<longleftrightarrow> s = length (all_lines cs) \<and> cs \<noteq> [] \<and> length cs \<le> 10 \<and> children_ok cs"
  by (simp add: children_ok_def)

declare tree_ok.simps(2) [simp del]

lemma chunk_size_lines: "tree_ok c \<Longrightarrow> chunk_size c = length (lines_of c)"
  by (cases c) simp_all

lemma chunk_sizes: "children_ok cs \<Longrightarrow> sum_list (map chunk_size cs) = length (all_lines cs)"
  by (induction cs) (simp_all add: chunk_size_lines)

lemma children_ok_take [simp]: "children_ok cs \<Longrightarrow> children_ok (take n cs)" "children_ok cs \<Longrightarrow> children_ok (drop n cs)"
  using children_ok_simps(3) [of "take n cs" "drop n cs"] by simp_all

lemma get_line_lines:
  fixes t :: "'a line_tree" and cs :: "'a line_tree list"
  shows "tree_ok t \<Longrightarrow> k < length (lines_of t) \<Longrightarrow> get_line t k = Some (lines_of t ! k)"
  "children_ok cs \<Longrightarrow> k < length (all_lines cs) \<Longrightarrow> get_line_in cs k = Some (all_lines cs ! k)"
proof (induction t k and cs k rule: get_line_get_line_in.induct)
  case (4 c cs k)
  then show ?case by (cases "k < chunk_size c") (simp_all add: chunk_size_lines nth_append)
qed simp_all

lemma set_line_lines:
  fixes t :: "'a line_tree" and cs :: "'a line_tree list"
  shows "tree_ok t \<Longrightarrow> tree_ok (set_line t k x) \<and> lines_of (set_line t k x) = (lines_of t)[k := x]"
  "children_ok cs \<Longrightarrow> children_ok (set_line_in cs k x) \<and> length (set_line_in cs k x) = length cs
     \<and> all_lines (set_line_in cs k x) = (all_lines cs)[k := x]"
proof (induction t k x and cs k x rule: set_line_set_line_in.induct)
  case (2 s cs k x)
  then have IH: "children_ok (set_line_in cs k x)" "length (set_line_in cs k x) = length cs"
    "all_lines (set_line_in cs k x) = (all_lines cs)[k := x]" by simp_all
  then have "set_line_in cs k x \<noteq> []" using 2 by fastforce
  then show ?case using IH 2 by simp
next
  case (4 c cs k x)
  then have ok: "tree_ok c" "children_ok cs" by simp_all
  show ?case
  proof (cases "k < chunk_size c")
    case True
    then show ?thesis using "4.IH"(1) [OF True ok(1)] ok by (simp add: chunk_size_lines list_update_append)
  next
    case False
    then show ?thesis using "4.IH"(2) [OF False ok(2)] ok by (simp add: chunk_size_lines list_update_append)
  qed
qed simp_all

lemma collapse_small_ok:
  assumes "children_ok cs" and "s = length (all_lines cs)" and "length cs \<le> 10"
  shows "tree_ok (collapse_small s cs) \<and> lines_of (collapse_small s cs) = all_lines cs"
proof (cases "s < 25 \<and> (1 < length cs \<or> cs = [] \<or> \<not> is_leaf (hd cs))")
  case True
  then show ?thesis using assms by (simp add: collapse_small_def)
next
  case False
  then have "collapse_small s cs = Branch s cs" unfolding collapse_small_def by (rule if_not_P)
  moreover have "cs \<noteq> []" using False assms(2) by auto
  ultimately show ?thesis using assms by simp
qed

lemma remove_lines:
  fixes t :: "'a line_tree" and cs :: "'a line_tree list"
  shows "tree_ok t \<Longrightarrow> e + n \<le> length (lines_of t) \<Longrightarrow>
     tree_ok (remove_inner t e n) \<and> lines_of (remove_inner t e n) = take e (lines_of t) @ drop (e + n) (lines_of t)"
  "children_ok cs \<Longrightarrow> e + n \<le> length (all_lines cs) \<Longrightarrow>
     children_ok (remove_children cs e n) \<and> length (remove_children cs e n) \<le> length cs
     \<and> all_lines (remove_children cs e n) = take e (all_lines cs) @ drop (e + n) (all_lines cs)"
proof (induction t e n and cs e n rule: remove_inner_remove_children.induct)
  case (2 s cs e n)
  then have IH: "children_ok (remove_children cs e n) \<and> length (remove_children cs e n) \<le> length cs
     \<and> all_lines (remove_children cs e n) = take e (all_lines cs) @ drop (e + n) (all_lines cs)" by simp
  then have "s - n = length (all_lines (remove_children cs e n))" using 2 by simp
  then show ?case using collapse_small_ok [of "remove_children cs e n" "s - n"] IH 2 by simp
next
  case (4 c cs e n)
  let ?i = "chunk_size c" and ?L = "lines_of c"
  have ok: "tree_ok c" "children_ok cs" using "4.prems" by simp_all
  have i: "?i = length ?L" using ok by (simp add: chunk_size_lines)
  show ?case
  proof (cases "e < ?i")
    case False
    then have "e - ?i + n \<le> length (all_lines cs)" using "4.prems" i by simp
    from "4.IH"(3) [OF refl False ok(2) this] show ?thesis using False ok i by (auto simp: Let_def)
  next
    case True
    define a where "a = min n (?i - e)"
    define rest where "rest = (if n - a = 0 then cs else remove_children cs 0 (n - a))"
    have rest: "children_ok rest \<and> length rest \<le> length cs \<and> all_lines rest = drop (n - a) (all_lines cs)"
    proof (cases "n - a = 0")
      case False
      have "0 + (n - a) \<le> length (all_lines cs)" using "4.prems"(2) i False unfolding a_def by auto
      from "4.IH"(1) [OF refl True a_def False ok(2) this] show ?thesis using False by (simp add: rest_def)
    qed (simp add: rest_def ok)
    have eq: "remove_children (c # cs) e n = (if ?i = a then rest else remove_inner c e a # rest)"
      using True by (simp add: a_def rest_def Let_def)
    have parts: "drop (e + n) (?L @ all_lines cs) = drop (e + a) ?L @ drop (n - a) (all_lines cs)"
    proof (cases "n \<le> ?i - e")
      case t: True
      then have "a = n" by (simp add: a_def)
      then show ?thesis using t True i by simp
    next
      case f: False
      then have "a = ?i - e" by (simp add: a_def)
      then show ?thesis using f True i by (simp add: add.commute)
    qed
    show ?thesis
    proof (cases "?i = a")
      case t: True
      then have "e = 0" using True unfolding a_def by auto
      then show ?thesis unfolding eq using t rest parts i by simp
    next
      case f: False
      have "e + a \<le> length ?L" using True i unfolding a_def by auto
      from "4.IH"(2) [OF refl True a_def rest_def f ok(1) this] show ?thesis unfolding eq using f rest parts True i by simp
    qed
  qed
qed auto

lemma new_branch_ok:
  "\<lbrakk>children_ok ts; ts \<noteq> []; length ts \<le> 10\<rbrakk> \<Longrightarrow> tree_ok (new_branch ts)"
  "lines_of (new_branch ts) = all_lines ts"
  by (simp_all add: new_branch_def chunk_sizes)

lemma spill_ok:
  "\<lbrakk>spill cs = (k, ns); children_ok cs\<rbrakk> \<Longrightarrow> children_ok k \<and> children_ok ns \<and> all_lines k @ all_lines ns = all_lines cs"
proof (induction cs arbitrary: k ns rule: spill.induct)
  case (1 cs)
  let ?c = "take (length cs - 5) cs" and ?d = "drop (length cs - 5) cs"
  show ?case
  proof (cases "10 < length cs")
    case True
    obtain k' ns' where s: "spill ?c = (k', ns')" by (rule prod.exhaust)
    have k: "k = k'" "ns = ns' @ [new_branch ?d]" using "1.prems"(1) True s by (auto simp: spill.simps [of cs])
    have "children_ok ?c" using "1.prems"(2) by simp
    from "1.IH" [OF True s this] have IH: "children_ok k' \<and> children_ok ns' \<and> all_lines k' @ all_lines ns' = all_lines ?c" .
    have "tree_ok (new_branch ?d)" using "1.prems"(2) True by (intro new_branch_ok) auto
    moreover have "all_lines ?c @ all_lines ?d = all_lines cs"
      by (metis append_take_drop_id concat_append map_append)
    ultimately show ?thesis using IH by (simp add: k new_branch_ok flip: append_assoc)
  qed (use "1.prems" in \<open>auto simp: spill.simps [of cs]\<close>)
qed

lemma spill_root_ok:
  "\<lbrakk>children_ok cs; cs \<noteq> []\<rbrakk> \<Longrightarrow> children_ok (spill_root cs) \<and> spill_root cs \<noteq> [] \<and> length (spill_root cs) \<le> 10
     \<and> all_lines (spill_root cs) = all_lines cs"
proof (induction cs rule: spill_root.induct)
  case (1 cs)
  show ?case
  proof (cases "10 < length cs")
    case True
    obtain k ns where s: "spill cs = (k, ns)" by (rule prod.exhaust)
    note c = spill_counts [OF s] and ok = spill_ok [OF s "1.prems"(1)]
    have "tree_ok (new_branch k)" using c ok True by (intro new_branch_ok) auto
    then have n: "children_ok (new_branch k # ns)" "new_branch k # ns \<noteq> []" using ok by simp_all
    from "1.IH" [OF True s [symmetric] n] show ?thesis
      using True s ok by (simp add: spill_root.simps [of cs] new_branch_ok)
  qed (use "1.prems" in \<open>simp add: spill_root.simps [of cs]\<close>)
qed

lemma cut_leaf_ok: "\<lbrakk>0 < n; n \<le> 50\<rbrakk> \<Longrightarrow> children_ok (cut_leaf n ls) \<and> all_lines (cut_leaf n ls) = ls"
proof (induction n ls rule: cut_leaf.induct)
  case (1 n ls)
  show ?case
  proof (cases "ls = []")
    case False
    then show ?thesis using 1 by (simp add: cut_leaf.simps [of n ls] min.coboundedI2)
  qed (simp add: cut_leaf.simps [of n "[]"])
qed

lemma leaf_pieces_ok: "children_ok (leaf_pieces ls) \<and> all_lines (leaf_pieces ls) = ls"
proof -
  have "length ls mod 25 < 25" by (rule mod_less_divisor) simp
  then show ?thesis using cut_leaf_ok [of 25 "drop (length ls mod 25 + 25) ls"] by (simp add: leaf_pieces_def Let_def)
qed

lemma insert_lines_ok:
  fixes t :: "'a line_tree" and cs :: "'a line_tree list"
  shows "\<lbrakk>tree_ok t; e \<le> length (lines_of t); insert_node t e xs = (ns, look)\<rbrakk> \<Longrightarrow>
      children_ok ns \<and> ns \<noteq> [] \<and> all_lines ns = take e (lines_of t) @ xs @ drop e (lines_of t) \<and> (look \<or> length ns = 1)"
    and "\<lbrakk>children_ok cs; cs \<noteq> []; e \<le> length (all_lines cs); insert_children cs e xs = (ns, look)\<rbrakk> \<Longrightarrow>
      children_ok ns \<and> ns \<noteq> [] \<and> all_lines ns = take e (all_lines cs) @ xs @ drop e (all_lines cs) \<and> (look \<or> length ns = length cs)"
proof (induction t e xs and cs e xs arbitrary: ns look and ns look rule: insert_node_insert_children.induct)
  case (1 ls e xs)
  let ?y = "take e ls @ xs @ drop e ls"
  have ns: "(ns, look) = (if 50 < length ?y then (leaf_pieces ?y, True) else ([Leaf ?y], False))" using "1.prems" by (simp only: insert_node.simps Let_def)
  show ?case
  proof (cases "50 < length ?y")
    case True
    then have "ns = leaf_pieces ?y" "look" using ns by simp_all
    moreover have "leaf_pieces ?y \<noteq> []" by (simp only: leaf_pieces_def Let_def list.simps not_False_eq_True)
    ultimately show ?thesis using leaf_pieces_ok [of ?y] by simp
  next
    case False
    then have "ns = [Leaf ?y]" using ns by simp
    then show ?thesis using False by simp
  qed
next
  case (2 s cs e xs)
  obtain cs1 l1 where c: "insert_children cs e xs = (cs1, l1)" by (rule prod.exhaust)
  have p: "children_ok cs" "cs \<noteq> []" "e \<le> length (all_lines cs)" "s = length (all_lines cs)" "length cs \<le> 10" using "2.prems" by simp_all
  note IH = "2.IH" [OF p(1-3) c]
  have len: "length (all_lines cs1) = s + length xs" using IH p by (simp add: min_absorb2)
  show ?case
  proof (cases l1)
    case False
    then show ?thesis using IH p len "2.prems"(3) c by auto
  next
    case True
    obtain k ms where s: "spill cs1 = (k, ms)" by (rule prod.exhaust)
    have r: "ns = Branch (s + length xs - sum_list (map chunk_size ms)) k # ms" "look = (ms \<noteq> [])"
      using "2.prems"(3) c True s by auto
    have ok: "children_ok k" "children_ok ms" "all_lines k @ all_lines ms = all_lines cs1" using spill_ok [OF s] IH by blast+
    have "length (all_lines k) + length (all_lines ms) = s + length xs" using ok(3) len by (metis length_append)
    moreover have "k \<noteq> []" "length k \<le> 10" using spill_counts [OF s] spill_not_Nil [OF s] IH by blast+
    ultimately show ?thesis using ok IH chunk_sizes [OF ok(2)] by (auto simp: r)
  qed
next
  case (3 e xs)
  then show ?case by simp
next
  case (4 c cs e xs)
  have ok: "tree_ok c" "children_ok cs" "chunk_size c = length (lines_of c)" using "4.prems"(1) by (simp_all add: chunk_size_lines)
  show ?case
  proof (cases "e \<le> chunk_size c")
    case True
    obtain ms l where m: "insert_node c e xs = (ms, l)" by (rule prod.exhaust)
    have "e \<le> length (lines_of c)" using True ok by simp
    from "4.IH"(1) [OF True ok(1) this m] show ?thesis using "4.prems"(4) True m ok by auto
  next
    case False
    obtain ms l where m: "insert_children cs (e - chunk_size c) xs = (ms, l)" by (rule prod.exhaust)
    have ne: "cs \<noteq> []" using "4.prems"(3) False ok by auto
    have "e - chunk_size c \<le> length (all_lines cs)" using "4.prems"(3) ok by auto
    from "4.IH"(2) [OF False ok(2) ne this m] show ?thesis using "4.prems"(4) False m ok by auto
  qed
qed

text \<open>A document is a branch that is in order.\<close>

definition doc_ok :: "'a line_tree \<Rightarrow> bool" where
  "doc_ok t \<longleftrightarrow> tree_ok t \<and> \<not> is_leaf t"

lemma insert_root_ok:
  assumes "doc_ok t" and "e \<le> length (lines_of t)"
  shows "doc_ok (insert_root t e xs) \<and> lines_of (insert_root t e xs) = take e (lines_of t) @ xs @ drop e (lines_of t)"
proof -
  obtain s cs where t: "t = Branch s cs" using assms(1) by (cases t) (auto simp: doc_ok_def is_leaf_def)
  obtain cs1 look where c: "insert_children cs e xs = (cs1, look)" by (rule prod.exhaust)
  have p: "children_ok cs" "cs \<noteq> []" "e \<le> length (all_lines cs)" "length cs \<le> 10" "s = length (all_lines cs)"
    using assms by (simp_all add: doc_ok_def t)
  note ok = insert_lines_ok(2) [OF p(1-3) c]
  have "length (all_lines cs1) = s + length xs" using ok p by simp
  moreover have "\<not> look \<longrightarrow> length cs1 \<le> 10" using ok p by auto
  ultimately show ?thesis using ok p spill_root_ok [of cs1] by (simp add: t c insert_root_def doc_ok_def is_leaf_def)
qed

lemma remove_root_ok:
  assumes "doc_ok t" and "e + n \<le> length (lines_of t)"
  shows "doc_ok (remove_inner t e n) \<and> lines_of (remove_inner t e n) = take e (lines_of t) @ drop (e + n) (lines_of t)"
proof -
  obtain s cs where t: "t = Branch s cs" using assms(1) by (cases t) (auto simp: doc_ok_def is_leaf_def)
  have "\<not> is_leaf (remove_inner t e n)" by (simp add: t collapse_small_def is_leaf_def)
  then show ?thesis using remove_lines(1) [of t e n] assms by (simp add: doc_ok_def)
qed

lemma set_line_ok:
  "doc_ok t \<Longrightarrow> doc_ok (set_line t k x) \<and> lines_of (set_line t k x) = (lines_of t)[k := x]"
proof -
  assume t: "doc_ok t"
  then have "\<not> is_leaf (set_line t k x)" by (cases t) (simp_all add: doc_ok_def is_leaf_def)
  then show ?thesis using set_line_lines(1) [of t k x] t by (simp add: doc_ok_def)
qed

section \<open>Changes\<close>

text \<open>
  \<open>Fo\<close> over a store of lines with its operations: read, overwrite, insert, remove. \<open>whole\<close> is
  the option \<open>wholeLineUpdateBefore\<close>, \<open>ts\<close> the lines of the new text. A change of everything
  (\<open>full\<close>) is \<open>change_all\<close>.
\<close>

definition change_lines ::
  "('t \<Rightarrow> nat \<Rightarrow> string option) \<Rightarrow> ('t \<Rightarrow> nat \<Rightarrow> string \<Rightarrow> 't) \<Rightarrow> ('t \<Rightarrow> nat \<Rightarrow> string list \<Rightarrow> 't) \<Rightarrow> ('t \<Rightarrow> nat \<Rightarrow> nat \<Rightarrow> 't)
    \<Rightarrow> bool \<Rightarrow> nat \<times> nat \<Rightarrow> nat \<times> nat \<Rightarrow> string list \<Rightarrow> 't \<Rightarrow> 't option" where
  "change_lines get upd ins del whole p q ts t =
     (let l1 = fst p; c1 = snd p; l2 = fst q; c2 = snd q; n = l2 - l1; e = last ts in
      case (get t l1, get t l2) of
        (Some A, Some B) \<Rightarrow> Some
          (if whole \<and> c1 = 0 \<and> c2 = 0 \<and> e = [] then
             (let t1 = (if 0 < n then del t l1 n else t) in if butlast ts \<noteq> [] then ins t1 l1 (butlast ts) else t1)
           else if l1 = l2 then
             (if length ts = 1 then upd t l1 (take c1 A @ e @ drop c2 A)
              else ins (upd t l1 (take c1 A @ hd ts)) (l1 + 1) (butlast (tl ts) @ [e @ drop c2 A]))
           else if length ts = 1 then del (upd t l1 (take c1 A @ hd ts @ drop c2 B)) (l1 + 1) n
           else (let t1 = upd (upd t l1 (take c1 A @ hd ts)) l2 (e @ drop c2 B);
                     t2 = (if 1 < n then del t1 (l1 + 1) (n - 1) else t1)
                 in ins t2 (l1 + 1) (butlast (tl ts))))
      | _ \<Rightarrow> None)"

definition change_all :: "('t \<Rightarrow> nat \<Rightarrow> string list \<Rightarrow> 't) \<Rightarrow> ('t \<Rightarrow> nat \<Rightarrow> nat \<Rightarrow> 't) \<Rightarrow> ('t \<Rightarrow> nat) \<Rightarrow> string list \<Rightarrow> 't \<Rightarrow> 't" where
  "change_all ins del amount ts t = (let t1 = ins t 0 ts in del t1 (length ts) (amount t1 - length ts))"

text \<open>What the change does to the list of lines.\<close>

definition replaced :: "string list \<Rightarrow> nat \<times> nat \<Rightarrow> nat \<times> nat \<Rightarrow> string list \<Rightarrow> string list" where
  "replaced ts p q d =
     take (fst p) d @ insert_lines ts (take (snd p) (d ! fst p)) (drop (snd q) (d ! fst q)) @ drop (Suc (fst q)) d"

lemma insert_lines_many: "1 < length ts \<Longrightarrow> insert_lines ts a b = (a @ hd ts) # butlast (tl ts) @ [last ts @ b]"
  by (cases ts; cases "tl ts") (auto simp: insert_lines_def)

lemma insert_lines_one: "length ts = 1 \<Longrightarrow> insert_lines ts a b = [a @ hd ts @ b]"
  by (cases ts) (auto simp: insert_lines_def)

lemma insert_lines_whole: "\<lbrakk>ts \<noteq> []; last ts = []\<rbrakk> \<Longrightarrow> insert_lines ts [] b = butlast ts @ [b]"
  by (cases ts; cases "tl ts") (auto simp: insert_lines_def)

lemma update_between:
  assumes "l1 < l2" and "l2 < length d"
  shows "d[l1 := a, l2 := b] = take l1 d @ a # drop (Suc l1) (take l2 d) @ b # drop (Suc l2) d"
proof -
  have "l2 - l1 = Suc (l2 - Suc l1)" "Suc l2 - l1 = Suc (Suc l2 - Suc l1)" using assms(1) by simp_all
  then show ?thesis using assms by (simp add: upd_conv_take_nth_drop drop_take min_absorb1)
qed

locale line_store =
  fixes content :: "'t \<Rightarrow> string list" and valid :: "'t \<Rightarrow> bool"
    and get :: "'t \<Rightarrow> nat \<Rightarrow> string option" and upd :: "'t \<Rightarrow> nat \<Rightarrow> string \<Rightarrow> 't"
    and ins :: "'t \<Rightarrow> nat \<Rightarrow> string list \<Rightarrow> 't" and del :: "'t \<Rightarrow> nat \<Rightarrow> nat \<Rightarrow> 't"
  assumes get_content: "\<lbrakk>valid t; k < length (content t)\<rbrakk> \<Longrightarrow> get t k = Some (content t ! k)"
    and upd_content: "valid t \<Longrightarrow> valid (upd t k x) \<and> content (upd t k x) = (content t)[k := x]"
    and ins_content: "\<lbrakk>valid t; k \<le> length (content t)\<rbrakk> \<Longrightarrow>
      valid (ins t k xs) \<and> content (ins t k xs) = take k (content t) @ xs @ drop k (content t)"
    and del_content: "\<lbrakk>valid t; k + n \<le> length (content t)\<rbrakk> \<Longrightarrow>
      valid (del t k n) \<and> content (del t k n) = take k (content t) @ drop (k + n) (content t)"
begin

lemma change_whole:
  assumes "valid t" and "l1 \<le> l2" and "l2 < length (content t)" and "ts \<noteq> []" and "last ts = []"
  shows "\<exists>u. change_lines get upd ins del True (l1, 0) (l2, 0) ts t = Some u \<and> valid u
    \<and> content u = replaced ts (l1, 0) (l2, 0) (content t)"
proof -
  let ?d = "content t"
  define t1 where "t1 = (if 0 < l2 - l1 then del t l1 (l2 - l1) else t)"
  define t2 where "t2 = (if butlast ts \<noteq> [] then ins t1 l1 (butlast ts) else t1)"
  have 1: "valid t1 \<and> content t1 = take l1 ?d @ drop l2 ?d"
    using del_content [of t l1 "l2 - l1"] assms by (auto simp: t1_def)
  then have "valid t2 \<and> content t2 = take l1 ?d @ butlast ts @ drop l2 ?d"
    using ins_content [of t1 l1 "butlast ts"] assms by (auto simp: t2_def)
  moreover have "drop l2 ?d = ?d ! l2 # drop (Suc l2) ?d" using assms(3) by (simp add: Cons_nth_drop_Suc)
  moreover have "change_lines get upd ins del True (l1, 0) (l2, 0) ts t = Some t2"
    using get_content [OF assms(1), of l1] get_content [OF assms(1), of l2] assms by (simp add: change_lines_def t1_def t2_def Let_def)
  ultimately show ?thesis using assms(4,5) by (simp add: replaced_def insert_lines_whole)
qed

lemma change_content:
  assumes "valid t" and "fst p \<le> fst q" and "fst q < length (content t)" and "ts \<noteq> []"
  shows "\<exists>u. change_lines get upd ins del whole p q ts t = Some u \<and> valid u \<and> content u = replaced ts p q (content t)"
proof -
  obtain l1 c1 l2 c2 where pq: "p = (l1, c1)" "q = (l2, c2)" by (metis surj_pair)
  let ?d = "content t" and ?A = "content t ! l1" and ?B = "content t ! l2"
  have l: "l1 \<le> l2" "l1 < length ?d" "l2 < length ?d" using assms(2,3) pq by simp_all
  have AB: "get t l1 = Some ?A" "get t l2 = Some ?B" using get_content assms(1) l by simp_all
  consider "whole \<and> c1 = 0 \<and> c2 = 0 \<and> last ts = []"
    | "\<not> (whole \<and> c1 = 0 \<and> c2 = 0 \<and> last ts = [])" "l1 = l2" "length ts = 1"
    | "\<not> (whole \<and> c1 = 0 \<and> c2 = 0 \<and> last ts = [])" "l1 = l2" "1 < length ts"
    | "\<not> (whole \<and> c1 = 0 \<and> c2 = 0 \<and> last ts = [])" "l1 < l2" "length ts = 1"
    | "\<not> (whole \<and> c1 = 0 \<and> c2 = 0 \<and> last ts = [])" "l1 < l2" "1 < length ts"
    using assms(4) l(1) by (metis length_0_conv less_one linorder_less_linear le_neq_implies_less)
  then show ?thesis
  proof cases
    case 1
    then show ?thesis using change_whole [OF assms(1) l(1,3) assms(4)] by (simp add: pq)
  next
    case 2
    have "last ts = hd ts" using 2(3) by (cases ts) auto
    then have "change_lines get upd ins del whole p q ts t = Some (upd t l1 (take c1 ?A @ hd ts @ drop c2 ?A))"
      using 2 AB unfolding change_lines_def pq fst_conv snd_conv Let_def if_not_P [OF 2(1)] by simp
    then show ?thesis using upd_content [OF assms(1)] 2 l by (simp add: pq replaced_def insert_lines_one upd_conv_take_nth_drop)
  next
    case 3
    let ?u = "upd t l1 (take c1 ?A @ hd ts)"
    have u: "valid ?u" "content ?u = ?d[l1 := take c1 ?A @ hd ts]" using upd_content [OF assms(1)] by simp_all
    have "change_lines get upd ins del whole p q ts t = Some (ins ?u (l1 + 1) (butlast (tl ts) @ [last ts @ drop c2 ?A]))"
      using 3 AB unfolding change_lines_def pq fst_conv snd_conv Let_def if_not_P [OF 3(1)] by simp
    then show ?thesis using ins_content [OF u(1), of "l1 + 1"] u(2) 3 l
      by (simp add: pq replaced_def insert_lines_many upd_conv_take_nth_drop)
  next
    case 4
    let ?u = "upd t l1 (take c1 ?A @ hd ts @ drop c2 ?B)"
    have u: "valid ?u" "content ?u = ?d[l1 := take c1 ?A @ hd ts @ drop c2 ?B]" using upd_content [OF assms(1)] by simp_all
    have n: "Suc l2 - l1 = Suc (Suc l2 - Suc l1)" using 4(2) by simp
    have "change_lines get upd ins del whole p q ts t = Some (del ?u (l1 + 1) (l2 - l1))"
      using 4 AB unfolding change_lines_def pq fst_conv snd_conv Let_def if_not_P [OF 4(1)] by simp
    then show ?thesis using del_content [OF u(1), of "l1 + 1" "l2 - l1"] u(2) 4 l n
      by (simp add: pq replaced_def insert_lines_one upd_conv_take_nth_drop)
  next
    case 5
    let ?a = "take c1 ?A @ hd ts" and ?b = "last ts @ drop c2 ?B"
    define t1 where "t1 = upd (upd t l1 ?a) l2 ?b"
    have 1: "valid t1" "content t1 = ?d[l1 := ?a, l2 := ?b]" using upd_content assms(1) by (simp_all add: t1_def)
    then have c1: "content t1 = take l1 ?d @ ?a # drop (Suc l1) (take l2 ?d) @ ?b # drop (Suc l2) ?d"
      using update_between [OF 5(2) l(3)] by simp
    define t2 where "t2 = (if 1 < l2 - l1 then del t1 (l1 + 1) (l2 - l1 - 1) else t1)"
    have "valid t2 \<and> content t2 = take (Suc l1) (content t1) @ drop l2 (content t1)"
    proof (cases "1 < l2 - l1")
      case True
      then show ?thesis using del_content [OF 1(1), of "l1 + 1" "l2 - l1 - 1"] l 1(2) by (simp add: t2_def)
    next
      case False
      then have "l2 = Suc l1" using 5(2) by simp
      moreover have "t2 = t1" using False by (simp only: t2_def if_False)
      ultimately show ?thesis using 1(1) append_take_drop_id [of "Suc l1" "content t1"] by metis
    qed
    moreover have "take (Suc l1) (content t1) = take l1 ?d @ [?a]" using c1 l by simp
    moreover have "drop l2 (content t1) = ?b # drop (Suc l2) ?d"
    proof -
      have len: "length (take l1 ?d @ ?a # drop (Suc l1) (take l2 ?d)) = l2" using 5(2) l by simp
      have "content t1 = (take l1 ?d @ ?a # drop (Suc l1) (take l2 ?d)) @ ?b # drop (Suc l2) ?d" using c1 by simp
      then show ?thesis using len by (metis append_eq_conv_conj)
    qed
    ultimately have 2: "valid t2" "content t2 = (take l1 ?d @ [?a]) @ ?b # drop (Suc l2) ?d" by simp_all
    have "Suc l1 \<le> length (content t2)" "length (take l1 ?d @ [?a]) = Suc l1" using 2(2) l by simp_all
    then have "valid (ins t2 (l1 + 1) (butlast (tl ts))) \<and>
        content (ins t2 (l1 + 1) (butlast (tl ts))) = (take l1 ?d @ [?a]) @ butlast (tl ts) @ ?b # drop (Suc l2) ?d"
      using ins_content [OF 2(1), of "l1 + 1" "butlast (tl ts)"] 2(2) by simp
    moreover have "change_lines get upd ins del whole p q ts t = Some (ins t2 (l1 + 1) (butlast (tl ts)))"
      using 5 AB unfolding change_lines_def pq fst_conv snd_conv Let_def if_not_P [OF 5(1)] by (simp add: t1_def t2_def)
    ultimately show ?thesis using 5 by (simp add: pq replaced_def insert_lines_many)
  qed
qed

lemma change_all_content:
  assumes "valid t" and "\<And>u. valid u \<Longrightarrow> amount u = length (content u)"
  shows "valid (change_all ins del amount ts t) \<and> content (change_all ins del amount ts t) = ts"
proof -
  have 1: "valid (ins t 0 ts) \<and> content (ins t 0 ts) = ts @ content t" using ins_content [OF assms(1), of 0 ts] by simp
  then show ?thesis using del_content [of "ins t 0 ts" "length ts" "length (content t)"] assms(2) [of "ins t 0 ts"]
    by (simp add: change_all_def Let_def)
qed

end

interpretation tree_store: line_store lines_of doc_ok get_line set_line insert_root remove_inner
proof unfold_locales
  show "\<lbrakk>doc_ok t; k < length (lines_of t)\<rbrakk> \<Longrightarrow> get_line t k = Some (lines_of t ! k)" for t :: "string line_tree" and k
    by (simp add: doc_ok_def get_line_lines(1))
qed (simp_all add: set_line_ok insert_root_ok remove_root_ok)

text \<open>
  \<open>je\<close>, \<open>ln\<close> and \<open>replaceRange\<close> on the tree: positions are moved into the document and put in order,
  and the text is split into the lines of the change. \<open>ae\<close> is the check for a line's number.
\<close>

definition clip_in_tree :: "string line_tree \<Rightarrow> md_pos \<Rightarrow> nat \<times> nat" where
  "clip_in_tree t p =
     (if fst p < 0 then (0, 0)
      else let n = chunk_size t - 1 in
        if int n < fst p then (n, length (or_empty (get_line t n)))
        else (nat (fst p), min (snd p) (length (or_empty (get_line t (nat (fst p)))))))"

definition pos_less :: "nat \<times> nat \<Rightarrow> nat \<times> nat \<Rightarrow> bool" where
  "pos_less p q \<longleftrightarrow> fst p < fst q \<or> fst p = fst q \<and> snd p < snd q"

definition replace_in_tree :: "bool \<Rightarrow> string \<Rightarrow> md_pos \<Rightarrow> md_pos \<Rightarrow> string line_tree \<Rightarrow> string line_tree option" where
  "replace_in_tree whole s p q t =
     (let a = clip_in_tree t p; b = clip_in_tree t q; (a, b) = (if pos_less b a then (b, a) else (a, b))
      in change_lines get_line set_line insert_root remove_inner whole a b (split_breaks s) t)"

lemma clip_in_tree_eq:
  assumes "doc_ok t" and "lines_of t \<noteq> []"
  shows "clip_in_tree t p = clip_pos (lines_of t) p"
proof -
  have n: "chunk_size t = length (lines_of t)" using assms(1) by (simp add: doc_ok_def chunk_size_lines)
  have g: "k < length (lines_of t) \<Longrightarrow> get_line t k = Some (lines_of t ! k)" for k
    using tree_store.get_content [OF assms(1)] .
  have l: "get_line t (length (lines_of t) - 1) = Some (last (lines_of t))" using g assms(2) by (simp add: last_conv_nth)
  consider "fst p < 0" | "0 \<le> fst p" "int (length (lines_of t)) \<le> fst p" | "0 \<le> fst p" "fst p < int (length (lines_of t))" by linarith
  then show ?thesis
  proof cases
    case 2
    then have "int (length (lines_of t) - 1) < fst p" using assms(2) by (cases "lines_of t") auto
    then show ?thesis using 2 l by (simp add: clip_in_tree_def clip_pos_def n or_empty_def Let_def)
  next
    case 3
    then have "nat (fst p) < length (lines_of t)" "\<not> int (length (lines_of t) - 1) < fst p" by linarith+
    then show ?thesis using 3 g [of "nat (fst p)"] by (simp add: clip_in_tree_def clip_pos_def n or_empty_def Let_def)
  qed (simp add: clip_in_tree_def clip_pos_def)
qed

lemma clip_pos_line: "d \<noteq> [] \<Longrightarrow> fst (clip_pos d p) < length d"
  by (cases d) (auto simp: clip_pos_def)

text \<open>
  C28. An edit of the document tree is the replacement of that range in its list of lines, for
  every shape of the edit (within a line, over lines, of whole lines): the tree stays in order, its
  counts right, its branches and leaves within their bounds.
\<close>
theorem document_edit_refines_lines:
  assumes "doc_ok t" and "lines_of t \<noteq> []" and "\<not> pos_less (clip_pos (lines_of t) q) (clip_pos (lines_of t) p)"
  shows "case replace_in_tree whole s p q t of None \<Rightarrow> False
    | Some u \<Rightarrow> doc_ok u \<and> lines_of u = replace_range s p q (lines_of t)"
proof -
  let ?a = "clip_pos (lines_of t) p" and ?b = "clip_pos (lines_of t) q"
  have "fst ?a \<le> fst ?b" using assms(3) by (auto simp: pos_less_def)
  from tree_store.change_content [OF assms(1) this clip_pos_line [OF assms(2)] split_breaks_not_Nil [of s], of whole]
  obtain u where u: "change_lines get_line set_line insert_root remove_inner whole ?a ?b (split_breaks s) t = Some u"
    "doc_ok u" "lines_of u = replaced (split_breaks s) ?a ?b (lines_of t)" by blast
  have "replace_in_tree whole s p q t = Some u"
    using u(1) assms(3) by (simp add: replace_in_tree_def clip_in_tree_eq [OF assms(1,2)])
  moreover have "replace_range s p q (lines_of t) = replaced (split_breaks s) ?a ?b (lines_of t)"
    by (simp add: replace_range_def replaced_def split: prod.split)
  ultimately show ?thesis using u by simp
qed

definition sixty_lines :: "string line_tree" where
  "sixty_lines = insert_root (Branch 1 [Leaf [''first'']]) 1 (map (\<lambda>i. replicate (i mod 3) CHR ''x'') [0..<60])"

theorem document_edit_refines_lines_witness:
  "doc_ok sixty_lines \<and> map chunk_size (case sixty_lines of Branch _ cs \<Rightarrow> cs | Leaf _ \<Rightarrow> []) = [36, 25]
   \<and> (case replace_in_tree True (''A'' @ [nl] @ ''B'') (0, 2) (40, 1) sixty_lines of None \<Rightarrow> False
      | Some u \<Rightarrow> doc_ok u \<and> take 3 (lines_of u) = [''fiA'', ''B'', ''x'']
          \<and> (case u of Branch s cs \<Rightarrow> s = 22 \<and> map chunk_size cs = [22] | Leaf _ \<Rightarrow> False))"
proof -
  have ok: "doc_ok sixty_lines" "lines_of sixty_lines \<noteq> []"
    "\<not> pos_less (clip_pos (lines_of sixty_lines) (40, 1)) (clip_pos (lines_of sixty_lines) (0, 2))" by code_simp+
  obtain u where u: "replace_in_tree True (''A'' @ [nl] @ ''B'') (0, 2) (40, 1) sixty_lines = Some u" "doc_ok u"
    using document_edit_refines_lines [OF ok, where whole = True and s = "''A'' @ [nl] @ ''B''"] by (auto split: option.splits)
  have "case replace_in_tree True (''A'' @ [nl] @ ''B'') (0, 2) (40, 1) sixty_lines of None \<Rightarrow> False
      | Some u \<Rightarrow> take 3 (lines_of u) = [''fiA'', ''B'', ''x'']
          \<and> (case u of Branch s cs \<Rightarrow> s = 22 \<and> map chunk_size cs = [22] | Leaf _ \<Rightarrow> False)" by code_simp
  moreover have "map chunk_size (case sixty_lines of Branch _ cs \<Rightarrow> cs | Leaf _ \<Rightarrow> []) = [36, 25]" by code_simp
  ultimately show ?thesis using ok(1) u by simp
qed

end
