(* ===== verification/Select_Field.thy ===== *)
theory Select_Field
  imports Script_Text
begin

text \<open>
  The select field (\<open>public/js/filament/forms/components/select.js\<close>, class \<open>Ee\<close>; the class is
  carried again by \<open>tables/components/columns/select.js\<close>): its options and what is shown of them, the
  selection, the search with its timer and requests, and the keyboard. Values are strings, as the
  server writes them. Requests in flight are a list; their answers are events. Labels of the selected
  values are the theory Select_Labels; the place of the panel on the page is left out.
\<close>

section \<open>State\<close>

record sel_option =
  so_value :: string
  so_label :: string
  so_disabled :: bool

datatype sel_entry = SelOption sel_option | SelGroup string "sel_option list"

datatype sel_state = NoValue | OneValue string | Values "string list"

record select_config =
  sc_multiple :: bool
  sc_searchable :: bool
  sc_dynamic :: bool
  sc_loader :: bool
  sc_search :: bool
  sc_initial_message :: bool
  sc_by_label :: bool
  sc_by_value :: bool
  sc_max :: nat
  sc_limit :: nat

datatype sel_message = Loading | Searching | NoOptions | NoResults

record select_field =
  sf_state :: sel_state
  sf_options :: "sel_entry list"
  sf_original :: "sel_entry list"
  sf_open :: bool
  sf_disabled :: bool
  sf_index :: int
  sf_input :: string
  sf_query :: string
  sf_timer :: "string option"
  sf_active :: nat
  sf_pending :: "(nat \<times> string) list"
  sf_searching :: bool
  sf_message :: "sel_message option"
  sf_shown :: "sel_entry list"
  sf_listed :: bool
  sf_loads :: nat
  sf_changes :: "sel_state list"
  sf_alerts :: nat

definition values_of :: "sel_state \<Rightarrow> string list" where
  "values_of st = (case st of Values vs \<Rightarrow> vs | _ \<Rightarrow> [])"

lemma values_of_simps [simp]: "values_of NoValue = []" "values_of (OneValue v) = []" "values_of (Values vs) = vs"
  by (simp_all add: values_of_def)

section \<open>What is shown\<close>

text \<open>\<open>renderOptions\<close>: the entries from \<open>r\<close> options on; a limit of 0 is none.\<close>

fun render_entries :: "select_config \<Rightarrow> sel_state \<Rightarrow> nat \<Rightarrow> sel_entry list \<Rightarrow> sel_entry list" where
  "render_entries c st r [] = []"
| "render_entries c st r (a # es) =
     (if 0 < sc_limit c \<and> sc_limit c \<le> r then []
      else case a of
        SelGroup g os \<Rightarrow>
          (let l = (if sc_multiple c then filter (\<lambda>x. so_value x \<notin> set (values_of st)) os else os)
           in if l = [] then render_entries c st r es
              else (let l1 = (if 0 < sc_limit c then take (sc_limit c - r) l else l)
                    in SelGroup g l1 # render_entries c st (r + length l1) es))
      | SelOption x \<Rightarrow>
          if sc_multiple c \<and> so_value x \<in> set (values_of st) then render_entries c st r es
          else SelOption x # render_entries c st (r + 1) es)"

text \<open>\<open>getVisibleOptions\<close>: the options outside groups come first, wherever they are shown.\<close>

definition entry_options :: "sel_entry \<Rightarrow> sel_option list" where
  "entry_options a = (case a of SelOption x \<Rightarrow> [x] | SelGroup _ os \<Rightarrow> os)"

definition is_single :: "sel_entry \<Rightarrow> bool" where
  "is_single a = (case a of SelOption _ \<Rightarrow> True | _ \<Rightarrow> False)"

definition all_options :: "sel_entry list \<Rightarrow> sel_option list" where
  "all_options es = concat (map entry_options es)"

definition visible_options :: "select_field \<Rightarrow> sel_option list" where
  "visible_options s = all_options (filter is_single (sf_shown s)) @ all_options (filter (\<lambda>a. \<not> is_single a) (sf_shown s))"

definition close_dropdown :: "select_field \<Rightarrow> select_field" where
  "close_dropdown s =
     s\<lparr>sf_open := False, sf_timer := None, sf_active := sf_active s + 1, sf_searching := False, sf_message := None\<rparr>"

definition show_message :: "sel_message \<Rightarrow> select_field \<Rightarrow> select_field" where
  "show_message m s = s\<lparr>sf_listed := False, sf_message := Some m\<rparr>"

definition render_options :: "select_config \<Rightarrow> select_field \<Rightarrow> select_field" where
  "render_options c s =
     (let es = render_entries c (sf_state s) 0 (sf_options s); s1 = s\<lparr>sf_shown := es\<rparr> in
      if all_options es = [] then
        (if sf_query s \<noteq> [] then show_message NoResults s1
         else if sc_initial_message c \<or> sc_dynamic c then show_message NoOptions s1
         else if sc_multiple c \<and> sf_open s \<and> \<not> sc_searchable c then (close_dropdown s1)\<lparr>sf_listed := False\<rparr>
         else s1\<lparr>sf_listed := False\<rparr>)
      else s1\<lparr>sf_message := None, sf_listed := True\<rparr>)"

section \<open>Searching\<close>

definition option_matches :: "select_config \<Rightarrow> string \<Rightarrow> sel_option \<Rightarrow> bool" where
  "option_matches c q x \<longleftrightarrow>
     sc_by_label c \<and> str_contains (js_lower (so_label x)) q \<or> sc_by_value c \<and> str_contains (js_lower (so_value x)) q"

fun filter_entries :: "select_config \<Rightarrow> string \<Rightarrow> sel_entry list \<Rightarrow> sel_entry list" where
  "filter_entries c q [] = []"
| "filter_entries c q (SelOption x # es) =
     (if option_matches c q x then SelOption x # filter_entries c q es else filter_entries c q es)"
| "filter_entries c q (SelGroup g os # es) =
     (let r = filter (option_matches c q) os
      in if r = [] then filter_entries c q es else SelGroup g r # filter_entries c q es)"

definition filter_options :: "select_config \<Rightarrow> string \<Rightarrow> select_field \<Rightarrow> select_field" where
  "filter_options c q s =
     (let s1 = render_options c (s\<lparr>sf_options := filter_entries c (js_lower q) (sf_original s)\<rparr>)
      in if sf_options s1 = [] then show_message NoResults s1 else s1)"

text \<open>\<open>handleSearch\<close>, with the new text of the search box.\<close>

definition handle_search :: "select_config \<Rightarrow> string \<Rightarrow> select_field \<Rightarrow> select_field" where
  "handle_search c v s =
     (let e = js_trim v; s1 = s\<lparr>sf_input := v, sf_query := e, sf_timer := None\<rparr> in
      if e = [] then render_options c (s1\<lparr>sf_options := sf_original s\<rparr>)
      else if \<not> sc_search c then filter_options c e s1
      else s1\<lparr>sf_timer := Some e\<rparr>)"

text \<open>The timer's function up to its request, and the rest of it with an answer or a failure.\<close>

definition timer_fires :: "select_field \<Rightarrow> select_field" where
  "timer_fires s =
     (case sf_timer s of
        None \<Rightarrow> s
      | Some q \<Rightarrow>
          (let n = sf_active s + 1
           in show_message Searching (s\<lparr>sf_timer := None, sf_active := n, sf_searching := True, sf_pending := sf_pending s @ [(n, q)]\<rparr>)))"

definition not_pending :: "nat \<Rightarrow> select_field \<Rightarrow> select_field" where
  "not_pending n s = s\<lparr>sf_pending := filter (\<lambda>(i, q). i \<noteq> n) (sf_pending s)\<rparr>"

definition search_over :: "nat \<Rightarrow> select_field \<Rightarrow> select_field" where
  "search_over n s = (if n = sf_active s then s\<lparr>sf_searching := False\<rparr> else s)"

definition search_answered :: "select_config \<Rightarrow> nat \<Rightarrow> sel_entry list \<Rightarrow> select_field \<Rightarrow> select_field" where
  "search_answered c n es s =
     search_over n
      (if n \<noteq> sf_active s \<or> \<not> sf_open s then s
       else (let s1 = render_options c (s\<lparr>sf_options := es, sf_message := None\<rparr>)
             in if sf_options s1 = [] then show_message NoResults s1 else s1))"

definition search_failed :: "select_config \<Rightarrow> nat \<Rightarrow> select_field \<Rightarrow> select_field" where
  "search_failed c n s =
     search_over n
      (if n = sf_active s then render_options c (s\<lparr>sf_message := None, sf_options := sf_original s\<rparr>) else s)"

section \<open>Opening\<close>

text \<open>The index of the option that gets the focus; the search box gets it when there is one.\<close>

definition start_index :: "select_config \<Rightarrow> select_field \<Rightarrow> int" where
  "start_index c s =
     (let vs = visible_options s;
          p = (if sc_multiple c then (\<lambda>x. so_value x \<in> set (values_of (sf_state s)))
               else (\<lambda>x. sf_state s = OneValue (so_value x)))
      in case find_index p vs of Some i \<Rightarrow> int i | None \<Rightarrow> if vs = [] then -1 else 0)"

definition focus_start :: "select_config \<Rightarrow> select_field \<Rightarrow> select_field" where
  "focus_start c s = (if sc_searchable c then s else s\<lparr>sf_index := start_index c s\<rparr>)"

text \<open>\<open>openDropdown\<close>, up to the request for options when they are dynamic, and with its answer.\<close>

definition open_dropdown :: "select_config \<Rightarrow> select_field \<Rightarrow> select_field" where
  "open_dropdown c s =
     (let s1 = s\<lparr>sf_open := True\<rparr>;
          s2 = (if sc_searchable c then
                  (let t = s1\<lparr>sf_input := [], sf_query := []\<rparr>
                   in if sc_dynamic c then t else render_options c (t\<lparr>sf_options := sf_original s\<rparr>))
                else s1)
      in if sc_dynamic c \<and> sc_loader c then (show_message Loading s2)\<lparr>sf_loads := sf_loads s2 + 1\<rparr>
         else focus_start c (if \<not> sc_initial_message c \<or> sf_query s2 \<noteq> [] then s2\<lparr>sf_message := None\<rparr> else s2))"

definition options_loaded :: "select_config \<Rightarrow> sel_entry list option \<Rightarrow> select_field \<Rightarrow> select_field" where
  "options_loaded c r s =
     (let s1 = s\<lparr>sf_loads := sf_loads s - 1\<rparr> in
      focus_start c (case r of
        None \<Rightarrow> s1\<lparr>sf_message := None\<rparr>
      | Some es \<Rightarrow>
          (let s2 = s1\<lparr>sf_options := es, sf_original := es\<rparr> in
           if sc_searchable c \<and> (js_trim (sf_input s) \<noteq> [] \<or> js_trim (sf_query s) \<noteq> []) then
             filter_options c (js_trim (if sf_input s \<noteq> [] then sf_input s else sf_query s)) (s2\<lparr>sf_message := None\<rparr>)
           else render_options c s2)))"

definition has_available_options :: "select_field \<Rightarrow> bool" where
  "has_available_options s \<longleftrightarrow> (\<exists>x \<in> set (all_options (sf_options s)). so_value x \<notin> set (values_of (sf_state s)))"

definition toggle_dropdown :: "select_config \<Rightarrow> select_field \<Rightarrow> select_field" where
  "toggle_dropdown c s =
     (if sf_disabled s then s
      else if sf_open s then close_dropdown s
      else if sc_multiple c \<and> \<not> sc_searchable c \<and> \<not> has_available_options s then s
      else open_dropdown c s)"

section \<open>Selecting\<close>

definition state_changed_to :: "sel_state \<Rightarrow> select_field \<Rightarrow> select_field" where
  "state_changed_to st s = s\<lparr>sf_changes := sf_changes s @ [st]\<rparr>"

text \<open>\<open>maintainFocusInMultipleMode\<close>.\<close>

definition maintain_focus :: "select_config \<Rightarrow> select_field \<Rightarrow> select_field" where
  "maintain_focus c s = (if sc_searchable c \<or> visible_options s = [] then s else s\<lparr>sf_index := start_index c s\<rparr>)"

definition select_option :: "select_config \<Rightarrow> string \<Rightarrow> select_field \<Rightarrow> select_field" where
  "select_option c v s =
     (if sf_disabled s then s
      else if \<not> sc_multiple c then
        state_changed_to (OneValue v) (close_dropdown (render_options c (s\<lparr>sf_state := OneValue v\<rparr>)))
      else
        (let e = values_of (sf_state s);
             put = (\<lambda>vs. state_changed_to (Values vs) (maintain_focus c (render_options c (s\<lparr>sf_state := Values vs\<rparr>))))
         in if v \<in> set e then put (filter (\<lambda>r. r \<noteq> v) e)
            else if 0 < sc_max c \<and> sc_max c \<le> length e then s\<lparr>sf_alerts := sf_alerts s + 1\<rparr>
            else put (e @ [v])))"

text \<open>The badges are dragged into another order.\<close>

definition reorder_badges :: "string list \<Rightarrow> select_field \<Rightarrow> select_field" where
  "reorder_badges vs s = state_changed_to (Values vs) (s\<lparr>sf_state := Values vs\<rparr>)"

text \<open>The component's state changes from outside.\<close>

definition state_pushed :: "select_config \<Rightarrow> sel_state \<Rightarrow> select_field \<Rightarrow> select_field" where
  "state_pushed c st s = (if sf_state s \<noteq> st then render_options c (s\<lparr>sf_state := st\<rparr>) else s)"

definition disable_select :: "select_field \<Rightarrow> select_field" where
  "disable_select s =
     (if sf_disabled s then s
      else let s1 = s\<lparr>sf_disabled := True\<rparr> in if sf_open s then close_dropdown s1 else s1)"

definition enable_select :: "select_field \<Rightarrow> select_field" where
  "enable_select s = s\<lparr>sf_disabled := False\<rparr>"

section \<open>Keyboard\<close>

definition focus_next_option :: "select_config \<Rightarrow> select_field \<Rightarrow> select_field" where
  "focus_next_option c s =
     (let n = int (length (visible_options s)) in
      if n = 0 then s
      else if sf_index s = n - 1 \<and> sc_searchable c then s\<lparr>sf_index := -1\<rparr>
      else s\<lparr>sf_index := (sf_index s + 1) mod n\<rparr>)"

definition focus_previous_option :: "select_config \<Rightarrow> select_field \<Rightarrow> select_field" where
  "focus_previous_option c s =
     (let n = int (length (visible_options s)) in
      if n = 0 then s
      else if (sf_index s = 0 \<or> sf_index s = -1) \<and> sc_searchable c then s\<lparr>sf_index := -1\<rparr>
      else s\<lparr>sf_index := (sf_index s - 1 + n) mod n\<rparr>)"

text \<open>A click on the option with the focus; a disabled option has no listener.\<close>

definition click_option :: "select_config \<Rightarrow> sel_option \<Rightarrow> select_field \<Rightarrow> select_field" where
  "click_option c x s = (if so_disabled x then s else select_option c (so_value x) s)"

definition press_focused :: "select_config \<Rightarrow> select_field \<Rightarrow> select_field" where
  "press_focused c s =
     (if 0 \<le> sf_index s \<and> sf_index s < int (length (visible_options s))
      then click_option c (visible_options s ! nat (sf_index s)) s else s)"

text \<open>Enter in the search box takes the first option that is not disabled; arrows and Tab leave the box.\<close>

definition search_enter :: "select_config \<Rightarrow> select_field \<Rightarrow> select_field" where
  "search_enter c s =
     (if sf_searching s then s
      else case find (\<lambda>x. \<not> so_disabled x) (visible_options s) of None \<Rightarrow> s | Some x \<Rightarrow> select_option c (so_value x) s)"

definition search_arrow_down :: "select_config \<Rightarrow> select_field \<Rightarrow> select_field" where
  "search_arrow_down c s = (if visible_options s = [] then s else focus_next_option c (s\<lparr>sf_index := -1\<rparr>))"

definition search_arrow_up :: "select_field \<Rightarrow> select_field" where
  "search_arrow_up s = (if visible_options s = [] then s else s\<lparr>sf_index := int (length (visible_options s)) - 1\<rparr>)"

definition search_tab :: "bool \<Rightarrow> select_field \<Rightarrow> select_field" where
  "search_tab shift s =
     (if visible_options s = [] then s
      else s\<lparr>sf_index := if shift then int (length (visible_options s)) - 1 else 0\<rparr>)"

section \<open>Runs\<close>

text \<open>
  What can happen to the field. Answers come to requests in flight, the timer fires when it is set,
  text is typed while the panel is open, and the badges can only be put into another order.
\<close>

datatype sel_event = EToggle | EOutside | EType string | ETimer | EAnswer nat "sel_entry list" | EFail nat
  | ELoaded "sel_entry list option" | ESelect string | EReorder "string list" | EPush sel_state | EDisable | EEnable
  | ENext | EPrevious | EPress | ESearchEnter | ESearchDown | ESearchUp | ESearchTab bool

definition sel_step :: "select_config \<Rightarrow> sel_event \<Rightarrow> select_field \<Rightarrow> select_field" where
  "sel_step c e s =
     (case e of
        EToggle \<Rightarrow> toggle_dropdown c s
      | EOutside \<Rightarrow> if sf_open s then close_dropdown s else s
      | EType v \<Rightarrow> if sc_searchable c \<and> sf_open s \<and> \<not> sf_disabled s then handle_search c v s else s
      | ETimer \<Rightarrow> timer_fires s
      | EAnswer n es \<Rightarrow> if n \<in> fst ` set (sf_pending s) then search_answered c n es (not_pending n s) else s
      | EFail n \<Rightarrow> if n \<in> fst ` set (sf_pending s) then search_failed c n (not_pending n s) else s
      | ELoaded r \<Rightarrow> if 0 < sf_loads s then options_loaded c r s else s
      | ESelect v \<Rightarrow> select_option c v s
      | EReorder vs \<Rightarrow> if mset vs = mset (values_of (sf_state s)) then reorder_badges vs s else s
      | EPush st \<Rightarrow> state_pushed c st s
      | EDisable \<Rightarrow> disable_select s
      | EEnable \<Rightarrow> enable_select s
      | ENext \<Rightarrow> focus_next_option c s
      | EPrevious \<Rightarrow> focus_previous_option c s
      | EPress \<Rightarrow> press_focused c s
      | ESearchEnter \<Rightarrow> search_enter c s
      | ESearchDown \<Rightarrow> search_arrow_down c s
      | ESearchUp \<Rightarrow> search_arrow_up s
      | ESearchTab b \<Rightarrow> search_tab b s)"

definition sel_run :: "select_config \<Rightarrow> sel_event list \<Rightarrow> select_field \<Rightarrow> select_field" where
  "sel_run c es s = fold (sel_step c) es s"

section \<open>What is shown is what is left, up to the limit\<close>

definition left_over :: "select_config \<Rightarrow> sel_state \<Rightarrow> sel_option list \<Rightarrow> sel_option list" where
  "left_over c st xs = filter (\<lambda>x. \<not> (sc_multiple c \<and> so_value x \<in> set (values_of st))) xs"

lemma all_options_simps [simp]:
  "all_options [] = []" "all_options (SelOption x # es) = x # all_options es" "all_options (SelGroup g os # es) = os @ all_options es"
  by (simp_all add: all_options_def entry_options_def)

lemma left_over_simps [simp]:
  "left_over c st [] = []" "left_over c st (xs @ ys) = left_over c st xs @ left_over c st ys"
  "left_over c st (x # xs) = (if sc_multiple c \<and> so_value x \<in> set (values_of st) then left_over c st xs else x # left_over c st xs)"
  by (simp_all add: left_over_def)

lemma group_left_over:
  "(if sc_multiple c then filter (\<lambda>x. so_value x \<notin> set (values_of st)) os else os) = left_over c st os"
  by (simp add: left_over_def)

lemma render_unlimited: "sc_limit c = 0 \<Longrightarrow> all_options (render_entries c st r es) = left_over c st (all_options es)"
proof (induction es arbitrary: r)
  case (Cons a es)
  then show ?case by (cases a) (simp_all add: Let_def group_left_over)
qed simp

lemma render_limited:
  "0 < sc_limit c \<Longrightarrow> all_options (render_entries c st r es) = take (sc_limit c - r) (left_over c st (all_options es))"
proof (induction es arbitrary: r)
  case (Cons a es)
  show ?case
  proof (cases "sc_limit c \<le> r")
    case False
    then have n: "sc_limit c - r = Suc (sc_limit c - Suc r)" by simp
    show ?thesis
    proof (cases a)
      case (SelOption x)
      then show ?thesis using Cons False n by simp
    next
      case (SelGroup g os)
      then show ?thesis using Cons False by (simp add: Let_def group_left_over min_def)
    qed
  qed (use Cons.prems in simp)
qed simp

lemma filter_entries_options: "all_options (filter_entries c q es) = filter (option_matches c q) (all_options es)"
  by (induction c q es rule: filter_entries.induct) (simp_all add: Let_def)

section \<open>Answers of searches\<close>

text \<open>Requests in flight have numbers up to the last one that was given, which never goes down.\<close>

definition pending_ok :: "select_field \<Rightarrow> bool" where
  "pending_ok s \<longleftrightarrow> (\<forall>i \<in> fst ` set (sf_pending s). i \<le> sf_active s)"

lemma render_options_active [simp]:
  "sf_active s \<le> sf_active (render_options c s)" "sf_pending (render_options c s) = sf_pending s"
  by (simp_all add: render_options_def show_message_def close_dropdown_def Let_def)

definition keeps_requests :: "select_field \<Rightarrow> select_field \<Rightarrow> bool" where
  "keeps_requests s t \<longleftrightarrow> sf_active s \<le> sf_active t \<and> set (sf_pending t) \<subseteq> set (sf_pending s)"

lemma render_keeps:
  "keeps_requests s t \<Longrightarrow> keeps_requests s (render_options c t)"
  by (auto simp: keeps_requests_def intro: order_trans [OF _ render_options_active(1)])

lemma keeps_update:
  "keeps_requests s (t\<lparr>sf_index := i\<rparr>) = keeps_requests s t" "keeps_requests s (t\<lparr>sf_message := m\<rparr>) = keeps_requests s t"
  "keeps_requests s (t\<lparr>sf_listed := b\<rparr>) = keeps_requests s t" "keeps_requests s (t\<lparr>sf_searching := b\<rparr>) = keeps_requests s t"
  "keeps_requests s (t\<lparr>sf_changes := cs\<rparr>) = keeps_requests s t" "keeps_requests s (t\<lparr>sf_alerts := n\<rparr>) = keeps_requests s t"
  "keeps_requests s (t\<lparr>sf_state := st\<rparr>) = keeps_requests s t" "keeps_requests s (t\<lparr>sf_options := es\<rparr>) = keeps_requests s t"
  "keeps_requests s (t\<lparr>sf_original := es\<rparr>) = keeps_requests s t" "keeps_requests s (t\<lparr>sf_open := b\<rparr>) = keeps_requests s t"
  "keeps_requests s (t\<lparr>sf_input := v\<rparr>) = keeps_requests s t" "keeps_requests s (t\<lparr>sf_query := v\<rparr>) = keeps_requests s t"
  "keeps_requests s (t\<lparr>sf_timer := tm\<rparr>) = keeps_requests s t" "keeps_requests s (t\<lparr>sf_loads := n\<rparr>) = keeps_requests s t"
  "keeps_requests s (t\<lparr>sf_disabled := b\<rparr>) = keeps_requests s t"
  by (simp_all add: keeps_requests_def)

lemma keeps_refl: "keeps_requests s s"
  by (simp add: keeps_requests_def)

lemma keeps_close: "keeps_requests s t \<Longrightarrow> keeps_requests s (close_dropdown t)"
  by (simp add: keeps_requests_def close_dropdown_def)

lemma keeps_drop: "keeps_requests s (s\<lparr>sf_pending := filter p (sf_pending s)\<rparr>)"
  by (auto simp: keeps_requests_def)

lemmas keeps_rules = keeps_update keeps_refl keeps_close keeps_drop render_keeps

lemma keeps_select: "keeps_requests s t \<Longrightarrow> keeps_requests s (select_option c v t)"
  by (simp add: select_option_def state_changed_to_def maintain_focus_def Let_def keeps_rules)

lemma keeps_filter: "keeps_requests s t \<Longrightarrow> keeps_requests s (filter_options c q t)"
  by (simp add: filter_options_def show_message_def Let_def keeps_rules)

lemma keeps_open: "keeps_requests s t \<Longrightarrow> keeps_requests s (open_dropdown c t)"
  by (simp add: open_dropdown_def focus_start_def show_message_def Let_def keeps_rules)

lemma keeps_search: "keeps_requests s t \<Longrightarrow> keeps_requests s (handle_search c v t)"
  by (simp add: handle_search_def Let_def keeps_rules keeps_filter)

lemma keeps_loaded: "keeps_requests s t \<Longrightarrow> keeps_requests s (options_loaded c r t)"
  by (cases r) (simp_all add: options_loaded_def focus_start_def Let_def keeps_rules keeps_filter)

lemma keeps_answered: "keeps_requests s t \<Longrightarrow> keeps_requests s (search_answered c n es t)"
  by (simp add: search_answered_def search_over_def show_message_def Let_def keeps_rules)

lemma keeps_failed: "keeps_requests s t \<Longrightarrow> keeps_requests s (search_failed c n t)"
  by (simp add: search_failed_def search_over_def Let_def keeps_rules)

lemma keeps_step: "e \<noteq> ETimer \<Longrightarrow> keeps_requests s (sel_step c e s)"
  by (cases e)
    (simp_all add: sel_step_def toggle_dropdown_def not_pending_def reorder_badges_def state_changed_to_def state_pushed_def
      disable_select_def enable_select_def focus_next_option_def focus_previous_option_def press_focused_def click_option_def
      search_enter_def search_arrow_down_def search_arrow_up_def search_tab_def keeps_rules keeps_select keeps_open
      keeps_search keeps_loaded keeps_answered keeps_failed Let_def split: option.split)

lemma step_requests:
  "sf_active s \<le> sf_active (sel_step c e s)"
  "pending_ok s \<Longrightarrow> pending_ok (sel_step c e s)"
proof -
  have timer: "sf_active s \<le> sf_active (timer_fires s)" "pending_ok s \<Longrightarrow> pending_ok (timer_fires s)"
    by (auto simp: timer_fires_def show_message_def pending_ok_def Let_def split: option.split)
  have k: "keeps_requests s t \<Longrightarrow> pending_ok s \<Longrightarrow> pending_ok t" for t
    by (fastforce simp: keeps_requests_def pending_ok_def)
  show "sf_active s \<le> sf_active (sel_step c e s)"
    using keeps_step [of e s c] timer(1) by (cases "e = ETimer") (simp_all add: sel_step_def keeps_requests_def)
  show "pending_ok (sel_step c e s)" if "pending_ok s"
    using k [OF keeps_step that] timer(2) [OF that] by (cases "e = ETimer") (simp_all add: sel_step_def)
qed

lemma run_requests:
  "sf_active s \<le> sf_active (sel_run c es s)" "pending_ok s \<Longrightarrow> pending_ok (sel_run c es s)"
proof (induction es arbitrary: s)
  case (Cons e es)
  { case 1 show ?case using Cons.IH(1) [of "sel_step c e s"] step_requests(1) [of s c e] by (simp add: sel_run_def) }
  { case 2 then show ?case using Cons.IH(2) [of "sel_step c e s"] step_requests(2) by (simp add: sel_run_def) }
qed (simp_all add: sel_run_def)

text \<open>The field as it is made.\<close>

definition new_select :: "select_config \<Rightarrow> sel_entry list \<Rightarrow> sel_state \<Rightarrow> bool \<Rightarrow> select_field" where
  "new_select c es st disabled =
     render_options c \<lparr>sf_state = st, sf_options = es, sf_original = es, sf_open = False, sf_disabled = disabled, sf_index = -1,
       sf_input = [], sf_query = [], sf_timer = None, sf_active = 0, sf_pending = [], sf_searching = False, sf_message = None,
       sf_shown = [], sf_listed = False, sf_loads = 0, sf_changes = [], sf_alerts = 0\<rparr>"

lemma new_select_pending: "pending_ok (new_select c es st b)"
  by (simp add: new_select_def pending_ok_def)

text \<open>
  C31. Closing the panel ends every search: whatever happens afterwards (opening again, new
  searches), the answer or the failure of a search that was in flight when the panel was closed
  changes nothing.
\<close>
theorem closed_searches_ignored:
  assumes "s = sel_run c es (new_select c os st dis)" and "n \<in> fst ` set (sf_pending s)"
  shows "let t = sel_run c es2 (close_dropdown s) in search_answered c n rs t = t \<and> search_failed c n t = t"
proof -
  have "pending_ok s" using run_requests(2) [OF new_select_pending] assms(1) by simp
  then have "n < sf_active (close_dropdown s)" using assms(2) by (auto simp: pending_ok_def close_dropdown_def)
  then have "n < sf_active (sel_run c es2 (close_dropdown s))" using run_requests(1) [of "close_dropdown s" c es2] by simp
  then show ?thesis by (simp add: search_answered_def search_failed_def search_over_def Let_def)
qed

definition server_search :: select_config where
  "server_search = \<lparr>sc_multiple = False, sc_searchable = True, sc_dynamic = False, sc_loader = False, sc_search = True,
     sc_initial_message = False, sc_by_label = True, sc_by_value = False, sc_max = 0, sc_limit = 50\<rparr>"

definition plain_option :: "string \<Rightarrow> sel_option" where
  "plain_option v = \<lparr>so_value = v, so_label = ''Label '' @ v, so_disabled = False\<rparr>"

theorem closed_searches_ignored_witness:
  "let s = sel_run server_search [EToggle, EType ''x'', ETimer] (new_select server_search [SelOption (plain_option ''1'')] NoValue False);
       t = sel_run server_search [EToggle, EType ''y'', ETimer] (close_dropdown s)
   in sf_pending s = [(1, ''x'')] \<and> sf_pending t = [(1, ''x''), (3, ''y'')]
     \<and> search_answered server_search 1 [SelOption (plain_option ''9'')] t = t"
proof -
  let ?s = "sel_run server_search [EToggle, EType ''x'', ETimer] (new_select server_search [SelOption (plain_option ''1'')] NoValue False)"
  have p: "sf_pending ?s = [(1, ''x'')]"
    "sf_pending (sel_run server_search [EToggle, EType ''y'', ETimer] (close_dropdown ?s)) = [(1, ''x''), (3, ''y'')]"
    by code_simp+
  then have "1 \<in> fst ` set (sf_pending ?s)" by simp
  from closed_searches_ignored [OF refl this, of "[EToggle, EType ''y'', ETimer]" "[SelOption (plain_option ''9'')]"] p
  show ?thesis by (simp add: Let_def)
qed

text \<open>Emptying the search box ends no search: the answer to the old text replaces the options.\<close>

theorem emptied_search_overwritten:
  "let s = sel_run server_search [EToggle, EType ''x'', ETimer, EType [], EAnswer 1 [SelOption (plain_option ''9'')]]
         (new_select server_search [SelOption (plain_option ''1'')] NoValue False)
   in sf_input s = [] \<and> sf_query s = [] \<and> map so_value (visible_options s) = [''9'']"
  by code_simp

section \<open>The selection\<close>

text \<open>What an operation does to the selection and to what the component was told of it.\<close>

definition same_selection :: "select_field \<Rightarrow> select_field \<Rightarrow> bool" where
  "same_selection s t \<longleftrightarrow> sf_state t = sf_state s \<and> sf_changes t = sf_changes s"

lemma render_options_selection [simp]:
  "sf_state (render_options c s) = sf_state s" "sf_changes (render_options c s) = sf_changes s"
  by (simp_all add: render_options_def show_message_def close_dropdown_def Let_def)

lemma filter_options_selection [simp]:
  "sf_state (filter_options c q s) = sf_state s" "sf_changes (filter_options c q s) = sf_changes s"
  by (simp_all add: filter_options_def show_message_def Let_def)

lemma search_selection:
  "same_selection s (handle_search c v s)" "same_selection s (timer_fires s)"
  "same_selection s (search_answered c n es (not_pending n s))" "same_selection s (search_failed c n (not_pending n s))"
  by (simp_all add: same_selection_def handle_search_def timer_fires_def search_answered_def search_failed_def search_over_def
    not_pending_def show_message_def Let_def split: option.split)

lemma panel_selection:
  "same_selection s (toggle_dropdown c s)" "same_selection s (close_dropdown s)" "same_selection s (options_loaded c r s)"
  "same_selection s (disable_select s)" "same_selection s (enable_select s)" "same_selection s (focus_next_option c s)"
  "same_selection s (focus_previous_option c s)" "same_selection s (search_arrow_down c s)" "same_selection s (search_arrow_up s)"
  "same_selection s (search_tab b s)"
  by (simp_all add: same_selection_def toggle_dropdown_def open_dropdown_def close_dropdown_def options_loaded_def focus_start_def
    show_message_def disable_select_def enable_select_def focus_next_option_def focus_previous_option_def search_arrow_down_def
    search_arrow_up_def search_tab_def Let_def split: option.split)

text \<open>The values are different ones, within the limit, and the component knows them.\<close>

definition choice_ok :: "select_config \<Rightarrow> sel_state \<Rightarrow> select_field \<Rightarrow> bool" where
  "choice_ok c st s \<longleftrightarrow> distinct (values_of (sf_state s)) \<and> (0 < sc_max c \<longrightarrow> length (values_of (sf_state s)) \<le> sc_max c)
     \<and> last (st # sf_changes s) = sf_state s"

lemma choice_ok_same: "\<lbrakk>same_selection s t; choice_ok c st s\<rbrakk> \<Longrightarrow> choice_ok c st t"
  by (simp add: same_selection_def choice_ok_def)

lemma choice_ok_select: "choice_ok c st s \<Longrightarrow> choice_ok c st (select_option c v s)"
  by (auto simp: choice_ok_def select_option_def state_changed_to_def close_dropdown_def maintain_focus_def Let_def
    intro: le_trans [OF length_filter_le])

lemma choice_ok_step:
  assumes "choice_ok c st s" and "\<forall>st2. e \<noteq> EPush st2"
  shows "choice_ok c st (sel_step c e s)"
proof (cases e)
  case (EReorder vs)
  then show ?thesis using assms(1) mset_eq_length [of vs "values_of (sf_state s)"] mset_eq_imp_distinct_iff [of vs "values_of (sf_state s)"]
    by (auto simp: sel_step_def reorder_badges_def state_changed_to_def choice_ok_def)
qed (use assms choice_ok_select [OF assms(1)] choice_ok_same [OF _ assms(1)] search_selection panel_selection in
    \<open>simp_all add: sel_step_def press_focused_def click_option_def search_enter_def split: option.split\<close>)

text \<open>
  C32. As long as no state is pushed from outside, whatever is clicked, typed, dragged or answered:
  a field keeps its values different and within the maximum, and the state that the component was
  told last is the field's.
\<close>
theorem selection_kept_in_bounds:
  assumes "choice_ok c st s" and "\<forall>e \<in> set es. \<forall>st2. e \<noteq> EPush st2"
  shows "choice_ok c st (sel_run c es s)"
  using assms
proof (induction es arbitrary: s)
  case (Cons e es)
  then show ?case using choice_ok_step [of c st s e] by (simp add: sel_run_def)
qed (simp add: sel_run_def)

definition two_of_three :: select_config where
  "two_of_three = \<lparr>sc_multiple = True, sc_searchable = False, sc_dynamic = False, sc_loader = False, sc_search = False,
     sc_initial_message = False, sc_by_label = True, sc_by_value = False, sc_max = 2, sc_limit = 0\<rparr>"

theorem selection_kept_in_bounds_witness:
  "let s = sel_run two_of_three [EToggle, EPress, ENext, EPress, ESelect ''a'', ESelect ''b'', EReorder [''b'', ''c'']]
         (new_select two_of_three (map (SelOption \<circ> plain_option) [''a'', ''b'', ''c'']) NoValue False)
   in choice_ok two_of_three NoValue s \<and> sf_state s = Values [''b'', ''c''] \<and> sf_alerts s = 0"
proof -
  let ?n = "new_select two_of_three (map (SelOption \<circ> plain_option) [''a'', ''b'', ''c'']) NoValue False"
  let ?es = "[EToggle, EPress, ENext, EPress, ESelect ''a'', ESelect ''b'', EReorder [''b'', ''c'']]"
  have "choice_ok two_of_three NoValue ?n" by code_simp
  from selection_kept_in_bounds [OF this, of ?es] have "choice_ok two_of_three NoValue (sel_run two_of_three ?es ?n)" by simp
  moreover have "sf_state (sel_run two_of_three ?es ?n) = Values [''b'', ''c'']" "sf_alerts (sel_run two_of_three ?es ?n) = 0" by code_simp+
  ultimately show ?thesis by (simp add: Let_def)
qed

text \<open>
  The panel shows the options that are not selected, up to the limit: of a search those of the
  loaded options whose label or value has the text in it, all in their order; the keyboard goes
  through the same options.
\<close>
theorem panel_shows_left_options:
  "(let xs = left_over c (sf_state s) (all_options (sf_options s))
    in all_options (sf_shown (render_options c s)) = (if 0 < sc_limit c then take (sc_limit c) xs else xs))
   \<and> all_options (sf_options (filter_options c q s)) = filter (option_matches c (js_lower q)) (all_options (sf_original s))
   \<and> mset (visible_options s) = mset (all_options (sf_shown s))"
proof -
  have m: "mset (all_options (filter is_single es)) + mset (all_options (filter (\<lambda>a. \<not> is_single a) es)) = mset (all_options es)" for es
  proof (induction es)
    case (Cons a es)
    then show ?case by (cases a) (simp_all add: is_single_def)
  qed simp
  have o: "sf_options (render_options c t) = sf_options t" for t
    by (simp add: render_options_def show_message_def close_dropdown_def Let_def)
  have "sf_shown (render_options c s) = render_entries c (sf_state s) 0 (sf_options s)"
    by (simp add: render_options_def show_message_def close_dropdown_def Let_def)
  moreover have "sf_options (filter_options c q s) = filter_entries c (js_lower q) (sf_original s)"
    by (simp add: filter_options_def show_message_def o Let_def)
  ultimately show ?thesis using m [of "sf_shown s"]
    by (simp add: visible_options_def render_unlimited render_limited filter_entries_options Let_def)
qed

text \<open>A value that is selected and taken back leaves the selection as it was; next and previous undo each other.\<close>

lemma select_twice:
  assumes "sf_state s = Values vs" and "v \<notin> set vs" and "sc_multiple c" and "\<not> sf_disabled s"
    and "sc_max c = 0 \<or> length vs < sc_max c"
  shows "sf_state (select_option c v (select_option c v s)) = Values vs"
proof -
  have d: "sf_disabled (render_options c t) = sf_disabled t" for t
    by (simp add: render_options_def show_message_def close_dropdown_def Let_def)
  have "filter (\<lambda>r. r \<noteq> v) vs = vs" using assms(2) by (induction vs) auto
  then show ?thesis using assms by (simp add: select_option_def state_changed_to_def maintain_focus_def d Let_def)
qed

lemma focus_goes_back:
  assumes "\<not> sc_searchable c" and "0 \<le> sf_index s" and "sf_index s < int (length (visible_options s))"
  shows "focus_previous_option c (focus_next_option c s) = s"
proof -
  let ?n = "int (length (visible_options s))"
  have v: "visible_options (s\<lparr>sf_index := i\<rparr>) = visible_options s" for i by (simp add: visible_options_def)
  have "((sf_index s + 1) mod ?n - 1 + ?n) mod ?n = sf_index s"
  proof (cases "sf_index s + 1 = ?n")
    case True
    then have "0 \<le> ?n - 1" "?n - 1 < ?n" "sf_index s = ?n - 1" using assms(2) by linarith+
    then have "(?n - 1) mod ?n = sf_index s" using mod_pos_pos_trivial [of "?n - 1" ?n] by simp
    moreover have "(sf_index s + 1) mod ?n - 1 + ?n = ?n - 1" using True by simp
    ultimately show ?thesis by argo
  next
    case False
    then have "(sf_index s + 1) mod ?n = sf_index s + 1" using assms(2,3) by simp
    then show ?thesis using assms(2,3) by simp
  qed
  then show ?thesis using assms v by (simp add: focus_next_option_def focus_previous_option_def Let_def)
qed

end
