(* ===== verification/Select_Labels.thy ===== *)
theory Select_Labels
  imports Select_Field "HOL-Library.AList"
begin

text \<open>
  The labels of the selected values (\<open>public/js/filament/forms/components/select.js\<close>): the repository
  of known labels, how a label is looked for, and the display of the selection, whose updates wait
  for the server and are numbered. A label that is ready without a request is shown in a later turn
  of the page; both waits are lists here, and their ends are operations.
\<close>

section \<open>The repository\<close>

type_synonym label_repository = "(string \<times> string) list"

definition put_label :: "string \<Rightarrow> string \<Rightarrow> label_repository \<Rightarrow> label_repository" where
  "put_label v l r = AList.update v l r"

definition blank_label :: "string option \<Rightarrow> bool" where
  "blank_label l \<longleftrightarrow> (case l of None \<Rightarrow> True | Some s \<Rightarrow> js_trim s = [])"

text \<open>\<open>populateLabelRepositoryFromOptions\<close>.\<close>

definition populate_labels :: "sel_entry list \<Rightarrow> label_repository \<Rightarrow> label_repository" where
  "populate_labels es r = fold (\<lambda>x. put_label (so_value x) (so_label x)) (all_options es) r"

text \<open>
  The label of an option. The script breaks out of a group only, so a later entry with the same value
  may follow; the last group, or the first option outside groups behind it, gives the label.
\<close>

fun option_label_from :: "string \<Rightarrow> string option \<Rightarrow> sel_entry list \<Rightarrow> string option" where
  "option_label_from v l [] = l"
| "option_label_from v l (SelOption x # es) = (if so_value x = v then Some (so_label x) else option_label_from v l es)"
| "option_label_from v l (SelGroup g os # es) =
     (case find (\<lambda>x. so_value x = v) os of
        Some x \<Rightarrow> option_label_from v (Some (so_label x)) es
      | None \<Rightarrow> option_label_from v l es)"

definition selected_option_label :: "sel_entry list \<Rightarrow> string \<Rightarrow> label_repository \<Rightarrow> string \<times> label_repository" where
  "selected_option_label es v r =
     (case map_of r v of
        Some l \<Rightarrow> if js_trim l \<noteq> [] then (l, r) else
          (case option_label_from v None es of Some k \<Rightarrow> (k, put_label v k r) | None \<Rightarrow> ([], r))
      | None \<Rightarrow> (case option_label_from v None es of Some k \<Rightarrow> (k, put_label v k r) | None \<Rightarrow> ([], r)))"

section \<open>One value\<close>

record label_config =
  lc_initial_label :: "string option"
  lc_initial_state :: sel_state
  lc_server :: bool

datatype label_display = Placeholder | ShownLabel string | Badges "string list"

record label_field =
  lf_state :: sel_state
  lf_repo :: label_repository
  lf_version :: nat
  lf_ready :: "(nat \<times> string) list"
  lf_asked :: "nat list"
  lf_display :: label_display

text \<open>\<open>updateSelectedDisplay\<close> with \<open>getLabelForSingleSelection\<close>, up to where it waits.\<close>

definition update_display :: "label_config \<Rightarrow> sel_entry list \<Rightarrow> label_field \<Rightarrow> label_field" where
  "update_display c es s =
     (let n = lf_version s + 1; s1 = s\<lparr>lf_version := n\<rparr> in
      case lf_state s of
        OneValue v \<Rightarrow>
          (if v = [] then s1\<lparr>lf_display := Placeholder\<rparr>
           else
             (let (l, r) = (if blank_label (map_of (lf_repo s) v) then selected_option_label es v (lf_repo s)
                            else (or_empty (map_of (lf_repo s) v), lf_repo s));
                  s2 = s1\<lparr>lf_repo := r\<rparr>
              in if js_trim l \<noteq> [] then s2\<lparr>lf_ready := lf_ready s @ [(n, l)]\<rparr>
                 else if \<not> blank_label (lc_initial_label c) \<and> lf_state s = lc_initial_state c then
                   (let k = or_empty (lc_initial_label c)
                    in s2\<lparr>lf_repo := if js_trim v \<noteq> [] then put_label v k r else r, lf_ready := lf_ready s @ [(n, k)]\<rparr>)
                 else if lc_server c then s2\<lparr>lf_asked := lf_asked s @ [n]\<rparr>
                 else s2\<lparr>lf_ready := lf_ready s @ [(n, v)]\<rparr>))
      | _ \<Rightarrow> s1\<lparr>lf_display := Placeholder\<rparr>)"

definition show_if_current :: "nat \<Rightarrow> string \<Rightarrow> label_field \<Rightarrow> label_field" where
  "show_if_current n l s = (if n = lf_version s then s\<lparr>lf_display := ShownLabel l\<rparr> else s)"

definition label_ready :: "nat \<Rightarrow> label_field \<Rightarrow> label_field" where
  "label_ready n s =
     (case map_of (lf_ready s) n of
        None \<Rightarrow> s
      | Some l \<Rightarrow> show_if_current n l (s\<lparr>lf_ready := filter (\<lambda>(i, k). i \<noteq> n) (lf_ready s)\<rparr>))"

text \<open>The server's answer is stored for the value that the field has now; a failure gives that value.\<close>

definition current_value :: "label_field \<Rightarrow> string" where
  "current_value s = (case lf_state s of OneValue v \<Rightarrow> v | _ \<Rightarrow> [])"

definition label_answered :: "nat \<Rightarrow> string option \<Rightarrow> label_field \<Rightarrow> label_field" where
  "label_answered n a s =
     (if n \<in> set (lf_asked s) then
        (let s1 = s\<lparr>lf_asked := filter (\<lambda>i. i \<noteq> n) (lf_asked s)\<rparr> in
         case a of
           None \<Rightarrow> show_if_current n (current_value s) s1
         | Some l \<Rightarrow> show_if_current n l
             (if js_trim l \<noteq> [] \<and> js_trim (current_value s) \<noteq> []
              then s1\<lparr>lf_repo := put_label (current_value s) l (lf_repo s)\<rparr> else s1))
      else s)"

definition choose_value :: "label_config \<Rightarrow> sel_entry list \<Rightarrow> string \<Rightarrow> label_field \<Rightarrow> label_field" where
  "choose_value c es v s = update_display c es (s\<lparr>lf_state := OneValue v\<rparr>)"

text \<open>Answers and turns for an older update leave the display alone.\<close>

lemma old_updates_not_shown:
  "n \<noteq> lf_version s \<Longrightarrow> lf_display (label_ready n s) = lf_display s \<and> lf_display (label_answered n a s) = lf_display s"
  by (simp add: label_ready_def label_answered_def show_if_current_def Let_def split: option.split)

text \<open>
  But the answer for an older value is stored as the label of the newer one: the field shows it the
  next time the display is updated.
\<close>

theorem answer_labels_other_value:
  "let es = [SelOption (plain_option ''1'')]; c = \<lparr>lc_initial_label = None, lc_initial_state = NoValue, lc_server = True\<rparr>;
       s0 = \<lparr>lf_state = OneValue ''7'', lf_repo = populate_labels es [], lf_version = 0, lf_ready = [], lf_asked = [], lf_display = Placeholder\<rparr>;
       s1 = label_answered 1 (Some ''Seven'') (choose_value c es ''1'' (update_display c es s0));
       s2 = label_ready 2 s1
   in lf_display s2 = ShownLabel ''Label 1'' \<and> lf_display (label_ready 3 (update_display c es s2)) = ShownLabel ''Seven''"
  by code_simp

section \<open>Several values\<close>

text \<open>
  \<open>getLabelsForMultipleSelection\<close>: the options' labels of the selected values, what is missing, what is
  asked for, and the labels of the badges. \<open>answer\<close> is what the server sends, if it is asked and answers.
\<close>

definition selected_labels :: "sel_entry list \<Rightarrow> string list \<Rightarrow> label_repository" where
  "selected_labels es vs = List.map_filter (\<lambda>v. map_option (\<lambda>l. (v, l)) (map_of (map (\<lambda>x. (so_value x, so_label x)) (all_options es)) v)) vs"

definition learn_labels :: "label_repository \<Rightarrow> string list \<Rightarrow> label_repository \<Rightarrow> label_repository \<times> string list" where
  "learn_labels t vs r =
     fold (\<lambda>v (r, e). if \<not> blank_label (map_of r v) then (r, e)
                      else if \<not> blank_label (map_of t v) then (put_label v (or_empty (map_of t v)) r, e)
                      else (r, e @ [v])) vs (r, [])"

definition badge_labels :: "label_repository \<Rightarrow> label_repository \<Rightarrow> string list \<Rightarrow> string list" where
  "badge_labels t r vs =
     map (\<lambda>v. if \<not> blank_label (map_of r v) then or_empty (map_of r v)
              else if \<not> blank_label (map_of t v) then or_empty (map_of t v) else v) vs"

definition labels_for_values :: "sel_entry list \<Rightarrow> string list \<Rightarrow> label_repository option \<Rightarrow> label_repository option
    \<Rightarrow> label_repository \<Rightarrow> string list \<times> label_repository" where
  "labels_for_values es vs initial answer r =
     (let t = selected_labels es vs; (r1, e) = learn_labels t vs r;
          r2 = (if e = [] then r1
                else case initial of
                  Some ls \<Rightarrow> fold (\<lambda>(v, l). if v \<in> set e then put_label v l else id) ls r1
                | None \<Rightarrow> (case answer of Some ls \<Rightarrow> fold (\<lambda>(v, l). put_label v l) ls r1 | None \<Rightarrow> r1))
      in (badge_labels t r2 vs, r2))"

text \<open>Every value has one badge, in the order of the values, and no badge is blank unless its value is.\<close>

theorem badges_match_values:
  assumes "\<forall>v \<in> set vs. js_trim v \<noteq> []"
  shows "length (fst (labels_for_values es vs initial answer r)) = length vs
    \<and> (\<forall>l \<in> set (fst (labels_for_values es vs initial answer r)). js_trim l \<noteq> [])"
  using assms by (auto simp: labels_for_values_def badge_labels_def blank_label_def or_empty_def Let_def split: prod.split option.splits)

end
