(* ===== verification/Date_Picker.thy ===== *)
theory Date_Picker
  imports Script_Text
begin

text \<open>
  The date picker (\<open>public/js/filament/forms/components/date-time-picker.js\<close>, function \<open>or\<close>): the
  focused date and its grid of days, the inputs for month, year and time, the dates that may not be
  chosen, and the state. Days follow the Gregorian calendar, as the functions \<open>add\<close>, \<open>set\<close> and
  \<open>daysInMonth\<close> of the bundled library have them; time zones and the parsing of texts are left out, so
  the state is the moment it stands for. Today is an argument.
\<close>

section \<open>Days\<close>

record cal_date =
  cd_year :: int
  cd_month :: nat
  cd_day :: nat

definition is_leap :: "int \<Rightarrow> bool" where
  "is_leap y \<longleftrightarrow> y mod 4 = 0 \<and> (y mod 100 \<noteq> 0 \<or> y mod 400 = 0)"

text \<open>Months count from 0.\<close>

definition days_in_month :: "int \<Rightarrow> nat \<Rightarrow> nat" where
  "days_in_month y m = (if m = 1 then (if is_leap y then 29 else 28) else if m \<in> {3, 5, 8, 10} then 30 else 31)"

definition valid_date :: "cal_date \<Rightarrow> bool" where
  "valid_date d \<longleftrightarrow> cd_month d < 12 \<and> 0 < cd_day d \<and> cd_day d \<le> days_in_month (cd_year d) (cd_month d)"

definition next_date :: "cal_date \<Rightarrow> cal_date" where
  "next_date d =
     (if cd_day d < days_in_month (cd_year d) (cd_month d) then d\<lparr>cd_day := cd_day d + 1\<rparr>
      else if cd_month d < 11 then d\<lparr>cd_month := cd_month d + 1, cd_day := 1\<rparr>
      else d\<lparr>cd_year := cd_year d + 1, cd_month := 0, cd_day := 1\<rparr>)"

definition prev_date :: "cal_date \<Rightarrow> cal_date" where
  "prev_date d =
     (if 1 < cd_day d then d\<lparr>cd_day := cd_day d - 1\<rparr>
      else if 0 < cd_month d then d\<lparr>cd_month := cd_month d - 1, cd_day := days_in_month (cd_year d) (cd_month d - 1)\<rparr>
      else d\<lparr>cd_year := cd_year d - 1, cd_month := 11, cd_day := 31\<rparr>)"

definition add_days :: "int \<Rightarrow> cal_date \<Rightarrow> cal_date" where
  "add_days n d = (if 0 \<le> n then (next_date ^^ nat n) d else (prev_date ^^ nat (- n)) d)"

text \<open>\<open>date(k)\<close> moves into another month for a \<open>k\<close> out of the month; \<open>month\<close> and \<open>year\<close> shorten the day.\<close>

definition set_day :: "cal_date \<Rightarrow> int \<Rightarrow> cal_date" where
  "set_day d k = add_days (k - int (cd_day d)) d"

definition set_month :: "cal_date \<Rightarrow> nat \<Rightarrow> cal_date" where
  "set_month d m = d\<lparr>cd_month := m, cd_day := min (cd_day d) (days_in_month (cd_year d) m)\<rparr>"

definition set_year :: "cal_date \<Rightarrow> int \<Rightarrow> cal_date" where
  "set_year d y = d\<lparr>cd_year := y, cd_day := min (cd_day d) (days_in_month y (cd_month d))\<rparr>"

text \<open>The number of days since the first day of the year 0, and the day of the week; Sunday is 0.\<close>

definition days_before_year :: "int \<Rightarrow> int" where
  "days_before_year y = 365 * y + (y + 3) div 4 - (y + 99) div 100 + (y + 399) div 400"

definition days_before_month :: "int \<Rightarrow> nat \<Rightarrow> nat" where
  "days_before_month y m = sum_list (map (days_in_month y) [0..<m])"

definition day_number :: "cal_date \<Rightarrow> int" where
  "day_number d = days_before_year (cd_year d) + int (days_before_month (cd_year d) (cd_month d)) + int (cd_day d) - 1"

definition weekday :: "cal_date \<Rightarrow> nat" where
  "weekday d = nat ((day_number d + 6) mod 7)"

lemma known_weekdays:
  "weekday \<lparr>cd_year = 1970, cd_month = 0, cd_day = 1\<rparr> = 4" "weekday \<lparr>cd_year = 2000, cd_month = 1, cd_day = 29\<rparr> = 2"
  by code_simp+

lemma days_in_month_pos [simp]: "0 < days_in_month y m" "28 \<le> days_in_month y m"
  by (simp_all add: days_in_month_def)

lemma days_in_december [simp]: "days_in_month y 11 = 31"
  by (simp add: days_in_month_def)

lemma year_length: "days_before_month y 12 = (if is_leap y then 366 else 365)"
  by (simp add: days_before_month_def upt_rec days_in_month_def)

lemma div_one_more:
  fixes x k :: int
  assumes "0 < k"
  shows "(x + 1) div k = x div k + (if (x + 1) mod k = 0 then 1 else 0)"
proof (cases "x mod k = k - 1")
  case True
  have "x = k * (x div k) + x mod k" by simp
  then have "x + 1 = k * (x div k + 1)" using True by (simp add: algebra_simps)
  then have "(x + 1) div k = x div k + 1" "(x + 1) mod k = 0" using assms by simp_all
  then show ?thesis by simp
next
  case False
  have r: "0 \<le> x mod k" "x mod k < k" using assms by simp_all
  have "x + 1 = k * (x div k) + (x mod k + 1)" by simp
  then have "(x + 1) div k = x div k" "(x + 1) mod k = x mod k + 1"
    using int_div_pos_eq [of "x + 1" k "x div k" "x mod k + 1"] int_mod_pos_eq [of "x + 1" k "x div k" "x mod k + 1"] False r by simp_all
  then show ?thesis using r by simp
qed

lemma next_year: "days_before_year (y + 1) = days_before_year y + (if is_leap y then 366 else 365)"
proof -
  have e: "days_before_year (y + 1) = 365 * y + 365 + (y + 4) div 4 - (y + 100) div 100 + (y + 400) div 400"
  proof -
    have "y + 1 + 3 = y + 4" "y + 1 + 99 = y + 100" "y + 1 + 399 = y + 400" "365 * (y + 1) = 365 * y + 365" by simp_all
    then show ?thesis unfolding days_before_year_def by (simp only:)
  qed
  have 4: "(y + 4) div 4 = (y + 3) div 4 + (if y mod 4 = 0 then 1 else 0)" using div_one_more [of 4 "y + 3"] by simp
  have 100: "(y + 100) div 100 = (y + 99) div 100 + (if y mod 100 = 0 then 1 else 0)" using div_one_more [of 100 "y + 99"] by simp
  have 400: "(y + 400) div 400 = (y + 399) div 400 + (if y mod 400 = 0 then 1 else 0)" using div_one_more [of 400 "y + 399"] by simp
  have m: "y mod 100 = 0 \<longrightarrow> y mod 4 = 0" "y mod 400 = 0 \<longrightarrow> y mod 100 = 0"
    by (auto simp flip: dvd_eq_mod_eq_0 intro: dvd_trans [of 4 100] dvd_trans [of 100 400])
  show ?thesis unfolding e 4 100 400 unfolding days_before_year_def is_leap_def
    using m by (cases "y mod 4 = 0"; cases "y mod 100 = 0"; cases "y mod 400 = 0") simp_all
qed

lemma valid_next_prev:
  assumes "valid_date d"
  shows "valid_date (next_date d)" "valid_date (prev_date d)"
  using assms by (auto simp: valid_date_def next_date_def prev_date_def Suc_le_eq)

lemma prev_next: "valid_date d \<Longrightarrow> prev_date (next_date d) = d"
proof -
  assume v: "valid_date d"
  then have "cd_month d < 11 \<or> cd_month d = 11" by (auto simp: valid_date_def)
  then show ?thesis using v by (cases d) (auto simp: valid_date_def next_date_def prev_date_def)
qed

lemma next_prev: "valid_date d \<Longrightarrow> next_date (prev_date d) = d"
  by (cases d) (auto simp: valid_date_def next_date_def prev_date_def less_Suc_eq)

lemma day_number_next:
  assumes "valid_date d"
  shows "day_number (next_date d) = day_number d + 1"
proof -
  have m: "days_before_month y (Suc m) = days_before_month y m + days_in_month y m" for y m
    by (simp add: days_before_month_def)
  have "cd_month d = 11 \<Longrightarrow> days_before_month (cd_year d) 11 + 31 = (if is_leap (cd_year d) then 366 else 365)"
    using year_length [of "cd_year d"] m [of "cd_year d" 11] by simp
  moreover have "days_before_month y 0 = 0" for y by (simp add: days_before_month_def)
  ultimately show ?thesis using assms next_year [of "cd_year d"] m
    by (cases "cd_month d = 11") (auto simp: day_number_def next_date_def valid_date_def split: if_splits)
qed

lemma day_number_prev: "valid_date d \<Longrightarrow> day_number (prev_date d) = day_number d - 1"
  using day_number_next [OF valid_next_prev(2)] next_prev by fastforce

lemma funpow_dates:
  "valid_date d \<Longrightarrow> valid_date ((next_date ^^ n) d) \<and> day_number ((next_date ^^ n) d) = day_number d + int n"
  "valid_date d \<Longrightarrow> valid_date ((prev_date ^^ n) d) \<and> day_number ((prev_date ^^ n) d) = day_number d - int n"
  by (induction n) (simp_all add: valid_next_prev day_number_next day_number_prev)

lemma add_days_number:
  assumes "valid_date d"
  shows "valid_date (add_days n d) \<and> day_number (add_days n d) = day_number d + n"
  using funpow_dates [OF assms] by (simp add: add_days_def)

section \<open>The picker\<close>

record moment =
  mo_date :: cal_date
  mo_hour :: nat
  mo_minute :: nat
  mo_second :: nat

definition date_before :: "cal_date \<Rightarrow> cal_date \<Rightarrow> bool" where
  "date_before d e \<longleftrightarrow> cd_year d < cd_year e \<or> cd_year d = cd_year e
     \<and> (cd_month d < cd_month e \<or> cd_month d = cd_month e \<and> cd_day d < cd_day e)"

definition seconds_of :: "moment \<Rightarrow> nat" where
  "seconds_of m = 3600 * mo_hour m + 60 * mo_minute m + mo_second m"

definition moment_before :: "moment \<Rightarrow> moment \<Rightarrow> bool" where
  "moment_before m n \<longleftrightarrow> date_before (mo_date m) (mo_date n) \<or> mo_date m = mo_date n \<and> seconds_of m < seconds_of n"

record picker_config =
  dc_first_day :: nat
  dc_min :: "moment option"
  dc_max :: "moment option"
  dc_disabled :: "cal_date list"

record picker =
  dp_state :: "moment option"
  dp_shown :: "moment option"
  dp_focused :: cal_date
  dp_month :: nat
  dp_year :: int
  dp_hour :: nat
  dp_minute :: nat
  dp_second :: nat
  dp_clearing :: bool
  dp_empty :: nat
  dp_days :: nat

text \<open>\<open>dateIsDisabled\<close> compares days.\<close>

definition date_is_disabled :: "picker_config \<Rightarrow> cal_date \<Rightarrow> bool" where
  "date_is_disabled c d \<longleftrightarrow> d \<in> set (dc_disabled c)
     \<or> (case dc_max c of Some m \<Rightarrow> date_before (mo_date m) d | None \<Rightarrow> False)
     \<or> (case dc_min c of Some m \<Rightarrow> date_before d (mo_date m) | None \<Rightarrow> False)"

definition out_of_range :: "picker_config \<Rightarrow> moment \<Rightarrow> bool" where
  "out_of_range c u \<longleftrightarrow> (case dc_max c of Some m \<Rightarrow> moment_before m u | None \<Rightarrow> False)
     \<or> (case dc_min c of Some m \<Rightarrow> moment_before u m | None \<Rightarrow> False)"

text \<open>\<open>setupDaysGrid\<close>; the labels of the days begin with the first day of the week.\<close>

definition setup_days_grid :: "picker_config \<Rightarrow> picker \<Rightarrow> picker" where
  "setup_days_grid c p =
     p\<lparr>dp_empty := weekday (set_day (dp_focused p) (8 - int (dc_first_day c))),
       dp_days := days_in_month (cd_year (dp_focused p)) (cd_month (dp_focused p))\<rparr>"

definition day_labels :: "picker_config \<Rightarrow> string list \<Rightarrow> string list" where
  "day_labels c names = (if dc_first_day c = 0 then names else drop (dc_first_day c) names @ take (dc_first_day c) names)"

text \<open>The focused date with its watcher.\<close>

definition focus_date :: "picker_config \<Rightarrow> cal_date \<Rightarrow> picker \<Rightarrow> picker" where
  "focus_date c d p = setup_days_grid c (p\<lparr>dp_focused := d, dp_month := cd_month d, dp_year := cd_year d\<rparr>)"

definition focus_previous_day :: "picker_config \<Rightarrow> picker \<Rightarrow> picker" where
  "focus_previous_day c p = focus_date c (add_days (-1) (dp_focused p)) p"

definition focus_next_day :: "picker_config \<Rightarrow> picker \<Rightarrow> picker" where
  "focus_next_day c p = focus_date c (add_days 1 (dp_focused p)) p"

definition focus_previous_week :: "picker_config \<Rightarrow> picker \<Rightarrow> picker" where
  "focus_previous_week c p = focus_date c (add_days (-7) (dp_focused p)) p"

definition focus_next_week :: "picker_config \<Rightarrow> picker \<Rightarrow> picker" where
  "focus_next_week c p = focus_date c (add_days 7 (dp_focused p)) p"

definition month_chosen :: "picker_config \<Rightarrow> nat \<Rightarrow> picker \<Rightarrow> picker" where
  "month_chosen c m p =
     (if cd_month (dp_focused p) \<noteq> m then focus_date c (set_month (dp_focused p) m) p else p\<lparr>dp_month := m\<rparr>)"

text \<open>
  The year's text is cut to four characters; with fewer nothing happens, and for no number it is this
  year. Only digits count as a number here, not the notations with an exponent or another base.
\<close>

definition year_value :: "string \<Rightarrow> int" where
  "year_value t = fold (\<lambda>x n. 10 * n + (of_char x - 48)) t 0"

definition year_typed :: "picker_config \<Rightarrow> cal_date \<Rightarrow> string \<Rightarrow> picker \<Rightarrow> picker" where
  "year_typed c today v p =
     (let t = take 4 v in
      if length t \<noteq> 4 then p
      else (let y = (if list_all (\<lambda>x. x \<in> set ''0123456789'') t then year_value t else cd_year today)
            in if cd_year (dp_focused p) \<noteq> y then focus_date c (set_year (dp_focused p) y) p else p\<lparr>dp_year := y\<rparr>))"

text \<open>\<open>setState\<close>: a day that may not be chosen changes nothing.\<close>

definition set_state :: "picker_config \<Rightarrow> cal_date \<Rightarrow> picker \<Rightarrow> picker" where
  "set_state c d p =
     (if date_is_disabled c d then p
      else (let m = \<lparr>mo_date = d, mo_hour = dp_hour p, mo_minute = dp_minute p, mo_second = dp_second p\<rparr>
            in p\<lparr>dp_state := Some m, dp_shown := Some m\<rparr>))"

definition clear_state :: "picker \<Rightarrow> picker" where
  "clear_state p = p\<lparr>dp_state := None, dp_shown := None, dp_hour := 0, dp_minute := 0, dp_second := 0\<rparr>"

definition selected_or_focused :: "picker \<Rightarrow> cal_date" where
  "selected_or_focused p = (case dp_state p of Some m \<Rightarrow> mo_date m | None \<Rightarrow> dp_focused p)"

text \<open>The watchers of the time inputs; what is no whole number is 0, and one step beyond an end goes to the other.\<close>

definition wrap_input :: "nat \<Rightarrow> int option \<Rightarrow> nat" where
  "wrap_input hi v = (case v of None \<Rightarrow> 0 | Some u \<Rightarrow> if int hi < u then 0 else if u < 0 then hi else nat u)"

definition hour_typed :: "picker_config \<Rightarrow> int option \<Rightarrow> picker \<Rightarrow> picker" where
  "hour_typed c v p =
     (let p1 = p\<lparr>dp_hour := wrap_input 23 v\<rparr> in if dp_clearing p then p1 else set_state c (selected_or_focused p1) p1)"

definition minute_typed :: "picker_config \<Rightarrow> int option \<Rightarrow> picker \<Rightarrow> picker" where
  "minute_typed c v p =
     (let p1 = p\<lparr>dp_minute := wrap_input 59 v\<rparr> in if dp_clearing p then p1 else set_state c (selected_or_focused p1) p1)"

definition second_typed :: "picker_config \<Rightarrow> int option \<Rightarrow> picker \<Rightarrow> picker" where
  "second_typed c v p =
     (let p1 = p\<lparr>dp_second := wrap_input 59 v\<rparr> in if dp_clearing p then p1 else set_state c (selected_or_focused p1) p1)"

text \<open>\<open>selectDate\<close>, of a day of the focused month or of the focused date.\<close>

definition select_date :: "picker_config \<Rightarrow> nat option \<Rightarrow> picker \<Rightarrow> picker" where
  "select_date c k p =
     (let p1 = (case k of Some n \<Rightarrow> if n = 0 then p else focus_date c (set_day (dp_focused p) (int n)) p | None \<Rightarrow> p)
      in set_state c (dp_focused p1) p1)"

definition day_is_disabled :: "picker_config \<Rightarrow> nat \<Rightarrow> picker \<Rightarrow> bool" where
  "day_is_disabled c k p \<longleftrightarrow> date_is_disabled c (set_day (dp_focused p) (int k))"

definition day_is_selected :: "nat \<Rightarrow> picker \<Rightarrow> bool" where
  "day_is_selected k p \<longleftrightarrow> (case dp_state p of None \<Rightarrow> False
     | Some m \<Rightarrow> cd_day (mo_date m) = k \<and> cd_month (mo_date m) = cd_month (dp_focused p) \<and> cd_year (mo_date m) = cd_year (dp_focused p))"

text \<open>
  The watcher of the state, without those it wakes: it gives the time inputs the time of the state,
  or nought when the state is out of range.
\<close>

definition state_watched :: "picker_config \<Rightarrow> picker \<Rightarrow> picker" where
  "state_watched c p =
     (case dp_state p of
        None \<Rightarrow> clear_state p
      | Some m \<Rightarrow>
          (let f = (\<lambda>g. if out_of_range c m then 0 else g m)
           in p\<lparr>dp_hour := f mo_hour, dp_minute := f mo_minute, dp_second := f mo_second, dp_shown := Some m\<rparr>))"

text \<open>Opening the panel.\<close>

definition open_panel :: "picker_config \<Rightarrow> picker \<Rightarrow> picker" where
  "open_panel c p = focus_date c (selected_or_focused p) p"

section \<open>The grid\<close>

lemma day_number_in_month:
  assumes "valid_date d" and "0 < k" and "k \<le> days_in_month (cd_year d) (cd_month d)"
  shows "set_day d (int k) = d\<lparr>cd_day := k\<rparr>"
proof -
  have up: "(next_date ^^ n) d = d\<lparr>cd_day := cd_day d + n\<rparr>" if "cd_day d + n \<le> days_in_month (cd_year d) (cd_month d)" for n
    using that by (induction n) (simp_all add: next_date_def)
  have down: "(prev_date ^^ n) d = d\<lparr>cd_day := cd_day d - n\<rparr>" if "n < cd_day d" for n
    using that by (induction n) (simp_all add: prev_date_def)
  show ?thesis
  proof (cases "cd_day d \<le> k")
    case True
    then show ?thesis using up [of "k - cd_day d"] assms by (simp add: set_day_def add_days_def nat_diff_distrib)
  next
    case False
    then show ?thesis using down [of "cd_day d - k"] assms by (simp add: set_day_def add_days_def nat_diff_distrib)
  qed
qed

lemma weekday_of: "int (weekday d) = (day_number d + 6) mod 7"
  by (simp add: weekday_def)

lemma nth_day_labels:
  "\<lbrakk>length names = 7; dc_first_day c \<le> 7; i < 7\<rbrakk> \<Longrightarrow> day_labels c names ! i = names ! ((i + dc_first_day c) mod 7)"
proof -
  assume a: "length names = 7" "dc_first_day c \<le> 7" "i < 7"
  show ?thesis
  proof (cases "i + dc_first_day c < 7")
    case True
    then show ?thesis using a by (auto simp: day_labels_def nth_append add.commute)
  next
    case False
    then have "(i + dc_first_day c) mod 7 = i + dc_first_day c - 7" using a by (simp add: mod_if)
    then show ?thesis using False a by (auto simp: day_labels_def nth_append min_absorb2)
  qed
qed

text \<open>
  C33. The grid of the focused month is right: whatever the first day of the week, every day of the
  month stands in the column whose label is the day of the week it falls on, and the grid has exactly
  the days of the month.
\<close>
theorem day_grid_aligned:
  assumes "valid_date (dp_focused p)" and "dc_first_day c \<le> 7" and "length names = 7"
  shows "let g = setup_days_grid c p; d = dp_focused p in
    dp_days g = days_in_month (cd_year d) (cd_month d)
    \<and> list_all (\<lambda>k. day_labels c names ! ((dp_empty g + k) mod 7) = names ! weekday (d\<lparr>cd_day := Suc k\<rparr>)) [0..<dp_days g]"
proof -
  let ?d = "dp_focused p" and ?a = "dc_first_day c"
  have v: "valid_date ?d" by (rule assms(1))
  have g: "dp_empty (setup_days_grid c p) = weekday (set_day ?d (8 - int ?a))"
    "dp_days (setup_days_grid c p) = days_in_month (cd_year ?d) (cd_month ?d)" by (simp_all add: setup_days_grid_def)
  have number: "day_number (set_day ?d n) = day_number ?d + n - int (cd_day ?d)" for n
    using add_days_number [OF v, of "n - int (cd_day ?d)"] by (simp add: set_day_def)
  have "day_labels c names ! ((dp_empty (setup_days_grid c p) + k) mod 7) = names ! weekday (?d\<lparr>cd_day := Suc k\<rparr>)"
    if "k < days_in_month (cd_year ?d) (cd_month ?d)" for k
  proof -
    let ?e = "dp_empty (setup_days_grid c p)"
    let ?n = "day_number ?d - int (cd_day ?d)"
    have e: "int ?e = (?n + 14 - int ?a) mod 7" unfolding g weekday_of number by (simp add: algebra_simps)
    have "set_day ?d (int (Suc k)) = ?d\<lparr>cd_day := Suc k\<rparr>" using day_number_in_month [OF v, of "Suc k"] that by simp
    then have "day_number (?d\<lparr>cd_day := Suc k\<rparr>) = ?n + int (Suc k)" using number [of "int (Suc k)"] by (simp only: diff_add_eq)
    then have "int (weekday (?d\<lparr>cd_day := Suc k\<rparr>)) = (?n + int (Suc k) + 6) mod 7" by (simp only: weekday_of)
    also have "\<dots> = int ((((?e + k) mod 7) + ?a) mod 7)"
    proof -
      have "int ((((?e + k) mod 7) + ?a) mod 7) = (int ?e + int k + int ?a) mod 7"
        by (simp add: zmod_int mod_add_left_eq)
      also have "\<dots> = (?n + 14 - int ?a + (int k + int ?a)) mod 7" unfolding e by (simp add: mod_add_left_eq add.assoc)
      also have "\<dots> = (?n + int (Suc k) + 6) mod 7 "
        using mod_add_self2 [of "?n + int (Suc k) + 6" 7] by (simp add: algebra_simps)
      finally show ?thesis by simp
    qed
    finally have "weekday (?d\<lparr>cd_day := Suc k\<rparr>) = ((?e + k) mod 7 + ?a) mod 7" by (simp only: of_nat_eq_iff)
    then show ?thesis using nth_day_labels [OF assms(3,2), of "(?e + k) mod 7"] by simp
  qed
  then show ?thesis by (simp add: g(2) list_all_iff Let_def)
qed

definition monday_first :: picker_config where
  "monday_first = \<lparr>dc_first_day = 1, dc_min = Some \<lparr>mo_date = \<lparr>cd_year = 2024, cd_month = 1, cd_day = 5\<rparr>, mo_hour = 12, mo_minute = 0, mo_second = 0\<rparr>,
     dc_max = None, dc_disabled = [\<lparr>cd_year = 2024, cd_month = 1, cd_day = 14\<rparr>]\<rparr>"

definition leap_picker :: picker where
  "leap_picker = \<lparr>dp_state = None, dp_shown = None, dp_focused = \<lparr>cd_year = 2024, cd_month = 1, cd_day = 29\<rparr>, dp_month = 1, dp_year = 2024,
     dp_hour = 0, dp_minute = 0, dp_second = 0, dp_clearing = False, dp_empty = 0, dp_days = 0\<rparr>"

theorem day_grid_aligned_witness:
  "let g = setup_days_grid monday_first leap_picker; names = [''Su'', ''Mo'', ''Tu'', ''We'', ''Th'', ''Fr'', ''Sa''] in
   dp_empty g = 3 \<and> dp_days g = 29 \<and> day_labels monday_first names = [''Mo'', ''Tu'', ''We'', ''Th'', ''Fr'', ''Sa'', ''Su'']
   \<and> list_all (\<lambda>k. day_labels monday_first names ! ((dp_empty g + k) mod 7) = names ! weekday ((dp_focused leap_picker)\<lparr>cd_day := Suc k\<rparr>)) [0..<dp_days g]"
proof -
  have 1: "valid_date (dp_focused leap_picker)" "dc_first_day monday_first \<le> 7"
    "length [''Su'', ''Mo'', ''Tu'', ''We'', ''Th'', ''Fr'', ''Sa''] = 7" by code_simp+
  have f: "dp_focused leap_picker = \<lparr>cd_year = 2024, cd_month = 1, cd_day = 29\<rparr>" by (simp add: leap_picker_def)
  have "set_day (dp_focused leap_picker) 7 = \<lparr>cd_year = 2024, cd_month = 1, cd_day = 7\<rparr>"
    using day_number_in_month [OF 1(1), of 7] by (simp add: f days_in_month_def)
  moreover have "weekday \<lparr>cd_year = 2024, cd_month = 1, cd_day = 7\<rparr> = 3" by code_simp
  ultimately have "dp_empty (setup_days_grid monday_first leap_picker) = 3" by (simp add: setup_days_grid_def monday_first_def)
  moreover have "dp_days (setup_days_grid monday_first leap_picker) = 29"
    "day_labels monday_first [''Su'', ''Mo'', ''Tu'', ''We'', ''Th'', ''Fr'', ''Sa''] = [''Mo'', ''Tu'', ''We'', ''Th'', ''Fr'', ''Sa'', ''Su'']"
    by (simp add: setup_days_grid_def f days_in_month_def is_leap_def, simp add: day_labels_def monday_first_def)
  ultimately show ?thesis using day_grid_aligned [OF 1] by (simp add: Let_def)
qed

section \<open>What can be chosen\<close>

datatype picker_event = PDay nat | PEnter | PPreviousDay | PNextDay | PPreviousWeek | PNextWeek | PMonth nat | PYear string
  | PHour "int option" | PMinute "int option" | PSecond "int option" | PClear | POpen | PWatch

definition picker_step :: "picker_config \<Rightarrow> cal_date \<Rightarrow> picker_event \<Rightarrow> picker \<Rightarrow> picker" where
  "picker_step c today e p =
     (case e of
        PDay k \<Rightarrow> select_date c (Some k) p
      | PEnter \<Rightarrow> select_date c None p
      | PPreviousDay \<Rightarrow> focus_previous_day c p
      | PNextDay \<Rightarrow> focus_next_day c p
      | PPreviousWeek \<Rightarrow> focus_previous_week c p
      | PNextWeek \<Rightarrow> focus_next_week c p
      | PMonth m \<Rightarrow> if m < 12 then month_chosen c m p else p
      | PYear v \<Rightarrow> year_typed c today v p
      | PHour v \<Rightarrow> hour_typed c v p
      | PMinute v \<Rightarrow> minute_typed c v p
      | PSecond v \<Rightarrow> second_typed c v p
      | PClear \<Rightarrow> clear_state p
      | POpen \<Rightarrow> open_panel c p
      | PWatch \<Rightarrow> state_watched c p)"

definition picker_run :: "picker_config \<Rightarrow> cal_date \<Rightarrow> picker_event list \<Rightarrow> picker \<Rightarrow> picker" where
  "picker_run c today es p = fold (picker_step c today) es p"

definition moment_ok :: "picker_config \<Rightarrow> moment \<Rightarrow> bool" where
  "moment_ok c m \<longleftrightarrow> valid_date (mo_date m) \<and> \<not> date_is_disabled c (mo_date m) \<and> mo_hour m \<le> 23 \<and> mo_minute m \<le> 59 \<and> mo_second m \<le> 59"

definition picker_ok :: "picker_config \<Rightarrow> picker \<Rightarrow> bool" where
  "picker_ok c p \<longleftrightarrow> valid_date (dp_focused p) \<and> dp_hour p \<le> 23 \<and> dp_minute p \<le> 59 \<and> dp_second p \<le> 59
     \<and> dp_shown p = dp_state p \<and> pred_option (moment_ok c) (dp_state p)"

lemma wrap_input_le [simp]: "wrap_input hi v \<le> hi"
  by (auto simp: wrap_input_def split: option.split)

lemma set_valid:
  assumes "valid_date d"
  shows "valid_date (add_days n d)" "valid_date (set_day d k)" "m < 12 \<Longrightarrow> valid_date (set_month d m)" "valid_date (set_year d y)"
  using assms add_days_number [OF assms] by (simp_all add: set_day_def set_month_def set_year_def valid_date_def)

lemma focus_date_ok: "\<lbrakk>picker_ok c p; valid_date d\<rbrakk> \<Longrightarrow> picker_ok c (focus_date c d p)"
  by (simp add: picker_ok_def focus_date_def setup_days_grid_def)

lemma set_state_ok: "\<lbrakk>picker_ok c p; valid_date d\<rbrakk> \<Longrightarrow> picker_ok c (set_state c d p)"
  by (simp add: picker_ok_def set_state_def moment_ok_def Let_def)

lemma selected_valid: "picker_ok c p \<Longrightarrow> valid_date (selected_or_focused p) \<and> valid_date (dp_focused p)"
  by (auto simp: picker_ok_def selected_or_focused_def moment_ok_def split: option.splits)

lemma time_typed_ok:
  assumes "picker_ok c p"
  shows "picker_ok c (hour_typed c v p)" "picker_ok c (minute_typed c v p)" "picker_ok c (second_typed c v p)"
proof -
  have "picker_ok c (p\<lparr>dp_hour := wrap_input 23 v\<rparr>)" "picker_ok c (p\<lparr>dp_minute := wrap_input 59 v\<rparr>)"
    "picker_ok c (p\<lparr>dp_second := wrap_input 59 v\<rparr>)" using assms by (simp_all add: picker_ok_def)
  then show "picker_ok c (hour_typed c v p)" "picker_ok c (minute_typed c v p)" "picker_ok c (second_typed c v p)"
    by (simp_all add: hour_typed_def minute_typed_def second_typed_def set_state_ok selected_valid Let_def)
qed

lemma picker_step_ok:
  assumes "picker_ok c p"
  shows "picker_ok c (picker_step c today e p)"
proof (cases e)
  case (PDay k)
  then show ?thesis using assms selected_valid [OF assms] set_valid(2) [of "dp_focused p" "int k"]
    focus_date_ok [OF assms, of "set_day (dp_focused p) (int k)"] selected_valid [of c "focus_date c (set_day (dp_focused p) (int k)) p"]
    by (simp add: picker_step_def select_date_def set_state_ok Let_def)
next
  case (PYear v)
  then show ?thesis using assms selected_valid [OF assms]
    by (simp add: picker_step_def year_typed_def focus_date_ok set_valid Let_def) (simp add: picker_ok_def)
next
  case (PMonth m)
  then show ?thesis using assms selected_valid [OF assms]
    by (simp add: picker_step_def month_chosen_def focus_date_ok set_valid) (simp add: picker_ok_def)
next
  case PClear
  then show ?thesis using assms by (simp add: picker_step_def clear_state_def picker_ok_def)
next
  case PWatch
  then show ?thesis using assms
    by (cases "dp_state p") (simp_all add: picker_step_def state_watched_def clear_state_def picker_ok_def moment_ok_def Let_def)
qed (use assms selected_valid [OF assms] in
    \<open>simp_all add: picker_step_def select_date_def set_state_ok focus_previous_day_def focus_next_day_def
      focus_previous_week_def focus_next_week_def focus_date_ok set_valid open_panel_def time_typed_ok\<close>)

text \<open>
  C34. Whatever days are clicked, keys pressed and numbers typed: the date of the state is a day of
  the calendar that may be chosen, its time is a time of the day, and it is what is shown.
\<close>
theorem chosen_dates_allowed:
  assumes "picker_ok c p"
  shows "picker_ok c (picker_run c today es p)"
  using assms
proof (induction es arbitrary: p)
  case (Cons e es)
  then show ?case using picker_step_ok [of c p today e] by (simp add: picker_run_def)
qed (simp add: picker_run_def)

lemmas picker_steps = picker_run_def picker_step_def select_date_def focus_next_day_def focus_date_def setup_days_grid_def
  set_state_def hour_typed_def minute_typed_def state_watched_def selected_or_focused_def wrap_input_def add_days_def next_date_def
  date_is_disabled_def date_before_def leap_picker_def monday_first_def Let_def

theorem chosen_dates_allowed_witness:
  "let p = picker_run monday_first (dp_focused leap_picker) [PNextDay, PEnter, PHour (Some 24), PMinute (Some (-1)), PNextDay] leap_picker in
   picker_ok monday_first p
   \<and> dp_state p = Some \<lparr>mo_date = \<lparr>cd_year = 2024, cd_month = 2, cd_day = 1\<rparr>, mo_hour = 0, mo_minute = 59, mo_second = 0\<rparr>"
proof -
  let ?es = "[PNextDay, PEnter, PHour (Some 24), PMinute (Some (-1)), PNextDay]"
  have "picker_ok monday_first leap_picker"
    by (simp add: picker_ok_def leap_picker_def valid_date_def days_in_month_def is_leap_def)
  from chosen_dates_allowed [OF this] have "picker_ok monday_first (picker_run monday_first (dp_focused leap_picker) ?es leap_picker)" .
  moreover have "dp_state (picker_run monday_first (dp_focused leap_picker) ?es leap_picker)
      = Some \<lparr>mo_date = \<lparr>cd_year = 2024, cd_month = 2, cd_day = 1\<rparr>, mo_hour = 0, mo_minute = 59, mo_second = 0\<rparr>"
    by (simp add: picker_steps days_in_month_def is_leap_def)
  ultimately show ?thesis by (simp add: Let_def)
qed

text \<open>
  The limits are compared by day when a time is typed, but to the second when the state is watched: an
  hour before the minimum is replaced by midnight, which is before the minimum, too, and stays.
\<close>

theorem time_before_minimum_kept:
  "let first = \<lparr>cd_year = 2024, cd_month = 1, cd_day = 5\<rparr>;
       p = picker_run monday_first first [PEnter, PHour (Some 5), PWatch, PHour (Some 0), PWatch] (leap_picker\<lparr>dp_focused := first\<rparr>) in
   map_option (\<lambda>m. (mo_hour m, out_of_range monday_first m)) (dp_state p) = Some (0, True)"
  by (simp add: picker_steps out_of_range_def moment_before_def seconds_of_def)

text \<open>The arrow keys undo each other, and up and down stay in the column.\<close>

lemma add_days_back: "valid_date d \<Longrightarrow> add_days (- n) (add_days n d) = d"
proof -
  assume v: "valid_date d"
  have 1: "(prev_date ^^ k) ((next_date ^^ k) d) = d" for k
    using v
  proof (induction k arbitrary: d)
    case (Suc k)
    have "(prev_date ^^ Suc k) ((next_date ^^ Suc k) d) = prev_date ((prev_date ^^ k) ((next_date ^^ k) (next_date d)))"
      by (simp add: funpow_swap1)
    then show ?case using Suc.IH [of "next_date d"] Suc.prems by (simp add: valid_next_prev prev_next)
  qed simp
  have 2: "(next_date ^^ k) ((prev_date ^^ k) d) = d" for k
    using v
  proof (induction k arbitrary: d)
    case (Suc k)
    have "(next_date ^^ Suc k) ((prev_date ^^ Suc k) d) = next_date ((next_date ^^ k) ((prev_date ^^ k) (prev_date d)))"
      by (simp add: funpow_swap1)
    then show ?case using Suc.IH [of "prev_date d"] Suc.prems by (simp add: valid_next_prev next_prev)
  qed simp
  show ?thesis using 1 [of "nat n"] 2 [of "nat (- n)"] by (cases "0 \<le> n") (auto simp: add_days_def)
qed

theorem focus_keys_go_back:
  assumes "valid_date (dp_focused p)"
  shows "dp_focused (focus_previous_day c (focus_next_day c p)) = dp_focused p
    \<and> dp_focused (focus_previous_week c (focus_next_week c p)) = dp_focused p
    \<and> weekday (dp_focused (focus_next_week c p)) = weekday (dp_focused p)"
proof -
  have f: "dp_focused (focus_date c d q) = d" for d q by (simp add: focus_date_def setup_days_grid_def)
  have "weekday (add_days 7 (dp_focused p)) = weekday (dp_focused p)"
  proof -
    have "(day_number (dp_focused p) + 7 + 6) mod 7 = (day_number (dp_focused p) + 6) mod 7" by presburger
    then show ?thesis using add_days_number [OF assms, of 7] by (simp add: weekday_def)
  qed
  then show ?thesis using add_days_back [OF assms, of 1] add_days_back [OF assms, of 7]
    by (simp add: focus_previous_day_def focus_next_day_def focus_previous_week_def focus_next_week_def f)
qed

end
