(* ===== verification/Change_Set.thy ===== *)
theory Change_Set
  imports Script_Text
begin

text \<open>
  The changes of the code editor (\<open>public/js/filament/forms/components/code-editor.js\<close>, line 4: the
  classes \<open>Yt\<close> and \<open>ve\<close>, the functions \<open>be\<close>, \<open>Dt\<close>, \<open>Ns\<close>, \<open>Uh\<close> and the iterator \<open>mO\<close>). A change is a list of
  sections, a length with the length of what replaces it or \<open>None\<close> (the script's -1) for what is
  kept, and a list of inserted texts, which may be shorter. A document is its text. Composition and
  inversion are shown to be those of the functions from documents to documents.
\<close>

section \<open>Changes\<close>

type_synonym change_section = "nat \<times> nat option"

record change_set =
  cs_sections :: "change_section list"
  cs_inserted :: "string list"

definition inserted_at :: "string list \<Rightarrow> nat \<Rightarrow> string" where
  "inserted_at I k = (if k < length I then I ! k else [])"

definition old_length :: "change_section list \<Rightarrow> nat" where
  "old_length S = sum_list (map fst S)"

definition new_length :: "change_section list \<Rightarrow> nat" where
  "new_length S = sum_list (map (\<lambda>(n, t). case t of None \<Rightarrow> n | Some k \<Rightarrow> k) S)"

definition change_is_empty :: "change_set \<Rightarrow> bool" where
  "change_is_empty c = (case cs_sections c of [] \<Rightarrow> True | [(n, None)] \<Rightarrow> True | _ \<Rightarrow> False)"

text \<open>
  \<open>be\<close>: a section behind the others, joined with the last one where that says the same, where both
  only insert, or on request; the sum is then that of the numbers, -1 for what is kept.
\<close>

definition plus_ins :: "nat option \<Rightarrow> nat option \<Rightarrow> nat option" where
  "plus_ins a b =
     (case (a, b) of
        (Some x, Some y) \<Rightarrow> Some (x + y)
      | (None, Some y) \<Rightarrow> (if y = 0 then None else Some (y - 1))
      | (Some x, None) \<Rightarrow> (if x = 0 then None else Some (x - 1))
      | (None, None) \<Rightarrow> None)"

definition add_section :: "change_section list \<Rightarrow> nat \<Rightarrow> nat option \<Rightarrow> bool \<Rightarrow> change_section list" where
  "add_section S e t join =
     (if e = 0 \<and> (t = None \<or> t = Some 0) then S
      else if S \<noteq> [] \<and> (t = None \<or> t = Some 0) \<and> t = snd (last S) then butlast S @ [(fst (last S) + e, t)]
      else if S \<noteq> [] \<and> e = 0 \<and> fst (last S) = 0 then butlast S @ [(0, plus_ins (snd (last S)) t)]
      else if S \<noteq> [] \<and> join then butlast S @ [(fst (last S) + e, plus_ins (snd (last S)) t)]
      else S @ [(e, t)])"

text \<open>\<open>Dt\<close>: the text of the last section.\<close>

definition add_insert :: "string list \<Rightarrow> change_section list \<Rightarrow> string \<Rightarrow> string list" where
  "add_insert I S x =
     (if x = [] then I
      else if length S - 1 < length I then butlast I @ [last I @ x]
      else I @ replicate (length S - 1 - length I) [] @ [x])"

section \<open>Applying a change\<close>

text \<open>
  \<open>Ns\<close>: the changed ranges with their texts, neighbouring ones as one; \<open>a\<close> and \<open>b\<close> are the positions
  in the old and the new document, \<open>k\<close> the section's number, and the run that is open is the last argument.
\<close>

type_synonym changed_range = "(nat \<times> nat) \<times> (nat \<times> nat) \<times> string"

fun changed_ranges_from :: "string list \<Rightarrow> nat \<Rightarrow> nat \<Rightarrow> nat \<Rightarrow> change_section list \<Rightarrow> changed_range option \<Rightarrow> changed_range list" where
  "changed_ranges_from I k a b [] op = (case op of None \<Rightarrow> [] | Some r \<Rightarrow> [r])"
| "changed_ranges_from I k a b ((n, t) # S) op =
     (case t of
        None \<Rightarrow> (case op of None \<Rightarrow> [] | Some r \<Rightarrow> [r]) @ changed_ranges_from I (Suc k) (a + n) (b + n) S None
      | Some i \<Rightarrow>
          (let x = (if i = 0 then [] else inserted_at I k);
               r = (case op of
                 None \<Rightarrow> ((a, a + n), (b, b + i), x)
               | Some ((a0, a1), (b0, b1), y) \<Rightarrow> ((a0, a + n), (b0, b + i), y @ x))
           in changed_ranges_from I (Suc k) (a + n) (b + i) S (Some r)))"

definition changed_ranges :: "change_set \<Rightarrow> changed_range list" where
  "changed_ranges c = changed_ranges_from (cs_inserted c) 0 0 0 (cs_sections c) None"

text \<open>\<open>apply\<close>; \<open>None\<close> is the \<open>RangeError\<close> for a document of another length.\<close>

definition splice :: "changed_range \<Rightarrow> string \<Rightarrow> string" where
  "splice r d = (case r of ((a0, a1), (b0, b1), x) \<Rightarrow> take b0 d @ x @ drop (b0 + (a1 - a0)) d)"

definition apply_change :: "change_set \<Rightarrow> string \<Rightarrow> string option" where
  "apply_change c d = (if old_length (cs_sections c) \<noteq> length d then None else Some (fold splice (changed_ranges c) d))"

section \<open>Inverting a change\<close>

fun invert_from :: "string \<Rightarrow> nat \<Rightarrow> nat \<Rightarrow> change_section list \<Rightarrow> string list \<Rightarrow> change_section list \<times> string list" where
  "invert_from d k p [] I = ([], I)"
| "invert_from d k p ((n, t) # S) I =
     (case t of
        None \<Rightarrow> (case invert_from d (Suc k) (p + n) S I of (S1, I1) \<Rightarrow> ((n, None) # S1, I1))
      | Some i \<Rightarrow>
          (let I0 = I @ replicate (k - length I) [] @ [if n = 0 then [] else slice p (p + n) d]
           in case invert_from d (Suc k) (p + n) S I0 of (S1, I1) \<Rightarrow> ((i, Some n) # S1, I1)))"

definition invert_change :: "change_set \<Rightarrow> string \<Rightarrow> change_set" where
  "invert_change c d = (case invert_from d 0 0 (cs_sections c) [] of (S, I) \<Rightarrow> \<lparr>cs_sections = S, cs_inserted = I\<rparr>)"

section \<open>Positions\<close>

text \<open>\<open>mapPos\<close> for the simple mode; \<open>None\<close> is the \<open>RangeError\<close>. \<open>a\<close> and \<open>b\<close> are the ends of what was read.\<close>

fun map_pos_from :: "nat \<Rightarrow> bool \<Rightarrow> nat \<Rightarrow> nat \<Rightarrow> change_section list \<Rightarrow> nat option" where
  "map_pos_from p before a b [] = (if a < p then None else Some b)"
| "map_pos_from p before a b ((n, t) # S) =
     (case t of
        None \<Rightarrow> if p < a + n then Some (b + (p - a)) else map_pos_from p before (a + n) (b + n) S
      | Some i \<Rightarrow>
          if p < a + n \<or> a + n = p \<and> before \<and> n = 0 then Some (if p = a \<or> before then b else b + i)
          else map_pos_from p before (a + n) (b + i) S)"

definition map_pos :: "change_set \<Rightarrow> nat \<Rightarrow> bool \<Rightarrow> nat option" where
  "map_pos c p before = map_pos_from p before 0 0 (cs_sections c)"

section \<open>Composing changes\<close>

datatype iter_ins = Done | Unchanged | Ins nat

record section_iter =
  si_rest :: "change_section list"
  si_read :: nat
  si_len :: nat
  si_ins :: iter_ins
  si_off :: nat

definition iter_next :: "section_iter \<Rightarrow> section_iter" where
  "iter_next it =
     (case si_rest it of
        [] \<Rightarrow> it\<lparr>si_len := 0, si_ins := Done, si_off := 0\<rparr>
      | (n, t) # r \<Rightarrow> \<lparr>si_rest = r, si_read = si_read it + 1, si_len = n,
            si_ins = (case t of None \<Rightarrow> Unchanged | Some i \<Rightarrow> Ins i), si_off = 0\<rparr>)"

definition iter_start :: "change_section list \<Rightarrow> section_iter" where
  "iter_start S = iter_next \<lparr>si_rest = S, si_read = 0, si_len = 0, si_ins = Done, si_off = 0\<rparr>"

definition iter_len2 :: "section_iter \<Rightarrow> nat" where
  "iter_len2 it = (case si_ins it of Ins i \<Rightarrow> i | _ \<Rightarrow> si_len it)"

definition iter_text :: "string list \<Rightarrow> section_iter \<Rightarrow> string" where
  "iter_text I it = inserted_at I (si_read it - 1)"

definition forward :: "nat \<Rightarrow> section_iter \<Rightarrow> section_iter" where
  "forward e it = (if e = si_len it then iter_next it else it\<lparr>si_len := si_len it - e, si_off := si_off it + e\<rparr>)"

definition forward2 :: "nat \<Rightarrow> section_iter \<Rightarrow> section_iter" where
  "forward2 e it =
     (case si_ins it of
        Ins i \<Rightarrow> if e = i then iter_next it else it\<lparr>si_ins := Ins (i - e), si_off := si_off it + e\<rparr>
      | _ \<Rightarrow> forward e it)"

text \<open>The section and its text that one step of \<open>Uh\<close> adds.\<close>

definition step_section :: "nat \<Rightarrow> section_iter \<Rightarrow> section_iter \<Rightarrow> nat \<times> nat option" where
  "step_section m n s =
     (case si_ins n of
        Ins i \<Rightarrow> (if si_off n \<noteq> 0 then 0 else si_len n,
                  case si_ins s of Ins j \<Rightarrow> Some (if si_off s \<noteq> 0 then 0 else j) | _ \<Rightarrow> Some m)
      | _ \<Rightarrow> (m, case si_ins s of Ins j \<Rightarrow> Some (if si_off s \<noteq> 0 then 0 else j) | _ \<Rightarrow> None))"

definition step_text :: "string list \<Rightarrow> string list \<Rightarrow> nat \<Rightarrow> section_iter \<Rightarrow> section_iter \<Rightarrow> string" where
  "step_text I1 I2 m n s =
     (case si_ins s of
        Ins j \<Rightarrow> if si_off s \<noteq> 0 \<or> j = 0 \<and> si_ins n = Unchanged then [] else iter_text I2 s
      | _ \<Rightarrow> (case si_ins n of Ins i \<Rightarrow> take m (drop (si_off n) (iter_text I1 n)) | _ \<Rightarrow> iter_text I2 s))"

definition iter_size :: "section_iter \<Rightarrow> nat" where
  "iter_size it =
     (case si_ins it of Done \<Rightarrow> 0 | Unchanged \<Rightarrow> si_len it + 1 | Ins i \<Rightarrow> si_len it + i + 1)
     + (if si_ins it = Done then 0 else sum_list (map (\<lambda>(n, t). n + (case t of None \<Rightarrow> 0 | Some i \<Rightarrow> i) + 1) (si_rest it)))"

lemma iter_next_size: "si_ins it \<noteq> Done \<Longrightarrow> iter_size (iter_next it) < iter_size it"
  by (auto simp: iter_next_def iter_size_def split: list.split option.split iter_ins.splits)

lemma forward_size: "\<lbrakk>si_ins it \<noteq> Done; 0 < e \<or> si_len it = 0; e \<le> si_len it\<rbrakk> \<Longrightarrow> iter_size (forward e it) < iter_size it"
  using iter_next_size [of it] by (auto simp: forward_def iter_size_def split: iter_ins.splits)

lemma forward_size_le: "\<lbrakk>si_ins it \<noteq> Done; e \<le> si_len it\<rbrakk> \<Longrightarrow> iter_size (forward e it) \<le> iter_size it"
  using iter_next_size [of it] by (auto simp: forward_def iter_size_def split: iter_ins.splits)

lemma forward2_size:
  "\<lbrakk>si_ins it \<noteq> Done; e \<le> iter_len2 it; 0 < e \<or> iter_len2 it = 0\<rbrakk> \<Longrightarrow> iter_size (forward2 e it) < iter_size it"
  using iter_next_size [of it] forward_size [of it e]
  by (auto simp: forward2_def iter_len2_def iter_size_def split: iter_ins.splits)

text \<open>\<open>Uh\<close>; \<open>None\<close> is the error for changes whose lengths do not match.\<close>

function compose_from :: "string list \<Rightarrow> string list \<Rightarrow> change_section list \<Rightarrow> string list \<Rightarrow> bool \<Rightarrow> section_iter \<Rightarrow> section_iter
    \<Rightarrow> change_set option" where
  "compose_from I1 I2 S I op n s =
     (if si_ins n = Done \<and> si_ins s = Done then Some \<lparr>cs_sections = S, cs_inserted = I\<rparr>
      else if si_ins n = Ins 0 then compose_from I1 I2 (add_section S (si_len n) (Some 0) op) I op (iter_next n) s
      else if si_len s = 0 \<and> si_ins s \<noteq> Done then
        (let S1 = add_section S 0 (case si_ins s of Ins j \<Rightarrow> Some j | _ \<Rightarrow> None) op
         in compose_from I1 I2 S1 (add_insert I S1 (iter_text I2 s)) op n (iter_next s))
      else if si_ins n = Done \<or> si_ins s = Done then None
      else
        (let m = min (iter_len2 n) (si_len s); (e, t) = step_section m n s; S1 = add_section S e t op;
             I1' = add_insert I S1 (step_text I1 I2 m n s);
             more = (case si_ins n of Ins i \<Rightarrow> m < i | _ \<Rightarrow> False) \<or> (case si_ins s of Ins j \<Rightarrow> m < si_len s | _ \<Rightarrow> False)
         in compose_from I1 I2 S1 I1' (more \<and> (op \<or> length S < length S1)) (forward2 m n) (forward m s)))"
  by pat_completeness auto
termination
proof (relation "measure (\<lambda>(I1, I2, S, I, op, n, s). iter_size n + iter_size s)", goal_cases)
  case (4 I1 I2 S I op n s m et e t S1 I1' more)
  have n: "si_ins n \<noteq> Done" "si_ins s \<noteq> Done" "0 < si_len s" using 4(1-4) by auto
  have "m \<le> iter_len2 n" "m \<le> si_len s" "0 < m \<or> iter_len2 n = 0" using 4(5) n(3) by auto
  then have "iter_size (forward2 m n) < iter_size n" "iter_size (forward m s) \<le> iter_size s"
    using forward2_size [of n m] forward_size_le [of s m] n by auto
  then show ?case by simp
qed (auto simp: iter_next_size)

declare compose_from.simps [simp del]

definition compose_changes :: "change_set \<Rightarrow> change_set \<Rightarrow> change_set option" where
  "compose_changes c c2 =
     (if change_is_empty c then Some c2 else if change_is_empty c2 then Some c
      else compose_from (cs_inserted c) (cs_inserted c2) [] [] False (iter_start (cs_sections c)) (iter_start (cs_sections c2)))"

section \<open>What a change does\<close>

text \<open>A section with its text: so many characters are kept, or replaced by a text.\<close>

datatype edit = Keep nat | Put nat string

fun edit_length :: "edit \<Rightarrow> nat" where
  "edit_length (Keep n) = n"
| "edit_length (Put n x) = n"

fun run_edits :: "edit list \<Rightarrow> string \<Rightarrow> string" where
  "run_edits [] d = []"
| "run_edits (Keep n # es) d = take n d @ run_edits es (drop n d)"
| "run_edits (Put n x # es) d = x @ run_edits es (drop n d)"

definition edits_length :: "edit list \<Rightarrow> nat" where
  "edits_length es = sum_list (map edit_length es)"

definition edit_of :: "string list \<Rightarrow> nat \<Rightarrow> change_section \<Rightarrow> edit" where
  "edit_of I k s = (case snd s of None \<Rightarrow> Keep (fst s) | Some i \<Rightarrow> Put (fst s) (inserted_at I k))"

definition edits_of :: "string list \<Rightarrow> nat \<Rightarrow> change_section list \<Rightarrow> edit list" where
  "edits_of I k S = map (\<lambda>(j, s). edit_of I j s) (enumerate k S)"

definition set_edits :: "change_set \<Rightarrow> edit list" where
  "set_edits c = edits_of (cs_inserted c) 0 (cs_sections c)"

lemma edits_length_simps [simp]:
  "edits_length [] = 0" "edits_length (e # es) = edit_length e + edits_length es" "edits_length (xs @ ys) = edits_length xs + edits_length ys"
  by (simp_all add: edits_length_def)

lemma edits_of_simps [simp]:
  "edits_of I k [] = []" "edits_of I k (s # S) = edit_of I k s # edits_of I (Suc k) S"
  "edits_of I k (S @ T) = edits_of I k S @ edits_of I (k + length S) T"
  by (simp_all add: edits_of_def enumerate_append_eq)

lemma edit_of_length [simp]: "edit_length (edit_of I k s) = fst s"
  by (simp add: edit_of_def split: option.split)

lemma edits_of_length: "edits_length (edits_of I k S) = old_length S"
  by (induction S arbitrary: k) (simp_all add: old_length_def)

lemma run_edits_append: "run_edits (xs @ ys) d = run_edits xs d @ run_edits ys (drop (edits_length xs) d)"
  by (induction xs d rule: run_edits.induct) (simp_all add: add.commute)

text \<open>The same effect on every document.\<close>

definition same_edits :: "edit list \<Rightarrow> edit list \<Rightarrow> bool" where
  "same_edits xs ys \<longleftrightarrow> edits_length xs = edits_length ys \<and> (\<forall>d. run_edits xs d = run_edits ys d)"

lemma same_edits_refl [simp]: "same_edits xs xs"
  by (simp add: same_edits_def)

lemma same_edits_trans: "\<lbrakk>same_edits xs ys; same_edits ys zs\<rbrakk> \<Longrightarrow> same_edits xs zs"
  by (simp add: same_edits_def)

lemma same_edits_append: "\<lbrakk>same_edits xs ys; same_edits us vs\<rbrakk> \<Longrightarrow> same_edits (xs @ us) (ys @ vs)"
  by (simp add: same_edits_def run_edits_append)

lemma same_edits_joined:
  "same_edits [Keep a, Keep b] [Keep (a + b)]" "same_edits [Put a x, Put b y] [Put (a + b) (x @ y)]"
  "same_edits [Keep 0] []" "same_edits [Put 0 []] []"
  by (simp_all add: same_edits_def add.commute flip: take_add)

text \<open>A list of sections with its texts is in order: texts have their lengths, what is kept is not empty.\<close>

definition section_ok :: "string list \<Rightarrow> nat \<Rightarrow> change_section \<Rightarrow> bool" where
  "section_ok I k s \<longleftrightarrow> (case snd s of None \<Rightarrow> 0 < fst s \<and> inserted_at I k = [] | Some i \<Rightarrow> length (inserted_at I k) = i)"

lemma section_ok_cong: "inserted_at J k = inserted_at I k \<Longrightarrow> section_ok J k s = section_ok I k s"
  by (simp only: section_ok_def)

definition sections_ok :: "string list \<Rightarrow> change_section list \<Rightarrow> bool" where
  "sections_ok I S \<longleftrightarrow> length I \<le> length S \<and> (\<forall>k < length S. section_ok I k (S ! k))"

definition change_ok :: "change_set \<Rightarrow> bool" where
  "change_ok c \<longleftrightarrow> sections_ok (cs_inserted c) (cs_sections c)"

lemma sections_ok_Nil [simp]: "sections_ok [] []"
  by (simp add: sections_ok_def)

lemma edits_of_cong: "(\<And>j. \<lbrakk>k \<le> j; j < k + length S\<rbrakk> \<Longrightarrow> inserted_at I j = inserted_at J j) \<Longrightarrow> edits_of I k S = edits_of J k S"
proof (induction S arbitrary: k)
  case (Cons s S)
  have "edits_of I (Suc k) S = edits_of J (Suc k) S" using Cons.prems by (intro Cons.IH) simp_all
  moreover have "inserted_at I k = inserted_at J k" using Cons.prems [of k] by simp
  ultimately show ?case by (simp add: edit_of_def split: option.split)
qed simp

lemma sections_ok_snoc:
  "sections_ok I (S @ [s]) \<longleftrightarrow> length I \<le> Suc (length S) \<and> (\<forall>k < length S. section_ok I k (S ! k)) \<and> section_ok I (length S) s"
  by (auto simp: sections_ok_def nth_append less_Suc_eq)

text \<open>What \<open>Dt\<close> does to the texts: behind new sections, and at the last section.\<close>

lemma add_insert_at:
  assumes "length I \<le> Suc n" and "length S = Suc n"
  shows "length (add_insert I S x) \<le> Suc n"
    and "inserted_at (add_insert I S x) k = (if k = n then inserted_at I n @ x else inserted_at I k)"
proof -
  show "length (add_insert I S x) \<le> Suc n" using assms by (auto simp: add_insert_def)
  show "inserted_at (add_insert I S x) k = (if k = n then inserted_at I n @ x else inserted_at I k)"
  proof (cases "x = [] \<or> length I \<le> n")
    case True
    then show ?thesis using assms by (auto simp: add_insert_def inserted_at_def nth_append)
  next
    case False
    then have I: "length I = Suc n" "I \<noteq> []" using assms by auto
    have "last I = I ! n" using I by (simp add: last_conv_nth)
    moreover have "I = butlast I @ [last I]" "length (butlast I) = n" using I by simp_all
    ultimately have "inserted_at I j = (if j < n then butlast I ! j else if j = n then last I else [])" for j
      by (metis inserted_at_def I(1) less_Suc_eq nth_append_length nth_butlast)
    moreover have "add_insert I S x = butlast I @ [last I @ x]" using False assms I(1) by (auto simp: add_insert_def)
    ultimately show ?thesis using I \<open>last I = I ! n\<close> \<open>length (butlast I) = n\<close> by (auto simp: inserted_at_def nth_append)
  qed
qed

text \<open>One addition: the texts of a replaced stretch, or no text for one that is kept.\<close>

lemma add_section_cases:
  obtains (same) "add_section S e t j = S" "e = 0" "t = None \<or> t = Some 0"
  | (joined) "S \<noteq> []" "t = None \<or> t = Some 0" "t = snd (last S)" "add_section S e t j = butlast S @ [(fst (last S) + e, t)]" "0 < e"
  | (inserts) i where "S \<noteq> []" "e = 0" "fst (last S) = 0" "t = Some i" "0 < i" "add_section S e t j = butlast S @ [(0, plus_ins (snd (last S)) t)]"
  | (forced) "S \<noteq> []" "j" "add_section S e t j = butlast S @ [(fst (last S) + e, plus_ins (snd (last S)) t)]"
      "0 < e \<or> (t \<noteq> None \<and> t \<noteq> Some 0)"
  | (pushed) "add_section S e t j = S @ [(e, t)]" "0 < e \<or> (t \<noteq> None \<and> t \<noteq> Some 0)"
proof -
  consider "e = 0 \<and> (t = None \<or> t = Some 0)"
    | "\<not> (e = 0 \<and> (t = None \<or> t = Some 0))" "S \<noteq> [] \<and> (t = None \<or> t = Some 0) \<and> t = snd (last S)"
    | "\<not> (e = 0 \<and> (t = None \<or> t = Some 0))" "\<not> (S \<noteq> [] \<and> (t = None \<or> t = Some 0) \<and> t = snd (last S))" "S \<noteq> [] \<and> e = 0 \<and> fst (last S) = 0"
    | "\<not> (e = 0 \<and> (t = None \<or> t = Some 0))" "\<not> (S \<noteq> [] \<and> (t = None \<or> t = Some 0) \<and> t = snd (last S))" "\<not> (S \<noteq> [] \<and> e = 0 \<and> fst (last S) = 0)"
    by blast
  then show thesis
  proof cases
    case 1
    then show ?thesis using same by (simp add: add_section_def)
  next
    case 2
    then show ?thesis using joined by (auto simp: add_section_def)
  next
    case 3
    then obtain i where "t = Some i" "0 < i" by (cases t) auto
    then show ?thesis using 3 inserts [of i] by (simp add: add_section_def)
  next
    case 4
    have e: "add_section S e t j = (if S \<noteq> [] \<and> j then butlast S @ [(fst (last S) + e, plus_ins (snd (last S)) t)] else S @ [(e, t)])"
      unfolding add_section_def if_not_P [OF 4(1)] if_not_P [OF 4(2)] if_not_P [OF 4(3)] ..
    have n: "0 < e \<or> (t \<noteq> None \<and> t \<noteq> Some 0)" using 4(1) by auto
    show ?thesis
    proof (cases "S \<noteq> [] \<and> j")
      case True
      then show ?thesis using forced e n by simp
    next
      case False
      then have "add_section S e t j = S @ [(e, t)]" unfolding e by (rule if_not_P)
      then show ?thesis using pushed n by blast
    qed
  qed
qed

lemma replace_last_section:
  assumes "sections_ok I (B @ [s])" and "snd s = Some k" and "length x = i"
  shows "sections_ok (add_insert I (B @ [(fst s + e, Some (k + i))]) x) (B @ [(fst s + e, Some (k + i))])"
    and "same_edits (edits_of (add_insert I (B @ [(fst s + e, Some (k + i))]) x) 0 (B @ [(fst s + e, Some (k + i))]))
           (edits_of I 0 (B @ [s]) @ [Put e x])"
proof -
  let ?S = "B @ [(fst s + e, Some (k + i))]" and ?n = "length B"
  let ?I = "add_insert I ?S x"
  have ok: "length I \<le> Suc ?n" "\<forall>j < ?n. section_ok I j (B ! j)" "length (inserted_at I ?n) = k"
    using assms(1,2) by (simp_all add: sections_ok_snoc section_ok_def)
  note at = add_insert_at [OF ok(1), of ?S x]
  have I: "length ?I \<le> Suc ?n" "\<And>j. inserted_at ?I j = (if j = ?n then inserted_at I ?n @ x else inserted_at I j)" using at by simp_all
  have "\<forall>j < ?n. section_ok ?I j (B ! j)" using ok(2) section_ok_cong [of ?I _ I] I(2) by auto
  then show "sections_ok ?I ?S" using I ok(3) assms(3) by (simp add: sections_ok_snoc section_ok_def)
  have "edits_of ?I 0 B = edits_of I 0 B" by (rule edits_of_cong) (simp add: I(2))
  moreover have "edit_of ?I ?n (fst s + e, Some (k + i)) = Put (fst s + e) (inserted_at I ?n @ x)" by (simp add: edit_of_def I(2))
  moreover have "edit_of I ?n s = Put (fst s) (inserted_at I ?n)" using assms(2) by (simp add: edit_of_def)
  ultimately show "same_edits (edits_of ?I 0 ?S) (edits_of I 0 (B @ [s]) @ [Put e x])"
    using same_edits_append [OF same_edits_refl [of "edits_of I 0 B"] same_edits_joined(2) [of "fst s" "inserted_at I ?n" e x]]
    by (simp add: same_edits_def)
qed

lemma add_put:
  assumes ok: "sections_ok I S" and x: "length x = i" and j: "j \<Longrightarrow> S \<noteq> [] \<and> snd (last S) \<noteq> None"
  shows "sections_ok (add_insert I (add_section S e (Some i) j) x) (add_section S e (Some i) j)"
    and "same_edits (edits_of (add_insert I (add_section S e (Some i) j) x) 0 (add_section S e (Some i) j)) (edits_of I 0 S @ [Put e x])"
proof -
  let ?S = "add_section S e (Some i) j"
  have parts: "S = butlast S @ [last S]" if "S \<noteq> []" using that by simp
  have "sections_ok (add_insert I ?S x) ?S \<and> same_edits (edits_of (add_insert I ?S x) 0 ?S) (edits_of I 0 S @ [Put e x])"
  proof (cases rule: add_section_cases [of S e "Some i" j])
    case same
    then have "x = []" using x by simp
    then have "add_insert I ?S x = I" by (simp add: add_insert_def)
    then show ?thesis unfolding same(1) using ok same \<open>x = []\<close> same_edits_append [OF same_edits_refl same_edits_joined(4), of "edits_of I 0 S"]
      by (simp add: same_edits_def)
  next
    case joined
    have l: "snd (last S) = Some 0" using joined(2,3) by auto
    have S: "?S = butlast S @ [(fst (last S) + e, Some (0 + i))]" using joined by auto
    show ?thesis unfolding S using replace_last_section [of I "butlast S" "last S" 0 x i e] ok parts [OF joined(1)] l x by simp
  next
    case (inserts k)
    have "section_ok I (length (butlast S)) (last S)" using ok parts [OF inserts(1)] sections_ok_snoc by metis
    then obtain m where m: "snd (last S) = Some m" using inserts(3) by (cases "snd (last S)") (auto simp: section_ok_def)
    have S: "?S = butlast S @ [(fst (last S) + e, Some (m + i))]" using inserts m by (simp add: plus_ins_def)
    show ?thesis unfolding S using replace_last_section [of I "butlast S" "last S" m x i e] ok parts [OF inserts(1)] m x by simp
  next
    case forced
    then obtain m where m: "snd (last S) = Some m" using j by auto
    have S: "?S = butlast S @ [(fst (last S) + e, Some (m + i))]" using forced m by (simp add: plus_ins_def)
    show ?thesis unfolding S using replace_last_section [of I "butlast S" "last S" m x i e] ok parts [OF forced(1)] m x by simp
  next
    case pushed
    let ?n = "length S" and ?T = "S @ [(e, Some i)]"
    have I: "length I \<le> ?n" using ok by (simp add: sections_ok_def)
    have at: "length (add_insert I ?T x) \<le> Suc ?n" "\<And>k. inserted_at (add_insert I ?T x) k = (if k = ?n then inserted_at I ?n @ x else inserted_at I k)"
      using add_insert_at [of I ?n ?T x] I by simp_all
    have n: "inserted_at I ?n = []" using I by (simp add: inserted_at_def)
    have "edits_of (add_insert I ?T x) 0 S = edits_of I 0 S" by (rule edits_of_cong) (simp add: at(2))
    then have "edits_of (add_insert I ?T x) 0 ?T = edits_of I 0 S @ [Put e x]" by (simp add: edit_of_def at(2) n)
    moreover have "\<forall>k < ?n. section_ok (add_insert I ?T x) k (S ! k)"
      using ok section_ok_cong [of "add_insert I ?T x" _ I] at(2) by (auto simp: sections_ok_def)
    moreover have "section_ok (add_insert I ?T x) ?n (e, Some i)" using at(2) n x by (simp add: section_ok_def)
    ultimately have "sections_ok (add_insert I ?T x) ?T" using at(1) by (simp add: sections_ok_snoc)
    moreover note \<open>edits_of (add_insert I ?T x) 0 ?T = edits_of I 0 S @ [Put e x]\<close>
    ultimately show ?thesis unfolding pushed(1) by simp
  qed
  then show "sections_ok (add_insert I ?S x) ?S" "same_edits (edits_of (add_insert I ?S x) 0 ?S) (edits_of I 0 S @ [Put e x])" by blast+
qed

lemma add_keep:
  assumes ok: "sections_ok I S"
  shows "sections_ok I (add_section S e None False)"
    and "same_edits (edits_of I 0 (add_section S e None False)) (edits_of I 0 S @ [Keep e])"
proof -
  let ?S = "add_section S e None False"
  have parts: "S = butlast S @ [last S]" if "S \<noteq> []" using that by simp
  have "sections_ok I ?S \<and> same_edits (edits_of I 0 ?S) (edits_of I 0 S @ [Keep e])"
  proof (cases rule: add_section_cases [of S e None False])
    case same
    then show ?thesis using ok same_edits_append [OF same_edits_refl same_edits_joined(3), of "edits_of I 0 S"] by (simp add: same_edits_def)
  next
    case joined
    let ?B = "butlast S" and ?n = "length (butlast S)"
    have l: "snd (last S) = None" using joined(3) by simp
    have b: "sections_ok I (?B @ [last S])" using ok parts [OF joined(1)] by simp
    have "edits_of I 0 S = edits_of I 0 ?B @ [Keep (fst (last S))]"
      using edits_of_simps(3) [of I 0 ?B "[last S]"] parts [OF joined(1)] l by (simp add: edit_of_def)
    moreover have "edits_of I 0 ?S = edits_of I 0 ?B @ [Keep (fst (last S) + e)]" unfolding joined(4) by (simp add: edit_of_def)
    moreover have "sections_ok I ?S" unfolding joined(4) using b l by (simp add: sections_ok_snoc section_ok_def)
    ultimately show ?thesis using same_edits_append [OF same_edits_refl same_edits_joined(1), of "edits_of I 0 ?B" "fst (last S)" e]
      by (simp add: same_edits_def)
  next
    case pushed
    have I: "length I \<le> length S" using ok by (simp add: sections_ok_def)
    then have "inserted_at I (length S) = []" by (simp add: inserted_at_def)
    then have "section_ok I (length S) (e, None)" using pushed(2) by (simp add: section_ok_def)
    then have "sections_ok I (S @ [(e, None)])" using ok I by (simp add: sections_ok_snoc) (simp add: sections_ok_def)
    then show ?thesis unfolding pushed(1) by (simp add: edit_of_def)
  qed simp_all
  then show "sections_ok I ?S" "same_edits (edits_of I 0 ?S) (edits_of I 0 S @ [Keep e])" by blast+
qed

section \<open>What is left to read\<close>

definition rest_ok :: "string list \<Rightarrow> section_iter \<Rightarrow> bool" where
  "rest_ok I it \<longleftrightarrow> (\<forall>k < length (si_rest it). section_ok I (si_read it + k) (si_rest it ! k))
     \<and> (si_ins it = Unchanged \<longrightarrow> 0 < si_len it \<and> iter_text I it = []) \<and> (si_ins it = Done \<longrightarrow> si_rest it = [] \<and> si_len it = 0)"

definition left_ok :: "string list \<Rightarrow> section_iter \<Rightarrow> bool" where
  "left_ok I it \<longleftrightarrow> rest_ok I it \<and> (\<forall>i. si_ins it = Ins i \<longrightarrow> length (iter_text I it) = si_off it + i \<and> (i = 0 \<longrightarrow> si_off it = 0))"

definition right_ok :: "string list \<Rightarrow> section_iter \<Rightarrow> bool" where
  "right_ok I it \<longleftrightarrow> rest_ok I it \<and> (\<forall>i. si_ins it = Ins i \<longrightarrow> length (iter_text I it) = i) \<and> (si_len it = 0 \<longrightarrow> si_off it = 0)"

definition left_edits :: "string list \<Rightarrow> section_iter \<Rightarrow> edit list" where
  "left_edits I it = (case si_ins it of
     Done \<Rightarrow> []
   | Unchanged \<Rightarrow> Keep (si_len it) # edits_of I (si_read it) (si_rest it)
   | Ins i \<Rightarrow> Put (if si_off it \<noteq> 0 then 0 else si_len it) (drop (si_off it) (iter_text I it)) # edits_of I (si_read it) (si_rest it))"

definition right_edits :: "string list \<Rightarrow> section_iter \<Rightarrow> edit list" where
  "right_edits I it = (case si_ins it of
     Done \<Rightarrow> []
   | Unchanged \<Rightarrow> Keep (si_len it) # edits_of I (si_read it) (si_rest it)
   | Ins i \<Rightarrow> Put (si_len it) (if si_off it \<noteq> 0 then [] else iter_text I it) # edits_of I (si_read it) (si_rest it))"

lemma iter_next_reads:
  assumes "\<forall>k < length (si_rest it). section_ok I (si_read it + k) (si_rest it ! k)"
  shows "left_ok I (iter_next it)" "right_ok I (iter_next it)"
    "left_edits I (iter_next it) = edits_of I (si_read it) (si_rest it)"
    "right_edits I (iter_next it) = edits_of I (si_read it) (si_rest it)"
proof -
  have "left_ok I (iter_next it) \<and> right_ok I (iter_next it)
    \<and> left_edits I (iter_next it) = edits_of I (si_read it) (si_rest it)
    \<and> right_edits I (iter_next it) = edits_of I (si_read it) (si_rest it)"
  proof (cases "si_rest it")
    case Nil
    then show ?thesis by (simp add: iter_next_def left_ok_def right_ok_def rest_ok_def left_edits_def right_edits_def)
  next
    case (Cons s r)
    obtain n t where s: "s = (n, t)" by (rule prod.exhaust)
    have ok: "section_ok I (si_read it) (n, t)" "\<forall>k < length r. section_ok I (Suc (si_read it + k)) (r ! k)"
      using assms [rule_format, of 0] assms [rule_format, of "Suc k" for k] by (simp_all add: Cons s)
    then show ?thesis
      by (cases t) (simp_all add: iter_next_def Cons s left_ok_def right_ok_def rest_ok_def left_edits_def right_edits_def
        iter_text_def section_ok_def edit_of_def)
  qed
  then show "left_ok I (iter_next it)" "right_ok I (iter_next it)"
    "left_edits I (iter_next it) = edits_of I (si_read it) (si_rest it)"
    "right_edits I (iter_next it) = edits_of I (si_read it) (si_rest it)" by blast+
qed

lemma iter_start_reads:
  assumes "sections_ok I S"
  shows "left_ok I (iter_start S)" "right_ok I (iter_start S)" "left_edits I (iter_start S) = edits_of I 0 S" "right_edits I (iter_start S) = edits_of I 0 S"
  using iter_next_reads [of "\<lparr>si_rest = S, si_read = 0, si_len = 0, si_ins = Done, si_off = 0\<rparr>" I] assms
  by (simp_all add: iter_start_def sections_ok_def)

lemma rest_okD: "rest_ok I it \<Longrightarrow> \<forall>k < length (si_rest it). section_ok I (si_read it + k) (si_rest it ! k)"
  by (simp add: rest_ok_def)

lemma same_edits_Cons: "same_edits xs ys \<Longrightarrow> same_edits (e # xs) (e # ys)"
  using same_edits_append [OF same_edits_refl, of xs ys "[e]"] by simp

lemma same_edits_split:
  "m \<le> n \<Longrightarrow> same_edits (Keep m # Keep (n - m) # es) (Keep n # es)"
  "m \<le> n \<Longrightarrow> same_edits (Put m x # Put (n - m) [] # es) (Put n x # es)"
  "same_edits (Put n (take m x) # Put 0 (drop m x) # es) (Put n x # es)"
  using same_edits_append [OF same_edits_joined(1) [of m "n - m"] same_edits_refl [of es]]
    same_edits_append [OF same_edits_joined(2) [of m x "n - m" "[]"] same_edits_refl [of es]]
    same_edits_append [OF same_edits_joined(2) [of n "take m x" 0 "drop m x"] same_edits_refl [of es]]
  by simp_all

text \<open>Moving on in what is kept, in an insertion on the left, and in what the right replaces.\<close>

lemma forward_kept:
  assumes "si_ins it = Unchanged" and "m \<le> si_len it"
  shows "left_ok I it \<Longrightarrow> left_ok I (forward2 m it) \<and> same_edits (Keep m # left_edits I (forward2 m it)) (left_edits I it)"
    and "right_ok I it \<Longrightarrow> right_ok I (forward m it) \<and> same_edits (Keep m # right_edits I (forward m it)) (right_edits I it)"
proof -
  have f: "forward2 m it = forward m it" using assms(1) by (simp add: forward2_def)
  show "left_ok I (forward2 m it) \<and> same_edits (Keep m # left_edits I (forward2 m it)) (left_edits I it)" if ok: "left_ok I it"
  proof (cases "m = si_len it")
    case True
    have "\<forall>k < length (si_rest it). section_ok I (si_read it + k) (si_rest it ! k)" using ok rest_okD by (simp add: left_ok_def)
    from iter_next_reads [OF this] show ?thesis using True assms unfolding f by (simp add: forward_def left_edits_def)
  next
    case False
    then show ?thesis using assms ok same_edits_split(1) [OF assms(2)] unfolding f
      by (simp add: forward_def left_edits_def left_ok_def rest_ok_def iter_text_def)
  qed
  show "right_ok I (forward m it) \<and> same_edits (Keep m # right_edits I (forward m it)) (right_edits I it)" if ok: "right_ok I it"
  proof (cases "m = si_len it")
    case True
    have "\<forall>k < length (si_rest it). section_ok I (si_read it + k) (si_rest it ! k)" using ok rest_okD by (simp add: right_ok_def)
    from iter_next_reads [OF this] show ?thesis using True assms by (simp add: forward_def right_edits_def)
  next
    case False
    then show ?thesis using assms ok same_edits_split(1) [OF assms(2)]
      by (simp add: forward_def right_edits_def right_ok_def rest_ok_def iter_text_def)
  qed
qed

lemma forward_inserted:
  assumes "si_ins it = Ins i" and "m \<le> i" and "0 < m" and ok: "left_ok I it"
  shows "left_ok I (forward2 m it)
    \<and> same_edits (Put (if si_off it \<noteq> 0 then 0 else si_len it) (take m (drop (si_off it) (iter_text I it))) # left_edits I (forward2 m it))
        (left_edits I it)"
proof (cases "m = i")
  case True
  have "\<forall>k < length (si_rest it). section_ok I (si_read it + k) (si_rest it ! k)" using ok rest_okD by (simp add: left_ok_def)
  moreover have "length (drop (si_off it) (iter_text I it)) = i" using ok assms(1) by (simp add: left_ok_def)
  ultimately show ?thesis using iter_next_reads [of it I] True assms by (simp add: forward2_def left_edits_def)
next
  case False
  then show ?thesis using assms
      same_edits_split(3) [of "if si_off it \<noteq> 0 then 0 else si_len it" m "drop (si_off it) (iter_text I it)" "edits_of I (si_read it) (si_rest it)"]
    by (simp add: forward2_def left_edits_def left_ok_def rest_ok_def iter_text_def add.commute)
qed

lemma forward_replaced:
  assumes "si_ins it = Ins j" and "m \<le> si_len it" and "0 < m" and ok: "right_ok I it"
  shows "right_ok I (forward m it)
    \<and> same_edits (Put m (if si_off it \<noteq> 0 then [] else iter_text I it) # right_edits I (forward m it)) (right_edits I it)"
proof (cases "m = si_len it")
  case True
  have "\<forall>k < length (si_rest it). section_ok I (si_read it + k) (si_rest it ! k)" using ok rest_okD by (simp add: right_ok_def)
  from iter_next_reads [OF this] show ?thesis using True assms by (simp add: forward_def right_edits_def)
next
  case False
  then show ?thesis using assms same_edits_split(2) [OF assms(2), of "if si_off it \<noteq> 0 then [] else iter_text I it" "edits_of I (si_read it) (si_rest it)"]
    by (simp add: forward_def right_edits_def right_ok_def rest_ok_def iter_text_def)
qed

section \<open>One change behind another\<close>

definition edits_out :: "edit list \<Rightarrow> nat" where
  "edits_out es = sum_list (map (\<lambda>e. case e of Keep n \<Rightarrow> n | Put n x \<Rightarrow> length x) es)"

lemma edits_out_simps [simp]:
  "edits_out [] = 0" "edits_out (Keep n # es) = n + edits_out es" "edits_out (Put n x # es) = length x + edits_out es"
  by (simp_all add: edits_out_def)

lemma run_edits_length: "length d = edits_length es \<Longrightarrow> length (run_edits es d) = edits_out es"
  by (induction es d rule: run_edits.induct) simp_all

lemma same_edits_out: "same_edits xs ys \<Longrightarrow> edits_out xs = edits_out ys"
  using run_edits_length [of "replicate (edits_length xs) (CHR ''x'')" xs] run_edits_length [of "replicate (edits_length xs) (CHR ''x'')" ys]
  by (simp add: same_edits_def)

definition composes :: "edit list \<Rightarrow> edit list \<Rightarrow> edit list \<Rightarrow> bool" where
  "composes X A B \<longleftrightarrow> edits_length X = edits_length A \<and> (\<forall>d. length d = edits_length A \<longrightarrow> run_edits X d = run_edits B (run_edits A d))"

lemma composes_Nil: "composes [] [] []"
  by (simp add: composes_def)

lemma composes_cong: "\<lbrakk>composes X A' B'; same_edits A' A; same_edits B' B\<rbrakk> \<Longrightarrow> composes X A B"
  by (simp add: composes_def same_edits_def)

lemma composes_step:
  assumes "composes X A B"
  shows "composes (Keep m # X) (Keep m # A) (Keep m # B)"
    and "composes (Put m y # X) (Keep m # A) (Put m y # B)"
    and "length x = m \<Longrightarrow> composes (Put e x # X) (Put e x # A) (Keep m # B)"
    and "length x = m \<Longrightarrow> composes (Put e y # X) (Put e x # A) (Put m y # B)"
    and "composes (Put e [] # X) (Put e [] # A) B"
    and "composes (Put 0 y # X) A (Put 0 y # B)"
  using assms by (simp_all add: composes_def)

lemma add_last:
  assumes "t \<noteq> None" and "S \<noteq> [] \<and> snd (last S) \<noteq> None \<or> length S < length (add_section S e t j)"
  shows "add_section S e t j \<noteq> [] \<and> snd (last (add_section S e t j)) \<noteq> None"
proof (cases rule: add_section_cases [of S e t j])
  case forced
  then show ?thesis using assms by (cases "S = []") (auto simp: plus_ins_def split: option.splits)
qed (use assms in \<open>auto simp: plus_ins_def\<close>)

text \<open>The step of the loop on two sections that are both there.\<close>

definition step_edit :: "string list \<Rightarrow> string list \<Rightarrow> nat \<Rightarrow> section_iter \<Rightarrow> section_iter \<Rightarrow> edit" where
  "step_edit I1 I2 m n s =
     (case step_section m n s of (e, None) \<Rightarrow> Keep e | (e, Some i) \<Rightarrow> Put e (step_text I1 I2 m n s))"

lemma step_composes:
  assumes n: "left_ok I1 n" "si_ins n \<noteq> Done" "si_ins n \<noteq> Ins 0" and s: "right_ok I2 s" "si_ins s \<noteq> Done" "0 < si_len s"
    and m: "m = min (iter_len2 n) (si_len s)" and X: "composes X (left_edits I1 (forward2 m n)) (right_edits I2 (forward m s))"
  shows "composes (step_edit I1 I2 m n s # X) (left_edits I1 n) (right_edits I2 s)"
proof -
  have m0: "0 < m" using n s(3) m by (cases "si_ins n") (auto simp: iter_len2_def left_ok_def rest_ok_def)
  have ml: "m \<le> si_len s" "m \<le> iter_len2 n" using m by simp_all
  show ?thesis
  proof (cases "si_ins n")
    case Unchanged
    note L = forward_kept(1) [OF Unchanged _ n(1), of m, THEN conjunct2]
    have "m \<le> si_len n" using ml Unchanged by (simp add: iter_len2_def)
    note L = L [OF this]
    show ?thesis
    proof (cases "si_ins s")
      case sU: Unchanged
      note R = forward_kept(2) [OF sU ml(1) s(1), THEN conjunct2]
      show ?thesis using composes_cong [OF composes_step(1) [OF X] L R] sU Unchanged by (simp add: step_edit_def step_section_def)
    next
      case (Ins j)
      note R = forward_replaced [OF Ins ml(1) m0 s(1), THEN conjunct2]
      have "(if si_off s \<noteq> 0 \<or> j = 0 then [] else iter_text I2 s) = (if si_off s \<noteq> 0 then [] else iter_text I2 s)"
        using s(1) Ins by (auto simp: right_ok_def)
      then show ?thesis using composes_cong [OF composes_step(2) [OF X] L R] Ins Unchanged
        by (simp add: step_edit_def step_section_def step_text_def)
    qed (use s(2) in simp)
  next
    case (Ins i)
    have mi: "m \<le> i" using ml Ins by (simp add: iter_len2_def)
    note L = forward_inserted [OF Ins mi m0 n(1), THEN conjunct2]
    have len: "length (take m (drop (si_off n) (iter_text I1 n))) = m" using n(1) Ins mi by (simp add: left_ok_def)
    show ?thesis
    proof (cases "si_ins s")
      case sU: Unchanged
      note R = forward_kept(2) [OF sU ml(1) s(1), THEN conjunct2]
      show ?thesis using composes_cong [OF composes_step(3) [OF X len] L R] sU Ins by (simp add: step_edit_def step_section_def step_text_def)
    next
      case sI: (Ins j)
      note R = forward_replaced [OF sI ml(1) m0 s(1), THEN conjunct2]
      show ?thesis using composes_cong [OF composes_step(4) [OF X len] L R] Ins sI by (simp add: step_edit_def step_section_def step_text_def)
    qed (use s(2) in simp)
  qed (use n(2) in simp)
qed

text \<open>What is written before a section may join: the last one replaces something, and a section is in the middle.\<close>

definition join_ok :: "bool \<Rightarrow> change_section list \<Rightarrow> section_iter \<Rightarrow> section_iter \<Rightarrow> bool" where
  "join_ok op S n s \<longleftrightarrow> (op \<longrightarrow> S \<noteq> [] \<and> snd (last S) \<noteq> None
     \<and> ((\<exists>i. si_ins n = Ins i \<and> 0 < i) \<or> (\<exists>j. si_ins s = Ins j) \<and> 0 < si_len s))"

definition loop_ok :: "string list \<Rightarrow> string list \<Rightarrow> change_section list \<Rightarrow> string list \<Rightarrow> bool \<Rightarrow> section_iter \<Rightarrow> section_iter \<Rightarrow> bool" where
  "loop_ok I1 I2 S I op n s \<longleftrightarrow> sections_ok I S \<and> left_ok I1 n \<and> right_ok I2 s \<and> join_ok op S n s
     \<and> edits_out (left_edits I1 n) = edits_length (right_edits I2 s)"

definition loop_result :: "string list \<Rightarrow> string list \<Rightarrow> change_section list \<Rightarrow> string list \<Rightarrow> section_iter \<Rightarrow> section_iter \<Rightarrow> change_set option \<Rightarrow> bool" where
  "loop_result I1 I2 S I n s r \<longleftrightarrow> (\<exists>c X. r = Some c \<and> change_ok c \<and> composes X (left_edits I1 n) (right_edits I2 s)
     \<and> same_edits (set_edits c) (edits_of I 0 S @ X))"

lemma loop_result_step:
  assumes "loop_result I1 I2 S' I' n' s' r" and "same_edits (edits_of I' 0 S') (edits_of I 0 S @ [e])"
    and "\<And>X. composes X (left_edits I1 n') (right_edits I2 s') \<Longrightarrow> composes (e # X) (left_edits I1 n) (right_edits I2 s)"
  shows "loop_result I1 I2 S I n s r"
proof -
  obtain c X where c: "r = Some c" "change_ok c" "composes X (left_edits I1 n') (right_edits I2 s')" "same_edits (set_edits c) (edits_of I' 0 S' @ X)"
    using assms(1) by (auto simp: loop_result_def)
  have "same_edits (set_edits c) (edits_of I 0 S @ e # X)"
    using same_edits_trans [OF c(4) same_edits_append [OF assms(2) same_edits_refl [of X]]] by simp
  with c(1,2) assms(3) [OF c(3)] show ?thesis unfolding loop_result_def by blast
qed

lemma step_edit_length:
  assumes "left_ok I1 n" "right_ok I2 s" "si_ins n \<noteq> Done" "si_ins s \<noteq> Done" "m \<le> iter_len2 n"
    and "step_section m n s = (e, Some i)"
  shows "length (step_text I1 I2 m n s) = i"
  using assms by (auto simp: step_section_def step_text_def left_ok_def right_ok_def iter_len2_def split: iter_ins.splits if_splits)

lemma step_ahead:
  assumes n: "left_ok I1 n" "si_ins n \<noteq> Done" "si_ins n \<noteq> Ins 0" and s: "right_ok I2 s" "si_ins s \<noteq> Done" "0 < si_len s"
    and m: "m = min (iter_len2 n) (si_len s)" and out: "edits_out (left_edits I1 n) = edits_length (right_edits I2 s)"
  shows "left_ok I1 (forward2 m n)" "right_ok I2 (forward m s)"
    "edits_out (left_edits I1 (forward2 m n)) = edits_length (right_edits I2 (forward m s))"
proof -
  have m0: "0 < m" using n s(3) m by (cases "si_ins n") (auto simp: iter_len2_def left_ok_def rest_ok_def)
  have ml: "m \<le> si_len s" "m \<le> iter_len2 n" using m by simp_all
  have L: "left_ok I1 (forward2 m n) \<and> edits_out (left_edits I1 n) = m + edits_out (left_edits I1 (forward2 m n))"
  proof (cases "si_ins n")
    case Unchanged
    then have "m \<le> si_len n" using ml by (simp add: iter_len2_def)
    from forward_kept(1) [OF Unchanged this n(1)] show ?thesis by (auto dest: same_edits_out)
  next
    case (Ins i)
    have mi: "m \<le> i" using ml Ins by (simp add: iter_len2_def)
    have "length (take m (drop (si_off n) (iter_text I1 n))) = m" using n(1) Ins mi by (simp add: left_ok_def)
    with forward_inserted [OF Ins mi m0 n(1)] show ?thesis by (auto dest!: same_edits_out)
  qed (use n(2) in simp)
  have R: "right_ok I2 (forward m s) \<and> edits_length (right_edits I2 s) = m + edits_length (right_edits I2 (forward m s))"
  proof (cases "si_ins s")
    case Unchanged
    from forward_kept(2) [OF Unchanged ml(1) s(1)] show ?thesis by (auto simp: same_edits_def)
  next
    case (Ins j)
    from forward_replaced [OF Ins ml(1) m0 s(1)] show ?thesis by (auto simp: same_edits_def)
  qed (use s(2) in simp)
  show "left_ok I1 (forward2 m n)" "right_ok I2 (forward m s)"
    "edits_out (left_edits I1 (forward2 m n)) = edits_length (right_edits I2 (forward m s))" using L R out by simp_all
qed

lemma left_done: "left_ok I n \<Longrightarrow> si_ins n = Done \<longleftrightarrow> left_edits I n = []"
  by (cases "si_ins n") (simp_all add: left_edits_def)

lemma right_done: "right_ok I s \<Longrightarrow> si_ins s = Done \<longleftrightarrow> right_edits I s = []"
  by (cases "si_ins s") (simp_all add: right_edits_def)

text \<open>The three steps: what the first change deletes, what the second inserts, and a stretch of both.\<close>

lemma step_deleted:
  assumes ok: "loop_ok I1 I2 S I op n s" and n: "si_ins n = Ins 0"
  shows "loop_ok I1 I2 (add_section S (si_len n) (Some 0) op) I op (iter_next n) s"
    and "loop_result I1 I2 (add_section S (si_len n) (Some 0) op) I (iter_next n) s r \<Longrightarrow> loop_result I1 I2 S I n s r"
proof -
  let ?S = "add_section S (si_len n) (Some 0) op"
  have l: "left_ok I1 n" "sections_ok I S" "join_ok op S n s" using ok by (simp_all add: loop_ok_def)
  have rest: "\<forall>k < length (si_rest n). section_ok I1 (si_read n + k) (si_rest n ! k)" using l(1) by (simp add: left_ok_def rest_ok_def)
  note ahead = iter_next_reads [OF rest]
  have t: "iter_text I1 n = []" "si_off n = 0" using l(1) n by (auto simp: left_ok_def)
  have L: "left_edits I1 n = Put (si_len n) [] # left_edits I1 (iter_next n)" unfolding ahead(3) using t n by (subst left_edits_def) simp
  have j: "op \<Longrightarrow> S \<noteq> [] \<and> snd (last S) \<noteq> None" using l(3) by (simp add: join_ok_def)
  have "add_insert I ?S [] = I" by (simp add: add_insert_def)
  with add_put [OF l(2), of "[]" 0 op "si_len n"] j
  have S: "sections_ok I ?S" "same_edits (edits_of I 0 ?S) (edits_of I 0 S @ [Put (si_len n) []])" by simp_all
  have "op \<Longrightarrow> ?S \<noteq> [] \<and> snd (last ?S) \<noteq> None" using j by (intro add_last) auto
  then have "join_ok op ?S (iter_next n) s" using l(3) n by (auto simp: join_ok_def)
  then show "loop_ok I1 I2 ?S I op (iter_next n) s" using ok S(1) ahead(1) L by (simp add: loop_ok_def)
  show "loop_result I1 I2 S I n s r" if "loop_result I1 I2 ?S I (iter_next n) s r"
    by (rule loop_result_step [OF that S(2)]) (simp add: L composes_step(5))
qed

lemma step_inserted:
  assumes ok: "loop_ok I1 I2 S I op n s" and s: "si_len s = 0" "si_ins s \<noteq> Done" and n: "si_ins n \<noteq> Ins 0"
  defines "S1 \<equiv> add_section S 0 (case si_ins s of Ins j \<Rightarrow> Some j | _ \<Rightarrow> None) op"
  defines "J \<equiv> add_insert I S1 (iter_text I2 s)"
  shows "loop_ok I1 I2 S1 J op n (iter_next s)"
    and "loop_result I1 I2 S1 J n (iter_next s) r \<Longrightarrow> loop_result I1 I2 S I n s r"
proof -
  have l: "right_ok I2 s" "sections_ok I S" "join_ok op S n s" using ok by (simp_all add: loop_ok_def)
  obtain k where k: "si_ins s = Ins k" using l(1) s by (cases "si_ins s") (auto simp: right_ok_def rest_ok_def)
  have t: "length (iter_text I2 s) = k" "si_off s = 0" using l(1) k s(1) by (simp_all add: right_ok_def)
  have rest: "\<forall>k < length (si_rest s). section_ok I2 (si_read s + k) (si_rest s ! k)" using l(1) by (simp add: right_ok_def rest_ok_def)
  note ahead = iter_next_reads [OF rest]
  have R: "right_edits I2 s = Put 0 (iter_text I2 s) # right_edits I2 (iter_next s)" unfolding ahead(4) using s(1) k t(2) by (subst right_edits_def) simp
  have S1: "S1 = add_section S 0 (Some k) op" using k by (simp add: S1_def)
  have j: "op \<Longrightarrow> S \<noteq> [] \<and> snd (last S) \<noteq> None" using l(3) by (simp add: join_ok_def)
  have S: "sections_ok J S1" "same_edits (edits_of J 0 S1) (edits_of I 0 S @ [Put 0 (iter_text I2 s)])"
    using add_put [OF l(2) t(1) j, of op 0] by (simp_all add: S1 J_def)
  have "op \<Longrightarrow> S1 \<noteq> [] \<and> snd (last S1) \<noteq> None" unfolding S1 using j by (intro add_last) auto
  then have "join_ok op S1 n (iter_next s)" using l(3) s(1) by (auto simp: join_ok_def)
  then show "loop_ok I1 I2 S1 J op n (iter_next s)" using ok S(1) ahead(2) R by (simp add: loop_ok_def)
  show "loop_result I1 I2 S I n s r" if "loop_result I1 I2 S1 J n (iter_next s) r"
    by (rule loop_result_step [OF that S(2)]) (unfold R, rule composes_step(6))
qed

lemma step_shared:
  assumes ok: "loop_ok I1 I2 S I op n s" and n: "si_ins n \<noteq> Done" "si_ins n \<noteq> Ins 0" and s: "si_ins s \<noteq> Done" "0 < si_len s"
    and m: "m = min (iter_len2 n) (si_len s)" and et: "step_section m n s = (e, t)"
  defines "S1 \<equiv> add_section S e t op"
  defines "J \<equiv> add_insert I S1 (step_text I1 I2 m n s)"
  defines "inside \<equiv> (case si_ins n of Ins i \<Rightarrow> m < i | _ \<Rightarrow> False) \<or> (case si_ins s of Ins j \<Rightarrow> m < si_len s | _ \<Rightarrow> False)"
  shows "loop_ok I1 I2 S1 J (inside \<and> (op \<or> length S < length S1)) (forward2 m n) (forward m s)"
    and "loop_result I1 I2 S1 J (forward2 m n) (forward m s) r \<Longrightarrow> loop_result I1 I2 S I n s r"
proof -
  have l: "left_ok I1 n" "right_ok I2 s" "sections_ok I S" "join_ok op S n s" "edits_out (left_edits I1 n) = edits_length (right_edits I2 s)"
    using ok by (simp_all add: loop_ok_def)
  note ahead = step_ahead [OF l(1) n l(2) s m l(5)]
  have ml: "m \<le> iter_len2 n" using m by simp
  have j: "op \<Longrightarrow> S \<noteq> [] \<and> snd (last S) \<noteq> None" using l(4) by (simp add: join_ok_def)
  have written: "sections_ok J S1 \<and> same_edits (edits_of J 0 S1) (edits_of I 0 S @ [step_edit I1 I2 m n s])"
  proof (cases t)
    case None
    then have u: "si_ins n = Unchanged" "si_ins s = Unchanged" using et n(1) s(1) by (auto simp: step_section_def split: iter_ins.splits)
    then have "\<not> op" using l(4) by (simp add: join_ok_def)
    moreover have "step_text I1 I2 m n s = []" using u l(2) by (simp add: step_text_def right_ok_def rest_ok_def)
    then have "J = I" by (simp add: J_def add_insert_def)
    ultimately show ?thesis using add_keep [OF l(3), of e] None by (simp add: S1_def step_edit_def et)
  next
    case (Some i)
    note len = step_edit_length [OF l(1,2) n(1) s(1) ml et [unfolded Some]]
    show ?thesis using add_put [OF l(3) len j, of op e] Some by (simp add: S1_def J_def step_edit_def et)
  qed
  let ?op = "inside \<and> (op \<or> length S < length S1)"
  have "join_ok ?op S1 (forward2 m n) (forward m s)"
  proof (cases ?op)
    case True
    then have "t \<noteq> None" using et by (auto simp: inside_def step_section_def split: iter_ins.splits)
    then have "S1 \<noteq> [] \<and> snd (last S1) \<noteq> None" unfolding S1_def using True j by (intro add_last) (auto simp: S1_def)
    moreover have "(\<exists>i. si_ins (forward2 m n) = Ins i \<and> 0 < i) \<or> (\<exists>j. si_ins (forward m s) = Ins j) \<and> 0 < si_len (forward m s)"
      using True by (auto simp: inside_def forward2_def forward_def split: iter_ins.splits)
    ultimately show ?thesis by (simp add: join_ok_def)
  qed (auto simp: join_ok_def)
  then show "loop_ok I1 I2 S1 J ?op (forward2 m n) (forward m s)" using written ahead by (simp add: loop_ok_def)
  show "loop_result I1 I2 S I n s r" if "loop_result I1 I2 S1 J (forward2 m n) (forward m s) r"
    by (rule loop_result_step [OF that written [THEN conjunct2]]) (rule step_composes [OF l(1) n l(2) s m])
qed

lemma compose_from_result:
  "loop_ok I1 I2 S I op n s \<Longrightarrow> loop_result I1 I2 S I n s (compose_from I1 I2 S I op n s)"
proof (induction I1 I2 S I op n s rule: compose_from.induct)
  case (1 I1 I2 S I op n s)
  have l: "left_ok I1 n" "right_ok I2 s" "sections_ok I S" "edits_out (left_edits I1 n) = edits_length (right_edits I2 s)"
    using 1(4) by (simp_all add: loop_ok_def)
  consider (over) "si_ins n = Done \<and> si_ins s = Done"
    | (deleted) "\<not> (si_ins n = Done \<and> si_ins s = Done)" "si_ins n = Ins 0"
    | (inserted) "\<not> (si_ins n = Done \<and> si_ins s = Done)" "si_ins n \<noteq> Ins 0" "si_len s = 0 \<and> si_ins s \<noteq> Done"
    | (shared) "\<not> (si_ins n = Done \<and> si_ins s = Done)" "si_ins n \<noteq> Ins 0" "\<not> (si_len s = 0 \<and> si_ins s \<noteq> Done)"
    by blast
  then show ?case
  proof cases
    case over
    then show ?thesis using over l left_done [OF l(1)] right_done [OF l(2)] composes_Nil
      by (subst compose_from.simps) (auto simp: loop_result_def change_ok_def set_edits_def intro!: exI [of _ "[]"])
  next
    case deleted
    then have "compose_from I1 I2 S I op n s = compose_from I1 I2 (add_section S (si_len n) (Some 0) op) I op (iter_next n) s"
      by (subst compose_from.simps) simp
    then show ?thesis using step_deleted(2) [OF 1(4) deleted(2) 1(1) [OF deleted step_deleted(1) [OF 1(4) deleted(2)]]] by simp
  next
    case inserted
    note s = inserted(3) [THEN conjunct1] inserted(3) [THEN conjunct2]
    show ?thesis using step_inserted(2) [OF 1(4) s inserted(2) 1(2) [OF inserted refl step_inserted(1) [OF 1(4) s inserted(2)]]] inserted
      by (subst compose_from.simps) (simp add: Let_def)
  next
    case shared
    have nd: "si_ins n \<noteq> Done \<and> si_ins s \<noteq> Done"
    proof (rule ccontr)
      assume "\<not> ?thesis"
      then have "left_edits I1 n = [] \<or> right_edits I2 s = []" using left_done [OF l(1)] right_done [OF l(2)] by blast
      then show False using l shared
        by (cases "si_ins n"; cases "si_ins s") (auto simp: left_edits_def right_edits_def left_ok_def right_ok_def rest_ok_def)
    qed
    then have s: "0 < si_len s" using shared(3) by simp
    let ?m = "min (iter_len2 n) (si_len s)"
    obtain e t where et: "step_section ?m n s = (e, t)" by (rule prod.exhaust)
    note step = step_shared [OF 1(4) _ shared(2) _ s refl et]
    have c: "\<not> (si_ins n = Done \<or> si_ins s = Done)" using nd by simp
    show ?thesis using step(2) [OF _ _ 1(3) [OF shared c refl et [symmetric] refl refl refl refl step(1)]] nd shared et
      by (subst compose_from.simps) (simp add: Let_def)
  qed
qed

section \<open>What applying, inverting and composing changes do to a document\<close>

text \<open>\<open>w\<close> characters of \<open>d\<close> are waiting to be replaced by \<open>y\<close>; \<open>P\<close> is what has been written.\<close>

lemma changed_ranges_splice:
  fixes P d y :: string
  assumes "\<forall>j < length S. section_ok I (k + j) (S ! j)"
    and "length P = v" and "length d = w + old_length S"
    and "op = Some ((u, u + w), (v, v + length y), y) \<or> op = None \<and> w = 0 \<and> y = []"
  shows "fold splice (changed_ranges_from I k (u + w) (v + length y) S op) (P @ d) = P @ y @ run_edits (edits_of I k S) (drop w d)"
  using assms
proof (induction S arbitrary: k P v d w u y op)
  case Nil
  then show ?case by (auto simp: splice_def old_length_def)
next
  case (Cons s S)
  obtain n t where s: "s = (n, t)" by (rule prod.exhaust)
  have ok: "section_ok I k (n, t)" "\<forall>j < length S. section_ok I (Suc k + j) (S ! j)"
    using Cons.prems(1) [rule_format, of 0] Cons.prems(1) [rule_format, of "Suc j" for j] by (simp_all add: s)
  have len: "length d = w + n + old_length S" using Cons.prems(3) by (simp add: s old_length_def)
  show ?case
  proof (cases t)
    case None
    let ?P = "P @ y @ take n (drop w d)"
    have "length ?P = v + length y + n" using Cons.prems(2) len by simp
    from Cons.IH [OF ok(2) this, where d = "drop (w + n) d" and w = 0 and u = "u + w + n" and y = "[]" and op = None] len
    have ih: "fold splice (changed_ranges_from I (Suc k) (u + w + n) (v + length y + n) S None) (?P @ drop (w + n) d)
        = ?P @ run_edits (edits_of I (Suc k) S) (drop (w + n) d)" by simp
    have d: "drop w d = take n (drop w d) @ drop (w + n) d" by (metis append_take_drop_id drop_drop add.commute)
    have "fold splice (case op of None \<Rightarrow> [] | Some r \<Rightarrow> [r]) (P @ d) = P @ y @ drop w d"
      using Cons.prems(2,4) by (auto simp: splice_def)
    also have "\<dots> = ?P @ drop (w + n) d" by (subst d) simp
    finally show ?thesis using ih by (simp add: s None edit_of_def add.assoc add.commute [of n])
  next
    case (Some i)
    let ?x = "inserted_at I k"
    have x: "(if i = 0 then [] else ?x) = ?x" "length ?x = i" using ok(1) Some by (auto simp: section_ok_def)
    have "fold splice (changed_ranges_from I (Suc k) (u + (w + n)) (v + length (y @ ?x)) S
        (Some ((u, u + (w + n)), (v, v + length (y @ ?x)), y @ ?x))) (P @ d)
      = P @ (y @ ?x) @ run_edits (edits_of I (Suc k) S) (drop (w + n) d)"
      using Cons.IH [OF ok(2) Cons.prems(2)] len by blast
    then show ?thesis using Cons.prems(4) x(2) by (auto simp: s Some x(1) Let_def edit_of_def add.assoc add.commute [of n])
  qed
qed

lemma apply_change_edits:
  assumes "change_ok c"
  shows "apply_change c d = (if old_length (cs_sections c) \<noteq> length d then None else Some (run_edits (set_edits c) d))"
  using changed_ranges_splice [of "cs_sections c" "cs_inserted c" 0 "[]" 0 d 0 None 0 "[]"] assms
  by (auto simp: apply_change_def changed_ranges_def set_edits_def change_ok_def sections_ok_def)

lemma edits_out_of:
  "\<forall>j < length S. section_ok I (k + j) (S ! j) \<Longrightarrow> edits_out (edits_of I k S) = new_length S"
proof (induction S arbitrary: k)
  case (Cons s S)
  have "section_ok I k s" "\<forall>j < length S. section_ok I (Suc k + j) (S ! j)"
    using Cons.prems [rule_format, of 0] Cons.prems [rule_format, of "Suc j" for j] by simp_all
  with Cons.IH [of "Suc k"] show ?case by (cases s) (auto simp: new_length_def edit_of_def section_ok_def split: option.splits)
qed (simp add: new_length_def)

lemma change_out: "change_ok c \<Longrightarrow> edits_out (set_edits c) = new_length (cs_sections c)"
  using edits_out_of [of "cs_sections c" "cs_inserted c" 0] by (simp add: change_ok_def sections_ok_def set_edits_def)

lemma change_length: "edits_length (set_edits c) = old_length (cs_sections c)"
  by (simp add: set_edits_def edits_of_length)

lemma apply_change_length: "\<lbrakk>change_ok c; apply_change c d = Some d'\<rbrakk> \<Longrightarrow> length d' = new_length (cs_sections c)"
  using run_edits_length [of d "set_edits c"] by (auto simp: apply_change_edits change_out change_length split: if_splits)

lemma empty_change:
  assumes "change_is_empty c" and "length d = old_length (cs_sections c)"
  shows "run_edits (set_edits c) d = d" "new_length (cs_sections c) = old_length (cs_sections c)"
  using assms by (auto simp: change_is_empty_def set_edits_def old_length_def new_length_def edit_of_def
    split: list.splits prod.splits option.splits)

lemma compose_result:
  assumes c: "change_ok c" "change_ok c2" and l: "new_length (cs_sections c) = old_length (cs_sections c2)"
  shows "\<exists>r. compose_changes c c2 = Some r \<and> change_ok r \<and> composes (set_edits r) (set_edits c) (set_edits c2)"
proof -
  have out: "length (run_edits (set_edits c) d) = old_length (cs_sections c2)" if "length d = old_length (cs_sections c)" for d
    using run_edits_length [of d "set_edits c"] that l c(1) by (simp add: change_out change_length)
  consider (left) "change_is_empty c" | (right) "\<not> change_is_empty c" "change_is_empty c2" | (both) "\<not> change_is_empty c" "\<not> change_is_empty c2"
    by blast
  then show ?thesis
  proof cases
    case left
    then show ?thesis using c(2) l empty_change [OF left, of d for d] empty_change(2) [OF left, of "replicate (old_length (cs_sections c)) (CHR ''x'')"]
      by (simp add: compose_changes_def composes_def change_length)
  next
    case right
    then show ?thesis using c(1) out empty_change(1) [OF right(2)] by (simp add: compose_changes_def composes_def change_length)
  next
    case both
    let ?I = "cs_inserted c" and ?J = "cs_inserted c2" and ?n = "iter_start (cs_sections c)" and ?s = "iter_start (cs_sections c2)"
    note n = iter_start_reads [OF c(1) [unfolded change_ok_def]] and s = iter_start_reads [OF c(2) [unfolded change_ok_def]]
    have "loop_ok ?I ?J [] [] False ?n ?s"
      using n s change_out [OF c(1)] change_length [of c2] l by (simp add: loop_ok_def join_ok_def set_edits_def)
    from compose_from_result [OF this] obtain r X where r: "compose_from ?I ?J [] [] False ?n ?s = Some r" "change_ok r"
        "composes X (set_edits c) (set_edits c2)" "same_edits (set_edits r) X"
      using n s by (auto simp: loop_result_def set_edits_def)
    then have "composes (set_edits r) (set_edits c) (set_edits c2)" by (simp add: composes_def same_edits_def)
    then show ?thesis using r both by (simp add: compose_changes_def)
  qed
qed

text \<open>
  C23. Two changes of which the second starts from the length the first leaves can be composed, and the composed
  change, in order again, does to every document of the first one's length what the first and then the second do.
\<close>

theorem compose_applies:
  assumes "change_ok c" and "change_ok c2" and "new_length (cs_sections c) = old_length (cs_sections c2)"
  shows "\<exists>r. compose_changes c c2 = Some r \<and> change_ok r \<and> old_length (cs_sections r) = old_length (cs_sections c)
    \<and> (\<forall>d. apply_change r d = Option.bind (apply_change c d) (apply_change c2))"
proof -
  obtain r where r: "compose_changes c c2 = Some r" "change_ok r" "composes (set_edits r) (set_edits c) (set_edits c2)"
    using compose_result [OF assms] by blast
  then have o: "old_length (cs_sections r) = old_length (cs_sections c)" by (simp add: composes_def change_length)
  have "apply_change r d = Option.bind (apply_change c d) (apply_change c2)" for d
    using r(3) o run_edits_length [of d "set_edits c"]
    by (auto simp: apply_change_edits assms r(2) composes_def change_length change_out)
  then show ?thesis using r o by blast
qed

theorem compose_applies_witness:
  "\<exists>r. compose_changes \<lparr>cs_sections = [(2, None), (1, Some 2), (1, None)], cs_inserted = [[], ''XY'']\<rparr>
      \<lparr>cs_sections = [(1, None), (2, Some 1), (2, None)], cs_inserted = [[], ''Z'']\<rparr> = Some r \<and> apply_change r ''abcd'' = Some ''aZYd''"
proof -
  let ?c = "\<lparr>cs_sections = [(2, None), (1, Some 2), (1, None)], cs_inserted = [[], ''XY'']\<rparr>"
  let ?d = "\<lparr>cs_sections = [(1, None), (2, Some 1), (2, None)], cs_inserted = [[], ''Z'']\<rparr>"
  have "change_ok ?c" "change_ok ?d" "new_length (cs_sections ?c) = old_length (cs_sections ?d)" by code_simp+
  from compose_applies [OF this] obtain r where "compose_changes ?c ?d = Some r"
    "apply_change r ''abcd'' = Option.bind (apply_change ?c ''abcd'') (apply_change ?d)" by blast
  moreover have "Option.bind (apply_change ?c ''abcd'') (apply_change ?d) = Some ''aZYd''" by code_simp
  ultimately show ?thesis by simp
qed

section \<open>Undoing a change\<close>

fun undo_edits :: "edit list \<Rightarrow> string \<Rightarrow> edit list" where
  "undo_edits [] d = []"
| "undo_edits (Keep n # es) d = Keep n # undo_edits es (drop n d)"
| "undo_edits (Put n x # es) d = Put (length x) (take n d) # undo_edits es (drop n d)"

lemma run_undo: "length d = edits_length es \<Longrightarrow> run_edits (undo_edits es d) (run_edits es d) = d"
  by (induction es d rule: run_edits.induct) simp_all

lemma edits_length_undo: "length d = edits_length es \<Longrightarrow> edits_length (undo_edits es d) = edits_out es"
  by (induction es d rule: run_edits.induct) simp_all

lemma invert_from_texts:
  assumes "length I \<le> k"
  shows "case invert_from d k p S I of (S1, J) \<Rightarrow> length S1 = length S \<and> length J \<le> k + length S \<and> (\<forall>j < k. inserted_at J j = inserted_at I j)"
  using assms
proof (induction S arbitrary: k p I)
  case (Cons s S)
  obtain n t where s: "s = (n, t)" by (rule prod.exhaust)
  show ?case
  proof (cases t)
    case None
    then show ?thesis using Cons.IH [of I "Suc k" "p + n"] Cons.prems s by (auto split: prod.splits)
  next
    case (Some i)
    let ?I = "I @ replicate (k - length I) [] @ [if n = 0 then [] else slice p (p + n) d]"
    have "length ?I = Suc k" "\<forall>j < k. inserted_at ?I j = inserted_at I j" using Cons.prems by (auto simp: inserted_at_def nth_append)
    then show ?thesis using Cons.IH [of ?I "Suc k" "p + n"] s Some by (auto simp: Let_def split: prod.splits)
  qed
qed simp

lemma invert_from_edits:
  assumes "length I \<le> k" and "p + old_length S = length d" and "\<forall>j < length S. section_ok T (k + j) (S ! j)"
  shows "case invert_from d k p S I of (S1, J) \<Rightarrow>
    edits_of J k S1 = undo_edits (edits_of T k S) (drop p d) \<and> (\<forall>j < length S1. section_ok J (k + j) (S1 ! j))"
  using assms
proof (induction S arbitrary: k p I)
  case (Cons s S)
  obtain n t where s: "s = (n, t)" by (rule prod.exhaust)
  have ok: "section_ok T k (n, t)" "\<forall>j < length S. section_ok T (Suc k + j) (S ! j)"
    using Cons.prems(3) [rule_format, of 0] Cons.prems(3) [rule_format, of "Suc j" for j] by (simp_all add: s)
  have len: "p + n + old_length S = length d" using Cons.prems(2) by (simp add: s old_length_def)
  define I0 where "I0 = (case t of None \<Rightarrow> I | Some i \<Rightarrow> I @ replicate (k - length I) [] @ [if n = 0 then [] else slice p (p + n) d])"
  have I0: "length I0 \<le> Suc k" "inserted_at I0 k = (case t of None \<Rightarrow> [] | Some i \<Rightarrow> take n (drop p d))"
    using Cons.prems(1) by (auto simp: I0_def inserted_at_def nth_append slice_def split: option.splits)
  obtain S1 J where inv: "invert_from d (Suc k) (p + n) S I0 = (S1, J)" by (rule prod.exhaust)
  have rest: "edits_of J (Suc k) S1 = undo_edits (edits_of T (Suc k) S) (drop (p + n) d)"
      "\<forall>j < length S1. section_ok J (Suc k + j) (S1 ! j)" and J: "inserted_at J k = inserted_at I0 k"
    using Cons.IH [OF I0(1) len ok(2)] invert_from_texts [OF I0(1), where d = d and p = "p + n" and S = S] by (simp_all add: inv)
  let ?s = "case t of None \<Rightarrow> (n, None) | Some i \<Rightarrow> (i, Some n)"
  have e: "invert_from d k p (s # S) I = (?s # S1, J)" using inv by (cases t; cases "n = 0") (simp_all add: s I0_def)
  have h: "edits_of J k (?s # S1) = undo_edits (edits_of T k (s # S)) (drop p d)"
    using rest(1) J I0(2) ok(1) by (auto simp: s edit_of_def section_ok_def add.commute split: option.splits)
  have "section_ok J k ?s" using J I0(2) ok(1) len by (auto simp: section_ok_def split: option.splits)
  then have "\<forall>j < length (?s # S1). section_ok J (k + j) ((?s # S1) ! j)" using rest(2) by (simp add: nth_Cons split: nat.splits)
  with h show ?case by (simp only: e prod.case)
qed simp

lemma invert_change_edits:
  assumes "change_ok c" and "length d = old_length (cs_sections c)"
  shows "change_ok (invert_change c d)" "set_edits (invert_change c d) = undo_edits (set_edits c) d"
  using invert_from_edits [of "[]" 0 0 "cs_sections c" d "cs_inserted c"] invert_from_texts [where I = "[]" and k = 0 and p = 0 and d = d and S = "cs_sections c"] assms
  by (simp_all add: invert_change_def change_ok_def sections_ok_def set_edits_def split: prod.splits)

text \<open>
  C24. A change turned round with the document it was made for is in order, and undoes it: applied to the document
  behind the change it gives the document before it.
\<close>

theorem invert_restores:
  assumes "change_ok c" and "apply_change c d = Some d'"
  shows "change_ok (invert_change c d) \<and> apply_change (invert_change c d) d' = Some d"
proof -
  have d: "length d = old_length (cs_sections c)" "d' = run_edits (set_edits c) d"
    using assms(2) by (auto simp: apply_change_edits [OF assms(1)] split: if_splits)
  note inv = invert_change_edits [OF assms(1) d(1)]
  have "old_length (cs_sections (invert_change c d)) = length d'"
    using change_length [of "invert_change c d"] edits_length_undo [of d "set_edits c"] run_edits_length [of d "set_edits c"] inv(2) d
    by (simp add: change_length)
  then show ?thesis using inv run_undo [of d "set_edits c"] d by (simp add: apply_change_edits change_length)
qed

theorem invert_restores_witness:
  "apply_change (invert_change \<lparr>cs_sections = [(1, None), (2, Some 1), (1, Some 2)], cs_inserted = [[], ''X'', ''YZ'']\<rparr> ''abcd'') ''aXYZ''
    = Some ''abcd''"
proof -
  let ?c = "\<lparr>cs_sections = [(1, None), (2, Some 1), (1, Some 2)], cs_inserted = [[], ''X'', ''YZ'']\<rparr>"
  have "change_ok ?c" "apply_change ?c ''abcd'' = Some ''aXYZ''" by code_simp+
  from invert_restores [OF this] show ?thesis by simp
qed

section \<open>Where positions go\<close>

lemma old_length_simps: "old_length [] = 0" "old_length ((n, t) # S) = n + old_length S"
  by (simp_all add: old_length_def)

lemma map_pos_from_some: "a \<le> p \<Longrightarrow> map_pos_from p bf a b S = None \<longleftrightarrow> a + old_length S < p"
proof (induction S arbitrary: a b)
  case (Cons s S)
  obtain n t where s: "s = (n, t)" by (rule prod.exhaust)
  show ?case using Cons.prems Cons.IH [of "a + n"] by (cases t) (auto simp: s old_length_simps)
qed (simp add: old_length_simps)

lemma map_pos_from_bounds: "\<lbrakk>a \<le> p; map_pos_from p bf a b S = Some q\<rbrakk> \<Longrightarrow> b \<le> q \<and> q \<le> b + new_length S"
proof (induction S arbitrary: a b)
  case (Cons s S)
  obtain n t where s: "s = (n, t)" by (rule prod.exhaust)
  show ?case using Cons.prems Cons.IH [of "a + n" "b + n"] Cons.IH [of "a + n" "b + i" for i]
    by (cases t) (force simp: s new_length_def split: if_splits)+
qed (simp split: if_splits)

lemma map_pos_from_mono:
  "\<lbrakk>a \<le> p; p \<le> p'; map_pos_from p bf a b S = Some q; map_pos_from p' bf a b S = Some q'\<rbrakk> \<Longrightarrow> q \<le> q'"
proof (induction S arbitrary: a b)
  case (Cons s S)
  obtain n t where s: "s = (n, t)" by (rule prod.exhaust)
  show ?case
  proof (cases t)
    case None
    then show ?thesis using Cons.prems Cons.IH [of "a + n" "b + n"] map_pos_from_bounds [of "a + n" p' bf "b + n" S q']
      by (auto simp: s split: if_splits)
  next
    case (Some i)
    then show ?thesis using Cons.prems Cons.IH [of "a + n" "b + i"] map_pos_from_bounds [of "a + n" p' bf "b + i" S q']
      by (auto simp: s split: if_splits)
  qed
qed (simp split: if_splits)

text \<open>
  A position maps exactly when it lies in the old document; then the result lies in the new one, and the order
  of positions is kept.
\<close>

lemma positions_map_in_order:
  assumes "p \<le> p'" and "p' \<le> old_length (cs_sections c)"
  shows "\<exists>q q'. map_pos c p bf = Some q \<and> map_pos c p' bf = Some q' \<and> q \<le> q' \<and> q' \<le> new_length (cs_sections c)
    \<and> map_pos c (Suc (old_length (cs_sections c))) bf = None"
proof -
  obtain q where q: "map_pos c p bf = Some q" using map_pos_from_some [of 0 p bf 0 "cs_sections c"] assms by (auto simp: map_pos_def)
  obtain q' where q': "map_pos c p' bf = Some q'" using map_pos_from_some [of 0 p' bf 0 "cs_sections c"] assms by (auto simp: map_pos_def)
  show ?thesis using q q' map_pos_from_mono [of 0 p p' bf 0 "cs_sections c"] map_pos_from_bounds [of 0 p' bf 0 "cs_sections c"] assms
      map_pos_from_some [of 0 "Suc (old_length (cs_sections c))" bf 0 "cs_sections c"] by (auto simp: map_pos_def)
qed

text \<open>A character that a section keeps.\<close>

fun kept_at :: "change_section list \<Rightarrow> nat \<Rightarrow> bool" where
  "kept_at [] p = False"
| "kept_at ((n, t) # S) p = (if p < n then t = None else kept_at S (p - n))"

lemma kept_character:
  assumes "\<forall>j < length S. section_ok I (k + j) (S ! j)" and "p < length d" and "kept_at S p" and "length d = old_length S"
  shows "\<exists>q. map_pos_from (a + p) False a b S = Some (b + q) \<and> q < new_length S \<and> run_edits (edits_of I k S) d ! q = d ! p"
  using assms
proof (induction S arbitrary: k p d a b)
  case (Cons s S)
  obtain n t where s: "s = (n, t)" by (rule prod.exhaust)
  have ok: "section_ok I k (n, t)" "\<forall>j < length S. section_ok I (Suc k + j) (S ! j)"
    using Cons.prems(1) [rule_format, of 0] Cons.prems(1) [rule_format, of "Suc j" for j] by (simp_all add: s)
  show ?case
  proof (cases "p < n")
    case True
    then have "t = None" using Cons.prems(3) s by simp
    then show ?thesis using True Cons.prems(2) by (auto simp: s edit_of_def nth_append new_length_def)
  next
    case False
    let ?m = "case t of None \<Rightarrow> n | Some i \<Rightarrow> i"
    have "length (drop n d) = old_length S" "kept_at S (p - n)" "p - n < length (drop n d)"
      using Cons.prems False by (auto simp: s old_length_def)
    from Cons.IH [OF ok(2) this(3,2,1), of "a + n" "b + ?m"] False obtain q where
      q: "map_pos_from (a + p) False (a + n) (b + ?m) S = Some (b + ?m + q)" "run_edits (edits_of I (Suc k) S) (drop n d) ! q = d ! p"
      "q < new_length S"
      using Cons.prems(2) by (auto simp: add.assoc)
    have "n \<le> length d" using Cons.prems(4) by (simp add: s old_length_def)
    then have "run_edits (edits_of I k (s # S)) d ! (?m + q) = d ! p"
      using q(2) ok(1) by (auto simp: s edit_of_def section_ok_def nth_append split: option.splits)
    moreover have "map_pos_from (a + p) False a b (s # S) = Some (b + (?m + q))"
      using q(1) False by (auto simp: s add.assoc split: option.splits)
    moreover have "?m + q < new_length (s # S)" using q(3) by (simp add: s new_length_def)
    ultimately show ?thesis by blast
  qed
qed simp



end
