(* ===== verification/Change_Map.thy ===== *)
theory Change_Map
  imports Change_Set
begin

text \<open>
  The changes of the code editor moved over others (\<open>public/js/filament/forms/components/code-editor.js\<close>, line 4:
  \<open>map\<close> with \<open>Fs\<close>) and made from specifications (\<open>of\<close>). The first theorems say that a change always maps over
  another one of the same document, and that what comes out is in order and starts where the other one ends.
\<close>

section \<open>Mapping over a change\<close>

text \<open>
  The inner loop of \<open>Fs\<close> for what the other change replaces: \<open>l\<close> characters to go, \<open>r\<close> the section whose text has been
  written last. The script's loop does not end when the sections are used up before: that is \<open>None\<close>.
\<close>

definition replaces :: "section_iter \<Rightarrow> bool" where
  "replaces it = (case si_ins it of Ins i \<Rightarrow> True | _ \<Rightarrow> False)"

definition ins_length :: "section_iter \<Rightarrow> nat" where
  "ins_length it = (case si_ins it of Ins i \<Rightarrow> i | _ \<Rightarrow> 0)"

lemma replaces_alive: "replaces s \<Longrightarrow> si_ins s \<noteq> Done"
  by (auto simp: replaces_def)

lemma forward_some:
  assumes "si_ins s \<noteq> Done" and "l \<noteq> 0" and "c = min (si_len s) l"
  shows "iter_size (forward c s) + (l - c) < iter_size s + l"
proof (cases "c = 0")
  case True
  then show ?thesis using assms forward_size [of s 0] by auto
next
  case False
  then show ?thesis using assms forward_size_le [of s c] by auto
qed

function map_deleted :: "string list \<Rightarrow> change_section list \<Rightarrow> string list \<Rightarrow> int \<Rightarrow> nat \<Rightarrow> section_iter
    \<Rightarrow> (change_section list \<times> string list \<times> int \<times> section_iter) option" where
  "map_deleted T S I r l s =
     (if l = 0 then Some (S, I, r, s)
      else if si_ins s = Done then None
      else
        (let c = min (si_len s) l; new = replaces s \<and> r < int (si_read s) \<and> si_len s \<le> c;
             S1 = (if new then add_section S 0 (Some (ins_length s)) False else S)
         in map_deleted T S1 (if new then add_insert I S1 (iter_text T s) else I) (if new then int (si_read s) else r)
              (l - c) (forward c s)))"
  by pat_completeness auto
termination
proof (relation "measure (\<lambda>(T, S, I, r, l, s). iter_size s + l)", goal_cases)
  case (2 T S I r l s x xa xb)
  then show ?case using forward_some [OF 2(2,1,3)] by simp
qed simp

declare map_deleted.simps [simp del]

text \<open>The inner loop for what this change replaces: how much of it the other one keeps.\<close>

function map_passed :: "nat \<Rightarrow> nat \<Rightarrow> section_iter \<Rightarrow> nat \<times> nat \<times> section_iter" where
  "map_passed l c a =
     (if c = 0 then (l, c, a)
      else if si_ins a = Unchanged then (let h = min c (si_len a) in map_passed (l + h) (c - h) (forward h a))
      else if si_ins a = Ins 0 \<and> si_len a < c then map_passed l (c - si_len a) (iter_next a)
      else (l, c, a))"
  by pat_completeness auto
termination
proof (relation "measure (\<lambda>(l, c, a). iter_size a + c)", goal_cases)
  case (2 l c a h)
  then show ?case using forward_some [of a c h] by (simp add: min.commute)
next
  case (3 l c a)
  then show ?case using iter_next_size [of a] by simp
qed simp

declare map_passed.simps [simp del]

lemma map_deleted_size: "map_deleted T S I r l s = Some (S1, I1, r1, s1) \<Longrightarrow> iter_size s1 \<le> iter_size s"
proof (induction T S I r l s rule: map_deleted.induct)
  case (1 T S I r l s)
  show ?case
  proof (cases "l = 0 \<or> si_ins s = Done")
    case True
    then show ?thesis using 1(2) map_deleted.simps [of T S I r l s] by (auto split: if_splits)
  next
    case False
    have "iter_size (forward (min (si_len s) l) s) \<le> iter_size s" using forward_size_le False by simp
    moreover have "iter_size s1 \<le> iter_size (forward (min (si_len s) l) s)"
      by (rule 1(1) [OF _ _ refl refl refl]) (use 1(2) map_deleted.simps [of T S I r l s] False in \<open>simp_all add: Let_def\<close>)
    ultimately show ?thesis by linarith
  qed
qed

lemma map_passed_size:
  "map_passed l c a = (l1, c1, a1) \<Longrightarrow> iter_size a1 \<le> iter_size a \<and> c1 \<le> c
    \<and> (si_ins a = Unchanged \<and> 0 < c \<longrightarrow> iter_size a1 < iter_size a \<or> c1 < c)"
proof (induction l c a rule: map_passed.induct)
  case (1 l c a)
  show ?case
  proof (cases "c \<noteq> 0 \<and> (si_ins a = Unchanged \<or> si_ins a = Ins 0 \<and> si_len a < c)")
    case False
    then have "map_passed l c a = (l, c, a)" by (subst map_passed.simps) auto
    then show ?thesis using 1(3) False by auto
  next
    case True
    then consider (kept) "si_ins a = Unchanged" | (deleted) "si_ins a = Ins 0" "si_len a < c" by blast
    then show ?thesis
    proof cases
      case kept
      let ?h = "min c (si_len a)"
      have "map_passed (l + ?h) (c - ?h) (forward ?h a) = (l1, c1, a1)" using 1(3) True kept map_passed.simps [of l c a] by (simp add: Let_def)
      from 1(1) [OF _ kept refl this] True have ih: "iter_size a1 \<le> iter_size (forward ?h a)" "c1 \<le> c - ?h" by auto
      have "iter_size (forward ?h a) \<le> iter_size a" using forward_size_le [of a ?h] kept by simp
      moreover have "?h = 0 \<Longrightarrow> iter_size (forward ?h a) < iter_size a" using forward_size [of a ?h] kept True by auto
      ultimately show ?thesis using ih True by (cases "?h = 0") auto
    next
      case deleted
      have "map_passed l (c - si_len a) (iter_next a) = (l1, c1, a1)" using 1(3) True deleted map_passed.simps [of l c a] by simp
      from 1(2) [OF _ _ _ this] True deleted have "iter_size a1 \<le> iter_size (iter_next a)" "c1 \<le> c" by auto
      then show ?thesis using iter_next_size [of a] deleted by simp
    qed
  qed
qed

text \<open>\<open>Fs\<close>; \<open>None\<close> is the error for changes of different lengths, or the loop that does not end.\<close>

definition other_first :: "bool \<Rightarrow> int \<Rightarrow> section_iter \<Rightarrow> section_iter \<Rightarrow> bool" where
  "other_first before r s a \<longleftrightarrow> replaces a \<and> (\<not> replaces s \<or> r = int (si_read s)
     \<or> si_off s = 0 \<and> (si_len a < si_len s \<or> si_len a = si_len s \<and> \<not> before))"

function map_over :: "string list \<Rightarrow> bool \<Rightarrow> change_section list \<Rightarrow> string list \<Rightarrow> int \<Rightarrow> section_iter \<Rightarrow> section_iter
    \<Rightarrow> change_set option" where
  "map_over T before S I r s a =
     (if si_ins s = Done \<and> si_len a \<noteq> 0 \<or> si_ins a = Done \<and> si_len s \<noteq> 0 then None
      else if si_ins s = Unchanged \<and> si_ins a = Unchanged then
        (let l = min (si_len s) (si_len a) in map_over T before (add_section S l None False) I r (forward l s) (forward l a))
      else if other_first before r s a then
        (case map_deleted T (add_section S (ins_length a) None False) I r (si_len a) s of
           None \<Rightarrow> None
         | Some (S1, I1, r1, s1) \<Rightarrow> map_over T before S1 I1 r1 s1 (iter_next a))
      else if replaces s then
        (case map_passed 0 (si_len s) a of (l, c, a1) \<Rightarrow>
           (let new = r < int (si_read s); S1 = add_section S l (Some (if new then ins_length s else 0)) False
            in map_over T before S1 (if new then add_insert I S1 (iter_text T s) else I) (int (si_read s))
                 (forward (si_len s - c) s) a1))
      else if si_ins s = Done \<and> si_ins a = Done then Some \<lparr>cs_sections = S, cs_inserted = I\<rparr>
      else None)"
  by pat_completeness auto

definition map_measure :: "int \<Rightarrow> section_iter \<Rightarrow> section_iter \<Rightarrow> nat" where
  "map_measure r s a = 2 * (iter_size s + iter_size a) + (if r = int (si_read s) then 0 else 1)"

lemma map_measure_less: "iter_size s1 + iter_size a1 < iter_size s + iter_size a \<Longrightarrow> map_measure r1 s1 a1 < map_measure r s a"
  by (simp add: map_measure_def)

lemma both_forward_size:
  assumes "si_ins s = Unchanged" "si_ins a = Unchanged" and l: "l = min (si_len s) (si_len a)"
  shows "iter_size (forward l s) + iter_size (forward l a) < iter_size s + iter_size a"
proof -
  have "iter_size (forward l s) \<le> iter_size s" "iter_size (forward l a) \<le> iter_size a" using assms forward_size_le by simp_all
  moreover have "iter_size (forward l s) < iter_size s \<or> iter_size (forward l a) < iter_size a"
    using assms forward_size [of s l] forward_size [of a l] by (cases "l = 0") (auto simp: min_def split: if_splits)
  ultimately show ?thesis by linarith
qed

lemma own_forward_measure:
  assumes s: "replaces s" and a: "\<not> other_first before r s a" "\<not> (si_ins a = Done \<and> si_len s \<noteq> 0)"
    and p: "map_passed 0 (si_len s) a = (l, c, a1)"
  shows "map_measure (int (si_read s)) (forward (si_len s - c) s) a1 < map_measure r s a"
proof -
  note size = map_passed_size [OF p]
  have sD: "si_ins s \<noteq> Done" using s by (auto simp: replaces_def)
  have le: "iter_size (forward (si_len s - c) s) \<le> iter_size s" using forward_size_le [OF sD] by simp
  show ?thesis
  proof (cases "si_len s - c = 0 \<and> si_len s \<noteq> 0")
    case False
    then have "iter_size (forward (si_len s - c) s) < iter_size s" using forward_size [OF sD, of "si_len s - c"] size by auto
    then show ?thesis using size by (intro map_measure_less) linarith
  next
    case True
    then have f: "forward (si_len s - c) s = s" by (simp add: forward_def)
    show ?thesis
    proof (cases "r = int (si_read s)")
      case True
      then have "si_ins a = Unchanged" using a \<open>si_len s - c = 0 \<and> si_len s \<noteq> 0\<close> by (auto simp: other_first_def replaces_def split: iter_ins.splits)
      then have "iter_size a1 < iter_size a" using size \<open>si_len s - c = 0 \<and> si_len s \<noteq> 0\<close> by auto
      then show ?thesis using f by (intro map_measure_less) simp
    next
      case False
      then show ?thesis using f size by (simp add: map_measure_def)
    qed
  qed
qed

termination map_over
proof (relation "measure (\<lambda>(T, before, S, I, r, s, a). map_measure r s a)", goal_cases)
  case (2 T before S I r s a l)
  then show ?case using both_forward_size [of s a l] by (auto intro: map_measure_less)
next
  case (3 T before S I r s a x S1 y I1 z r1 s1)
  have "iter_size s1 \<le> iter_size s" using 3 map_deleted_size by metis
  moreover have "iter_size (iter_next a) < iter_size a" using 3(3) iter_next_size [of a] replaces_alive by (simp add: other_first_def)
  ultimately show ?case using map_measure_less by simp
next
  case (4 T before S I r s a l y c a1 new S1)
  then show ?case using own_forward_measure [of s before r a l c a1] by auto
qed simp

declare map_over.simps [simp del]

definition map_change :: "change_set \<Rightarrow> change_set \<Rightarrow> bool \<Rightarrow> change_set option" where
  "map_change c c2 before =
     (if change_is_empty c2 then Some c
      else map_over (cs_inserted c) before [] [] (-1) (iter_start (cs_sections c)) (iter_start (cs_sections c2)))"

section \<open>Two changes of one document\<close>

text \<open>
  What both changes together make of a document, and in which order they insert. \<open>u\<close> and \<open>w\<close> characters are still to
  be deleted by sections of which the texts are written; where both changes replace what follows, the shorter section's
  text is first, and \<open>t\<close> says whose where they have one length.
\<close>

definition keep :: "nat \<Rightarrow> edit list \<Rightarrow> edit list" where
  "keep k es = (if k = 0 then es else Keep k # es)"

function merge :: "bool \<Rightarrow> nat \<Rightarrow> edit list \<Rightarrow> nat \<Rightarrow> edit list \<Rightarrow> string \<Rightarrow> string" where
  "merge t u A w B d =
     (if 0 < u \<and> 0 < w then merge t (u - min u w) A (w - min u w) B (drop (min u w) d)
      else if 0 < u then
        (case B of
           [] \<Rightarrow> []
         | Keep n # B' \<Rightarrow> merge t (u - min u n) A 0 (keep (n - min u n) B') (drop (min u n) d)
         | Put n y # B' \<Rightarrow> y @ merge t u A n B' d)
      else if 0 < w then
        (case A of
           [] \<Rightarrow> []
         | Keep n # A' \<Rightarrow> merge t 0 (keep (n - min w n) A') (w - min w n) B (drop (min w n) d)
         | Put n x # A' \<Rightarrow> x @ merge t n A' w B d)
      else
        (case (A, B) of
           (Put n x # A', Put m y # B') \<Rightarrow>
             if n < m \<or> n = m \<and> t then x @ merge t n A' 0 B d else y @ merge t 0 A m B' d
         | (Put n x # A', _) \<Rightarrow> x @ merge t n A' 0 B d
         | (_, Put m y # B') \<Rightarrow> y @ merge t 0 A m B' d
         | (Keep n # A', Keep m # B') \<Rightarrow>
             take (min n m) d @ merge t 0 (keep (n - min n m) A') 0 (keep (m - min n m) B') (drop (min n m) d)
         | _ \<Rightarrow> []))"
  by pat_completeness auto

definition edits_weight :: "edit list \<Rightarrow> nat" where
  "edits_weight es = edits_length es + length es"

lemma edits_weight_simps [simp]:
  "edits_weight [] = 0" "edits_weight (e # es) = Suc (edit_length e + edits_weight es)"
  by (simp_all add: edits_weight_def)

termination merge
  by (relation "measure (\<lambda>(t, u, A, w, B, d). u + edits_weight A + w + edits_weight B)") (auto simp: keep_def min_def)

declare merge.simps [simp del]

lemma merge_swap: "merge t u A w B d = merge (\<not> t) w B u A d"
proof (induction t u A w B d rule: merge.induct)
  case (1 t u A w B d)
  note ih = 1
  consider (skip) "0 < u" "0 < w" | (own) "0 < u" "w = 0" | (other) "u = 0" "0 < w" | (none) "u = 0" "w = 0" by auto
  then show ?case
  proof cases
    case skip
    then show ?thesis using ih(1) merge.simps [of t u A w B d] merge.simps [of "\<not> t" w B u A d] by (simp add: min.commute)
  next
    case own
    then show ?thesis using ih(2,3) merge.simps [of t u A w B d] merge.simps [of "\<not> t" w B u A d]
      by (auto split: list.split edit.split)
  next
    case other
    then show ?thesis using ih(4,5) merge.simps [of t u A w B d] merge.simps [of "\<not> t" w B u A d]
      by (auto split: list.split edit.split)
  next
    case none
    then show ?thesis using ih(6-) merge.simps [of t u A w B d] merge.simps [of "\<not> t" w B u A d]
      by (auto simp: min.commute split: list.split edit.split)
  qed
qed

section \<open>Where the loops are\<close>

text \<open>
  What the mapped change has still to do: a text that is due at once, how much it deletes of which the text is written,
  and its further sections. \<open>r\<close> is the section whose text was written last.
\<close>

definition own_view :: "string list \<Rightarrow> int \<Rightarrow> section_iter \<Rightarrow> string \<times> nat \<times> edit list" where
  "own_view T r s =
     (let E = edits_of T (si_read s) (si_rest s) in
      case si_ins s of
        Done \<Rightarrow> ([], 0, [])
      | Unchanged \<Rightarrow> ([], 0, Keep (si_len s) # E)
      | Ins i \<Rightarrow>
          if r = int (si_read s) then ([], si_len s, E)
          else if si_off s = 0 then ([], 0, Put (si_len s) (iter_text T s) # E)
          else (iter_text T s, si_len s, E))"

definition merged :: "bool \<Rightarrow> string list \<Rightarrow> int \<Rightarrow> section_iter \<Rightarrow> nat \<Rightarrow> edit list \<Rightarrow> string \<Rightarrow> string" where
  "merged t T r s w B d = (case own_view T r s of (x, u, A) \<Rightarrow> x @ merge t u A w B d)"

definition written_ok :: "int \<Rightarrow> section_iter \<Rightarrow> bool" where
  "written_ok r s \<longleftrightarrow> r \<le> int (si_read s) \<and> (r = int (si_read s) \<and> replaces s \<longrightarrow> 0 < si_len s)"

lemma replaces_iff: "replaces s \<longleftrightarrow> (\<exists>i. si_ins s = Ins i)"
  by (cases "si_ins s") (simp_all add: replaces_def)

lemma written_ok_forward:
  assumes "written_ok r s" and "m \<le> si_len s"
  shows "written_ok r (forward m s)"
  using assms by (auto simp: written_ok_def forward_def iter_next_def replaces_iff split: list.splits prod.splits if_splits)

lemma written_ok_written: "m \<le> si_len s \<Longrightarrow> written_ok (int (si_read s)) (forward m s)"
  by (auto simp: written_ok_def forward_def iter_next_def replaces_iff split: list.splits prod.splits if_splits)

lemma own_next:
  "r \<le> int (si_read s) \<Longrightarrow> own_view T r (iter_next s) = ([], 0, edits_of T (si_read s) (si_rest s))"
  by (auto simp: own_view_def iter_next_def edit_of_def iter_text_def Let_def split: list.split prod.split option.split)

lemma own_forward:
  assumes "r \<le> int (si_read s)" and "c \<le> si_len s"
  shows "si_ins s = Unchanged \<Longrightarrow> own_view T r (forward c s) = ([], 0, keep (si_len s - c) (edits_of T (si_read s) (si_rest s)))"
    and "\<lbrakk>si_ins s = Ins i; r = int (si_read s)\<rbrakk> \<Longrightarrow> own_view T r (forward c s) = ([], si_len s - c, edits_of T (si_read s) (si_rest s))"
    and "\<lbrakk>si_ins s = Ins i; r < int (si_read s); 0 < c; c < si_len s\<rbrakk>
      \<Longrightarrow> own_view T r (forward c s) = (iter_text T s, si_len s - c, edits_of T (si_read s) (si_rest s))"
proof -
  note next_view = own_next [OF assms(1), of T]
  show "si_ins s = Unchanged \<Longrightarrow> own_view T r (forward c s) = ([], 0, keep (si_len s - c) (edits_of T (si_read s) (si_rest s)))"
    using assms(2) next_view by (cases "c = si_len s") (simp_all add: forward_def keep_def, simp add: own_view_def Let_def)
  show "\<lbrakk>si_ins s = Ins i; r = int (si_read s)\<rbrakk> \<Longrightarrow> own_view T r (forward c s) = ([], si_len s - c, edits_of T (si_read s) (si_rest s))"
    using assms(2) next_view by (cases "c = si_len s") (simp_all add: forward_def, simp add: own_view_def Let_def)
  show "\<lbrakk>si_ins s = Ins i; r < int (si_read s); 0 < c; c < si_len s\<rbrakk>
      \<Longrightarrow> own_view T r (forward c s) = (iter_text T s, si_len s - c, edits_of T (si_read s) (si_rest s))"
    by (simp add: forward_def own_view_def iter_text_def Let_def)
qed

lemma forward_right:
  assumes ok: "right_ok T s" and "si_ins s \<noteq> Done" and m: "m \<le> si_len s"
  shows "right_ok T (forward m s)" "edits_length (right_edits T s) = m + edits_length (right_edits T (forward m s))"
proof -
  have "\<forall>k < length (si_rest s). section_ok T (si_read s + k) (si_rest s ! k)" using ok by (simp add: right_ok_def rest_ok_def)
  note next_s = iter_next_reads [OF this]
  have "right_ok T (forward m s) \<and> edits_length (right_edits T s) = m + edits_length (right_edits T (forward m s))"
  proof (cases "m = si_len s")
    case True
    then show ?thesis using assms(2) next_s(2,4) by (cases "si_ins s") (auto simp: forward_def right_edits_def)
  next
    case False
    then show ?thesis using assms by (cases "si_ins s") (auto simp: forward_def right_edits_def right_ok_def rest_ok_def iter_text_def)
  qed
  then show "right_ok T (forward m s)" "edits_length (right_edits T s) = m + edits_length (right_edits T (forward m s))" by blast+
qed

text \<open>One round of the loop for what the other change replaces.\<close>

lemma deleted_step:
  assumes s: "si_ins s \<noteq> Done" "written_ok r s" and pending: "replaces s \<Longrightarrow> r = int (si_read s) \<or> si_off s = 0" and l: "0 < l"
    and c: "c = min (si_len s) l" and new: "new \<longleftrightarrow> replaces s \<and> r < int (si_read s) \<and> si_len s \<le> c"
    and r1: "r1 = (if new then int (si_read s) else r)"
  shows "merged t T r s l B d = (if new then iter_text T s else []) @ merged t T r1 (forward c s) (l - c) B (drop c d)"
    and "written_ok r1 (forward c s)" and "replaces (forward c s) \<Longrightarrow> r1 = int (si_read (forward c s)) \<or> si_off (forward c s) = 0 \<or> l - c = 0"
proof -
  have r: "r \<le> int (si_read s)" and cl: "c \<le> si_len s" using s(2) c by (simp_all add: written_ok_def)
  let ?E = "edits_of T (si_read s) (si_rest s)" and ?n = "si_len s"
  show "written_ok r1 (forward c s)"
    using written_ok_forward [OF s(2) cl] written_ok_written [OF cl] new r1 c by (auto split: if_splits)
  show "replaces (forward c s) \<Longrightarrow> r1 = int (si_read (forward c s)) \<or> si_off (forward c s) = 0 \<or> l - c = 0"
    using pending new r1 c by (auto simp: forward_def iter_next_def replaces_iff min_def split: if_splits list.splits)
  show "merged t T r s l B d = (if new then iter_text T s else []) @ merged t T r1 (forward c s) (l - c) B (drop c d)"
  proof (cases "si_ins s")
    case Unchanged
    then have "\<not> new" using new by (simp add: replaces_iff)
    then show ?thesis using own_forward(1) [OF r cl Unchanged, of T] r1 c l Unchanged
      by (simp add: merged_def own_view_def Let_def merge.simps [of t 0 "Keep ?n # ?E" l] min.commute)
  next
    case (Ins i)
    show ?thesis
    proof (cases "r = int (si_read s)")
      case True
      then have "\<not> new" using new by simp
      then show ?thesis using own_forward(2) [OF r cl Ins True, of T] True r1 c l Ins s(2)
        by (simp add: merged_def own_view_def Let_def merge.simps [of t ?n ?E l] written_ok_def replaces_iff)
    next
      case False
      then have f: "r < int (si_read s)" "si_off s = 0" using r pending Ins by (simp_all add: replaces_iff)
      have first: "merged t T r s l B d = iter_text T s @ merge t ?n ?E l B d"
        using f Ins l by (simp add: merged_def own_view_def Let_def merge.simps [of t 0 "Put ?n (iter_text T s) # ?E" l])
      have skip: "merge t ?n ?E l B d = merge t (?n - c) ?E (l - c) B (drop c d)"
        using c l by (cases "?n = 0") (simp_all add: merge.simps [of t ?n ?E l])
      show ?thesis
      proof (cases new)
        case True
        then have n: "c = ?n" using new c by simp
        have "own_view T r1 (forward c s) = ([], 0, ?E)" using own_next [of r1 s T] True r1 by (simp add: forward_def n)
        then show ?thesis using first skip True n by (simp add: merged_def)
      next
        case False
        then have "c < ?n" "0 < c" using new f Ins c l by (auto simp: replaces_iff)
        then show ?thesis using own_forward(3) [OF r cl Ins f(1), of T] first skip False r1 by (simp add: merged_def)
      qed
    qed
  qed (use s(1) in simp)
qed

lemma map_deleted_result:
  assumes "sections_ok I S" and "right_ok T s" and "written_ok r s" and "l \<le> edits_length (right_edits T s)"
    and "replaces s \<Longrightarrow> r = int (si_read s) \<or> si_off s = 0 \<or> l = 0"
  shows "\<exists>S1 I1 r1 s1 x. map_deleted T S I r l s = Some (S1, I1, r1, s1) \<and> sections_ok I1 S1 \<and> right_ok T s1 \<and> written_ok r1 s1
    \<and> edits_length (right_edits T s) = l + edits_length (right_edits T s1)
    \<and> same_edits (edits_of I1 0 S1) (edits_of I 0 S @ [Put 0 x])
    \<and> (\<forall>t B d. merged t T r s l B d = x @ merged t T r1 s1 0 B (drop l d))"
  using assms
proof (induction T S I r l s rule: map_deleted.induct)
  case (1 T S I r l s)
  show ?case
  proof (cases "l = 0")
    case True
    have "same_edits (edits_of I 0 S) (edits_of I 0 S @ [Put 0 []])" by (simp add: same_edits_def run_edits_append)
    then show ?thesis using 1(2-) True by (subst map_deleted.simps) auto
  next
    case False
    have sD: "si_ins s \<noteq> Done" using 1(5) False right_done [OF 1(3)] by auto
    define c where "c = min (si_len s) l"
    define new where "new \<longleftrightarrow> replaces s \<and> r < int (si_read s) \<and> si_len s \<le> c"
    define S1 where "S1 = (if new then add_section S 0 (Some (ins_length s)) False else S)"
    define I1 where "I1 = (if new then add_insert I S1 (iter_text T s) else I)"
    define r1 where "r1 = (if new then int (si_read s) else r)"
    let ?x = "if new then iter_text T s else []"
    have len: "c \<le> si_len s" by (simp add: c_def)
    note fw = forward_right [OF 1(3) sD len]
    have "replaces s \<Longrightarrow> r = int (si_read s) \<or> si_off s = 0" using 1(6) False by simp
    note step = deleted_step [OF sD 1(4) this _ c_def new_def r1_def]
    have tx: "new \<Longrightarrow> length (iter_text T s) = ins_length s" using 1(3) by (auto simp: new_def right_ok_def replaces_iff ins_length_def)
    have S1: "sections_ok I1 S1" "same_edits (edits_of I1 0 S1) (edits_of I 0 S @ [Put 0 ?x])"
      using add_put [OF 1(2) tx, of False 0] 1(2) by (auto simp: S1_def I1_def same_edits_def run_edits_append)
    have rec: "map_deleted T S I r l s = map_deleted T S1 I1 r1 (l - c) (forward c s)"
      using False sD by (subst map_deleted.simps) (simp add: Let_def c_def new_def S1_def I1_def r1_def)
    have "l - c \<le> edits_length (right_edits T (forward c s))" using 1(5) fw(2) by linarith
    from 1(1) [OF False sD c_def new_def S1_def, folded I1_def r1_def,
        OF S1(1) fw(1) step(2) this step(3)] False
    obtain S2 I2 r2 s2 x where ih: "map_deleted T S1 I1 r1 (l - c) (forward c s) = Some (S2, I2, r2, s2)" "sections_ok I2 S2" "right_ok T s2"
      "written_ok r2 s2" "edits_length (right_edits T (forward c s)) = l - c + edits_length (right_edits T s2)"
      "same_edits (edits_of I2 0 S2) (edits_of I1 0 S1 @ [Put 0 x])"
      "\<forall>t B d. merged t T r1 (forward c s) (l - c) B d = x @ merged t T r2 s2 0 B (drop (l - c) d)" by auto
    have "same_edits (edits_of I2 0 S2) (edits_of I 0 S @ [Put 0 (?x @ x)])"
      using ih(6) S1(2) by (simp add: same_edits_def run_edits_append)
    moreover have "merged t T r s l B d = (?x @ x) @ merged t T r2 s2 0 B (drop l d)" for t B d
      using ih(7) False c_def by (simp add: step(1))
    moreover have "edits_length (right_edits T s) = l + edits_length (right_edits T s2)" using fw(2) ih(5) c_def by simp
    ultimately show ?thesis unfolding rec using ih(1-4)
      by (intro exI [of _ S2] exI [of _ I2] exI [of _ r2] exI [of _ s2] exI [of _ "?x @ x"] conjI allI) assumption+
  qed
qed

text \<open>The loop for what the mapped change replaces.\<close>

definition fresh :: "section_iter \<Rightarrow> bool" where
  "fresh a \<longleftrightarrow> (replaces a \<longrightarrow> si_off a = 0)"

lemma fresh_next: "fresh (iter_next a)"
  by (simp add: fresh_def iter_next_def split: list.split prod.split)

lemma right_next:
  assumes "right_ok J a"
  shows "right_ok J (iter_next a)" "right_edits J (iter_next a) = edits_of J (si_read a) (si_rest a)"
  using iter_next_reads [of a J] assms by (simp_all add: right_ok_def rest_ok_def)

lemma forward_unchanged:
  assumes "si_ins a = Unchanged" and "h \<le> si_len a" and "right_ok J a"
  shows "fresh (forward h a)" "right_edits J (forward h a) = keep (si_len a - h) (edits_of J (si_read a) (si_rest a))"
    "right_edits J a = Keep (si_len a) # edits_of J (si_read a) (si_rest a)"
proof -
  show "fresh (forward h a)" using assms(1) fresh_next [of a] by (auto simp: forward_def fresh_def replaces_iff)
  show "right_edits J (forward h a) = keep (si_len a - h) (edits_of J (si_read a) (si_rest a))"
    using assms right_next(2) [OF assms(3)] by (cases "h = si_len a") (simp_all add: forward_def keep_def, simp add: right_edits_def)
qed (use assms in \<open>simp add: right_edits_def\<close>)

lemma run_keep: "run_edits (keep k es) d = take k d @ run_edits es (drop k d)" "edits_length (keep k es) = k + edits_length es"
  "edits_out (keep k es) = k + edits_out es"
  by (simp_all add: keep_def)

lemma map_passed_result:
  assumes "map_passed l c a = (l1, c1, a1)" and "right_ok J a" and "fresh a"
  shows "right_ok J a1 \<and> fresh a1 \<and> l \<le> l1 \<and> c1 \<le> c \<and> edits_length (right_edits J a) = (c - c1) + edits_length (right_edits J a1)
    \<and> edits_out (right_edits J a) = (l1 - l) + edits_out (right_edits J a1)
    \<and> (\<forall>t E d. merge t c E 0 (right_edits J a) d = merge t c1 E 0 (right_edits J a1) (drop (c - c1) d))
    \<and> (\<forall>d. length d = edits_length (right_edits J a)
        \<longrightarrow> (\<exists>z. length z = l1 - l \<and> run_edits (right_edits J a) d = z @ run_edits (right_edits J a1) (drop (c - c1) d)))"
  using assms
proof (induction l c a rule: map_passed.induct)
  case (1 l c a)
  show ?case
  proof (cases "c \<noteq> 0 \<and> (si_ins a = Unchanged \<or> si_ins a = Ins 0 \<and> si_len a < c)")
    case False
    then have "map_passed l c a = (l, c, a)" by (subst map_passed.simps) auto
    then show ?thesis using 1(3-) by simp
  next
    case True
    then consider (kept) "si_ins a = Unchanged" | (deleted) "si_ins a = Ins 0" "si_len a < c" by blast
    then show ?thesis
    proof cases
      case kept
      define h where "h = min c (si_len a)"
      have h: "h \<le> si_len a" "h \<le> c" by (simp_all add: h_def)
      note fu = forward_unchanged [OF kept h(1) 1(4)]
      have rec: "map_passed (l + h) (c - h) (forward h a) = (l1, c1, a1)"
        using 1(3) True kept map_passed.simps [of l c a] by (simp add: Let_def h_def)
      have "right_ok J (forward h a)" using forward_right(1) [OF 1(4) _ h(1)] kept by simp
      note ih = 1(1) [OF True [THEN conjunct1] kept h_def rec this fu(1)]
      have m: "merge t c E 0 (right_edits J a) d = merge t (c - h) E 0 (right_edits J (forward h a)) (drop h d)" for t E d
        using True by (subst merge.simps) (simp add: fu flip: h_def)
      have "\<exists>z. length z = l1 - l \<and> run_edits (right_edits J a) d = z @ run_edits (right_edits J a1) (drop (c - c1) d)"
        if d: "length d = edits_length (right_edits J a)" for d
      proof -
        have "length (drop h d) = edits_length (right_edits J (forward h a))" using d h by (simp add: fu run_keep)
        then obtain z where z: "length z = l1 - (l + h)" "run_edits (right_edits J (forward h a)) (drop h d)
            = z @ run_edits (right_edits J a1) (drop (c - h - c1) (drop h d))" using ih True by blast
        have "run_edits (right_edits J a) d = take h d @ run_edits (right_edits J (forward h a)) (drop h d)"
          using h by (simp add: fu run_keep flip: take_add append_assoc)
        then show ?thesis using z ih True d h by (intro exI [of _ "take h d @ z"]) (auto simp: fu add.commute)
      qed
      moreover have "c1 \<le> c - h" "l + h \<le> l1" using ih by blast+
      then have "l \<le> l1" "c1 \<le> c" "h + (c - h - c1) = c - c1" "h + (l1 - (l + h)) = l1 - l" using h(2) by linarith+
      moreover have "edits_length (right_edits J a) = h + edits_length (right_edits J (forward h a))"
        "edits_out (right_edits J a) = h + edits_out (right_edits J (forward h a))" using h(1) by (simp_all add: fu run_keep)
      ultimately show ?thesis using ih m by (simp add: add.commute)
    next
      case deleted
      have rec: "map_passed l (c - si_len a) (iter_next a) = (l1, c1, a1)" using 1(3) True deleted map_passed.simps [of l c a] by simp
      note nx = right_next [OF 1(4)]
      have nil: "iter_text J a = []" using 1(4) deleted(1) by (simp add: right_ok_def)
      then have e: "right_edits J a = Put (si_len a) [] # right_edits J (iter_next a)" unfolding nx(2) using deleted(1) by (simp add: right_edits_def)
      have cond: "c \<noteq> 0" "si_ins a \<noteq> Unchanged" "si_ins a = Ins 0 \<and> si_len a < c" using True deleted by simp_all
      note ih = 1(2) [OF cond rec nx(1) fresh_next]
      have m: "merge t c E 0 (right_edits J a) d = merge t (c - si_len a) E 0 (right_edits J (iter_next a)) (drop (si_len a) d)" for t E d
        using True deleted by (cases "si_len a = 0") (simp_all add: e merge.simps [of t c E 0 "Put n [] # B" for n B] merge.simps [of t c E "si_len a"])
      have "c1 \<le> c - si_len a" using ih by blast
      then have ar: "c1 \<le> c" "si_len a + (c - (c1 + si_len a)) = c - c1" using deleted(2) by linarith+
      have "\<exists>z. length z = l1 - l \<and> run_edits (right_edits J a) d = z @ run_edits (right_edits J a1) (drop (c - c1) d)"
        if d: "length d = edits_length (right_edits J a)" for d
      proof -
        have "length (drop (si_len a) d) = edits_length (right_edits J (iter_next a))" using d by (simp add: e)
        then obtain z where z: "length z = l1 - l" "run_edits (right_edits J (iter_next a)) (drop (si_len a) d)
            = z @ run_edits (right_edits J a1) (drop (c - si_len a - c1) (drop (si_len a) d))" using ih True deleted by blast
        moreover have "c1 \<le> c - si_len a" using ih by blast
        then have "c - si_len a - c1 + si_len a = c - c1" using deleted(2) by linarith
        ultimately show ?thesis by (simp add: e)
      qed
      then show ?thesis using ih m ar by (simp add: e)
    qed
  qed
qed

section \<open>What comes out\<close>

definition map_ok :: "string list \<Rightarrow> string list \<Rightarrow> change_section list \<Rightarrow> string list \<Rightarrow> int \<Rightarrow> section_iter \<Rightarrow> section_iter \<Rightarrow> bool" where
  "map_ok T J S I r s a \<longleftrightarrow> sections_ok I S \<and> right_ok T s \<and> written_ok r s \<and> right_ok J a \<and> fresh a
     \<and> edits_length (right_edits T s) = edits_length (right_edits J a)"

definition mapped_result :: "string list \<Rightarrow> bool \<Rightarrow> string list \<Rightarrow> change_section list \<Rightarrow> string list \<Rightarrow> int \<Rightarrow> section_iter \<Rightarrow> section_iter
    \<Rightarrow> change_set option \<Rightarrow> bool" where
  "mapped_result T t J S I r s a res \<longleftrightarrow> (\<exists>c X. res = Some c \<and> change_ok c \<and> same_edits (set_edits c) (edits_of I 0 S @ X)
     \<and> edits_length X = edits_out (right_edits J a)
     \<and> (\<forall>d. length d = edits_length (right_edits J a)
         \<longrightarrow> run_edits X (run_edits (right_edits J a) d) = merged t T r s 0 (right_edits J a) d))"

lemma mapped_result_step:
  assumes "mapped_result T t J S1 I1 r1 s1 a1 res" and "same_edits (edits_of I1 0 S1) (edits_of I 0 S @ es)"
    and "edits_out (right_edits J a) = edits_length es + edits_out (right_edits J a1)"
    and "\<And>d. length d = edits_length (right_edits J a) \<Longrightarrow>
      \<exists>z d1. length d1 = edits_length (right_edits J a1) \<and> length z = edits_length es
        \<and> run_edits (right_edits J a) d = z @ run_edits (right_edits J a1) d1
        \<and> merged t T r s 0 (right_edits J a) d = run_edits es z @ merged t T r1 s1 0 (right_edits J a1) d1"
  shows "mapped_result T t J S I r s a res"
proof -
  obtain c X where c: "res = Some c" "change_ok c" "same_edits (set_edits c) (edits_of I1 0 S1 @ X)" "edits_length X = edits_out (right_edits J a1)"
    and run: "\<And>d. length d = edits_length (right_edits J a1)
         \<Longrightarrow> run_edits X (run_edits (right_edits J a1) d) = merged t T r1 s1 0 (right_edits J a1) d"
    using assms(1) by (auto simp: mapped_result_def)
  have same: "same_edits (set_edits c) (edits_of I 0 S @ es @ X)"
    using same_edits_trans [OF c(3) same_edits_append [OF assms(2) same_edits_refl [of X]]] by simp
  have take_es: "run_edits es (z @ y) = run_edits es z" if "length z = edits_length es" for z y
    using that by (induction es z rule: run_edits.induct) auto
  have "run_edits (es @ X) (run_edits (right_edits J a) d) = merged t T r s 0 (right_edits J a) d"
    if d: "length d = edits_length (right_edits J a)" for d
  proof -
    obtain z d1 where z: "length d1 = edits_length (right_edits J a1)" "length z = edits_length es"
      "run_edits (right_edits J a) d = z @ run_edits (right_edits J a1) d1"
      "merged t T r s 0 (right_edits J a) d = run_edits es z @ merged t T r1 s1 0 (right_edits J a1) d1" using assms(4) [OF d] by blast
    show ?thesis using z run [OF z(1)] by (simp add: run_edits_append take_es)
  qed
  then show ?thesis using c(1,2,4) same assms(3) unfolding mapped_result_def by (intro exI [of _ c] exI [of _ "es @ X"]) simp
qed

lemma fresh_text: "\<lbrakk>fresh a; right_ok J a; replaces a\<rbrakk>
  \<Longrightarrow> right_edits J a = Put (si_len a) (iter_text J a) # right_edits J (iter_next a) \<and> length (iter_text J a) = ins_length a"
  using right_next [of J a] by (auto simp: fresh_def replaces_iff right_edits_def right_ok_def ins_length_def)

lemma map_over_kept:
  assumes ok: "map_ok T J S I r s a" and u: "si_ins s = Unchanged" "si_ins a = Unchanged" and l: "l = min (si_len s) (si_len a)"
  shows "map_ok T J (add_section S l None False) I r (forward l s) (forward l a)"
    and "mapped_result T t J (add_section S l None False) I r (forward l s) (forward l a) res \<Longrightarrow> mapped_result T t J S I r s a res"
proof -
  have k: "sections_ok I S" "right_ok T s" "written_ok r s" "right_ok J a" "fresh a" "edits_length (right_edits T s) = edits_length (right_edits J a)"
    using ok by (simp_all add: map_ok_def)
  have ll: "l \<le> si_len s" "l \<le> si_len a" using l by simp_all
  note add = add_keep [OF k(1), of l] and fs = forward_right [OF k(2) _ ll(1)] and fa = forward_right [OF k(4) _ ll(2)]
  note fu = forward_unchanged [OF u(2) ll(2) k(4)]
  show "map_ok T J (add_section S l None False) I r (forward l s) (forward l a)"
    using add(1) fs fa fu(1) k(6) written_ok_forward [OF k(3) ll(1)] u by (simp add: map_ok_def)
  have m: "merged t T r s 0 (right_edits J a) d = take l d @ merged t T r (forward l s) 0 (right_edits J (forward l a)) (drop l d)" for d
  proof -
    have "r \<le> int (si_read s)" using k(3) by (simp add: written_ok_def)
    note o1 = own_forward(1) [OF this ll(1) u(1), of T]
    have o: "own_view T r s = ([], 0, Keep (si_len s) # edits_of T (si_read s) (si_rest s))" using u(1) by (simp add: own_view_def)
    show ?thesis by (simp add: merged_def o o1 fu merge.simps [of t 0 "Keep n # E" 0 "Keep m # B" for n E m B] flip: l)
  qed
  assume "mapped_result T t J (add_section S l None False) I r (forward l s) (forward l a) res"
  then show "mapped_result T t J S I r s a res"
  proof (rule mapped_result_step [OF _ add(2)], goal_cases)
    case 1
    then show ?case using ll by (simp add: fu run_keep)
  next
    case (2 d)
    have "run_edits (right_edits J a) d = take l d @ run_edits (right_edits J (forward l a)) (drop l d)"
      using ll by (simp add: fu run_keep flip: take_add append_assoc)
    then show ?case using 2 m [of d] ll fu by (intro exI [of _ "take l d"] exI [of _ "drop l d"]) (simp add: run_keep)
  qed
qed

lemma merge_put_first:
  assumes "u = 0 \<Longrightarrow> (case A of Put n x # A' \<Rightarrow> \<not> (n < m \<or> n = m \<and> t) | _ \<Rightarrow> True)"
  shows "merge t u A 0 (Put m y # B) d = y @ merge t u A m B d"
  using assms by (subst merge.simps) (auto split: list.splits edit.splits)

lemma merge_own_first:
  assumes "case B of Put m y # B' \<Rightarrow> n < m \<or> n = m \<and> t | _ \<Rightarrow> True"
  shows "merge t 0 (Put n x # A) 0 B d = x @ merge t n A 0 B d"
  using assms by (subst merge.simps) (auto split: list.splits edit.splits)

lemma map_over_other:
  assumes ok: "map_ok T J S I r s a" and first: "other_first t r s a"
  shows "\<exists>S1 I1 r1 s1. map_deleted T (add_section S (ins_length a) None False) I r (si_len a) s = Some (S1, I1, r1, s1)
    \<and> map_ok T J S1 I1 r1 s1 (iter_next a)
    \<and> (\<forall>res. mapped_result T t J S1 I1 r1 s1 (iter_next a) res \<longrightarrow> mapped_result T t J S I r s a res)"
proof -
  have k: "sections_ok I S" "right_ok T s" "written_ok r s" "right_ok J a" "fresh a" "edits_length (right_edits T s) = edits_length (right_edits J a)"
    using ok by (simp_all add: map_ok_def)
  have a: "replaces a" "\<not> replaces s \<or> r = int (si_read s) \<or> si_off s = 0 \<and> (si_len a < si_len s \<or> si_len a = si_len s \<and> \<not> t)"
    using first by (simp_all add: other_first_def)
  let ?y = "iter_text J a" and ?B = "right_edits J (iter_next a)" and ?m = "si_len a"
  have ra: "right_edits J a = Put ?m ?y # ?B" "length ?y = ins_length a" using fresh_text [OF k(5,4) a(1)] by simp_all
  note add = add_keep [OF k(1), of "ins_length a"]
  have le: "?m \<le> edits_length (right_edits T s)" using k(6) ra(1) by simp
  have "replaces s \<Longrightarrow> r = int (si_read s) \<or> si_off s = 0 \<or> ?m = 0" using a(2) by blast
  from map_deleted_result [OF add(1) k(2,3) le this] obtain S1 I1 r1 s1 x where
    res: "map_deleted T (add_section S (ins_length a) None False) I r ?m s = Some (S1, I1, r1, s1)" "sections_ok I1 S1" "right_ok T s1"
      "written_ok r1 s1" "edits_length (right_edits T s) = ?m + edits_length (right_edits T s1)"
      "same_edits (edits_of I1 0 S1) (edits_of I 0 (add_section S (ins_length a) None False) @ [Put 0 x])"
      "\<And>t B d. merged t T r s ?m B d = x @ merged t T r1 s1 0 B (drop ?m d)" by blast
  have next_ok: "map_ok T J S1 I1 r1 s1 (iter_next a)"
    using res(2-5) k(6) ra(1) right_next(1) [OF k(4)] fresh_next by (simp add: map_ok_def)
  have written: "same_edits (edits_of I1 0 S1) (edits_of I 0 S @ [Keep (length ?y), Put 0 x])"
    using res(6) add(2) ra(2) by (simp add: same_edits_def run_edits_append)
  have m: "merged t T r s 0 (right_edits J a) d = ?y @ merged t T r s ?m ?B d" for d
    using a(2) k(3) unfolding ra(1) merged_def
    by (auto simp: own_view_def Let_def replaces_iff written_ok_def merge_put_first split: iter_ins.splits)
  have "mapped_result T t J S I r s a rs" if "mapped_result T t J S1 I1 r1 s1 (iter_next a) rs" for rs
    using that written
  proof (rule mapped_result_step, goal_cases)
    case 1
    then show ?case by (simp add: ra(1))
  next
    case (2 d)
    then show ?case by (intro exI [of _ ?y] exI [of _ "drop ?m d"]) (simp add: ra(1) m [unfolded ra(1)] res(7))
  qed
  then show ?thesis using res(1) next_ok by blast
qed

lemma map_over_own:
  assumes ok: "map_ok T J S I r s a" and s: "replaces s" and first: "\<not> other_first t r s a"
    and p: "map_passed 0 (si_len s) a = (l, c, a1)" and new: "new \<longleftrightarrow> r < int (si_read s)"
  defines "S1 \<equiv> add_section S l (Some (if new then ins_length s else 0)) False"
  defines "I1 \<equiv> if new then add_insert I S1 (iter_text T s) else I"
  shows "map_ok T J S1 I1 (int (si_read s)) (forward (si_len s - c) s) a1"
    and "mapped_result T t J S1 I1 (int (si_read s)) (forward (si_len s - c) s) a1 res \<Longrightarrow> mapped_result T t J S I r s a res"
proof -
  have k: "sections_ok I S" "right_ok T s" "written_ok r s" "right_ok J a" "fresh a" "edits_length (right_edits T s) = edits_length (right_edits J a)"
    using ok by (simp_all add: map_ok_def)
  obtain i where i: "si_ins s = Ins i" using s by (auto simp: replaces_iff)
  have sD: "si_ins s \<noteq> Done" using i by simp
  let ?n = "si_len s" and ?E = "edits_of T (si_read s) (si_rest s)" and ?x = "if new then iter_text T s else []" and ?r1 = "int (si_read s)"
  note pass = map_passed_result [OF p k(4,5)]
  have c: "c \<le> ?n" "?n - (?n - c) = c" using pass by auto
  have le: "?n - c \<le> ?n" by simp
  note fs = forward_right [OF k(2) sD le]
  have len: "length ?x = (if new then ins_length s else 0)" using k(2) i by (simp add: right_ok_def ins_length_def)
  note add = add_put [OF k(1) len, of False l]
  have I1: "add_insert I S1 ?x = I1" by (simp add: I1_def add_insert_def)
  have written: "sections_ok I1 S1" "same_edits (edits_of I1 0 S1) (edits_of I 0 S @ [Put l ?x])"
    using add I1 unfolding S1_def by simp_all
  show "map_ok T J S1 I1 ?r1 (forward (?n - c) s) a1"
  proof -
    have "edits_length (right_edits J a) = ?n - c + edits_length (right_edits J a1)" using pass by blast
    then have "edits_length (right_edits T (forward (?n - c) s)) = edits_length (right_edits J a1)" using fs(2) k(6) by linarith
    then show ?thesis using written(1) fs(1) pass written_ok_written [OF le] by (simp add: map_ok_def)
  qed
  have v: "merged t T ?r1 (forward (?n - c) s) 0 B d = merge t c ?E 0 B d" for B d
    using own_forward(2) [OF _ le i, of ?r1 T] c by (simp add: merged_def)
  have m: "merged t T r s 0 (right_edits J a) d = ?x @ merge t ?n ?E 0 (right_edits J a) d" for d
  proof (cases new)
    case True
    show ?thesis
    proof (cases "si_off s = 0")
      case off: True
      have "case right_edits J a of Put m y # B' \<Rightarrow> ?n < m \<or> ?n = m \<and> t | _ \<Rightarrow> True"
        using first True off s new fresh_text [OF k(5,4)] by (cases "si_ins a") (auto simp: other_first_def replaces_iff right_edits_def)
      then show ?thesis using True off i new by (simp add: merged_def own_view_def Let_def merge_own_first)
    qed (use True i new in \<open>simp add: merged_def own_view_def Let_def\<close>)
  next
    case False
    then have "r = ?r1" using new k(3) by (simp add: written_ok_def)
    then show ?thesis using False i by (simp add: merged_def own_view_def Let_def)
  qed
  assume "mapped_result T t J S1 I1 ?r1 (forward (?n - c) s) a1 res"
  then show "mapped_result T t J S I r s a res" using written(2)
  proof (rule mapped_result_step, goal_cases)
    case 1
    then show ?case using pass by simp
  next
    case (2 d)
    then obtain z where z: "length z = l" "run_edits (right_edits J a) d = z @ run_edits (right_edits J a1) (drop (?n - c) d)"
      using pass by auto
    have "length (drop (?n - c) d) = edits_length (right_edits J a1)" using 2 pass by simp
    moreover have "merged t T r s 0 (right_edits J a) d = run_edits [Put l ?x] z @ merge t c ?E 0 (right_edits J a1) (drop (?n - c) d)"
      using m [of d] pass by simp
    ultimately show ?case using z v by (intro exI [of _ z] exI [of _ "drop (?n - c) d"]) simp
  qed
qed

lemma map_ends:
  assumes ok: "map_ok T J S I r s a" and "\<not> (si_ins s = Unchanged \<and> si_ins a = Unchanged)" and "\<not> other_first t r s a" and "\<not> replaces s"
  shows "si_ins s = Done" "si_ins a = Done"
  using assms right_done [of T s] right_done [of J a]
  by (cases "si_ins s"; cases "si_ins a"; auto simp: map_ok_def other_first_def replaces_iff right_edits_def right_ok_def rest_ok_def)+

lemma map_never_mismatched: "map_ok T J S I r s a \<Longrightarrow> \<not> (si_ins s = Done \<and> si_len a \<noteq> 0 \<or> si_ins a = Done \<and> si_len s \<noteq> 0)"
  by (cases "si_ins s"; cases "si_ins a") (auto simp: map_ok_def right_edits_def right_ok_def rest_ok_def)

lemma map_over_result: "map_ok T J S I r s a \<Longrightarrow> mapped_result T t J S I r s a (map_over T t S I r s a)"
proof (induction T t S I r s a rule: map_over.induct)
  case (1 T t S I r s a)
  note no_error = map_never_mismatched [OF 1(4)]
  consider (kept) "si_ins s = Unchanged \<and> si_ins a = Unchanged"
    | (other) "\<not> (si_ins s = Unchanged \<and> si_ins a = Unchanged)" "other_first t r s a"
    | (own) "\<not> (si_ins s = Unchanged \<and> si_ins a = Unchanged)" "\<not> other_first t r s a" "replaces s"
    | (over) "\<not> (si_ins s = Unchanged \<and> si_ins a = Unchanged)" "\<not> other_first t r s a" "\<not> replaces s" by blast
  then show ?case
  proof cases
    case kept
    let ?l = "min (si_len s) (si_len a)"
    note k = map_over_kept [OF 1(4) kept [THEN conjunct1] kept [THEN conjunct2] refl]
    have "map_over T t S I r s a = map_over T t (add_section S ?l None False) I r (forward ?l s) (forward ?l a)"
      using kept no_error by (subst map_over.simps) (simp add: Let_def)
    then show ?thesis using k(2) [OF 1(1) [OF no_error kept refl k(1)]] by simp
  next
    case other
    from map_over_other [OF 1(4) other(2)] obtain S1 I1 r1 s1 where
      d: "map_deleted T (add_section S (ins_length a) None False) I r (si_len a) s = Some (S1, I1, r1, s1)"
        "map_ok T J S1 I1 r1 s1 (iter_next a)" "\<And>res. mapped_result T t J S1 I1 r1 s1 (iter_next a) res \<Longrightarrow> mapped_result T t J S I r s a res" by blast
    have "map_over T t S I r s a = map_over T t S1 I1 r1 s1 (iter_next a)"
      unfolding map_over.simps [of T t S I r s a] if_not_P [OF no_error] if_not_P [OF other(1)] if_P [OF other(2)] d(1) by simp
    then show ?thesis using d(3) [OF 1(2) [OF no_error other d(1) refl refl refl d(2)]] by simp
  next
    case own
    obtain l c a1 where p: "map_passed 0 (si_len s) a = (l, c, a1)" by (metis prod_cases3)
    note o = map_over_own [OF 1(4) own(3,2) p refl]
    show ?thesis using o(2) [OF 1(3) [OF no_error own p [symmetric] refl refl refl o(1)]]
      unfolding map_over.simps [of T t S I r s a] if_not_P [OF no_error] if_not_P [OF own(1)] if_not_P [OF own(2)] if_P [OF own(3)] p
      by (simp add: Let_def)
  next
    case over
    note e = map_ends [OF 1(4) over]
    have "map_over T t S I r s a = Some \<lparr>cs_sections = S, cs_inserted = I\<rparr>"
      using over no_error e by (subst map_over.simps) (simp add: Let_def)
    moreover have "right_edits J a = []" using e(2) by (simp add: right_edits_def)
    moreover have "merged t T r s 0 [] [] = []" using e(1) by (simp add: merged_def own_view_def merge.simps)
    ultimately show ?thesis using 1(4) unfolding mapped_result_def map_ok_def
      by (intro exI [of _ "\<lparr>cs_sections = S, cs_inserted = I\<rparr>"] exI [of _ "[]"]) (simp add: change_ok_def set_edits_def)
  qed
qed

lemma merge_with_kept:
  assumes "edits_length A = m" and "length d = m" and "\<forall>n. Keep n \<in> set A \<longrightarrow> 0 < n"
  shows "merge t 0 A 0 (keep m []) d = run_edits A d"
  using assms
proof (induction A arbitrary: m d)
  case Nil
  then show ?case by (simp add: keep_def merge.simps)
next
  case (Cons e A)
  have ih: "merge t 0 A 0 (keep (m - edit_length e) []) (drop (edit_length e) d) = run_edits A (drop (edit_length e) d)"
    using Cons.prems by (intro Cons.IH) auto
  show ?case
  proof (cases e)
    case (Keep n)
    then have n: "0 < n" "n \<le> m" using Cons.prems by auto
    then show ?thesis using ih Keep by (simp add: keep_def merge.simps [of t 0 "Keep n # A" 0])
  next
    case (Put n x)
    have "merge t 0 (Put n x # A) 0 (keep m []) d = x @ merge t n A 0 (keep m []) d"
      by (rule merge_own_first) (simp add: keep_def)
    moreover have "merge t n A 0 (keep m []) d = merge t 0 A 0 (keep (m - n) []) (drop n d)"
      using Cons.prems(1) Put by (cases "n = 0") (simp_all add: keep_def merge.simps [of t n A 0])
    ultimately show ?thesis using ih Put by simp
  qed
qed

lemma change_keeps: "change_ok c \<Longrightarrow> Keep n \<in> set (set_edits c) \<Longrightarrow> 0 < n"
  by (auto simp: change_ok_def sections_ok_def set_edits_def edits_of_def in_set_enumerate_eq edit_of_def section_ok_def split: option.splits)

lemma empty_change_edits: "\<lbrakk>change_ok c; change_is_empty c\<rbrakk> \<Longrightarrow> set_edits c = keep (old_length (cs_sections c)) []"
  by (auto simp: change_is_empty_def set_edits_def edit_of_def keep_def old_length_def change_ok_def sections_ok_def section_ok_def
    split: list.splits prod.splits option.splits)

lemma map_change_result:
  assumes c: "change_ok c" "change_ok c2" and l: "old_length (cs_sections c) = old_length (cs_sections c2)"
  shows "\<exists>m. map_change c c2 t = Some m \<and> change_ok m \<and> old_length (cs_sections m) = new_length (cs_sections c2)
    \<and> (\<forall>d. length d = old_length (cs_sections c2)
        \<longrightarrow> run_edits (set_edits m) (run_edits (set_edits c2) d) = merge t 0 (set_edits c) 0 (set_edits c2) d)"
proof (cases "change_is_empty c2")
  case True
  have "merge t 0 (set_edits c) 0 (set_edits c2) d = run_edits (set_edits c) d" if "length d = old_length (cs_sections c2)" for d
    unfolding empty_change_edits [OF c(2) True] using that l change_keeps [OF c(1)] by (intro merge_with_kept) (simp_all add: change_length)
  moreover have "new_length (cs_sections c2) = old_length (cs_sections c2)"
    using empty_change(2) [OF True, of "replicate (old_length (cs_sections c2)) (CHR ''x'')"] by simp
  ultimately show ?thesis using True c(1) l empty_change(1) [OF True] by (simp add: map_change_def)
next
  case False
  let ?T = "cs_inserted c" and ?J = "cs_inserted c2" and ?s = "iter_start (cs_sections c)" and ?a = "iter_start (cs_sections c2)"
  note s = iter_start_reads [OF c(1) [unfolded change_ok_def]] and a = iter_start_reads [OF c(2) [unfolded change_ok_def]]
  have w: "written_ok (-1) ?s" "fresh ?a" by (simp_all add: written_ok_def iter_start_def fresh_next)
  have ed: "edits_of ?T 0 (cs_sections c) = set_edits c" "edits_of ?J 0 (cs_sections c2) = set_edits c2" by (simp_all add: set_edits_def)
  have "map_ok ?T ?J [] [] (-1) ?s ?a" using s a w l by (simp add: map_ok_def edits_of_length)
  from map_over_result [OF this, where t = t] obtain m X where m: "map_over ?T t [] [] (-1) ?s ?a = Some m" "change_ok m" "same_edits (set_edits m) X"
    "edits_length X = edits_out (set_edits c2)"
    "\<And>d. length d = edits_length (set_edits c2) \<Longrightarrow> run_edits X (run_edits (set_edits c2) d) = merged t ?T (-1) ?s 0 (set_edits c2) d"
    unfolding mapped_result_def a(4) ed by auto
  have "own_view ?T (-1) ?s = ([], 0, set_edits c)" by (simp add: iter_start_def own_next ed)
  then have v: "merged t ?T (-1) ?s 0 B d = merge t 0 (set_edits c) 0 B d" for B d by (simp add: merged_def)
  have "old_length (cs_sections m) = new_length (cs_sections c2)"
    using m(3,4) change_out [OF c(2)] by (simp add: same_edits_def flip: change_length)
  then show ?thesis using m False v by (simp add: map_change_def same_edits_def change_length)
qed

text \<open>
  C22. Of two changes of the same document each can be mapped over the other one, and whichever is made first, the
  document ends up the same: the mapped second change behind the first, and the mapped first change behind the second.
  The mapped changes are in order, and start from the length that the other change leaves.
\<close>

theorem concurrent_changes_converge:
  assumes "change_ok c" and "change_ok c2" and "old_length (cs_sections c) = old_length (cs_sections c2)"
  shows "\<exists>m m2. map_change c c2 t = Some m \<and> map_change c2 c (\<not> t) = Some m2 \<and> change_ok m \<and> change_ok m2
    \<and> old_length (cs_sections m) = new_length (cs_sections c2) \<and> old_length (cs_sections m2) = new_length (cs_sections c)
    \<and> (\<forall>d. Option.bind (apply_change c2 d) (apply_change m) = Option.bind (apply_change c d) (apply_change m2))"
proof -
  obtain m where m: "map_change c c2 t = Some m" "change_ok m" "old_length (cs_sections m) = new_length (cs_sections c2)"
    "\<And>d. length d = old_length (cs_sections c2) \<Longrightarrow> run_edits (set_edits m) (run_edits (set_edits c2) d) = merge t 0 (set_edits c) 0 (set_edits c2) d"
    using map_change_result [OF assms] by blast
  obtain m2 where m2: "map_change c2 c (\<not> t) = Some m2" "change_ok m2" "old_length (cs_sections m2) = new_length (cs_sections c)"
    "\<And>d. length d = old_length (cs_sections c) \<Longrightarrow> run_edits (set_edits m2) (run_edits (set_edits c) d) = merge (\<not> t) 0 (set_edits c2) 0 (set_edits c) d"
    using map_change_result [OF assms(2,1) assms(3) [symmetric]] by blast
  have "Option.bind (apply_change c2 d) (apply_change m) = Option.bind (apply_change c d) (apply_change m2)" for d
    using m m2 assms merge_swap [of t 0 "set_edits c" 0 "set_edits c2" d] run_edits_length [of d "set_edits c"] run_edits_length [of d "set_edits c2"]
    by (auto simp: apply_change_edits change_out change_length)
  then show ?thesis using m(1-3) m2(1-3) by blast
qed

theorem concurrent_changes_converge_witness:
  "\<exists>m m2. map_change \<lparr>cs_sections = [(1, None), (2, Some 1), (1, None)], cs_inserted = [[], ''X'']\<rparr>
        \<lparr>cs_sections = [(2, None), (2, Some 2)], cs_inserted = [[], ''YZ'']\<rparr> True = Some m
    \<and> map_change \<lparr>cs_sections = [(2, None), (2, Some 2)], cs_inserted = [[], ''YZ'']\<rparr>
        \<lparr>cs_sections = [(1, None), (2, Some 1), (1, None)], cs_inserted = [[], ''X'']\<rparr> False = Some m2
    \<and> apply_change m ''abYZ'' = apply_change m2 ''aXd''"
proof -
  let ?c = "\<lparr>cs_sections = [(1, None), (2, Some 1), (1, None)], cs_inserted = [[], ''X'']\<rparr>"
  let ?d = "\<lparr>cs_sections = [(2, None), (2, Some 2)], cs_inserted = [[], ''YZ'']\<rparr>"
  have "change_ok ?c" "change_ok ?d" "old_length (cs_sections ?c) = old_length (cs_sections ?d)" by code_simp+
  from concurrent_changes_converge [OF this, of True] obtain m m2 where "map_change ?c ?d True = Some m" "map_change ?d ?c False = Some m2"
    "Option.bind (apply_change ?d ''abcd'') (apply_change m) = Option.bind (apply_change ?c ''abcd'') (apply_change m2)" by auto
  moreover have "apply_change ?d ''abcd'' = Some ''abYZ''" "apply_change ?c ''abcd'' = Some ''aXd''" by code_simp+
  ultimately show ?thesis by simp
qed

end
