(* ===== verification/Change_Specs.thy ===== *)
theory Change_Specs
  imports Change_Map
begin

text \<open>
  How the code editor makes a change from specifications (\<open>public/js/filament/forms/components/code-editor.js\<close>, line 4,
  \<open>ve.of\<close>): replacements of ranges of the old document, whole changes, and lists of them. A replacement that starts
  before the end of the last one closes what has been gathered, and the next part is mapped over it and joined to it.
  The inserted texts are those with the document's line breaks.
\<close>

datatype change_spec = Replace nat nat string | Whole change_set | Several "change_spec list"

text \<open>The sections and texts gathered, the position behind them, and the change that is closed.\<close>

record spec_state =
  sp_sections :: "change_section list"
  sp_inserted :: "string list"
  sp_pos :: nat
  sp_closed :: "change_set option"

definition no_specs :: spec_state where
  "no_specs = \<lparr>sp_sections = [], sp_inserted = [], sp_pos = 0, sp_closed = None\<rparr>"

definition join_change :: "change_set option \<Rightarrow> change_set \<Rightarrow> change_set option" where
  "join_change A c = (case A of None \<Rightarrow> Some c | Some a \<Rightarrow> Option.bind (map_change c a False) (compose_changes a))"

text \<open>The sections gathered with what is kept up to \<open>f\<close>.\<close>

definition kept_until :: "nat \<Rightarrow> spec_state \<Rightarrow> change_section list" where
  "kept_until f st = (if sp_pos st < f then add_section (sp_sections st) (f - sp_pos st) None False else sp_sections st)"

definition flush_specs :: "nat \<Rightarrow> bool \<Rightarrow> spec_state \<Rightarrow> spec_state option" where
  "flush_specs n force st =
     (if \<not> force \<and> sp_sections st = [] then Some st
      else map_option (\<lambda>a. no_specs\<lparr>sp_closed := Some a\<rparr>)
        (join_change (sp_closed st) \<lparr>cs_sections = kept_until n st, cs_inserted = sp_inserted st\<rparr>))"

definition put_spec :: "nat \<Rightarrow> nat \<Rightarrow> string \<Rightarrow> spec_state \<Rightarrow> spec_state" where
  "put_spec f t x st =
     (let S = add_section (kept_until f st) (t - f) (Some (length x)) False
      in st\<lparr>sp_sections := S, sp_inserted := add_insert (sp_inserted st) S x, sp_pos := t\<rparr>)"

fun add_spec :: "nat \<Rightarrow> change_spec \<Rightarrow> spec_state \<Rightarrow> spec_state option"
  and add_specs :: "nat \<Rightarrow> change_spec list \<Rightarrow> spec_state \<Rightarrow> spec_state option" where
  "add_spec n (Replace f t x) st =
     (if t < f \<or> n < t then None
      else if f = t \<and> x = [] then Some st
      else map_option (put_spec f t x) (if f < sp_pos st then flush_specs n False st else Some st))"
| "add_spec n (Whole c) st =
     (if old_length (cs_sections c) \<noteq> n then None
      else Option.bind (flush_specs n False st) (\<lambda>st1. map_option (\<lambda>a. st1\<lparr>sp_closed := Some a\<rparr>) (join_change (sp_closed st1) c)))"
| "add_spec n (Several cs) st = add_specs n cs st"
| "add_specs n [] st = Some st"
| "add_specs n (c # cs) st = Option.bind (add_spec n c st) (add_specs n cs)"

definition change_of :: "nat \<Rightarrow> change_spec \<Rightarrow> change_set option" where
  "change_of n spec =
     Option.bind (add_spec n spec no_specs) (\<lambda>st. Option.bind (flush_specs n (sp_closed st = None) st) sp_closed)"

section \<open>Making a change fails for nothing but ranges and lengths\<close>

fun spec_wf :: "change_spec \<Rightarrow> bool" where
  "spec_wf (Replace f t x) = True"
| "spec_wf (Whole c) = change_ok c"
| "spec_wf (Several cs) = list_all spec_wf cs"

fun spec_fits :: "nat \<Rightarrow> change_spec \<Rightarrow> bool" where
  "spec_fits n (Replace f t x) = (f \<le> t \<and> t \<le> n)"
| "spec_fits n (Whole c) = (old_length (cs_sections c) = n)"
| "spec_fits n (Several cs) = list_all (spec_fits n) cs"

definition closed_ok :: "nat \<Rightarrow> change_set option \<Rightarrow> bool" where
  "closed_ok n A \<longleftrightarrow> (\<forall>a. A = Some a \<longrightarrow> change_ok a \<and> old_length (cs_sections a) = n)"

definition state_ok :: "nat \<Rightarrow> spec_state \<Rightarrow> bool" where
  "state_ok n st \<longleftrightarrow> sections_ok (sp_inserted st) (sp_sections st) \<and> old_length (sp_sections st) = sp_pos st \<and> sp_pos st \<le> n
     \<and> closed_ok n (sp_closed st)"

lemma state_ok_start: "state_ok n no_specs"
  by (simp add: state_ok_def closed_ok_def no_specs_def old_length_simps)

lemma add_section_length:
  "sections_ok I S \<Longrightarrow> old_length (add_section S e None False) = old_length S + e"
  "\<lbrakk>sections_ok I S; length x = i\<rbrakk> \<Longrightarrow> old_length (add_section S e (Some i) False) = old_length S + e"
  for x :: string
  using add_keep(2) [of I S e] add_put(2) [of I S x i False e] by (simp_all add: same_edits_def edits_of_length)

lemma join_change_ok:
  assumes "closed_ok n A" and "change_ok c" and "old_length (cs_sections c) = n"
  shows "\<exists>a. join_change A c = Some a \<and> change_ok a \<and> old_length (cs_sections a) = n"
proof (cases A)
  case None
  then show ?thesis using assms by (simp add: join_change_def)
next
  case (Some a)
  then have a: "change_ok a" "old_length (cs_sections a) = n" using assms(1) by (simp_all add: closed_ok_def)
  from map_change_result [OF assms(2) a(1)] assms(3) a(2) obtain m where
    m: "map_change c a False = Some m" "change_ok m" "old_length (cs_sections m) = new_length (cs_sections a)" by metis
  from compose_result [OF a(1) m(2) m(3) [symmetric]] obtain r where
    "compose_changes a m = Some r" "change_ok r" "composes (set_edits r) (set_edits a) (set_edits m)" by blast
  then show ?thesis using Some m a by (simp add: join_change_def composes_def change_length)
qed

lemma kept_until_ok:
  assumes "state_ok n st" and "sp_pos st \<le> f"
  shows "sections_ok (sp_inserted st) (kept_until f st)" "old_length (kept_until f st) = f"
    "same_edits (edits_of (sp_inserted st) 0 (kept_until f st)) (edits_of (sp_inserted st) 0 (sp_sections st) @ [Keep (f - sp_pos st)])"
proof -
  have ok: "sections_ok (sp_inserted st) (sp_sections st)" "old_length (sp_sections st) = sp_pos st" using assms(1) by (simp_all add: state_ok_def)
  show "sections_ok (sp_inserted st) (kept_until f st)" "old_length (kept_until f st) = f"
    "same_edits (edits_of (sp_inserted st) 0 (kept_until f st)) (edits_of (sp_inserted st) 0 (sp_sections st) @ [Keep (f - sp_pos st)])"
    using add_keep [OF ok(1), of "f - sp_pos st"] add_section_length(1) [OF ok(1), of "f - sp_pos st"] ok assms(2)
    by (auto simp: kept_until_def same_edits_def run_edits_append)
qed

lemma flush_specs_ok:
  assumes "state_ok n st"
  shows "\<exists>st1. flush_specs n force st = Some st1 \<and> state_ok n st1 \<and> sp_pos st1 = 0 \<and> (force \<or> sp_closed st \<noteq> None \<longrightarrow> sp_closed st1 \<noteq> None)"
proof (cases "\<not> force \<and> sp_sections st = []")
  case True
  then show ?thesis using assms by (simp add: flush_specs_def state_ok_def old_length_simps)
next
  case False
  let ?h = "\<lparr>cs_sections = kept_until n st, cs_inserted = sp_inserted st\<rparr>"
  have ok: "sp_pos st \<le> n" "closed_ok n (sp_closed st)" using assms by (simp_all add: state_ok_def)
  have "change_ok ?h" "old_length (cs_sections ?h) = n" using kept_until_ok [OF assms ok(1)] by (simp_all add: change_ok_def)
  from join_change_ok [OF ok(2) this] obtain a where "join_change (sp_closed st) ?h = Some a" "change_ok a" "old_length (cs_sections a) = n" by blast
  then show ?thesis unfolding flush_specs_def if_not_P [OF False]
    by (simp add: state_ok_def closed_ok_def no_specs_def old_length_simps)
qed

lemma put_spec_ok:
  assumes "state_ok n st" and "sp_pos st \<le> f" and "f \<le> t" and "t \<le> n"
  shows "state_ok n (put_spec f t x st)"
proof -
  note k = kept_until_ok [OF assms(1,2)]
  show ?thesis using add_put(1) [OF k(1), of x "length x" False "t - f"] add_section_length(2) [OF k(1), of x "length x" "t - f"] k(2) assms
    by (simp add: put_spec_def state_ok_def Let_def)
qed

lemma add_spec_ok:
  "\<lbrakk>state_ok n st; spec_wf c\<rbrakk> \<Longrightarrow> if spec_fits n c then \<exists>st1. add_spec n c st = Some st1 \<and> state_ok n st1 else add_spec n c st = None"
  "\<lbrakk>state_ok n st; list_all spec_wf cs\<rbrakk> \<Longrightarrow> if list_all (spec_fits n) cs then \<exists>st1. add_specs n cs st = Some st1 \<and> state_ok n st1 else add_specs n cs st = None"
proof (induction n c st and n cs st rule: add_spec_add_specs.induct)
  case (1 n f t x st)
  obtain st1 where fl: "flush_specs n False st = Some st1" "state_ok n st1" "sp_pos st1 = 0" using flush_specs_ok [OF 1(1)] by blast
  then show ?case using put_spec_ok [OF 1(1), of f t x] put_spec_ok [OF fl(2), of f t x] 1(1) by simp
next
  case (2 n c st)
  obtain st1 where fl: "flush_specs n False st = Some st1" "state_ok n st1" using flush_specs_ok [OF 2(1)] by blast
  then have A: "closed_ok n (sp_closed st1)" by (simp add: state_ok_def)
  show ?case using join_change_ok [OF A, of c] 2(2) fl by (auto simp: state_ok_def closed_ok_def)
next
  case (5 n c cs st)
  then show ?case by (cases "spec_fits n c") (auto split: if_splits)
qed auto

text \<open>
  C30. A change is made of a specification exactly when every range lies in the document, its ends in order, and every
  whole change has the document's length; the change made is in order and is one of documents of that length.
\<close>

theorem change_made_when_ranges_fit:
  assumes "spec_wf spec"
  shows "if spec_fits n spec then \<exists>c. change_of n spec = Some c \<and> change_ok c \<and> old_length (cs_sections c) = n
    else change_of n spec = None"
proof (cases "spec_fits n spec")
  case True
  from add_spec_ok(1) [OF state_ok_start assms, of n] True obtain st where st: "add_spec n spec no_specs = Some st" "state_ok n st" by auto
  from flush_specs_ok [OF st(2), of "sp_closed st = None"] obtain st1 a where
    "flush_specs n (sp_closed st = None) st = Some st1" "state_ok n st1" "sp_closed st1 = Some a" by auto
  then show ?thesis using True st by (simp add: change_of_def state_ok_def closed_ok_def)
next
  case False
  with add_spec_ok(1) [OF state_ok_start assms, of n] show ?thesis by (simp add: change_of_def)
qed

theorem change_made_when_ranges_fit_witness:
  "(\<exists>c. change_of 4 (Several [Replace 2 3 ''XY'', Replace 0 1 []]) = Some c \<and> change_ok c) \<and> change_of 4 (Replace 3 5 ''X'') = None"
proof -
  have w: "spec_wf (Several [Replace 2 3 ''XY'', Replace 0 1 []])" "spec_wf (Replace 3 5 ''X'')" by simp_all
  show ?thesis using change_made_when_ranges_fit [OF w(1), of 4] change_made_when_ranges_fit [OF w(2), of 4] by (simp split: if_splits) blast
qed

section \<open>Replacements in order\<close>

text \<open>Ranges behind one another from \<open>p\<close> on, and what replacing the last one first makes of a document.\<close>

fun in_order :: "nat \<Rightarrow> nat \<Rightarrow> (nat \<times> nat \<times> string) list \<Rightarrow> bool" where
  "in_order n p [] = (p \<le> n)"
| "in_order n p ((f, t, x) # rs) = (p \<le> f \<and> f \<le> t \<and> t \<le> n \<and> in_order n t rs)"

definition splice_range :: "nat \<times> nat \<times> string \<Rightarrow> string \<Rightarrow> string" where
  "splice_range r d = (case r of (f, t, x) \<Rightarrow> take f d @ x @ drop t d)"

definition specs_of :: "(nat \<times> nat \<times> string) list \<Rightarrow> change_spec list" where
  "specs_of rs = map (\<lambda>(f, t, x). Replace f t x) rs"

fun range_edits :: "nat \<Rightarrow> (nat \<times> nat \<times> string) list \<Rightarrow> edit list" where
  "range_edits p [] = []"
| "range_edits p ((f, t, x) # rs) = (if f = t \<and> x = [] then range_edits p rs else Keep (f - p) # Put (t - f) x # range_edits t rs)"

fun range_end :: "nat \<Rightarrow> (nat \<times> nat \<times> string) list \<Rightarrow> nat" where
  "range_end p [] = p"
| "range_end p ((f, t, x) # rs) = range_end (if f = t \<and> x = [] then p else t) rs"

lemma in_order_from: "\<lbrakk>in_order n p rs; q \<le> p\<rbrakk> \<Longrightarrow> in_order n q rs"
  by (cases rs) auto

lemma put_spec_edits:
  assumes "state_ok n st" and "sp_pos st \<le> f"
  shows "same_edits (edits_of (sp_inserted (put_spec f t x st)) 0 (sp_sections (put_spec f t x st)))
      (edits_of (sp_inserted st) 0 (sp_sections st) @ [Keep (f - sp_pos st), Put (t - f) x])"
proof -
  note k = kept_until_ok [OF assms]
  have "same_edits (edits_of (sp_inserted (put_spec f t x st)) 0 (sp_sections (put_spec f t x st)))
      (edits_of (sp_inserted st) 0 (kept_until f st) @ [Put (t - f) x])"
    using add_put(2) [OF k(1), of x "length x" False "t - f"] by (simp add: put_spec_def Let_def)
  then show ?thesis using same_edits_trans [OF _ same_edits_append [OF k(3) same_edits_refl]] by fastforce
qed

lemma add_specs_in_order:
  assumes "state_ok n st" and "in_order n (sp_pos st) rs" and "sp_closed st = None"
  shows "\<exists>st1. add_specs n (specs_of rs) st = Some st1 \<and> state_ok n st1 \<and> sp_closed st1 = None \<and> sp_pos st1 = range_end (sp_pos st) rs
    \<and> same_edits (edits_of (sp_inserted st1) 0 (sp_sections st1)) (edits_of (sp_inserted st) 0 (sp_sections st) @ range_edits (sp_pos st) rs)"
  using assms
proof (induction rs arbitrary: st)
  case Nil
  then show ?case by (simp add: specs_of_def)
next
  case (Cons r rs)
  obtain f t x where r: "r = (f, t, x)" by (metis prod_cases3)
  have o: "sp_pos st \<le> f" "f \<le> t" "t \<le> n" "in_order n t rs" using Cons.prems(2) by (simp_all add: r)
  show ?case
  proof (cases "f = t \<and> x = []")
    case True
    then show ?thesis using Cons.IH [OF Cons.prems(1) in_order_from [OF o(4)] Cons.prems(3)] o by (simp add: r specs_of_def)
  next
    case False
    let ?st = "put_spec f t x st"
    have p: "sp_pos ?st = t" "sp_closed ?st = None" using Cons.prems(3) by (simp_all add: put_spec_def Let_def)
    have ok: "state_ok n ?st" using put_spec_ok [OF Cons.prems(1) o(1-3)] .
    from Cons.IH [OF ok] p o(4) obtain st1 where st1: "add_specs n (specs_of rs) ?st = Some st1" "state_ok n st1" "sp_closed st1 = None"
      "sp_pos st1 = range_end t rs"
      "same_edits (edits_of (sp_inserted st1) 0 (sp_sections st1)) (edits_of (sp_inserted ?st) 0 (sp_sections ?st) @ range_edits t rs)" by auto
    have "same_edits (edits_of (sp_inserted st1) 0 (sp_sections st1))
        (edits_of (sp_inserted st) 0 (sp_sections st) @ [Keep (f - sp_pos st), Put (t - f) x] @ range_edits t rs)"
      using same_edits_trans [OF st1(5) same_edits_append [OF put_spec_edits [OF Cons.prems(1) o(1)] same_edits_refl [of "range_edits t rs"]]] by simp
    moreover have "add_specs n (specs_of (r # rs)) st = add_specs n (specs_of rs) ?st" using False o by (auto simp: r specs_of_def)
    ultimately show ?thesis using st1(1-4) unfolding r range_edits.simps range_end.simps if_not_P [OF False] by simp
  qed
qed

lemma range_end_le: "in_order n p rs \<Longrightarrow> range_end p rs \<le> n \<and> p \<le> range_end p rs"
proof (induction rs arbitrary: p)
  case (Cons r rs)
  obtain f t x where r: "r = (f, t, x)" by (metis prod_cases3)
  have o: "p \<le> f" "f \<le> t" "in_order n t rs" using Cons.prems by (simp_all add: r)
  then show ?case using Cons.IH [of t] Cons.IH [of p] in_order_from [OF o(3), of p] by (auto simp: r)
qed simp

lemma ranges_replaced:
  assumes "in_order n p rs" and "length d = n"
  shows "take p (foldr splice_range rs d) = take p d
    \<and> run_edits (range_edits p rs @ [Keep (n - range_end p rs)]) (drop p d) = drop p (foldr splice_range rs d)"
  using assms(1)
proof (induction rs arbitrary: p)
  case Nil
  then show ?case using assms(2) by simp
next
  case (Cons r rs)
  obtain f t x where r: "r = (f, t, x)" by (metis prod_cases3)
  have o: "p \<le> f" "f \<le> t" "t \<le> n" "in_order n t rs" using Cons.prems by (simp_all add: r)
  let ?D = "foldr splice_range rs d"
  show ?case
  proof (cases "f = t \<and> x = []")
    case True
    then show ?thesis using Cons.IH [OF in_order_from [OF o(4), of p]] o by (simp add: r splice_range_def)
  next
    case False
    note ih = Cons.IH [OF o(4)]
    have "take f (take t ?D) = take f (take t d)" using ih by simp
    then have "take f ?D = take f d" using o(2) by (simp add: min_absorb1)
    then have R: "splice_range (f, t, x) ?D = take f d @ x @ drop t ?D" by (simp add: splice_range_def)
    have "take p (take f d) = take p d" using o(1) by (simp add: min_absorb1)
    moreover have "take (f - p) (drop p d) = drop p (take f d)" by (simp add: drop_take)
    moreover have "drop (t - f) (drop (f - p) (drop p d)) = drop t d" using o(1,2) by simp
    moreover have "length (take f d) = f" using o assms(2) by simp
    ultimately show ?thesis using ih o(1) unfolding r range_edits.simps range_end.simps if_not_P [OF False]
      by (simp add: R)
  qed
qed

text \<open>
  C29. For ranges in order the change does to a document of its length what replacing one range after the other does,
  the last one first, so that no range moves before it is replaced.
\<close>

theorem change_replaces_ranges:
  assumes "in_order (length d) 0 rs"
  shows "Option.bind (change_of (length d) (Several (specs_of rs))) (\<lambda>c. apply_change c d) = Some (foldr splice_range rs d)"
proof -
  let ?n = "length d"
  have st: "in_order ?n (sp_pos no_specs) rs" "sp_closed no_specs = None" using assms by (simp_all add: no_specs_def)
  from add_specs_in_order [OF state_ok_start st] obtain st1 where st1: "add_specs ?n (specs_of rs) no_specs = Some st1" "state_ok ?n st1"
    "sp_closed st1 = None" "sp_pos st1 = range_end 0 rs" "same_edits (edits_of (sp_inserted st1) 0 (sp_sections st1)) (range_edits 0 rs)"
    by (auto simp: no_specs_def)
  let ?c = "\<lparr>cs_sections = kept_until ?n st1, cs_inserted = sp_inserted st1\<rparr>"
  have le: "sp_pos st1 \<le> ?n" using st1(2) by (simp add: state_ok_def)
  note k = kept_until_ok [OF st1(2) le]
  have "same_edits (set_edits ?c) (range_edits 0 rs @ [Keep (?n - range_end 0 rs)])"
    using same_edits_trans [OF k(3) same_edits_append [OF st1(5) same_edits_refl]] st1(4) by (simp add: set_edits_def)
  then have "run_edits (set_edits ?c) d = foldr splice_range rs d" using ranges_replaced [OF assms refl] by (simp add: same_edits_def)
  moreover have "change_of ?n (Several (specs_of rs)) = Some ?c"
    using st1 by (simp add: change_of_def flush_specs_def join_change_def)
  moreover have "change_ok ?c" "old_length (cs_sections ?c) = ?n" using k by (simp_all add: change_ok_def)
  ultimately show ?thesis by (simp add: apply_change_edits)
qed

theorem change_replaces_ranges_witness:
  "Option.bind (change_of 5 (Several [Replace 0 1 ''XY'', Replace 2 2 ''Z'', Replace 3 5 []])) (\<lambda>c. apply_change c ''abcde'') = Some ''XYbZc''"
proof -
  have "in_order (length ''abcde'') 0 [(0, 1, ''XY''), (2, 2, ''Z''), (3, 5, [])]" by simp
  from change_replaces_ranges [OF this] show ?thesis by (simp add: specs_of_def splice_range_def numeral_eq_Suc)
qed

end
