(* ===== verification/Spec2Isabelle.thy ===== *)
theory Spec2Isabelle
  imports Delivery_Accounting Example_World Editor_Style Editor_Code_Block Editor_Markdown Editor_Table Editor_Lists
    Code_Snippets Image_Markup Table_Selection Form_Widgets Schema_Widgets Action_Modals App_Entry
    Step_Map Content_Check Content_Fuel Column_Sync Column_Manager Panel_Shell Markdown_Fence Markdown_Document
    Select_Labels Date_Picker Change_Specs
begin

text \<open>
  A model of a temporary-mail platform: the outbound mail pipeline of the Laravel application
  (\<open>app/\<close>) and the browser scripts of its panels (\<open>public/js/filament\<close>, \<open>resources/js\<close>). Every
  definition is written after the function it names and can be evaluated; this theory holds the
  properties that span components, C1 to C18, and the others stand in the theory of their
  component.

  Server side. A queued message is delivered by one run of \<open>DeliverOutboundMessageJob\<close>: it claims
  the row, authorizes the send, hands the payload to the transport, settles the result, charges or
  releases the usage reservation and writes notifications and audit rows. User actions and sweeps
  change the same rows between runs.
    \<^item> Prelude: tables as association lists with their laws (a locale and its interpretation),
      exceptions and transactions, the PHP string functions.
    \<^item> Enums, Model, Lifecycle: \<open>app/Enums\<close>; the rows of \<open>app/Models\<close> and the environment (clock,
      configuration, hash, calendar, DNS, all parameters); conformance to the transition table.
    \<^item> Entitlement, Launch_Control, Domain_Auth, Suppressions: who may send; \<open>EntitlementService\<close>,
      \<open>OutboundLaunchControlService\<close> with canaries and \<open>OutboundAuthorizationService\<close>,
      \<open>OutboundDomainAuthenticationService\<close>, \<open>OutboundSuppressionService\<close>.
    \<^item> Usage, Usage_Facts: \<open>OutboundUsageService\<close> and its reconciliation; a ledger in which the first
      settlement of a reservation decides, as a locale interpreted on commit and release.
    \<^item> Delivery_Result, Attempts, Attachments, Notifications, Audit_Log: what a run writes.
    \<^item> Delivery_Job, Delivery_Facts, Delivery_Accounting: the job, its effect on the rows, its effect on
      ledger and attempts.
    \<^item> Message_Actions, Pipeline: cancel, delete, retry, unschedule; all events interleaved freely, and
      what each of them may do to the state of its message.
    \<^item> Example_World: a small database on which the closed examples are evaluated.

  Browser side. Each widget is a record of its state and one function for each handler; the page,
  the focus and the server's answers are arguments, and what a handler sends out is a result.
    \<^item> Script_Text: white space, lines, slices and splices as the scripts use them.
    \<^item> Editor_Style, Editor_Code_Block, Editor_Markdown, Editor_Table, Editor_Lists:
      \<open>forms/components/rich-editor.js\<close>: the style sheet (\<open>af\<close>), the keys of a code block, the Markdown
      writers (\<open>Ht\<close>, \<open>uf\<close>, \<open>b0\<close>, \<open>w0\<close>, \<open>Vn\<close>), tables (\<open>jk\<close>, \<open>Uk\<close>), the list tokenizers (\<open>Lr\<close>, \<open>nx\<close>,
      \<open>tx\<close>, \<open>yh\<close>). Round trips state that what is written is read back.
    \<^item> Step_Map: \<open>rich-editor.js\<close> line 4, the position maps (\<open>StepMap\<close>, \<open>Mapping\<close>): order is kept, and
      what is mapped through a change and its mirrored inverse comes back.
    \<^item> Content_Expr, Content_Nfa, Content_Match, Content_Totality, Content_Fuel, Content_Fill,
      Content_Check: \<open>rich-editor.js\<close> lines 1 and 2, from a content expression to the automaton (\<open>cm\<close>), its
      subset construction (\<open>dm\<close>, \<open>rc\<close>), the check for dead ends (\<open>um\<close>) and \<open>fillBefore\<close>: the words taken
      are the expression's, the construction ends, it is refused exactly for a dead end that can be
      reached, and a filling is found when there is one.
    \<^item> Markdown_Text, Markdown_Document, Markdown_Toolbar, Markdown_Fence:
      \<open>forms/components/markdown-editor.js\<close>: lines and continued lists, the tree of lines (\<open>Bn\<close>, \<open>jn\<close>, \<open>Fo\<close>),
      whose edits refine the replacement of a range (a locale of line stores, interpreted on the tree),
      the toolbar's functions (\<open>jr\<close>, \<open>Lr\<close>, \<open>la\<close>, \<open>sa\<close>, \<open>yc\<close>) and the code button (\<open>Pi\<close>).
    \<^item> Code_Snippets: \<open>forms/components/code-editor.js\<close>: completions, template parser, insertion. Every
      shipped completion is checked by evaluation, insertion in general.
    \<^item> Image_Markup: \<open>forms/components/file-upload.js\<close>: overlay and crop documents.
    \<^item> Form_Widgets, Schema_Widgets, Table_Selection, Action_Modals: tags, key-value rows and check
      boxes; wizard, tabs and state paths; the selection of table records (a locale of key sets,
      interpreted on both representations); the stack of action modals.
    \<^item> Column_Sync, Column_Manager: \<open>tables/components/columns\<close>, the cells edited in place as steps of
      page and server; \<open>tables/tables.js\<close>, the column manager.
    \<^item> Select_Field, Select_Labels: \<open>forms/components/select.js\<close>, options, search, selection and keyboard as
      events on one record, and the labels with the answers they wait for.
    \<^item> Change_Set, Change_Map, Change_Specs: \<open>forms/components/code-editor.js\<close>, the changes of the code editor:
      applying, inverting, composing them, mapping one over another (the order in which both are made does not
      matter), positions, and making them from replaced ranges. Both loops are read as lists of kept and
      replaced stretches (\<open>run_edits\<close>, \<open>merge\<close>), to which the section lists are refined.
    \<^item> Date_Picker: \<open>forms/components/date-time-picker.js\<close>, the calendar, the grid and what can be chosen.
    \<^item> Panel_Shell: \<open>filament/app.js\<close>, \<open>notifications/notifications.js\<close>, sidebar, theme, request errors and
      the life of a notification.
    \<^item> App_Entry: \<open>resources/js\<close> and \<open>vite.config.js\<close>.

  Conventions. Characters are those up to code 255. Rationals stand for doubles in Image_Markup,
  and their rendering is a parameter. Loops are structural or have a proved measure, except in the
  content matches, where fuel bounds the searches: \<open>null_from\<close> has the square of the number of nodes and
  one, \<open>explore\<close> one more than the number of node sets, \<open>fill_visit\<close> and \<open>check_from\<close> one more than the
  number of matches. For the searches of \<open>rc\<close> and \<open>dm\<close> Content_Fuel proves that no amount of fuel gives
  more, and Content_Totality that they end for expressions without a range; Content_Fill and
  Content_Check prove that the other two always end. Asynchronous calls are split where state can change between them: the callbacks of the
  modals are a queue, and a server's answer is the argument of the step that handles it. Lexers,
  transports, DNS, hashes and calendars are parameters, as they are outside the sources.

  Not modelled: bundled packages (document model and view of the editors, their language modes,
  upload queue, charts, colour and slider fields, broadcasting), which the scripts only carry; creation
  and scheduling of messages, provider events, rate limits, pruning and inbound mail on the server;
  controllers, panels and console commands, which only call the services.
\<close>

lemma is_InrD: "(case x of Inr _ \<Rightarrow> True | Inl _ \<Rightarrow> False) \<Longrightarrow> \<exists>y. x = Inr y"
  by (cases x) simp_all

section \<open>The delivery job\<close>

text \<open>
  C1. A run of the delivery job hands a message to the transport only when, in the state the
  run started in, the row was queued, outbound mail was not stopped, the owner existed and was
  active, the inbox belonged to the owner, was active and not expired, its domain was active,
  enabled for outbound mail and authenticated, the operation was enabled, granted by the plan
  and inside the rollout, and no recipient of the payload was suppressed; and the payload is
  the one built from the claimed row. When the transport is called the row is already in state
  sending, with the attempt counted and its time recorded: a run whose transport throws stops
  right there, and leaves the row so.
\<close>
theorem submission_gates:
  assumes "deliver E tr mid w = (je, Some p, w')"
  shows "\<exists>m u ib d atts.
    find_message w mid = Some m \<and> om_state m = Queued \<and> \<not> is_emergency_stopped E w
    \<and> find_user w (om_user_id m) = Some u \<and> user_is_active u
    \<and> find_inbox w (om_inbox_id m) = Some ib
    \<and> (ib_user_id ib = Some (u_id u) \<or> ib_user_id ib = None \<and> u_id u = [])
    \<and> ib_is_active ib \<and> \<not> inbox_is_expired E ib
    \<and> find_domain w (ib_domain_id ib) = Some d \<and> dm_is_active d \<and> dm_outbound_enabled d
    \<and> fst (is_domain_ready E d None w)
    \<and> cf_outbound_enabled (e_cfg E) \<and> operation_flag (e_cfg E) (om_operation m)
    \<and> has_feature w u (feature_key (om_operation m))
    \<and> is_eligible E w u ib (Some (dm_id d)) None
    \<and> forward_attachments E (claimed_row E m) w = Inr atts
    \<and> p = message_data (claimed_row E m) atts
    \<and> (\<forall>r \<in> set (md_to p @ md_cc p @ md_bcc p). \<not> is_suppressed E w r)
    \<and> (\<forall>x. \<exists>v s. deliver E (\<lambda>_. Inl x) mid w = (Threw x, Some p, v) \<and> find_message v mid = Some s
         \<and> om_state s = Sending \<and> om_transport_attempted_at s = Some (e_now E)
         \<and> om_attempt_count s = om_attempt_count m + 1)"
proof (rule deliver_submits [OF assms])
  fix m u ib atts w1
  assume h: "\<not> is_emergency_stopped E w" "find_message w mid = Some m" "om_state m = Queued"
    "find_user w (om_user_id m) = Some u" "find_inbox w (om_inbox_id m) = Some ib"
    "may_send E w u ib (om_operation m) None"
    "forward_attachments E (claimed_row E m) w = Inr atts" "p = message_data (claimed_row E m) atts"
    and r: "\<forall>r \<in> set (all_recipients m). \<not> is_suppressed E w r"
    and row: "\<And>i. find_message w1 i = (if i = mid then Some (claimed_row E m) else find_message w i)"
    and any: "\<And>tr'. deliver E tr' mid w = submit E tr' mid (claimed_row E m) atts w1"
  obtain d where "find_domain w (ib_domain_id ib) = Some d" "dm_is_active d" "dm_outbound_enabled d"
    "fst (is_domain_ready E d None w)" "is_eligible E w u ib (Some (dm_id d)) None"
    using h(6) unfolding may_send_def by blast
  moreover have "\<forall>r \<in> set (md_to p @ md_cc p @ md_bcc p). \<not> is_suppressed E w r"
    using r by (simp add: h(8) message_data_def claimed_row_def all_recipients_def)
  moreover have "\<exists>v s. deliver E (\<lambda>_. Inl x) mid w = (Threw x, Some p, v) \<and> find_message v mid = Some s
      \<and> om_state s = Sending \<and> om_transport_attempted_at s = Some (e_now E)
      \<and> om_attempt_count s = om_attempt_count m + 1" for x
    unfolding any using submit_throws [of w1 mid "claimed_row E m" E x "claimed_row E m" atts] row h(8)
    by (auto simp: claimed_row_def in_flight_row_def)
  ultimately show ?thesis
    using h unfolding may_send_def by (intro exI [of _ m] exI [of _ u] exI [of _ ib] exI [of _ d] exI [of _ atts]) simp
qed

theorem submission_gates_witness:
  "\<exists>p v s. fst (snd (deliver sample_env accepting ''m1'' sample_world)) = Some p
     \<and> (\<forall>r \<in> set (md_to p @ md_cc p @ md_bcc p). \<not> is_suppressed sample_env sample_world r)
     \<and> deliver sample_env (\<lambda>_. Inl TypeError) ''m1'' sample_world = (Threw TypeError, Some p, v)
     \<and> find_message v ''m1'' = Some s \<and> om_state s = Sending"
proof -
  obtain je p w' where d: "deliver sample_env accepting ''m1'' sample_world = (je, Some p, w')"
    using sample_submits by (cases "deliver sample_env accepting ''m1'' sample_world") auto
  from submission_gates [OF d] obtain v s where "\<forall>r \<in> set (md_to p @ md_cc p @ md_bcc p). \<not> is_suppressed sample_env sample_world r"
    "deliver sample_env (\<lambda>_. Inl TypeError) ''m1'' sample_world = (Threw TypeError, Some p, v)"
    "find_message v ''m1'' = Some s" "om_state s = Sending" by blast
  with d show ?thesis by (intro exI [of _ p] exI [of _ v] exI [of _ s]) simp
qed

text \<open>
  C2. Starting from a queued message that was never attempted, however often the job runs, in
  whatever environments that allow at most \<open>N\<close> attempts and whatever the transport answers or
  throws, the message is handed to the transport at most \<open>N\<close> times (once at least is always
  allowed); a message that is not queued is never handed over.
\<close>
theorem submissions_bounded:
  assumes "find_message w mid = Some m" and "om_attempt_count m = 0"
    and "\<forall>(E, tr) \<in> set rs. tries E \<le> N"
  shows "int (fst (run_job mid rs w)) \<le> (if om_state m = Queued then max 1 N else 0)"
  using run_job_bound [OF assms(1,3)] assms(2) by (simp split: if_splits)

theorem submissions_bounded_witness:
  "int (fst (run_job ''m1'' [(sample_env, failing), (sample_env, accepting)] sample_world)) \<le> 3"
proof -
  have "tries sample_env \<le> 3" by code_simp
  then show ?thesis
    using submissions_bounded [OF sample_message_m1, of "[(sample_env, failing), (sample_env, accepting)]" 3]
    by simp
qed

text \<open>
  C3. What one event does to the states of messages, in any world: no message is lost, none but
  the event's own changes its state, and that one moves as the event may move it. A delivery run
  takes a queued message to sending and leaves it there or takes it on from there by one allowed
  transition; cancelling and deleting take a queued or scheduled message to cancelled; a retry
  takes a failed message to queued; unscheduling takes a scheduled message to draft. All of these
  are edges of \<open>OutboundMessageState::allowedTransitions\<close>.
\<close>
theorem pipeline_conforms:
  assumes "find_message w i = Some m"
  shows "\<exists>m'. find_message (apply_event e w) i = Some m'
    \<and> (om_state m' = om_state m
       \<or> i = event_message e \<and>
          (case e of
             EvDeliver E tr mid \<Rightarrow> om_state m = Queued \<and> can_transition_to (om_state m) Sending
               \<and> (om_state m' = Sending \<or> can_transition_to Sending (om_state m'))
           | EvRetry E mid u k \<Rightarrow> om_state m = Failed \<and> om_state m' = Queued \<and> can_transition_to (om_state m) (om_state m')
           | EvUnschedule E u mid v \<Rightarrow> om_state m = Scheduled \<and> om_state m' = Draft \<and> can_transition_to (om_state m) (om_state m')
           | _ \<Rightarrow> om_state m \<in> {Queued, Scheduled} \<and> om_state m' = Cancelled \<and> can_transition_to (om_state m) (om_state m')))"
proof -
  from apply_event_moves [of e w] assms obtain m' where m': "find_message (apply_event e w) i = Some m'"
    "om_state m' = om_state m \<or> i = event_message e \<and> event_moves e (om_state m) (om_state m')"
    unfolding moves_only_def by blast
  then show ?thesis
    by (intro exI [of _ m']) (cases e; auto simp: delivery_moves_def action_moves can_transition_to_def)
qed

theorem pipeline_conforms_witness:
  "let w' = apply_event (EvCancel sample_env ''m1'' sample_user) sample_world
   in \<exists>m'. find_message w' ''m1'' = Some m' \<and> om_state m' = Cancelled \<and> can_transition_to Queued (om_state m')"
proof -
  have "map_option om_state (find_message (apply_event (EvCancel sample_env ''m1'' sample_user) sample_world) ''m1'') = Some Cancelled"
    by code_simp
  with pipeline_conforms [OF sample_message_m1, of "EvCancel sample_env ''m1'' sample_user"] show ?thesis
    by (auto simp: sample_message_simps Let_def simp del: apply_event.simps)
qed

text \<open>
  C4. Sent, delivered and cancelled messages are closed to the pipeline: no later sequence of
  runs and user actions changes the state of such a message or hands it to the transport again.
\<close>
theorem closed_messages_stay_closed:
  assumes "find_message w mid = Some m" and "om_state m \<in> {Sent, Delivered, Cancelled}"
  shows "(\<exists>m'. find_message (fold apply_event es w) mid = Some m' \<and> om_state m' = om_state m)
    \<and> mid \<notin> fst ` set (submissions es w)"
  using closed_events [OF assms] submissions_final [OF assms] by blast

theorem closed_messages_stay_closed_witness:
  "let w = save_message ''m1'' (sample_message ''m1'' Sent) sample_world;
       es = [EvRetry sample_env ''m1'' sample_user None, EvDeliver sample_env accepting ''m1'']
   in ''m1'' \<notin> fst ` set (submissions es w)"
proof -
  have "find_message (save_message ''m1'' (sample_message ''m1'' Sent) sample_world) ''m1''
      = Some (sample_message ''m1'' Sent)" by (simp add: find_save_message)
  from closed_messages_stay_closed [OF this] show ?thesis by (simp add: Let_def del: submissions.simps)
qed

text \<open>
  C5. The outcome of a delivery attempt is written once: no sequence of events changes an
  attempt row whose outcome is recorded.
\<close>
theorem attempt_outcomes_final:
  assumes "tbl_get (w_attempts w) k = Some a" and "attempt_is_terminal (at_state a)"
  shows "tbl_get (w_attempts (fold apply_event es w)) k = Some a"
  using keeps_events [of w es] assms unfolding keeps_outcomes_def by blast

theorem attempt_outcomes_final_witness:
  "let w = apply_event (EvDeliver sample_env failing ''m1'') sample_world;
       w' = apply_event (EvDeliver sample_env accepting ''m1'') w
   in map_option at_state (tbl_get (w_attempts w) (''m1'', 1)) = Some AttTemporaryFailure
    \<and> tbl_get (w_attempts w') (''m1'', 1) = tbl_get (w_attempts w) (''m1'', 1)"
proof -
  let ?w = "apply_event (EvDeliver sample_env failing ''m1'') sample_world"
  have s: "map_option at_state (tbl_get (w_attempts ?w) (''m1'', 1)) = Some AttTemporaryFailure" by code_simp
  then obtain a where a: "tbl_get (w_attempts ?w) (''m1'', 1) = Some a" "at_state a = AttTemporaryFailure" by auto
  then show ?thesis
    using attempt_outcomes_final [of ?w "(''m1'', 1)" a "[EvDeliver sample_env accepting ''m1'']"] s
    by (simp add: attempt_is_terminal_def)
qed

text \<open>
  C6. When the transport accepts a message whose reservation is open, the reservation is
  committed and every usage row is charged exactly the units the reservation holds for it: one
  message, the recipients and the attachment bytes.
\<close>
theorem accepted_delivery_charges:
  assumes "deliver E tr mid w = (je, Some p, w')" and "tr p = Inr r" and "dr_result r = Accepted"
    and "cf_metering_enabled (e_cfg E)"
    and "find_reservation w mid = Some res" and "ur_state res = Reserved"
  shows "used_value w' uid = map_option (\<lambda>n. n + charge res uid) (used_value w uid)
    \<and> reservation_status w' mid = Some Committed"
proof -
  obtain w2 m where w2: "w_usages w2 = w_usages w" "w_reservations w2 = w_reservations (record_attempt_started E m w)"
      "w_usages w' = w_usages (commit E mid w2)" "w_reservations w' = w_reservations (commit E mid w2)"
    using deliver_usages [OF assms(1)] assms(2,3) by auto
  obtain res' where r': "find_reservation w2 mid = Some res'" "charge res' uid = charge res uid" "ur_state res' = Reserved"
    using reservation_after_start(2) [OF w2(2) assms(5)] assms(6) by metis
  have "reservation_status (commit E mid w2) mid = Some Committed"
    using r' assms(4) by (simp add: reservation_status_def find_commit)
  then have "reservation_status w' mid = Some Committed" using w2(4) by (simp add: reservation_status_def find_reservation_def)
  then show ?thesis
    using used_commit [OF assms(4) r'(1,3)] r'(2) used_value_usages [OF w2(1)] used_value_usages [OF w2(3)] by simp
qed

theorem accepted_delivery_charges_witness:
  "let w' = snd (snd (deliver sample_env accepting ''m1'' reserved_world))
   in used_value reserved_world ''usage1'' = Some 0 \<and> used_value w' ''usage1'' = Some 1
    \<and> reservation_status w' ''m1'' = Some Committed"
proof -
  let ?w' = "snd (snd (deliver sample_env accepting ''m1'' reserved_world))"
  have sub: "fst (snd (deliver sample_env accepting ''m1'' reserved_world)) \<noteq> None" by code_simp
  then obtain je p where d: "deliver sample_env accepting ''m1'' reserved_world = (je, Some p, ?w')"
    by (cases "deliver sample_env accepting ''m1'' reserved_world") auto
  have res: "find_reservation reserved_world ''m1'' = Some sample_reservation \<and> ur_state sample_reservation = Reserved
     \<and> charge sample_reservation ''usage1'' = 1 \<and> used_value reserved_world ''usage1'' = Some 0
     \<and> cf_metering_enabled (e_cfg sample_env)" by code_simp
  from accepted_delivery_charges [OF d, of _ sample_reservation "''usage1''"] res show ?thesis
    by (simp add: accepting_def Let_def)
qed

text \<open>
  C7. A message whose reservation is missing or no longer open is delivered without any
  charge. This is what happens to a message that failed before the transport call (its
  reservation was released), was retried by hand and is accepted then.
\<close>
theorem closed_reservation_not_charged:
  assumes "deliver E tr mid w = (je, Some p, w')" and "reservation_status w mid \<noteq> Some Reserved"
  shows "used_value w' uid = used_value w uid"
proof -
  obtain w2 m where w2: "w_usages w2 = w_usages w" "w_reservations w2 = w_reservations (record_attempt_started E m w)"
    and w': "w_usages w' = w_usages (commit E mid w2) \<or> w_usages w' = w_usages w"
    using deliver_usages [OF assms(1)] by (cases "tr p") (auto split: if_splits)
  have "reservation_status w2 mid \<noteq> Some Reserved"
    using reservation_after_start(1) [OF w2(2)] assms(2) by simp
  then have "commit E mid w2 = w2" by (rule used_commit_closed)
  with w' w2(1) have "w_usages w' = w_usages w" by auto
  then show ?thesis by (rule used_value_usages)
qed

theorem closed_reservation_not_charged_witness:
  "let w' = snd (snd (deliver sample_env accepting ''m1'' sample_world))
   in map_option om_state (find_message w' ''m1'') = Some Sent \<and> used_value w' ''id-0'' = None"
proof -
  let ?w' = "snd (snd (deliver sample_env accepting ''m1'' sample_world))"
  have sub: "fst (snd (deliver sample_env accepting ''m1'' sample_world)) \<noteq> None
     \<and> map_option om_state (find_message ?w' ''m1'') = Some Sent
     \<and> reservation_status sample_world ''m1'' = None \<and> used_value sample_world ''id-0'' = None" by code_simp
  then obtain je p where d: "deliver sample_env accepting ''m1'' sample_world = (je, Some p, ?w')"
    by (cases "deliver sample_env accepting ''m1'' sample_world") auto
  from closed_reservation_not_charged [OF d, of "''id-0''"] sub show ?thesis by (simp add: Let_def)
qed

section \<open>The usage ledger\<close>

text \<open>
  C8. A new reservation fits the allowance: for every metered dimension of the user's plan the
  reservation names a usage row of the database, which is the subscription's row for that
  feature, and what that row has used plus all outstanding reservations of its period, the new
  one included, stays within the limit. The usage table has its rows under their own ids, and the
  ids drawn for new rows are not in use.
\<close>
theorem reserve_within_limits:
  assumes "reserve E u m key by w = (Inr (Some r), w')" and "cf_metering_enabled (e_cfg E)"
    and "find_reservation w (om_id m) = None" and "current_subscription w u = Some s"
    and "(d, c) \<in> set (resolve_dimensions E w u)" and "di_limit c = Some l" and "di_feature c = Some f"
    and "keyed_usages w" and "fresh_usage_ids E w"
  shows "\<exists>uid row. (d, uid) \<in> set (ur_usage_ids r) \<and> tbl_get (w_usages w') uid = Some row
    \<and> su_subscription_id row = sb_id s \<and> su_feature_id row = ft_id f
    \<and> su_used_value row + outstanding_reserved_units w' (sb_id s) d (su_period_start row) \<le> l
    \<and> find_reservation w' (om_id m) = Some r"
  using assms(1,2,3)
proof (rule reserve_new_cases)
  fix rows w1
  let ?rc = "max 0 (recipient_count m)" and ?b = "max 0 by"
  assume chk: "check_allowance E u (current_subscription w u) ?rc ?b True w = (Inr rows, w1)"
    and ids: "ur_usage_ids r = map (\<lambda>(d, row). (d, su_id row)) rows"
    and units: "ur_message_units r = 1" "ur_recipient_units r = ?rc" "ur_attachment_bytes r = ?b"
    and w': "w' = maybe_notify_usage E u (map_option sb_id (current_subscription w u)) rows (save_reservation (om_id m) r w1)"
  have chk': "check_dimensions E (Some (sb_id s)) ?rc ?b True (resolve_dimensions E w u) w = (Inr rows, w1)"
    using chk by (simp add: check_allowance_def assms(4))
  note ok = check_dimensions_locked [OF chk']
  from check_dimensions_rows [OF chk' assms(8,9)] assms(5-7)
  obtain x row where row: "(d, x) \<in> set rows" "su_limit_value x = l" "tbl_get (w_usages w1) (su_id x) = Some row"
    "same_but_limit x row" "su_subscription_id row = sb_id s" "su_feature_id row = ft_id f" by blast
  have same: "su_used_value row = su_used_value x" "su_period_start row = su_period_start x"
    using row(4) by (auto simp: same_but_limit_def)
  have new: "find_reservation w1 (om_id m) = None" using ok assms(3) by (simp add: find_reservation_def)
  have du: "dimension_units d r = units_for_dimension d ?rc ?b" "0 \<le> units_for_dimension d ?rc ?b"
    by (simp_all add: dimension_units_def units_for_dimension_def units)
  have "outstanding_reserved_units w' (sb_id s) d (su_period_start row)
      = outstanding_reserved_units (save_reservation (om_id m) r w1) (sb_id s) d (su_period_start row)"
    by (rule outstanding_cong) (simp add: w')
  also have "\<dots> \<le> outstanding_reserved_units w1 (sb_id s) d (su_period_start row) + units_for_dimension d ?rc ?b"
    using outstanding_after_save [OF new] du by simp
  also have "outstanding_reserved_units w1 (sb_id s) d (su_period_start row) = outstanding_reserved_units w (sb_id s) d (su_period_start row)"
    by (rule outstanding_cong) (use ok in simp)
  finally have "su_used_value row + outstanding_reserved_units w' (sb_id s) d (su_period_start row) \<le> l"
    using ok row(1,2) same by fastforce
  moreover have "(d, su_id x) \<in> set (ur_usage_ids r)" using row(1) ids by force
  moreover have "tbl_get (w_usages w') (su_id x) = Some row" using row(3) by (simp add: w' save_reservation_def)
  moreover have "find_reservation w' (om_id m) = Some r"
    by (simp add: w' find_reservation_def save_reservation_def tbl_simps)
  ultimately show ?thesis using row(5,6) by blast
qed

theorem reserve_within_limits_witness:
  "\<exists>r w'. reserve sample_env sample_user (sample_message ''m1'' Queued) ''key-m1'' 0 sample_world = (Inr (Some r), w')
     \<and> (\<exists>uid row. (''messages'', uid) \<in> set (ur_usage_ids r) \<and> tbl_get (w_usages w') uid = Some row
         \<and> su_used_value row + outstanding_reserved_units w' ''s1'' ''messages'' (su_period_start row) \<le> 2)"
proof -
  obtain r w' where o: "reserve sample_env sample_user (sample_message ''m1'' Queued) ''key-m1'' 0 sample_world = (Inr (Some r), w')"
    by (rule sample_reserve)
  have n: "find_reservation sample_world (om_id (sample_message ''m1'' Queued)) = None"
    by (simp add: sample_reserve_facts)
  obtain c f where c: "(''messages'', c) \<in> set (resolve_dimensions sample_env sample_world sample_user)"
    "di_limit c = Some 2" "di_feature c = Some f"
    using sample_reserve_facts(3) by (auto simp: limited_dimensions_def split: option.splits) metis
  from reserve_within_limits [OF o sample_reserve_facts(4) n sample_reserve_facts(2) c sample_usage_ids] o
  show ?thesis unfolding sample_reserve_facts(5) by blast
qed

text \<open>
  C9. A reservation that is refused leaves the database as it was: only the cache and the
  identifier counter, which are outside it, may have moved.
\<close>
theorem reserve_refused_rolls_back:
  assumes "reserve E u m key by w = (Inl e, w')"
  shows "w' = w\<lparr>w_cache := w_cache w', w_cache_ttl := w_cache_ttl w', w_next_id := w_next_id w'\<rparr>"
  using assms by (rule reserve_rollback)

theorem reserve_refused_rolls_back_witness:
  "\<exists>e w'. reserve sample_env sample_user (sample_message ''m1'' Queued) ''key-m1'' 0 exhausted_world = (Inl e, w')
     \<and> w_usages w' = [] \<and> w_reservations w' = []"
proof -
  obtain e w' where r: "reserve sample_env sample_user (sample_message ''m1'' Queued) ''key-m1'' 0 exhausted_world = (Inl e, w')"
    by (rule exhausted_refuses)
  note rolled_back = reserve_refused_rolls_back [OF r]
  have "w_usages w' = w_usages exhausted_world" "w_reservations w' = w_reservations exhausted_world"
    by (subst rolled_back, simp)+
  with r show ?thesis by (auto simp: exhausted_world_def sample_world_def)
qed

text \<open>
  C10. The first settlement decides: of any sequence of commits and releases of reservations,
  whatever their environments' reasons, the first one for a message whose reservation is open
  fixes its state for good.
\<close>
theorem first_settlement_decides:
  assumes "cf_metering_enabled (e_cfg E)" and "reservation_status w mid = Some Reserved"
  shows "reservation_status
      (fold (\<lambda>(commits, k) v. if commits then commit E k v else release_reservation E k reason actor v) cs w) mid
    = (case filter (\<lambda>c. snd c = mid) cs of
         [] \<Rightarrow> Some Reserved
       | c # _ \<Rightarrow> Some (if fst c then Committed else Released))"
proof -
  have "(\<lambda>(commits, k) v. if commits then commit E k v else release_reservation E k reason actor v)
     = ledger.call E reason actor"
    by (intro ext) (auto simp: ledger.call_def)
  then show ?thesis using ledger.first_call_decides [OF assms] by simp
qed

theorem first_settlement_decides_witness:
  "reservation_status (release_reservation sample_env ''m1'' ''late'' None (commit sample_env ''m1'' reserved_world)) ''m1''
     = Some Committed"
proof -
  have "cf_metering_enabled (e_cfg sample_env)" "reservation_status reserved_world ''m1'' = Some Reserved" by code_simp+
  from first_settlement_decides [OF this, of "''late''" None "[(True, ''m1''), (False, ''m1'')]"] show ?thesis by simp
qed

text \<open>
  C11. The expiry of abandoned reservations touches no used value and closes only reservations
  that are open, have an expiry time that has passed, and whose message is cancelled, or failed with
  no transport attempt recorded; everything it scans is counted as released or ambiguous.
\<close>
theorem expiry_only_releases_safe:
  assumes "expire_reservations E batch dry w = (rep, w')"
  shows "(\<forall>k. reservation_status w' k \<noteq> reservation_status w k \<longrightarrow>
      \<not> dry \<and> reservation_status w k = Some Reserved \<and> reservation_status w' k = Some Expired
      \<and> (\<exists>m. find_message w k = Some m
            \<and> (om_state m = Cancelled \<or> om_state m = Failed \<and> om_transport_attempted_at m = None))
      \<and> (\<exists>r t. r \<in> set (tbl_rows (w_reservations w)) \<and> ur_outbound_message_id r = k
            \<and> ur_state r = Reserved \<and> ur_expires_at r = Some t \<and> t < e_now E
            \<and> (keyed_reservations w \<longrightarrow> find_reservation w k = Some r)))
    \<and> (\<forall>uid. used_value w' uid = used_value w uid)
    \<and> er_released rep + er_ambiguous rep = er_scanned rep \<and> er_scanned rep \<le> nat (max 1 batch)"
proof -
  let ?cs = "expiry_candidates E w batch"
  let ?r0 = "\<lparr>er_scanned = 0, er_released = 0, er_ambiguous = 0\<rparr>"
  have run: "expire_loop E dry ?cs ?r0 w = (rep, w')" using assms by (simp add: expire_reservations_def)
  have "\<not> dry \<and> reservation_status w k = Some Reserved \<and> reservation_status w' k = Some Expired
      \<and> (\<exists>m. find_message w k = Some m
            \<and> (om_state m = Cancelled \<or> om_state m = Failed \<and> om_transport_attempted_at m = None))
      \<and> (\<exists>r t. r \<in> set (tbl_rows (w_reservations w)) \<and> ur_outbound_message_id r = k
            \<and> ur_state r = Reserved \<and> ur_expires_at r = Some t \<and> t < e_now E
            \<and> (keyed_reservations w \<longrightarrow> find_reservation w k = Some r))"
    if "reservation_status w' k \<noteq> reservation_status w k" for k
  proof -
    have ch: "reservation_status (snd (expire_loop E dry ?cs ?r0 w)) k \<noteq> reservation_status w k"
      using that run by simp
    from expire_loop_status [OF ch] obtain r where c: "r \<in> set ?cs" and r: "ur_outbound_message_id r = k" "safe_to_release w r"
      "reservation_status w k = Some Reserved" "reservation_status w' k = Some Expired"
      unfolding run snd_conv by blast
    moreover have "\<not> dry" using ch by (cases dry) (simp_all add: expire_loop_dry)
    moreover from expiry_candidates_rows [OF c] keyed_reservation [of w r] r(1)
    have "\<exists>r t. r \<in> set (tbl_rows (w_reservations w)) \<and> ur_outbound_message_id r = k
            \<and> ur_state r = Reserved \<and> ur_expires_at r = Some t \<and> t < e_now E
            \<and> (keyed_reservations w \<longrightarrow> find_reservation w k = Some r)" by auto
    ultimately show ?thesis by (auto simp: safe_to_release_def split: option.splits)
  qed
  moreover have "used_value w' uid = used_value w uid" for uid
    using expire_loop_usages [of E dry ?cs ?r0 w] run by (simp add: used_value_def)
  moreover have "er_released rep + er_ambiguous rep = er_scanned rep" "er_scanned rep = length ?cs"
    using expire_loop_counts [of E dry ?cs ?r0 w] run by simp_all
  moreover have "length ?cs \<le> nat (max 1 batch)" by (simp add: expiry_candidates_def)
  ultimately show ?thesis by auto
qed

theorem expiry_only_releases_safe_witness:
  "let r = expire_reservations sample_env 10 False abandoned_world
   in reservation_status (snd r) ''m1'' = Some Expired \<and> er_released (fst r) + er_ambiguous (fst r) = er_scanned (fst r)"
proof -
  let ?r = "expire_reservations sample_env 10 False abandoned_world"
  have "reservation_status (snd ?r) ''m1'' = Some Expired" by code_simp
  with expiry_only_releases_safe [of sample_env 10 False abandoned_world "fst ?r" "snd ?r"] show ?thesis
    by (simp add: Let_def)
qed

section \<open>Gates and policies\<close>

text \<open>
  C12. Raising the rollout percentage never excludes an account that was included: the bucket
  of an account depends on its id only.
\<close>
theorem rollout_monotone:
  assumes "within_percentage E w u" and "rollout_percent E w \<le> rollout_percent E' w'" and "e_sha256 E' = e_sha256 E"
  shows "within_percentage E' w' u"
  using assms bucket_same_hash [of E' E u] by (simp add: within_percentage_iff)

theorem rollout_monotone_witness:
  "let w = \<lambda>p. cache_forever cache_percent_key (PInt p) sample_world
   in within_percentage sample_env (w 90) sample_user \<and> within_percentage sample_env (w 95) sample_user"
proof -
  have "within_percentage sample_env (cache_forever cache_percent_key (PInt 90) sample_world) sample_user"
    "rollout_percent sample_env (cache_forever cache_percent_key (PInt 90) sample_world)
      \<le> rollout_percent sample_env (cache_forever cache_percent_key (PInt 95) sample_world)" by code_simp+
  with rollout_monotone [OF this refl] show ?thesis by simp
qed

text \<open>
  C13. In any world in which outbound mail is stopped, be it by the flag in the cache or by the
  configuration, a run of the delivery job hands nothing to the transport, changes no message,
  attempt, reservation or usage row and goes back to the queue with a positive delay, and no
  authorization passes. Setting the flag stops outbound mail in every environment, and then no
  sequence of runs and user actions hands any message to the transport or lifts the stop.
\<close>
theorem emergency_stop_holds:
  assumes "is_emergency_stopped E w"
  shows "(\<exists>d w'. deliver E tr mid w = (ReleasedFor d, None, w') \<and> 1 \<le> d
         \<and> w_messages w' = w_messages w \<and> w_attempts w' = w_attempts w
         \<and> w_reservations w' = w_reservations w \<and> w_usages w' = w_usages w)
    \<and> (\<exists>w'. assert_can_send E u ib op k w
         = (Inl (OutboundSendException ''outbound_emergency_stop'' ''Outbound email is temporarily stopped.'' 503), w'))
    \<and> (\<forall>E0 actor w0 E' es. let s = set_emergency_stop E0 True actor w0 in
         is_emergency_stopped E' s \<and> submissions es s = [] \<and> is_emergency_stopped E' (fold apply_event es s))"
proof -
  have "stop_flag (set_emergency_stop E0 True actor w0) = Some (PBool True)" for E0 actor w0
    by (simp add: set_emergency_stop_def cache_forever_def stop_flag_def cache_get_def tbl_simps)
  note f = this stopped_pipeline [OF this]
  show ?thesis using assms by (auto simp: deliver_def assert_can_send_def stopped_flag f Let_def)
qed

theorem emergency_stop_holds_witness:
  "let E = sample_env\<lparr>e_cfg := sample_config\<lparr>cf_emergency_stop := True\<rparr>\<rparr>
   in is_emergency_stopped E sample_world \<and> fst (snd (deliver E accepting ''m1'' sample_world)) = None"
proof -
  have "is_emergency_stopped (sample_env\<lparr>e_cfg := sample_config\<lparr>cf_emergency_stop := True\<rparr>\<rparr>) sample_world" by code_simp
  from this emergency_stop_holds [OF this, of accepting "''m1''" sample_user sample_inbox OpSend None] show ?thesis
    unfolding Let_def by (elim conjE exE) simp
qed

text \<open>
  C14. A rollout change is checked against the mode in force before it: while that mode is
  not a live one, switching to \<open>enabled\<close> succeeds whatever the prerequisites say, with no
  valid transport, no ready queue, no verified domain and no webhook secret.
\<close>
theorem rollout_prerequisites_skipped:
  assumes "rollout_mode E w \<notin> set live_modes" and "is_supported_mode E ''enabled''" and "0 \<le> percent" "percent \<le> 100"
  shows "\<exists>w'. set_rollout E False False ''enabled'' percent actor w = (Inr (), w') \<and> rollout_mode E w' = ''enabled''"
proof -
  have norm: "strtolower (trim ''enabled'') = ''enabled''" by code_simp
  have "set (provider_config_errors E) \<inter> set live_traffic_codes = {}"
    by (auto simp: provider_config_errors_def live_traffic_codes_def Let_def split: option.splits)
  then have none: "filter (\<lambda>e. e \<in> set live_traffic_codes) (launch_errors E False False w) = []"
    using assms(1) by (auto simp: launch_errors_def Let_def live_traffic_codes_def filter_empty_conv)
  have "rollout_mode E (audit_write E a b c p q r (cache_forever cache_percent_key v (cache_forever cache_mode_key (PStr ''enabled'') w)))
      = ''enabled''" for a b c p q r v
    by (simp add: rollout_mode_def norm)
  with none assms norm show ?thesis by (simp add: set_rollout_def Let_def)
qed

theorem rollout_prerequisites_skipped_witness:
  "let w = cache_forever cache_mode_key (PStr ''disabled'') sample_world
   in \<exists>w'. set_rollout sample_env False False ''enabled'' 0 sample_user w = (Inr (), w')"
proof -
  let ?w = "cache_forever cache_mode_key (PStr ''disabled'') sample_world"
  have "rollout_mode sample_env ?w \<notin> set live_modes" "is_supported_mode sample_env ''enabled''" by code_simp+
  from rollout_prerequisites_skipped [OF this, of 0] show ?thesis by auto
qed

text \<open>
  C15. A verification after which a domain may send either found exactly one SPF record of the
  domain, without \<open>+all\<close> and with what the default provider wants there (the include of SES, or
  the SMTP host where one is set), every expected DKIM host published, and no failed DMARC check;
  or a DNS look-up failed for the time being, and the domain might send before.
\<close>
theorem verified_domain_is_published:
  assumes "verify_domain E d p manual w = (Inr a, w')" and "auth_allows_sending E a"
  shows "(\<exists>ow spf dkim dmarc records r.
        check_records E d (expected_records_for E d (Some (resolve_provider E p))) = Inr (ow, spf, dkim, dmarc)
      \<and> e_dns_txt E (dm_domain d) = Inr records
      \<and> filter (\<lambda>x. str_starts_with (strtolower x) ''v=spf1'') records = [r] \<and> \<not> str_contains r ''+all''
      \<and> (if resolve_provider E None = ''ses'' then str_contains r (strtolower (cf_ses_spf_include (e_cfg E)))
         else strtolower (trim (cf_smtp_host (e_cfg E))) = [] \<or> str_contains r (strtolower (trim (cf_smtp_host (e_cfg E)))))
      \<and> ex_dkim (expected_records_for E d (Some (resolve_provider E p))) \<noteq> []
      \<and> (\<forall>hv \<in> set (ex_dkim (expected_records_for E d (Some (resolve_provider E p)))). dkim_published E hv)
      \<and> dmarc \<noteq> AuthFailed)
    \<or> (check_records E d (expected_records_for E d (Some (resolve_provider E p))) = Inl (RuntimeException ''dns_lookup_failed'')
      \<and> (\<exists>a0. tbl_get (w_domain_auths w) (dm_id d, resolve_provider E p) = Some a0
           \<and> auth_allows_sending E a0 \<and> da_state a = da_state a0))"
proof (cases "check_records E d (expected_records_for E d (Some (resolve_provider E p)))")
  case (Inl x)
  then show ?thesis using verify_domain_transient [OF assms(1) Inl assms(2)] by blast
next
  case (Inr checks)
  obtain ow spf dkim dmarc where c: "checks = (ow, spf, dkim, dmarc)" by (metis prod_cases4)
  note chk = Inr [unfolded c]
  let ?ex = "expected_records_for E d (Some (resolve_provider E p))"
  have "state_allows_sending (compose_state ow spf dkim dmarc) (cf_allow_degraded_dmarc (e_cfg E))"
    using assms(2) verify_domain_completed(1) [OF chk assms(1)] by (simp add: auth_allows_sending_def)
  note sends = compose_state_sends [OF this]
  note checks = check_records_dkim [OF chk]
  from checks sends(1) obtain records r where "e_dns_txt E (dm_domain d) = Inr records"
    "filter (\<lambda>x. str_starts_with (strtolower x) ''v=spf1'') records = [r]" "\<not> str_contains r ''+all''"
    "if resolve_provider E None = ''ses'' then str_contains r (strtolower (cf_ses_spf_include (e_cfg E)))
     else strtolower (trim (cf_smtp_host (e_cfg E))) = [] \<or> str_contains r (strtolower (trim (cf_smtp_host (e_cfg E))))"
    by (auto elim: verify_spf_verified)
  moreover have "ex_dkim ?ex \<noteq> [] \<and> (\<forall>hv \<in> set (ex_dkim ?ex). dkim_published E hv)"
    using verify_dkim_verified checks sends(2) by blast
  ultimately show ?thesis using sends(3) chk by blast
qed

theorem verified_domain_is_published_witness:
  "let a = fst (verify_domain ses_env sample_domain None True sample_world)
   in (case a of Inr auth \<Rightarrow> auth_allows_sending ses_env auth | Inl _ \<Rightarrow> False)
     \<and> (\<forall>hv \<in> set (ex_dkim (expected_records_for ses_env sample_domain (Some (resolve_provider ses_env None)))).
          dkim_published ses_env hv)"
proof -
  let ?v = "verify_domain ses_env sample_domain None True sample_world"
  let ?c = "check_records ses_env sample_domain (expected_records_for ses_env sample_domain (Some (resolve_provider ses_env None)))"
  have h: "(case fst ?v of Inr auth \<Rightarrow> auth_allows_sending ses_env auth | Inl _ \<Rightarrow> False)"
    and c: "?c = Inr (AuthVerified, AuthVerified, AuthVerified, AuthVerified)" by code_simp+
  then obtain a where a: "?v = (Inr a, snd ?v)" "auth_allows_sending ses_env a" by (cases ?v) (auto split: sum.splits)
  from verified_domain_is_published [OF a(1,2)]
  have "\<forall>hv \<in> set (ex_dkim (expected_records_for ses_env sample_domain (Some (resolve_provider ses_env None)))).
          dkim_published ses_env hv"
    unfolding c by (simp only: sum.distinct simp_thms) blast
  with h show ?thesis unfolding Let_def by blast
qed

text \<open>
  C16. With the generic provider and an SMTP host, verification can never make a domain ready:
  no DKIM records are expected, the DKIM check stays unconfigured, and the send gate (when
  enforced) refuses the domain after any completed verification.
\<close>
theorem generic_domain_never_ready:
  assumes "resolve_provider E p = ''generic''" and "trim (cf_smtp_host (e_cfg E)) \<noteq> []" and "cf_domain_auth_enforce (e_cfg E)"
    and "check_records E d (expected_records_for E d (Some (resolve_provider E p))) = Inr checks"
    and "verify_domain E d p manual w = (Inr a, w')"
  shows "\<not> fst (is_domain_ready E d p w')"
proof -
  obtain ow spf dkim dmarc where c: "checks = (ow, spf, dkim, dmarc)" by (metis prod_cases4)
  have complete: "check_records E d (expected_records_for E d (Some (resolve_provider E p))) = Inr (ow, spf, dkim, dmarc)"
    using assms(4) c by simp
  have g: "resolve_provider E (Some ''generic'') = ''generic''"
    using resolve_provider_idem [of E p] unfolding assms(1) .
  have "ex_dkim (expected_records_for E d (Some (resolve_provider E p))) = []"
    by (rule generic_has_no_dkim) (simp only: assms(1) g)
  then have "dkim = AuthUnconfigured" using check_records_dkim [OF complete] by (simp add: verify_dkim_def)
  then have "\<not> auth_allows_sending E a"
    using compose_state_sends(2) [of ow spf dkim dmarc] verify_domain_completed(1) [OF complete assms(5)]
    by (auto simp: auth_allows_sending_def)
  moreover have "ex_spf (expected_records_for E d (Some ''generic'')) \<noteq> None"
    using assms(2) g by (simp add: expected_records_for_def Let_def)
  ultimately show ?thesis
    using assms(1,3) verify_domain_completed(2) [OF complete assms(5)]
    by (simp add: is_domain_ready_def assert_domain_ready_def Let_def)
qed

theorem generic_domain_never_ready_witness:
  "let E = sample_env\<lparr>e_cfg := sample_config\<lparr>cf_smtp_host := ''mail.example.test''\<rparr>\<rparr>
   in \<not> fst (is_domain_ready E sample_domain None (snd (verify_domain E sample_domain None True sample_world)))"
proof -
  let ?E = "sample_env\<lparr>e_cfg := sample_config\<lparr>cf_smtp_host := ''mail.example.test''\<rparr>\<rparr>"
  let ?v = "verify_domain ?E sample_domain None True sample_world"
  have h: "resolve_provider ?E None = ''generic''" "trim (cf_smtp_host (e_cfg ?E)) \<noteq> []" "cf_domain_auth_enforce (e_cfg ?E)"
    "check_records ?E sample_domain (expected_records_for ?E sample_domain (Some (resolve_provider ?E None)))
       = Inr (AuthUnconfigured, AuthPending, AuthUnconfigured, AuthPending)"
    "(case fst ?v of Inr _ \<Rightarrow> True | Inl _ \<Rightarrow> False)" by code_simp+
  then obtain a where "?v = (Inr a, snd ?v)" by (cases ?v) (auto split: sum.splits)
  from generic_domain_never_ready [OF h(1-4) this] show ?thesis by (simp add: Let_def)
qed

section \<open>User actions\<close>

text \<open>
  C17. Cancelling succeeds exactly for the owner of a queued or scheduled message. It cancels
  that row and no other, and gives back the reservation of a queued message.
\<close>
theorem cancel_spec:
  shows "((\<exists>m' w'. cancel_message E mid u w = (Inr m', w')) \<longleftrightarrow>
       (\<exists>m. find_message w mid = Some m \<and> om_user_id m = u_id u \<and> om_state m \<in> {Queued, Scheduled}))
    \<and> (\<forall>m' w'. cancel_message E mid u w = (Inr m', w') \<longrightarrow>
         (\<forall>i. find_message w' i = (if i = mid then Some m' else find_message w i)) \<and> om_state m' = Cancelled
         \<and> (cf_metering_enabled (e_cfg E) \<and> map_option om_state (find_message w mid) = Some Queued
            \<and> reservation_status w mid = Some Reserved \<longrightarrow> reservation_status w' mid = Some Released))"
proof (intro conjI allI impI)
  show "(\<exists>m' w'. cancel_message E mid u w = (Inr m', w')) \<longleftrightarrow>
       (\<exists>m. find_message w mid = Some m \<and> om_user_id m = u_id u \<and> om_state m \<in> {Queued, Scheduled})"
    using cancel_message_iff [of E mid u w] by (auto simp: owned_message_Some)
next
  fix m' w'
  assume c: "cancel_message E mid u w = (Inr m', w')"
  show "find_message w' i = (if i = mid then Some m' else find_message w i)" for i
    by (rule cancel_message_Inr [OF c]) simp
  show "om_state m' = Cancelled"
    by (rule cancel_message_Inr [OF c]) simp
  assume h: "cf_metering_enabled (e_cfg E) \<and> map_option om_state (find_message w mid) = Some Queued
            \<and> reservation_status w mid = Some Reserved"
  show "reservation_status w' mid = Some Released"
    by (rule cancel_message_Inr [OF c]) (use h in \<open>auto simp: reservation_status_def find_release\<close>)
qed

theorem cancel_spec_witness:
  "let r = cancel_message sample_env ''m1'' sample_user reserved_world
   in reservation_status (snd r) ''m1'' = Some Released \<and> (\<exists>m'. fst r = Inr m' \<and> om_state m' = Cancelled)"
proof -
  let ?r = "cancel_message sample_env ''m1'' sample_user reserved_world"
  have h: "(case fst ?r of Inr _ \<Rightarrow> True | Inl _ \<Rightarrow> False) \<and> cf_metering_enabled (e_cfg sample_env)
     \<and> map_option om_state (find_message reserved_world ''m1'') = Some Queued
     \<and> reservation_status reserved_world ''m1'' = Some Reserved" by code_simp
  then obtain m' where r: "?r = (Inr m', snd ?r)" by (cases ?r) (auto split: sum.splits)
  have "om_state m' = Cancelled \<and> reservation_status (snd ?r) ''m1'' = Some Released"
    using cancel_spec [of sample_env "''m1''" sample_user reserved_world] r h by blast
  moreover have "fst ?r = Inr m'" by (metis fst_conv r)
  ultimately show ?thesis unfolding Let_def by blast
qed

text \<open>
  C18. Deleting hides the message and changes no other row: a queued or scheduled message is
  cancelled first, any other keeps its state; and a second deletion is refused with 409.
\<close>
theorem delete_spec:
  assumes "delete_message E mid u w = (Inr m', w')"
  shows "om_user_deleted_at m' = Some (e_now E)
    \<and> (\<exists>m. find_message w mid = Some m \<and> om_user_id m = u_id u
           \<and> om_state m' = (if om_state m \<in> {Queued, Scheduled} then Cancelled else om_state m))
    \<and> find_message w' i = (if i = mid then Some m' else find_message w i)
    \<and> fst (delete_message E2 mid u w') = Inl (OutboundSendException ''already_deleted'' ''Outbound message already deleted.'' 409)"
proof -
  obtain m where m: "find_message w mid = Some m" "om_user_id m = u_id u"
    "m' = (if om_state m \<in> {Queued, Scheduled} then cancelled_row E m else m)
            \<lparr>om_user_deleted_at := Some (e_now E), om_updated_at := e_now E\<rparr>"
    and f: "\<And>i. find_message w' i = (if i = mid then Some m' else find_message w i)"
    using assms by (rule delete_message_Inr) blast
  have d: "om_user_deleted_at m' = Some (e_now E)" by (simp add: m(3))
  have st: "om_state m' = (if om_state m \<in> {Queued, Scheduled} then Cancelled else om_state m)" by (simp add: m(3))
  have "om_user_id m' = u_id u" by (simp add: m(2,3))
  then have "owned_message w' mid u = Some m'" unfolding owned_message_Some f by simp
  then have "fst (delete_message E2 mid u w') = Inl (OutboundSendException ''already_deleted'' ''Outbound message already deleted.'' 409)"
    by (simp add: delete_message_def delete_body_def transaction_def d is_user_deleted_def already_deleted_error_def)
  with d st m(1,2) f show ?thesis by blast
qed

theorem delete_spec_witness:
  "let w' = snd (delete_message sample_env ''m2'' sample_user sample_world)
   in map_option om_state (find_message w' ''m2'') = Some Sent
     \<and> fst (delete_message sample_env ''m2'' sample_user w')
        = Inl (OutboundSendException ''already_deleted'' ''Outbound message already deleted.'' 409)"
proof -
  let ?r = "delete_message sample_env ''m2'' sample_user sample_world"
  have h: "(case fst ?r of Inr _ \<Rightarrow> True | Inl _ \<Rightarrow> False)
     \<and> map_option om_state (find_message (snd ?r) ''m2'') = Some Sent" by code_simp
  from is_InrD [OF h [THEN conjunct1]] obtain m' where "fst ?r = Inr m'" ..
  then have "?r = (Inr m', snd ?r)" by (rule prod_eqI [OF trans]) simp_all
  then have "fst (delete_message sample_env ''m2'' sample_user (snd ?r))
      = Inl (OutboundSendException ''already_deleted'' ''Outbound message already deleted.'' 409)"
    by (rule delete_spec [of sample_env "''m2''" sample_user sample_world m' _ "''m2''" sample_env, THEN conjunct2,
          THEN conjunct2, THEN conjunct2])
  with h show ?thesis unfolding Let_def by (rule conjI [OF conjunct2])
qed

end
